(* ===== verification/COS_Prelude.thy ===== *)
theory COS_Prelude
  imports Main "HOL-Library.Word" "HOL-Library.Signed_Division"
begin

text \<open>
  Shared vocabulary of the COS32 development: the widths of the C types, the outcomes a kernel
  routine can have (a value, or a stop of the machine), sequencing of routines that can stop,
  the status codes of \<open>status.h\<close>, the constants of \<open>config.h\<close>, and the facts on
  words and page arithmetic that several components use.

  Conventions of the whole development: \<open>uint32_t\<close>, \<open>size_t\<close> and pointers are
  \<open>32 word\<close> and wrap; \<open>uint8_t\<close> and \<open>char\<close> are \<open>8 word\<close>; a C \<open>int\<close>
  is a HOL \<open>int\<close>, because signed overflow has no defined result in C, and a conversion
  between the two is written out with \<open>sint\<close> or \<open>word_of_int\<close>.
\<close>

section \<open>Types of the C program\<close>

unbundle bit_operations_syntax

type_synonym byte = "8 word"
type_synonym u16 = "16 word"
type_synonym u32 = "32 word"
type_synonym addr = "32 word"

text \<open>
  \<open>panic\<close> prints its message and loops forever, and a failed \<open>ASSERT\<close> prints the
  function's name and panics: both are stops of the machine.  A division by zero raises the
  processor's divide exception. \<open>BadPointer\<close> is an access
  through a pointer at which no object of the accessed type was ever created.
\<close>

datatype fault =
    Panic string
  | AssertFailed string
  | BadPointer addr
  | NoReturn
  | DivideError

type_synonym 'a outcome = "fault + 'a"

named_theorems run_simps \<open>equations that run the kernel routines\<close>
named_theorems word_layout \<open>facts on addresses, pages and bit fields\<close>

section \<open>Sequencing routines that can stop\<close>

fun bindE :: "'a outcome \<Rightarrow> ('a \<Rightarrow> 'b outcome) \<Rightarrow> 'b outcome" where
  "bindE (Inl e) f = Inl e"
| "bindE (Inr x) f = f x"

text \<open>The macro \<open>ASSERT(value)\<close>; \<open>fn\<close> is \<open>__FUNCTION__\<close>.\<close>

definition ASSERT :: "string \<Rightarrow> bool \<Rightarrow> unit outcome" where
  "ASSERT fn value = (if value then Inr () else Inl (AssertFailed fn))"

definition panic :: "string \<Rightarrow> 'a outcome" where
  "panic message = Inl (Panic message)"

text \<open>Following a pointer to an object kept in a typed store.\<close>

definition deref :: "(addr \<Rightarrow> 'a option) \<Rightarrow> addr \<Rightarrow> 'a outcome" where
  "deref store p = (case store p of None \<Rightarrow> Inl (BadPointer p) | Some x \<Rightarrow> Inr x)"

lemma bindE_Inr_iff: "bindE m f = Inr y \<longleftrightarrow> (\<exists>x. m = Inr x \<and> f x = Inr y)"
  by (cases m) auto

lemma bindE_Inl_iff: "bindE m f = Inl e \<longleftrightarrow> m = Inl e \<or> (\<exists>x. m = Inr x \<and> f x = Inl e)"
  by (cases m) auto

lemma bindE_assoc: "bindE (bindE m f) g = bindE m (\<lambda>x. bindE (f x) g)"
  by (cases m) auto

lemma bindE_return [simp]: "bindE m Inr = m"
  by (cases m) auto

lemma ASSERT_Inr [simp]: "ASSERT fn v = Inr u \<longleftrightarrow> v"
  by (simp add: ASSERT_def)

lemma ASSERT_True [simp]: "ASSERT fn True = Inr ()"
  by (simp add: ASSERT_def)

lemma ASSERT_False [simp]: "ASSERT fn False = Inl (AssertFailed fn)"
  by (simp add: ASSERT_def)

lemma ASSERT_eqI [intro]: "v \<Longrightarrow> ASSERT fn v = Inr ()"
  by simp

lemma panic_not_Inr [simp]: "panic m \<noteq> Inr x"
  by (simp add: panic_def)

lemma deref_Inr_iff [simp]: "deref store p = Inr x \<longleftrightarrow> store p = Some x"
  by (simp add: deref_def split: option.splits)

lemma deref_Some: "store p = Some x \<Longrightarrow> deref store p = Inr x"
  by simp

lemma bindE_cong [cong, fundef_cong]: "m = m' \<Longrightarrow> (\<And>x. m' = Inr x \<Longrightarrow> f x = g x) \<Longrightarrow> bindE m f = bindE m' g"
  by (cases m') auto

text \<open>A loop that may run forever, as an outcome: \<open>None\<close> is a loop that never ends.\<close>

definition returns :: "'a option \<Rightarrow> 'a outcome" where
  "returns r = (case r of None \<Rightarrow> Inl NoReturn | Some x \<Rightarrow> Inr x)"

definition ran :: "'a outcome option \<Rightarrow> 'a outcome" where
  "ran r = (case r of None \<Rightarrow> Inl NoReturn | Some x \<Rightarrow> x)"

lemma returns_Inr [simp]: "returns r = Inr x \<longleftrightarrow> r = Some x"
  by (simp add: returns_def split: option.splits)

lemma ran_Inr [simp]: "ran r = Inr x \<longleftrightarrow> r = Some (Inr x)"
  by (simp add: ran_def split: option.splits)

lemmas bindE_iffs = bindE_Inr_iff bindE_Inl_iff

section \<open>Status codes and configuration\<close>

abbreviation (input) COS32_ALL_OK :: int where "COS32_ALL_OK \<equiv> 0"
abbreviation (input) EIO :: int where "EIO \<equiv> 1"
abbreviation (input) EFNF :: int where "EFNF \<equiv> 2"
abbreviation (input) ERDONLY :: int where "ERDONLY \<equiv> 3"
abbreviation (input) EFSNOTUS :: int where "EFSNOTUS \<equiv> 4"
abbreviation (input) EBADPATH :: int where "EBADPATH \<equiv> 5"
abbreviation (input) EINVARG :: int where "EINVARG \<equiv> 6"
abbreviation (input) ENOMEM :: int where "ENOMEM \<equiv> 7"
abbreviation (input) EUNIMP :: int where "EUNIMP \<equiv> 8"
abbreviation (input) EISTKN :: int where "EISTKN \<equiv> 9"
abbreviation (input) EINFORMAT :: int where "EINFORMAT \<equiv> 10"

abbreviation (input) COS32_PAGE_SIZE :: u32 where "COS32_PAGE_SIZE \<equiv> 4096"
abbreviation (input) COS32_SECTOR_SIZE :: int where "COS32_SECTOR_SIZE \<equiv> 512"
abbreviation (input) COS32_MAX_PATH :: nat where "COS32_MAX_PATH \<equiv> 108"

text \<open>\<open>ISERR(value)\<close> of \<open>kernel.h\<close> on a C \<open>int\<close>, and \<open>ERROR(value)\<close>, which turns a
  status into a pointer.\<close>

definition ISERR :: "int \<Rightarrow> bool" where
  "ISERR v \<longleftrightarrow> v < 0"

definition ERROR :: "int \<Rightarrow> addr" where
  "ERROR v = word_of_int v"

definition ERROR_I :: "addr \<Rightarrow> int" where
  "ERROR_I p = sint p"

section \<open>Words and pages\<close>

lemma unat_of_nat_small: "n < 2 ^ 32 \<Longrightarrow> unat (of_nat n :: u32) = n"
  by (simp add: unsigned_of_nat take_bit_nat_eq_self)

lemma of_nat_inj_u32:
  "i < 2 ^ 32 \<Longrightarrow> j < 2 ^ 32 \<Longrightarrow> (of_nat i :: u32) = of_nat j \<longleftrightarrow> i = j"
  by (metis unat_of_nat_small)

lemma unat_mod_4096 [word_layout]: "unat (x mod 4096 :: u32) = unat x mod 4096"
  by (simp add: unat_mod)

lemma unat_div_4096 [word_layout]: "unat (x div 4096 :: u32) = unat x div 4096"
  by (simp add: unat_div)

lemma unat_u32_less [simp]: "unat (x :: u32) < 4294967296"
  using unsigned_less [of x] by simp

lemma unat_u8_less [simp]: "unat (x :: byte) < 256"
  using unsigned_less [of x] by simp

lemma uint_u32_less [simp]: "uint (x :: u32) < 4294967296"
  using uint_bounded [of x] by simp

lemma sint_eq_uint_u32: "uint (x :: u32) < 2147483648 \<Longrightarrow> sint x = uint x"
proof -
  assume "uint x < 2147483648"
  moreover have "- (2 ^ 31) \<le> uint x" by (rule order_trans [OF _ uint_ge_0]) simp
  ultimately have "signed_take_bit 31 (uint x) = uint x"
    by (intro signed_take_bit_int_eq_self) simp_all
  then show ?thesis by (simp add: sint_uint)
qed

lemma sint_word_of_int_u32:
  "- 2147483648 \<le> i \<Longrightarrow> i < 2147483648 \<Longrightarrow> sint (word_of_int i :: u32) = i"
  by (simp add: signed_of_int signed_take_bit_int_eq_self)

lemma uint_word_of_int_u32: "0 \<le> i \<Longrightarrow> i < 4294967296 \<Longrightarrow> uint (word_of_int i :: u32) = i"
  by (simp add: unsigned_of_int take_bit_int_eq_self)

lemma sint_high_u32: "\<not> uint (x :: u32) < 2147483648 \<Longrightarrow> sint x = uint x - 4294967296"
proof -
  assume h: "\<not> uint x < 2147483648"
  have "x = word_of_int (uint x - 4294967296)" by (simp flip: word_of_int_uint)
  moreover have "sint (word_of_int (uint x - 4294967296) :: u32) = uint x - 4294967296"
    using h uint_u32_less [of x] by (intro sint_word_of_int_u32) linarith+
  ultimately show ?thesis by metis
qed

lemma sint_aligned_u32:
  assumes "unat (x :: u32) mod 4096 = 0" "sint x < 0"
  shows "4096 \<le> - sint x"
proof -
  have "\<not> uint x < 2147483648"
    using assms(2) sint_eq_uint_u32 [of x] uint_ge_0 [of x] by fastforce
  then have s: "sint x = uint x - 4294967296" by (rule sint_high_u32)
  obtain q where q: "unat x = 4096 * q" using assms(1) by (metis mod_0_imp_dvd dvdE)
  have "q < 1048576" using q unat_u32_less [of x] by linarith
  then have "uint x \<le> 4294967296 - 4096" using q unfolding uint_nat by linarith
  with s show ?thesis by simp
qed

lemma sdiv_nonneg: "0 \<le> a \<Longrightarrow> 0 < b \<Longrightarrow> a sdiv b = a div (b :: int)"
  by (cases "a = 0") (simp_all add: signed_divide_int_def sgn_mult)

lemma smod_nonneg: "0 \<le> a \<Longrightarrow> 0 < b \<Longrightarrow> a smod b = a mod (b :: int)"
  by (cases "a = 0") (simp_all add: signed_modulo_int_def)

lemma aligned_nat: "(x :: u32) mod 4096 = 0 \<longleftrightarrow> unat x mod 4096 = 0"
  by (metis unat_0 unat_eq_zero unat_mod_4096)

lemma low12_eq_mod [word_layout]: "(x :: u32) AND 0xfff = x mod 4096"
proof -
  have "x AND 0xfff = x AND mask 12" by (simp add: mask_numeral)
  also have "\<dots> = take_bit 12 x" by (simp flip: take_bit_eq_mask)
  also have "\<dots> = x mod 4096" by (simp add: take_bit_eq_mod)
  finally show ?thesis .
qed

lemma high20_eq [word_layout]: "(x :: u32) AND 0xfffff000 = x - x mod 4096"
proof -
  have "(0xfffff000 :: u32) = NOT 0xfff" by code_simp
  then have "x AND 0xfffff000 = x AND NOT 0xfff" by (simp only:)
  moreover have "(x AND NOT 0xfff) + (x AND 0xfff) = x"
  proof -
    have "(x AND NOT 0xfff) + (x AND 0xfff) = (x AND NOT 0xfff) OR (x AND 0xfff)"
      by (rule disjunctive_add) (simp only: bit_and_iff bit_not_iff, blast)
    also have "\<dots> = x"
      by (rule bit_eqI) (simp only: bit_and_iff bit_not_iff bit_or_iff, auto)
    finally show ?thesis .
  qed
  ultimately show ?thesis by (simp add: low12_eq_mod eq_diff_eq)
qed

lemma sint_int_unat: "unat (x :: u32) < 2 ^ 31 \<Longrightarrow> sint x = int (unat x)"
proof -
  assume "unat x < 2 ^ 31"
  then have "int (unat x) < int (2 ^ 31)" by (simp only: of_nat_less_iff)
  then have "uint x < 2147483648" by simp
  then show ?thesis by (simp add: sint_eq_uint_u32)
qed

lemma unat_nat_small: "k < 2 ^ 32 \<Longrightarrow> unat (of_nat k :: u32) = k"
  by (simp add: unat_of_nat take_bit_nat_eq_self)

end
