(* ===== verification/Page_Align.thy ===== *)
theory Page_Align
  imports COS_Prelude
begin

text \<open>
  The address arithmetic of \<open>src/memory/paging/paging.c\<close>: rounding to page boundaries and
  splitting a virtual address into its directory and table index.  The heap, the paging code and
  the process loader all use it.
\<close>

section \<open>Rounding to pages\<close>

definition paging_round_value_to_lower_page :: "u32 \<Rightarrow> u32" where
  "paging_round_value_to_lower_page val = val - (val mod COS32_PAGE_SIZE)"

definition paging_align_value_to_upper_page :: "u32 \<Rightarrow> u32" where
  "paging_align_value_to_upper_page val =
     (if val mod COS32_PAGE_SIZE = 0 then val
      else paging_round_value_to_lower_page val + COS32_PAGE_SIZE)"

definition paging_align_to_lower_page :: "addr \<Rightarrow> addr" where
  "paging_align_to_lower_page virt = virt - (virt mod COS32_PAGE_SIZE)"

definition paging_is_address_aligned :: "addr \<Rightarrow> bool" where
  "paging_is_address_aligned ptr \<longleftrightarrow> ptr mod COS32_PAGE_SIZE = 0"

definition paging_align_address :: "addr \<Rightarrow> addr" where
  "paging_align_address ptr =
     (if ptr mod COS32_PAGE_SIZE \<noteq> 0
      then ptr + COS32_PAGE_SIZE - (ptr mod COS32_PAGE_SIZE) else ptr)"

text \<open>The status and, where it is 0, the two indexes written through the out parameters.\<close>

definition paging_get_indexes :: "addr \<Rightarrow> int \<times> (u32 \<times> u32) option" where
  "paging_get_indexes virt =
     (if virt mod COS32_PAGE_SIZE \<noteq> 0 then (- EINVARG, None)
      else (0, Some (virt div (1024 * COS32_PAGE_SIZE),
                     virt mod (1024 * COS32_PAGE_SIZE) div COS32_PAGE_SIZE)))"

section \<open>What the roundings compute\<close>

lemma unat_round_lower: "unat (x - x mod 4096 :: u32) = unat x - unat x mod 4096"
proof -
  have "x mod 4096 \<le> x" by (simp add: word_le_nat_alt word_layout)
  then show ?thesis by (simp add: unat_sub word_layout)
qed

lemma unat_lower_page [word_layout]:
  "unat (paging_align_to_lower_page x) = unat x div 4096 * 4096"
  unfolding paging_align_to_lower_page_def unat_round_lower by (rule minus_mod_eq_div_mult)

lemma lower_page_eq_round: "paging_round_value_to_lower_page x = paging_align_to_lower_page x"
  by (simp add: paging_round_value_to_lower_page_def paging_align_to_lower_page_def)

lemma aligned_iff_nat [word_layout]: "paging_is_address_aligned x \<longleftrightarrow> unat x mod 4096 = 0"
  by (simp add: paging_is_address_aligned_def aligned_nat)

lemma lower_page_aligned [simp, intro]: "paging_is_address_aligned (paging_align_to_lower_page x)"
  by (simp add: word_layout)

lemma lower_page_idem [simp]: "x mod 4096 = 0 \<Longrightarrow> paging_align_to_lower_page x = x"
  by (simp add: paging_align_to_lower_page_def)

lemma align_address_eq_upper: "paging_align_address x = paging_align_value_to_upper_page x"
  by (simp add: paging_align_address_def paging_align_value_to_upper_page_def
      paging_round_value_to_lower_page_def)

lemma div_4096_of: "r < 4096 \<Longrightarrow> (q * 4096 + r) div 4096 = (q :: nat)"
  by (rule div_nat_eqI) simp_all

lemma ceil_page_aligned: "n mod 4096 = 0 \<Longrightarrow> (n + 4095) div 4096 * 4096 = (n :: nat)"
proof -
  assume r: "n mod 4096 = 0"
  obtain q where "n = q * 4096" using r by (metis add.right_neutral div_mult_mod_eq)
  then show ?thesis using div_4096_of [of 4095 q] by simp
qed

lemma ceil_page_misaligned:
  "n mod 4096 \<noteq> 0 \<Longrightarrow> (n + 4095) div 4096 * 4096 = n div 4096 * 4096 + (4096 :: nat)"
proof -
  assume r: "n mod 4096 \<noteq> 0"
  obtain q k where n: "n = q * 4096 + k" "k < 4096" "k = n mod 4096"
    by (metis div_mult_mod_eq mod_less_divisor zero_less_numeral)
  then have "n + 4095 = Suc q * 4096 + (k - 1)" using r by simp
  then have "(n + 4095) div 4096 = Suc q" using n(2) by (simp only: div_4096_of)
  then show ?thesis using div_4096_of [OF n(2), of q] n(1) by simp
qed

lemma last_page_misaligned:
  assumes "0xFFFFF000 < n" "n < 4294967296"
  shows "n mod 4096 \<noteq> 0 \<and> n div 4096 = (0xFFFFF :: nat)"
proof -
  have q: "n div 4096 = 0xFFFFF" by (rule div_nat_eqI) (use assms in simp_all)
  moreover have "n = n div 4096 * 4096 + n mod 4096" by simp
  ultimately show ?thesis using assms(1) by linarith
qed

lemma unat_upper_page:
  assumes "unat x \<le> 0xFFFFF000"
  shows "unat (paging_align_value_to_upper_page x) = (unat x + 4095) div 4096 * 4096"
proof (cases "x mod 4096 = 0")
  case True
  then have "unat x mod 4096 = 0" by (simp add: aligned_nat)
  then have "(unat x + 4095) div 4096 * 4096 = unat x" by (rule ceil_page_aligned)
  with True show ?thesis by (simp add: paging_align_value_to_upper_page_def)
next
  case False
  then have m: "unat x mod 4096 \<noteq> 0" by (simp add: aligned_nat)
  have "unat x \<noteq> 0xFFFFF000" using m by auto
  then have "unat x < 0xFFFFF000" using assms by simp
  then have "unat x div 4096 < 0xFFFFF" by (simp add: less_mult_imp_div_less)
  then have "unat x div 4096 * 4096 + 4096 < 2 ^ 32" by simp
  moreover have "unat (4096 :: u32) = 4096" by simp
  ultimately have "unat (paging_align_to_lower_page x + 4096) = unat x div 4096 * 4096 + 4096"
    by (subst unat_add_lem [THEN iffD1]) (simp_all add: unat_lower_page)
  moreover have "unat x div 4096 * 4096 + 4096 = (unat x + 4095) div 4096 * 4096"
    using ceil_page_misaligned [OF m] by simp
  ultimately show ?thesis
    using False by (simp add: paging_align_value_to_upper_page_def lower_page_eq_round)
qed

text \<open>Above the last page boundary the rounding wraps to 0.\<close>

lemma upper_page_wraps:
  assumes "0xFFFFF000 < unat x"
  shows "paging_align_value_to_upper_page x = 0"
proof -
  have m: "unat x mod 4096 \<noteq> 0" and d: "unat x div 4096 = 0xFFFFF"
    using last_page_misaligned [OF assms] by simp_all
  from d have "unat (paging_align_to_lower_page x) = 0xFFFFF000" by (simp add: unat_lower_page)
  then have "paging_align_to_lower_page x = 0xFFFFF000"
    by (simp add: word_unat_eq_iff)
  with m show ?thesis
    by (simp add: paging_align_value_to_upper_page_def lower_page_eq_round aligned_nat)
qed

end
