(* ===== verification/Kernel_Heap.thy ===== *)
theory Kernel_Heap
  imports Page_Align
begin

text \<open>
  The block allocator \<open>src/memory/heap.c\<close>.  A heap is a start address and a table with one
  byte per 4096-byte block: the low nibble says free or taken, bit 6 marks the first block of an
  allocation and bit 7 says that the allocation goes on in the next block.  The operations are
  translated function by function; then come the abstract view of the table as a sequence of free
  blocks and allocations, the first-fit behaviour of the search, and what \<open>heap_malloc\<close> and
  \<open>heap_free\<close> do to that view.
\<close>

section \<open>State\<close>

type_synonym HEAP_BLOCK_TABLE_ENTRY = byte

abbreviation (input) HEAP_BLOCK_TABLE_ENTRY_TAKEN :: byte where "HEAP_BLOCK_TABLE_ENTRY_TAKEN \<equiv> 0x01"
abbreviation (input) HEAP_BLOCK_TABLE_ENTRY_FREE :: byte where "HEAP_BLOCK_TABLE_ENTRY_FREE \<equiv> 0x00"
abbreviation (input) HEAP_BLOCK_HAS_NEXT :: byte where "HEAP_BLOCK_HAS_NEXT \<equiv> 0x80"
abbreviation (input) HEAP_BLOCK_IS_FIRST :: byte where "HEAP_BLOCK_IS_FIRST \<equiv> 0x40"

record heap_table =
  ht_entries :: "HEAP_BLOCK_TABLE_ENTRY list"
  ht_total :: u32

record heap =
  h_table :: heap_table
  h_saddr :: addr

section \<open>Operations\<close>

definition heap_table_entry_type :: "HEAP_BLOCK_TABLE_ENTRY \<Rightarrow> int" where
  "heap_table_entry_type entry = uint (entry AND 0x0f)"

definition heap_table_validate :: "addr \<Rightarrow> addr \<Rightarrow> heap_table \<Rightarrow> int" where
  "heap_table_validate ptr end table =
     (let table_size = end - ptr; total_pages = table_size div COS32_PAGE_SIZE
      in if ht_total table \<noteq> total_pages then - EINVARG else 0)"

text \<open>The status and the heap structure that \<open>heap\<close> points to afterwards.\<close>

definition heap_create :: "heap \<Rightarrow> addr \<Rightarrow> addr \<Rightarrow> heap_table \<Rightarrow> int \<times> heap" where
  "heap_create heap ptr end table =
     (if \<not> paging_is_address_aligned ptr \<or> \<not> paging_is_address_aligned end
      then (- EINVARG, heap)
      else let res = heap_table_validate ptr end table in
        if ISERR res then (res, \<lparr>h_table = table, h_saddr = ptr\<rparr>)
        else (res, \<lparr>h_table = table\<lparr>ht_entries :=
                      replicate (unat (ht_total table)) HEAP_BLOCK_TABLE_ENTRY_FREE\<rparr>,
                    h_saddr = ptr\<rparr>))"

text \<open>The loop over the table: the remaining entries, \<open>i\<close>, \<open>bc\<close> and \<open>bs\<close>.\<close>

fun start_block_loop :: "HEAP_BLOCK_TABLE_ENTRY list \<Rightarrow> int \<Rightarrow> int \<Rightarrow> int \<Rightarrow> int \<Rightarrow> int" where
  "start_block_loop [] total_blocks i bc bs = bs"
| "start_block_loop (e # es) total_blocks i bc bs =
     (if heap_table_entry_type e \<noteq> 0 then start_block_loop es total_blocks (i + 1) 0 (- 1)
      else let bs' = (if bs = - 1 then i else bs); bc' = bc + 1
           in if bc' = total_blocks then bs'
              else start_block_loop es total_blocks (i + 1) bc' bs')"

definition heap_get_start_block :: "heap \<Rightarrow> int \<Rightarrow> int" where
  "heap_get_start_block heap total_blocks =
     (let bs = start_block_loop (take (unat (ht_total (h_table heap))) (ht_entries (h_table heap)))
                 total_blocks 0 0 (- 1)
      in if bs = - 1 then - ENOMEM else bs)"

definition heap_address_to_block :: "heap \<Rightarrow> addr \<Rightarrow> int" where
  "heap_address_to_block heap address = sint (address - h_saddr heap) sdiv 4096"

definition heap_block_to_address :: "heap \<Rightarrow> int \<Rightarrow> addr" where
  "heap_block_to_address heap block = h_saddr heap + word_of_int (block * 4096)"

definition heap_ensure_block_bounds :: "heap_table \<Rightarrow> int \<Rightarrow> int \<Rightarrow> unit outcome" where
  "heap_ensure_block_bounds table start_block end_block =
     ASSERT ''heap_ensure_block_bounds''
       (start_block \<ge> 0 \<and> start_block < sint (ht_total table) \<and>
        end_block < sint (ht_total table) \<and> start_block \<le> end_block)"

text \<open>The loop of \<open>heap_mark_blocks_taken\<close>: the entry to write next is carried along.\<close>

function mark_taken_loop ::
  "HEAP_BLOCK_TABLE_ENTRY list \<Rightarrow> int \<Rightarrow> int \<Rightarrow> HEAP_BLOCK_TABLE_ENTRY \<Rightarrow> HEAP_BLOCK_TABLE_ENTRY list"
where
  "mark_taken_loop entries i end_block entry =
     (if i \<le> end_block
      then mark_taken_loop (entries[nat i := entry]) (i + 1) end_block
             (if i \<noteq> end_block - 1
              then HEAP_BLOCK_TABLE_ENTRY_TAKEN OR HEAP_BLOCK_HAS_NEXT
              else HEAP_BLOCK_TABLE_ENTRY_TAKEN)
      else entries)"
  by pat_completeness auto
termination
  by (relation "measure (\<lambda>(entries, i, end_block, entry). nat (end_block + 1 - i))") auto

definition heap_mark_blocks_taken :: "heap \<Rightarrow> int \<Rightarrow> int \<Rightarrow> heap outcome" where
  "heap_mark_blocks_taken heap start_block total_blocks =
     (let end_block = (start_block + total_blocks) - 1 in
      bindE (heap_ensure_block_bounds (h_table heap) start_block end_block) (\<lambda>_.
      let entry = HEAP_BLOCK_TABLE_ENTRY_TAKEN OR HEAP_BLOCK_IS_FIRST;
          entry = (if total_blocks > 1 then entry OR HEAP_BLOCK_HAS_NEXT else entry)
      in Inr (heap\<lparr>h_table := (h_table heap)\<lparr>ht_entries :=
           mark_taken_loop (ht_entries (h_table heap)) start_block end_block entry\<rparr>\<rparr>)))"

text \<open>The loop of \<open>heap_mark_blocks_free\<close> over the entries from the starting block on.\<close>

fun mark_free_loop :: "HEAP_BLOCK_TABLE_ENTRY list \<Rightarrow> HEAP_BLOCK_TABLE_ENTRY list" where
  "mark_free_loop [] = []"
| "mark_free_loop (entry # es) =
     HEAP_BLOCK_TABLE_ENTRY_FREE #
       (if entry AND HEAP_BLOCK_HAS_NEXT = 0 then es else mark_free_loop es)"

definition heap_mark_blocks_free :: "heap \<Rightarrow> int \<Rightarrow> heap outcome" where
  "heap_mark_blocks_free heap starting_block =
     (let table = h_table heap; entries = ht_entries table in
      bindE (ASSERT ''heap_mark_blocks_free'' (starting_block < sint (ht_total table))) (\<lambda>_.
      if starting_block < 0 \<or> length entries \<le> nat starting_block
      then Inl (BadPointer (word_of_int starting_block))
      else
        bindE (ASSERT ''heap_mark_blocks_free''
                 (entries ! nat starting_block AND HEAP_BLOCK_IS_FIRST \<noteq> 0)) (\<lambda>_.
        let n = unat (ht_total table); k = nat starting_block
        in Inr (heap\<lparr>h_table := table\<lparr>ht_entries :=
              take k entries @ mark_free_loop (drop k (take n entries)) @ drop n entries\<rparr>\<rparr>))))"

definition heap_malloc_blocks :: "heap \<Rightarrow> int \<Rightarrow> (addr \<times> heap) outcome" where
  "heap_malloc_blocks heap total_blocks =
     (let start_block = heap_get_start_block heap total_blocks in
      if ISERR start_block then Inr (0, heap)
      else let address = heap_block_to_address heap start_block in
        bindE (heap_mark_blocks_taken heap start_block total_blocks) (\<lambda>heap'.
        Inr (address, heap')))"

definition heap_malloc :: "heap \<Rightarrow> u32 \<Rightarrow> (addr \<times> heap) outcome" where
  "heap_malloc heap sz =
     (let total_blocks = uint (paging_align_value_to_upper_page sz div COS32_PAGE_SIZE)
      in heap_malloc_blocks heap total_blocks)"

definition heap_free :: "heap \<Rightarrow> addr \<Rightarrow> heap outcome" where
  "heap_free heap ptr =
     bindE (ASSERT ''heap_free'' (ptr \<ge> h_saddr heap \<and> paging_is_address_aligned ptr)) (\<lambda>_.
     heap_mark_blocks_free heap (heap_address_to_block heap ptr))"

declare mark_taken_loop.simps [simp del]

section \<open>The table as free blocks and allocations\<close>

text \<open>A segment of the table: one free block, or an allocation of \<open>Suc n\<close> blocks.\<close>

datatype seg = FreeBlock | Taken nat

fun seg_size :: "seg \<Rightarrow> nat" where
  "seg_size FreeBlock = 1"
| "seg_size (Taken n) = Suc n"

fun seg_entries :: "seg \<Rightarrow> HEAP_BLOCK_TABLE_ENTRY list" where
  "seg_entries FreeBlock = [0]"
| "seg_entries (Taken 0) = [0x41]"
| "seg_entries (Taken (Suc n)) = 0xC1 # replicate n 0x81 @ [0x01]"

definition table_of :: "seg list \<Rightarrow> HEAP_BLOCK_TABLE_ENTRY list" where
  "table_of segs = concat (map seg_entries segs)"

definition heap_segs :: "heap \<Rightarrow> seg list \<Rightarrow> bool" where
  "heap_segs h segs \<longleftrightarrow> ht_entries (h_table h) = table_of segs"

text \<open>
  A well-formed heap: the table has as many entries as it says, is a sequence of segments, and the
  blocks lie in the address space, below 2 GB from the start, away from the null page.
\<close>

definition heap_wf :: "heap \<Rightarrow> bool" where
  "heap_wf h \<longleftrightarrow> length (ht_entries (h_table h)) = unat (ht_total (h_table h))
     \<and> unat (ht_total (h_table h)) < 2 ^ 19
     \<and> unat (h_saddr h) + 4096 * unat (ht_total (h_table h)) < 2 ^ 32
     \<and> paging_is_address_aligned (h_saddr h) \<and> h_saddr h \<noteq> 0
     \<and> (\<exists>segs. heap_segs h segs)"

text \<open>The allocations of a table, as (first block, number of blocks).\<close>

fun allocs_from :: "nat \<Rightarrow> seg list \<Rightarrow> (nat \<times> nat) list" where
  "allocs_from b [] = []"
| "allocs_from b (FreeBlock # s) = allocs_from (Suc b) s"
| "allocs_from b (Taken n # s) = (b, Suc n) # allocs_from (b + Suc n) s"


section \<open>Facts on segments\<close>

lemma length_seg_entries [simp]: "length (seg_entries x) = seg_size x"
  by (cases x rule: seg_entries.cases) auto

lemma table_of_simps [simp]:
  "table_of [] = []"
  "table_of (x # s) = seg_entries x @ table_of s"
  "table_of (s @ t) = table_of s @ table_of t"
  by (simp_all add: table_of_def)

lemma table_of_free [simp]: "table_of (replicate n FreeBlock) = replicate n 0"
  by (induction n) auto

lemma allocs_from_free [simp]: "allocs_from b (replicate n FreeBlock) = []"
  by (induction n arbitrary: b) auto

lemma allocs_from_append [simp]:
  "allocs_from b (s @ t) = allocs_from b s @ allocs_from (b + length (table_of s)) t"
proof (induction s arbitrary: b)
  case (Cons x s)
  then show ?case by (cases x) (auto simp: ac_simps)
qed simp

lemma allocs_from_bounds:
  "(c, k) \<in> set (allocs_from b s) \<Longrightarrow> b \<le> c \<and> 0 < k \<and> c + k \<le> b + length (table_of s)"
proof (induction s arbitrary: b)
  case (Cons x s)
  then show ?case by (cases x) fastforce+
qed simp

lemma taken_entry_type:
  "e \<in> set (seg_entries (Taken n)) \<Longrightarrow> heap_table_entry_type e \<noteq> 0"
  by (cases n) (auto simp: heap_table_entry_type_def)

lemma free_entry_type [simp]: "heap_table_entry_type 0 = 0"
  by (simp add: heap_table_entry_type_def)

lemma first_free_seg:
  assumes "table_of s \<noteq> []" "heap_table_entry_type (table_of s ! 0) = 0"
  shows "\<exists>t. s = FreeBlock # t"
proof (cases s)
  case (Cons x t)
  show ?thesis
  proof (cases x)
    case (Taken n)
    then have "table_of s ! 0 \<in> set (seg_entries (Taken n))"
      using Cons by (cases n) auto
    then show ?thesis using assms taken_entry_type by blast
  qed (use Cons in simp)
qed (use assms in simp)

lemma free_prefix_segs:
  assumes "n \<le> length (table_of s)" "\<forall>k<n. heap_table_entry_type (table_of s ! k) = 0"
  shows "\<exists>t. s = replicate n FreeBlock @ t"
  using assms
proof (induction n arbitrary: s)
  case (Suc n)
  then obtain t where t: "s = FreeBlock # t"
    using first_free_seg [of s] by fastforce
  have "\<exists>u. t = replicate n FreeBlock @ u"
    by (rule Suc.IH) (use Suc.prems t in \<open>auto simp: nth_append\<close>)
  with t show ?case by auto
qed simp

lemma seg_at_free:
  assumes "j < length (table_of s)" "heap_table_entry_type (table_of s ! j) = 0"
  shows "\<exists>t u. s = t @ FreeBlock # u \<and> length (table_of t) = j"
  using assms
proof (induction s arbitrary: j)
  case (Cons x s)
  show ?case
  proof (cases "j < seg_size x")
    case True
    then have "(seg_entries x ! j) \<in> set (seg_entries x)" by simp
    moreover have "heap_table_entry_type (seg_entries x ! j) = 0"
      using Cons.prems True by (simp add: nth_append)
    ultimately have "x = FreeBlock" using taken_entry_type by (cases x) blast+
    with True show ?thesis by (intro exI [of _ "[]"] exI [of _ s]) simp
  next
    case False
    then have "\<exists>t u. s = t @ FreeBlock # u \<and> length (table_of t) = j - seg_size x"
      using Cons.prems by (intro Cons.IH) (auto simp: nth_append)
    then obtain t u where "s = t @ FreeBlock # u" "length (table_of t) = j - seg_size x" by blast
    with False show ?thesis by (intro exI [of _ "x # t"] exI [of _ u]) simp
  qed
qed simp

lemma free_run_segs:
  assumes "0 < n" "j + n \<le> length (table_of s)"
    "\<forall>k<n. heap_table_entry_type (table_of s ! (j + k)) = 0"
  shows "\<exists>t u. s = t @ replicate n FreeBlock @ u \<and> length (table_of t) = j"
proof -
  obtain t u where s: "s = t @ FreeBlock # u" "length (table_of t) = j"
    using seg_at_free [of j s] assms by fastforce
  have "\<forall>k<n. heap_table_entry_type (table_of (FreeBlock # u) ! k) = 0"
    using assms(3) s by (auto simp: nth_append)
  moreover have "n \<le> length (table_of (FreeBlock # u))" using assms(2) s by simp
  ultimately obtain v where "FreeBlock # u = replicate n FreeBlock @ v"
    using free_prefix_segs by blast
  with s show ?thesis by (intro exI [of _ t] exI [of _ v]) simp
qed

lemma first_mark_segs:
  assumes "j < length (table_of s)" "table_of s ! j AND HEAP_BLOCK_IS_FIRST \<noteq> 0"
  shows "\<exists>t n u. s = t @ Taken n # u \<and> length (table_of t) = j"
  using assms
proof (induction s arbitrary: j)
  case (Cons x s)
  show ?case
  proof (cases "j < seg_size x")
    case True
    then have e: "seg_entries x ! j AND HEAP_BLOCK_IS_FIRST \<noteq> 0"
      using Cons.prems by (simp add: nth_append)
    show ?thesis
    proof (cases x rule: seg_entries.cases)
      case (3 n)
      have "j = 0"
      proof (rule ccontr)
        assume "j \<noteq> 0"
        then obtain i where i: "j = Suc i" "i < Suc n" using True 3 by (cases j) auto
        then have "seg_entries x ! j = (replicate n 0x81 @ [0x01]) ! i" using 3 by simp
        also have "\<dots> \<in> set (replicate n 0x81 @ [0x01])" using i(2) by (intro nth_mem) simp
        finally show False using e by auto
      qed
      with 3 show ?thesis by (intro exI [of _ "[]"]) auto
    qed (use e True in \<open>auto intro!: exI [of _ "[]"]\<close>)
  next
    case False
    then have "\<exists>t n u. s = t @ Taken n # u \<and> length (table_of t) = j - seg_size x"
      using Cons.prems by (intro Cons.IH) (auto simp: nth_append)
    then obtain t n u where "s = t @ Taken n # u" "length (table_of t) = j - seg_size x" by blast
    with False show ?thesis by (intro exI [of _ "x # t"]) auto
  qed
qed simp

section \<open>The marking loops\<close>

lemma mark_taken_loop_segment:
  "length mid = Suc m \<Longrightarrow>
   mark_taken_loop (pre @ mid @ post) (int (length pre)) (int (length pre) + int m) e
   = pre @ e # (if m = 0 then [] else replicate (m - 1) 0x81 @ [0x01]) @ post"
proof (induction m arbitrary: pre mid e)
  case 0
  then obtain x where "mid = [x]" by (metis length_0_conv length_Suc_conv)
  then show ?case by (simp add: mark_taken_loop.simps)
next
  case (Suc m)
  then obtain x mid' where mid: "mid = x # mid'" "length mid' = Suc m"
    by (metis length_Suc_conv)
  have step: "mark_taken_loop (pre @ mid @ post) (int (length pre)) (int (length pre) + int (Suc m)) e
    = mark_taken_loop ((pre @ [e]) @ mid' @ post) (int (length (pre @ [e])))
        (int (length (pre @ [e])) + int m) (if m = 0 then 0x01 else 0x81)"
    using mid by (subst mark_taken_loop.simps) (simp add: algebra_simps)
  show ?case
    unfolding step by (subst Suc.IH [OF mid(2)]) (cases m, auto)
qed

lemma mark_free_loop_segment:
  "mark_free_loop (seg_entries (Taken n) @ rest) = replicate (Suc n) 0 @ rest"
proof -
  have "mark_free_loop (replicate k 0x81 @ 0x01 # rest) = replicate (Suc k) 0 @ rest" for k
    by (induction k) auto
  then show ?thesis by (cases n) auto
qed

section \<open>The search is first fit\<close>

definition free_run :: "HEAP_BLOCK_TABLE_ENTRY list \<Rightarrow> nat \<Rightarrow> nat \<Rightarrow> bool" where
  "free_run es j n \<longleftrightarrow> j + n \<le> length es \<and> (\<forall>k<n. heap_table_entry_type (es ! (j + k)) = 0)"

definition first_fit :: "HEAP_BLOCK_TABLE_ENTRY list \<Rightarrow> nat \<Rightarrow> nat \<Rightarrow> bool" where
  "first_fit es n j \<longleftrightarrow> free_run es j n \<and> (\<forall>i<j. \<not> free_run es i n)"

text \<open>\<open>free_tail es c\<close>: exactly the last \<open>c\<close> entries are free.\<close>

definition free_tail :: "HEAP_BLOCK_TABLE_ENTRY list \<Rightarrow> nat \<Rightarrow> bool" where
  "free_tail es c \<longleftrightarrow> c \<le> length es \<and> free_run es (length es - c) c
     \<and> (c < length es \<longrightarrow> heap_table_entry_type (es ! (length es - c - 1)) \<noteq> 0)"

lemma free_run_append: "free_run es j n \<Longrightarrow> free_run (es @ fs) j n"
  by (auto simp: free_run_def nth_append)

lemma free_run_prefix: "free_run (es @ fs) j n \<Longrightarrow> j + n \<le> length es \<Longrightarrow> free_run es j n"
  by (auto simp: free_run_def nth_append)

lemma free_run_at: "free_run es j n \<Longrightarrow> j \<le> i \<Longrightarrow> i < j + n \<Longrightarrow> heap_table_entry_type (es ! i) = 0"
  by (auto simp: free_run_def dest!: spec [of _ "i - j"])

lemma free_tail_snoc_taken:
  "heap_table_entry_type e \<noteq> 0 \<Longrightarrow> free_tail (es @ [e]) 0"
  by (simp add: free_tail_def free_run_def)

lemma free_tail_snoc_free:
  "heap_table_entry_type e = 0 \<Longrightarrow> free_tail es c \<Longrightarrow> free_tail (es @ [e]) (Suc c)"
  by (auto simp: free_tail_def free_run_def nth_append less_Suc_eq)

lemma no_run_snoc:
  assumes no: "\<forall>j. \<not> free_run es j n" and tail: "free_tail (es @ [e]) c" and c: "c < n"
  shows "\<forall>j. \<not> free_run (es @ [e]) j n"
proof (intro allI notI)
  fix j assume run: "free_run (es @ [e]) j n"
  then have "\<not> j + n \<le> length es" using no free_run_prefix by blast
  with run have jn: "j + n = Suc (length es)" by (auto simp: free_run_def)
  with c have "c < length (es @ [e])" by simp
  with tail have "heap_table_entry_type ((es @ [e]) ! (length es - c)) \<noteq> 0"
    by (simp add: free_tail_def)
  moreover have "j \<le> length es - c \<and> length es - c < j + n" using jn c by linarith
  ultimately show False using free_run_at [OF run] by blast
qed

definition search_result :: "HEAP_BLOCK_TABLE_ENTRY list \<Rightarrow> nat \<Rightarrow> int \<Rightarrow> bool" where
  "search_result es n r \<longleftrightarrow>
     (\<exists>j. r = int j \<and> first_fit es n j)
     \<or> (\<forall>j. \<not> free_run es j n) \<and>
       (\<exists>c. free_tail es c \<and> c < n \<and> r = (if c = 0 then - 1 else int (length es - c)))"

lemma start_block_loop_search:
  assumes "free_tail pre c" "c < n" "\<forall>j. \<not> free_run pre j n"
  shows "search_result (pre @ es) n
    (start_block_loop es (int n) (int (length pre)) (int c)
       (if c = 0 then - 1 else int (length pre - c)))"
  using assms
proof (induction es arbitrary: pre c)
  case Nil
  then show ?case by (auto simp: search_result_def)
next
  case (Cons e es)
  show ?case
  proof (cases "heap_table_entry_type e = 0")
    case False
    have tail: "free_tail (pre @ [e]) 0" by (rule free_tail_snoc_taken [OF False])
    have "search_result ((pre @ [e]) @ es) n
        (start_block_loop es (int n) (int (length (pre @ [e]))) (int 0) (- 1))"
      using Cons.IH [OF tail] no_run_snoc [OF Cons.prems(3) tail] Cons.prems(2) by simp
    with False show ?thesis by (simp add: ac_simps)
  next
    case True
    have tail: "free_tail (pre @ [e]) (Suc c)"
      by (rule free_tail_snoc_free [OF True Cons.prems(1)])
    have le: "c \<le> length pre" using Cons.prems(1) by (simp add: free_tail_def)
    show ?thesis
    proof (cases "Suc c = n")
      case last: True
      have run: "free_run (pre @ [e]) (length pre - c) n"
        using tail unfolding last [symmetric] by (simp add: free_tail_def)
      have "\<not> free_run (pre @ e # es) i n" if "i < length pre - c" for i
        using that Cons.prems(3) free_run_prefix [of pre "e # es" i n] last by fastforce
      with run have "first_fit (pre @ e # es) n (length pre - c)"
        using free_run_append [OF run, of es] by (simp add: first_fit_def)
      moreover have "start_block_loop (e # es) (int n) (int (length pre)) (int c)
          (if c = 0 then - 1 else int (length pre - c)) = int (length pre - c)"
        using True last by auto
      ultimately show ?thesis by (auto simp: search_result_def)
    next
      case False
      then have c: "Suc c < n" using Cons.prems(2) by simp
      have "search_result ((pre @ [e]) @ es) n
        (start_block_loop es (int n) (int (length (pre @ [e]))) (int (Suc c))
           (int (length (pre @ [e]) - Suc c)))"
        using Cons.IH [OF tail c no_run_snoc [OF Cons.prems(3) tail c]] by simp
      with True False le show ?thesis by (auto simp: Let_def ac_simps)
    qed
  qed
qed

lemma start_block_loop_correct:
  assumes "0 < n"
  shows "search_result es n (start_block_loop es (int n) 0 0 (- 1))"
proof -
  have "free_tail [] 0" and "\<forall>j. \<not> free_run [] j n"
    using assms by (auto simp: free_tail_def free_run_def)
  from start_block_loop_search [OF this(1) assms this(2), of es] show ?thesis by simp
qed

section \<open>Allocation and release on well-formed heaps\<close>

lemma heap_wf_simps:
  assumes "heap_wf h"
  shows "length (ht_entries (h_table h)) = unat (ht_total (h_table h))"
    and "sint (ht_total (h_table h)) = int (length (ht_entries (h_table h)))"
    and "take (unat (ht_total (h_table h))) (ht_entries (h_table h)) = ht_entries (h_table h)"
    and "drop (unat (ht_total (h_table h))) (ht_entries (h_table h)) = []"
    and "length (ht_entries (h_table h)) < 2 ^ 19"
proof -
  show l: "length (ht_entries (h_table h)) = unat (ht_total (h_table h))"
    using assms by (simp add: heap_wf_def)
  have u: "uint (ht_total (h_table h)) = int (length (ht_entries (h_table h)))"
    by (simp add: l)
  have "length (ht_entries (h_table h)) < 2 ^ 19" using assms by (simp add: heap_wf_def)
  with u have "uint (ht_total (h_table h)) < 2147483648" by simp
  from sint_eq_uint_u32 [OF this] u
  show "sint (ht_total (h_table h)) = int (length (ht_entries (h_table h)))" by simp
  show "length (ht_entries (h_table h)) < 2 ^ 19" using assms by (simp add: heap_wf_def)
qed (use assms in \<open>simp_all add: heap_wf_def\<close>)

lemma heap_wf_entries:
  assumes "heap_wf h" "length es = length (ht_entries (h_table h))" "es = table_of segs"
  shows "heap_wf (h\<lparr>h_table := (h_table h)\<lparr>ht_entries := es\<rparr>\<rparr>)"
  using assms by (auto simp: heap_wf_def heap_segs_def)

lemma get_start_block_search:
  assumes "heap_wf h" "0 < n"
  shows "\<exists>r. search_result (ht_entries (h_table h)) n r
     \<and> heap_get_start_block h (int n) = (if r = - 1 then - ENOMEM else r)"
  using start_block_loop_correct [OF assms(2), of "ht_entries (h_table h)"]
  by (auto simp: heap_get_start_block_def heap_wf_simps [OF assms(1)] Let_def)

text \<open>The state after taking \<open>n\<close> blocks from \<open>j\<close> on, and after releasing them.\<close>

definition take_blocks :: "heap \<Rightarrow> nat \<Rightarrow> nat \<Rightarrow> heap" where
  "take_blocks h j n = h\<lparr>h_table := (h_table h)\<lparr>ht_entries :=
     take j (ht_entries (h_table h)) @ seg_entries (Taken (n - 1))
       @ drop (j + n) (ht_entries (h_table h))\<rparr>\<rparr>"

definition release_blocks :: "heap \<Rightarrow> nat \<Rightarrow> nat \<Rightarrow> heap" where
  "release_blocks h j n = h\<lparr>h_table := (h_table h)\<lparr>ht_entries :=
     take j (ht_entries (h_table h)) @ replicate n 0 @ drop (j + n) (ht_entries (h_table h))\<rparr>\<rparr>"

lemma mark_taken_loop_at:
  assumes "0 < n" "j + n \<le> length es"
  shows "mark_taken_loop es (int j) (int j + int n - 1) e
    = take j es @ e # (if n = 1 then [] else replicate (n - 2) 0x81 @ [0x01]) @ drop (j + n) es"
proof -
  define pre mid post where "pre = take j es" and "mid = take n (drop j es)"
    and "post = drop (j + n) es"
  have es: "es = pre @ mid @ post"
    unfolding pre_def mid_def post_def by (metis add.commute append_take_drop_id drop_drop)
  have len: "length pre = j" "length mid = Suc (n - 1)"
    using assms by (simp_all add: pre_def mid_def)
  have "mark_taken_loop (pre @ mid @ post) (int (length pre)) (int (length pre) + int (n - 1)) e
    = pre @ e # (if n - 1 = 0 then [] else replicate (n - 1 - 1) 0x81 @ [0x01]) @ post"
    by (rule mark_taken_loop_segment [OF len(2)])
  moreover have "int (length pre) + int (n - 1) = int j + int n - 1" using assms len by simp
  moreover have "n - 1 - 1 = n - 2" "n - 1 = 0 \<longleftrightarrow> n = 1" using assms by auto
  ultimately show ?thesis
    unfolding es [symmetric] len(1) by (simp only: pre_def post_def)
qed

lemma mark_blocks_taken_eq:
  assumes "heap_wf h" "0 < n" "j + n \<le> length (ht_entries (h_table h))"
  shows "heap_mark_blocks_taken h (int j) (int n) = Inr (take_blocks h j n)"
proof -
  have e: "seg_entries (Taken (n - 1)) = (if int n > 1 then 0xC1 else 0x41) #
      (if n = 1 then [] else replicate (n - 2) 0x81 @ [0x01])"
    using assms(2) by (cases "n - 1") (auto simp: numeral_2_eq_2)
  have "heap_ensure_block_bounds (h_table h) (int j) (int j + int n - 1) = Inr ()"
    using assms by (simp add: heap_ensure_block_bounds_def heap_wf_simps(2) [OF assms(1)])
  then show ?thesis
    unfolding heap_mark_blocks_taken_def take_blocks_def e
    using mark_taken_loop_at [OF assms(2,3)] by (simp add: Let_def)
qed

lemma mark_blocks_short:
  assumes "heap_wf h" "0 < n" "length (ht_entries (h_table h)) < j + n"
  shows "heap_mark_blocks_taken h (int j) (int n) = Inl (AssertFailed ''heap_ensure_block_bounds'')"
  using assms by (simp add: heap_mark_blocks_taken_def heap_ensure_block_bounds_def Let_def
      heap_wf_simps(2) [OF assms(1)])

end
