(* ===== verification/C_Memory.thy ===== *)
theory C_Memory
  imports COS_Prelude
begin

text \<open>
  The byte-addressed memory of the machine and \<open>src/memory/memory.c\<close>: \<open>memset\<close>,
  \<open>memcmp\<close> and \<open>memcpy\<close>, with the little-endian loads and stores the kernel makes
  through \<open>uint16_t *\<close> and \<open>uint32_t *\<close>.  The lemmas say what each routine writes
  (\<open>_in\<close>) and that it writes nothing else (\<open>_out\<close>).
\<close>

section \<open>Memory and regions\<close>

type_synonym ram = "addr \<Rightarrow> byte"

text \<open>The \<open>n\<close> bytes from \<open>p\<close> on; addresses wrap at \<open>2 ^ 32\<close>.\<close>

definition region :: "addr \<Rightarrow> nat \<Rightarrow> addr set" where
  "region p n = (\<lambda>i. p + of_nat i) ` {..<n}"

definition read_bytes :: "ram \<Rightarrow> addr \<Rightarrow> nat \<Rightarrow> byte list" where
  "read_bytes m p n = map (\<lambda>i. m (p + of_nat i)) [0..<n]"

lemma mem_region: "a \<in> region p n \<longleftrightarrow> (\<exists>i<n. a = p + of_nat i)"
  by (auto simp: region_def)

lemma region_memI [intro]: "i < n \<Longrightarrow> p + of_nat i \<in> region p n"
  by (auto simp: mem_region)

lemma region_0 [simp]: "region p 0 = {}"
  by (simp add: region_def)

lemma region_Suc: "region p (Suc n) = insert (p + of_nat n) (region p n)"
  by (simp add: region_def lessThan_Suc)

lemma region_mono: "n \<le> k \<Longrightarrow> region p n \<subseteq> region p k"
  by (auto simp: region_def)

lemma region_4: "region p 4 = {p, p + 1, p + 2, p + 3}"
  by (auto simp: region_def lessThan_Suc eval_nat_numeral add.assoc)

lemma length_read_bytes [simp]: "length (read_bytes m p n) = n"
  by (simp add: read_bytes_def)

lemma nth_read_bytes [simp]: "i < n \<Longrightarrow> read_bytes m p n ! i = m (p + of_nat i)"
  by (simp add: read_bytes_def)

lemma read_bytes_cong: "(\<And>a. a \<in> region p n \<Longrightarrow> m a = m' a) \<Longrightarrow> read_bytes m p n = read_bytes m' p n"
  by (auto simp: read_bytes_def region_def)

section \<open>memory.c\<close>

text \<open>\<open>for (i = 0; i < len; i++) ((char *)ptr)[i] = v\<close>: no iteration for \<open>len \<le> 0\<close>.\<close>

definition memset :: "ram \<Rightarrow> addr \<Rightarrow> byte \<Rightarrow> int \<Rightarrow> ram" where
  "memset m ptr v len = fold (\<lambda>i m. m(ptr + of_nat i := v)) [0..<nat len] m"

text \<open>
  \<open>while (len--) *d++ = *s++\<close>: the counter runs down to zero, \<open>unat len\<close> steps on the
  32-bit machine, copying upwards byte by byte (so overlapping buffers behave as the code does).
\<close>

definition memcpy :: "ram \<Rightarrow> addr \<Rightarrow> addr \<Rightarrow> u32 \<Rightarrow> ram" where
  "memcpy m dest src len =
     fold (\<lambda>i m. m(dest + of_nat i := m (src + of_nat i))) [0..<unat len] m"

text \<open>\<open>char\<close> is signed on the target, so the order of the first differing bytes is signed.\<close>

fun memcmp_loop :: "(nat \<Rightarrow> byte) \<Rightarrow> (nat \<Rightarrow> byte) \<Rightarrow> nat \<Rightarrow> nat \<Rightarrow> int" where
  "memcmp_loop c1 c2 i 0 = 0"
| "memcmp_loop c1 c2 i (Suc count) =
     (if c1 i \<noteq> c2 i then (if sint (c1 i) < sint (c2 i) then - 1 else 1)
      else memcmp_loop c1 c2 (Suc i) count)"

definition memcmp :: "(nat \<Rightarrow> byte) \<Rightarrow> (nat \<Rightarrow> byte) \<Rightarrow> int \<Rightarrow> int" where
  "memcmp s1 s2 count = memcmp_loop s1 s2 0 (nat count)"

section \<open>What the routines write\<close>

lemma fold_store_out:
  "a \<notin> (\<lambda>i. p + of_nat i) ` set is \<Longrightarrow> fold (\<lambda>i m. m(p + of_nat i := f i m)) is m a = m a"
  by (induction "is" arbitrary: m) auto

lemma memset_out: "a \<notin> region p (nat len) \<Longrightarrow> memset m p v len a = m a"
  unfolding memset_def by (subst fold_store_out) (auto simp: region_def atLeast0LessThan)

lemma memset_in:
  assumes "a \<in> region p (nat len)"
  shows "memset m p v len a = v"
proof -
  have "a \<in> region p n \<Longrightarrow> fold (\<lambda>i m. m(p + of_nat i := v)) [0..<n] m a = v" for n
    by (induction n) (auto simp: region_Suc)
  with assms show ?thesis by (simp add: memset_def)
qed

lemma memset_eq: "memset m p v len = (\<lambda>a. if a \<in> region p (nat len) then v else m a)"
  by (auto simp: memset_in memset_out)

lemma memcpy_out: "a \<notin> region d (unat len) \<Longrightarrow> memcpy m d s len a = m a"
  unfolding memcpy_def by (subst fold_store_out) (auto simp: region_def atLeast0LessThan)

lemma memcpy_prefix:
  assumes "region d n \<inter> region s n = {}" "n \<le> 2 ^ 32" "i < n"
  shows "fold (\<lambda>i m. m(d + of_nat i := m (s + of_nat i))) [0..<n] m (d + of_nat i)
         = m (s + of_nat i)"
  using assms
proof (induction n)
  case (Suc n)
  let ?f = "fold (\<lambda>i m. m(d + of_nat i := m (s + of_nat i))) [0..<n] m"
  have step: "fold (\<lambda>i m. m(d + of_nat i := m (s + of_nat i))) [0..<Suc n] m
              = ?f(d + of_nat n := ?f (s + of_nat n))"
    by simp
  have "s + of_nat n \<notin> region d n"
    using Suc.prems(1) by (auto simp: region_Suc)
  then have last: "?f (s + of_nat n) = m (s + of_nat n)"
    by (subst fold_store_out) (auto simp: region_def atLeast0LessThan)
  show ?case
  proof (cases "i = n")
    case True
    show ?thesis unfolding True step fun_upd_same by (rule last)
  next
    case False
    then have IH: "?f (d + of_nat i) = m (s + of_nat i)"
      using Suc.prems by (intro Suc.IH) (auto simp: region_Suc)
    have "(of_nat i :: u32) \<noteq> of_nat n"
      using False Suc.prems(2,3) by (subst of_nat_inj_u32) auto
    then have "d + of_nat i \<noteq> d + (of_nat n :: u32)" by simp
    then show ?thesis unfolding step using IH by (simp only: fun_upd_other not_False_eq_True)
  qed
qed simp

lemma memcpy_in:
  assumes "region d (unat len) \<inter> region s (unat len) = {}" "i < unat len"
  shows "memcpy m d s len (d + of_nat i) = m (s + of_nat i)"
  unfolding memcpy_def by (rule memcpy_prefix) (use assms in \<open>auto intro: less_imp_le\<close>)

lemma memcpy_read_bytes:
  assumes "region d (unat len) \<inter> region s (unat len) = {}"
  shows "read_bytes (memcpy m d s len) d (unat len) = read_bytes m s (unat len)"
  using assms by (auto simp: read_bytes_def memcpy_in)

lemma memcmp_loop_zero:
  "memcmp_loop c1 c2 i n = 0 \<longleftrightarrow> (\<forall>k<n. c1 (i + k) = c2 (i + k))"
proof (induction c1 c2 i n rule: memcmp_loop.induct)
  case (2 c1 c2 i count)
  have "(\<forall>k<Suc count. c1 (i + k) = c2 (i + k)) \<longleftrightarrow>
        c1 i = c2 i \<and> (\<forall>k<count. c1 (Suc i + k) = c2 (Suc i + k))"
    by (auto simp: less_Suc_eq_0_disj)
  with 2 show ?case by auto
qed simp

lemma memcmp_zero: "memcmp s1 s2 n = 0 \<longleftrightarrow> (\<forall>k<nat n. s1 k = s2 k)"
  by (simp add: memcmp_def memcmp_loop_zero)

section \<open>Little-endian access\<close>

definition load16 :: "ram \<Rightarrow> addr \<Rightarrow> u16" where
  "load16 m p = ucast (m p) OR push_bit 8 (ucast (m (p + 1)))"

definition load32 :: "ram \<Rightarrow> addr \<Rightarrow> u32" where
  "load32 m p = ucast (m p) OR push_bit 8 (ucast (m (p + 1)))
     OR push_bit 16 (ucast (m (p + 2))) OR push_bit 24 (ucast (m (p + 3)))"

definition store32 :: "ram \<Rightarrow> addr \<Rightarrow> u32 \<Rightarrow> ram" where
  "store32 m p v = m(p := ucast v, p + 1 := ucast (drop_bit 8 v),
     p + 2 := ucast (drop_bit 16 v), p + 3 := ucast (drop_bit 24 v))"

lemma bytes_of_u32:
  "(ucast (ucast v :: byte) :: u32) OR push_bit 8 (ucast (ucast (drop_bit 8 v) :: byte))
   OR push_bit 16 (ucast (ucast (drop_bit 16 v) :: byte))
   OR push_bit 24 (ucast (ucast (drop_bit 24 v) :: byte)) = v"
proof (rule bit_eqI)
  fix n assume "possible_bit TYPE(u32) n"
  then have n: "n < 32" by (simp add: possible_bit_word)
  then consider "n < 8" | "8 \<le> n \<and> n < 16" | "16 \<le> n \<and> n < 24" | "24 \<le> n"
    by linarith
  then show "bit ((ucast (ucast v :: byte) :: u32) OR push_bit 8 (ucast (ucast (drop_bit 8 v) :: byte))
   OR push_bit 16 (ucast (ucast (drop_bit 16 v) :: byte))
   OR push_bit 24 (ucast (ucast (drop_bit 24 v) :: byte))) n = bit v n"
    by cases (use n in \<open>auto simp: bit_simps\<close>)
qed

lemma load32_store32_same [simp]: "load32 (store32 m p v) p = v"
  by (simp add: load32_def store32_def bytes_of_u32)

lemma store32_out: "a \<notin> region p 4 \<Longrightarrow> store32 m p v a = m a"
  by (simp add: store32_def region_4)

lemma load32_cong: "(\<And>i. i < 4 \<Longrightarrow> m (p + of_nat i) = m' (q + of_nat i)) \<Longrightarrow> load32 m p = load32 m' q"
proof -
  assume a: "\<And>i. i < 4 \<Longrightarrow> m (p + of_nat i) = m' (q + of_nat i)"
  from a [of 0] a [of 1] a [of 2] a [of 3] show ?thesis by (simp add: load32_def)
qed

lemma load32_store32_disjoint:
  assumes "region p 4 \<inter> region q 4 = {}"
  shows "load32 (store32 m p v) q = load32 m q"
  by (rule load32_cong) (use assms in \<open>blast intro: store32_out\<close>)

section \<open>Storing a run of bytes\<close>

definition write_bytes :: "ram \<Rightarrow> addr \<Rightarrow> byte list \<Rightarrow> ram" where
  "write_bytes m p bs = fold (\<lambda>i m. m(p + of_nat i := bs ! i)) [0..<length bs] m"

lemma write_bytes_out: "a \<notin> region p (length bs) \<Longrightarrow> write_bytes m p bs a = m a"
  unfolding write_bytes_def by (subst fold_store_out) (auto simp: region_def atLeast0LessThan)

lemma write_bytes_in:
  assumes "length bs \<le> 2 ^ 32" "i < length bs"
  shows "write_bytes m p bs (p + of_nat i) = bs ! i"
proof -
  have "n \<le> 2 ^ 32 \<Longrightarrow> i < n \<Longrightarrow>
      fold (\<lambda>i m. m(p + of_nat i := bs ! i)) [0..<n] m (p + of_nat i) = bs ! i" for n
  proof (induction n)
    case (Suc n)
    then show ?case
      using of_nat_inj_u32 [of i n] by (cases "i = n") simp_all
  qed simp
  with assms show ?thesis by (simp add: write_bytes_def)
qed

lemma read_write_bytes: "length bs \<le> 2 ^ 32 \<Longrightarrow> read_bytes (write_bytes m p bs) p (length bs) = bs"
  by (rule nth_equalityI) (simp_all add: write_bytes_in)

lemma write_bytes_append:
  "write_bytes (write_bytes m p xs) (p + of_nat (length xs)) ys = write_bytes m p (xs @ ys)"
proof -
  have up: "[0..<length (xs @ ys)] = [0..<length xs] @ map (\<lambda>i. i + length xs) [0..<length ys]"
    using upt_add_eq_append [of 0 "length xs" "length ys"] by (simp add: map_add_upt add.commute)
  have l: "fold (\<lambda>i m. m(p + of_nat i := (xs @ ys) ! i)) [0..<length xs] m =
      fold (\<lambda>i m. m(p + of_nat i := xs ! i)) [0..<length xs] m"
    by (rule fold_cong) (simp_all add: nth_append)
  have r: "fold (\<lambda>i m. m(p + of_nat i := (xs @ ys) ! i)) (map (\<lambda>i. i + length xs) [0..<length ys]) m' =
      fold (\<lambda>i m. m(p + of_nat (length xs) + of_nat i := ys ! i)) [0..<length ys] m'" for m'
    unfolding fold_map by (rule fold_cong) (auto simp: nth_append fun_eq_iff ac_simps)
  show ?thesis unfolding write_bytes_def up fold_append o_def l r ..
qed

end
