(* ===== verification/Heap_Alloc.thy ===== *)
theory Heap_Alloc
  imports Kernel_Heap C_Memory
begin

text \<open>
  What \<open>heap_malloc\<close> and \<open>heap_free\<close> promise.  The live allocations of a heap are read off
  its table; the contract between an allocator and its clients is the locale \<open>allocator\<close>, which
  the block heap of \<open>heap.c\<close> interprets.  The lemmas before it describe every outcome of
  \<open>heap_malloc_blocks\<close>, the refused request and the failed assertion included.
\<close>

section \<open>Live allocations\<close>

fun run_length :: "HEAP_BLOCK_TABLE_ENTRY list \<Rightarrow> nat" where
  "run_length [] = 0"
| "run_length (e # es) = Suc (if e AND HEAP_BLOCK_HAS_NEXT = 0 then 0 else run_length es)"

definition live_blocks :: "HEAP_BLOCK_TABLE_ENTRY list \<Rightarrow> (nat \<times> nat) set" where
  "live_blocks es = (\<lambda>j. (j, run_length (drop j es))) `
     {j. j < length es \<and> es ! j AND HEAP_BLOCK_IS_FIRST \<noteq> 0}"

text \<open>The same in bytes: the address of an allocation and its length.\<close>

definition heap_live :: "heap \<Rightarrow> (addr \<times> nat) set" where
  "heap_live h = (\<lambda>(j, k). (heap_block_to_address h (int j), 4096 * k)) `
     live_blocks (ht_entries (h_table h))"

lemma run_length_segment: "run_length (seg_entries (Taken n) @ rest) = Suc n"
proof -
  have "run_length (replicate k 0x81 @ 0x01 # rest) = Suc k" for k by (induction k) auto
  then show ?thesis by (cases n) auto
qed

lemma allocs_from_split:
  "(c, k) \<in> set (allocs_from b s) \<Longrightarrow>
   \<exists>t n u. s = t @ Taken n # u \<and> c = b + length (table_of t) \<and> k = Suc n"
proof (induction s arbitrary: b)
  case (Cons x s)
  show ?case
  proof (cases x)
    case FreeBlock
    with Cons obtain t n u where "s = t @ Taken n # u \<and> c = Suc b + length (table_of t) \<and> k = Suc n"
      by fastforce
    with FreeBlock show ?thesis
      by (intro exI [of _ "FreeBlock # t"] exI [of _ n] exI [of _ u]) simp
  next
    case (Taken m)
    show ?thesis
    proof (cases "(c, k) = (b, Suc m)")
      case True
      with Taken show ?thesis by (intro exI [of _ "[]"] exI [of _ m] exI [of _ s]) simp
    next
      case False
      with Taken Cons obtain t n u
        where "s = t @ Taken n # u \<and> c = (b + Suc m) + length (table_of t) \<and> k = Suc n"
        by fastforce
      with Taken show ?thesis
        by (intro exI [of _ "Taken m # t"] exI [of _ n] exI [of _ u]) simp
    qed
  qed
qed simp

lemma live_blocks_table: "live_blocks (table_of s) = set (allocs_from 0 s)"
proof (intro set_eqI iffI)
  fix x assume "x \<in> live_blocks (table_of s)"
  then obtain j where j: "j < length (table_of s)" "table_of s ! j AND HEAP_BLOCK_IS_FIRST \<noteq> 0"
    and x: "x = (j, run_length (drop j (table_of s)))"
    by (auto simp: live_blocks_def)
  obtain t n u where "s = t @ Taken n # u" "length (table_of t) = j"
    using first_mark_segs [OF j] by blast
  with x show "x \<in> set (allocs_from 0 s)" by (simp add: run_length_segment)
next
  fix x assume x: "x \<in> set (allocs_from 0 s)"
  then obtain t n u where s: "s = t @ Taken n # u" "x = (length (table_of t), Suc n)"
    using allocs_from_split [of "fst x" "snd x" 0 s] by (metis add_0 prod.collapse)
  have "(seg_entries (Taken n) @ table_of u) ! 0 AND HEAP_BLOCK_IS_FIRST \<noteq> 0"
    by (cases n) simp_all
  then show "x \<in> live_blocks (table_of s)"
    unfolding live_blocks_def s
    by (intro image_eqI [of _ _ "length (table_of t)"]) (auto simp: run_length_segment nth_append)
qed

lemma allocs_disjoint:
  "(c, k) \<in> set (allocs_from b s) \<Longrightarrow> (c', k') \<in> set (allocs_from b s) \<Longrightarrow>
   (c, k) = (c', k') \<or> c + k \<le> c' \<or> c' + k' \<le> c"
proof (induction s arbitrary: b)
  case (Cons x s)
  then show ?case
    by (cases x) (auto dest: allocs_from_bounds)
qed simp

section \<open>Addresses of blocks\<close>

lemma heap_wf_bounds:
  assumes "heap_wf h" "j \<le> length (ht_entries (h_table h))"
  shows "unat (h_saddr h) + 4096 * j < 2 ^ 32" "4096 * j < 2 ^ 31"
  using assms unfolding heap_wf_def by auto

lemma unat_block_address:
  assumes "heap_wf h" "j \<le> length (ht_entries (h_table h))"
  shows "unat (heap_block_to_address h (int j)) = unat (h_saddr h) + 4096 * j"
proof -
  note b = heap_wf_bounds [OF assms]
  define off where "off = (of_nat (4096 * j) :: u32)"
  have off: "word_of_int (int j * 4096) = off"
    by (simp add: off_def mult.commute)
  have u: "unat off = 4096 * j"
    unfolding off_def using b by (intro unat_of_nat_small) linarith
  have "unat (h_saddr h) + unat off < 2 ^ LENGTH(32)" using b u by simp
  then have "unat (h_saddr h + off) = unat (h_saddr h) + unat off"
    by (rule unat_add_lem [THEN iffD1])
  then show ?thesis unfolding heap_block_to_address_def off u .
qed

lemma block_address_props:
  assumes "heap_wf h" "j \<le> length (ht_entries (h_table h))"
  shows "heap_block_to_address h (int j) \<noteq> 0"
    and "paging_is_address_aligned (heap_block_to_address h (int j))"
    and "h_saddr h \<le> heap_block_to_address h (int j)"
    and "heap_address_to_block h (heap_block_to_address h (int j)) = int j"
proof -
  note u = unat_block_address [OF assms] and b = heap_wf_bounds [OF assms]
  have nz: "unat (h_saddr h) > 0"
    using assms(1) by (metis heap_wf_def neq0_conv unat_eq_zero)
  then show "heap_block_to_address h (int j) \<noteq> 0"
    using u by (metis add_gr_0 less_numeral_extra(3) unat_0)
  have "unat (h_saddr h) mod 4096 = 0"
    using assms(1) by (simp add: heap_wf_def aligned_iff_nat)
  then have "(unat (h_saddr h) + 4096 * j) mod 4096 = 0" by simp
  then show "paging_is_address_aligned (heap_block_to_address h (int j))"
    by (simp add: aligned_iff_nat u)
  show "h_saddr h \<le> heap_block_to_address h (int j)"
    by (simp add: word_le_nat_alt u)
  have "heap_block_to_address h (int j) - h_saddr h = word_of_int (int j * 4096)"
    by (simp add: heap_block_to_address_def)
  moreover have "sint (word_of_int (int j * 4096) :: u32) = int j * 4096"
    using b by (intro sint_word_of_int_u32) simp_all
  ultimately show "heap_address_to_block h (heap_block_to_address h (int j)) = int j"
    by (simp add: heap_address_to_block_def sdiv_nonneg)
qed

section \<open>Every outcome of a request\<close>

lemma heap_malloc_blocks_found:
  assumes "heap_wf h" "0 < n" "first_fit (ht_entries (h_table h)) n j"
  shows "heap_malloc_blocks h (int n) = Inr (heap_block_to_address h (int j), take_blocks h j n)"
proof -
  let ?es = "ht_entries (h_table h)"
  have run: "free_run ?es j n" using assms(3) by (simp add: first_fit_def)
  obtain r where r: "search_result ?es n r"
    "heap_get_start_block h (int n) = (if r = - 1 then - ENOMEM else r)"
    using get_start_block_search [OF assms(1,2)] by blast
  obtain i where i: "r = int i" "first_fit ?es n i"
    using r(1) run by (auto simp: search_result_def)
  have "i = j" using i(2) assms(3) unfolding first_fit_def by (meson linorder_neqE_nat)
  with i r have "heap_get_start_block h (int n) = int j" by simp
  moreover have "j + n \<le> length ?es" using run by (simp add: free_run_def)
  ultimately show ?thesis
    using mark_blocks_taken_eq [OF assms(1,2)] by (simp add: heap_malloc_blocks_def ISERR_def)
qed

lemma free_tail_le:
  assumes "free_tail es c" "free_tail es d"
  shows "d \<le> c"
proof (rule ccontr)
  assume "\<not> d \<le> c"
  moreover have "d \<le> length es" using assms by (simp add: free_tail_def)
  ultimately have i: "length es - d \<le> length es - c - 1" "length es - c - 1 < length es - d + d"
    and "c < length es"
    by linarith+
  then have "heap_table_entry_type (es ! (length es - c - 1)) \<noteq> 0"
    using assms(1) by (simp add: free_tail_def)
  moreover have "free_run es (length es - d) d" using assms(2) by (simp add: free_tail_def)
  ultimately show False using free_run_at i by blast
qed

lemma free_tail_unique: "free_tail es c \<Longrightarrow> free_tail es d \<Longrightarrow> c = d"
  by (simp add: free_tail_le order_antisym)

lemma heap_malloc_blocks_none:
  assumes "heap_wf h" "0 < n" "\<forall>j. \<not> free_run (ht_entries (h_table h)) j n"
    and "free_tail (ht_entries (h_table h)) c"
  shows "heap_malloc_blocks h (int n) =
    (if c = 0 then Inr (0, h) else Inl (AssertFailed ''heap_ensure_block_bounds''))"
proof -
  let ?es = "ht_entries (h_table h)"
  obtain r where r: "search_result ?es n r"
    "heap_get_start_block h (int n) = (if r = - 1 then - ENOMEM else r)"
    using get_start_block_search [OF assms(1,2)] by blast
  obtain d where d: "free_tail ?es d" "d < n" "r = (if d = 0 then - 1 else int (length ?es - d))"
    using r(1) assms(3) unfolding search_result_def first_fit_def by blast
  have "c = d" using free_tail_unique [OF assms(4) d(1)] .
  show ?thesis
  proof (cases "c = 0")
    case True
    then have "heap_get_start_block h (int n) = - ENOMEM"
      using d(3) r(2) \<open>c = d\<close> by simp
    with True show ?thesis by (simp add: heap_malloc_blocks_def ISERR_def)
  next
    case False
    then have "heap_get_start_block h (int n) = int (length ?es - c)"
      using d(3) r(2) \<open>c = d\<close> by simp
    moreover have "length ?es < (length ?es - c) + n"
      using d(1,2) \<open>c = d\<close> by (simp add: free_tail_def)
    ultimately show ?thesis
      using False mark_blocks_short [OF assms(1,2)] by (simp add: heap_malloc_blocks_def ISERR_def)
  qed
qed

lemma free_tail_ex: "\<exists>c. free_tail es c"
proof (induction es rule: rev_induct)
  case (snoc e es)
  then obtain c where "free_tail es c" by blast
  then show ?case
    by (cases "heap_table_entry_type e = 0") (blast intro: free_tail_snoc_free free_tail_snoc_taken)+
qed (auto simp: free_tail_def free_run_def)

lemma first_fit_ex: "free_run es i n \<Longrightarrow> \<exists>j. first_fit es n j"
  unfolding first_fit_def
  by (rule exI [of _ "LEAST j. free_run es j n"]) (auto intro: LeastI dest: not_less_Least)

lemma heap_malloc_blocks_cases:
  assumes "heap_wf h" "0 < n"
  obtains (found) j where "first_fit (ht_entries (h_table h)) n j"
      "heap_malloc_blocks h (int n) = Inr (heap_block_to_address h (int j), take_blocks h j n)"
  | (exhausted) "\<forall>j. \<not> free_run (ht_entries (h_table h)) j n"
      "heap_malloc_blocks h (int n) = Inr (0, h)"
  | (stuck) c where "\<forall>j. \<not> free_run (ht_entries (h_table h)) j n"
      "free_tail (ht_entries (h_table h)) c" "0 < c" "c < n"
      "heap_malloc_blocks h (int n) = Inl (AssertFailed ''heap_ensure_block_bounds'')"
proof (cases "\<exists>j. free_run (ht_entries (h_table h)) j n")
  case True
  then obtain j where j: "first_fit (ht_entries (h_table h)) n j" using first_fit_ex by blast
  show ?thesis by (rule found [OF j heap_malloc_blocks_found [OF assms j]])
next
  case False
  obtain c where c: "free_tail (ht_entries (h_table h)) c" using free_tail_ex by blast
  have "c < n"
  proof (rule ccontr)
    assume "\<not> c < n"
    then have "free_run (ht_entries (h_table h)) (length (ht_entries (h_table h)) - c) n"
      using c by (auto simp: free_tail_def free_run_def)
    with False show False by blast
  qed
  then show ?thesis
    using heap_malloc_blocks_none [OF assms _ c] False c exhausted stuck by (cases "c = 0") auto
qed

section \<open>Taking and releasing blocks of a table\<close>

lemma take_blocks_segs:
  assumes "heap_wf h" "0 < n" "free_run (ht_entries (h_table h)) j n"
  obtains t u where "ht_entries (h_table h) = table_of (t @ replicate n FreeBlock @ u)"
    "length (table_of t) = j"
    "ht_entries (h_table (take_blocks h j n)) = table_of (t @ Taken (n - 1) # u)"
proof -
  obtain s where s: "ht_entries (h_table h) = table_of s"
    using assms(1) by (auto simp: heap_wf_def heap_segs_def)
  have run: "j + n \<le> length (table_of s)"
    "\<forall>k<n. heap_table_entry_type (table_of s ! (j + k)) = 0"
    using assms(3) by (simp_all add: free_run_def s)
  obtain t u where tu: "s = t @ replicate n FreeBlock @ u" "length (table_of t) = j"
    using free_run_segs [OF assms(2) run] by blast
  show ?thesis by (rule that [of t u]) (use s tu assms(2) in \<open>auto simp: take_blocks_def\<close>)
qed

lemma take_blocks_wf:
  assumes "heap_wf h" "0 < n" "free_run (ht_entries (h_table h)) j n"
  shows "heap_wf (take_blocks h j n)"
    and "live_blocks (ht_entries (h_table (take_blocks h j n))) =
         insert (j, n) (live_blocks (ht_entries (h_table h)))"
    and "(i, k) \<in> live_blocks (ht_entries (h_table h)) \<Longrightarrow> i + k \<le> j \<or> j + n \<le> i"
proof -
  from assms obtain t u where tu:
    "ht_entries (h_table h) = table_of (t @ replicate n FreeBlock @ u)"
    "length (table_of t) = j"
    "ht_entries (h_table (take_blocks h j n)) = table_of (t @ Taken (n - 1) # u)"
    by (rule take_blocks_segs)
  have len: "length (ht_entries (h_table (take_blocks h j n))) = length (ht_entries (h_table h))"
    using tu assms(2) by simp
  have "take_blocks h j n = h\<lparr>h_table := (h_table h)\<lparr>ht_entries :=
      ht_entries (h_table (take_blocks h j n))\<rparr>\<rparr>"
    by (simp add: take_blocks_def)
  then show "heap_wf (take_blocks h j n)"
    using heap_wf_entries [OF assms(1) len tu(3)] by simp
  have old: "live_blocks (ht_entries (h_table h)) =
      set (allocs_from 0 t) \<union> set (allocs_from (j + n) u)"
    unfolding tu(1) live_blocks_table by (simp add: tu(2))
  show "live_blocks (ht_entries (h_table (take_blocks h j n))) =
      insert (j, n) (live_blocks (ht_entries (h_table h)))"
    unfolding old tu(3) live_blocks_table using assms(2) by (auto simp: tu(2))
  show "(i, k) \<in> live_blocks (ht_entries (h_table h)) \<Longrightarrow> i + k \<le> j \<or> j + n \<le> i"
    unfolding old using tu(2) by (auto dest: allocs_from_bounds)
qed

lemma live_block_segs:
  assumes "heap_wf h" "(j, k) \<in> live_blocks (ht_entries (h_table h))"
  obtains t n u where "ht_entries (h_table h) = table_of (t @ Taken n # u)"
    "length (table_of t) = j" "k = Suc n"
proof -
  obtain s where s: "ht_entries (h_table h) = table_of s"
    using assms(1) by (auto simp: heap_wf_def heap_segs_def)
  with assms(2) have "(j, k) \<in> set (allocs_from 0 s)" by (simp add: live_blocks_table)
  then show ?thesis using allocs_from_split [of j k 0 s] that s by auto
qed

lemma mark_blocks_free_step:
  assumes "heap_wf h" "j < length (ht_entries (h_table h))"
    and first: "ht_entries (h_table h) ! j AND HEAP_BLOCK_IS_FIRST \<noteq> 0"
    and mf: "mark_free_loop (drop j (ht_entries (h_table h))) =
      replicate k 0 @ drop (j + k) (ht_entries (h_table h))"
  shows "heap_mark_blocks_free h (int j) = Inr (release_blocks h j k)"
proof -
  have b: "(length (ht_entries (h_table h)) \<le> j) = False" "(int j < 0) = False"
    using assms(2) by auto
  show ?thesis
    unfolding heap_mark_blocks_free_def Let_def heap_wf_simps(2,3,4) [OF assms(1)] release_blocks_def
    using assms(2)
    by (simp only: first mf b bindE.simps ASSERT_True if_False nat_int of_nat_less_iff simp_thms
        append_Nil2)
qed

lemma mark_blocks_free_live:
  assumes "heap_wf h" "(j, k) \<in> live_blocks (ht_entries (h_table h))"
  shows "heap_mark_blocks_free h (int j) = Inr (release_blocks h j k)"
    and "heap_wf (release_blocks h j k)"
    and "live_blocks (ht_entries (h_table (release_blocks h j k))) =
         live_blocks (ht_entries (h_table h)) - {(j, k)}"
proof -
  from assms obtain t n u where tu: "ht_entries (h_table h) = table_of (t @ Taken n # u)"
    "length (table_of t) = j" and k: "k = Suc n"
    by (rule live_block_segs)
  have "(seg_entries (Taken n) @ table_of u) ! 0 AND HEAP_BLOCK_IS_FIRST \<noteq> 0"
    by (cases n) simp_all
  then have first: "ht_entries (h_table h) ! j AND HEAP_BLOCK_IS_FIRST \<noteq> 0"
    using tu by (simp add: nth_append)
  have lt: "j < length (ht_entries (h_table h))" using tu by simp
  have drop_j: "drop j (ht_entries (h_table h)) = seg_entries (Taken n) @ table_of u"
    and drop_k: "drop (j + k) (ht_entries (h_table h)) = table_of u"
    using tu k by simp_all
  have mf: "mark_free_loop (drop j (ht_entries (h_table h))) =
      replicate k 0 @ drop (j + k) (ht_entries (h_table h))"
    using mark_free_loop_segment [of n "table_of u"] unfolding drop_j drop_k by (simp only: k)
  show "heap_mark_blocks_free h (int j) = Inr (release_blocks h j k)"
    by (rule mark_blocks_free_step [OF assms(1) lt first mf])
  have rel: "ht_entries (h_table (release_blocks h j k)) = table_of (t @ replicate k FreeBlock @ u)"
    using tu k drop_k by (simp add: release_blocks_def)
  have len: "length (ht_entries (h_table (release_blocks h j k))) = length (ht_entries (h_table h))"
    unfolding rel using tu k by simp
  have "release_blocks h j k = h\<lparr>h_table := (h_table h)\<lparr>ht_entries :=
      ht_entries (h_table (release_blocks h j k))\<rparr>\<rparr>"
    by (simp add: release_blocks_def)
  then show "heap_wf (release_blocks h j k)"
    using heap_wf_entries [OF assms(1) len rel] by simp
  have "(j, k) \<notin> set (allocs_from 0 t)" "(j, k) \<notin> set (allocs_from (j + k) u)"
    using allocs_from_bounds [of j k 0 t] allocs_from_bounds [of j k "j + k" u] tu(2) k by auto
  then show "live_blocks (ht_entries (h_table (release_blocks h j k))) =
      live_blocks (ht_entries (h_table h)) - {(j, k)}"
    unfolding rel tu(1) live_blocks_table using tu(2) k by auto
qed

section \<open>Requests in bytes\<close>

text \<open>A request the rounding to pages does not wrap: at least one byte, at most up to the last page.\<close>

definition fits :: "u32 \<Rightarrow> bool" where
  "fits sz \<longleftrightarrow> 0 < unat sz \<and> unat sz \<le> 0xFFFFF000"

definition blocks_for :: "u32 \<Rightarrow> nat" where
  "blocks_for sz = (unat sz + 4095) div 4096"

lemma blocks_for_props:
  assumes "fits sz"
  shows "uint (paging_align_value_to_upper_page sz div COS32_PAGE_SIZE) = int (blocks_for sz)"
    and "0 < blocks_for sz" and "unat sz \<le> 4096 * blocks_for sz"
proof -
  have "unat (paging_align_value_to_upper_page sz div COS32_PAGE_SIZE) = blocks_for sz"
    using assms by (simp add: unat_div_4096 unat_upper_page fits_def blocks_for_def)
  then show "uint (paging_align_value_to_upper_page sz div COS32_PAGE_SIZE) = int (blocks_for sz)"
    by (simp only: uint_nat)
  have "unat sz + 4095 = (unat sz + 4095) div 4096 * 4096 + (unat sz + 4095) mod 4096"
    by (rule div_mult_mod_eq [symmetric])
  moreover have "(unat sz + 4095) mod 4096 \<le> 4095" using mod_less_divisor [of 4096] by (simp add: less_Suc_eq_le [symmetric])
  ultimately show *: "unat sz \<le> 4096 * blocks_for sz" by (simp only: blocks_for_def)
  show "0 < blocks_for sz"
    using * assms by (cases "blocks_for sz") (simp_all add: fits_def)
qed

lemma heap_malloc_eq: "fits sz \<Longrightarrow> heap_malloc h sz = heap_malloc_blocks h (int (blocks_for sz))"
  by (simp add: heap_malloc_def blocks_for_props)

lemma block_to_address_take [simp]:
  "heap_block_to_address (take_blocks h j n) b = heap_block_to_address h b"
  "heap_block_to_address (release_blocks h j n) b = heap_block_to_address h b"
  by (simp_all add: heap_block_to_address_def take_blocks_def release_blocks_def)

lemma live_blocks_bounds:
  assumes "heap_wf h" "(j, k) \<in> live_blocks (ht_entries (h_table h))"
  shows "j + k \<le> length (ht_entries (h_table h))" "0 < k"
proof -
  from assms obtain t n u where "ht_entries (h_table h) = table_of (t @ Taken n # u)"
    "length (table_of t) = j" "k = Suc n"
    by (rule live_block_segs)
  then show "j + k \<le> length (ht_entries (h_table h))" "0 < k" by simp_all
qed

lemma block_address_inj:
  assumes "heap_wf h" "i \<le> length (ht_entries (h_table h))" "j \<le> length (ht_entries (h_table h))"
    "heap_block_to_address h (int i) = heap_block_to_address h (int j)"
  shows "i = j"
proof -
  have "unat (h_saddr h) + 4096 * i = unat (h_saddr h) + 4096 * j"
    using assms(4) unat_block_address [OF assms(1,2)] unat_block_address [OF assms(1,3)] by metis
  then show ?thesis by linarith
qed

lemma block_region:
  assumes "heap_wf h" "j + n \<le> length (ht_entries (h_table h))"
    "a \<in> region (heap_block_to_address h (int j)) (4096 * n)"
  shows "unat (h_saddr h) + 4096 * j \<le> unat a" "unat a < unat (h_saddr h) + 4096 * (j + n)"
proof -
  obtain x where x: "x < 4096 * n" "a = heap_block_to_address h (int j) + of_nat x"
    using assms(3) by (auto simp: mem_region)
  have b: "unat (h_saddr h) + 4096 * (j + n) < 2 ^ 32"
    using heap_wf_bounds(1) [OF assms(1,2)] .
  have u: "unat (heap_block_to_address h (int j)) = unat (h_saddr h) + 4096 * j"
    using assms by (intro unat_block_address) simp_all
  have "4096 * n \<le> 4096 * (j + n)" by simp
  then have "x < 2 ^ 32" using x(1) b unfolding power_numeral by linarith
  then have ux: "unat (of_nat x :: u32) = x" by (rule unat_of_nat_small)
  have "unat (heap_block_to_address h (int j)) + unat (of_nat x :: u32) < 2 ^ LENGTH(32)"
    using x(1) b u ux by simp
  then have "unat a = unat (heap_block_to_address h (int j)) + unat (of_nat x :: u32)"
    unfolding x(2) by (rule unat_add_lem [THEN iffD1])
  then have "unat a = unat (h_saddr h) + 4096 * j + x" by (simp only: u ux)
  then show "unat (h_saddr h) + 4096 * j \<le> unat a" "unat a < unat (h_saddr h) + 4096 * (j + n)"
    using x(1) by simp_all
qed

lemma block_regions_disjoint:
  assumes "heap_wf h" "j + n \<le> length (ht_entries (h_table h))"
    "i + k \<le> length (ht_entries (h_table h))" "i + k \<le> j \<or> j + n \<le> i"
  shows "region (heap_block_to_address h (int j)) (4096 * n) \<inter>
         region (heap_block_to_address h (int i)) (4096 * k) = {}"
proof (rule ccontr)
  assume "\<not> ?thesis"
  then obtain a where a: "a \<in> region (heap_block_to_address h (int j)) (4096 * n)"
    "a \<in> region (heap_block_to_address h (int i)) (4096 * k)" by blast
  note lt = block_region [OF assms(1,2) a(1)] block_region [OF assms(1,3) a(2)]
  then have "4096 * j < 4096 * (i + k)" "4096 * i < 4096 * (j + n)" by linarith+
  then have "j < i + k" "i < j + n" by simp_all
  with assms(4) show False by linarith
qed

lemma heap_free_inversion:
  assumes wf: "heap_wf h" and ret: "heap_free h p = Inr h'"
  shows "\<exists>k. (p, k) \<in> heap_live h"
proof -
  let ?es = "ht_entries (h_table h)" and ?b = "heap_address_to_block h p"
  have ge: "h_saddr h \<le> p" and al: "paging_is_address_aligned p"
    and m: "heap_mark_blocks_free h ?b = Inr h'"
    using ret by (auto simp: heap_free_def bindE_Inr_iff)
  then have b: "0 \<le> ?b" "nat ?b < length ?es"
    and first: "?es ! nat ?b AND HEAP_BLOCK_IS_FIRST \<noteq> 0"
    by (auto simp: heap_mark_blocks_free_def Let_def bindE_Inr_iff split: if_splits)
  define off where "off = p - h_saddr h"
  have uo: "unat off = unat p - unat (h_saddr h)"
    unfolding off_def using ge by (simp add: unat_sub)
  have "unat (h_saddr h) mod 4096 = 0" "unat p mod 4096 = 0"
    using wf al by (simp_all add: heap_wf_def aligned_iff_nat)
  then have om: "unat off mod 4096 = 0"
    using ge by (metis mod_0_imp_dvd dvd_diff_nat dvd_imp_mod_0 uo)
  have "?b = int (unat off) div 4096"
  proof (cases "unat off < 2147483648")
    case True
    then have "uint off < 2147483648" by (metis of_nat_less_iff of_nat_numeral uint_nat)
    then show ?thesis
      unfolding heap_address_to_block_def off_def [symmetric]
      by (subst sint_eq_uint_u32) (simp_all add: sdiv_nonneg)
  next
    case False
    then have "\<not> uint off < 2147483648" by (metis of_nat_less_iff of_nat_numeral uint_nat)
    then have "sint off < 0" using sint_high_u32 by simp
    then have "sgn (sint off) = - 1" "\<bar>sint off\<bar> = - sint off" by simp_all
    moreover have "4096 \<le> - sint off" using sint_aligned_u32 [OF om \<open>sint off < 0\<close>] .
    ultimately have "?b < 0"
      unfolding heap_address_to_block_def off_def [symmetric] signed_divide_int_def
      by (simp add: pos_imp_zdiv_pos_iff)
    with b(1) show ?thesis by simp
  qed
  then have "nat ?b = unat off div 4096" by (simp add: nat_div_distrib)
  moreover have "unat off div 4096 * 4096 + unat off mod 4096 = unat off" by (rule div_mult_mod_eq)
  ultimately have uob: "unat off = nat ?b * 4096" using om by simp
  have "off = word_of_int (?b * 4096)"
    using b(1) uob by (metis int_nat_eq of_nat_mult of_nat_numeral uint_nat word_of_int_uint)
  then have "p = heap_block_to_address h ?b"
    unfolding heap_block_to_address_def by (metis off_def add.commute diff_add_cancel)
  then show ?thesis
    unfolding heap_live_def live_blocks_def using b first
    by (intro exI [of _ "4096 * run_length (drop (nat ?b) ?es)"])
      (auto intro!: image_eqI [of _ _ "(nat ?b, run_length (drop (nat ?b) ?es))"])
qed

lemma heap_malloc_unfit:
  assumes "\<not> fits sz"
  shows "heap_malloc h sz = heap_malloc_blocks h 0"
proof -
  have "unat sz = 0 \<or> 0xFFFFF000 < unat sz" using assms by (auto simp: fits_def)
  then have "paging_align_value_to_upper_page sz = 0"
  proof
    assume "unat sz = 0"
    then show ?thesis by (simp add: unat_eq_zero paging_align_value_to_upper_page_def)
  qed (rule upper_page_wraps)
  then show ?thesis by (simp add: heap_malloc_def)
qed

lemma heap_malloc_blocks_zero: "heap_malloc_blocks h 0 = Inr (p, h') \<Longrightarrow> p = 0 \<and> h' = h"
  by (auto simp: heap_malloc_blocks_def heap_mark_blocks_taken_def heap_ensure_block_bounds_def
      Let_def bindE_Inr_iff split: if_splits)

lemma heap_malloc_inversion:
  assumes "heap_wf h" "heap_malloc h sz = Inr (p, h')"
  obtains (null) "p = 0" "h' = h"
  | (taken) j where "fits sz" "first_fit (ht_entries (h_table h)) (blocks_for sz) j"
      "p = heap_block_to_address h (int j)" "h' = take_blocks h j (blocks_for sz)"
proof (cases "fits sz")
  case False
  then show ?thesis using assms(2) heap_malloc_blocks_zero null by (metis heap_malloc_unfit)
next
  case True
  have r: "heap_malloc_blocks h (int (blocks_for sz)) = Inr (p, h')"
    using assms(2) True by (simp add: heap_malloc_eq)
  show ?thesis
    using assms(1) blocks_for_props(2) [OF True]
    by (rule heap_malloc_blocks_cases) (use r True null taken in auto)
qed

section \<open>The contract of an allocator\<close>

text \<open>
  What a client of an allocator relies on: a state predicate kept by both operations, the set of
  live allocations as (address, bytes), null on refusal with nothing changed, fresh memory on
  success, and release of exactly one live allocation.
\<close>

locale allocator =
  fixes ok :: "'h \<Rightarrow> bool"
    and live :: "'h \<Rightarrow> (addr \<times> nat) set"
    and alloc :: "'h \<Rightarrow> u32 \<Rightarrow> (addr \<times> 'h) outcome"
    and release :: "'h \<Rightarrow> addr \<Rightarrow> 'h outcome"
  assumes alloc_null: "ok h \<Longrightarrow> alloc h sz = Inr (0, h') \<Longrightarrow> h' = h"
    and alloc_ok: "ok h \<Longrightarrow> alloc h sz = Inr (p, h') \<Longrightarrow> ok h'"
    and alloc_live: "ok h \<Longrightarrow> alloc h sz = Inr (p, h') \<Longrightarrow> p \<noteq> 0 \<Longrightarrow>
      \<exists>n. 0 < n \<and> unat sz \<le> n \<and> live h' = insert (p, n) (live h) \<and>
          (\<forall>(q, k) \<in> live h. region p n \<inter> region q k = {})"
    and release_live: "ok h \<Longrightarrow> (p, n) \<in> live h \<Longrightarrow>
      \<exists>h'. release h p = Inr h' \<and> ok h' \<and> live h' = live h - {(p, n)}"
    and release_only_live: "ok h \<Longrightarrow> release h p = Inr h' \<Longrightarrow> p \<noteq> 0 \<Longrightarrow> \<exists>n. (p, n) \<in> live h"
    and release_null: "ok h \<Longrightarrow> release h 0 = Inr h' \<Longrightarrow> h' = h"
    and live_disjoint: "ok h \<Longrightarrow> (p, n) \<in> live h \<Longrightarrow> (q, k) \<in> live h \<Longrightarrow>
      (p, n) \<noteq> (q, k) \<Longrightarrow> region p n \<inter> region q k = {}"
    and live_pos: "ok h \<Longrightarrow> (p, n) \<in> live h \<Longrightarrow> 0 < n \<and> p \<noteq> 0"
begin

lemma live_not_fresh:
  assumes "ok h" "alloc h sz = Inr (p, h')" "p \<noteq> 0"
  shows "(p, n) \<notin> live h"
proof
  assume l: "(p, n) \<in> live h"
  from alloc_live [OF assms] obtain k where k: "0 < k"
    "\<forall>(q, j) \<in> live h. region p k \<inter> region q j = {}" by blast
  with l have "region p k \<inter> region p n = {}" by blast
  moreover have "0 < n" using live_pos [OF assms(1) l] by simp
  ultimately show False using k(1) by (auto simp: region_def disjoint_iff)
qed

lemma alloc_release:
  assumes "ok h" "alloc h sz = Inr (p, h')" "p \<noteq> 0"
  shows "\<exists>h''. release h' p = Inr h'' \<and> ok h'' \<and> live h'' = live h"
proof -
  from alloc_live [OF assms] obtain n where n: "live h' = insert (p, n) (live h)" by blast
  have "ok h'" by (rule alloc_ok [OF assms(1,2)])
  then obtain h'' where "release h' p = Inr h''" "ok h''" "live h'' = live h' - {(p, n)}"
    using release_live [of h' p n] n by blast
  moreover have "live h' - {(p, n)} = live h" using n live_not_fresh [OF assms] by blast
  ultimately show ?thesis by auto
qed

lemma release_ok:
  assumes "ok h" "release h p = Inr h'"
  shows "ok h'"
proof (cases "p = 0")
  case True
  then show ?thesis using assms release_null by blast
next
  case False
  from release_only_live [OF assms False] obtain n where "(p, n) \<in> live h" by blast
  with release_live [OF assms(1)] assms(2) show ?thesis by fastforce
qed

text \<open>Filling a fresh allocation leaves the bytes of every older one alone.\<close>

lemma fill_fresh_frame:
  assumes "ok h" "alloc h sz = Inr (p, h')" "p \<noteq> 0" "(q, k) \<in> live h"
    and wr: "\<And>a. a \<notin> region p (unat sz) \<Longrightarrow> m' a = m a"
  shows "read_bytes m' q k = read_bytes m q k"
proof -
  from alloc_live [OF assms(1-3)] obtain n where n: "unat sz \<le> n"
    "\<forall>(q, k) \<in> live h. region p n \<inter> region q k = {}" by blast
  with assms(4) have "region p (unat sz) \<inter> region q k = {}"
    using region_mono [OF n(1), of p] by blast
  with wr show ?thesis by (intro read_bytes_cong) blast
qed

end

text \<open>A client's sequence of requests; the answers are the addresses it got, in order.\<close>

datatype request = Malloc u32 | Free addr

fun serve :: "('h \<Rightarrow> u32 \<Rightarrow> (addr \<times> 'h) outcome) \<Rightarrow> ('h \<Rightarrow> addr \<Rightarrow> 'h outcome) \<Rightarrow>
    request list \<Rightarrow> 'h \<Rightarrow> (addr list \<times> 'h) outcome" where
  "serve al re [] h = Inr ([], h)"
| "serve al re (Malloc sz # rs) h =
     bindE (al h sz) (\<lambda>(p, h'). bindE (serve al re rs h') (\<lambda>(ps, h''). Inr (p # ps, h'')))"
| "serve al re (Free p # rs) h = bindE (re h p) (\<lambda>h'. serve al re rs h')"

text \<open>
  The client's own account: the addresses it was answered with the sizes it asked for, newest first,
  less those it has given back.  It is kept from the requests and the answers alone.
\<close>

fun ledger :: "request list \<Rightarrow> addr list \<Rightarrow> (addr \<times> nat) list \<Rightarrow> (addr \<times> nat) list" where
  "ledger (Malloc sz # rs) (p # ps) held = ledger rs ps (if p = 0 then held else (p, unat sz) # held)"
| "ledger (Free q # rs) ps held = ledger rs ps (filter (\<lambda>(p, n). p \<noteq> q) held)"
| "ledger rs ps held = held"

text \<open>No address twice, and behind each entry a live allocation at least as long.\<close>

definition ledger_backed :: "(addr \<times> nat) set \<Rightarrow> (addr \<times> nat) list \<Rightarrow> bool" where
  "ledger_backed blocks held \<longleftrightarrow> distinct (map fst held) \<and> (\<forall>(p, n) \<in> set held. \<exists>k. n \<le> k \<and> (p, k) \<in> blocks)"

lemma ledger_backed_filter: "ledger_backed blocks held \<Longrightarrow> ledger_backed blocks (filter P held)"
  by (auto simp: ledger_backed_def distinct_map_filter)

context allocator
begin

lemma serve_ok: "ok h \<Longrightarrow> serve alloc release rs h = Inr (ps, h') \<Longrightarrow> ok h'"
proof (induction rs arbitrary: h ps)
  case (Cons r rs)
  show ?case
  proof (cases r)
    case (Malloc sz)
    with Cons show ?thesis by (auto simp: bindE_Inr_iff intro: alloc_ok)
  next
    case (Free p)
    with Cons.prems obtain h1 where h1: "release h p = Inr h1" "serve alloc release rs h1 = Inr (ps, h')"
      by (auto simp: bindE_Inr_iff)
    have "ok h1" by (rule release_ok [OF Cons.prems(1) h1(1)])
    with Cons.IH h1(2) show ?thesis by blast
  qed
qed simp

text \<open>What the client believes is what the allocator has.\<close>

lemma ledger_held:
  "ok h \<Longrightarrow> serve alloc release rs h = Inr (ps, h') \<Longrightarrow> ledger_backed (live h) held \<Longrightarrow>
   ledger_backed (live h') (ledger rs ps held)"
proof (induction rs arbitrary: h ps held)
  case (Cons r rs)
  note ok = Cons.prems(1) and b = Cons.prems(3)
  show ?case
  proof (cases r)
    case (Malloc sz)
    with Cons.prems(2) obtain p h1 qs where a: "alloc h sz = Inr (p, h1)" "serve alloc release rs h1 = Inr (qs, h')" "ps = p # qs"
      by (auto simp: bindE_Inr_iff)
    have "ledger_backed (live h1) (if p = 0 then held else (p, unat sz) # held)"
    proof (cases "p = 0")
      case True
      then have "h1 = h" using alloc_null [OF ok] a(1) by blast
      then show ?thesis using True b by simp
    next
      case False
      obtain n where "live h1 = insert (p, n) (live h)" "unat sz \<le> n" using alloc_live [OF ok a(1) False] by blast
      then show ?thesis using b live_not_fresh [OF ok a(1) False] False unfolding ledger_backed_def by fastforce
    qed
    from Cons.IH [OF alloc_ok [OF ok a(1)] a(2) this] show ?thesis by (simp add: Malloc a(3))
  next
    case (Free q)
    with Cons.prems(2) obtain h1 where f: "release h q = Inr h1" "serve alloc release rs h1 = Inr (ps, h')"
      by (auto simp: bindE_Inr_iff)
    have "ledger_backed (live h1) (filter (\<lambda>(p, n). p \<noteq> q) held)"
    proof (cases "q = 0")
      case True
      then show ?thesis using release_null [OF ok] f(1) b ledger_backed_filter by blast
    next
      case False
      obtain k where k: "(q, k) \<in> live h" using release_only_live [OF ok f(1) False] by blast
      then have "live h1 = live h - {(q, k)}" using release_live [OF ok k] f(1) by auto
      then show ?thesis using ledger_backed_filter [OF b, of "\<lambda>(p, n). p \<noteq> q"] unfolding ledger_backed_def by fastforce
    qed
    from Cons.IH [OF release_ok [OF ok f(1)] f(2) this] show ?thesis by (simp add: Free)
  qed
qed simp

lemma ledger_backed_apart:
  assumes "ok h" "ledger_backed (live h) held"
  shows "pairwise (\<lambda>(p, n) (q, k). region p n \<inter> region q k = {}) (set held)"
proof -
  have "region p n \<inter> region q k = {}" if b: "(p, n) \<in> set held" "(q, k) \<in> set held" "(p, n) \<noteq> (q, k)" for p n q k
  proof -
    have "p \<noteq> q" using assms(2) b by (auto simp: ledger_backed_def dest: eq_key_imp_eq_value)
    moreover obtain n' k' where l: "(p, n') \<in> live h" "n \<le> n'" "(q, k') \<in> live h" "k \<le> k'"
      using assms(2) b unfolding ledger_backed_def by blast
    ultimately have "region p n' \<inter> region q k' = {}" using live_disjoint [OF assms(1) l(1,3)] by blast
    then show ?thesis using region_mono [OF l(2), of p] region_mono [OF l(4), of q] by blast
  qed
  then show ?thesis unfolding pairwise_def case_prod_beta by (metis prod.collapse)
qed

end

section \<open>heap.c keeps the contract\<close>

lemma heap_live_take:
  assumes "heap_wf h" "0 < n" "free_run (ht_entries (h_table h)) j n"
  shows "heap_live (take_blocks h j n) = insert (heap_block_to_address h (int j), 4096 * n) (heap_live h)"
  by (simp add: heap_live_def take_blocks_wf [OF assms])

lemma heap_live_release:
  assumes "heap_wf h" "(j, k) \<in> live_blocks (ht_entries (h_table h))"
  shows "heap_live (release_blocks h j k) = heap_live h - {(heap_block_to_address h (int j), 4096 * k)}"
proof -
  let ?f = "\<lambda>(j, k). (heap_block_to_address h (int j), 4096 * k)"
  have "inj_on ?f (live_blocks (ht_entries (h_table h)))"
  proof (rule inj_onI, clarify)
    fix a b c d
    assume ab: "(a, b) \<in> live_blocks (ht_entries (h_table h))"
      "(c, d) \<in> live_blocks (ht_entries (h_table h))"
      and e: "heap_block_to_address h (int a) = heap_block_to_address h (int c)" "4096 * b = 4096 * d"
    have "a = c"
      by (rule block_address_inj [OF assms(1) _ _ e(1)])
        (use live_blocks_bounds [OF assms(1)] ab in \<open>fastforce+\<close>)
    with e(2) show "a = c \<and> b = d" by simp
  qed
  then have "?f ` (live_blocks (ht_entries (h_table h)) - {(j, k)}) =
      ?f ` live_blocks (ht_entries (h_table h)) - ?f ` {(j, k)}"
    using assms(2) by (intro inj_on_image_set_diff) auto
  then show ?thesis by (simp add: heap_live_def mark_blocks_free_live [OF assms])
qed

lemma heap_live_cases:
  assumes "heap_wf h" "(p, n) \<in> heap_live h"
  obtains j k where "(j, k) \<in> live_blocks (ht_entries (h_table h))" "j + k \<le> length (ht_entries (h_table h))"
    "0 < k" "p = heap_block_to_address h (int j)" "n = 4096 * k"
  using assms live_blocks_bounds [OF assms(1)] by (auto simp: heap_live_def)

lemma heap_free_live:
  assumes "heap_wf h" "(j, k) \<in> live_blocks (ht_entries (h_table h))"
  shows "heap_free h (heap_block_to_address h (int j)) = Inr (release_blocks h j k)"
proof -
  have "j \<le> length (ht_entries (h_table h))" using live_blocks_bounds [OF assms] by simp
  note b = block_address_props [OF assms(1) this]
  show ?thesis
    by (simp add: heap_free_def b mark_blocks_free_live(1) [OF assms])
qed

lemma live_blocks_disjoint:
  assumes "heap_wf h" "(i, k) \<in> live_blocks (ht_entries (h_table h))"
    "(j, l) \<in> live_blocks (ht_entries (h_table h))" "(i, k) \<noteq> (j, l)"
  shows "i + k \<le> j \<or> j + l \<le> i"
proof -
  obtain s where "ht_entries (h_table h) = table_of s"
    using assms(1) by (auto simp: heap_wf_def heap_segs_def)
  then show ?thesis using assms(2-4) allocs_disjoint [of i k 0 s j l] by (auto simp: live_blocks_table)
qed

interpretation kheap: allocator heap_wf heap_live heap_malloc heap_free
proof (unfold_locales, goal_cases)
  case (1 h sz h')
  show ?case
    using 1(1,2)
  proof (cases rule: heap_malloc_inversion)
    case (taken j)
    then have "j \<le> length (ht_entries (h_table h))" by (simp add: first_fit_def free_run_def)
    with taken(3) block_address_props(1) [OF 1(1)] show ?thesis by metis
  qed
next
  case (2 h sz p h')
  show ?case
    using 2(1,2)
  proof (cases rule: heap_malloc_inversion)
    case null
    with 2(1) show ?thesis by simp
  next
    case (taken j)
    then show ?thesis
      using take_blocks_wf(1) [OF 2(1) blocks_for_props(2)] by (simp add: first_fit_def)
  qed
next
  case (3 h sz p h')
  show ?case
    using 3(1,2)
  proof (cases rule: heap_malloc_inversion)
    case null
    with 3(3) show ?thesis by simp
  next
    case (taken j)
    note n = blocks_for_props(2,3) [OF taken(1)]
    have run: "free_run (ht_entries (h_table h)) j (blocks_for sz)"
      using taken(2) by (simp add: first_fit_def)
    have "region p (4096 * blocks_for sz) \<inter> region q k = {}" if "(q, k) \<in> heap_live h" for q k
      using 3(1) that
    proof (rule heap_live_cases)
      fix i l
      assume il: "(i, l) \<in> live_blocks (ht_entries (h_table h))"
        "i + l \<le> length (ht_entries (h_table h))" "q = heap_block_to_address h (int i)" "k = 4096 * l"
      show ?thesis
        unfolding taken(3) il(3,4)
        by (rule block_regions_disjoint [OF 3(1) _ il(2) take_blocks_wf(3) [OF 3(1) n(1) run il(1)]])
          (use run in \<open>simp add: free_run_def\<close>)
    qed
    then show ?thesis
      using n heap_live_take [OF 3(1) n(1) run] taken
      by (intro exI [of _ "4096 * blocks_for sz"]) auto
  qed
next
  case (4 h p n)
  then obtain j k where jk: "(j, k) \<in> live_blocks (ht_entries (h_table h))"
    "p = heap_block_to_address h (int j)" "n = 4096 * k"
    by (elim heap_live_cases)
  then show ?case
    using heap_free_live [OF 4(1) jk(1)] mark_blocks_free_live(2) [OF 4(1) jk(1)]
      heap_live_release [OF 4(1) jk(1)] by auto
next
  case (5 h p h')
  show ?case by (rule heap_free_inversion [OF 5(1,2)])
next
  case (6 h h')
  obtain k where "(0, k) \<in> heap_live h" using heap_free_inversion [OF 6] by blast
  with 6(1) show ?case by (elim heap_live_cases) (use block_address_props(1) [OF 6(1)] in auto)
next
  case (7 h p n q k)
  obtain i a where ia: "(i, a) \<in> live_blocks (ht_entries (h_table h))"
    "i + a \<le> length (ht_entries (h_table h))" "p = heap_block_to_address h (int i)" "n = 4096 * a"
    using 7(1,2) by (elim heap_live_cases)
  obtain j b where jb: "(j, b) \<in> live_blocks (ht_entries (h_table h))"
    "j + b \<le> length (ht_entries (h_table h))" "q = heap_block_to_address h (int j)" "k = 4096 * b"
    using 7(1,3) by (elim heap_live_cases)
  have "i + a \<le> j \<or> j + b \<le> i"
    using live_blocks_disjoint [OF 7(1) ia(1) jb(1)] 7(4) ia jb by auto
  then show ?case
    unfolding ia(3,4) jb(3,4) by (intro block_regions_disjoint [OF 7(1) ia(2) jb(2)]) auto
next
  case (8 h p n)
  then show ?case
    by (elim heap_live_cases) (use block_address_props(1) [OF 8(1)] in auto)
qed

text \<open>The memory a heap hands out, which no request changes.\<close>

definition heap_arena :: "heap \<Rightarrow> addr set" where
  "heap_arena h = region (h_saddr h) (4096 * length (ht_entries (h_table h)))"

lemma heap_malloc_arena:
  assumes "heap_wf h" "heap_malloc h sz = Inr (p, h')"
  shows "heap_arena h' = heap_arena h"
  using assms
proof (cases rule: heap_malloc_inversion)
  case (taken j)
  have "j + blocks_for sz \<le> length (ht_entries (h_table h))" "0 < blocks_for sz"
    using taken(2) blocks_for_props(2) [OF taken(1)] by (simp_all add: first_fit_def free_run_def)
  then show ?thesis by (simp add: taken(4) heap_arena_def take_blocks_def)
qed simp

lemma heap_live_arena:
  assumes "heap_wf h" "(p, n) \<in> heap_live h"
  shows "region p n \<subseteq> heap_arena h"
proof
  fix a assume a: "a \<in> region p n"
  let ?len = "length (ht_entries (h_table h))"
  obtain j k where jk: "j + k \<le> ?len" "p = heap_block_to_address h (int j)" "n = 4096 * k"
    by (rule heap_live_cases [OF assms]) blast
  have "unat (h_saddr h) + 4096 * j \<le> unat a" "unat a < unat (h_saddr h) + 4096 * (j + k)"
    using block_region [OF assms(1) jk(1)] a by (simp_all add: jk)
  moreover have "4096 * (j + k) \<le> 4096 * ?len" using jk(1) by simp
  ultimately have b: "unat (h_saddr h) \<le> unat a" "unat a - unat (h_saddr h) < 4096 * ?len"
    by linarith+
  have "a = h_saddr h + of_nat (unat a - unat (h_saddr h))"
    using b(1) by (simp add: of_nat_diff)
  with b(2) show "a \<in> heap_arena h" unfolding heap_arena_def mem_region by blast
qed

lemma heap_free_arena:
  assumes "heap_wf h" "heap_free h p = Inr h'"
  shows "heap_arena h' = heap_arena h"
proof -
  obtain n where "(p, n) \<in> heap_live h" using heap_free_inversion [OF assms] by blast
  then obtain j k where jk: "(j, k) \<in> live_blocks (ht_entries (h_table h))" "j + k \<le> length (ht_entries (h_table h))"
    "p = heap_block_to_address h (int j)"
    by (rule heap_live_cases [OF assms(1)])
  then have "h' = release_blocks h j k" using assms(2) heap_free_live [OF assms(1) jk(1)] by simp
  then show ?thesis using jk(2) by (simp add: heap_arena_def release_blocks_def)
qed

lemma serve_arena: "heap_wf h \<Longrightarrow> serve heap_malloc heap_free rs h = Inr (ps, h') \<Longrightarrow> heap_arena h' = heap_arena h"
proof (induction rs arbitrary: h ps)
  case (Cons r rs)
  show ?case
  proof (cases r)
    case (Malloc sz)
    with Cons.prems(2) obtain p h1 qs where a: "heap_malloc h sz = Inr (p, h1)" "serve heap_malloc heap_free rs h1 = Inr (qs, h')"
      by (auto simp: bindE_Inr_iff)
    show ?thesis using Cons.IH [OF kheap.alloc_ok [OF Cons.prems(1) a(1)] a(2)] heap_malloc_arena [OF Cons.prems(1) a(1)] by simp
  next
    case (Free q)
    with Cons.prems(2) obtain h1 where f: "heap_free h q = Inr h1" "serve heap_malloc heap_free rs h1 = Inr (ps, h')"
      by (auto simp: bindE_Inr_iff)
    show ?thesis using Cons.IH [OF kheap.release_ok [OF Cons.prems(1) f(1)] f(2)] heap_free_arena [OF Cons.prems(1) f(1)] by simp
  qed
qed simp

lemma heap_live_block:
  assumes "heap_wf h" "(p, n) \<in> heap_live h"
  shows "p \<noteq> 0 \<and> paging_is_address_aligned p \<and> region p n \<subseteq> heap_arena h"
proof -
  obtain j k where "j + k \<le> length (ht_entries (h_table h))" "p = heap_block_to_address h (int j)"
    by (rule heap_live_cases [OF assms])
  then have "paging_is_address_aligned p" using block_address_props(2) [OF assms(1), of j] by simp
  then show ?thesis using kheap.live_pos [OF assms] heap_live_arena [OF assms] by simp
qed

section \<open>Requests of one block\<close>

definition free_count :: "heap \<Rightarrow> nat" where
  "free_count h = length (filter (\<lambda>e. heap_table_entry_type e = 0) (ht_entries (h_table h)))"

lemma one_block_request:
  assumes "heap_wf h" "0 < free_count h" "0 < unat sz" "unat sz \<le> 4096"
  shows "\<exists>p h'. heap_malloc h sz = Inr (p, h') \<and> p \<noteq> 0 \<and> unat p mod 4096 = 0 \<and>
    free_count h' = free_count h - 1"
proof -
  let ?es = "ht_entries (h_table h)" and ?P = "\<lambda>e. heap_table_entry_type e = 0"
  have f: "fits sz" using assms(3,4) by (simp add: fits_def)
  have n: "blocks_for sz = 1"
    unfolding blocks_for_def by (rule div_nat_eqI) (use assms(3,4) in simp_all)
  obtain i where "i < length ?es" "?P (?es ! i)"
    using assms(2) by (auto simp: free_count_def filter_empty_conv in_set_conv_nth)
  then have "free_run ?es i 1" by (simp add: free_run_def)
  then obtain j where j: "first_fit ?es 1 j" using first_fit_ex by blast
  have m: "heap_malloc h sz = Inr (heap_block_to_address h (int j), take_blocks h j 1)"
    using heap_malloc_blocks_found [OF assms(1) zero_less_one j] by (simp add: heap_malloc_eq [OF f] n)
  have jl: "j < length ?es" "?P (?es ! j)" using j by (simp_all add: first_fit_def free_run_def)
  have es: "?es = take j ?es @ ?es ! j # drop (Suc j) ?es" by (rule id_take_nth_drop [OF jl(1)])
  have "length (filter ?P ?es) = length (filter ?P (take j ?es)) + Suc (length (filter ?P (drop (Suc j) ?es)))"
    by (subst es) (simp add: jl(2))
  moreover have "free_count (take_blocks h j 1) =
      length (filter ?P (take j ?es)) + length (filter ?P (drop (Suc j) ?es))"
    by (simp add: free_count_def take_blocks_def heap_table_entry_type_def)
  ultimately have "free_count (take_blocks h j 1) = free_count h - 1" by (simp add: free_count_def)
  then show ?thesis
    using m block_address_props(1,2) [OF assms(1) less_imp_le [OF jl(1)]] by (simp add: aligned_iff_nat)
qed

section \<open>Properties of the block heap\<close>

text \<open>A small heap for concrete runs: three free blocks from 16 MB on.\<close>

definition demo_heap :: heap where
  "demo_heap = \<lparr>h_table = \<lparr>ht_entries = [0, 0, 0], ht_total = 3\<rparr>, h_saddr = 0x1000000\<rparr>"

lemma demo_heap_wf: "heap_wf demo_heap"
  by (auto simp: demo_heap_def heap_wf_def heap_segs_def paging_is_address_aligned_def
      intro!: exI [of _ "[FreeBlock, FreeBlock, FreeBlock]"])

lemma heap_create_result:
  assumes "heap_create h0 ptr end table = (0, h)"
    and "ptr \<noteq> 0" "unat (ht_total table) < 2 ^ 19" "ptr \<le> end"
  shows "heap_wf h \<and> heap_live h = {} \<and> h_saddr h = ptr"
proof -
  let ?n = "unat (ht_total table)"
  have h: "h = \<lparr>h_table = table\<lparr>ht_entries := replicate ?n 0\<rparr>, h_saddr = ptr\<rparr>"
    and al: "paging_is_address_aligned ptr"
    and t: "ht_total table = (end - ptr) div 4096"
    using assms(1) by (auto simp: heap_create_def heap_table_validate_def Let_def ISERR_def split: if_splits)
  have "4096 * ?n \<le> unat (end - ptr)" unfolding t unat_div_4096 by simp
  then have "4096 * ?n \<le> unat end - unat ptr" using assms(4) by (simp add: unat_sub)
  moreover have "unat ptr \<le> unat end" using assms(4) by (simp add: word_le_nat_alt)
  ultimately have le: "unat ptr + 4096 * ?n < 4294967296"
    using unat_u32_less [of "end"] by linarith
  have "heap_segs h (replicate ?n FreeBlock)" by (simp add: h heap_segs_def)
  then have "heap_wf h" using assms(2,3) al le by (auto simp: heap_wf_def h)
  moreover have "heap_live h = {}" by (auto simp: heap_live_def live_blocks_def h)
  ultimately show ?thesis by (simp add: h)
qed

text \<open>A heap created over an aligned window whose table size matches the window is
  well-formed and has no live allocation.\<close>

theorem heap_create_wf:
  assumes "heap_create h0 ptr end table = (0, h)"
    and "ptr \<noteq> 0" "unat (ht_total table) < 2 ^ 19" "ptr \<le> end"
  shows "heap_wf h \<and> heap_live h = {} \<and> h_saddr h = ptr"
  by (rule heap_create_result [OF assms])

lemma heap_create_wf_witness:
  "heap_wf (snd (heap_create demo_heap 0x1000000 0x1003000 \<lparr>ht_entries = [7, 7, 7], ht_total = 3\<rparr>))"
  using heap_create_wf [of demo_heap "0x1000000" "0x1003000" "\<lparr>ht_entries = [7, 7, 7], ht_total = 3\<rparr>"]
  by (simp add: heap_create_def heap_table_validate_def paging_is_address_aligned_def ISERR_def)

text \<open>C24: every outcome of \<open>heap_malloc\<close> on a request that fits: the blocks of the first run of
  free blocks that is long enough are taken and its address is returned; with no such run the
  answer is null and nothing changes when the last block is taken, but the search of
  \<open>heap_get_start_block\<close> returns a trailing run that is too short and the bounds assertion
  stops the machine when the table ends in free blocks.\<close>

theorem heap_malloc_outcomes:
  assumes "heap_wf h" "fits sz"
  shows "(\<forall>j. first_fit (ht_entries (h_table h)) (blocks_for sz) j \<longrightarrow>
      heap_malloc h sz = Inr (heap_block_to_address h (int j), take_blocks h j (blocks_for sz))) \<and>
    (\<forall>c. (\<forall>i. \<not> free_run (ht_entries (h_table h)) i (blocks_for sz)) \<longrightarrow>
      free_tail (ht_entries (h_table h)) c \<longrightarrow>
      heap_malloc h sz =
        (if c = 0 then Inr (0, h) else Inl (AssertFailed ''heap_ensure_block_bounds'')))"
  using heap_malloc_blocks_found [OF assms(1) blocks_for_props(2) [OF assms(2)]]
    heap_malloc_blocks_none [OF assms(1) blocks_for_props(2) [OF assms(2)]]
  by (simp add: heap_malloc_eq [OF assms(2)])

lemma heap_malloc_outcomes_witness:
  "heap_malloc demo_heap 16384 = Inl (AssertFailed ''heap_ensure_block_bounds'') \<and>
   heap_malloc demo_heap 5000 = Inr (0x1000000, take_blocks demo_heap 0 2)"
proof -
  have f: "fits 16384" "fits 5000" by (simp_all add: fits_def)
  have n: "blocks_for 16384 = 4" "blocks_for 5000 = 2" by (simp_all add: blocks_for_def)
  have t: "free_tail (ht_entries (h_table demo_heap)) 3"
    by (auto simp: demo_heap_def free_tail_def free_run_def heap_table_entry_type_def nth_Cons'
        less_Suc_eq numeral_eq_Suc)
  have r: "first_fit (ht_entries (h_table demo_heap)) 2 0"
    by (auto simp: demo_heap_def first_fit_def free_run_def less_Suc_eq numeral_eq_Suc)
  have "\<forall>i. \<not> free_run (ht_entries (h_table demo_heap)) i 4"
    by (simp add: demo_heap_def free_run_def)
  with heap_malloc_outcomes [OF demo_heap_wf f(1)] t n
    heap_malloc_outcomes [OF demo_heap_wf f(2)] r
  show ?thesis by (simp add: heap_block_to_address_def) (simp add: demo_heap_def)
qed

text \<open>An allocation that succeeds is page aligned, at least as long as asked for, apart from
  every live allocation, and becomes one more live allocation of a heap that stays well-formed.\<close>

theorem heap_malloc_fresh:
  assumes "heap_wf h" "heap_malloc h sz = Inr (p, h')" "p \<noteq> 0"
  shows "heap_wf h' \<and> paging_is_address_aligned p \<and>
    (\<exists>n. unat sz \<le> n \<and> 0 < n \<and> heap_live h' = insert (p, n) (heap_live h) \<and>
         (\<forall>(q, k) \<in> heap_live h. region p n \<inter> region q k = {}))"
proof -
  from assms(1,2) have "paging_is_address_aligned p"
  proof (cases rule: heap_malloc_inversion)
    case (taken j)
    then show ?thesis using block_address_props(2) [OF assms(1)] by (simp add: first_fit_def free_run_def)
  qed (use assms(3) in simp)
  with kheap.alloc_ok [OF assms(1,2)] kheap.alloc_live [OF assms] show ?thesis by blast
qed

lemma heap_malloc_fresh_witness:
  "\<exists>n. 5000 \<le> n \<and> (0x1000000, n) \<in> heap_live (snd (projr (heap_malloc demo_heap 5000)))"
proof -
  have r: "heap_malloc demo_heap 5000 = Inr (0x1000000, snd (projr (heap_malloc demo_heap 5000)))"
    by code_simp
  from heap_malloc_fresh [OF demo_heap_wf r] show ?thesis by auto
qed

text \<open>C29: freeing what was just allocated gives back the very same heap.\<close>

theorem heap_malloc_free:
  assumes "heap_wf h" "heap_malloc h sz = Inr (p, h')" "p \<noteq> 0"
  shows "heap_free h' p = Inr h"
  using assms(1,2)
proof (cases rule: heap_malloc_inversion)
  case (taken j)
  define n where "n = blocks_for sz"
  have n: "0 < n" unfolding n_def by (rule blocks_for_props(2) [OF taken(1)])
  have run: "free_run (ht_entries (h_table h)) j n" using taken(2) by (simp add: first_fit_def n_def)
  have h': "h' = take_blocks h j n" using taken(4) by (simp add: n_def)
  note w = take_blocks_wf [OF assms(1) n run]
  have "heap_free h' p = Inr (release_blocks h' j n)"
    using heap_free_live [OF w(1), of j n] w(2) unfolding h' taken(3) by simp
  moreover obtain t u where "ht_entries (h_table h) = table_of (t @ replicate n FreeBlock @ u)"
    "length (table_of t) = j"
    "ht_entries (h_table (take_blocks h j n)) = table_of (t @ Taken (n - 1) # u)"
    by (rule take_blocks_segs [OF assms(1) n run])
  then have "release_blocks h' j n = h"
    using n by (simp add: h' release_blocks_def) (simp add: take_blocks_def)
  ultimately show ?thesis by simp
qed (use assms(3) in simp)

lemma heap_malloc_free_witness:
  "heap_free (snd (projr (heap_malloc demo_heap 5000))) 0x1000000 = Inr demo_heap"
proof -
  have r: "heap_malloc demo_heap 5000 = Inr (0x1000000, snd (projr (heap_malloc demo_heap 5000)))"
    by code_simp
  from heap_malloc_free [OF demo_heap_wf r] show ?thesis by simp
qed

text \<open>A double free is caught: once freed, the same address fails the assertion that its block
  starts an allocation.\<close>

theorem heap_free_twice:
  assumes "heap_wf h" "heap_free h p = Inr h'"
  shows "heap_free h' p = Inl (AssertFailed ''heap_mark_blocks_free'')"
proof -
  obtain n where "(p, n) \<in> heap_live h" using heap_free_inversion [OF assms] by blast
  with assms(1) obtain j k where jk: "(j, k) \<in> live_blocks (ht_entries (h_table h))"
    "j + k \<le> length (ht_entries (h_table h))" "0 < k" "p = heap_block_to_address h (int j)"
    by (rule heap_live_cases)
  have h': "h' = release_blocks h j k"
    using heap_free_live [OF assms(1) jk(1)] assms(2) jk(4) by simp
  note wf = mark_blocks_free_live(2) [OF assms(1) jk(1)]
  have len: "length (ht_entries (h_table h')) = length (ht_entries (h_table h))"
    using jk(2) by (simp add: h' release_blocks_def)
  have j: "j \<le> length (ht_entries (h_table h'))" "j < length (ht_entries (h_table h'))"
    using jk(2,3) len by simp_all
  note b = block_address_props [OF wf [folded h'] j(1)]
  have p: "p = heap_block_to_address h' (int j)" using jk(4) by (simp add: h')
  have "ht_entries (h_table h') ! j = 0"
    using jk(2,3) by (simp add: h' release_blocks_def nth_append)
  then have z: "ht_entries (h_table h') ! j AND 0x40 = 0" by simp
  have lt: "(length (ht_entries (h_table h')) \<le> j) = False" using j(2) by simp
  have f: "heap_mark_blocks_free h' (int j) = Inl (AssertFailed ''heap_mark_blocks_free'')"
    unfolding heap_mark_blocks_free_def Let_def heap_wf_simps(2,3,4) [OF wf [folded h']]
    using j(2) by (simp only: z lt bindE.simps ASSERT_True ASSERT_False if_False nat_int
        of_nat_less_iff simp_thms of_nat_less_0_iff)
  show ?thesis unfolding heap_free_def p by (simp only: b f simp_thms ASSERT_True bindE.simps)
qed

lemma heap_free_twice_witness:
  "heap_free (projr (heap_free (snd (projr (heap_malloc demo_heap 5000))) 0x1000000)) 0x1000000
   = Inl (AssertFailed ''heap_mark_blocks_free'')"
proof -
  have r: "heap_malloc demo_heap 5000 = Inr (0x1000000, snd (projr (heap_malloc demo_heap 5000)))"
    by code_simp
  have f: "heap_free (snd (projr (heap_malloc demo_heap 5000))) 0x1000000
      = Inr (projr (heap_free (snd (projr (heap_malloc demo_heap 5000))) 0x1000000))"
    by code_simp
  from heap_free_twice [OF kheap.alloc_ok [OF demo_heap_wf r] f] show ?thesis .
qed

text \<open>C1: A client that starts with some of the live allocations (or none), and asks for memory and gives it
  back in any order, is never answered with memory it already has: by its own account of the addresses it
  was answered, the sizes it asked for there and the addresses it gave back, at every point of a run that
  has been served so far, no address is held twice, the memory it asked for at one address is apart from that
  at every other, and each address is not null, page aligned and followed by the memory asked for inside
  the heap's area.  The heap stays well-formed.\<close>

theorem heap_requests_disjoint:
  assumes "heap_wf h" "set held \<subseteq> heap_live h" "distinct (map fst held)"
    and "serve heap_malloc heap_free rs h = Inr (ps, h')"
  shows "heap_wf h' \<and> distinct (map fst (ledger rs ps held)) \<and>
    pairwise (\<lambda>(p, n) (q, k). region p n \<inter> region q k = {}) (set (ledger rs ps held)) \<and>
    (\<forall>(p, n) \<in> set (ledger rs ps held). p \<noteq> 0 \<and> paging_is_address_aligned p \<and> region p n \<subseteq> heap_arena h)"
proof -
  have "ledger_backed (heap_live h) held" using assms(2,3) by (auto simp: ledger_backed_def)
  then have b: "ledger_backed (heap_live h') (ledger rs ps held)" by (rule kheap.ledger_held [OF assms(1,4)])
  have ok: "heap_wf h'" by (rule kheap.serve_ok [OF assms(1,4)])
  have "p \<noteq> 0 \<and> paging_is_address_aligned p \<and> region p n \<subseteq> heap_arena h" if m: "(p, n) \<in> set (ledger rs ps held)" for p n
  proof -
    obtain k where "n \<le> k" "(p, k) \<in> heap_live h'" using b m unfolding ledger_backed_def by blast
    then show ?thesis using heap_live_block [OF ok] region_mono [of n k p] serve_arena [OF assms(1,4)] by blast
  qed
  then show ?thesis using ok b kheap.ledger_backed_apart [OF ok b] by (auto simp: ledger_backed_def)
qed

text \<open>Four requests and the address given back between: the second request keeps its page while the fourth
  takes the two that were given back.\<close>

lemma heap_requests_disjoint_witness:
  "\<exists>ps h'. serve heap_malloc heap_free [Malloc 5000, Malloc 1, Free 0x1000000, Malloc 8192] demo_heap = Inr (ps, h') \<and>
     ps = [0x1000000, 0x1002000, 0x1000000] \<and> region 0x1000000 8192 \<inter> region 0x1002000 1 = {}"
proof -
  let ?rs = "[Malloc 5000, Malloc 1, Free 0x1000000, Malloc 8192]"
  have r: "serve heap_malloc heap_free ?rs demo_heap
    = Inr ([0x1000000, 0x1002000, 0x1000000], snd (projr (serve heap_malloc heap_free ?rs demo_heap)))"
    by code_simp
  have "ledger ?rs [0x1000000, 0x1002000, 0x1000000] [] = [(0x1000000, 8192), (0x1002000, 1)]" by simp
  then have "region 0x1000000 8192 \<inter> region 0x1002000 1 = {}"
    using heap_requests_disjoint [OF demo_heap_wf _ _ r, of "[]"] by (simp add: pairwise_def)
  with r show ?thesis by blast
qed

end
