(* ===== verification/KHeap.thy ===== *)
theory KHeap
  imports Heap_Alloc
begin

text \<open>
  The kernel heap, \<open>src/memory/kheap.c\<close>: one block heap of 200 MB from 16 MB on, which every
  other component allocates from.  \<open>kmem\<close> is the part of the machine's state that all of them
  share, the heap structure and the bytes of memory; later components extend the record, and
  \<open>kmalloc\<close>, \<open>kzalloc\<close> and \<open>kfree\<close> work on every extension of it.
\<close>

section \<open>State and operations\<close>

record kmem =
  km_heap :: heap
  km_ram :: ram

abbreviation (input) COS32_KERNEL_HEAP_ADDRESS :: addr where "COS32_KERNEL_HEAP_ADDRESS \<equiv> 0x01000000"
abbreviation (input) COS32_200MB :: u32 where "COS32_200MB \<equiv> 209715200"

text \<open>What the two globals hold before: \<open>heap\<close> and the bytes at the table's address.\<close>

definition kheap_init :: "'a kmem_scheme \<Rightarrow> HEAP_BLOCK_TABLE_ENTRY list \<Rightarrow> 'a kmem_scheme outcome" where
  "kheap_init s bytes_at_table =
     (let total_table_entries = COS32_200MB div COS32_PAGE_SIZE;
          table = \<lparr>ht_entries = bytes_at_table, ht_total = total_table_entries\<rparr>;
          end = COS32_KERNEL_HEAP_ADDRESS + COS32_200MB;
          (res, h) = heap_create (km_heap s) COS32_KERNEL_HEAP_ADDRESS end table
      in if ISERR res then panic ''Problem creating the kernel heap of 200Mb''
         else Inr (s\<lparr>km_heap := h\<rparr>))"

definition kmalloc :: "'a kmem_scheme \<Rightarrow> int \<Rightarrow> (addr \<times> 'a kmem_scheme) outcome" where
  "kmalloc s sz = bindE (heap_malloc (km_heap s) (word_of_int sz)) (\<lambda>(ptr, h).
     Inr (ptr, s\<lparr>km_heap := h\<rparr>))"

definition kzalloc :: "'a kmem_scheme \<Rightarrow> int \<Rightarrow> (addr \<times> 'a kmem_scheme) outcome" where
  "kzalloc s sz = bindE (kmalloc s sz) (\<lambda>(ptr, s).
     Inr (ptr, s\<lparr>km_ram := memset (km_ram s) ptr 0 sz\<rparr>))"

definition kfree :: "'a kmem_scheme \<Rightarrow> addr \<Rightarrow> 'a kmem_scheme outcome" where
  "kfree s ptr =
     (if ptr = 0 then Inr s
      else bindE (heap_free (km_heap s) ptr) (\<lambda>h. Inr (s\<lparr>km_heap := h\<rparr>)))"

section \<open>The kernel heap keeps the allocator's contract\<close>

definition kmem_ok :: "'a kmem_scheme \<Rightarrow> bool" where
  "kmem_ok s \<longleftrightarrow> heap_wf (km_heap s)"

definition kmem_live :: "'a kmem_scheme \<Rightarrow> (addr \<times> nat) set" where
  "kmem_live s = heap_live (km_heap s)"

lemma kmalloc_Inr_iff:
  "kmalloc s sz = Inr (p, s') \<longleftrightarrow>
   (\<exists>h. heap_malloc (km_heap s) (word_of_int sz) = Inr (p, h) \<and> s' = s\<lparr>km_heap := h\<rparr>)"
  by (auto simp: kmalloc_def bindE_Inr_iff)

lemma kfree_Inr_iff:
  "kfree s p = Inr s' \<longleftrightarrow> (p = 0 \<and> s' = s) \<or>
   (p \<noteq> 0 \<and> (\<exists>h. heap_free (km_heap s) p = Inr h \<and> s' = s\<lparr>km_heap := h\<rparr>))"
  by (auto simp: kfree_def bindE_Inr_iff)

interpretation kernel_memory: allocator kmem_ok kmem_live "\<lambda>s sz. kmalloc s (sint sz)" kfree
proof (unfold_locales, goal_cases)
  case (1 h sz h')
  then show ?case using kheap.alloc_null by (fastforce simp: kmalloc_Inr_iff kmem_ok_def)
next
  case (2 h sz p h')
  then show ?case using kheap.alloc_ok by (fastforce simp: kmalloc_Inr_iff kmem_ok_def)
next
  case (3 h sz p h')
  then obtain x where x: "heap_malloc (km_heap h) sz = Inr (p, x)" "h' = h\<lparr>km_heap := x\<rparr>"
    by (auto simp: kmalloc_Inr_iff)
  with kheap.alloc_live [of "km_heap h" sz p x] 3 show ?case
    by (simp add: kmem_ok_def kmem_live_def)
next
  case (4 h p n)
  then have l: "(p, n) \<in> heap_live (km_heap h)" and wf: "heap_wf (km_heap h)"
    by (simp_all add: kmem_live_def kmem_ok_def)
  from kheap.release_live [OF wf l] obtain x where "heap_free (km_heap h) p = Inr x"
    "heap_wf x" "heap_live x = heap_live (km_heap h) - {(p, n)}" by blast
  with kheap.live_pos [OF wf l] show ?case
    by (intro exI [of _ "h\<lparr>km_heap := x\<rparr>"]) (simp add: kfree_def kmem_live_def kmem_ok_def)
next
  case (5 h p h')
  then obtain x where "heap_free (km_heap h) p = Inr x" by (auto simp: kfree_Inr_iff)
  with kheap.release_only_live [of "km_heap h" p x] 5 show ?case
    by (simp add: kmem_ok_def kmem_live_def)
next
  case (6 h h')
  then show ?case by (simp add: kfree_def)
next
  case (7 h p n q k)
  then show ?case using kheap.live_disjoint by (simp add: kmem_ok_def kmem_live_def)
next
  case (8 h p n)
  then show ?case using kheap.live_pos by (simp add: kmem_ok_def kmem_live_def)
qed

lemma kmalloc_ram:
  assumes "kmalloc s sz = Inr (p, s')"
  shows "km_ram s' = km_ram s" "kmem.more s' = kmem.more s"
  using assms by (auto simp: kmalloc_Inr_iff)

lemma kfree_ram:
  assumes "kfree s p = Inr s'"
  shows "km_ram s' = km_ram s" "kmem.more s' = kmem.more s"
  using assms by (auto simp: kfree_Inr_iff)

lemma kzalloc_Inr_iff:
  "kzalloc s sz = Inr (p, s') \<longleftrightarrow>
   (\<exists>t. kmalloc s sz = Inr (p, t) \<and> s' = t\<lparr>km_ram := memset (km_ram t) p 0 sz\<rparr>)"
  by (auto simp: kzalloc_def bindE_Inr_iff)

lemma kmem_ram_update [simp]:
  "kmem_ok (s\<lparr>km_ram := f\<rparr>) = kmem_ok s" "kmem_live (s\<lparr>km_ram := f\<rparr>) = kmem_live s"
  by (simp_all add: kmem_ok_def kmem_live_def)

lemma kmem_ok_kmalloc: "kmem_ok s \<Longrightarrow> kmalloc s sz = Inr (p, s') \<Longrightarrow> kmem_ok s'"
  using kheap.alloc_ok by (fastforce simp: kmalloc_Inr_iff kmem_ok_def)

lemma kmem_ok_kfree: "kmem_ok s \<Longrightarrow> kfree s p = Inr s' \<Longrightarrow> kmem_ok s'"
  by (rule kernel_memory.release_ok)

lemma kmem_ok_kzalloc: "kmem_ok s \<Longrightarrow> kzalloc s sz = Inr (p, s') \<Longrightarrow> kmem_ok s'"
  by (auto simp: kzalloc_Inr_iff intro: kmem_ok_kmalloc)

lemma kzalloc_other:
  assumes "kzalloc s sz = Inr (p, s')"
  shows "kmem.more s' = kmem.more s"
  using assms by (auto simp: kzalloc_Inr_iff dest: kmalloc_ram)

section \<open>Properties\<close>

lemma kheap_init_result:
  "\<exists>s'. kheap_init s bs = Inr s' \<and> kmem_ok s' \<and> kmem_live s' = {} \<and>
     length (ht_entries (h_table (km_heap s'))) = 51200 \<and> free_count (km_heap s') = 51200"
proof -
  let ?t = "\<lparr>ht_entries = bs, ht_total = 51200\<rparr>"
  have c: "heap_create (km_heap s) 0x01000000 (0x01000000 + 209715200) ?t
      = (0, \<lparr>h_table = ?t\<lparr>ht_entries := replicate 51200 0\<rparr>, h_saddr = 0x01000000\<rparr>)"
    by (simp add: heap_create_def heap_table_validate_def paging_is_address_aligned_def ISERR_def)
  have "(209715200 :: u32) div 4096 = 51200" by simp
  then have r: "kheap_init s bs = Inr (s\<lparr>km_heap :=
      \<lparr>h_table = ?t\<lparr>ht_entries := replicate 51200 0\<rparr>, h_saddr = 0x01000000\<rparr>\<rparr>)"
    unfolding kheap_init_def Let_def by (simp only: c prod.case) (simp add: ISERR_def)
  show ?thesis
    unfolding r kmem_ok_def kmem_live_def
    using heap_create_result [OF c] by (simp add: free_count_def)
qed

text \<open>\<open>kheap_init\<close> never panics, and leaves an empty heap of 51200 blocks.\<close>

theorem kheap_init_ok:
  "\<exists>s'. kheap_init s bs = Inr s' \<and> kmem_ok s' \<and> kmem_live s' = {} \<and>
     length (ht_entries (h_table (km_heap s'))) = 51200"
  using kheap_init_result [of s bs] by blast

text \<open>\<open>kzalloc\<close> returns memory of the size asked for that reads as zero, and leaves the bytes of
  every other live allocation as they were.\<close>

theorem kzalloc_zeroes:
  assumes "kmem_ok s" "kzalloc s sz = Inr (p, s')" "p \<noteq> 0" "0 \<le> sz" "sz < 2 ^ 31"
  shows "kmem_ok s' \<and> read_bytes (km_ram s') p (nat sz) = replicate (nat sz) 0 \<and>
    (\<exists>n. nat sz \<le> n \<and> kmem_live s' = insert (p, n) (kmem_live s)) \<and>
    (\<forall>(q, k) \<in> kmem_live s. read_bytes (km_ram s') q k = read_bytes (km_ram s) q k)"
proof -
  obtain t where t: "kmalloc s sz = Inr (p, t)" "s' = t\<lparr>km_ram := memset (km_ram t) p 0 sz\<rparr>"
    using assms(2) by (auto simp: kzalloc_Inr_iff)
  define w :: u32 where "w = word_of_int sz"
  have w: "sint w = sz" "unat w = nat sz"
    using assms(4,5) by (simp_all add: w_def sint_word_of_int_u32 unat_eq_nat_uint uint_word_of_int_u32)
  have a: "kmalloc s (sint w) = Inr (p, t)" using t(1) w by simp
  have ram: "km_ram t = km_ram s" by (rule kmalloc_ram [OF t(1)])
  have "read_bytes (km_ram s') p (nat sz) = replicate (nat sz) 0"
    by (rule nth_equalityI) (auto simp: t memset_in [OF region_memI])
  moreover have "read_bytes (km_ram s') q k = read_bytes (km_ram s) q k"
    if "(q, k) \<in> kmem_live s" for q k
    by (rule kernel_memory.fill_fresh_frame [OF assms(1) a assms(3) that])
      (simp add: t ram memset_out w)
  moreover have "\<exists>n. nat sz \<le> n \<and> kmem_live s' = insert (p, n) (kmem_live s)"
    using kernel_memory.alloc_live [OF assms(1) a assms(3)] w by (auto simp: t)
  ultimately show ?thesis using kernel_memory.alloc_ok [OF assms(1) a] by (auto simp: t)
qed

definition demo_kmem :: kmem where
  "demo_kmem = \<lparr>km_heap = demo_heap, km_ram = (\<lambda>a. 7)\<rparr>"

lemma demo_kmem_ok: "kmem_ok demo_kmem"
  by (simp add: demo_kmem_def kmem_ok_def demo_heap_wf)

lemma kzalloc_zeroes_witness:
  "read_bytes (km_ram (snd (projr (kzalloc demo_kmem 6)))) 0x1000000 6 = replicate 6 0"
proof -
  have r: "kzalloc demo_kmem 6 = Inr (0x1000000, snd (projr (kzalloc demo_kmem 6)))"
  proof -
    have "heap_malloc demo_heap 6 = Inr (0x1000000, take_blocks demo_heap 0 1)"
      by code_simp
    then show ?thesis by (simp add: kzalloc_def kmalloc_def demo_kmem_def)
  qed
  from kzalloc_zeroes [OF demo_kmem_ok r] show ?thesis by simp
qed

end
