(* ===== verification/Paging.thy ===== *)
theory Paging
  imports KHeap
begin

text \<open>
  \<open>src/memory/paging/paging.c\<close>: page directories and page tables as the processor reads them,
  32-bit little-endian entries in memory; the 4 GB chunks with their queues of page faults; and the
  registered fault handlers.  The lemmas give the two-level lookup as a partial map from pages to
  entries: \<open>paging_set\<close> updates it at one page, \<open>paging_map_range\<close> on a run of pages, and
  \<open>paging_new_4gb\<close> builds the identity map.
\<close>

section \<open>State\<close>

abbreviation (input) PAGING_CACHE_DISABLED :: u32 where "PAGING_CACHE_DISABLED \<equiv> 0x10"
abbreviation (input) PAGING_WRITE_THROUGH :: u32 where "PAGING_WRITE_THROUGH \<equiv> 0x08"
abbreviation (input) PAGING_ACCESS_FROM_ALL :: u32 where "PAGING_ACCESS_FROM_ALL \<equiv> 0x04"
abbreviation (input) PAGING_PAGE_WRITEABLE :: u32 where "PAGING_PAGE_WRITEABLE \<equiv> 0x02"
abbreviation (input) PAGING_PAGE_PRESENT :: u32 where "PAGING_PAGE_PRESENT \<equiv> 0x01"

record paging_fault =
  pf_address :: addr
  pf_chunk :: addr
  pf_next :: addr

record paging_4gb_chunk =
  directory_entry :: addr
  faults :: addr
  last_fault :: addr

record pmem = kmem +
  current_directory :: addr
  current_chunk :: addr
  fault_handlers :: "addr list"
  chunks :: "addr \<Rightarrow> paging_4gb_chunk option"
  pfaults :: "addr \<Rightarrow> paging_fault option"

section \<open>Page tables\<close>

definition paging_get :: "ram \<Rightarrow> addr \<Rightarrow> addr \<Rightarrow> u32 outcome" where
  "paging_get m directory virt =
     bindE (ASSERT ''paging_get'' (virt mod COS32_PAGE_SIZE = 0)) (\<lambda>_.
     case paging_get_indexes virt of
       (res, Some (directory_index, table_index)) \<Rightarrow>
         bindE (ASSERT ''paging_get'' (res \<ge> 0)) (\<lambda>_.
         let entry = load32 m (directory + 4 * directory_index);
             table = entry AND 0xfffff000
         in Inr (load32 m (table + 4 * table_index)))
     | (res, None) \<Rightarrow> Inl (AssertFailed ''paging_get''))"

text \<open>The status and the memory.\<close>

definition paging_set :: "ram \<Rightarrow> addr \<Rightarrow> addr \<Rightarrow> u32 \<Rightarrow> int \<times> ram" where
  "paging_set m directory virt val =
     (if virt mod COS32_PAGE_SIZE \<noteq> 0 then (- EINVARG, m)
      else case paging_get_indexes virt of
        (res, None) \<Rightarrow> (res, m)
      | (res, Some (directory_index, table_index)) \<Rightarrow>
          if res < 0 then (res, m)
          else let entry = load32 m (directory + 4 * directory_index);
                   table = entry AND 0xfffff000
               in (0, store32 m (table + 4 * table_index) val))"

definition paging_get_physical_address :: "ram \<Rightarrow> addr \<Rightarrow> addr \<Rightarrow> addr outcome" where
  "paging_get_physical_address m directory virt =
     (let virt_addr_new = paging_align_to_lower_page virt;
          difference = virt - virt_addr_new
      in bindE (paging_get m directory virt_addr_new) (\<lambda>entry.
         Inr ((entry AND 0xfffff000) + difference)))"

definition paging_get_flags :: "ram \<Rightarrow> addr \<Rightarrow> addr \<Rightarrow> u32 outcome" where
  "paging_get_flags m directory virt =
     bindE (paging_get m directory virt) (\<lambda>entry. Inr (entry AND 0xfff))"

definition paging_map :: "ram \<Rightarrow> addr \<Rightarrow> addr \<Rightarrow> addr \<Rightarrow> u32 \<Rightarrow> int \<times> ram" where
  "paging_map m directory virt phys flags =
     (if virt mod COS32_PAGE_SIZE \<noteq> 0 \<or> phys mod COS32_PAGE_SIZE \<noteq> 0 then (- EINVARG, m)
      else paging_set m directory virt (phys OR flags))"

text \<open>The loop of \<open>paging_map_range\<close>: \<open>res\<close> and the pages left.\<close>

fun map_range_loop :: "ram \<Rightarrow> addr \<Rightarrow> addr \<Rightarrow> addr \<Rightarrow> u32 \<Rightarrow> int \<Rightarrow> nat \<Rightarrow> int \<times> ram" where
  "map_range_loop m directory virt phys flags res 0 = (res, m)"
| "map_range_loop m directory virt phys flags res (Suc count) =
     (let (res, m) = paging_map m directory virt phys flags in
      if res < 0 then (res, m)
      else map_range_loop m directory (virt + COS32_PAGE_SIZE) (phys + COS32_PAGE_SIZE) flags res count)"

definition paging_map_range :: "ram \<Rightarrow> addr \<Rightarrow> addr \<Rightarrow> addr \<Rightarrow> int \<Rightarrow> u32 \<Rightarrow> int \<times> ram" where
  "paging_map_range m directory virt phys count flags =
     map_range_loop m directory virt phys flags 0 (nat count)"

definition paging_map_to ::
  "ram \<Rightarrow> addr \<Rightarrow> addr \<Rightarrow> addr \<Rightarrow> addr \<Rightarrow> u32 \<Rightarrow> (int \<times> ram) outcome" where
  "paging_map_to m directory virt phys phys_end flags =
     bindE (ASSERT ''paging_map_to'' (virt mod COS32_PAGE_SIZE = 0)) (\<lambda>_.
     bindE (ASSERT ''paging_map_to'' (phys mod COS32_PAGE_SIZE = 0)) (\<lambda>_.
     bindE (ASSERT ''paging_map_to'' (phys_end mod COS32_PAGE_SIZE = 0)) (\<lambda>_.
     bindE (ASSERT ''paging_map_to'' (phys_end > phys)) (\<lambda>_.
     let total_bytes = phys_end - phys;
         total_pages = uint (total_bytes div COS32_PAGE_SIZE)
     in Inr (paging_map_range m directory virt phys total_pages flags)))))"

section \<open>4 GB chunks\<close>

text \<open>
  The inner loop of \<open>paging_new_4gb\<close> fills one table; \<open>offset\<close> is an \<open>int\<close> that passes
  \<open>2 ^ 31\<close> half way, which the machine's 32-bit addition wraps as written here.
\<close>

definition fill_table :: "ram \<Rightarrow> addr \<Rightarrow> u32 \<Rightarrow> byte \<Rightarrow> ram" where
  "fill_table m entry offset flags =
     fold (\<lambda>b m. store32 m (entry + 4 * of_nat b) ((offset + of_nat b * COS32_PAGE_SIZE) OR ucast flags))
       [0..<1024] m"

text \<open>The outer loop from table \<open>i\<close> on, with \<open>k\<close> tables left.\<close>

fun new_4gb_loop :: "'a pmem_scheme \<Rightarrow> addr \<Rightarrow> byte \<Rightarrow> u32 \<Rightarrow> nat \<Rightarrow> nat \<Rightarrow> 'a pmem_scheme outcome" where
  "new_4gb_loop s directory flags offset i 0 = Inr s"
| "new_4gb_loop s directory flags offset i (Suc k) =
     bindE (kzalloc s (4 * 1024)) (\<lambda>(entry, s).
     let m = fill_table (km_ram s) entry offset flags;
         m = store32 m (directory + 4 * of_nat i)
               (entry OR ucast flags OR PAGING_PAGE_WRITEABLE OR PAGING_ACCESS_FROM_ALL
                OR PAGING_CACHE_DISABLED OR PAGING_PAGE_PRESENT)
     in new_4gb_loop (s\<lparr>km_ram := m\<rparr>) directory flags (offset + 1024 * COS32_PAGE_SIZE) (Suc i) k)"

definition paging_new_4gb :: "'a pmem_scheme \<Rightarrow> byte \<Rightarrow> (addr \<times> 'a pmem_scheme) outcome" where
  "paging_new_4gb s flags =
     bindE (kzalloc s (4 * 1024)) (\<lambda>(directory, s).
     bindE (new_4gb_loop s directory flags 0 0 1024) (\<lambda>s.
     bindE (kzalloc s 12) (\<lambda>(chunk_4gb, s).
     Inr (chunk_4gb, s\<lparr>chunks := (chunks s)(chunk_4gb \<mapsto>
       \<lparr>directory_entry = directory, faults = 0, last_fault = 0\<rparr>)\<rparr>))))"

definition paging_unmap_all :: "'a pmem_scheme \<Rightarrow> addr \<Rightarrow> 'a pmem_scheme outcome" where
  "paging_unmap_all s chunk =
     bindE (deref (chunks s) chunk) (\<lambda>c.
     Inr (s\<lparr>km_ram := fold (\<lambda>i m.
            let entry = load32 m (directory_entry c + 4 * of_nat i);
                table = entry AND 0xfffff000
            in fold (\<lambda>b m. store32 m (table + 4 * of_nat b) 0) [0..<1024] m)
          [0..<1024] (km_ram s)\<rparr>))"

definition paging_switch :: "'a pmem_scheme \<Rightarrow> addr \<Rightarrow> 'a pmem_scheme outcome" where
  "paging_switch s chunk =
     bindE (deref (chunks s) chunk) (\<lambda>c.
     Inr (s\<lparr>current_directory := directory_entry c, current_chunk := chunk\<rparr>))"

fun free_tables_loop :: "'a pmem_scheme \<Rightarrow> addr \<Rightarrow> nat \<Rightarrow> nat \<Rightarrow> 'a pmem_scheme outcome" where
  "free_tables_loop s directory i 0 = Inr s"
| "free_tables_loop s directory i (Suc k) =
     (let entry = load32 (km_ram s) (directory + 4 * of_nat i);
          table = entry AND 0xfffff000
      in bindE (kfree s table) (\<lambda>s. free_tables_loop s directory (Suc i) k))"

definition paging_free_4gb :: "'a pmem_scheme \<Rightarrow> addr \<Rightarrow> 'a pmem_scheme outcome" where
  "paging_free_4gb s chunk =
     bindE (deref (chunks s) chunk) (\<lambda>c.
     bindE (free_tables_loop s (directory_entry c) 0 1024) (\<lambda>s.
     kfree s (directory_entry c)))"

section \<open>Page faults\<close>

definition paging_new_fault :: "'a pmem_scheme \<Rightarrow> addr \<Rightarrow> (addr \<times> 'a pmem_scheme) outcome" where
  "paging_new_fault s chunk =
     bindE (kzalloc s 12) (\<lambda>(ptr, s).
     if ptr = 0 then Inr (0, s)
     else Inr (ptr, s\<lparr>pfaults := (pfaults s)(ptr \<mapsto>
            \<lparr>pf_address = 0, pf_chunk = chunk, pf_next = 0\<rparr>)\<rparr>))"

definition paging_free_fault :: "'a pmem_scheme \<Rightarrow> addr \<Rightarrow> 'a pmem_scheme outcome" where
  "paging_free_fault s fault = kfree s fault"

definition paging_register_fault ::
  "'a pmem_scheme \<Rightarrow> addr \<Rightarrow> addr \<Rightarrow> (addr \<times> 'a pmem_scheme) outcome" where
  "paging_register_fault s chunk address =
     bindE (paging_new_fault s chunk) (\<lambda>(fault, s).
     if fault = 0 then Inr (0, s)
     else
       bindE (deref (pfaults s) fault) (\<lambda>f.
       bindE (deref (chunks s) chunk) (\<lambda>c.
       let s = s\<lparr>pfaults := (pfaults s)(fault \<mapsto> f\<lparr>pf_address := address\<rparr>)\<rparr> in
       if faults c = 0
       then Inr (fault, s\<lparr>chunks := (chunks s)(chunk \<mapsto> c\<lparr>faults := fault, last_fault := fault\<rparr>)\<rparr>)
       else
         bindE (deref (pfaults s) (last_fault c)) (\<lambda>l.
         Inr (fault, s\<lparr>pfaults := (pfaults s)(last_fault c \<mapsto> l\<lparr>pf_next := fault\<rparr>),
                       chunks := (chunks s)(chunk \<mapsto> c\<lparr>last_fault := fault\<rparr>)\<rparr>)))))"

text \<open>
  A handler is an address; \<open>live\<close> and \<open>past\<close> stand for the functions its two pointers lead to.
\<close>

fun live_fault_loop :: "(addr \<Rightarrow> addr \<Rightarrow> 's \<Rightarrow> bool \<times> 's) \<Rightarrow> addr list \<Rightarrow> addr \<Rightarrow> 's \<Rightarrow> bool \<times> 's" where
  "live_fault_loop live [] fault s = (False, s)"
| "live_fault_loop live (h # hs) fault s =
     (if h \<noteq> 0
      then let (handled, s) = live h fault s in
        if handled then (True, s) else live_fault_loop live hs fault s
      else live_fault_loop live hs fault s)"

definition paging_process_live_fault ::
  "(addr \<Rightarrow> addr \<Rightarrow> 'a pmem_scheme \<Rightarrow> bool \<times> 'a pmem_scheme) \<Rightarrow> 'a pmem_scheme \<Rightarrow> addr \<Rightarrow> bool \<times> 'a pmem_scheme"
where
  "paging_process_live_fault live s fault = live_fault_loop live (fault_handlers s) fault s"

definition paging_process_past_fault ::
  "(addr \<Rightarrow> addr \<Rightarrow> 'a pmem_scheme \<Rightarrow> 'a pmem_scheme) \<Rightarrow> 'a pmem_scheme \<Rightarrow> addr \<Rightarrow> 'a pmem_scheme" where
  "paging_process_past_fault past s fault =
     fold (\<lambda>h s. if h \<noteq> 0 then past h fault s else s) (fault_handlers s) s"

text \<open>The walk along \<open>next\<close>; \<open>None\<close> is a queue that never ends.\<close>

partial_function (option) fault_queue_loop ::
  "(addr \<Rightarrow> addr \<Rightarrow> 'a pmem_scheme \<Rightarrow> 'a pmem_scheme) \<Rightarrow> 'a pmem_scheme \<Rightarrow> addr \<Rightarrow> 'a pmem_scheme outcome option"
where
  "fault_queue_loop past s fault =
     (if fault = 0 then Some (Inr s)
      else let s' = paging_process_past_fault past s fault in
        case deref (pfaults s') fault of
          Inl e \<Rightarrow> Some (Inl e)
        | Inr f \<Rightarrow> fault_queue_loop past s' (pf_next f))"

definition paging_process_fault_queue ::
  "(addr \<Rightarrow> addr \<Rightarrow> 'a pmem_scheme \<Rightarrow> 'a pmem_scheme) \<Rightarrow> 'a pmem_scheme \<Rightarrow> addr \<Rightarrow> 'a pmem_scheme outcome option"
where
  "paging_process_fault_queue past s chunk =
     (case deref (chunks s) chunk of Inl e \<Rightarrow> Some (Inl e)
      | Inr c \<Rightarrow> fault_queue_loop past s (faults c))"

definition paging_process ::
  "(addr \<Rightarrow> addr \<Rightarrow> 'a pmem_scheme \<Rightarrow> 'a pmem_scheme) \<Rightarrow> 'a pmem_scheme \<Rightarrow> addr \<Rightarrow> 'a pmem_scheme outcome option"
where
  "paging_process past s chunk = paging_process_fault_queue past s chunk"

text \<open>\<open>next\<close> is read from the fault just freed; its contents are still there.\<close>

partial_function (option) fault_clear_loop ::
  "'a pmem_scheme \<Rightarrow> addr \<Rightarrow> 'a pmem_scheme outcome option" where
  "fault_clear_loop s fault =
     (if fault = 0 then Some (Inr s)
      else case paging_free_fault s fault of Inl e \<Rightarrow> Some (Inl e) | Inr s' \<Rightarrow>
        (case deref (pfaults s') fault of
           Inl e \<Rightarrow> Some (Inl e)
         | Inr f \<Rightarrow> fault_clear_loop s' (pf_next f)))"

definition paging_fault_queue_clear :: "'a pmem_scheme \<Rightarrow> addr \<Rightarrow> 'a pmem_scheme outcome option" where
  "paging_fault_queue_clear s chunk =
     (case deref (chunks s) chunk of Inl e \<Rightarrow> Some (Inl e) | Inr c \<Rightarrow> fault_clear_loop s (faults c))"

text \<open>\<open>fault_handlers\<close> has \<open>COS32_MAX_PAGING_FAULT_HANDLERS\<close> = 16 slots.\<close>

fun free_handler_slot :: "addr list \<Rightarrow> int \<Rightarrow> int" where
  "free_handler_slot [] i = - EIO"
| "free_handler_slot (h # hs) i = (if h = 0 then i else free_handler_slot hs (i + 1))"

definition paging_find_free_handler_slot_index :: "'a pmem_scheme \<Rightarrow> int" where
  "paging_find_free_handler_slot_index s = free_handler_slot (fault_handlers s) 0"

definition paging_register_fault_handler :: "'a pmem_scheme \<Rightarrow> addr \<Rightarrow> 'a pmem_scheme outcome" where
  "paging_register_fault_handler s handler =
     (let free_index = paging_find_free_handler_slot_index s in
      if free_index < 0
      then panic ''No free page handler slots available! Recompile the kernel with a higher limit''
      else Inr (s\<lparr>fault_handlers := (fault_handlers s)[nat free_index := handler]\<rparr>))"

section \<open>Words of a page\<close>

lemma unat_page_off:
  assumes "unat (t :: u32) mod 4096 = 0" "x < 4096"
  shows "unat (t + of_nat x) = unat t + x"
proof -
  have "unat t \<le> 0xFFFFF000"
  proof (rule ccontr)
    assume "\<not> unat t \<le> 0xFFFFF000"
    then show False using last_page_misaligned [of "unat t"] assms(1) unat_u32_less [of t] by simp
  qed
  moreover have u: "unat (of_nat x :: u32) = x" using assms(2) by (intro unat_of_nat_small) simp
  ultimately have "unat t + unat (of_nat x :: u32) < 2 ^ LENGTH(32)" using assms(2) by simp
  then show ?thesis using u by (metis unat_add_lem)
qed

lemma page_off_inj:
  assumes "unat (t :: u32) mod 4096 = 0" "unat (t' :: u32) mod 4096 = 0" "x < 4096" "x' < 4096"
    "t + of_nat x = t' + of_nat x'"
  shows "t = t' \<and> x = x'"
proof -
  have e: "unat t + x = unat t' + x'"
    using assms(5) unat_page_off [OF assms(1,3)] unat_page_off [OF assms(2,4)] by metis
  have "(unat t + x) mod 4096 = x" "(unat t' + x') mod 4096 = x'"
    using assms by (metis add.right_neutral mod_add_left_eq mod_less add_0)+
  then have "x = x'" using e by simp
  with e show ?thesis by (simp add: word_unat_eq_iff)
qed

lemma table_slots_disjoint:
  assumes "unat t mod 4096 = 0" "unat t' mod 4096 = 0" "i < 1024" "i' < 1024" "t \<noteq> t' \<or> i \<noteq> i'"
  shows "region (t + 4 * of_nat i) 4 \<inter> region (t' + 4 * of_nat i') 4 = {}"
proof (rule ccontr)
  assume "\<not> ?thesis"
  then obtain k k' where k: "k < 4" "k' < 4" "t + 4 * of_nat i + of_nat k = t' + 4 * of_nat i' + of_nat k'"
    by (fastforce simp: region_def)
  then have "t + of_nat (4 * i + k) = t' + of_nat (4 * i' + k')" by (simp add: add.assoc)
  moreover have "4 * i + k < 4096" "4 * i' + k' < 4096" using k assms(3,4) by simp_all
  ultimately have "t = t' \<and> 4 * i + k = 4 * i' + k'"
    by (rule page_off_inj [OF assms(1,2), rotated 2])
  then have "i \<noteq> i'" "4 * i + k = 4 * i' + k'" using assms(5) by auto
  with k(1,2) show False by presburger
qed

lemma slot_in_page:
  assumes "i < 1024"
  shows "region (t + 4 * of_nat i) 4 \<subseteq> region t 4096"
proof
  fix a assume "a \<in> region (t + 4 * of_nat i) 4"
  then obtain k where "k < 4" "a = t + 4 * of_nat i + of_nat k" by (auto simp: mem_region)
  then have "a = t + of_nat (4 * i + k)" "4 * i + k < 4096" using assms by (simp_all add: add.assoc)
  then show "a \<in> region t 4096" by (auto simp: mem_region)
qed

section \<open>The two-level lookup\<close>

definition dir_index :: "addr \<Rightarrow> nat" where
  "dir_index virt = unat virt div 4194304"

definition tab_index :: "addr \<Rightarrow> nat" where
  "tab_index virt = unat virt mod 4194304 div 4096"

lemma index_bounds [simp]: "dir_index v < 1024" "tab_index v < 1024"
proof -
  show "dir_index v < 1024"
    unfolding dir_index_def by (rule less_mult_imp_div_less) (use unat_u32_less [of v] in simp)
  have "unat v mod 4194304 < 4194304" by (rule mod_less_divisor) simp
  then show "tab_index v < 1024"
    unfolding tab_index_def by (intro less_mult_imp_div_less) simp
qed

lemma page_indexes_inj:
  assumes "unat v mod 4096 = 0" "unat w mod 4096 = 0" "dir_index v = dir_index w" "tab_index v = tab_index w"
  shows "v = w"
proof -
  have split: "unat x = dir_index x * 4194304 + tab_index x * 4096" if "unat x mod 4096 = 0" for x :: u32
  proof -
    have "unat x mod 4194304 mod 4096 = 0"
      using that mod_mod_cancel [of 4096 4194304 "unat x"] by simp
    then have "tab_index x * 4096 = unat x mod 4194304"
      unfolding tab_index_def by (metis add.right_neutral div_mult_mod_eq)
    then show ?thesis unfolding dir_index_def by (metis div_mult_mod_eq)
  qed
  then have "unat v = unat w" using assms by metis
  then show ?thesis by (simp add: word_unat_eq_iff)
qed

lemma get_indexes_aligned:
  assumes "virt mod 4096 = 0"
  shows "paging_get_indexes virt = (0, Some (of_nat (dir_index virt), of_nat (tab_index virt)))"
proof -
  have "virt div 4194304 = of_nat (dir_index virt)"
    unfolding dir_index_def by (simp add: word_unat_eq_iff unat_div unat_of_nat_small less_imp_le
        div_le_dividend le_less_trans [OF div_le_dividend])
  moreover have "virt mod 4194304 div 4096 = of_nat (tab_index virt)"
  proof -
    have "tab_index virt < 2 ^ 32" by (rule less_trans [OF index_bounds(2)]) simp
    then have "unat (of_nat (tab_index virt) :: u32) = tab_index virt" by (rule unat_of_nat_small)
    then show ?thesis unfolding tab_index_def by (simp add: word_unat_eq_iff unat_div unat_mod)
  qed
  ultimately show ?thesis using assms by (simp add: paging_get_indexes_def)
qed

definition table_at :: "ram \<Rightarrow> addr \<Rightarrow> nat \<Rightarrow> addr" where
  "table_at m directory i = load32 m (directory + 4 * of_nat i) AND 0xfffff000"

definition slot_of :: "ram \<Rightarrow> addr \<Rightarrow> addr \<Rightarrow> addr" where
  "slot_of m directory virt = table_at m directory (dir_index virt) + 4 * of_nat (tab_index virt)"

text \<open>The directory and its 1024 tables are different pages.\<close>

definition pagedir_ok :: "ram \<Rightarrow> addr \<Rightarrow> bool" where
  "pagedir_ok m directory \<longleftrightarrow> unat directory mod 4096 = 0 \<and>
     (\<forall>i<1024. table_at m directory i \<noteq> directory) \<and> inj_on (table_at m directory) {..<1024}"

lemma masked_aligned [simp]: "unat (x AND 0xfffff000 :: u32) mod 4096 = 0"
proof -
  have "x AND 0xfffff000 = paging_align_to_lower_page x"
    by (simp add: high20_eq paging_align_to_lower_page_def)
  then show ?thesis using lower_page_aligned [of x] by (simp add: aligned_iff_nat)
qed

lemma table_at_aligned [simp]: "unat (table_at m d i) mod 4096 = 0"
  by (simp add: table_at_def)

lemma paging_get_eq: "virt mod 4096 = 0 \<Longrightarrow> paging_get m d virt = Inr (load32 m (slot_of m d virt))"
  unfolding paging_get_def slot_of_def table_at_def
  by (simp only: get_indexes_aligned simp_thms ASSERT_True bindE.simps prod.case option.case Let_def order_refl)

lemma paging_set_eq: "virt mod 4096 = 0 \<Longrightarrow> paging_set m d virt val = (0, store32 m (slot_of m d virt) val)"
  unfolding paging_set_def slot_of_def table_at_def
  by (simp only: get_indexes_aligned simp_thms if_False prod.case option.case Let_def less_irrefl)

lemma store_slot_table_at:
  assumes "pagedir_ok m d" "i < 1024"
  shows "table_at (store32 m (slot_of m d v) val) d i = table_at m d i"
proof -
  have "region (slot_of m d v) 4 \<inter> region (d + 4 * of_nat i) 4 = {}"
    unfolding slot_of_def
    using assms by (intro table_slots_disjoint) (auto simp: pagedir_ok_def)
  then show ?thesis unfolding table_at_def by (simp add: load32_store32_disjoint)
qed

lemma store_slot_ok:
  assumes "pagedir_ok m d"
  shows "pagedir_ok (store32 m (slot_of m d v) val) d"
proof -
  have "inj_on (table_at (store32 m (slot_of m d v) val) d) {..<1024} \<longleftrightarrow>
      inj_on (table_at m d) {..<1024}"
    using store_slot_table_at [OF assms] by (intro inj_on_cong) simp
  then show ?thesis using assms store_slot_table_at [OF assms] by (simp add: pagedir_ok_def)
qed

lemma store_slot_slot_of:
  "pagedir_ok m d \<Longrightarrow> slot_of (store32 m (slot_of m d v) val) d w = slot_of m d w"
  by (simp add: slot_of_def [of "store32 m (slot_of m d v) val"] store_slot_table_at)
    (simp add: slot_of_def)

lemma slots_disjoint:
  assumes "pagedir_ok m d" "v mod 4096 = 0" "w mod 4096 = 0" "v \<noteq> w"
  shows "region (slot_of m d v) 4 \<inter> region (slot_of m d w) 4 = {}"
proof -
  have "dir_index v \<noteq> dir_index w \<or> tab_index v \<noteq> tab_index w"
    using page_indexes_inj [of v w] assms(2-4) by (auto simp: aligned_nat)
  then have "table_at m d (dir_index v) \<noteq> table_at m d (dir_index w) \<or> tab_index v \<noteq> tab_index w"
    using assms(1) by (auto simp: pagedir_ok_def inj_on_def)
  then show ?thesis unfolding slot_of_def by (intro table_slots_disjoint) auto
qed

section \<open>A page map as its clients use it\<close>

lemma page_step:
  assumes "(v :: u32) mod 4096 = 0"
  shows "(v + 4096) mod 4096 = 0"
proof -
  have "unat (v + 4096) = (unat v + unat (4096 :: u32)) mod 2 ^ LENGTH(32)" by (rule unat_word_ariths)
  then have "unat (v + 4096) = (unat v + 4096) mod (4096 * 1048576)" by simp
  then have "unat (v + 4096) mod 4096 = (unat v + 4096) mod 4096"
    by (simp only: mod_mod_cancel [OF dvd_triv_left])
  then show ?thesis using assms by (simp add: aligned_nat)
qed

text \<open>Setting a run of pages, one after the other.\<close>

fun set_run :: "('m \<Rightarrow> addr \<Rightarrow> u32 \<Rightarrow> 'm) \<Rightarrow> 'm \<Rightarrow> addr \<Rightarrow> u32 list \<Rightarrow> 'm" where
  "set_run se m v [] = m"
| "set_run se m v (x # xs) = set_run se (se m v x) (v + 4096) xs"

text \<open>
  What code that reads and rewrites entries of a page directory relies on; \<open>get\<close> and \<open>set\<close> are
  the entry of a page and the memory after it is set.
\<close>

locale page_map =
  fixes ok :: "'m \<Rightarrow> bool"
    and get :: "'m \<Rightarrow> addr \<Rightarrow> u32"
    and set_entry :: "'m \<Rightarrow> addr \<Rightarrow> u32 \<Rightarrow> 'm"
  assumes set_ok: "ok m \<Longrightarrow> v mod 4096 = 0 \<Longrightarrow> ok (set_entry m v x)"
    and get_set_same: "ok m \<Longrightarrow> v mod 4096 = 0 \<Longrightarrow> get (set_entry m v x) v = x"
    and get_set_other: "ok m \<Longrightarrow> v mod 4096 = 0 \<Longrightarrow> w mod 4096 = 0 \<Longrightarrow> v \<noteq> w \<Longrightarrow>
      get (set_entry m v x) w = get m w"
begin

text \<open>Setting a page and putting its old entry back restores every entry.\<close>

lemma set_restore:
  assumes "ok m" "v mod 4096 = 0" "w mod 4096 = 0"
  shows "get (set_entry (set_entry m v x) v (get m v)) w = get m w"
  using assms set_ok get_set_same get_set_other by (cases "v = w") metis+

lemma set_run_result:
  assumes "ok m" "v mod 4096 = 0" "length xs \<le> 2 ^ 20"
  shows "ok (set_run set_entry m v xs) \<and>
    (\<forall>k<length xs. get (set_run set_entry m v xs) (v + of_nat (4096 * k)) = xs ! k) \<and>
    (\<forall>w. w mod 4096 = 0 \<longrightarrow> (\<forall>k<length xs. w \<noteq> v + of_nat (4096 * k)) \<longrightarrow>
       get (set_run set_entry m v xs) w = get m w)"
  using assms
proof (induction xs arbitrary: m v)
  case (Cons x xs)
  let ?m = "set_entry m v x"
  note IH = Cons.IH [OF set_ok [OF Cons.prems(1,2)] page_step [OF Cons.prems(2)], of x]
  have len: "length xs \<le> 2 ^ 20" using Cons.prems(3) by simp
  note IH = IH [OF len]
  have shift: "v + 4096 + of_nat (4096 * k) = v + of_nat (4096 * Suc k)" for k by simp
  have away: "v \<noteq> v + 4096 + of_nat (4096 * k)" if "k < length xs" for k
  proof -
    have "4096 * Suc k < 2 ^ 32" using that Cons.prems(3) by simp
    then have "unat (of_nat (4096 * Suc k) :: u32) = 4096 * Suc k" by (rule unat_of_nat_small)
    then have "(of_nat (4096 * Suc k) :: u32) \<noteq> 0" by (metis mult_is_0 nat.simps(3) unat_0 zero_neq_numeral)
    then show ?thesis unfolding shift by (metis add_cancel_left_right)
  qed
  have first: "get (set_run set_entry ?m (v + 4096) xs) v = x"
    using IH away Cons.prems(1,2) get_set_same by metis
  show ?case
  proof (intro conjI allI impI)
    show "ok (set_run set_entry m v (x # xs))" using IH by simp
  next
    fix k assume k: "k < length (x # xs)"
    show "get (set_run set_entry m v (x # xs)) (v + of_nat (4096 * k)) = (x # xs) ! k"
    proof (cases k)
      case 0
      then show ?thesis using first by simp
    next
      case (Suc j)
      then have "j < length xs" using k by simp
      with IH have "get (set_run set_entry ?m (v + 4096) xs) (v + 4096 + of_nat (4096 * j)) = xs ! j" by blast
      then show ?thesis unfolding shift Suc by simp
    qed
  next
    fix w assume w: "w mod 4096 = 0" "\<forall>k<length (x # xs). w \<noteq> v + of_nat (4096 * k)"
    have "w \<noteq> v" using w(2) by (auto dest: spec [of _ 0])
    moreover have "\<forall>k<length xs. w \<noteq> v + 4096 + of_nat (4096 * k)"
      unfolding shift using w(2) by auto
    ultimately show "get (set_run set_entry m v (x # xs)) w = get m w"
      using IH w(1) get_set_other [OF Cons.prems(1,2) w(1)] by auto
  qed
qed simp

end

definition entry_of :: "addr \<Rightarrow> ram \<Rightarrow> addr \<Rightarrow> u32" where
  "entry_of d m v = load32 m (slot_of m d v)"

interpretation pages: page_map "\<lambda>m. pagedir_ok m d" "entry_of d" "\<lambda>m v x. snd (paging_set m d v x)" for d
proof (unfold_locales, goal_cases)
  case (1 m v x)
  then show ?case by (simp add: paging_set_eq store_slot_ok)
next
  case (2 m v x)
  then show ?case by (simp add: paging_set_eq entry_of_def store_slot_slot_of)
next
  case (3 m v w x)
  have "load32 (store32 m (slot_of m d v) x) (slot_of m d w) = load32 m (slot_of m d w)"
    by (rule load32_store32_disjoint [OF slots_disjoint [OF 3]])
  then show ?case using 3 by (simp only: paging_set_eq entry_of_def store_slot_slot_of snd_conv)
qed

lemma paging_get_entry_of: "v mod 4096 = 0 \<Longrightarrow> paging_get m d v = Inr (entry_of d m v)"
  by (simp add: paging_get_eq entry_of_def)

lemma map_range_loop_run:
  assumes "virt mod 4096 = 0" "phys mod 4096 = 0"
  shows "map_range_loop m d virt phys flags res count =
    (if count = 0 then res else 0,
     set_run (\<lambda>m v x. snd (paging_set m d v x)) m virt (map (\<lambda>k. (phys + of_nat (4096 * k)) OR flags) [0..<count]))"
  using assms
proof (induction count arbitrary: m virt phys res)
  case (Suc count)
  have step: "paging_map m d virt phys flags = (0, snd (paging_set m d virt (phys OR flags)))"
    using Suc.prems by (simp add: paging_map_def paging_set_eq)
  have xs: "map (\<lambda>k. (phys + of_nat (4096 * k)) OR flags) [0..<Suc count] =
    (phys OR flags) # map (\<lambda>k. (phys + 4096 + of_nat (4096 * k)) OR flags) [0..<count]"
    by (subst upt_conv_Cons, simp, subst map_Suc_upt [symmetric]) (simp add: o_def add.assoc)
  show ?case
    using Suc.IH [OF page_step [OF Suc.prems(1)] page_step [OF Suc.prems(2)]]
    unfolding xs by (simp add: step)
qed simp

section \<open>The identity map of a new chunk\<close>

lemma pages_apart:
  assumes "unat t mod 4096 = 0" "unat t' mod 4096 = 0" "t \<noteq> t'"
  shows "region t 4096 \<inter> region t' 4096 = {}"
  using page_off_inj [OF assms(1,2)] assms(3) by (fastforce simp: region_def)

lemma table_entry_masked:
  assumes "unat t mod 4096 = 0" "f < 4096"
  shows "(t OR f) AND 0xfffff000 = (t :: u32)"
proof -
  have "f mod 4096 = f" using assms(2) by (simp add: word_unat_eq_iff unat_mod_4096 word_less_nat_alt)
  moreover have "t mod 4096 = 0" using assms(1) by (simp add: aligned_nat)
  ultimately have "t AND 0xfffff000 = t" "f AND 0xfffff000 = 0" by (simp_all only: high20_eq) simp_all
  moreover have "(t OR f) AND 0xfffff000 = (t AND 0xfffff000) OR (f AND 0xfffff000)"
    by (rule bit.conj_disj_distrib2)
  ultimately show ?thesis by (simp only: or.right_neutral)
qed

lemma fold_fill:
  assumes "unat t mod 4096 = 0" "n \<le> 1024"
  shows "(\<forall>b<n. load32 (fold (\<lambda>b m. store32 m (t + 4 * of_nat b) (f b)) [0..<n] m) (t + 4 * of_nat b) = f b) \<and>
    (\<forall>a. a \<notin> region t 4096 \<longrightarrow> fold (\<lambda>b m. store32 m (t + 4 * of_nat b) (f b)) [0..<n] m a = m a)"
  using assms(2)
proof (induction n)
  case (Suc n)
  let ?m = "fold (\<lambda>b m. store32 m (t + 4 * of_nat b) (f b)) [0..<n] m"
  have step: "fold (\<lambda>b m. store32 m (t + 4 * of_nat b) (f b)) [0..<Suc n] m
      = store32 ?m (t + 4 * of_nat n) (f n)" by simp
  have "load32 (store32 ?m (t + 4 * of_nat n) (f n)) (t + 4 * of_nat b) = load32 ?m (t + 4 * of_nat b)"
    if "b < n" for b
    by (rule load32_store32_disjoint [OF table_slots_disjoint [OF assms(1,1)]])
      (use that Suc.prems in simp_all)
  moreover have "store32 ?m (t + 4 * of_nat n) (f n) a = ?m a" if "a \<notin> region t 4096" for a
    using that slot_in_page [of n t] Suc.prems by (intro store32_out) auto
  ultimately show ?case using Suc unfolding step by (auto simp: less_Suc_eq)
qed simp

lemma fill_table_result:
  assumes "unat t mod 4096 = 0"
  shows "b < 1024 \<Longrightarrow> load32 (fill_table m t off fl) (t + 4 * of_nat b) = (off + of_nat b * 4096) OR ucast fl"
    and "a \<notin> region t 4096 \<Longrightarrow> fill_table m t off fl a = m a"
  using fold_fill [OF assms, of 1024 "\<lambda>b. (off + of_nat b * 4096) OR ucast fl" m]
  by (simp_all add: fill_table_def)

text \<open>One zeroed page from a heap that has a free block.\<close>

lemma kzalloc_page:
  assumes "kmem_ok s" "0 < free_count (km_heap s)" "0 < sz" "sz \<le> 4096"
  shows "\<exists>p s'. kzalloc s sz = Inr (p, s') \<and> p \<noteq> 0 \<and> unat p mod 4096 = 0 \<and> kmem_ok s' \<and>
    free_count (km_heap s') = free_count (km_heap s) - 1 \<and>
    (\<exists>n. kmem_live s' = insert (p, n) (kmem_live s)) \<and> (\<forall>n. (p, n) \<notin> kmem_live s) \<and>
    (\<forall>a. a \<notin> region p 4096 \<longrightarrow> km_ram s' a = km_ram s a) \<and> kmem.more s' = kmem.more s"
proof -
  define w :: u32 where "w = word_of_int sz"
  have w: "sint w = sz" "unat w = nat sz"
    using assms(3,4) by (simp_all add: w_def sint_word_of_int_u32 unat_eq_nat_uint uint_word_of_int_u32)
  obtain p h where ph: "heap_malloc (km_heap s) w = Inr (p, h)" "p \<noteq> 0" "unat p mod 4096 = 0"
    "free_count h = free_count (km_heap s) - 1"
  proof -
    have "0 < unat w" "unat w \<le> 4096" using w(2) assms(3,4) by simp_all
    then show ?thesis
      using one_block_request [of "km_heap s" w] assms(1,2) that by (auto simp: kmem_ok_def)
  qed
  let ?t = "s\<lparr>km_heap := h\<rparr>"
  have m: "kmalloc s (sint w) = Inr (p, ?t)" using ph(1) by (simp add: kmalloc_Inr_iff)
  then have z: "kzalloc s sz = Inr (p, ?t\<lparr>km_ram := memset (km_ram s) p 0 sz\<rparr>)"
    unfolding w by (auto simp: kzalloc_Inr_iff)
  have "memset (km_ram s) p 0 sz a = km_ram s a" if "a \<notin> region p 4096" for a
  proof (rule memset_out)
    have "nat sz \<le> 4096" using assms(4) by simp
    then show "a \<notin> region p (nat sz)" using that region_mono by blast
  qed
  moreover have "\<exists>n. kmem_live ?t = insert (p, n) (kmem_live s)"
    using kernel_memory.alloc_live [OF assms(1) m ph(2)] by blast
  moreover have "kmem_ok ?t" by (rule kernel_memory.alloc_ok [OF assms(1) m])
  ultimately show ?thesis
    using z ph kernel_memory.live_not_fresh [OF assms(1) m ph(2)]
    by (intro exI [of _ p] exI [of _ "?t\<lparr>km_ram := memset (km_ram s) p 0 sz\<rparr>"]) simp
qed

lemma kzalloc_pageE:
  assumes "kmem_ok s" "0 < free_count (km_heap s)" "0 < sz" "sz \<le> 4096"
  obtains p s' n where "kzalloc s sz = Inr (p, s')" "p \<noteq> 0" "unat p mod 4096 = 0" "kmem_ok s'"
    "free_count (km_heap s') = free_count (km_heap s) - 1"
    "kmem_live s' = insert (p, n) (kmem_live s)" "\<forall>n. (p, n) \<notin> kmem_live s"
    "\<forall>a. a \<notin> region p 4096 \<longrightarrow> km_ram s' a = km_ram s a" "kmem.more s' = kmem.more s"
  using kzalloc_page [OF assms] by (elim exE conjE) (rule that)

definition dir_flags :: "byte \<Rightarrow> u32" where
  "dir_flags flags = ucast flags OR PAGING_PAGE_WRITEABLE OR PAGING_ACCESS_FROM_ALL
     OR PAGING_CACHE_DISABLED OR PAGING_PAGE_PRESENT"

lemma dir_flags_less: "dir_flags flags < 4096"
proof -
  have "take_bit 12 (ucast flags :: u32) = ucast flags"
    by (rule bit_eqI) (auto simp: bit_simps dest: bit_imp_le_length)
  then have "take_bit 12 (dir_flags flags) = dir_flags flags"
    unfolding dir_flags_def take_bit_or by simp
  then have "unat (dir_flags flags) = take_bit 12 (unat (dir_flags flags))"
    by (metis unsigned_take_bit_eq)
  then have "unat (dir_flags flags) < 2 ^ 12" by (metis take_bit_nat_less_exp)
  then show ?thesis by (simp add: word_less_nat_alt)
qed

text \<open>The first \<open>i\<close> tables, at \<open>T 0, T 1, \<dots>\<close>, map their pages to themselves.\<close>

definition tables_built :: "'a kmem_scheme \<Rightarrow> addr \<Rightarrow> byte \<Rightarrow> (nat \<Rightarrow> addr) \<Rightarrow> nat \<Rightarrow> bool" where
  "tables_built s d flags T i \<longleftrightarrow> inj_on T {..<i} \<and> (\<exists>n. (d, n) \<in> kmem_live s) \<and>
     (\<forall>j<i. (\<exists>n. (T j, n) \<in> kmem_live s) \<and> unat (T j) mod 4096 = 0 \<and> T j \<noteq> d \<and>
        load32 (km_ram s) (d + 4 * of_nat j) = T j OR dir_flags flags \<and>
        (\<forall>b<1024. load32 (km_ram s) (T j + 4 * of_nat b) =
           (of_nat (4194304 * j) + of_nat b * 4096) OR ucast flags))"

lemma tables_builtD:
  assumes "tables_built s d flags T i" "j < i"
  shows "\<exists>n. (T j, n) \<in> kmem_live s" "unat (T j) mod 4096 = 0" "T j \<noteq> d"
    "load32 (km_ram s) (d + 4 * of_nat j) = T j OR dir_flags flags"
    "b < 1024 \<Longrightarrow> load32 (km_ram s) (T j + 4 * of_nat b) =
       (of_nat (4194304 * j) + of_nat b * 4096) OR ucast flags"
  using assms unfolding tables_built_def by blast+

lemma load32_slot_cong:
  assumes "b < 1024" "\<And>a. a \<in> region t 4096 \<Longrightarrow> m' a = m a"
  shows "load32 m' (t + 4 * of_nat b) = load32 m (t + 4 * of_nat b)"
proof (rule load32_cong)
  fix i :: nat assume "i < 4"
  then have "t + 4 * of_nat b + of_nat i \<in> region (t + 4 * of_nat b) 4" by blast
  then show "m' (t + 4 * of_nat b + of_nat i) = m (t + 4 * of_nat b + of_nat i)"
    using slot_in_page [OF assms(1), of t] assms(2) by blast
qed

text \<open>A page that is in no way involved is allocated or written.\<close>

lemma tables_built_frame:
  assumes "tables_built s d flags T i" "i \<le> 1024" "unat d mod 4096 = 0" "unat p mod 4096 = 0"
    "\<forall>n. (p, n) \<notin> kmem_live s" "kmem_live s \<subseteq> kmem_live s'"
    "\<And>a. a \<notin> region p 4096 \<Longrightarrow> km_ram s' a = km_ram s a"
  shows "tables_built s' d flags T i"
proof -
  have pg: "km_ram s' a = km_ram s a"
    if "a \<in> region t 4096" "(t, n) \<in> kmem_live s" "unat t mod 4096 = 0" for a t n
  proof -
    have "t \<noteq> p" using that(2) assms(5) by auto
    then show ?thesis using pages_apart [OF that(3) assms(4)] that(1) by (intro assms(7)) blast
  qed
  obtain nd where nd: "(d, nd) \<in> kmem_live s" using assms(1) by (auto simp: tables_built_def)
  have d: "load32 (km_ram s') (d + 4 * of_nat j) = load32 (km_ram s) (d + 4 * of_nat j)" if "j < i" for j
    using that assms(2) pg [OF _ nd assms(3)] by (intro load32_slot_cong) simp_all
  have "load32 (km_ram s') (T j + 4 * of_nat b) = load32 (km_ram s) (T j + 4 * of_nat b)"
    if "j < i" "b < 1024" for j b
  proof -
    from that have j: "j < i" by simp
    obtain n where "(T j, n) \<in> kmem_live s" using tables_builtD(1) [OF assms(1) j] by blast
    with pg tables_builtD(2) [OF assms(1) j] that(2) show ?thesis
      by (intro load32_slot_cong) blast+
  qed
  moreover have "\<exists>n. (T j, n) \<in> kmem_live s'" if "j < i" for j
    using tables_builtD(1) [OF assms(1) that] assms(6) by blast
  moreover have "inj_on T {..<i}" "\<exists>n. (d, n) \<in> kmem_live s'"
    using assms(1,6) nd by (auto simp: tables_built_def)
  ultimately show ?thesis
    using d tables_builtD [OF assms(1)] by (simp add: tables_built_def)
qed

lemma tables_built_step:
  assumes tb: "tables_built s d flags T i" and i: "i < 1024" and al: "unat d mod 4096 = 0" "unat p mod 4096 = 0"
    and p: "p \<noteq> d" "(p, n) \<in> kmem_live s" "\<And>j. j < i \<Longrightarrow> p \<noteq> T j"
  defines "m \<equiv> store32 (fill_table (km_ram s) p (of_nat (4194304 * i)) flags) (d + 4 * of_nat i) (p OR dir_flags flags)"
  shows "tables_built (s\<lparr>km_ram := m\<rparr>) d flags (T(i := p)) (Suc i)"
proof -
  let ?f = "fill_table (km_ram s) p (of_nat (4194304 * i)) flags"
  have outd: "m a = ?f a" if "a \<in> region t 4096" "t \<noteq> d" "unat t mod 4096 = 0" for a t
    unfolding m_def using that pages_apart [OF that(3) al(1) that(2)] slot_in_page [OF i, of d]
    by (intro store32_out) blast
  have outp: "?f a = km_ram s a" if "a \<in> region t 4096" "t \<noteq> p" "unat t mod 4096 = 0" for a t
    using that pages_apart [OF that(3) al(2) that(2)] by (intro fill_table_result(2) [OF al(2)]) blast
  have new: "load32 m (p + 4 * of_nat b) = (of_nat (4194304 * i) + of_nat b * 4096) OR ucast flags"
    if "b < 1024" for b
  proof -
    have "load32 m (p + 4 * of_nat b) = load32 ?f (p + 4 * of_nat b)"
      using that outd [OF _ p(1) al(2)] by (intro load32_slot_cong) simp_all
    then show ?thesis using fill_table_result(1) [OF al(2) that] by simp
  qed
  have dir: "load32 m (d + 4 * of_nat j) = load32 (km_ram s) (d + 4 * of_nat j)" if "j < i" for j
  proof -
    have "region (d + 4 * of_nat i) 4 \<inter> region (d + 4 * of_nat j) 4 = {}"
      by (rule table_slots_disjoint [OF al(1,1)]) (use that i in simp_all)
    then have "load32 m (d + 4 * of_nat j) = load32 ?f (d + 4 * of_nat j)"
      unfolding m_def by (rule load32_store32_disjoint)
    also have "\<dots> = load32 (km_ram s) (d + 4 * of_nat j)"
      using that i outp [OF _ _ al(1)] p(1) by (intro load32_slot_cong) auto
    finally show ?thesis .
  qed
  have old: "load32 m (T j + 4 * of_nat b) = load32 (km_ram s) (T j + 4 * of_nat b)"
    if "j < i" "b < 1024" for j b
  proof -
    have "T j \<noteq> d" "unat (T j) mod 4096 = 0" "T j \<noteq> p"
      using tb that(1) p(3) by (auto simp: tables_built_def)
    then show ?thesis
      using outd [of _ "T j"] outp [of _ "T j"] that(2) by (intro load32_slot_cong) auto
  qed
  have "load32 m (d + 4 * of_nat i) = p OR dir_flags flags" by (simp add: m_def)
  moreover have "inj_on (T(i := p)) {..<Suc i}"
  proof -
    have "inj_on T {..<i}" "p \<notin> T ` {..<i}" using tb p(3) by (auto simp: tables_built_def)
    then show ?thesis by (simp add: lessThan_Suc inj_on_fun_updI fun_upd_image image_iff)
  qed
  moreover have "\<exists>n. (d, n) \<in> kmem_live s" using tb by (simp add: tables_built_def)
  ultimately show ?thesis
    using p(1,2) al(2) new dir old tables_builtD [OF tb]
    unfolding tables_built_def less_Suc_eq kmem_ram_update kmem.simps by (auto simp: fun_upd_def)
qed

lemma new_4gb_loop_identity:
  assumes "kmem_ok s" "k < free_count (km_heap s)" "i + k = 1024" "unat d mod 4096 = 0"
    "off = of_nat (4194304 * i)" "tables_built s d flags T i"
  shows "\<exists>s' T'. new_4gb_loop s d flags off i k = Inr s' \<and> kmem_ok s' \<and>
    free_count (km_heap s') = free_count (km_heap s) - k \<and> tables_built s' d flags T' 1024 \<and>
    kmem_live s \<subseteq> kmem_live s'"
  using assms
proof (induction k arbitrary: s i off T)
  case (Suc k)
  have sz: "0 < (4 * 1024 :: int)" "4 * 1024 \<le> (4096 :: int)" "0 < free_count (km_heap s)"
    using Suc.prems(2) by simp_all
  obtain p s1 n where z: "kzalloc s (4 * 1024) = Inr (p, s1)" "p \<noteq> 0" "unat p mod 4096 = 0" "kmem_ok s1"
    "free_count (km_heap s1) = free_count (km_heap s) - 1"
    "kmem_live s1 = insert (p, n) (kmem_live s)" "\<forall>n. (p, n) \<notin> kmem_live s"
    "\<forall>a. a \<notin> region p 4096 \<longrightarrow> km_ram s1 a = km_ram s a"
    by (rule kzalloc_pageE [OF Suc.prems(1) sz(3,1,2)])
  have tb: "tables_built s1 d flags T i"
    using tables_built_frame [OF Suc.prems(6) _ Suc.prems(4) z(3,7), of s1] z(6,8) Suc.prems(3) by auto
  have "p \<noteq> d" "\<And>j. j < i \<Longrightarrow> p \<noteq> T j"
    using Suc.prems(6) tables_builtD(1) [OF Suc.prems(6)] z(7) by (auto simp: tables_built_def)
  moreover have "(p, n) \<in> kmem_live s1" using z(6) by simp
  moreover have i: "i < 1024" using Suc.prems(3) by simp
  ultimately have "tables_built (s1\<lparr>km_ram := store32 (fill_table (km_ram s1) p off flags) (d + 4 * of_nat i)
      (p OR dir_flags flags)\<rparr>) d flags (T(i := p)) (Suc i)" (is "tables_built ?s2 _ _ _ _")
    unfolding Suc.prems(5) by (intro tables_built_step [OF tb i Suc.prems(4) z(3)])
  moreover have "off + 4194304 = of_nat (4194304 * Suc i)" by (simp add: Suc.prems(5))
  ultimately have "\<exists>s' T'. new_4gb_loop ?s2 d flags (off + 4194304) (Suc i) k = Inr s' \<and> kmem_ok s' \<and>
    free_count (km_heap s') = free_count (km_heap ?s2) - k \<and> tables_built s' d flags T' 1024 \<and>
    kmem_live ?s2 \<subseteq> kmem_live s'"
    using Suc.prems(2,3,4) z(4,5) by (intro Suc.IH) simp_all
  moreover have "new_4gb_loop s d flags off i (Suc k) = new_4gb_loop ?s2 d flags (off + 4194304) (Suc i) k"
    using z(1) by (simp add: dir_flags_def or.assoc)
  ultimately show ?case using z(5,6) Suc.prems(2) by auto
qed auto

lemma aligned_split:
  assumes "unat v mod 4096 = 0"
  shows "of_nat (4194304 * dir_index v) + of_nat (tab_index v) * 4096 = v"
proof -
  have "unat v mod 4194304 mod 4096 = 0"
    using assms mod_mod_cancel [of 4096 4194304 "unat v"] by simp
  then have "tab_index v * 4096 = unat v mod 4194304"
    unfolding tab_index_def by (metis add.right_neutral div_mult_mod_eq)
  then have "4194304 * dir_index v + tab_index v * 4096 = unat v"
    unfolding dir_index_def by (metis mult.commute div_mult_mod_eq)
  then have "of_nat (4194304 * dir_index v + tab_index v * 4096) = v" by (metis of_nat_unat ucast_id)
  then show ?thesis by (metis of_nat_add of_nat_mult of_nat_numeral)
qed

lemma tables_built_identity:
  assumes "tables_built s d flags T 1024" "unat d mod 4096 = 0"
  shows "pagedir_ok (km_ram s) d"
    and "v mod 4096 = 0 \<Longrightarrow> paging_get (km_ram s) d v = Inr (v OR ucast flags)"
proof -
  have t: "table_at (km_ram s) d j = T j" if "j < 1024" for j
    unfolding table_at_def tables_builtD(4) [OF assms(1) that]
    by (rule table_entry_masked [OF tables_builtD(2) [OF assms(1) that] dir_flags_less])
  have "inj_on (table_at (km_ram s) d) {..<1024} \<longleftrightarrow> inj_on T {..<1024}"
    by (rule inj_on_cong) (simp add: t)
  then show "pagedir_ok (km_ram s) d"
    using assms tables_builtD(3) [OF assms(1)] t by (simp add: pagedir_ok_def tables_built_def)
  assume v: "v mod 4096 = 0"
  have "load32 (km_ram s) (slot_of (km_ram s) d v) =
      (of_nat (4194304 * dir_index v) + of_nat (tab_index v) * 4096) OR ucast flags"
    unfolding slot_of_def t [OF index_bounds(1)]
    by (rule tables_builtD(5) [OF assms(1) index_bounds])
  then show "paging_get (km_ram s) d v = Inr (v OR ucast flags)"
    using aligned_split [of v] v by (simp only: paging_get_eq aligned_nat)
qed

section \<open>Properties\<close>

lemma new_4gb_loop_frame:
  "new_4gb_loop s d flags off i k = Inr s' \<Longrightarrow> kmem.more s' = kmem.more s"
proof (induction k arbitrary: s off i)
  case (Suc k)
  then obtain p s1 where z: "kzalloc s (4 * 1024) = Inr (p, s1)"
    and r: "\<exists>m off. new_4gb_loop (s1\<lparr>km_ram := m\<rparr>) d flags off (Suc i) k = Inr s'"
    by (auto simp: bindE_Inr_iff Let_def)
  have "kmem.more s1 = kmem.more s" using z by (auto simp: kzalloc_def kmalloc_def bindE_Inr_iff)
  moreover obtain m off where "new_4gb_loop (s1\<lparr>km_ram := m\<rparr>) d flags off (Suc i) k = Inr s'" using r by blast
  from Suc.IH [OF this] have "kmem.more s' = kmem.more s1" by simp
  ultimately show ?case by simp
qed simp

text \<open>What a new chunk is, and that everything else of the state stays.\<close>

lemma paging_new_4gb_result:
  assumes "kmem_ok s" "1026 \<le> free_count (km_heap s)"
  obtains chunk s' c where "paging_new_4gb s flags = Inr (chunk, s')" "kmem_ok s'" "chunk \<noteq> 0"
    "\<forall>n. (chunk, n) \<notin> kmem_live s" "kmem_live s \<subseteq> kmem_live s'"
    "chunks s' = (chunks s)(chunk \<mapsto> c)"
    "s' = s\<lparr>km_heap := km_heap s', km_ram := km_ram s', chunks := chunks s'\<rparr>"
    "pagedir_ok (km_ram s') (directory_entry c)"
    "\<forall>v. v mod 4096 = 0 \<longrightarrow> paging_get (km_ram s') (directory_entry c) v = Inr (v OR ucast flags)"
proof -
  have sz: "0 < (4 * 1024 :: int)" "4 * 1024 \<le> (4096 :: int)" "0 < free_count (km_heap s)"
    "0 < (12 :: int)" "12 \<le> (4096 :: int)"
    using assms(2) by simp_all
  obtain d s1 n where z: "kzalloc s (4 * 1024) = Inr (d, s1)" "unat d mod 4096 = 0" "kmem_ok s1"
    "free_count (km_heap s1) = free_count (km_heap s) - 1" "kmem_live s1 = insert (d, n) (kmem_live s)" "kmem.more s1 = kmem.more s"
    by (rule kzalloc_pageE [OF assms(1) sz(3,1,2)])
  have "tables_built s1 d flags T 0" for T using z(5) by (auto simp: tables_built_def)
  then obtain s2 T where l: "new_4gb_loop s1 d flags 0 0 1024 = Inr s2" "kmem_ok s2"
    "free_count (km_heap s2) = free_count (km_heap s1) - 1024" "tables_built s2 d flags T 1024" "kmem_live s1 \<subseteq> kmem_live s2"
  proof -
    have "1024 < free_count (km_heap s1)" using assms(2) z(4) by simp
    from new_4gb_loop_identity [OF z(3) this _ z(2), of 0 0 flags] \<open>\<And>T. tables_built s1 d flags T 0\<close> that
    show ?thesis by auto
  qed
  have "0 < free_count (km_heap s2)" using l(3) z(4) assms(2) by simp
  then obtain p s3 k where c: "kzalloc s2 12 = Inr (p, s3)" "unat p mod 4096 = 0" "kmem_ok s3"
    "kmem_live s3 = insert (p, k) (kmem_live s2)" "\<forall>n. (p, n) \<notin> kmem_live s2"
    "\<forall>a. a \<notin> region p 4096 \<longrightarrow> km_ram s3 a = km_ram s2 a" "p \<noteq> 0" "kmem.more s3 = kmem.more s2"
    by (rule kzalloc_pageE [OF l(2) _ sz(4,5)])
  have "tables_built s3 d flags T 1024"
    using tables_built_frame [OF l(4) order_refl z(2) c(2,5), of s3] c(4,6) by auto
  note id = tables_built_identity [OF this z(2)]
  let ?s = "s3\<lparr>chunks := (chunks s3)(p \<mapsto> \<lparr>directory_entry = d, faults = 0, last_fault = 0\<rparr>)\<rparr>"
  have "paging_new_4gb s flags = Inr (p, ?s)"
    unfolding paging_new_4gb_def z(1) by (simp only: bindE.simps prod.case l(1) c(1))
  moreover have "kmem_ok ?s" "km_ram ?s = km_ram s3" using c(3) by (simp_all add: kmem_ok_def)
  moreover have more: "kmem.more s3 = kmem.more s"
    using c(8) new_4gb_loop_frame [OF l(1)] z(6) by simp
  then have "chunks s3 = chunks s" "?s = s\<lparr>km_heap := km_heap ?s, km_ram := km_ram ?s, chunks := chunks ?s\<rparr>"
    by (cases s; cases s3; simp)+
  moreover have "kmem_live s \<subseteq> kmem_live s3" using z(5) l(5) c(4) by blast
  moreover have "kmem_live ?s = kmem_live s3" by (simp add: kmem_live_def)
  moreover have "\<forall>n. (p, n) \<notin> kmem_live s" using c(5) z(5) l(5) by blast
  ultimately show ?thesis
    using id c(7) by (intro that [of p ?s "\<lparr>directory_entry = d, faults = 0, last_fault = 0\<rparr>"]) simp_all
qed

text \<open>C6: a new chunk maps all of memory to itself: with 1026 free blocks on the kernel heap
  \<open>paging_new_4gb\<close> returns a chunk whose directory is a proper two-level page table in which every
  page's entry is the page's own address with the given flags.\<close>

theorem paging_new_4gb_identity:
  assumes "kmem_ok s" "1026 \<le> free_count (km_heap s)"
  shows "\<exists>chunk s' c. paging_new_4gb s flags = Inr (chunk, s') \<and> chunks s' chunk = Some c \<and> kmem_ok s' \<and>
    pagedir_ok (km_ram s') (directory_entry c) \<and>
    (\<forall>v. v mod 4096 = 0 \<longrightarrow> paging_get (km_ram s') (directory_entry c) v = Inr (v OR ucast flags))"
proof -
  obtain chunk s' c where r: "paging_new_4gb s flags = Inr (chunk, s')" "kmem_ok s'"
    "chunks s' = (chunks s)(chunk \<mapsto> c)" "pagedir_ok (km_ram s') (directory_entry c)"
    "\<forall>v. v mod 4096 = 0 \<longrightarrow> paging_get (km_ram s') (directory_entry c) v = Inr (v OR ucast flags)"
    by (rule paging_new_4gb_result [OF assms])
  moreover have "chunks s' chunk = Some c" using r(3) by simp
  ultimately show ?thesis by blast
qed

lemma paging_new_4gb_identity_witness:
  "\<exists>chunk s' c. paging_new_4gb (projr (kheap_init
      \<lparr>km_heap = demo_heap, km_ram = \<lambda>a. 7, current_directory = 0, current_chunk = 0,
       fault_handlers = replicate 16 0, chunks = \<lambda>p. None, pfaults = \<lambda>p. None\<rparr> [])) 3 = Inr (chunk, s') \<and>
    chunks s' chunk = Some c \<and> paging_get (km_ram s') (directory_entry c) 0x2000 = Inr 0x2003"
proof -
  let ?boot = "\<lparr>km_heap = demo_heap, km_ram = \<lambda>a. 7, current_directory = 0, current_chunk = 0,
       fault_handlers = replicate 16 0, chunks = \<lambda>p. None, pfaults = \<lambda>p. None\<rparr>"
  obtain s where s: "kheap_init ?boot [] = Inr s" "kmem_ok s" "free_count (km_heap s) = 51200"
    using kheap_init_result [of ?boot "[]"] by blast
  have "1026 \<le> free_count (km_heap s)" using s(3) by simp
  from paging_new_4gb_identity [OF s(2) this, where flags = 3] obtain chunk s' c where
    "paging_new_4gb s 3 = Inr (chunk, s')" "chunks s' chunk = Some c"
    and g: "\<forall>v. v mod 4096 = 0 \<longrightarrow> paging_get (km_ram s') (directory_entry c) v = Inr (v OR ucast (3 :: byte))"
    by blast
  moreover have "paging_get (km_ram s') (directory_entry c) 0x2000 = Inr 0x2003"
    using g [rule_format, of "0x2000"] by simp
  ultimately show ?thesis using s(1) by auto
qed

text \<open>A directory at \<open>0x1000\<close> with its tables from 1 MB on, for concrete runs.\<close>

definition demo_pages :: ram where
  "demo_pages = fill_table (\<lambda>a. 0) 0x1000 0x100000 0"

lemma demo_pages_ok: "pagedir_ok demo_pages 0x1000"
proof -
  have t: "table_at demo_pages 0x1000 j = of_nat (1048576 + 4096 * j) \<and>
      unat (table_at demo_pages 0x1000 j) = 1048576 + 4096 * j" if "j < 1024" for j
  proof -
    have "1048576 + 4096 * j < 2 ^ 32" using that by simp
    then have u: "unat (of_nat (1048576 + 4096 * j) :: u32) = 1048576 + 4096 * j" by (rule unat_of_nat_small)
    have al: "unat (of_nat (1048576 + 4096 * j) :: u32) mod 4096 = 0" unfolding u by presburger
    have "load32 demo_pages (0x1000 + 4 * of_nat j) = of_nat (1048576 + 4096 * j) OR 0"
      using fill_table_result(1) [of "0x1000" j "\<lambda>a. 0" "0x100000" 0] that by (simp add: demo_pages_def mult.commute)
    moreover have "(of_nat (1048576 + 4096 * j) OR 0 :: u32) AND 0xfffff000 = of_nat (1048576 + 4096 * j)"
      by (rule table_entry_masked [OF al]) simp
    ultimately have "table_at demo_pages 0x1000 j = of_nat (1048576 + 4096 * j)"
      unfolding table_at_def by (simp only:)
    with u show ?thesis by simp
  qed
  have "table_at demo_pages 0x1000 j \<noteq> 0x1000" if "j < 1024" for j
  proof
    assume "table_at demo_pages 0x1000 j = 0x1000"
    then have "1048576 + 4096 * j = unat (0x1000 :: u32)" using t [OF that] by metis
    then show False by simp
  qed
  moreover have "inj_on (table_at demo_pages 0x1000) {..<1024}"
  proof (rule inj_onI)
    fix i j assume "i \<in> {..<1024}" "j \<in> {..<1024}" "table_at demo_pages 0x1000 i = table_at demo_pages 0x1000 j"
    then have "1048576 + 4096 * i = 1048576 + 4096 * j" using t [of i] t [of j] by (metis lessThan_iff)
    then show "i = j" by simp
  qed
  ultimately show ?thesis by (simp add: pagedir_ok_def)
qed

text \<open>\<open>paging_set\<close> at a page changes the entry of that page to the given value, the entry of no
  other page, and keeps the directory and its tables in place.\<close>

theorem paging_set_get:
  assumes "pagedir_ok m d" "v mod 4096 = 0" "w mod 4096 = 0"
  shows "case paging_set m d v val of (res, m') \<Rightarrow>
    res = 0 \<and> pagedir_ok m' d \<and> paging_get m' d w = (if w = v then Inr val else paging_get m d w)"
proof -
  have eq: "paging_set m d v val = (0, snd (paging_set m d v val))" using assms(2) by (simp add: paging_set_eq)
  show ?thesis
    by (subst eq, unfold prod.case)
      (use pages.set_ok [OF assms(1,2)] pages.get_set_same [OF assms(1,2)]
        pages.get_set_other [OF assms(1-3)] assms(2,3) in \<open>simp add: paging_get_entry_of\<close>)
qed

lemma paging_set_get_witness:
  "paging_get (snd (paging_set demo_pages 0x1000 0x400000 77)) 0x1000 0x400000 = Inr 77"
  using paging_set_get [OF demo_pages_ok, where v = "0x400000" and w = "0x400000" and val = 77] by (auto split: prod.splits)

lemma paging_map_range_result:
  assumes "pagedir_ok m d" "virt mod 4096 = 0" "phys mod 4096 = 0" "0 \<le> count" "count \<le> 2 ^ 20"
  shows "case paging_map_range m d virt phys count flags of (res, m') \<Rightarrow>
    res = 0 \<and> pagedir_ok m' d \<and>
    (\<forall>k<nat count. paging_get m' d (virt + of_nat (4096 * k)) = Inr ((phys + of_nat (4096 * k)) OR flags)) \<and>
    (\<forall>w. w mod 4096 = 0 \<longrightarrow> (\<forall>k<nat count. w \<noteq> virt + of_nat (4096 * k)) \<longrightarrow>
       paging_get m' d w = paging_get m d w)"
proof -
  let ?xs = "map (\<lambda>k. (phys + of_nat (4096 * k)) OR flags) [0..<nat count]"
  let ?m = "set_run (\<lambda>m v x. snd (paging_set m d v x)) m virt ?xs"
  have "length ?xs \<le> 2 ^ 20" using assms(5) by simp
  note run = pages.set_run_result [OF assms(1,2) this]
  have step: "(virt + of_nat (4096 * k)) mod 4096 = 0" for k
  proof (induction k)
    case (Suc k)
    have "virt + of_nat (4096 * Suc k) = (virt + of_nat (4096 * k)) + 4096" by simp
    then show ?case using page_step [OF Suc.IH] by (simp only:)
  qed (use assms(2) in simp)
  have eq: "paging_map_range m d virt phys count flags = (0, ?m)"
    unfolding paging_map_range_def map_range_loop_run [OF assms(2,3)] by simp
  show ?thesis
    unfolding eq prod.case
  proof (intro conjI allI impI)
    show "pagedir_ok ?m d" using run by blast
  next
    fix k assume "k < nat count"
    then show "paging_get ?m d (virt + of_nat (4096 * k)) = Inr ((phys + of_nat (4096 * k)) OR flags)"
      using run step by (simp add: paging_get_entry_of)
  next
    fix w assume "w mod 4096 = 0" "\<forall>k<nat count. w \<noteq> virt + of_nat (4096 * k)"
    then show "paging_get ?m d w = paging_get m d w"
      using run by (simp add: paging_get_entry_of)
  qed simp
qed

text \<open>\<open>paging_map_to\<close> maps the pages from \<open>phys\<close> up to \<open>phys_end\<close>.\<close>

lemma paging_map_to_result:
  assumes "pagedir_ok m d" "virt mod 4096 = 0" "phys mod 4096 = 0" "0 < n" "unat phys + 4096 * n < 2 ^ 32"
  obtains m' where "paging_map_to m d virt phys (phys + of_nat (4096 * n)) flags = Inr (0, m')" "pagedir_ok m' d"
    "\<forall>k<n. paging_get m' d (virt + of_nat (4096 * k)) = Inr ((phys + of_nat (4096 * k)) OR flags)"
    "\<forall>w. w mod 4096 = 0 \<longrightarrow> (\<forall>k<n. w \<noteq> virt + of_nat (4096 * k)) \<longrightarrow> paging_get m' d w = paging_get m d w"
proof -
  let ?e = "phys + of_nat (4096 * n)"
  have u: "unat ?e = unat phys + 4096 * n" using assms(5) by (simp add: unat_word_ariths unat_of_nat_small)
  have "unat phys mod 4096 = 0" using assms(3) by (simp add: aligned_nat)
  then have "unat ?e mod 4096 = 0" unfolding u by simp
  then have e: "?e mod 4096 = 0" by (simp add: aligned_nat)
  have lt: "phys < ?e" using assms(4) u by (simp add: word_less_nat_alt)
  have "unat (of_nat (4096 * n) :: u32) = 4096 * n" using assms(5) by (intro unat_of_nat_small) simp
  then have "unat ((?e - phys) div 4096) = n" by (simp add: unat_div)
  then have c: "uint ((?e - phys) div 4096) = int n" by (simp only: uint_nat)
  have n: "int n \<le> 2 ^ 20" using assms(5) by simp
  have "paging_map_to m d virt phys ?e flags = Inr (paging_map_range m d virt phys (int n) flags)"
    unfolding paging_map_to_def Let_def c by (simp only: assms(2,3) e lt simp_thms ASSERT_True bindE.simps)
  moreover obtain res m' where p: "paging_map_range m d virt phys (int n) flags = (res, m')"
    by (cases "paging_map_range m d virt phys (int n) flags")
  moreover have "case (res, m') of (res, m') \<Rightarrow> res = 0 \<and> pagedir_ok m' d \<and>
    (\<forall>k<n. paging_get m' d (virt + of_nat (4096 * k)) = Inr ((phys + of_nat (4096 * k)) OR flags)) \<and>
    (\<forall>w. w mod 4096 = 0 \<longrightarrow> (\<forall>k<n. w \<noteq> virt + of_nat (4096 * k)) \<longrightarrow> paging_get m' d w = paging_get m d w)"
    using paging_map_range_result [OF assms(1-3) of_nat_0_le_iff n, of flags] unfolding p nat_int .
  ultimately show ?thesis unfolding prod.case by (elim conjE) (rule that [of m'], simp_all only:)
qed

text \<open>\<open>paging_map_range\<close> maps page \<open>k\<close> of the virtual range to page \<open>k\<close> of the physical
  range with the flags given, for every page of the range, and leaves every other page's entry
  alone.\<close>

theorem paging_map_range_maps:
  assumes "pagedir_ok m d" "virt mod 4096 = 0" "phys mod 4096 = 0" "0 \<le> count" "count \<le> 2 ^ 20"
  shows "case paging_map_range m d virt phys count flags of (res, m') \<Rightarrow>
    res = 0 \<and> pagedir_ok m' d \<and>
    (\<forall>k<nat count. paging_get m' d (virt + of_nat (4096 * k)) = Inr ((phys + of_nat (4096 * k)) OR flags)) \<and>
    (\<forall>w. w mod 4096 = 0 \<longrightarrow> (\<forall>k<nat count. w \<noteq> virt + of_nat (4096 * k)) \<longrightarrow>
       paging_get m' d w = paging_get m d w)"
  by (rule paging_map_range_result [OF assms])

lemma paging_map_range_maps_witness:
  "paging_get (snd (paging_map_range demo_pages 0x1000 0x400000 0x800000 2 7)) 0x1000 0x401000 = Inr 0x801007"
proof -
  have "\<forall>k<nat 2. paging_get (snd (paging_map_range demo_pages 0x1000 0x400000 0x800000 2 7)) 0x1000
      (0x400000 + of_nat (4096 * k)) = Inr ((0x800000 + of_nat (4096 * k)) OR 7)"
    using paging_map_range_maps [OF demo_pages_ok, where virt = "0x400000" and phys = "0x800000" and count = 2 and flags = 7] by (simp split: prod.splits)
  then show ?thesis by (auto dest: spec [of _ 1])
qed

section \<open>Mapping writes into the tables only\<close>

text \<open>The memory of the 1024 tables of a directory.\<close>

definition table_mem :: "ram \<Rightarrow> addr \<Rightarrow> addr set" where
  "table_mem m d = (\<Union>i<1024. region (table_at m d i) 4096)"

lemma paging_set_frame:
  assumes "pagedir_ok m d" "v mod 4096 = 0"
  shows "table_mem (snd (paging_set m d v x)) d = table_mem m d"
    and "a \<notin> table_mem m d \<Longrightarrow> snd (paging_set m d v x) a = m a"
proof -
  show "table_mem (snd (paging_set m d v x)) d = table_mem m d"
    using assms by (simp add: table_mem_def paging_set_eq store_slot_table_at)
  have "region (slot_of m d v) 4 \<subseteq> table_mem m d"
    unfolding slot_of_def table_mem_def
    by (rule order_trans [OF slot_in_page]) (auto intro!: bexI [of _ "dir_index v"])
  then show "a \<notin> table_mem m d \<Longrightarrow> snd (paging_set m d v x) a = m a"
    using assms(2) by (auto simp: paging_set_eq intro: store32_out)
qed

lemma map_range_loop_frame:
  assumes "pagedir_ok m d"
  shows "pagedir_ok (snd (map_range_loop m d virt phys flags res count)) d \<and>
    table_mem (snd (map_range_loop m d virt phys flags res count)) d = table_mem m d \<and>
    (\<forall>a. a \<notin> table_mem m d \<longrightarrow> snd (map_range_loop m d virt phys flags res count) a = m a)"
  using assms
proof (induction count arbitrary: m virt phys res)
  case (Suc count)
  show ?case
  proof (cases "virt mod 4096 = 0 \<and> phys mod 4096 = 0")
    case True
    let ?m = "snd (paging_set m d virt (phys OR flags))"
    have step: "paging_map m d virt phys flags = (0, ?m)"
      using True by (simp add: paging_map_def paging_set_eq)
    have "pagedir_ok ?m d" using pages.set_ok [OF Suc.prems] True by simp
    from Suc.IH [OF this, of "virt + 4096" "phys + 4096" 0] paging_set_frame [OF Suc.prems, where v = virt and x = "phys OR flags"]
    show ?thesis using True by (simp add: step)
  next
    case False
    then have "paging_map m d virt phys flags = (- 6, m)" by (auto simp: paging_map_def)
    with Suc.prems show ?thesis by simp
  qed
qed simp

lemma paging_map_to_frame:
  assumes "pagedir_ok m d" "paging_map_to m d virt phys phys_end flags = Inr (res, m')"
  shows "pagedir_ok m' d" "table_mem m' d = table_mem m d" "a \<notin> table_mem m d \<Longrightarrow> m' a = m a"
proof -
  have "map_range_loop m d virt phys flags 0 (nat (uint ((phys_end - phys) div 4096))) = (res, m')"
    using assms(2) by (auto simp: paging_map_to_def paging_map_range_def Let_def bindE_Inr_iff)
  then obtain count where "m' = snd (map_range_loop m d virt phys flags 0 count)" by (metis snd_conv)
  with map_range_loop_frame [OF assms(1)] show
    "pagedir_ok m' d" "table_mem m' d = table_mem m d" "a \<notin> table_mem m d \<Longrightarrow> m' a = m a"
    by simp_all
qed

end
