(* ===== verification/Disk.thy ===== *)
theory Disk
  imports Paging
begin

text \<open>
  \<open>src/disk/disk.c\<close> and \<open>src/disk/streamer.c\<close>: reading sectors through the ATA ports and
  reading bytes from any position through a stream.  The drive is not part of the program: it is a
  parameter, the words it puts on its data port for the register values the code wrote, and
  \<open>drive_serves\<close> is what a drive holding the bytes \<open>content\<close> answers.  The code polls the
  status port until the drive is ready; the model takes the drive to become ready.
\<close>

section \<open>State\<close>

type_synonym drive = "byte list \<Rightarrow> nat \<Rightarrow> u16 list"

record disk =
  dk_type :: u32
  dk_filesystem :: addr
  dk_id :: int
  dk_sector_size :: int
  dk_fs_private :: addr

record disk_stream =
  ds_pos :: int
  ds_disk :: addr

text \<open>\<open>disk_at\<close> is the address of the global \<open>disk\<close>.\<close>

record dmem = pmem +
  disk_at :: addr
  the_disk :: disk
  streams :: "addr \<Rightarrow> disk_stream option"

section \<open>disk.c\<close>

text \<open>The values written to ports \<open>0x1F6\<close>, \<open>0x1F2\<close>, \<open>0x1F3\<close>, \<open>0x1F4\<close>, \<open>0x1F5\<close>.\<close>

definition ata_regs :: "int \<Rightarrow> int \<Rightarrow> byte list" where
  "ata_regs lba tot =
     [word_of_int (drop_bit 24 lba OR 0xE0), word_of_int tot, word_of_int (lba AND 0xff),
      word_of_int (drop_bit 8 lba), word_of_int (drop_bit 16 lba)]"

definition bytes_of_words :: "u16 list \<Rightarrow> byte list" where
  "bytes_of_words ws = concat (map (\<lambda>w. [ucast w, ucast (drop_bit 8 w)]) ws)"

text \<open>The status and the bytes put at \<open>buf\<close>.\<close>

definition disk_read_sector :: "drive \<Rightarrow> int \<Rightarrow> int \<Rightarrow> int \<times> byte list" where
  "disk_read_sector drv lba tot =
     (0, concat (map (\<lambda>b. bytes_of_words (drv (ata_regs lba tot) b)) [0..<nat tot]))"

definition disk_get :: "'a dmem_scheme \<Rightarrow> int \<Rightarrow> addr" where
  "disk_get s index = (if index \<noteq> 0 then 0 else disk_at s)"

definition disk_read_block :: "drive \<Rightarrow> addr \<Rightarrow> addr \<Rightarrow> int \<Rightarrow> int \<Rightarrow> int \<times> byte list" where
  "disk_read_block drv at idisk lba tot =
     (if idisk \<noteq> at then (- EIO, []) else disk_read_sector drv lba tot)"

section \<open>streamer.c\<close>

definition diskstreamer_new :: "'a dmem_scheme \<Rightarrow> int \<Rightarrow> (addr \<times> 'a dmem_scheme) outcome" where
  "diskstreamer_new s disk_id =
     (let disk = disk_get s disk_id in
      if disk = 0 then Inr (0, s)
      else bindE (kzalloc s 8) (\<lambda>(streamer, s).
        Inr (streamer, s\<lparr>streams := (streams s)(streamer \<mapsto> \<lparr>ds_pos = 0, ds_disk = disk\<rparr>)\<rparr>)))"

definition diskstreamer_seek :: "'a dmem_scheme \<Rightarrow> addr \<Rightarrow> int \<Rightarrow> (int \<times> 'a dmem_scheme) outcome" where
  "diskstreamer_seek s stream position =
     bindE (deref (streams s) stream) (\<lambda>st.
     Inr (0, s\<lparr>streams := (streams s)(stream \<mapsto> st\<lparr>ds_pos := position\<rparr>)\<rparr>))"

text \<open>
  \<open>diskstreamer_read\<close> on the stream itself: the status, the bytes put at \<open>out\<close> and the stream.
\<close>

function stream_read :: "drive \<Rightarrow> addr \<Rightarrow> disk_stream \<Rightarrow> int \<Rightarrow> int \<times> byte list \<times> disk_stream" where
  "stream_read drv at st tot =
     (let sector = ds_pos st sdiv COS32_SECTOR_SIZE;
          offset = ds_pos st smod COS32_SECTOR_SIZE;
          overflow = offset + tot \<ge> COS32_SECTOR_SIZE;
          total_to_read = (if overflow then tot - ((offset + tot) - COS32_SECTOR_SIZE) else tot);
          (res, buf) = disk_read_block drv at (ds_disk st) sector 1
      in if res < 0 then (res, [], st)
         else
           let bytes = map (\<lambda>i. buf ! nat (offset + int i)) [0..<nat total_to_read];
               st = st\<lparr>ds_pos := ds_pos st + total_to_read\<rparr>
           in if overflow
              then let (res, rest, st) = stream_read drv at st (tot - total_to_read)
                   in (res, bytes @ rest, st)
              else (res, bytes, st))"
  by pat_completeness auto
termination
proof (relation "measure (\<lambda>(drv, at, st, tot). nat tot)", simp, goal_cases)
  case (1 drv at st tot x xa xb xc xd xe ya xf xg)
  have "ds_pos st smod 512 \<in> {- \<bar>512\<bar> + 1..\<bar>512\<bar> - 1}" by (rule smod_int_range) simp
  then show ?case using 1 by auto
qed

declare stream_read.simps [simp del]

definition diskstreamer_read ::
  "drive \<Rightarrow> 'a dmem_scheme \<Rightarrow> addr \<Rightarrow> int \<Rightarrow> (int \<times> byte list \<times> 'a dmem_scheme) outcome" where
  "diskstreamer_read drv s stream tot =
     bindE (deref (streams s) stream) (\<lambda>st.
     let (res, bytes, st) = stream_read drv (disk_at s) st tot
     in Inr (res, bytes, s\<lparr>streams := (streams s)(stream \<mapsto> st)\<rparr>))"

text \<open>The same into memory at \<open>out\<close>.\<close>

definition diskstreamer_read_to ::
  "drive \<Rightarrow> 'a dmem_scheme \<Rightarrow> addr \<Rightarrow> addr \<Rightarrow> int \<Rightarrow> (int \<times> 'a dmem_scheme) outcome" where
  "diskstreamer_read_to drv s stream out tot =
     bindE (diskstreamer_read drv s stream tot) (\<lambda>(res, bytes, s).
     Inr (res, s\<lparr>km_ram := write_bytes (km_ram s) out bytes\<rparr>))"

definition diskstreamer_close :: "'a dmem_scheme \<Rightarrow> addr \<Rightarrow> 'a dmem_scheme outcome" where
  "diskstreamer_close s stream = kfree s stream"

section \<open>What a drive answers\<close>

definition drive_serves :: "drive \<Rightarrow> (nat \<Rightarrow> byte) \<Rightarrow> bool" where
  "drive_serves drv content \<longleftrightarrow> (\<forall>lba < 2 ^ 28. drv (ata_regs (int lba) 1) 0 =
     map (\<lambda>i. ucast (content (512 * lba + 2 * i)) OR push_bit 8 (ucast (content (512 * lba + 2 * i + 1)))) [0..<256])"

lemma bytes_of_words_pairs:
  "bytes_of_words (map (\<lambda>i. ucast (f (2 * i)) OR push_bit 8 (ucast (f (2 * i + 1)))) [0..<n]) =
   map f [0..<2 * n]"
proof (induction n)
  case (Suc n)
  have lo: "(ucast (ucast a OR push_bit 8 (ucast b) :: u16) :: byte) = a" for a b :: byte
    by (rule bit_eqI) (auto simp: bit_simps)
  have hi: "(ucast (drop_bit 8 (ucast a) OR drop_bit 8 (push_bit 8 (ucast b)) :: u16) :: byte) = b" for a b :: byte
    by (rule bit_eqI) (auto simp: bit_simps dest: bit_imp_le_length)
  show ?case using Suc by (simp add: bytes_of_words_def lo hi)
qed (simp add: bytes_of_words_def)

lemma read_sector_content:
  assumes "drive_serves drv content" "lba < 2 ^ 28"
  shows "disk_read_sector drv (int lba) 1 = (0, map (\<lambda>i. content (512 * lba + i)) [0..<512])"
proof -
  have w: "drv (ata_regs (int lba) 1) 0 = map (\<lambda>i. ucast (content (512 * lba + 2 * i)) OR
      push_bit 8 (ucast (content (512 * lba + 2 * i + 1)))) [0..<256]"
    using assms unfolding drive_serves_def by blast
  have "bytes_of_words (drv (ata_regs (int lba) 1) 0) = map (\<lambda>i. content (512 * lba + i)) [0..<512]"
    unfolding w using bytes_of_words_pairs [of "\<lambda>i. content (512 * lba + i)" 256] by (simp add: add.assoc)
  then show ?thesis by (simp add: disk_read_sector_def)
qed

lemma stream_read_content:
  assumes "drive_serves drv content" "ds_disk st = at" "ds_pos st = int p" "tot = int n" "p + n < 2 ^ 31"
  shows "stream_read drv at st tot =
    (0, map (\<lambda>i. content (p + i)) [0..<n], st\<lparr>ds_pos := int (p + n)\<rparr>)"
  using assms(2-5)
proof (induction n arbitrary: p st tot rule: less_induct)
  case (less n)
  let ?l = "p div 512" and ?o = "p mod 512"
  have split: "p = 512 * ?l + ?o" by simp
  have lba: "?l < 2 ^ 28" using less.prems(4) by simp
  have d: "int p sdiv 512 = int ?l" "int p smod 512 = int ?o"
    by (simp_all add: sdiv_nonneg smod_nonneg zdiv_int zmod_int)
  have blk: "disk_read_block drv at at (int ?l) 1 = (0, map (\<lambda>i. content (512 * ?l + i)) [0..<512])"
    by (simp add: disk_read_block_def read_sector_content [OF assms(1) lba])
  have ol: "?o < 512" by simp
  have pick: "map (\<lambda>i. map (\<lambda>i. content (512 * ?l + i)) [0..<512] ! nat (int ?o + int i)) [0..<k] =
      map (\<lambda>i. content (p + i)) [0..<k]" if "?o + k \<le> 512" for k
  proof (rule map_cong [OF refl])
    fix i assume "i \<in> set [0..<k]"
    then have "?o + i < 512" using that by simp
    moreover have "nat (int ?o + int i) = ?o + i" by simp
    moreover have "512 * ?l + (?o + i) = p + i" using split by linarith
    ultimately show "map (\<lambda>i. content (512 * ?l + i)) [0..<512] ! nat (int ?o + int i) = content (p + i)"
      by simp
  qed
  show ?case
  proof (cases "?o + n \<ge> 512")
    case False
    then have "\<not> int ?o + tot \<ge> 512" using less.prems(3) by linarith
    then show ?thesis
      using pick [of n] False less.prems(1,2,3) blk
      by (subst stream_read.simps) (simp add: d)
  next
    case True
    define k where "k = 512 - ?o"
    have k: "0 < k" "k \<le> n" "?o + k = 512" using True ol by (simp_all add: k_def)
    have ov: "int ?o + tot \<ge> 512" using True less.prems(3) by linarith
    have tr: "tot - ((int ?o + tot) - 512) = int k" using ol by (simp add: k_def of_nat_diff)
    have "stream_read drv at (st\<lparr>ds_pos := int (p + k)\<rparr>) (int (n - k)) =
      (0, map (\<lambda>i. content (p + k + i)) [0..<n - k], st\<lparr>ds_pos := int (p + k)\<rparr>\<lparr>ds_pos := int (p + k + (n - k))\<rparr>)"
      by (rule less.IH) (use k less.prems in simp_all)
    moreover have "tot - int k = int (n - k)" using k less.prems(3) by (simp add: of_nat_diff)
    moreover have "map (\<lambda>i. content (p + i)) [0..<n] =
        map (\<lambda>i. content (p + i)) [0..<k] @ map (\<lambda>i. content (p + k + i)) [0..<n - k]"
    proof -
      have "[0..<n] = [0..<k] @ map (\<lambda>i. i + k) [0..<n - k]"
        using k(2) upt_add_eq_append [of 0 k "n - k"] by (simp add: map_add_upt)
      then show ?thesis by (simp add: ac_simps)
    qed
    ultimately show ?thesis
      using pick [of k] k less.prems(1,2) blk ov tr
      by (subst stream_read.simps) (simp add: d)
  qed
qed

lemma diskstreamer_read_result:
  assumes "drive_serves drv content" "streams s stream = Some st" "ds_disk st = disk_at s"
    "ds_pos st = int p" "p + n < 2 ^ 31"
  shows "diskstreamer_read drv s stream (int n) =
    Inr (0, map (\<lambda>i. content (p + i)) [0..<n],
         s\<lparr>streams := (streams s)(stream \<mapsto> st\<lparr>ds_pos := int (p + n)\<rparr>)\<rparr>)"
  using stream_read_content [OF assms(1,3,4) refl assms(5)] assms(2)
  by (simp add: diskstreamer_read_def deref_def)

section \<open>Property\<close>

text \<open>C25: a read from a stream returns exactly the bytes of the disk from the stream's position on,
  across any number of sectors, and leaves the stream at the first byte not read.\<close>

theorem diskstreamer_read_content:
  assumes "drive_serves drv content" "streams s stream = Some st" "ds_disk st = disk_at s"
    "ds_pos st = int p" "p + n < 2 ^ 31"
  shows "diskstreamer_read drv s stream (int n) =
    Inr (0, map (\<lambda>i. content (p + i)) [0..<n],
         s\<lparr>streams := (streams s)(stream \<mapsto> st\<lparr>ds_pos := int (p + n)\<rparr>)\<rparr>)"
  by (rule diskstreamer_read_result [OF assms])

text \<open>A drive that holds \<open>content\<close>, found by the sector number in its registers.\<close>

definition drive_of :: "(nat \<Rightarrow> byte) \<Rightarrow> drive" where
  "drive_of content regs b =
     (let lba = unat (regs ! 2) + 256 * unat (regs ! 3) + 65536 * unat (regs ! 4)
                + 16777216 * (unat (regs ! 0) mod 16) + b
      in map (\<lambda>i. ucast (content (512 * lba + 2 * i)) OR push_bit 8 (ucast (content (512 * lba + 2 * i + 1)))) [0..<256])"

lemma and_255: "int l AND 0xff = int (l mod 256)"
proof -
  have "(255 :: int) = mask 8" by (simp add: mask_numeral)
  then have "int l AND 255 = take_bit 8 (int l)" by (simp only: take_bit_eq_mask)
  then show ?thesis by (simp add: take_bit_eq_mod zmod_int)
qed

lemma select_or:
  assumes "x < 16"
  shows "nat ((int x OR 0xE0) mod 256) mod 16 = x"
proof -
  have "((int x OR 0xE0) mod 256) mod 16 = take_bit 4 (take_bit 8 (int x OR 0xE0))" by (simp add: take_bit_eq_mod)
  also have "\<dots> = take_bit 4 (int x)" by simp
  also have "\<dots> = int x" using assms by (simp add: take_bit_int_eq_self)
  finally have e: "((int x OR 0xE0) mod 256) mod 16 = int x" .
  have "nat ((int x OR 0xE0) mod 256) mod nat 16 = nat (((int x OR 0xE0) mod 256) mod 16)"
    by (rule nat_mod_distrib [symmetric]) simp_all
  then show ?thesis unfolding e by simp
qed

lemma bytes_of_lba:
  "l mod 256 + 256 * (l div 256 mod 256) + 65536 * (l div 65536 mod 256) + 16777216 * (l div 16777216) = (l :: nat)"
proof -
  have a: "l div 65536 = l div 256 div 256" "l div 16777216 = l div 256 div 256 div 256"
    by (simp_all add: div_mult2_eq [symmetric])
  have "l = 256 * (l div 256) + l mod 256"
    "l div 256 = 256 * (l div 256 div 256) + l div 256 mod 256"
    "l div 256 div 256 = 256 * (l div 256 div 256 div 256) + l div 256 div 256 mod 256"
    by simp_all
  then show ?thesis unfolding a by linarith
qed

lemma drive_of_serves: "drive_serves (drive_of content) content"
proof -
  have "unat (ata_regs (int l) 1 ! 2) + 256 * unat (ata_regs (int l) 1 ! 3) + 65536 * unat (ata_regs (int l) 1 ! 4)
      + 16777216 * (unat (ata_regs (int l) 1 ! 0) mod 16) = l" if l: "l < 2 ^ 28" for l :: nat
  proof -
    have b: "unat (word_of_int z :: byte) = nat (z mod 256)" for z
      by (simp add: unsigned_of_int take_bit_eq_mod)
    have d: "drop_bit 8 (int l) = int (l div 256)" "drop_bit 16 (int l) = int (l div 65536)"
      "drop_bit 24 (int l) = int (l div 16777216)"
      by (simp_all add: drop_bit_eq_div zdiv_int)
    have "l div 16777216 < 16" by (rule less_mult_imp_div_less) (use l in simp)
    note s = select_or [OF this]
    have n: "unat (of_nat k :: byte) = k mod 256" for k
      by (simp add: unsigned_of_nat take_bit_eq_mod)
    have m: "nat (int k mod 256) = k mod 256" for k by (simp add: nat_mod_distrib)
    have "unat (ata_regs (int l) 1 ! 2) = l mod 256 mod 256" "unat (ata_regs (int l) 1 ! 3) = l div 256 mod 256"
      "unat (ata_regs (int l) 1 ! 4) = l div 65536 mod 256"
      "unat (ata_regs (int l) 1 ! 0) mod 16 = l div 16777216"
      unfolding ata_regs_def and_255 d using s by (simp_all add: m b n)
    then show ?thesis using bytes_of_lba [of l] by simp
  qed
  then show ?thesis by (simp add: drive_serves_def drive_of_def)
qed

text \<open>A state with one stream at 4096 on the disk.\<close>

definition demo_dmem :: dmem where
  "demo_dmem = \<lparr>km_heap = demo_heap, km_ram = \<lambda>a. 7, current_directory = 0, current_chunk = 0,
     fault_handlers = replicate 16 0, chunks = \<lambda>p. None, pfaults = \<lambda>p. None, disk_at = 64,
     the_disk = \<lparr>dk_type = 0, dk_filesystem = 0, dk_id = 0, dk_sector_size = 512, dk_fs_private = 0\<rparr>,
     streams = [4096 \<mapsto> \<lparr>ds_pos = 510, ds_disk = 64\<rparr>]\<rparr>"

lemma diskstreamer_read_content_witness:
  "\<exists>s'. diskstreamer_read (drive_of of_nat) demo_dmem 4096 4 = Inr (0, [254, 255, 0, 1], s')"
proof -
  have "diskstreamer_read (drive_of of_nat) demo_dmem 4096 (int 4) =
      Inr (0, map (\<lambda>i. of_nat (510 + i)) [0..<4], demo_dmem\<lparr>streams := (streams demo_dmem)(4096 \<mapsto>
        \<lparr>ds_pos = 510, ds_disk = 64\<rparr>\<lparr>ds_pos := int (510 + 4)\<rparr>)\<rparr>)"
    by (rule diskstreamer_read_content [OF drive_of_serves]) (simp_all add: demo_dmem_def)
  then show ?thesis by (simp add: upt_rec)
qed

end
