(* ===== verification/C_String.thy ===== *)
theory C_String
  imports C_Memory
begin

text \<open>
  \<open>src/string/string.c\<close>.  A routine that only reads a string takes a view of it,
  \<open>i \<mapsto> str[i]\<close>; one that writes takes the memory and an address.  The loops that stop only
  at a terminator are partial functions: \<open>None\<close> is a loop that never ends.
\<close>

section \<open>Reading routines\<close>

type_synonym cview = "nat \<Rightarrow> byte"

definition str_at :: "ram \<Rightarrow> addr \<Rightarrow> cview" where
  "str_at m p i = m (p + of_nat i)"

partial_function (option) strlen_from :: "cview \<Rightarrow> nat \<Rightarrow> nat option" where
  "strlen_from str len = (if str len = 0 then Some len else strlen_from str (Suc len))"

definition strlen :: "cview \<Rightarrow> nat option" where
  "strlen str = strlen_from str 0"

definition tolower :: "byte \<Rightarrow> byte" where
  "tolower s1 = (if sint s1 \<ge> 65 \<and> sint s1 \<le> 90 then s1 + 32 else s1)"

partial_function (option) strcmp_from :: "cview \<Rightarrow> cview \<Rightarrow> nat \<Rightarrow> int option" where
  "strcmp_from s1 s2 i =
     (if s1 i \<noteq> s2 i then Some (uint (s1 i) - uint (s2 i))
      else if s1 i = 0 then Some 0 else strcmp_from s1 s2 (Suc i))"

definition strcmp :: "cview \<Rightarrow> cview \<Rightarrow> int option" where
  "strcmp s1 s2 = strcmp_from s1 s2 0"

fun strncmp_loop :: "cview \<Rightarrow> cview \<Rightarrow> nat \<Rightarrow> nat \<Rightarrow> int" where
  "strncmp_loop s1 s2 i 0 = 0"
| "strncmp_loop s1 s2 i (Suc n) =
     (if s1 i \<noteq> s2 i then uint (s1 i) - uint (s2 i)
      else if s1 i = 0 then 0 else strncmp_loop s1 s2 (Suc i) n)"

definition strncmp :: "cview \<Rightarrow> cview \<Rightarrow> int \<Rightarrow> int" where
  "strncmp s1 s2 n = strncmp_loop s1 s2 0 (nat n)"

fun istrncmp_loop :: "cview \<Rightarrow> cview \<Rightarrow> nat \<Rightarrow> nat \<Rightarrow> int" where
  "istrncmp_loop s1 s2 i 0 = 0"
| "istrncmp_loop s1 s2 i (Suc n) =
     (if s1 i \<noteq> s2 i \<and> tolower (s1 i) \<noteq> tolower (s2 i) then uint (s1 i) - uint (s2 i)
      else if s1 i = 0 then 0 else istrncmp_loop s1 s2 (Suc i) n)"

definition istrncmp :: "cview \<Rightarrow> cview \<Rightarrow> int \<Rightarrow> int" where
  "istrncmp s1 s2 n = istrncmp_loop s1 s2 0 (nat n)"

text \<open>The scans bounded by \<open>max\<close>: the index reached after at most \<open>k\<close> more steps.\<close>

fun strnlen_terminator_from :: "cview \<Rightarrow> byte \<Rightarrow> nat \<Rightarrow> nat \<Rightarrow> nat" where
  "strnlen_terminator_from str terminator i 0 = i"
| "strnlen_terminator_from str terminator i (Suc k) =
     (if str i = 0 \<or> str i = terminator then i
      else strnlen_terminator_from str terminator (Suc i) k)"

definition strnlen_terminator :: "cview \<Rightarrow> int \<Rightarrow> byte \<Rightarrow> int" where
  "strnlen_terminator str mx terminator = int (strnlen_terminator_from str terminator 0 (nat mx))"

fun strnlen_from :: "cview \<Rightarrow> nat \<Rightarrow> nat \<Rightarrow> nat" where
  "strnlen_from str i 0 = i"
| "strnlen_from str i (Suc k) = (if str i = 0 then i else strnlen_from str (Suc i) k)"

definition strnlen :: "cview \<Rightarrow> int \<Rightarrow> int" where
  "strnlen str mx = int (strnlen_from str 0 (nat mx))"

definition isdigit :: "byte \<Rightarrow> bool" where
  "isdigit c \<longleftrightarrow> sint c \<ge> 48 \<and> sint c \<le> 57"

definition tonumericdigit :: "byte \<Rightarrow> int" where
  "tonumericdigit c = sint c - 48"

section \<open>Writing routines\<close>

text \<open>The loop of \<open>strncpy\<close>, from \<open>i\<close> on with \<open>k\<close> bytes of the bound left.\<close>

fun strncpy_loop :: "ram \<Rightarrow> addr \<Rightarrow> addr \<Rightarrow> nat \<Rightarrow> nat \<Rightarrow> ram" where
  "strncpy_loop m dest src i 0 = m"
| "strncpy_loop m dest src i (Suc k) =
     (if m (src + of_nat i) \<noteq> 0
      then strncpy_loop (m(dest + of_nat i := m (src + of_nat i))) dest src (Suc i) k
      else m(dest + of_nat i := 0))"

definition strncpy :: "ram \<Rightarrow> addr \<Rightarrow> addr \<Rightarrow> int \<Rightarrow> ram" where
  "strncpy m dest src n = strncpy_loop m dest src 0 (nat n)"

text \<open>
  The same routine into a fixed array of a structure: the first bytes of \<open>dest\<close> are replaced by
  the string and its terminator (no terminator when the string fills the bound).
\<close>

fun strncpy_list :: "byte list \<Rightarrow> cview \<Rightarrow> nat \<Rightarrow> nat \<Rightarrow> byte list" where
  "strncpy_list dest src i 0 = dest"
| "strncpy_list dest src i (Suc k) =
     (if src i \<noteq> 0 then strncpy_list (dest[i := src i]) src (Suc i) k else dest[i := 0])"

text \<open>\<open>strtok\<close> keeps its position in the global \<open>sp\<close>, null at the start.\<close>

fun delimiter_match :: "byte \<Rightarrow> byte list \<Rightarrow> bool" where
  "delimiter_match c [] = False"
| "delimiter_match c (d # ds) = (if c = d then True else delimiter_match c ds)"

partial_function (option) strtok_skip :: "ram \<Rightarrow> byte list \<Rightarrow> addr \<Rightarrow> addr option" where
  "strtok_skip m ds p_start =
     (if delimiter_match (m p_start) ds then strtok_skip m ds (p_start + 1) else Some p_start)"

partial_function (option) strtok_end :: "ram \<Rightarrow> byte list \<Rightarrow> addr \<Rightarrow> (ram \<times> addr) option" where
  "strtok_end m ds sp =
     (if m sp = 0 then Some (m, sp)
      else if delimiter_match (m sp) ds then Some (m(sp := 0), sp + 1)
      else strtok_end m ds (sp + 1))"

text \<open>The memory, \<open>sp\<close> and the value returned; \<open>delimiters\<close> is a pointer.\<close>

definition strtok :: "ram \<Rightarrow> addr \<Rightarrow> addr \<Rightarrow> addr \<Rightarrow> (ram \<times> addr \<times> addr) option" where
  "strtok m sp str delimiters = (case strlen (str_at m delimiters) of None \<Rightarrow> None | Some len \<Rightarrow>
     if str = 0 \<and> sp = 0 then Some (m, sp, 0)
     else
       let sp = (if str \<noteq> 0 \<and> sp = 0 then str else sp);
           ds = read_bytes m delimiters len
       in case strtok_skip m ds sp of None \<Rightarrow> None | Some p_start \<Rightarrow>
         if m p_start = 0 then Some (m, 0, 0)
         else case strtok_end m ds p_start of None \<Rightarrow> None | Some (m, sp) \<Rightarrow>
           Some (m, sp, p_start))"

text \<open>
  \<open>basename\<close>: \<open>buf\<close> is the address of its array on the stack and \<open>slash\<close> that of the
  literal it passes as delimiters.
\<close>

partial_function (option) basename_loop ::
  "ram \<Rightarrow> addr \<Rightarrow> addr \<Rightarrow> addr \<Rightarrow> addr \<Rightarrow> addr \<Rightarrow> (ram \<times> addr \<times> addr) option" where
  "basename_loop m sp buf slash current lst =
     (if current = 0 then Some (m, sp, lst)
      else case strtok m sp buf slash of None \<Rightarrow> None | Some (m', sp', next) \<Rightarrow>
        basename_loop m' sp' buf slash next current)"

definition basename ::
  "ram \<Rightarrow> addr \<Rightarrow> addr \<Rightarrow> addr \<Rightarrow> int \<Rightarrow> addr \<Rightarrow> addr \<Rightarrow> (ram \<times> addr) option" where
  "basename m sp filename out_filename max_len buf slash =
     (let m = strncpy m buf filename max_len in
      case strtok m sp buf slash of None \<Rightarrow> None | Some (m, sp, current) \<Rightarrow>
      case basename_loop m sp buf slash current current of None \<Rightarrow> None | Some (m, sp, lst) \<Rightarrow>
        Some (strncpy m out_filename lst max_len, sp))"

section \<open>Terminated strings\<close>

definition cstr :: "cview \<Rightarrow> nat \<Rightarrow> bool" where
  "cstr s n \<longleftrightarrow> s n = 0 \<and> (\<forall>i<n. s i \<noteq> 0)"

lemma cstr_unique: "cstr s n \<Longrightarrow> cstr s k \<Longrightarrow> n = k"
  unfolding cstr_def by (metis linorder_neqE_nat)

lemma strlen_from_reaches:
  assumes "i \<le> n" "s n = 0" "\<And>k. i \<le> k \<Longrightarrow> k < n \<Longrightarrow> s k \<noteq> 0"
  shows "strlen_from s i = Some n"
  using assms
proof (induction "n - i" arbitrary: i)
  case 0
  then show ?case by (subst strlen_from.simps) simp
next
  case (Suc x)
  then have "strlen_from s (Suc i) = Some n" by (intro Suc.hyps(1)) auto
  moreover have "s i \<noteq> 0" using Suc by auto
  ultimately show ?case by (subst strlen_from.simps) simp
qed

lemma strlen_from_result:
  assumes "strlen_from s i = Some n"
  shows "i \<le> n \<and> s n = 0 \<and> (\<forall>k. i \<le> k \<longrightarrow> k < n \<longrightarrow> s k \<noteq> 0)"
proof (rule strlen_from.raw_induct
    [of "\<lambda>s i n. i \<le> n \<and> s n = 0 \<and> (\<forall>k. i \<le> k \<longrightarrow> k < n \<longrightarrow> s k \<noteq> 0)", OF _ assms])
  fix f and s :: cview and i n
  assume IH: "\<And>s i n. f s i = Some n \<Longrightarrow> i \<le> n \<and> s n = 0 \<and> (\<forall>k. i \<le> k \<longrightarrow> k < n \<longrightarrow> s k \<noteq> 0)"
    and r: "(if s i = 0 then Some i else f s (Suc i)) = Some n"
  show "i \<le> n \<and> s n = 0 \<and> (\<forall>k. i \<le> k \<longrightarrow> k < n \<longrightarrow> s k \<noteq> 0)"
  proof (cases "s i = 0")
    case False
    with r have "f s (Suc i) = Some n" by simp
    from IH [OF this] False show ?thesis
      by (metis Suc_leD Suc_leI le_neq_implies_less)
  qed (use r in simp)
qed

lemma strlen_eq_iff: "strlen s = Some n \<longleftrightarrow> cstr s n"
proof
  assume "strlen s = Some n"
  then show "cstr s n" using strlen_from_result [of s 0 n] by (simp add: strlen_def cstr_def)
next
  assume "cstr s n"
  then show "strlen s = Some n"
    unfolding strlen_def cstr_def by (intro strlen_from_reaches) simp_all
qed

text \<open>The first place where two strings differ decides; a terminator in both ends the scan.\<close>

lemma strcmp_from_diff:
  assumes "i \<le> j" "s1 j \<noteq> s2 j" "\<And>k. i \<le> k \<Longrightarrow> k < j \<Longrightarrow> s1 k = s2 k \<and> s1 k \<noteq> 0"
  shows "strcmp_from s1 s2 i = Some (uint (s1 j) - uint (s2 j))"
  using assms
proof (induction "j - i" arbitrary: i)
  case 0
  then show ?case by (subst strcmp_from.simps) simp
next
  case (Suc x)
  have "strcmp_from s1 s2 (Suc i) = Some (uint (s1 j) - uint (s2 j))"
  proof (rule Suc.hyps(1))
    show "s1 k = s2 k \<and> s1 k \<noteq> 0" if "Suc i \<le> k" "k < j" for k
      by (rule Suc.prems(3)) (use that in simp_all)
  qed (use Suc.hyps(2) Suc.prems(2) in simp_all)
  moreover have "s1 i = s2 i" "s1 i \<noteq> 0"
  proof -
    have "i < j" using Suc.hyps(2) by simp
    with Suc.prems(3) [of i] show "s1 i = s2 i" "s1 i \<noteq> 0" by blast+
  qed
  ultimately show ?case by (subst strcmp_from.simps) simp
qed

lemma strcmp_from_same:
  assumes "i \<le> n" "s1 n = 0" "\<And>k. i \<le> k \<Longrightarrow> k < n \<Longrightarrow> s1 k \<noteq> 0"
    "\<And>k. i \<le> k \<Longrightarrow> k \<le> n \<Longrightarrow> s1 k = s2 k"
  shows "strcmp_from s1 s2 i = Some 0"
  using assms
proof (induction "n - i" arbitrary: i)
  case 0
  then show ?case by (subst strcmp_from.simps) simp
next
  case (Suc x)
  then have "strcmp_from s1 s2 (Suc i) = Some 0" by (intro Suc.hyps(1)) auto
  moreover have "s1 i = s2 i" "s1 i \<noteq> 0"
    using Suc.prems(3) [of i] Suc.prems(4) [of i] Suc.hyps(2) by auto
  ultimately show ?case by (subst strcmp_from.simps) simp
qed

lemma uint_byte_eq [simp]: "uint (a :: byte) = uint b \<longleftrightarrow> a = b"
  by (simp add: word_uint_eq_iff)

lemma strcmp_total:
  assumes "cstr s1 n"
  shows "\<exists>r. strcmp s1 s2 = Some r \<and> (r = 0 \<longleftrightarrow> (\<forall>i\<le>n. s1 i = s2 i)) \<and>
    (r < 0 \<longleftrightarrow> (\<exists>j\<le>n. s1 j < s2 j \<and> (\<forall>i<j. s1 i = s2 i)))"
proof (cases "\<forall>i\<le>n. s1 i = s2 i")
  case True
  then have "strcmp s1 s2 = Some 0"
    unfolding strcmp_def using assms by (intro strcmp_from_same [of 0 n]) (auto simp: cstr_def)
  with True show ?thesis by (intro exI [of _ 0]) auto
next
  case False
  define j where "j = (LEAST j. s1 j \<noteq> s2 j)"
  obtain i where i: "i \<le> n" "s1 i \<noteq> s2 i" using False by blast
  have j: "s1 j \<noteq> s2 j" "j \<le> i"
    unfolding j_def using i(2) by (rule LeastI [of "\<lambda>j. s1 j \<noteq> s2 j"], rule Least_le)
  have before: "s1 k = s2 k" if "k < j" for k using that not_less_Least unfolding j_def by blast
  have "strcmp s1 s2 = Some (uint (s1 j) - uint (s2 j))"
    unfolding strcmp_def
  proof (rule strcmp_from_diff)
    show "s1 k = s2 k \<and> s1 k \<noteq> 0" if "k < j" for k
      using before [OF that] assms that j(2) i(1) unfolding cstr_def by (meson less_le_trans)
  qed (use j(1) in simp_all)
  moreover have "(\<exists>j\<le>n. s1 j < s2 j \<and> (\<forall>i<j. s1 i = s2 i)) \<longleftrightarrow> s1 j < s2 j"
  proof
    assume "\<exists>j\<le>n. s1 j < s2 j \<and> (\<forall>i<j. s1 i = s2 i)"
    then obtain k where k: "s1 k < s2 k" "\<forall>i<k. s1 i = s2 i" by blast
    have "k = j" using k before j(1) by (metis less_irrefl linorder_neqE_nat)
    with k(1) show "s1 j < s2 j" by simp
  next
    assume "s1 j < s2 j"
    then show "\<exists>j\<le>n. s1 j < s2 j \<and> (\<forall>i<j. s1 i = s2 i)"
      using before j(2) i(1) by (meson le_trans)
  qed
  moreover have "uint (s1 j) - uint (s2 j) < 0 \<longleftrightarrow> s1 j < s2 j" "uint (s1 j) - uint (s2 j) = 0 \<longleftrightarrow> s1 j = s2 j"
    by (simp_all add: word_less_def)
  ultimately show ?thesis using False j(1) by blast
qed

lemma all_less_Suc_0: "(\<forall>k<Suc n. P k) \<longleftrightarrow> P 0 \<and> (\<forall>k<n. P (Suc k))"
  by (auto simp: less_Suc_eq_0_disj)

lemma strncmp_loop_zero:
  "strncmp_loop s1 s2 i n = 0 \<longleftrightarrow>
   (\<forall>k<n. (\<forall>l<k. s1 (i + l) \<noteq> 0) \<longrightarrow> s1 (i + k) = s2 (i + k))"
proof (induction s1 s2 i n rule: strncmp_loop.induct)
  case (2 s1 s2 i n)
  show ?case
  proof (cases "s1 i = s2 i \<and> s1 i \<noteq> 0")
    case True
    have pre: "(\<forall>l<Suc k. s1 (i + l) \<noteq> 0) \<longleftrightarrow> (\<forall>l<k. s1 (Suc i + l) \<noteq> 0)" for k
    proof -
      have "s1 i \<noteq> 0" using True by (rule conjunct2)
      then show ?thesis by (simp add: all_less_Suc_0)
    qed
    have "(\<forall>k<Suc n. (\<forall>l<k. s1 (i + l) \<noteq> 0) \<longrightarrow> s1 (i + k) = s2 (i + k)) \<longleftrightarrow>
        (\<forall>k<n. (\<forall>l<Suc k. s1 (i + l) \<noteq> 0) \<longrightarrow> s1 (Suc i + k) = s2 (Suc i + k))"
      using True by (simp only: all_less_Suc_0) simp
    also have "\<dots> \<longleftrightarrow> (\<forall>k<n. (\<forall>l<k. s1 (Suc i + l) \<noteq> 0) \<longrightarrow> s1 (Suc i + k) = s2 (Suc i + k))"
      by (simp only: pre)
    also have "\<dots> \<longleftrightarrow> strncmp_loop s1 s2 (Suc i) n = 0" using 2 True by blast
    also have "\<dots> \<longleftrightarrow> strncmp_loop s1 s2 i (Suc n) = 0" using True by (metis strncmp_loop.simps(2))
    finally show ?thesis by (rule sym)
  next
    case False
    show ?thesis
    proof (cases "s1 i = s2 i")
      case True
      with False have "s1 i = 0" by simp
      with True show ?thesis by (simp only: all_less_Suc_0) simp
    qed (simp add: all_less_Suc_0)
  qed
qed simp

lemma strnlen_terminator_from_spec:
  "strnlen_terminator_from s t i k = r \<Longrightarrow>
   i \<le> r \<and> r \<le> i + k \<and> (\<forall>j. i \<le> j \<longrightarrow> j < r \<longrightarrow> s j \<noteq> 0 \<and> s j \<noteq> t) \<and>
   (r < i + k \<longrightarrow> s r = 0 \<or> s r = t)"
proof (induction s t i k rule: strnlen_terminator_from.induct)
  case (2 s t i k)
  show ?case
  proof (cases "s i = 0 \<or> s i = t")
    case False
    then have r: "strnlen_terminator_from s t (Suc i) k = r" using 2(2) by (simp split: if_splits)
    from 2(1) [OF False r] False show ?thesis
      by (auto simp: Suc_le_eq) (metis le_neq_implies_less)+
  qed (use 2(2) in auto)
qed simp

lemma strnlen_from_spec:
  "strnlen_from s i k = r \<Longrightarrow>
   i \<le> r \<and> r \<le> i + k \<and> (\<forall>j. i \<le> j \<longrightarrow> j < r \<longrightarrow> s j \<noteq> 0) \<and> (r < i + k \<longrightarrow> s r = 0)"
proof (induction s i k rule: strnlen_from.induct)
  case (2 s i k)
  show ?case
  proof (cases "s i = 0")
    case False
    then have r: "strnlen_from s (Suc i) k = r" using 2(2) by (simp split: if_splits)
    from 2(1) [OF False r] False show ?thesis
      by (auto simp: Suc_le_eq) (metis le_neq_implies_less)+
  qed (use 2(2) in auto)
qed simp

section \<open>Copying strings\<close>

lemma strncpy_loop_result:
  assumes "region dest (i + k) \<inter> region src (i + k) = {}" "i + k \<le> 2 ^ 32"
    and "r = strnlen_from (str_at m src) i k"
  shows "(\<forall>j. i \<le> j \<longrightarrow> j < r \<longrightarrow> strncpy_loop m dest src i k (dest + of_nat j) = m (src + of_nat j)) \<and>
    (r < i + k \<longrightarrow> strncpy_loop m dest src i k (dest + of_nat r) = 0) \<and>
    (\<forall>a. (\<forall>j. i \<le> j \<longrightarrow> j < i + k \<longrightarrow> j \<le> r \<longrightarrow> a \<noteq> dest + of_nat j) \<longrightarrow>
       strncpy_loop m dest src i k a = m a)"
  using assms
proof (induction k arbitrary: i m r)
  case (Suc k)
  show ?case
  proof (cases "m (src + of_nat i) = 0")
    case True
    then show ?thesis by (simp add: Suc.prems(3) str_at_def)
  next
    case False
    define m1 where "m1 = m(dest + of_nat i := m (src + of_nat i))"
    have src: "m1 (src + of_nat j) = m (src + of_nat j)" if "j < i + Suc k" for j
      using Suc.prems(1) that unfolding m1_def region_def by fastforce
    have prem: "region dest (Suc i + k) \<inter> region src (Suc i + k) = {}" "Suc i + k \<le> 2 ^ 32"
      using Suc.prems(1,2) by simp_all
    have same: "strnlen_from (str_at m1 src) j l = strnlen_from (str_at m src) j l"
      if "j + l \<le> i + Suc k" for j l
      using that by (induction l arbitrary: j) (simp_all add: str_at_def src)
    define r1 where "r1 = strnlen_from (str_at m1 src) (Suc i) k"
    have nz: "str_at m src i \<noteq> 0" using False by (simp add: str_at_def)
    have r: "r = r1" using nz same [of "Suc i" k] by (simp add: Suc.prems(3) r1_def)
    have ge: "Suc i \<le> r1" "r1 \<le> Suc i + k"
      using strnlen_from_spec [of "str_at m1 src" "Suc i" k r1] by (simp_all add: r1_def)
    have loop: "strncpy_loop m dest src i (Suc k) = strncpy_loop m1 dest src (Suc i) k"
      using False by (simp add: m1_def)
    note IH = Suc.IH [OF prem r1_def]
    have neq: "dest + of_nat i \<noteq> dest + of_nat j" if "Suc i \<le> j" "j < Suc i + k" for j
      using that Suc.prems(2) of_nat_inj_u32 [of i j] by simp
    have here: "strncpy_loop m1 dest src (Suc i) k (dest + of_nat i) = m (src + of_nat i)"
    proof -
      have "strncpy_loop m1 dest src (Suc i) k (dest + of_nat i) = m1 (dest + of_nat i)"
        using IH neq by blast
      then show ?thesis by (simp add: m1_def)
    qed
    show ?thesis
      unfolding loop r
    proof (intro conjI allI impI)
      fix j assume j: "i \<le> j" "j < r1"
      show "strncpy_loop m1 dest src (Suc i) k (dest + of_nat j) = m (src + of_nat j)"
      proof (cases "j = i")
        case False
        then show ?thesis using IH j ge src [of j] by auto
      qed (use here in simp)
    next
      assume "r1 < i + Suc k"
      then show "strncpy_loop m1 dest src (Suc i) k (dest + of_nat r1) = 0" using IH by simp
    next
      fix a assume a: "\<forall>j. i \<le> j \<longrightarrow> j < i + Suc k \<longrightarrow> j \<le> r1 \<longrightarrow> a \<noteq> dest + of_nat j"
      then have "a \<noteq> dest + of_nat i" using ge by auto
      moreover have "strncpy_loop m1 dest src (Suc i) k a = m1 a" using IH a by auto
      ultimately show "strncpy_loop m1 dest src (Suc i) k a = m a" by (simp add: m1_def)
    qed
  qed
qed simp

section \<open>Splitting a string with strtok\<close>

lemma delimiter_match_iff [simp]: "delimiter_match c ds \<longleftrightarrow> c \<in> set ds"
  by (induction ds) auto

function tokens :: "byte list \<Rightarrow> byte list \<Rightarrow> byte list list" where
  "tokens ds xs =
     (let ys = dropWhile (\<lambda>c. c \<in> set ds) xs
      in if ys = [] then []
         else takeWhile (\<lambda>c. c \<notin> set ds) ys # tokens ds (tl (dropWhile (\<lambda>c. c \<notin> set ds) ys)))"
  by pat_completeness auto
termination
proof (relation "measure (\<lambda>(ds, xs). length xs)"; clarsimp)
  fix ds xs :: "byte list" and x
  assume x: "x \<in> set xs" "x \<notin> set ds"
  let ?ys = "dropWhile (\<lambda>c. c \<in> set ds) xs"
  have "?ys \<noteq> []" using x by (auto simp: dropWhile_eq_Nil_conv)
  moreover have "length (dropWhile (\<lambda>c. c \<notin> set ds) ?ys) \<le> length ?ys" by (rule length_dropWhile_le)
  moreover have "length ?ys \<le> length xs" by (rule length_dropWhile_le)
  ultimately show "length (dropWhile (\<lambda>c. c \<notin> set ds) ?ys) - Suc 0 < length xs"
    by (cases ?ys) auto
qed

declare tokens.simps [simp del]

text \<open>The string \<open>xs\<close> with its terminator lies at \<open>p\<close>, without wrapping round.\<close>

definition string_in :: "ram \<Rightarrow> addr \<Rightarrow> byte list \<Rightarrow> bool" where
  "string_in m p xs \<longleftrightarrow> 0 \<notin> set xs \<and> unat p + length xs < 2 ^ 32 \<and>
     read_bytes m p (length xs) = xs \<and> m (p + of_nat (length xs)) = 0"

lemma string_in_nth: "string_in m p xs \<Longrightarrow> i < length xs \<Longrightarrow> m (p + of_nat i) = xs ! i \<and> xs ! i \<noteq> 0"
  unfolding string_in_def by (metis nth_mem nth_read_bytes)

lemma string_inI:
  assumes "unat p + length xs < 2 ^ 32" "\<And>i. i < length xs \<Longrightarrow> m (p + of_nat i) = xs ! i \<and> xs ! i \<noteq> 0"
    "m (p + of_nat (length xs)) = 0"
  shows "string_in m p xs"
  using assms unfolding string_in_def by (auto intro!: nth_equalityI simp: in_set_conv_nth)

lemma string_in_cstr: "string_in m p xs \<Longrightarrow> cstr (str_at m p) (length xs)"
  using string_in_nth [of m p xs] by (auto simp: cstr_def str_at_def string_in_def)

lemma string_in_drop:
  assumes "string_in m p xs" "k \<le> length xs"
  shows "string_in m (p + of_nat k) (drop k xs)"
proof (rule string_inI)
  have b: "unat p + length xs < 2 ^ 32" using assms(1) by (simp add: string_in_def)
  then have u: "unat (of_nat k :: u32) = k" using assms(2) by (intro unat_of_nat_small) simp
  then have "unat p + unat (of_nat k :: u32) < 2 ^ LENGTH(32)" using b assms(2) by simp
  then have "unat (p + of_nat k) = unat p + k" using u by (metis unat_add_lem)
  then show "unat (p + of_nat k) + length (drop k xs) < 2 ^ 32" using b assms(2) by simp
  show "\<And>i. i < length (drop k xs) \<Longrightarrow> m (p + of_nat k + of_nat i) = drop k xs ! i \<and> drop k xs ! i \<noteq> 0"
    using string_in_nth [OF assms(1)] assms(2) by (simp add: add.assoc flip: of_nat_add)
  show "m (p + of_nat k + of_nat (length (drop k xs))) = 0"
    using assms by (simp add: string_in_def add.assoc flip: of_nat_add)
qed

lemma strtok_skip_reaches:
  assumes "\<And>k. k < n \<Longrightarrow> m (p + of_nat k) \<in> set ds" "m (p + of_nat n) \<notin> set ds"
  shows "strtok_skip m ds p = Some (p + of_nat n)"
  using assms
proof (induction n arbitrary: p)
  case 0
  then show ?case by (subst strtok_skip.simps) simp
next
  case (Suc n)
  have "m (p + 1 + of_nat k) \<in> set ds" if "k < n" for k
    using Suc.prems(1) [of "Suc k"] that by (simp add: add.assoc)
  with Suc.prems(2) have "strtok_skip m ds (p + 1) = Some (p + 1 + of_nat n)"
    by (intro Suc.IH) (simp_all add: add.assoc)
  then show ?case using Suc.prems(1) [of 0] by (subst strtok_skip.simps) (simp add: add.assoc)
qed

lemma strtok_end_reaches:
  assumes "\<And>k. k < n \<Longrightarrow> m (p + of_nat k) \<notin> set ds \<and> m (p + of_nat k) \<noteq> 0"
    "m (p + of_nat n) = 0 \<or> m (p + of_nat n) \<in> set ds"
  shows "strtok_end m ds p = Some
    (if m (p + of_nat n) = 0 then (m, p + of_nat n)
     else (m(p + of_nat n := 0), p + of_nat n + 1))"
  using assms
proof (induction n arbitrary: p)
  case 0
  then show ?case by (subst strtok_end.simps) auto
next
  case (Suc n)
  have "m (p + 1 + of_nat k) \<notin> set ds \<and> m (p + 1 + of_nat k) \<noteq> 0" if "k < n" for k
    using Suc.prems(1) [of "Suc k"] that by (simp add: add.assoc)
  with Suc.prems(2) have "strtok_end m ds (p + 1) = Some
    (if m (p + 1 + of_nat n) = 0 then (m, p + 1 + of_nat n)
     else (m(p + 1 + of_nat n := 0), p + 1 + of_nat n + 1))"
    by (intro Suc.IH) (simp_all add: add.assoc)
  moreover have "p + 1 + of_nat n = p + of_nat (Suc n)" by simp
  ultimately have "strtok_end m ds (p + 1) = Some
    (if m (p + of_nat (Suc n)) = 0 then (m, p + of_nat (Suc n))
     else (m(p + of_nat (Suc n) := 0), p + of_nat (Suc n) + 1))"
    by (simp only:)
  then show ?case
    using Suc.prems(1) [of 0] by (subst strtok_end.simps) simp
qed

lemma string_in_off:
  assumes "string_in m p xs" "i \<le> length xs" "j \<le> length xs"
  shows "p + of_nat i = p + of_nat j \<longleftrightarrow> i = j"
proof -
  have "length xs < 2 ^ 32" using assms(1) by (simp add: string_in_def)
  then show ?thesis using assms(2,3) of_nat_inj_u32 [of i j] by simp
qed

lemma nth_dropWhile: "i < length (dropWhile P xs) \<Longrightarrow> dropWhile P xs ! i = xs ! (length (takeWhile P xs) + i)"
  by (metis nth_append_length_plus takeWhile_dropWhile_id)

lemma nth_takeWhile_P: "i < length (takeWhile P xs) \<Longrightarrow> P (xs ! i)"
  by (metis nth_mem set_takeWhileD takeWhile_nth)

lemma string_in_takeWhile_stop:
  assumes "string_in m p xs" "0 \<notin> set ds"
  shows "m (p + of_nat (length (takeWhile (\<lambda>c. c \<in> set ds) xs))) \<notin> set ds"
    and "m (p + of_nat (length (takeWhile (\<lambda>c. c \<notin> set ds) xs))) = 0 \<or>
         m (p + of_nat (length (takeWhile (\<lambda>c. c \<notin> set ds) xs))) \<in> set ds"
proof -
  show "m (p + of_nat (length (takeWhile (\<lambda>c. c \<in> set ds) xs))) \<notin> set ds"
  proof (cases "length (takeWhile (\<lambda>c. c \<in> set ds) xs) < length xs")
    case True
    with string_in_nth [OF assms(1) True] nth_length_takeWhile [OF True] show ?thesis by simp
  next
    case False
    then have "length (takeWhile (\<lambda>c. c \<in> set ds) xs) = length xs"
      using length_takeWhile_le [of _ xs] by (simp add: le_antisym)
    with assms show ?thesis by (simp add: string_in_def)
  qed
  show "m (p + of_nat (length (takeWhile (\<lambda>c. c \<notin> set ds) xs))) = 0 \<or>
         m (p + of_nat (length (takeWhile (\<lambda>c. c \<notin> set ds) xs))) \<in> set ds"
  proof (cases "length (takeWhile (\<lambda>c. c \<notin> set ds) xs) < length xs")
    case True
    with string_in_nth [OF assms(1) True] nth_length_takeWhile [OF True] show ?thesis by simp
  next
    case False
    then have "length (takeWhile (\<lambda>c. c \<notin> set ds) xs) = length xs"
      using length_takeWhile_le [of _ xs] by (simp add: le_antisym)
    with assms show ?thesis by (simp add: string_in_def)
  qed
qed

text \<open>What one call does to the string \<open>xs\<close> that \<open>strtok\<close> is at.\<close>

lemma strtok_step:
  assumes "string_in m d ds" "string_in m p xs" "p \<noteq> 0" "sp = p \<or> (sp = 0 \<and> str = p)"
  defines "ys \<equiv> dropWhile (\<lambda>c. c \<in> set ds) xs"
  defines "a \<equiv> length (takeWhile (\<lambda>c. c \<in> set ds) xs)"
  defines "b \<equiv> length (takeWhile (\<lambda>c. c \<notin> set ds) ys)"
  shows "strtok m sp str d =
    (if ys = [] then Some (m, 0, 0)
     else if b = length ys then Some (m, p + of_nat (a + b), p + of_nat a)
     else Some (m(p + of_nat (a + b) := 0), p + of_nat (a + b) + 1, p + of_nat a))"
proof -
  have len: "strlen (str_at m d) = Some (length ds)"
    using string_in_cstr [OF assms(1)] by (simp add: strlen_eq_iff)
  have ds: "read_bytes m d (length ds) = ds" "0 \<notin> set ds" using assms(1) by (simp_all add: string_in_def)
  have al: "a + length ys = length xs"
    unfolding a_def ys_def by (metis length_append takeWhile_dropWhile_id)
  have skip: "strtok_skip m ds p = Some (p + of_nat a)"
  proof (rule strtok_skip_reaches)
    fix k assume "k < a"
    then show "m (p + of_nat k) \<in> set ds"
      using string_in_nth [OF assms(2), of k] al nth_takeWhile_P unfolding a_def by fastforce
  qed (use string_in_takeWhile_stop(1) [OF assms(2) ds(2)] in \<open>simp add: a_def\<close>)
  have ys: "string_in m (p + of_nat a) ys"
    using string_in_drop [OF assms(2), of a] al by (simp add: ys_def a_def dropWhile_eq_drop)
  have a0: "m (p + of_nat a) = 0 \<longleftrightarrow> ys = []"
    using ys string_in_nth [OF ys, of 0] by (cases ys) (auto simp: string_in_def)
  have b0: "m (p + of_nat a + of_nat b) = 0 \<longleftrightarrow> b = length ys"
  proof -
    have "b \<le> length ys" unfolding b_def by (rule length_takeWhile_le)
    then show ?thesis using ys string_in_nth [OF ys, of b] by (cases "b = length ys") (auto simp: string_in_def)
  qed
  have tok_end: "strtok_end m ds (p + of_nat a) = Some
    (if m (p + of_nat a + of_nat b) = 0 then (m, p + of_nat a + of_nat b)
     else (m(p + of_nat a + of_nat b := 0), p + of_nat a + of_nat b + 1))"
  proof (rule strtok_end_reaches)
    fix k assume k: "k < b"
    then have "k < length ys" unfolding b_def using length_takeWhile_le [of _ ys] by (rule less_le_trans)
    then show "m (p + of_nat a + of_nat k) \<notin> set ds \<and> m (p + of_nat a + of_nat k) \<noteq> 0"
      using string_in_nth [OF ys, of k] k nth_takeWhile_P unfolding b_def by fastforce
  qed (use string_in_takeWhile_stop(2) [OF ys ds(2)] in \<open>simp add: b_def\<close>)
  have start: "(if str \<noteq> 0 \<and> sp = 0 then str else sp) = p" "\<not> (str = 0 \<and> sp = 0)"
    using assms(3,4) by auto
  show ?thesis
    unfolding strtok_def len start Let_def option.case ds(1) skip tok_end
    using start(2) by (simp only: a0 b0 if_False if_True split: if_split) (simp add: add.assoc)
qed

lemma tokens_unfold:
  "tokens ds xs = (let ys = dropWhile (\<lambda>c. c \<in> set ds) xs in
     if ys = [] then []
     else takeWhile (\<lambda>c. c \<notin> set ds) ys # tokens ds (drop (Suc (length (takeWhile (\<lambda>c. c \<notin> set ds) ys))) ys))"
  by (subst tokens.simps) (simp only: dropWhile_eq_drop drop_Suc tl_drop)

lemma string_in_frame:
  assumes "string_in m p xs" "\<And>i. i \<le> length xs \<Longrightarrow> m' (p + of_nat i) = m (p + of_nat i)"
  shows "string_in m' p xs"
  by (rule string_inI) (use assms string_in_nth [OF assms(1)] in \<open>auto simp: string_in_def\<close>)

section \<open>Properties\<close>

text \<open>C38: \<open>strncpy\<close> copies up to the terminator or the bound, writes the terminator only when it
  fits, and writes no other byte.\<close>

theorem strncpy_copies:
  assumes "region dest (nat n) \<inter> region src (nat n) = {}" "n < 2 ^ 31"
  shows "(let r = nat (strnlen (str_at m src) n); m' = strncpy m dest src n in
    (\<forall>j<r. m' (dest + of_nat j) = m (src + of_nat j)) \<and>
    (r < nat n \<longrightarrow> m' (dest + of_nat r) = 0) \<and>
    (\<forall>a. a \<notin> region dest (min (nat n) (Suc r)) \<longrightarrow> m' a = m a))"
proof -
  have "nat n \<le> 2 ^ 31" using assms(2) by simp
  then have k: "0 + nat n \<le> 2 ^ 32" by simp
  have d: "region dest (0 + nat n) \<inter> region src (0 + nat n) = {}" using assms(1) by simp
  define q where "q = strnlen_from (str_at m src) 0 (nat n)"
  note r = strncpy_loop_result [OF d k q_def]
  have "a \<noteq> dest + of_nat j" if "a \<notin> region dest (min (nat n) (Suc q))" "j < nat n" "j \<le> q" for a j
    using that by (auto simp: region_def less_Suc_eq_le)
  with r show ?thesis
    unfolding Let_def strnlen_def strncpy_def nat_int q_def [symmetric] by simp
qed

lemma strncpy_copies_witness:
  "strncpy (\<lambda>a. if a < 3 then 65 else if a = 3 then 0 else 9) 16 0 8 17 = 65"
proof -
  have d: "region (16 :: addr) (nat 8) \<inter> region 0 (nat 8) = {}"
    by code_simp
  have n: "(8 :: int) < 2 ^ 31" by simp
  let ?m = "\<lambda>a :: addr. if a < 3 then 65 else if a = 3 then 0 else 9 :: byte"
  have r: "strnlen (str_at ?m 0) 8 = 3" by code_simp
  have "\<forall>j<nat 3. strncpy ?m 16 0 8 (16 + of_nat j) = ?m (0 + of_nat j)"
    using strncpy_copies [OF d n, of ?m] unfolding r Let_def by (rule conjunct1)
  then have "strncpy ?m 16 0 8 (16 + of_nat 1) = ?m (0 + of_nat 1)" by (elim allE [of _ 1] impE) simp_all
  then show ?thesis by simp
qed

text \<open>What a call of \<open>strtok\<close> finds, leaves and writes.\<close>

lemma strtok_tokens_result:
  assumes "string_in m d ds" "string_in m p xs" "p \<noteq> 0" "sp = p \<or> (sp = 0 \<and> str = p)"
    and "region p (Suc (length xs)) \<inter> region d (Suc (length ds)) = {}"
  shows "case tokens ds xs of
      [] \<Rightarrow> strtok m sp str d = Some (m, 0, 0)
    | t # ts \<Rightarrow> \<exists>m' sp' q rest. strtok m sp str d = Some (m', sp', q) \<and>
        string_in m' q t \<and> string_in m' sp' rest \<and> tokens ds rest = ts \<and>
        string_in m' d ds \<and> sp' \<noteq> 0 \<and> region sp' (Suc (length rest)) \<subseteq> region p (Suc (length xs)) \<and>
        q \<noteq> 0 \<and> region q (Suc (length t)) \<subseteq> region p (Suc (length xs)) \<and>
        (\<forall>x. x \<notin> region p (Suc (length xs)) \<longrightarrow> m' x = m x)"
proof -
  define ys where "ys = dropWhile (\<lambda>c. c \<in> set ds) xs"
  define a where "a = length (takeWhile (\<lambda>c. c \<in> set ds) xs)"
  define b where "b = length (takeWhile (\<lambda>c. c \<notin> set ds) ys)"
  note step = strtok_step [OF assms(1-4), folded ys_def a_def, folded b_def]
  have al: "a + length ys = length xs"
    unfolding a_def ys_def by (metis length_append takeWhile_dropWhile_id)
  have bl: "b \<le> length ys" unfolding b_def by (rule length_takeWhile_le)
  have ys: "string_in m (p + of_nat a) ys"
    using string_in_drop [OF assms(2), of a] al by (simp add: ys_def a_def dropWhile_eq_drop)
  have tk: "takeWhile (\<lambda>c. c \<notin> set ds) ys = take b ys" unfolding b_def by (rule takeWhile_eq_take)
  have toks: "tokens ds xs = (if ys = [] then [] else take b ys # tokens ds (drop (Suc b) ys))"
    by (subst tokens_unfold) (simp only: Let_def ys_def [symmetric] b_def [symmetric], simp only: tk)
  show ?thesis
  proof (cases "ys = []")
    case True
    then show ?thesis using step toks by simp
  next
    case False
    have nz: "p + of_nat k \<noteq> 0" if "k \<le> length xs" for k
    proof -
      have "unat p + length xs < 2 ^ 32" using assms(2) by (simp add: string_in_def)
      moreover from this that have "unat (of_nat k :: u32) = k" by (intro unat_of_nat_small) simp
      ultimately have "unat (p + of_nat k) = unat p + k"
        using that by (subst unat_add_lem [THEN iffD1]) simp_all
      then show ?thesis using assms(3) by (metis add_is_0 unat_0 unat_eq_zero)
    qed
    define m' where "m' = (if b = length ys then m else m(p + of_nat (a + b) := 0))"
    define sp' where "sp' = p + of_nat (if b = length ys then a + b else Suc (a + b))"
    define rest where "rest = drop (Suc b) ys"
    have out: "m' (d + of_nat i) = m (d + of_nat i)" if "i \<le> length ds" for i
    proof -
      have "p + of_nat (a + b) \<in> region p (Suc (length xs))"
        by (rule region_memI) (use al bl in simp)
      moreover have "d + of_nat i \<in> region d (Suc (length ds))" by (rule region_memI) (use that in simp)
      ultimately have "d + of_nat i \<noteq> p + of_nat (a + b)" using assms(5) by (metis disjoint_iff)
      then show ?thesis by (simp add: m'_def)
    qed
    have in': "m' (p + of_nat k) = m (p + of_nat k)" if "k \<le> length xs" "k \<noteq> a + b" for k
      using string_in_off [OF assms(2) that(1), of "a + b"] al bl that(2) by (simp add: m'_def)
    have m0: "m' (p + of_nat (a + b)) = 0"
    proof (cases "b = length ys")
      case True
      then show ?thesis using ys by (simp add: m'_def string_in_def add.assoc flip: of_nat_add)
    qed (simp add: m'_def)
    have "strtok m sp str d = Some (m', sp', p + of_nat a)"
      using step False by (simp add: m'_def sp'_def add.assoc add.commute)
    moreover have "string_in m' (p + of_nat a) (take b ys)"
    proof (rule string_inI)
      show "unat (p + of_nat a) + length (take b ys) < 2 ^ 32"
        using ys bl by (simp add: string_in_def)
      show "m' (p + of_nat a + of_nat i) = take b ys ! i \<and> take b ys ! i \<noteq> 0"
        if "i < length (take b ys)" for i
        using that string_in_nth [OF ys, of i] in' [of "a + i"] al bl by (simp add: add.assoc)
      show "m' (p + of_nat a + of_nat (length (take b ys))) = 0"
        using m0 bl by (simp add: add.assoc min_def)
    qed
    moreover have "string_in m' sp' rest"
    proof (cases "b = length ys")
      case True
      have "unat (p + of_nat (a + b)) < 2 ^ 32" by simp
      then show ?thesis using True m0 unfolding sp'_def rest_def by (intro string_inI) simp_all
    next
      case neq: False
      with bl have "Suc b \<le> length ys" by simp
      from string_in_drop [OF ys this] have "string_in m sp' rest"
        using neq by (simp add: sp'_def rest_def add.assoc add.commute add.left_commute)
      then show ?thesis
      proof (rule string_in_frame)
        fix i assume "i \<le> length rest"
        then have "Suc (a + b) + i \<le> length xs" using neq bl al by (simp add: rest_def)
        then show "m' (sp' + of_nat i) = m (sp' + of_nat i)"
          using in' [of "Suc (a + b) + i"] neq by (simp add: sp'_def add.assoc)
      qed
    qed
    moreover have "region sp' (Suc (length rest)) \<subseteq> region p (Suc (length xs))"
    proof
      fix x assume "x \<in> region sp' (Suc (length rest))"
      then obtain i where i: "i \<le> length rest" "x = sp' + of_nat i"
        unfolding mem_region less_Suc_eq_le by blast
      define k where "k = (if b = length ys then a + b else Suc (a + b)) + i"
      have "k < Suc (length xs)" using i(1) al bl by (auto simp: k_def rest_def)
      moreover have "x = p + of_nat k" by (simp add: i(2) sp'_def k_def add.assoc)
      ultimately show "x \<in> region p (Suc (length xs))" by blast
    qed
    moreover have "sp' \<noteq> 0" unfolding sp'_def using nz al bl by (intro nz) auto
    moreover have "string_in m' d ds" using string_in_frame [OF assms(1)] out by blast
    moreover have "tokens ds xs = take b ys # tokens ds rest" using toks False by (simp add: rest_def)
    moreover have "p + of_nat a \<noteq> 0" using nz al by simp
    moreover have "region (p + of_nat a) (Suc (length (take b ys))) \<subseteq> region p (Suc (length xs))"
    proof
      fix x assume "x \<in> region (p + of_nat a) (Suc (length (take b ys)))"
      then obtain i where i: "i \<le> length (take b ys)" "x = p + of_nat a + of_nat i"
        unfolding mem_region less_Suc_eq_le by blast
      then have "x = p + of_nat (a + i)" "a + i < Suc (length xs)" using al by (simp_all add: add.assoc)
      then show "x \<in> region p (Suc (length xs))" by blast
    qed
    moreover have "m' x = m x" if "x \<notin> region p (Suc (length xs))" for x
    proof -
      have "p + of_nat (a + b) \<in> region p (Suc (length xs))" by (rule region_memI) (use al bl in simp)
      then show ?thesis using that by (auto simp: m'_def)
    qed
    ultimately show ?thesis by auto
  qed
qed

text \<open>C22: successive calls of \<open>strtok\<close> yield the tokens of the string: a call returns the first
  token, terminated in place, and leaves \<open>sp\<close> at a string with the remaining tokens; with no token
  left it returns null and forgets the string.\<close>

theorem strtok_tokens:
  assumes "string_in m d ds" "string_in m p xs" "p \<noteq> 0" "sp = p \<or> (sp = 0 \<and> str = p)"
    and "region p (Suc (length xs)) \<inter> region d (Suc (length ds)) = {}"
  shows "case tokens ds xs of
      [] \<Rightarrow> strtok m sp str d = Some (m, 0, 0)
    | t # ts \<Rightarrow> \<exists>m' sp' q rest. strtok m sp str d = Some (m', sp', q) \<and>
        string_in m' q t \<and> string_in m' sp' rest \<and> tokens ds rest = ts \<and>
        string_in m' d ds \<and> sp' \<noteq> 0 \<and> region sp' (Suc (length rest)) \<subseteq> region p (Suc (length xs))"
  using strtok_tokens_result [OF assms] by (cases "tokens ds xs") auto

text \<open>Splitting \<open>a/b\<close> at \<open>/\<close>.\<close>

lemma strtok_tokens_witness:
  "\<exists>m' sp' q rest. strtok (\<lambda>a. if a = 16 then 97 else if a = 17 then 47 else if a = 18 then 98
      else if a = 32 then 47 else 0) 0 16 32 = Some (m', sp', q) \<and>
    string_in m' q [97] \<and> string_in m' sp' rest \<and> tokens [47] rest = [[98]]"
proof -
  let ?m = "\<lambda>a :: addr. if a = 16 then 97 else if a = 17 then 47 else if a = 18 then 98
      else if a = 32 then 47 else 0 :: byte"
  have d: "string_in ?m 32 [47]" by (simp add: string_in_def read_bytes_def)
  have x: "string_in ?m 16 [97, 47, 98]" by (simp add: string_in_def read_bytes_def upt_rec)
  have r: "region (16 :: addr) (Suc (length [97, 47, 98 :: byte])) \<inter> region 32 (Suc (length [47 :: byte])) = {}"
    by (simp add: region_Suc)
  have t: "tokens [47 :: byte] [97, 47, 98] = [[97], [98]]" by code_simp
  show ?thesis
    using strtok_tokens [OF d x _ _ r, of 0 16] unfolding t by auto
qed

section \<open>Texts in fixed arrays\<close>

text \<open>The text of an array of \<open>n\<close> characters: up to the terminator, or all of them.\<close>

definition view_text :: "cview \<Rightarrow> nat \<Rightarrow> byte list" where
  "view_text v n = takeWhile (\<lambda>b. b \<noteq> 0) (map v [0..<n])"

definition text_at :: "ram \<Rightarrow> addr \<Rightarrow> nat \<Rightarrow> byte list" where
  "text_at m p n = takeWhile (\<lambda>b. b \<noteq> 0) (read_bytes m p n)"

lemma view_text_0 [simp]: "view_text v 0 = []"
  by (simp add: view_text_def)

lemma view_text_Suc: "view_text v (Suc n) = (if v 0 = 0 then [] else v 0 # view_text (\<lambda>i. v (Suc i)) n)"
proof -
  have "map v [0..<Suc n] = v 0 # map (\<lambda>i. v (Suc i)) [0..<n]"
    by (simp only: upt_conv_Cons [OF zero_less_Suc] list.map map_Suc_upt [symmetric] map_map) (simp add: comp_def)
  then show ?thesis by (simp add: view_text_def del: upt_Suc)
qed

lemma text_at_view: "text_at m p n = view_text (str_at m p) n"
  by (simp add: text_at_def view_text_def read_bytes_def str_at_def [abs_def])

lemma strncmp_loop_text:
  "strncmp_loop v w i n = 0 \<longleftrightarrow> view_text (\<lambda>k. v (i + k)) n = view_text (\<lambda>k. w (i + k)) n"
proof (induction v w i n rule: strncmp_loop.induct)
  case (2 v w i n)
  then show ?case by (auto simp: view_text_Suc uint_0_iff)
qed simp

lemma strncmp_text: "0 \<le> n \<Longrightarrow> strncmp v w n = 0 \<longleftrightarrow> view_text v (nat n) = view_text w (nat n)"
  by (simp add: strncmp_def strncmp_loop_text)

lemma view_text_string:
  assumes "cstr v (length xs)" "\<And>i. i < length xs \<Longrightarrow> v i = xs ! i" "length xs < n"
  shows "view_text v n = xs"
proof -
  have "map v [0..<length xs] = xs" by (rule nth_equalityI) (simp_all add: assms(2))
  moreover have "[0..<n] = [0..<length xs] @ [length xs..<n]" 
    using assms(3) by (metis le_add_diff_inverse less_imp_le_nat upt_add_eq_append zero_le)
  moreover have "[length xs..<n] = length xs # [Suc (length xs)..<n]" using assms(3) by (simp add: upt_conv_Cons)
  ultimately have "map v [0..<n] = xs @ 0 # map v [Suc (length xs)..<n]"
    using assms(1) by (simp add: cstr_def)
  moreover have "\<forall>b \<in> set xs. b \<noteq> 0"
    using assms(1,2) by (auto simp: cstr_def in_set_conv_nth)
  ultimately show ?thesis by (simp add: view_text_def)
qed

lemma text_at_string: "string_in m p xs \<Longrightarrow> length xs < n \<Longrightarrow> text_at m p n = xs"
  unfolding text_at_view
  by (rule view_text_string) (auto simp: string_in_cstr str_at_def string_in_nth)

lemma text_at_cong:
  assumes "read_bytes m p n = read_bytes m' q n" "k \<le> n"
  shows "text_at m p k = text_at m' q k"
proof -
  have "read_bytes m p k = read_bytes m' q k"
  proof (rule nth_equalityI)
    fix i assume "i < length (read_bytes m p k)"
    then show "read_bytes m p k ! i = read_bytes m' q k ! i"
      using assms by (metis length_read_bytes nth_read_bytes order_less_le_trans)
  qed simp
  then show ?thesis by (simp add: text_at_def)
qed

text \<open>\<open>istrncmp\<close> tells two texts apart unless they differ in the case of letters only.\<close>

lemma tolower_zero [simp]: "tolower b = 0 \<longleftrightarrow> b = 0"
proof -
  have "b + 32 \<noteq> 0" if "sint b \<ge> 65" "sint b \<le> 90"
  proof
    assume "b + 32 = 0"
    then have "b = - 32" by (simp only: add_eq_0_iff2)
    then have "sint b = - 32" by simp
    with that(1) show False by simp
  qed
  then show ?thesis by (auto simp: tolower_def)
qed

lemma tolower_0 [simp]: "tolower 0 = 0"
  by simp

lemma istrncmp_loop_text:
  "istrncmp_loop v w i n = 0 \<longleftrightarrow> map tolower (view_text (\<lambda>k. v (i + k)) n) = map tolower (view_text (\<lambda>k. w (i + k)) n)"
proof (induction v w i n rule: istrncmp_loop.induct)
  case (2 v w i n)
  show ?case
  proof (cases "v i = 0 \<or> w i = 0")
    case True
    then show ?thesis by (auto simp: view_text_Suc uint_0_iff dest: sym [of "tolower 0"])
  next
    case False
    then show ?thesis using 2 by (auto simp: view_text_Suc)
  qed
qed simp

lemma istrncmp_text:
  "0 \<le> n \<Longrightarrow> istrncmp v w n = 0 \<longleftrightarrow> map tolower (view_text v (nat n)) = map tolower (view_text w (nat n))"
  by (simp add: istrncmp_def istrncmp_loop_text)

end
