(* ===== verification/C_Array.thy ===== *)
theory C_Array
  imports KHeap
begin

text \<open>
  The growing array of \<open>src/memory/array.c\<close>: a structure with the element size, the number of
  elements and the address of their bytes.  An insertion copies the elements into a new block one
  element longer; the old block is not given back.
\<close>

section \<open>State and operations\<close>

record carray =
  arr_total :: u32
  e_sz :: u32
  arr_ptr :: addr

definition array_create :: "'a kmem_scheme \<Rightarrow> u32 \<Rightarrow> (addr \<times> carray \<times> 'a kmem_scheme) outcome" where
  "array_create s element_size =
     bindE (kzalloc s 12) (\<lambda>(array, s).
     if array = 0 then Inl (BadPointer 0)
     else Inr (array, \<lparr>arr_total = 0, e_sz = element_size, arr_ptr = 0\<rparr>, s))"

definition array_insert :: "'a kmem_scheme \<Rightarrow> carray \<Rightarrow> addr \<Rightarrow> (carray \<times> 'a kmem_scheme) outcome" where
  "array_insert s array elem_ptr =
     (let old_ptr = arr_ptr array in
      bindE (kzalloc s (sint (e_sz array * (arr_total array + 1)))) (\<lambda>(new_ptr, s).
      let new_last_element = new_ptr + e_sz array * arr_total array;
          m = (if old_ptr \<noteq> 0 then memcpy (km_ram s) new_ptr old_ptr (e_sz array * arr_total array)
               else km_ram s);
          m = memcpy m new_last_element elem_ptr (e_sz array)
      in Inr (array\<lparr>arr_ptr := new_ptr, arr_total := arr_total array + 1\<rparr>, s\<lparr>km_ram := m\<rparr>)))"

definition array_get_index :: "carray \<Rightarrow> int \<Rightarrow> addr" where
  "array_get_index array index = arr_ptr array + e_sz array * word_of_int index"

definition array_total :: "carray \<Rightarrow> u32" where
  "array_total array = arr_total array"

definition array_destroy :: "'a kmem_scheme \<Rightarrow> addr \<Rightarrow> carray \<Rightarrow> 'a kmem_scheme outcome" where
  "array_destroy s p array = bindE (kfree s (arr_ptr array)) (\<lambda>s. kfree s p)"

section \<open>The elements of an array\<close>

definition array_elems :: "ram \<Rightarrow> carray \<Rightarrow> byte list list" where
  "array_elems m array = map (\<lambda>i. read_bytes m (array_get_index array (int i)) (unat (e_sz array)))
     [0..<unat (arr_total array)]"

text \<open>The bytes of the elements lie in one live allocation.\<close>

definition array_ok :: "'a kmem_scheme \<Rightarrow> carray \<Rightarrow> bool" where
  "array_ok s array \<longleftrightarrow>
     (if arr_ptr array = 0 then arr_total array = 0
      else \<exists>n. (arr_ptr array, n) \<in> kmem_live s \<and> unat (e_sz array) * unat (arr_total array) \<le> n)"

lemma region_split: "region p (a + b) = region p a \<union> region (p + of_nat a) b"
proof (intro set_eqI iffI)
  fix x assume "x \<in> region p (a + b)"
  then obtain i where i: "i < a + b" "x = p + of_nat i" by (auto simp: mem_region)
  show "x \<in> region p a \<union> region (p + of_nat a) b"
  proof (cases "i < a")
    case False
    then have "x = p + of_nat a + of_nat (i - a)" "i - a < b" using i by (simp_all add: add.assoc flip: of_nat_add)
    then show ?thesis by (auto simp: mem_region)
  qed (use i in auto)
next
  fix x assume "x \<in> region p a \<union> region (p + of_nat a) b"
  then show "x \<in> region p (a + b)"
    by (auto simp: mem_region add.assoc simp flip: of_nat_add)
      (metis add_less_cancel_left trans_less_add1)+
qed

lemma region_sub: "a + b \<le> n \<Longrightarrow> region (p + of_nat a) b \<subseteq> region p n"
  using region_split [of p a b] region_mono [of "a + b" n p] by blast

lemma read_bytes_memcpy:
  assumes "region d (unat len) \<inter> region s (unat len) = {}" "a + b \<le> unat len"
  shows "read_bytes (memcpy m d s len) (d + of_nat a) b = read_bytes m (s + of_nat a) b"
proof (rule nth_equalityI)
  fix i assume "i < length (read_bytes (memcpy m d s len) (d + of_nat a) b)"
  then have "i < b" by simp
  then have "memcpy m d s len (d + of_nat (a + i)) = m (s + of_nat (a + i))"
    using assms by (intro memcpy_in) simp_all
  with \<open>i < b\<close> show "read_bytes (memcpy m d s len) (d + of_nat a) b ! i = read_bytes m (s + of_nat a) b ! i"
    by (simp add: add.assoc)
qed simp

lemma region_apart:
  assumes "a + b \<le> c" "c + d \<le> 2 ^ 32"
  shows "region (p + of_nat a) b \<inter> region (p + of_nat c) d = {}"
proof (rule ccontr)
  assume "\<not> ?thesis"
  then obtain i j where ij: "i < b" "j < d" "p + of_nat a + of_nat i = p + of_nat c + (of_nat j :: u32)"
    by (fastforce simp: region_def)
  then have "(of_nat (a + i) :: u32) = of_nat (c + j)" by (simp add: add.assoc)
  moreover have "a + i < 2 ^ 32" "c + j < 2 ^ 32" using ij(1,2) assms by linarith+
  ultimately have "a + i = c + j" using of_nat_inj_u32 by blast
  with ij(1,2) assms(1) show False by linarith
qed

lemma memcpy_read_out:
  assumes "region d (unat len) \<inter> region p n = {}"
  shows "read_bytes (memcpy m d s len) p n = read_bytes m p n"
  by (rule read_bytes_cong) (use assms in \<open>auto intro!: memcpy_out\<close>)

lemma array_sizes:
  assumes "unat (e :: u32) * (unat (t :: u32) + 1) < 2 ^ 31" "0 < unat e"
  shows "unat (e * t) = unat e * unat t" "unat (t + 1) = unat t + 1"
    "unat (e * (t + 1)) = unat e * (unat t + 1)" "sint (e * (t + 1)) = int (unat e * (unat t + 1))"
proof -
  have le: "unat t + 1 \<le> unat e * (unat t + 1)"
    using mult_le_mono1 [of 1 "unat e" "unat t + 1"] assms(2) by simp
  then have "unat t + unat (1 :: u32) < 2 ^ LENGTH(32)" using assms(1) by simp
  then show t: "unat (t + 1) = unat t + 1" by (metis unat_1 unat_add_lem)
  have "unat e * unat t < 2 ^ LENGTH(32)" using assms(1) by simp
  then show "unat (e * t) = unat e * unat t" by (metis unat_mult_lem)
  have "unat e * unat (t + 1) < 2 ^ LENGTH(32)" using assms(1) t by simp
  then show u: "unat (e * (t + 1)) = unat e * (unat t + 1)" by (metis t unat_mult_lem)
  have "uint (e * (t + 1)) = int (unat e * (unat t + 1))" by (metis u uint_nat)
  moreover have "int (unat e * (unat t + 1)) < 2147483648" using assms(1) by (simp only: of_nat_less_iff [symmetric, where ?'a = int]) simp
  ultimately show "sint (e * (t + 1)) = int (unat e * (unat t + 1))" by (simp add: sint_eq_uint_u32)
qed

lemma array_elem_address: "array_get_index array (int i) = arr_ptr array + of_nat (unat (e_sz array) * i)"
  by (simp add: array_get_index_def)

text \<open>The copies of \<open>array_insert\<close>: into \<open>n\<close> bytes of its own at \<open>p\<close> go the old elements and the new one.\<close>

definition array_copies :: "ram \<Rightarrow> addr \<Rightarrow> addr \<Rightarrow> addr \<Rightarrow> u32 \<Rightarrow> u32 \<Rightarrow> ram" where
  "array_copies m p src elem_ptr e t = memcpy (if src \<noteq> 0 then memcpy m p src (e * t) else m) (p + e * t) elem_ptr e"

lemma array_copies_new:
  assumes "unat e * (unat t + 1) \<le> n" "unat e * (unat t + 1) < 2 ^ 31" "0 < unat e"
    and "region p n \<inter> region elem_ptr (unat e) = {}"
  shows "read_bytes (array_copies m p src elem_ptr e t) (p + of_nat (unat e * unat t)) (unat e) = read_bytes m elem_ptr (unat e)"
proof -
  note w = array_sizes [OF assms(2,3)]
  define m1 where "m1 = (if src \<noteq> 0 then memcpy m p src (e * t) else m)"
  have in_n: "region p (unat (e * t)) \<subseteq> region p n" "region (p + of_nat (unat e * unat t)) (unat e) \<subseteq> region p n"
    using region_mono [of "unat e * unat t" n p] region_sub [of "unat e * unat t" "unat e" n p] assms(1)
    by (simp_all add: w(1) algebra_simps)
  have "region p (unat (e * t)) \<inter> region elem_ptr (unat e) = {}" using in_n(1) assms(4) by blast
  then have "read_bytes m1 elem_ptr (unat e) = read_bytes m elem_ptr (unat e)"
    using memcpy_read_out [of p "e * t" elem_ptr "unat e" m src] by (simp add: m1_def)
  moreover have "region (p + of_nat (unat e * unat t)) (unat e) \<inter> region elem_ptr (unat e) = {}"
    using in_n(2) assms(4) by blast
  from read_bytes_memcpy [OF this, of 0 "unat e" m1]
  have "read_bytes (memcpy m1 (p + of_nat (unat e * unat t)) elem_ptr e) (p + of_nat (unat e * unat t)) (unat e) =
      read_bytes m1 elem_ptr (unat e)" by simp
  moreover have "array_copies m p src elem_ptr e t = memcpy m1 (p + of_nat (unat e * unat t)) elem_ptr e"
    by (simp add: array_copies_def m1_def)
  ultimately show ?thesis by simp
qed

lemma array_copies_old:
  assumes "unat e * (unat t + 1) \<le> n" "unat e * (unat t + 1) < 2 ^ 31" "0 < unat e"
    and "region p n \<inter> region src (unat e * unat t) = {}" "src \<noteq> 0" "i < unat t"
  shows "read_bytes (array_copies m p src elem_ptr e t) (p + of_nat (unat e * i)) (unat e) =
    read_bytes m (src + of_nat (unat e * i)) (unat e)"
proof -
  note w = array_sizes [OF assms(2,3)]
  let ?m = "memcpy m p src (e * t)"
  have "unat e * (i + 1) \<le> unat e * unat t" using assms(6) by (intro mult_le_mono2) simp
  then have iE: "unat e * i + unat e \<le> unat e * unat t" by (simp add: algebra_simps)
  have "unat e * unat t + unat e \<le> 2 ^ 32" using assms(2) by (simp add: algebra_simps)
  then have "region (p + of_nat (unat e * unat t)) (unat e) \<inter> region (p + of_nat (unat e * i)) (unat e) = {}"
    using region_apart [OF iE, of "unat e" p] by blast
  then have "read_bytes (memcpy ?m (p + of_nat (unat e * unat t)) elem_ptr e) (p + of_nat (unat e * i)) (unat e) =
      read_bytes ?m (p + of_nat (unat e * i)) (unat e)" by (rule memcpy_read_out)
  moreover have "region p (unat (e * t)) \<inter> region src (unat (e * t)) = {}"
    using assms(4) region_mono [of "unat e * unat t" n p] assms(1) by (auto simp: w(1) algebra_simps)
  from read_bytes_memcpy [OF this, of "unat e * i" "unat e" m] iE
  have "read_bytes ?m (p + of_nat (unat e * i)) (unat e) = read_bytes m (src + of_nat (unat e * i)) (unat e)"
    by (simp only: w(1))
  ultimately show ?thesis using assms(5) by (simp add: array_copies_def)
qed

section \<open>Insertion appends\<close>

lemma array_insert_result:
  assumes "kmem_ok s" "array_ok s array" "0 < unat (e_sz array)"
    and sz: "unat (e_sz array) * (unat (arr_total array) + 1) < 2 ^ 31"
    and ins: "array_insert s array elem_ptr = Inr (array', s')" "arr_ptr array' \<noteq> 0"
    and el: "\<And>n. kmem_live s' = insert (arr_ptr array', n) (kmem_live s) \<Longrightarrow>
      \<forall>(q, k) \<in> kmem_live s. region (arr_ptr array') n \<inter> region q k = {} \<Longrightarrow>
      region (arr_ptr array') n \<inter> region elem_ptr (unat (e_sz array)) = {}"
  shows "kmem_ok s' \<and> array_ok s' array' \<and>
    array' = array\<lparr>arr_ptr := arr_ptr array', arr_total := arr_total array + 1\<rparr> \<and>
    (\<exists>n. kmem_live s' = insert (arr_ptr array', n) (kmem_live s) \<and>
      (\<forall>(q, k) \<in> kmem_live s. region (arr_ptr array') n \<inter> region q k = {}) \<and>
      (\<forall>a. a \<notin> region (arr_ptr array') n \<longrightarrow> km_ram s' a = km_ram s a)) \<and>
    kmem.more s' = kmem.more s \<and>
    array_elems (km_ram s') array' =
      array_elems (km_ram s) array @ [read_bytes (km_ram s) elem_ptr (unat (e_sz array))]"
proof -
  let ?e = "e_sz array" and ?t = "arr_total array" and ?m = "km_ram s"
  note w = array_sizes [OF sz assms(3)]
  obtain p s1 where p: "kmalloc s (sint (?e * (?t + 1))) = Inr (p, s1)"
    and a': "array' = array\<lparr>arr_ptr := p, arr_total := ?t + 1\<rparr>"
    and s': "s' = s1\<lparr>km_ram := array_copies (memset (km_ram s1) p 0 (int (unat ?e * (unat ?t + 1)))) p (arr_ptr array) elem_ptr ?e ?t\<rparr>"
    using ins(1) by (auto simp: array_insert_def array_copies_def Let_def bindE_Inr_iff kzalloc_Inr_iff w(4))
  have p0: "p \<noteq> 0" using ins(2) a' by simp
  obtain n where n: "unat ?e * (unat ?t + 1) \<le> n" "kmem_live s1 = insert (p, n) (kmem_live s)"
    "\<forall>(q, k) \<in> kmem_live s. region p n \<inter> region q k = {}"
    using kernel_memory.alloc_live [OF assms(1) p p0] w(3) by auto
  define m0 where "m0 = memset ?m p 0 (int (unat ?e * (unat ?t + 1)))"
  have s2: "km_ram s' = array_copies m0 p (arr_ptr array) elem_ptr ?e ?t"
    by (simp add: s' m0_def kmalloc_ram [OF p])
  have m0: "read_bytes m0 a i = read_bytes ?m a i" if "region p n \<inter> region a i = {}" for a i
  proof (rule read_bytes_cong)
    fix b assume "b \<in> region a i"
    then have "b \<notin> region p (nat (int (unat ?e * (unat ?t + 1))))"
      unfolding nat_int using that region_mono [OF n(1), of p] by blast
    then show "m0 b = ?m b" unfolding m0_def by (rule memset_out)
  qed
  have el': "region p n \<inter> region elem_ptr (unat ?e) = {}" using el [of n] n(2,3) by (simp add: a' s')
  have last: "read_bytes (km_ram s') (p + of_nat (unat ?e * unat ?t)) (unat ?e) = read_bytes ?m elem_ptr (unat ?e)"
    unfolding s2 array_copies_new [OF n(1) sz assms(3) el'] by (rule m0 [OF el'])
  have kept: "read_bytes (km_ram s') (p + of_nat (unat ?e * i)) (unat ?e) = read_bytes ?m (arr_ptr array + of_nat (unat ?e * i)) (unat ?e)"
    if i: "i < unat ?t" for i
  proof -
    have a0: "arr_ptr array \<noteq> 0" using assms(2) i by (auto simp: array_ok_def)
    then obtain l where l: "(arr_ptr array, l) \<in> kmem_live s" "unat ?e * unat ?t \<le> l"
      using assms(2) by (auto simp: array_ok_def)
    have d: "region p n \<inter> region (arr_ptr array) (unat ?e * unat ?t) = {}"
      using n(3) l region_mono [OF l(2), of "arr_ptr array"] by blast
    have "unat ?e * (i + 1) \<le> unat ?e * unat ?t" using i by (intro mult_le_mono2) simp
    then have "region (arr_ptr array + of_nat (unat ?e * i)) (unat ?e) \<subseteq> region (arr_ptr array) (unat ?e * unat ?t)"
      by (intro region_sub) (simp add: algebra_simps)
    then show ?thesis
      unfolding s2 array_copies_old [OF n(1) sz assms(3) d a0 i] using d by (intro m0) blast
  qed
  have "array_elems (km_ram s') array' = map (\<lambda>i. read_bytes (km_ram s') (p + of_nat (unat ?e * i)) (unat ?e)) [0..<unat ?t + 1]"
    unfolding array_elems_def array_elem_address a' by (simp add: w(2))
  also have "\<dots> = array_elems ?m array @ [read_bytes ?m elem_ptr (unat ?e)]"
    unfolding array_elems_def array_elem_address using last kept by simp
  finally have "array_elems (km_ram s') array' = array_elems ?m array @ [read_bytes ?m elem_ptr (unat ?e)]" .
  moreover have "array_ok s' array'" using p0 n(1,2) w(2) by (auto simp: array_ok_def a' s')
  moreover have "kmem_ok s'" using kmem_ok_kmalloc [OF assms(1) p] by (simp add: s')
  moreover have "km_ram s' a = ?m a" if "a \<notin> region p n" for a
  proof -
    have "region (p + ?e * ?t) (unat ?e) \<subseteq> region p n"
      using region_sub [of "unat ?e * unat ?t" "unat ?e" n p] n(1) by (simp add: algebra_simps)
    moreover have "region p (unat (?e * ?t)) \<subseteq> region p n"
      using region_mono [of "unat ?e * unat ?t" n p] n(1) by (simp add: w(1))
    moreover have "region p (nat (int (unat ?e * (unat ?t + 1)))) \<subseteq> region p n"
      unfolding nat_int by (rule region_mono [OF n(1)])
    ultimately have "a \<notin> region (p + ?e * ?t) (unat ?e)" "a \<notin> region p (unat (?e * ?t))"
      "a \<notin> region p (nat (int (unat ?e * (unat ?t + 1))))" using that by blast+
    then show ?thesis unfolding s2 array_copies_def m0_def by (simp add: memcpy_out memset_out)
  qed
  moreover have "kmem.more s' = kmem.more s" using kmalloc_ram [OF p] by (simp add: s')
  moreover have "kmem_live s' = insert (p, n) (kmem_live s)" using n(2) by (simp add: s')
  moreover have "arr_ptr array' = p" "array' = array\<lparr>arr_ptr := p, arr_total := ?t + 1\<rparr>" by (simp_all add: a')
  ultimately show ?thesis using n(3) by blast
qed

text \<open>\<open>array_insert\<close> appends: afterwards the array has the elements it had, in their order and
  with their bytes, and the bytes at \<open>elem_ptr\<close> as one element more, in one live block.\<close>

theorem array_insert_appends:
  assumes "kmem_ok s" "array_ok s array" "0 < unat (e_sz array)"
    and "unat (e_sz array) * (unat (arr_total array) + 1) < 2 ^ 31"
    and "array_insert s array elem_ptr = Inr (array', s')" "arr_ptr array' \<noteq> 0"
    and "(q, k) \<in> kmem_live s" "region elem_ptr (unat (e_sz array)) \<subseteq> region q k"
  shows "kmem_ok s' \<and> array_ok s' array' \<and>
    array_elems (km_ram s') array' =
      array_elems (km_ram s) array @ [read_bytes (km_ram s) elem_ptr (unat (e_sz array))]"
proof -
  have "region (arr_ptr array') n \<inter> region elem_ptr (unat (e_sz array)) = {}"
    if "\<forall>(q, k) \<in> kmem_live s. region (arr_ptr array') n \<inter> region q k = {}" for n
    using that assms(7,8) by blast
  from array_insert_result [OF assms(1-6) this] show ?thesis by simp
qed

lemma array_insert_appends_witness:
  "\<exists>array' s'. array_insert \<lparr>km_heap = take_blocks demo_heap 0 1, km_ram = (\<lambda>a. 7)\<rparr>
      \<lparr>arr_total = 0, e_sz = 4, arr_ptr = 0\<rparr> 0x1000000 = Inr (array', s') \<and>
    array_elems (km_ram s') array' = [[7, 7, 7, 7]]"
proof -
  let ?s = "\<lparr>km_heap = take_blocks demo_heap 0 1, km_ram = (\<lambda>a. 7)\<rparr>"
  let ?a = "\<lparr>arr_total = 0, e_sz = 4, arr_ptr = 0\<rparr>"
  have "heap_malloc demo_heap 5 = Inr (0x1000000, take_blocks demo_heap 0 1)" by code_simp
  then have m: "kmalloc demo_kmem (sint (5 :: u32)) = Inr (0x1000000, ?s)"
    by (simp add: kmalloc_Inr_iff demo_kmem_def)
  have ok: "kmem_ok ?s" by (rule kernel_memory.alloc_ok [OF demo_kmem_ok m])
  obtain n where n: "5 \<le> n" "(0x1000000, n) \<in> kmem_live ?s"
    using kernel_memory.alloc_live [OF demo_kmem_ok m] by auto
  have "heap_malloc (take_blocks demo_heap 0 1) 4 = Inr (0x1001000, take_blocks demo_heap 0 1\<lparr>h_table :=
      \<lparr>ht_entries = [0x41, 0x41, 0], ht_total = 3\<rparr>\<rparr>)" by code_simp
  then have "\<exists>a' s'. array_insert ?s ?a 0x1000000 = Inr (a', s') \<and> arr_ptr a' = 0x1001000"
    by (simp add: array_insert_def kzalloc_def kmalloc_def)
  then obtain a' s' where r: "array_insert ?s ?a 0x1000000 = Inr (a', s')" "arr_ptr a' \<noteq> 0" by auto
  have "region (0x1000000 :: addr) (unat (e_sz ?a)) \<subseteq> region 0x1000000 n"
    using n(1) by (intro region_mono) simp
  moreover have "array_ok ?s ?a" "0 < unat (e_sz ?a)"
    "unat (e_sz ?a) * (unat (arr_total ?a) + 1) < 2 ^ 31"
    by (simp_all add: array_ok_def)
  ultimately have "array_elems (km_ram s') a' =
      array_elems (km_ram ?s) ?a @ [read_bytes (km_ram ?s) 0x1000000 (unat (e_sz ?a))]"
    using array_insert_appends [OF ok _ _ _ r n(2)] by blast
  also have "\<dots> = [[7, 7, 7, 7]]" by (simp add: array_elems_def read_bytes_def upt_rec)
  finally show ?thesis using r(1) by blast
qed

end
