(* ===== verification/Heap_Room.thy ===== *)
theory Heap_Room
  imports KHeap "HOL-Library.Multiset"
begin

text \<open>
  What a client that makes many requests of at most a page relies on: as long as a block is free the
  request is met, by a block of the allocator's arena that no live allocation covers, and a block
  given back can be had again.  The locale \<open>block_allocator\<close> states it over an allocator with
  a count of free blocks (\<open>room\<close>) and a window of addresses (\<open>arena\<close>); the block heap and
  the kernel heap are its interpretations.
\<close>

section \<open>The contract\<close>

text \<open>The addresses of a window that no live allocation covers.\<close>

definition spare_in :: "('h \<Rightarrow> addr set) \<Rightarrow> ('h \<Rightarrow> (addr \<times> nat) set) \<Rightarrow> 'h \<Rightarrow> addr set" where
  "spare_in arena live h = arena h - (\<Union>(p, n) \<in> live h. region p n)"

locale block_allocator = allocator ok live alloc release
  for ok :: "'h \<Rightarrow> bool" and live :: "'h \<Rightarrow> (addr \<times> nat) set"
    and alloc :: "'h \<Rightarrow> u32 \<Rightarrow> (addr \<times> 'h) outcome" and release :: "'h \<Rightarrow> addr \<Rightarrow> 'h outcome" +
  fixes room :: "'h \<Rightarrow> nat" and arena :: "'h \<Rightarrow> addr set"
  assumes alloc_one: "ok h \<Longrightarrow> 0 < room h \<Longrightarrow> 0 < unat sz \<Longrightarrow> unat sz \<le> 4096 \<Longrightarrow>
      \<exists>p h'. alloc h sz = Inr (p, h') \<and> p \<noteq> 0 \<and> Suc (room h') = room h \<and>
        live h' = insert (p, 4096) (live h)"
    and alloc_arena: "ok h \<Longrightarrow> alloc h sz = Inr (p, h') \<Longrightarrow> arena h' = arena h"
    and live_arena: "ok h \<Longrightarrow> (p, n) \<in> live h \<Longrightarrow> region p n \<subseteq> arena h"
    and live_no_wrap: "ok h \<Longrightarrow> (p, n) \<in> live h \<Longrightarrow> unat p + n < 2 ^ 32"
    and release_one: "ok h \<Longrightarrow> (p, 4096) \<in> live h \<Longrightarrow> release h p = Inr h' \<Longrightarrow>
      room h' = Suc (room h) \<and> arena h' = arena h"
begin

lemma live_not_spare: "(p, n) \<in> live h \<Longrightarrow> region p n \<inter> spare_in arena live h = {}"
  by (auto simp: spare_in_def)

lemma alloc_block:
  assumes "ok h" "0 < room h" "0 < unat sz" "unat sz \<le> 4096"
  shows "\<exists>p h'. alloc h sz = Inr (p, h') \<and> p \<noteq> 0 \<and> ok h' \<and> Suc (room h') = room h \<and>
    live h' = insert (p, 4096) (live h) \<and> (p, 4096) \<notin> live h \<and>
    region p 4096 \<subseteq> spare_in arena live h \<and> spare_in arena live h' = spare_in arena live h - region p 4096"
proof -
  obtain p h' where a: "alloc h sz = Inr (p, h')" "p \<noteq> 0" "Suc (room h') = room h"
    "live h' = insert (p, 4096) (live h)"
    using alloc_one [OF assms] by blast
  have ok: "ok h'" by (rule alloc_ok [OF assms(1) a(1)])
  have new: "(p, 4096) \<notin> live h" by (rule live_not_fresh [OF assms(1) a(1,2)])
  have sp: "spare_in arena live h' = spare_in arena live h - region p 4096"
    using alloc_arena [OF assms(1) a(1)] by (auto simp: spare_in_def a(4))
  have "region p 4096 \<subseteq> arena h"
    using live_arena [OF ok, of p 4096] alloc_arena [OF assms(1) a(1)] a(4) by simp
  moreover have "region p 4096 \<inter> region q k = {}" if "(q, k) \<in> live h" for q k
    by (rule live_disjoint [OF ok]) (use that new a(4) in auto)
  ultimately have "region p 4096 \<subseteq> spare_in arena live h" by (fastforce simp: spare_in_def)
  with a ok new sp show ?thesis by blast
qed

lemma release_block:
  assumes "ok h" "(p, 4096) \<in> live h"
  shows "\<exists>h'. release h p = Inr h' \<and> ok h' \<and> room h' = Suc (room h) \<and>
    live h' = live h - {(p, 4096)} \<and> spare_in arena live h' = spare_in arena live h \<union> region p 4096"
proof -
  obtain h' where r: "release h p = Inr h'" "ok h'" "live h' = live h - {(p, 4096)}"
    using release_live [OF assms] by blast
  have o: "room h' = Suc (room h)" "arena h' = arena h"
    using release_one [OF assms r(1)] by simp_all
  have "region p 4096 \<subseteq> arena h" by (rule live_arena [OF assms])
  moreover have "region p 4096 \<inter> region q k = {}" if "(q, k) \<in> live h" "(q, k) \<noteq> (p, 4096)" for q k
    using live_disjoint [OF assms that(1)] that(2) by auto
  ultimately have "spare_in arena live h' = spare_in arena live h \<union> region p 4096"
    by (fastforce simp: spare_in_def o(2) r(3))
  with r o show ?thesis by blast
qed

end

section \<open>The block heap provides it\<close>

lemma heap_live_no_wrap:
  assumes "heap_wf h" "(p, n) \<in> heap_live h"
  shows "unat p + n < 2 ^ 32"
proof -
  obtain j k where jk: "j + k \<le> length (ht_entries (h_table h))" "p = heap_block_to_address h (int j)"
    "n = 4096 * k"
    by (rule heap_live_cases [OF assms]) blast
  have "unat p = unat (h_saddr h) + 4096 * j"
    unfolding jk(2) by (rule unat_block_address [OF assms(1)]) (use jk(1) in simp)
  then show ?thesis using heap_wf_bounds(1) [OF assms(1) jk(1)] jk(3) by simp
qed

lemma release_blocks_count:
  assumes "heap_wf h" "(j, k) \<in> live_blocks (ht_entries (h_table h))"
  shows "free_count (release_blocks h j k) = free_count h + k"
    and "heap_arena (release_blocks h j k) = heap_arena h"
proof -
  from assms obtain t n u where tu: "ht_entries (h_table h) = table_of (t @ Taken n # u)"
    "length (table_of t) = j" and k: "k = Suc n"
    by (rule live_block_segs)
  have "drop (j + k) (ht_entries (h_table h)) = table_of u" "take j (ht_entries (h_table h)) = table_of t"
    using tu k by simp_all
  then have e: "ht_entries (h_table (release_blocks h j k)) = table_of t @ replicate k 0 @ table_of u"
    by (simp add: release_blocks_def)
  have "filter (\<lambda>e. heap_table_entry_type e = 0) (seg_entries (Taken n)) = []"
    by (simp add: filter_empty_conv taken_entry_type)
  then show "free_count (release_blocks h j k) = free_count h + k"
    unfolding free_count_def e tu(1) by simp
  have "length (ht_entries (h_table (release_blocks h j k))) = length (ht_entries (h_table h))"
    unfolding e tu(1) using k by simp
  then show "heap_arena (release_blocks h j k) = heap_arena h"
    by (simp add: heap_arena_def) (simp add: release_blocks_def)
qed

interpretation kheap_blocks: block_allocator heap_wf heap_live heap_malloc heap_free free_count heap_arena
proof (unfold_locales, goal_cases)
  case (1 h sz)
  have n: "blocks_for sz = 1"
    unfolding blocks_for_def by (rule div_nat_eqI) (use 1(3,4) in simp_all)
  obtain p h' where m: "heap_malloc h sz = Inr (p, h')" "p \<noteq> 0" "free_count h' = free_count h - 1"
    using one_block_request [OF 1] by blast
  from 1(1) m(1) show ?case
  proof (cases rule: heap_malloc_inversion)
    case (taken j)
    then have "heap_live h' = insert (p, 4096) (heap_live h)"
      using heap_live_take [OF 1(1), of 1 j] by (simp add: n first_fit_def)
    with m 1(2) show ?thesis by auto
  qed (use m in simp)
next
  case (2 h sz p h')
  then show ?case by (rule heap_malloc_arena)
next
  case (3 h p n)
  then show ?case by (rule heap_live_arena)
next
  case (4 h p n)
  then show ?case by (rule heap_live_no_wrap)
next
  case (5 h p h')
  obtain j k where jk: "(j, k) \<in> live_blocks (ht_entries (h_table h))" "p = heap_block_to_address h (int j)"
    "4096 = 4096 * k"
    by (rule heap_live_cases [OF 5(1,2)]) blast
  then have "h' = release_blocks h j k" using 5(3) heap_free_live [OF 5(1) jk(1)] by simp
  with release_blocks_count [OF 5(1) jk(1)] jk(3) show ?case by simp
qed

section \<open>The kernel heap provides it\<close>

definition kmem_room :: "'a kmem_scheme \<Rightarrow> nat" where
  "kmem_room s = free_count (km_heap s)"

definition kmem_arena :: "'a kmem_scheme \<Rightarrow> addr set" where
  "kmem_arena s = heap_arena (km_heap s)"

definition kmem_spare :: "'a kmem_scheme \<Rightarrow> addr set" where
  "kmem_spare = spare_in kmem_arena kmem_live"

interpretation kernel_blocks: block_allocator kmem_ok kmem_live "\<lambda>s sz. kmalloc s (sint sz)" kfree
    kmem_room kmem_arena
proof (unfold_locales, goal_cases)
  case (1 s sz)
  then obtain p h where "heap_malloc (km_heap s) sz = Inr (p, h)" "p \<noteq> 0" "Suc (free_count h) = kmem_room s"
    "heap_live h = insert (p, 4096) (kmem_live s)"
    using kheap_blocks.alloc_one [of "km_heap s" sz] by (auto simp: kmem_ok_def kmem_room_def kmem_live_def)
  then show ?case
    by (intro exI [of _ p] exI [of _ "s\<lparr>km_heap := h\<rparr>"])
      (simp add: kmalloc_def kmem_room_def kmem_live_def)
next
  case (2 s sz p s')
  then show ?case
    using heap_malloc_arena by (fastforce simp: kmalloc_Inr_iff kmem_ok_def kmem_arena_def)
next
  case (3 s p n)
  then show ?case by (simp add: heap_live_arena kmem_ok_def kmem_live_def kmem_arena_def)
next
  case (4 s p n)
  then show ?case unfolding kmem_ok_def kmem_live_def by (rule heap_live_no_wrap)
next
  case (5 s p s')
  then have "p \<noteq> 0" using kernel_memory.live_pos by blast
  with 5 obtain h where h: "heap_free (km_heap s) p = Inr h" "s' = s\<lparr>km_heap := h\<rparr>"
    by (auto simp: kfree_Inr_iff)
  with kheap_blocks.release_one [of "km_heap s" p h] 5 show ?case
    by (simp add: kmem_ok_def kmem_live_def kmem_room_def kmem_arena_def)
qed

lemma kmem_spare_ram [simp]:
  "kmem_spare (s\<lparr>km_ram := f\<rparr>) = kmem_spare s" "kmem_room (s\<lparr>km_ram := f\<rparr>) = kmem_room s"
  by (simp_all add: kmem_spare_def spare_in_def kmem_room_def kmem_arena_def kmem_live_def)

text \<open>What one call of \<open>kzalloc\<close> for at most a page does, and one \<open>kfree\<close> of such a block.\<close>

lemma kzalloc_block:
  assumes "kmem_ok s" "0 < kmem_room s" "0 < sz" "sz \<le> 4096"
  obtains p s' where "kzalloc s sz = Inr (p, s')" "p \<noteq> 0" "kmem_ok s'" "Suc (kmem_room s') = kmem_room s"
    "kmem_live s' = insert (p, 4096) (kmem_live s)" "(p, 4096) \<notin> kmem_live s"
    "region p 4096 \<subseteq> kmem_spare s" "kmem_spare s' = kmem_spare s - region p 4096"
    "km_ram s' = memset (km_ram s) p 0 sz" "kmem.more s' = kmem.more s"
proof -
  define w :: u32 where "w = word_of_int sz"
  have w: "sint w = sz" "0 < unat w" "unat w \<le> 4096"
    using assms(3,4) by (simp_all add: w_def sint_word_of_int_u32 unat_eq_nat_uint uint_word_of_int_u32)
  obtain p t where t: "kmalloc s sz = Inr (p, t)" "p \<noteq> 0" "kmem_ok t" "Suc (kmem_room t) = kmem_room s"
    "kmem_live t = insert (p, 4096) (kmem_live s)" "(p, 4096) \<notin> kmem_live s"
    "region p 4096 \<subseteq> kmem_spare s" "kmem_spare t = kmem_spare s - region p 4096"
    using kernel_blocks.alloc_block [OF assms(1,2) w(2,3)] by (auto simp: w(1) kmem_spare_def)
  have m: "km_ram t = km_ram s" "kmem.more t = kmem.more s" by (rule kmalloc_ram [OF t(1)])+
  let ?s' = "t\<lparr>km_ram := memset (km_ram t) p 0 sz\<rparr>"
  have "kzalloc s sz = Inr (p, ?s')" using t(1) by (auto simp: kzalloc_Inr_iff)
  then show ?thesis by (rule that) (use t m in simp_all)
qed

lemma kfree_block:
  assumes "kmem_ok s" "(p, 4096) \<in> kmem_live s"
  obtains s' where "kfree s p = Inr s'" "kmem_ok s'" "kmem_room s' = Suc (kmem_room s)"
    "kmem_live s' = kmem_live s - {(p, 4096)}" "kmem_spare s' = kmem_spare s \<union> region p 4096"
    "km_ram s' = km_ram s" "kmem.more s' = kmem.more s"
  using kernel_blocks.release_block [OF assms] kfree_ram [of s p] that by (auto simp: kmem_spare_def)

lemma kmem_live_not_spare: "(p, n) \<in> kmem_live s \<Longrightarrow> region p n \<inter> kmem_spare s = {}"
  unfolding kmem_spare_def by (rule kernel_blocks.live_not_spare)

text \<open>States that differ in the heap and the memory only.\<close>

lemma kmem_more_frame:
  assumes "kmem.more s' = kmem.more s"
  obtains h m where "s' = s\<lparr>km_heap := h, km_ram := m\<rparr>"
proof -
  have "s' = s\<lparr>km_heap := km_heap s', km_ram := km_ram s'\<rparr>"
    using assms by (cases s, cases s') (simp only: kmem.select_convs kmem.update_convs kmem.simps)
  then show ?thesis by (rule that)
qed

lemma kmem_heap_frame:
  assumes "kmem.more s' = kmem.more s" "km_ram s' = km_ram s"
  shows "s' = s\<lparr>km_heap := km_heap s'\<rparr>"
  using assms by (cases s, cases s') (simp only: kmem.select_convs kmem.update_convs kmem.simps)

section \<open>Sequences of requests\<close>

text \<open>
  \<open>takes s bs s'\<close>: between \<open>s\<close> and \<open>s'\<close> the blocks \<open>bs\<close> were handed out, and the
  memory changed only where no allocation of \<open>s\<close> lies.
\<close>

definition takes :: "'a kmem_scheme \<Rightarrow> addr list \<Rightarrow> 'b kmem_scheme \<Rightarrow> bool" where
  "takes s bs s' \<longleftrightarrow> kmem_ok s' \<and> distinct bs \<and> kmem_room s' + length bs = kmem_room s \<and>
     kmem_live s' = (\<lambda>b. (b, 4096)) ` set bs \<union> kmem_live s \<and>
     (\<forall>b \<in> set bs. b \<noteq> 0 \<and> (b, 4096) \<notin> kmem_live s \<and> region b 4096 \<subseteq> kmem_spare s) \<and>
     kmem_spare s' = kmem_spare s - (\<Union>b \<in> set bs. region b 4096) \<and>
     (\<forall>a. a \<notin> kmem_spare s \<longrightarrow> km_ram s' a = km_ram s a)"

lemma takes_refl: "kmem_ok s \<Longrightarrow> takes s [] s"
  by (simp add: takes_def)

lemma takes_trans:
  assumes "takes s bs s'" "takes s' cs s''"
  shows "takes s (bs @ cs) s''"
proof -
  have sub: "kmem_spare s' \<subseteq> kmem_spare s" using assms(1) by (auto simp: takes_def)
  have "set bs \<inter> set cs = {}" using assms by (auto simp: takes_def)
  moreover have "km_ram s'' a = km_ram s a" if "a \<notin> kmem_spare s" for a
    using that sub assms by (auto simp: takes_def)
  moreover have "kmem_spare s'' = kmem_spare s - (\<Union>b \<in> set (bs @ cs). region b 4096)"
    using assms by (auto simp: takes_def)
  moreover have "region b 4096 \<subseteq> kmem_spare s" if "b \<in> set (bs @ cs)" for b
    using that sub assms by (fastforce simp: takes_def)
  ultimately show ?thesis using assms by (auto simp: takes_def)
qed

lemma takes_ok: "takes s bs s' \<Longrightarrow> kmem_ok s'"
  by (simp add: takes_def)

lemma takes_room: "takes s bs s' \<Longrightarrow> kmem_room s = kmem_room s' + length bs"
  by (simp add: takes_def)

lemma takes_live: "takes s bs s' \<Longrightarrow> kmem_live s' = (\<lambda>b. (b, 4096)) ` set bs \<union> kmem_live s"
  by (simp add: takes_def)

lemma takes_spare: "takes s bs s' \<Longrightarrow> kmem_spare s' \<subseteq> kmem_spare s"
  by (auto simp: takes_def)

lemma takes_ram: "takes s bs s' \<Longrightarrow> a \<notin> kmem_spare s \<Longrightarrow> km_ram s' a = km_ram s a"
  by (simp add: takes_def)

lemma takes_nonnull: "takes s bs s' \<Longrightarrow> b \<in> set bs \<Longrightarrow> b \<noteq> 0"
  by (simp add: takes_def)

lemma takes_new: "takes s bs s' \<Longrightarrow> b \<in> set bs \<Longrightarrow> (b, 4096) \<notin> kmem_live s"
  by (simp add: takes_def)

lemma takes_region: "takes s bs s' \<Longrightarrow> b \<in> set bs \<Longrightarrow> region b 4096 \<subseteq> kmem_spare s"
  by (simp add: takes_def)

lemma takes_perm:
  assumes "takes s bs s'" "mset bs = mset cs"
  shows "takes s cs s'"
  using assms(1) mset_eq_setD [OF assms(2)] mset_eq_length [OF assms(2)]
    mset_eq_imp_distinct_iff [OF assms(2)]
  unfolding takes_def by simp

lemma takes_heap_cong:
  "km_heap t' = km_heap s' \<Longrightarrow> km_ram t' = km_ram s' \<Longrightarrow> takes s bs t' \<longleftrightarrow> takes s bs s'"
  by (simp add: takes_def kmem_ok_def kmem_room_def kmem_live_def kmem_spare_def spare_in_def kmem_arena_def)

text \<open>Memory that was in use keeps its bytes; so does a block handed out before.\<close>

lemma takes_keeps_live:
  assumes "takes s bs s'" "(p, n) \<in> kmem_live s" "a \<in> region p n"
  shows "km_ram s' a = km_ram s a"
  by (rule takes_ram [OF assms(1)]) (use kmem_live_not_spare [OF assms(2)] assms(3) in blast)

lemma takes_kzalloc:
  assumes "kmem_ok s" "0 < kmem_room s" "0 < sz" "sz \<le> 4096"
  obtains p s' where "kzalloc s sz = Inr (p, s')" "takes s [p] s'" "kmem.more s' = kmem.more s"
    "km_ram s' = memset (km_ram s) p 0 sz"
proof -
  obtain p s' where p: "kzalloc s sz = Inr (p, s')" "p \<noteq> 0" "kmem_ok s'" "Suc (kmem_room s') = kmem_room s"
    "kmem_live s' = insert (p, 4096) (kmem_live s)" "(p, 4096) \<notin> kmem_live s"
    "region p 4096 \<subseteq> kmem_spare s" "kmem_spare s' = kmem_spare s - region p 4096"
    "km_ram s' = memset (km_ram s) p 0 sz" "kmem.more s' = kmem.more s"
    by (rule kzalloc_block [OF assms])
  have "region p (nat sz) \<subseteq> region p 4096" by (rule region_mono) (use assms(4) in simp)
  then have "km_ram s' a = km_ram s a" if "a \<notin> kmem_spare s" for a
    unfolding p(9) by (rule memset_out [OF contra_subsetD]) (use that p(7) in blast)
  then have "takes s [p] s'" using p by (simp add: takes_def)
  then show ?thesis by (rule that [OF p(1) _ p(10,9)])
qed

text \<open>Stores into the blocks just handed out.\<close>

lemma takes_store:
  assumes "takes s bs s'" "\<And>a. \<forall>b \<in> set bs. a \<notin> region b 4096 \<Longrightarrow> m a = km_ram s' a"
  shows "takes s bs (s'\<lparr>km_ram := m\<rparr>)"
proof -
  have "m a = km_ram s a" if "a \<notin> kmem_spare s" for a
  proof -
    have "\<forall>b \<in> set bs. a \<notin> region b 4096" using takes_region [OF assms(1)] that by blast
    then have "m a = km_ram s' a" by (rule assms(2))
    then show ?thesis by (simp only: takes_ram [OF assms(1) that])
  qed
  with assms(1) show ?thesis by (simp add: takes_def)
qed

lemma takes_kfree:
  assumes "takes s (p # bs) s'"
  obtains s'' where "kfree s' p = Inr s''" "takes s bs s''" "km_ram s'' = km_ram s'" "kmem.more s'' = kmem.more s'"
proof -
  have l: "(p, 4096) \<in> kmem_live s'" using takes_live [OF assms] by simp
  obtain s'' where f: "kfree s' p = Inr s''" "kmem_ok s''" "kmem_room s'' = Suc (kmem_room s')"
    "kmem_live s'' = kmem_live s' - {(p, 4096)}" "kmem_spare s'' = kmem_spare s' \<union> region p 4096"
    "km_ram s'' = km_ram s'" "kmem.more s'' = kmem.more s'"
    by (rule kfree_block [OF takes_ok [OF assms] l])
  have d: "region p 4096 \<inter> region b 4096 = {}" if "b \<in> set bs" for b
  proof (rule kernel_memory.live_disjoint [OF takes_ok [OF assms] l])
    show "(b, 4096) \<in> kmem_live s'" using that takes_live [OF assms] by simp
    show "(p, 4096) \<noteq> (b, 4096 :: nat)" using that assms unfolding takes_def by auto
  qed
  have "kmem_spare s'' = kmem_spare s - (\<Union>b \<in> set bs. region b 4096)"
  proof -
    have "kmem_spare s' = kmem_spare s - (\<Union>b \<in> set (p # bs). region b 4096)"
      using assms unfolding takes_def by blast
    moreover have "region p 4096 \<subseteq> kmem_spare s" using takes_region [OF assms] by simp
    ultimately show ?thesis using d unfolding f(5) by fastforce
  qed
  moreover have "kmem_live s'' = (\<lambda>b. (b, 4096)) ` set bs \<union> kmem_live s"
  proof -
    have "p \<notin> set bs" "(p, 4096) \<notin> kmem_live s" using assms unfolding takes_def by simp_all
    then show ?thesis unfolding f(4) takes_live [OF assms] by auto
  qed
  ultimately have "takes s bs s''" using assms f(2,3,6) by (simp add: takes_def)
  with f that show ?thesis by blast
qed

end
