(* ===== verification/Path_Parser.thy ===== *)
theory Path_Parser
  imports Disk C_String C_Array Heap_Room
begin

text \<open>
  \<open>src/fs/pparser.c\<close>: a path such as \<open>0:/bin/shell\<close> becomes a root with the drive number
  and a linked list of parts.  Roots and parts are objects of typed stores, the strings of the parts
  are bytes of memory.  The lemmas follow one part, then the loop over the parts, then the whole path: the
  list that is built spells the path's words, its blocks are exactly the heap's loss, and
  \<open>pathparser_free\<close> gives them back.
\<close>

section \<open>State and operations\<close>

record path_root =
  pr_drive_no :: int
  pr_first :: addr

record path_part =
  pp_part :: addr
  pp_next :: addr

record pathmem = dmem +
  path_roots :: "addr \<Rightarrow> path_root option"
  path_parts :: "addr \<Rightarrow> path_part option"

definition path_valid_format :: "ram \<Rightarrow> addr \<Rightarrow> bool" where
  "path_valid_format m filename =
     (let len = strnlen (str_at m filename) (int COS32_MAX_PATH) in
      (len \<ge> 3 \<and> isdigit (m filename)) \<and>
      memcmp (str_at m (filename + 1)) (\<lambda>i. [0x3A, 0x2F] ! i) 2 = 0)"

text \<open>The drive or the error, and the repositioned path.\<close>

definition path_get_drive_by_path :: "ram \<Rightarrow> addr \<Rightarrow> int \<times> addr" where
  "path_get_drive_by_path m path =
     (if \<not> path_valid_format m path then (- EBADPATH, path)
      else (tonumericdigit (m path), path + 3))"

definition pathparser_create_root :: "'a pathmem_scheme \<Rightarrow> int \<Rightarrow> (addr \<times> 'a pathmem_scheme) outcome" where
  "pathparser_create_root s drive_number =
     bindE (kzalloc s 8) (\<lambda>(path_r, s).
     if path_r = 0 then Inl (BadPointer 0)
     else Inr (path_r, s\<lparr>path_roots := (path_roots s)(path_r \<mapsto> \<lparr>pr_drive_no = drive_number, pr_first = 0\<rparr>)\<rparr>))"

partial_function (option) path_part_loop :: "ram \<Rightarrow> addr \<Rightarrow> nat \<Rightarrow> addr \<Rightarrow> (ram \<times> nat \<times> addr) option" where
  "path_part_loop m result_path_part i path =
     (if m path \<noteq> 0x2F \<and> m path \<noteq> 0
      then path_part_loop (m(result_path_part + of_nat i := m path)) result_path_part (Suc i) (path + 1)
      else Some (m, i, path))"

text \<open>The part's string (null for an empty one), the path after it and the state.\<close>

definition pathparser_get_path_part ::
  "'a pathmem_scheme \<Rightarrow> addr \<Rightarrow> (addr \<times> addr \<times> 'a pathmem_scheme) outcome" where
  "pathparser_get_path_part s path =
     bindE (kzalloc s (int COS32_MAX_PATH)) (\<lambda>(result_path_part, s).
     bindE (returns (path_part_loop (km_ram s) result_path_part 0 path)) (\<lambda>(m, i, path).
     let s = s\<lparr>km_ram := m\<rparr>;
         path = (if m path = 0x2F then path + 1 else path)
     in if i = 0 then bindE (kfree s result_path_part) (\<lambda>s. Inr (0, path, s))
        else Inr (result_path_part, path, s)))"

definition pathparser_parse_path_part ::
  "'a pathmem_scheme \<Rightarrow> addr \<Rightarrow> addr \<Rightarrow> (addr \<times> addr \<times> 'a pathmem_scheme) outcome" where
  "pathparser_parse_path_part s last_part path =
     bindE (pathparser_get_path_part s path) (\<lambda>(path_part_str, path, s).
     if path_part_str = 0 then Inr (0, path, s)
     else
       bindE (kzalloc s 8) (\<lambda>(part, s).
       if part = 0 then Inl (BadPointer 0)
       else
         let s = s\<lparr>path_parts := (path_parts s)(part \<mapsto> \<lparr>pp_part = path_part_str, pp_next = 0\<rparr>)\<rparr> in
         if last_part \<noteq> 0
         then bindE (deref (path_parts s) last_part) (\<lambda>lst.
           Inr (part, path, s\<lparr>path_parts := (path_parts s)(last_part \<mapsto> lst\<lparr>pp_next := part\<rparr>)\<rparr>))
         else Inr (part, path, s)))"

partial_function (option) parse_parts_loop ::
  "'a pathmem_scheme \<Rightarrow> addr \<Rightarrow> addr \<Rightarrow> 'a pathmem_scheme outcome option" where
  "parse_parts_loop s part path =
     (if part = 0 then Some (Inr s)
      else case pathparser_parse_path_part s part path of
        Inl e \<Rightarrow> Some (Inl e)
      | Inr (part', path', s') \<Rightarrow> parse_parts_loop s' part' path')"

definition pathparser_parse :: "'a pathmem_scheme \<Rightarrow> addr \<Rightarrow> (addr \<times> 'a pathmem_scheme) outcome" where
  "pathparser_parse s path =
     bindE (returns (strlen (str_at (km_ram s) path))) (\<lambda>len.
     if len \<ge> COS32_MAX_PATH then Inr (0, s)
     else
       let (res, tmp_path) = path_get_drive_by_path (km_ram s) path in
       if res < 0 then Inr (0, s)
       else
         bindE (pathparser_create_root s res) (\<lambda>(path_root, s).
         bindE (pathparser_parse_path_part s 0 tmp_path) (\<lambda>(first_part, tmp_path, s).
         bindE (if first_part \<noteq> 0
                then bindE (deref (path_roots s) path_root) (\<lambda>r.
                  Inr (s\<lparr>path_roots := (path_roots s)(path_root \<mapsto> r\<lparr>pr_first := first_part\<rparr>)\<rparr>))
                else Inr s) (\<lambda>s.
         bindE (pathparser_parse_path_part s first_part tmp_path) (\<lambda>(part, tmp_path, s).
         bindE (ran (parse_parts_loop s part tmp_path)) (\<lambda>s.
         Inr (path_root, s)))))))"

partial_function (option) free_parts_loop :: "'a pathmem_scheme \<Rightarrow> addr \<Rightarrow> 'a pathmem_scheme outcome option" where
  "free_parts_loop s part =
     (if part = 0 then Some (Inr s)
      else case deref (path_parts s) part of
        Inl e \<Rightarrow> Some (Inl e)
      | Inr p \<Rightarrow>
        (case bindE (kfree s (pp_part p)) (\<lambda>s. kfree s part) of
           Inl e \<Rightarrow> Some (Inl e)
         | Inr s' \<Rightarrow> free_parts_loop s' (pp_next p)))"

definition pathparser_free :: "'a pathmem_scheme \<Rightarrow> addr \<Rightarrow> 'a pathmem_scheme outcome" where
  "pathparser_free s root =
     bindE (deref (path_roots s) root) (\<lambda>r.
     bindE (ran (free_parts_loop s (pr_first r))) (\<lambda>s. kfree s root))"

section \<open>What the parser builds\<close>

text \<open>The parts of a path after its drive: the runs between slashes, up to the first empty one.\<close>

function path_words :: "byte list \<Rightarrow> byte list list" where
  "path_words [] = []"
| "path_words (x # xs) =
     (if x = 0x2F then []
      else (x # takeWhile (\<lambda>c. c \<noteq> 0x2F) xs) # path_words (drop 1 (dropWhile (\<lambda>c. c \<noteq> 0x2F) xs)))"
  by pat_completeness auto

termination
proof (relation "measure length")
  fix x :: byte and xs :: "byte list"
  have "length (dropWhile (\<lambda>c. c \<noteq> 0x2F) xs) \<le> length xs" by (rule length_dropWhile_le)
  then show "(drop 1 (dropWhile (\<lambda>c. c \<noteq> 0x2F) xs), x # xs) \<in> measure length" by simp
qed simp

text \<open>The list of parts from \<open>p\<close> on spells the words \<open>ws\<close>, and the blocks it is made of.\<close>

fun path_chain :: "'a pathmem_scheme \<Rightarrow> addr \<Rightarrow> byte list list \<Rightarrow> bool" where
  "path_chain s p [] \<longleftrightarrow> p = 0"
| "path_chain s p (w # ws) \<longleftrightarrow> p \<noteq> 0 \<and>
     (case path_parts s p of None \<Rightarrow> False
      | Some part \<Rightarrow> string_in (km_ram s) (pp_part part) w \<and> path_chain s (pp_next part) ws)"

fun chain_blocks :: "'a pathmem_scheme \<Rightarrow> addr \<Rightarrow> byte list list \<Rightarrow> addr list" where
  "chain_blocks s p [] = []"
| "chain_blocks s p (w # ws) =
     (case path_parts s p of None \<Rightarrow> []
      | Some part \<Rightarrow> pp_part part # p # chain_blocks s (pp_next part) ws)"

lemma takes_path_stores [simp]:
  "takes s bs (s'\<lparr>path_parts := f\<rparr>) = takes s bs s'" "takes s bs (s'\<lparr>path_roots := g\<rparr>) = takes s bs s'"
  "takes (s'\<lparr>path_parts := f\<rparr>) bs s = takes s' bs s" "takes (s'\<lparr>path_roots := g\<rparr>) bs s = takes s' bs s"
  by (simp_all add: takes_def kmem_ok_def kmem_room_def kmem_live_def kmem_spare_def spare_in_def kmem_arena_def)

lemma path_stores_heap [simp]:
  "kmem_ok (s\<lparr>path_parts := f\<rparr>) = kmem_ok s" "kmem_ok (s\<lparr>path_roots := g\<rparr>) = kmem_ok s"
  "kmem_live (s\<lparr>path_parts := f\<rparr>) = kmem_live s" "kmem_live (s\<lparr>path_roots := g\<rparr>) = kmem_live s"
  "kmem_room (s\<lparr>path_parts := f\<rparr>) = kmem_room s" "kmem_room (s\<lparr>path_roots := g\<rparr>) = kmem_room s"
  "kmem_spare (s\<lparr>path_parts := f\<rparr>) = kmem_spare s" "kmem_spare (s\<lparr>path_roots := g\<rparr>) = kmem_spare s"
  by (simp_all add: kmem_ok_def kmem_room_def kmem_live_def kmem_spare_def spare_in_def kmem_arena_def)

lemma path_stores_more:
  assumes "kmem.more s' = kmem.more (s :: 'a pathmem_scheme)"
  shows "path_parts s' = path_parts s" "path_roots s' = path_roots s"
  using assms by (cases s; cases s'; simp)+

section \<open>One part\<close>

lemma write_bytes_Cons: "write_bytes m p (x # w) = write_bytes (m(p := x)) (p + 1) w"
  using write_bytes_append [of m p "[x]" w] by (simp add: write_bytes_def)

lemma string_in_Cons:
  assumes "string_in m p (x # xs)"
  shows "m p = x" "x \<noteq> 0" "string_in m (p + 1) xs"
  using string_in_nth [OF assms, of 0] string_in_drop [OF assms, of 1] by simp_all

lemma region_Cons: "region p (Suc n) = insert p (region (p + 1) n)"
  using region_split [of p 1 n] region_Suc [of p 0] by simp

lemma path_part_loop_copies:
  assumes "string_in m path xs" "region (dst + of_nat i) (length xs) \<inter> region path (Suc (length xs)) = {}"
  shows "path_part_loop m dst i path =
    (let w = takeWhile (\<lambda>c. c \<noteq> 0x2F) xs
     in Some (write_bytes m (dst + of_nat i) w, i + length w, path + of_nat (length w)))"
  using assms
proof (induction xs arbitrary: m i path)
  case Nil
  then have "m path = 0" by (simp add: string_in_def)
  then show ?case by (subst path_part_loop.simps) (simp add: write_bytes_def)
next
  case (Cons x xs)
  note s = string_in_Cons [OF Cons.prems(1)]
  show ?case
  proof (cases "x = 0x2F")
    case True
    then show ?thesis using s by (subst path_part_loop.simps) (simp add: write_bytes_def)
  next
    case False
    let ?m = "m(dst + of_nat i := m path)"
    have n: "dst + of_nat (Suc i) = dst + of_nat i + 1" by simp
    have "dst + of_nat i \<notin> region (path + 1) (Suc (length xs))"
      using Cons.prems(2) by (auto simp: region_Cons)
    then have t: "string_in ?m (path + 1) xs"
      by (intro string_in_frame [OF s(3)]) (metis fun_upd_other less_Suc_eq_le region_memI)
    have d: "region (dst + of_nat (Suc i)) (length xs) \<inter> region (path + 1) (Suc (length xs)) = {}"
      using Cons.prems(2) unfolding n by (auto simp: region_Cons)
    have r: "path_part_loop m dst i path = path_part_loop ?m dst (Suc i) (path + 1)"
      using False s(1,2) by (subst path_part_loop.simps) simp
    have w: "takeWhile (\<lambda>c. c \<noteq> 0x2F) (x # xs) = x # takeWhile (\<lambda>c. c \<noteq> 0x2F) xs"
      using False by simp
    show ?thesis
      unfolding r Cons.IH [OF t d] unfolding w Let_def write_bytes_Cons n s(1) by (simp add: ac_simps)
  qed
qed

text \<open>After a part the path stands behind the slash that ended it, or at its end.\<close>

definition rest_of :: "byte list \<Rightarrow> byte list" where
  "rest_of xs = drop 1 (dropWhile (\<lambda>c. c \<noteq> 0x2F) xs)"

abbreviation part_of :: "byte list \<Rightarrow> byte list" where
  "part_of xs \<equiv> takeWhile (\<lambda>c. c \<noteq> 0x2F) xs"

lemma path_words_unfold:
  "path_words xs = (if part_of xs = [] then [] else part_of xs # path_words (rest_of xs))"
  by (cases xs) (simp_all add: rest_of_def)

lemma length_part_rest:
  "length (part_of xs) + length (rest_of xs) \<le> length xs"
  "rest_of xs \<noteq> [] \<Longrightarrow> Suc (length (part_of xs) + length (rest_of xs)) = length xs"
proof -
  have "length xs = length (part_of xs) + length (dropWhile (\<lambda>c. c \<noteq> 0x2F) xs)"
    by (metis length_append takeWhile_dropWhile_id)
  then show "length (part_of xs) + length (rest_of xs) \<le> length xs"
    "rest_of xs \<noteq> [] \<Longrightarrow> Suc (length (part_of xs) + length (rest_of xs)) = length xs"
    by (auto simp: rest_of_def)
qed

definition after_part :: "ram \<Rightarrow> addr \<Rightarrow> byte list \<Rightarrow> addr" where
  "after_part m path xs =
     (let p = path + of_nat (length (part_of xs)) in if m p = 0x2F then p + 1 else p)"

lemma after_part_string:
  assumes "string_in m path xs"
  shows "string_in m (after_part m path xs) (rest_of xs)"
    and "region (after_part m path xs) (Suc (length (rest_of xs))) \<subseteq> region path (Suc (length xs))"
proof -
  let ?n = "length (part_of xs)" and ?d = "dropWhile (\<lambda>c. c \<noteq> 0x2F) xs"
  have le: "?n \<le> length xs" by (rule length_takeWhile_le)
  have dr: "drop ?n xs = ?d" by (rule dropWhile_eq_drop [symmetric])
  have sd: "string_in m (path + of_nat ?n) ?d" using string_in_drop [OF assms le] by (simp only: dr)
  have len: "length xs = ?n + length ?d" by (metis length_append takeWhile_dropWhile_id)
  show "string_in m (after_part m path xs) (rest_of xs)"
  proof (cases ?d)
    case Nil
    have "m (path + of_nat ?n) = 0" using sd unfolding Nil by (simp add: string_in_def)
    with sd [unfolded Nil] show ?thesis by (simp add: after_part_def rest_of_def Nil)
  next
    case (Cons x d)
    then have "x = 0x2F" using hd_dropWhile [of "\<lambda>c. c \<noteq> 0x2F" xs] by simp
    with string_in_Cons [OF sd [unfolded Cons]] Cons show ?thesis
      by (simp add: after_part_def rest_of_def Let_def)
  qed
  show "region (after_part m path xs) (Suc (length (rest_of xs))) \<subseteq> region path (Suc (length xs))"
  proof (cases ?d)
    case Nil
    have "after_part m path xs = path + of_nat ?n"
      using sd unfolding Nil by (simp add: after_part_def string_in_def)
    moreover have "rest_of xs = []" by (simp add: rest_of_def Nil)
    ultimately show ?thesis using len Nil by (simp only:) (rule region_sub, simp)
  next
    case (Cons x d)
    then have "x = 0x2F" using hd_dropWhile [of "\<lambda>c. c \<noteq> 0x2F" xs] by simp
    with string_in_Cons [OF sd [unfolded Cons]]
    have a: "after_part m path xs = path + of_nat (Suc ?n)" by (simp add: after_part_def Let_def ac_simps)
    show ?thesis unfolding a by (rule region_sub) (use Cons len in \<open>simp add: rest_of_def\<close>)
  qed
qed

text \<open>A string that no later request can overwrite.\<close>

definition path_at :: "'a kmem_scheme \<Rightarrow> addr \<Rightarrow> byte list \<Rightarrow> bool" where
  "path_at s path xs \<longleftrightarrow> string_in (km_ram s) path xs \<and> length xs < COS32_MAX_PATH \<and>
     region path (Suc (length xs)) \<inter> kmem_spare s = {}"

lemma path_at_frame:
  assumes "path_at s path xs" "kmem_spare s' \<subseteq> kmem_spare s" "\<And>a. a \<notin> kmem_spare s \<Longrightarrow> km_ram s' a = km_ram s a"
  shows "path_at s' path xs"
proof -
  have "string_in (km_ram s') path xs"
  proof (rule string_in_frame)
    show "string_in (km_ram s) path xs" using assms(1) by (simp add: path_at_def)
    fix i assume "i \<le> length xs"
    then have "path + of_nat i \<in> region path (Suc (length xs))" by (intro region_memI) simp
    then have "path + of_nat i \<notin> kmem_spare s" using assms(1) by (auto simp: path_at_def)
    then show "km_ram s' (path + of_nat i) = km_ram s (path + of_nat i)" by (rule assms(3))
  qed
  with assms(1,2) show ?thesis by (auto simp: path_at_def)
qed

lemma path_at_takes: "path_at s path xs \<Longrightarrow> takes s bs s' \<Longrightarrow> path_at s' path xs"
  by (erule path_at_frame) (simp_all add: takes_spare takes_ram)

lemma path_at_rest:
  assumes "path_at s path xs"
  shows "path_at s (after_part (km_ram s) path xs) (rest_of xs)"
proof -
  have s: "string_in (km_ram s) path xs" using assms by (simp add: path_at_def)
  note a = after_part_string [OF s]
  show ?thesis using a length_part_rest(1) [of xs] assms by (auto simp: path_at_def)
qed

lemma path_at_heap_cong:
  "km_heap t = km_heap s \<Longrightarrow> km_ram t = km_ram s \<Longrightarrow> path_at t path xs = path_at s path xs"
  by (simp add: path_at_def kmem_spare_def spare_in_def kmem_arena_def kmem_live_def)

lemma get_path_part:
  assumes "kmem_ok s" "0 < kmem_room s" "path_at s path xs"
  obtains (none) s' where "part_of xs = []" "takes s [] s'" "kmem.more s' = kmem.more s"
      "pathparser_get_path_part s path = Inr (0, after_part (km_ram s') path xs, s')"
  | (part) q s' where "part_of xs \<noteq> []" "takes s [q] s'" "kmem.more s' = kmem.more s"
      "string_in (km_ram s') q (part_of xs)"
      "pathparser_get_path_part s path = Inr (q, after_part (km_ram s') path xs, s')"
proof -
  obtain q s1 where q: "kzalloc s 108 = Inr (q, s1)" "takes s [q] s1" "kmem.more s1 = kmem.more s"
    "km_ram s1 = memset (km_ram s) q 0 108"
    by (rule takes_kzalloc [OF assms(1,2), of 108]) simp_all
  have p: "path_at s1 path xs" by (rule path_at_takes [OF assms(3) q(2)])
  let ?w = "part_of xs"
  have lw: "length ?w \<le> length xs" by (rule length_takeWhile_le)
  have lx: "length xs < 108" using assms(3) by (simp add: path_at_def)
  have sub: "region q (length xs) \<subseteq> region q 4096" by (rule region_mono) (use lx in simp)
  have "region q 4096 \<subseteq> kmem_spare s" by (rule takes_region [OF q(2)]) simp
  then have "region (q + of_nat 0) (length xs) \<inter> region path (Suc (length xs)) = {}"
    using assms(3) sub by (auto simp: path_at_def)
  then have l: "path_part_loop (km_ram s1) q 0 path =
      Some (write_bytes (km_ram s1) q ?w, length ?w, path + of_nat (length ?w))"
    using path_part_loop_copies [of "km_ram s1" path xs q 0] p by (simp add: path_at_def Let_def)
  define s2 where "s2 = s1\<lparr>km_ram := write_bytes (km_ram s1) q ?w\<rparr>"
  have t2: "takes s [q] s2"
    unfolding s2_def
  proof (rule takes_store [OF q(2)])
    fix a assume "\<forall>b \<in> set [q]. a \<notin> region b 4096"
    then have "a \<notin> region q (length ?w)" using region_mono [of "length ?w" 4096 q] lw lx by auto
    then show "write_bytes (km_ram s1) q ?w a = km_ram s1 a" by (rule write_bytes_out)
  qed
  have m2: "kmem.more s2 = kmem.more s" by (simp add: s2_def q(3))
  have r: "pathparser_get_path_part s path =
      (if length ?w = 0 then bindE (kfree s2 q) (\<lambda>s. Inr (0, after_part (km_ram s2) path xs, s))
       else Inr (q, after_part (km_ram s2) path xs, s2))"
    unfolding pathparser_get_path_part_def
    by (simp add: q(1) l returns_def s2_def after_part_def Let_def)
  show ?thesis
  proof (cases "?w = []")
    case True
    obtain s3 where s3: "kfree s2 q = Inr s3" "takes s [] s3" "km_ram s3 = km_ram s2" "kmem.more s3 = kmem.more s2"
      by (rule takes_kfree [OF t2])
    show ?thesis by (rule none [OF True s3(2)]) (use s3 m2 r True in simp_all)
  next
    case False
    have "string_in (km_ram s2) q ?w"
    proof (rule string_inI)
      have mx: "set ?w \<subseteq> set xs" using set_takeWhileD by fast
      have z: "0 \<notin> set xs" using assms(3) by (simp add: path_at_def string_in_def)
      show "km_ram s2 (q + of_nat i) = ?w ! i \<and> ?w ! i \<noteq> 0" if "i < length ?w" for i
      proof -
        have "?w ! i \<noteq> 0" using nth_mem [OF that] mx z by auto
        moreover have "length ?w \<le> 2 ^ 32" using lw lx by simp
        ultimately show ?thesis using write_bytes_in [OF _ that] by (simp add: s2_def)
      qed
      have "q + of_nat (length ?w) \<notin> region q (length ?w)"
        using lw lx by (auto simp: mem_region of_nat_inj_u32)
      moreover have "q + of_nat (length ?w) \<in> region q (nat 108)" by (rule region_memI) (use lw lx in simp)
      ultimately show "km_ram s2 (q + of_nat (length ?w)) = 0"
        by (simp add: s2_def write_bytes_out q(4) memset_in)
      show "unat q + length ?w < 2 ^ 32"
        using kernel_blocks.live_no_wrap [OF takes_ok [OF t2], of q 4096] takes_live [OF t2] lw lx by simp
    qed
    then show ?thesis by (rule part [OF False t2 m2]) (use r False in simp)
  qed
qed

text \<open>The parser touches the heap, the memory and its two stores, and nothing else of the machine.\<close>

definition path_only :: "'a pathmem_scheme \<Rightarrow> 'a pathmem_scheme \<Rightarrow> bool" where
  "path_only s s' \<longleftrightarrow> s' = s\<lparr>km_heap := km_heap s', km_ram := km_ram s',
     path_roots := path_roots s', path_parts := path_parts s'\<rparr>"

lemma path_only_more: "kmem.more s' = kmem.more s \<Longrightarrow> path_only s s'"
  by (cases s; cases s'; simp add: path_only_def)

lemma path_only_trans: "path_only s s' \<Longrightarrow> path_only s' s'' \<Longrightarrow> path_only s s''"
  by (cases s; cases s'; cases s''; simp add: path_only_def)

lemma path_only_stores [simp]:
  "path_only s (s'\<lparr>path_parts := f\<rparr>) = path_only s s'" "path_only s (s'\<lparr>path_roots := g\<rparr>) = path_only s s'"
  by (cases s; cases s'; simp add: path_only_def)+

lemma string_in_block:
  assumes "takes s bs s'" "(q, 4096) \<in> kmem_live s" "string_in (km_ram s) q w" "length w < 4096"
  shows "string_in (km_ram s') q w"
proof (rule string_in_frame [OF assms(3)])
  fix i assume "i \<le> length w"
  then have "i < 4096" using assms(4) by simp
  then show "km_ram s' (q + of_nat i) = km_ram s (q + of_nat i)"
    by (intro takes_keeps_live [OF assms(1,2)] region_memI)
qed

lemma path_at_part_length: "path_at s path xs \<Longrightarrow> length (part_of xs) < 4096"
  using length_takeWhile_le [of "\<lambda>c. c \<noteq> 0x2F" xs] by (simp add: path_at_def)

lemma parse_path_part:
  assumes "kmem_ok s" "0 < kmem_room s" "part_of xs \<noteq> [] \<Longrightarrow> 2 \<le> kmem_room s" "path_at s path xs"
    and lst: "lst \<noteq> 0 \<Longrightarrow> (lst, 4096) \<in> kmem_live s \<and> path_parts s lst = Some \<lparr>pp_part = lq, pp_next = 0\<rparr>"
  obtains (none) s' where "part_of xs = []" "takes s [] s'" "kmem.more s' = kmem.more s"
      "pathparser_parse_path_part s lst path = Inr (0, after_part (km_ram s') path xs, s')"
  | (part) p q s' where "part_of xs \<noteq> []" "takes s [q, p] s'" "path_only s s'"
      "string_in (km_ram s') q (part_of xs)" "path_roots s' = path_roots s"
      "path_parts s' = (if lst = 0 then path_parts s else (path_parts s)(lst \<mapsto> \<lparr>pp_part = lq, pp_next = p\<rparr>))
         (p \<mapsto> \<lparr>pp_part = q, pp_next = 0\<rparr>)"
      "pathparser_parse_path_part s lst path = Inr (p, after_part (km_ram s') path xs, s')"
proof -
  show ?thesis
  proof (rule get_path_part [OF assms(1,2,4)])
    fix s' assume "part_of xs = []" "takes s [] s'" "kmem.more s' = kmem.more s"
      "pathparser_get_path_part s path = Inr (0, after_part (km_ram s') path xs, s')"
    then show ?thesis by (intro none) (simp_all add: pathparser_parse_path_part_def)
  next
    fix q s1 assume w: "part_of xs \<noteq> []" and t1: "takes s [q] s1" and m1: "kmem.more s1 = kmem.more s"
      and str: "string_in (km_ram s1) q (part_of xs)"
      and g: "pathparser_get_path_part s path = Inr (q, after_part (km_ram s1) path xs, s1)"
    have "0 < kmem_room s1" using takes_room [OF t1] assms(3) [OF w] by simp
    then obtain p s2 where p: "kzalloc s1 8 = Inr (p, s2)" "takes s1 [p] s2" "kmem.more s2 = kmem.more s1"
      by (rule takes_kzalloc [OF takes_ok [OF t1], of 8]) simp_all
    have t2: "takes s [q, p] s2" using takes_trans [OF t1 p(2)] by simp
    have nz: "q \<noteq> 0" "p \<noteq> 0" using takes_nonnull [OF t2] by simp_all
    have ne: "lst \<noteq> p" if "lst \<noteq> 0" using takes_new [OF t2, of p] lst [OF that] by auto
    have st: "path_parts s2 = path_parts s" "path_roots s2 = path_roots s"
      using path_stores_more [of s2 s] p(3) m1 by simp_all
    define f where "f = (if lst = 0 then path_parts s else (path_parts s)(lst \<mapsto> \<lparr>pp_part = lq, pp_next = p\<rparr>))
         (p \<mapsto> \<lparr>pp_part = q, pp_next = 0\<rparr>)"
    have after: "after_part (km_ram s1) path xs = after_part (km_ram s2) path xs"
    proof -
      have pa: "path_at s1 path xs" by (rule path_at_takes [OF assms(4) t1])
      have "path + of_nat (length (part_of xs)) \<in> region path (Suc (length xs))"
        by (rule region_memI) (simp add: length_takeWhile_le le_imp_less_Suc)
      then have "path + of_nat (length (part_of xs)) \<notin> kmem_spare s1" using pa by (auto simp: path_at_def)
      from takes_ram [OF p(2) this] show ?thesis by (simp add: after_part_def Let_def)
    qed
    have r: "pathparser_parse_path_part s lst path = Inr (p, after_part (km_ram s2) path xs, s2\<lparr>path_parts := f\<rparr>)"
    proof (cases "lst = 0")
      case True
      then show ?thesis
        unfolding pathparser_parse_path_part_def by (simp add: g nz p(1) f_def st after)
    next
      case False
      have d: "deref ((path_parts s)(p \<mapsto> \<lparr>pp_part = q, pp_next = 0\<rparr>)) lst = Inr \<lparr>pp_part = lq, pp_next = 0\<rparr>"
        using ne lst False by simp
      then show ?thesis
        unfolding pathparser_parse_path_part_def
        using False ne by (simp add: d g nz p(1) f_def st after Let_def fun_upd_twist)
    qed
    have "(q, 4096) \<in> kmem_live s1" using takes_live [OF t1] by simp
    then have "string_in (km_ram s2) q (part_of xs)"
      by (rule string_in_block [OF p(2) _ str path_at_part_length [OF assms(4)]])
    then show ?thesis
      by (intro part [of q p "s2\<lparr>path_parts := f\<rparr>"])
        (use w t2 st r m1 p(3) in \<open>simp_all add: f_def path_only_more\<close>)
  qed
qed

section \<open>The whole list\<close>


lemma parse_parts_loop_null: "parse_parts_loop s 0 path = Some (Inr s)"
  by (subst parse_parts_loop.simps) simp

lemma parse_parts_loop_chain:
  assumes "kmem_ok s" "part \<noteq> 0" "(part, 4096) \<in> kmem_live s"
    "path_parts s part = Some \<lparr>pp_part = q, pp_next = 0\<rparr>" "path_at s path xs"
    "0 < kmem_room s" "xs \<noteq> [] \<Longrightarrow> length xs + 2 \<le> kmem_room s"
  shows "\<exists>nx s'. parse_parts_loop s part path = Some (Inr s') \<and>
    path_parts s' part = Some \<lparr>pp_part = q, pp_next = nx\<rparr> \<and>
    path_chain s' nx (path_words xs) \<and> takes s (chain_blocks s' nx (path_words xs)) s' \<and>
    path_only s s' \<and> path_roots s' = path_roots s \<and>
    (\<forall>a. a \<noteq> part \<longrightarrow> (a, 4096) \<in> kmem_live s \<longrightarrow> path_parts s' a = path_parts s a)"
  using assms
proof (induction "length xs" arbitrary: s part q path xs rule: less_induct)
  case less
  show ?case
  proof (rule parse_path_part [OF less.prems(1,6) _ less.prems(5), of part q])
    show "2 \<le> kmem_room s" if "part_of xs \<noteq> []" using less.prems(7) that by fastforce
  next
    show "(part, 4096) \<in> kmem_live s \<and> path_parts s part = Some \<lparr>pp_part = q, pp_next = 0\<rparr>"
      using less.prems by simp
  next
    fix s' assume w: "part_of xs = []" and t: "takes s [] s'" and m: "kmem.more s' = kmem.more s"
      and p: "pathparser_parse_path_part s part path = Inr (0, after_part (km_ram s') path xs, s')"
    have e: "parse_parts_loop s part path = Some (Inr s')"
      using less.prems(2) p by (subst parse_parts_loop.simps) (simp add: parse_parts_loop_null)
    have "path_words xs = []" using w by (subst path_words_unfold) simp
    with e t path_stores_more [OF m] less.prems(4) path_only_more [OF m] show ?thesis
      by (intro exI [of _ 0] exI [of _ s']) simp
  next
    fix p q2 s1
    assume w: "part_of xs \<noteq> []" and t: "takes s [q2, p] s1" and po: "path_only s s1"
      and str: "string_in (km_ram s1) q2 (part_of xs)" and rt: "path_roots s1 = path_roots s"
      and pts: "path_parts s1 = (if part = 0 then path_parts s
          else (path_parts s)(part \<mapsto> \<lparr>pp_part = q, pp_next = p\<rparr>))(p \<mapsto> \<lparr>pp_part = q2, pp_next = 0\<rparr>)"
      and p: "pathparser_parse_path_part s part path = Inr (p, after_part (km_ram s1) path xs, s1)"
    have nz: "p \<noteq> 0" using takes_nonnull [OF t] by simp
    have lv: "(p, 4096) \<in> kmem_live s1" "(q2, 4096) \<in> kmem_live s1" using takes_live [OF t] by simp_all
    have ne: "(a, 4096) \<in> kmem_live s \<Longrightarrow> a \<noteq> p" for a using takes_new [OF t, of p] by auto
    have pp: "path_parts s1 p = Some \<lparr>pp_part = q2, pp_next = 0\<rparr>" by (simp add: pts)
    have part1: "path_parts s1 part = Some \<lparr>pp_part = q, pp_next = p\<rparr>"
      using ne [OF less.prems(3)] less.prems(2) by (simp add: pts)
    have at: "path_at s1 (after_part (km_ram s1) path xs) (rest_of xs)"
      by (rule path_at_rest [OF path_at_takes [OF less.prems(5) t]])
    have lw: "0 < length (part_of xs)" using w by simp
    have len: "length (rest_of xs) < length xs" using length_part_rest(1) [of xs] lw by linarith
    have "xs \<noteq> []" using len by auto
    then have big: "length xs \<le> kmem_room s1" using takes_room [OF t] less.prems(7) by simp
    have rm: "0 < kmem_room s1" "rest_of xs \<noteq> [] \<Longrightarrow> length (rest_of xs) + 2 \<le> kmem_room s1"
      using big len lw length_part_rest(2) [of xs] by linarith+
    obtain nx s' where ih: "parse_parts_loop s1 p (after_part (km_ram s1) path xs) = Some (Inr s')"
      "path_parts s' p = Some \<lparr>pp_part = q2, pp_next = nx\<rparr>"
      "path_chain s' nx (path_words (rest_of xs))" "takes s1 (chain_blocks s' nx (path_words (rest_of xs))) s'"
      "path_only s1 s'" "path_roots s' = path_roots s1"
      "\<forall>a. a \<noteq> p \<longrightarrow> (a, 4096) \<in> kmem_live s1 \<longrightarrow> path_parts s' a = path_parts s1 a"
      using less.hyps [OF len takes_ok [OF t] nz lv(1) pp at rm] by blast
    have e: "parse_parts_loop s part path = Some (Inr s')"
      using less.prems(2) p ih(1) by (subst parse_parts_loop.simps) simp
    have "string_in (km_ram s') q2 (part_of xs)"
      by (rule string_in_block [OF ih(4) lv(2) str path_at_part_length [OF less.prems(5)]])
    moreover have ws: "path_words xs = part_of xs # path_words (rest_of xs)"
      using w by (subst path_words_unfold) simp
    ultimately have ch: "path_chain s' p (path_words xs)" using nz ih(2,3) by simp
    have tk: "takes s (chain_blocks s' p (path_words xs)) s'"
      using takes_trans [OF t ih(4)] ih(2) by (simp add: ws)
    have other: "path_parts s' a = path_parts s a" if "a \<noteq> part" "(a, 4096) \<in> kmem_live s" for a
    proof -
      have "(a, 4096) \<in> kmem_live s1" using that(2) takes_live [OF t] by simp
      then have "path_parts s' a = path_parts s1 a" using ih(7) ne [OF that(2)] by simp
      then show ?thesis using that(1) ne [OF that(2)] by (simp add: pts)
    qed
    have "path_parts s' part = Some \<lparr>pp_part = q, pp_next = p\<rparr>"
      using ih(7) ne [OF less.prems(3)] less.prems(3) takes_live [OF t] part1 by simp
    with e ch tk other path_only_trans [OF po ih(5)] ih(6) rt show ?thesis
      by (intro exI [of _ p] exI [of _ s']) simp
  qed
qed

section \<open>A whole path\<close>

lemma path_drive:
  assumes "path_at s path ([d, 0x3A, 0x2F] @ xs)" "isdigit d"
  shows "path_get_drive_by_path (km_ram s) path = (tonumericdigit d, path + 3)"
    and "path_at s (path + 3) xs"
    and "strlen (str_at (km_ram s) path) = Some (length xs + 3)"
proof -
  let ?m = "km_ram s"
  have st: "string_in ?m path (d # 0x3A # 0x2F # xs)" and len: "length xs + 3 < 108"
    using assms(1) by (simp_all add: path_at_def)
  have b: "?m path = d" "d \<noteq> 0" "?m (path + 1) = 0x3A" "?m (path + 1 + 1) = 0x2F"
    "string_in ?m (path + 1 + 1 + 1) xs"
    using string_in_Cons [OF st] string_in_Cons [OF string_in_Cons(3) [OF st]]
      string_in_Cons [OF string_in_Cons(3) [OF string_in_Cons(3) [OF st]]] by simp_all
  have "strnlen (str_at ?m path) 108 \<ge> 3"
  proof -
    have v: "str_at ?m path 0 \<noteq> 0" "str_at ?m path 1 \<noteq> 0" "str_at ?m path (Suc (Suc 0)) \<noteq> 0"
    proof -
      have e: "path + of_nat (Suc (Suc 0)) = path + 1 + 1" by simp
      show "str_at ?m path 0 \<noteq> 0" "str_at ?m path 1 \<noteq> 0" using b(1-3) by (simp_all add: str_at_def)
      show "str_at ?m path (Suc (Suc 0)) \<noteq> 0" unfolding str_at_def e b(4) by simp
    qed
    have "strnlen_from (str_at ?m path) 0 (Suc (Suc (Suc k))) = strnlen_from (str_at ?m path) 3 k" for k
      using v by (simp add: numeral_3_eq_3)
    from this [of 105] have e: "strnlen_from (str_at ?m path) 0 108 = strnlen_from (str_at ?m path) 3 105" by simp
    have "i \<le> strnlen_from (str_at ?m path) i k" for i k
      by (induction k arbitrary: i) (auto intro: Suc_leD)
    from this [of 3 105] show ?thesis unfolding strnlen_def by (simp add: e)
  qed
  moreover have "memcmp (str_at ?m (path + 1)) (\<lambda>i. [0x3A, 0x2F] ! i) 2 = 0"
    unfolding memcmp_zero using b(3,4) by (auto simp: str_at_def less_2_cases_iff)
  ultimately have "path_valid_format ?m path"
    using assms(2) b(1) by (simp add: path_valid_format_def Let_def)
  then show "path_get_drive_by_path ?m path = (tonumericdigit d, path + 3)"
    using b(1) by (simp add: path_get_drive_by_path_def)
  have "region (path + of_nat 3) (Suc (length xs)) \<subseteq> region path (Suc (length ([d, 0x3A, 0x2F] @ xs)))"
    by (rule region_sub) simp
  then show "path_at s (path + 3) xs"
    using assms(1) b(5) len by (auto simp: path_at_def add.assoc)
  show "strlen (str_at ?m path) = Some (length xs + 3)"
    using string_in_cstr [OF st] by (simp add: strlen_eq_iff numeral_3_eq_3)
qed

lemma room_after_part:
  assumes "takes s [q, p] s'" "length xs + 2 \<le> kmem_room s" "part_of xs \<noteq> []"
  shows "0 < kmem_room s'" "rest_of xs \<noteq> [] \<Longrightarrow> length (rest_of xs) + 2 \<le> kmem_room s'"
proof -
  have "0 < length (part_of xs)" using assms(3) by simp
  moreover have "length xs \<le> kmem_room s'" using takes_room [OF assms(1)] assms(2) by simp
  ultimately show "0 < kmem_room s'" "rest_of xs \<noteq> [] \<Longrightarrow> length (rest_of xs) + 2 \<le> kmem_room s'"
    using length_part_rest [of xs] by linarith+
qed

lemma parse_second_part:
  assumes "part \<noteq> 0"
  shows "bindE (pathparser_parse_path_part s part path) (\<lambda>(part, tmp_path, s). ran (parse_parts_loop s part tmp_path))
    = ran (parse_parts_loop s part path)"
  using assms by (subst (2) parse_parts_loop.simps)
    (cases "pathparser_parse_path_part s part path"; simp add: ran_def split_beta)

lemma pathparser_parse_result:
  assumes "kmem_ok s" "isdigit d" "path_at s path ([d, 0x3A, 0x2F] @ xs)" "length xs + 3 \<le> kmem_room s"
  shows "\<exists>root first lost s'. pathparser_parse s path = Inr (root, s') \<and>
    path_roots s' root = Some \<lparr>pr_drive_no = tonumericdigit d, pr_first = first\<rparr> \<and>
    path_chain s' first (path_words xs) \<and>
    takes s (root # chain_blocks s' first (path_words xs) @ lost) s' \<and> path_only s s' \<and>
    (path_words xs \<noteq> [] \<or> xs = [] \<longrightarrow> lost = [])"
proof -
  note dr = path_drive [OF assms(3,2)]
  have len: "length xs + 3 < 108" using assms(3) by (simp add: path_at_def)
  have pos: "\<not> tonumericdigit d < 0" using assms(2) by (simp add: tonumericdigit_def isdigit_def)
  obtain root s0 where k: "kzalloc s 8 = Inr (root, s0)" "takes s [root] s0" "kmem.more s0 = kmem.more s"
    by (rule takes_kzalloc [OF assms(1), of 8]) (use assms(4) in simp_all)
  have nz: "root \<noteq> 0" using takes_nonnull [OF k(2)] by simp
  define s1 where "s1 = s0\<lparr>path_roots := (path_roots s0)(root \<mapsto> \<lparr>pr_drive_no = tonumericdigit d, pr_first = 0\<rparr>)\<rparr>"
  have c: "pathparser_create_root s (tonumericdigit d) = Inr (root, s1)"
    by (simp add: pathparser_create_root_def k(1) nz s1_def)
  have t1: "takes s [root] s1" and po1: "path_only s s1"
    and r1: "path_roots s1 root = Some \<lparr>pr_drive_no = tonumericdigit d, pr_first = 0\<rparr>"
    using k(2) path_only_more [OF k(3)] by (simp_all add: s1_def)
  have at1: "path_at s1 (path + 3) xs" by (rule path_at_takes [OF dr(2) t1])
  have rm: "0 < kmem_room s1" "length xs + 2 \<le> kmem_room s1" using takes_room [OF t1] assms(4) by simp_all
  have p: "pathparser_parse s path =
     bindE (pathparser_parse_path_part s1 0 (path + 3)) (\<lambda>(first_part, tmp_path, s).
     bindE (if first_part \<noteq> 0
            then bindE (deref (path_roots s) root) (\<lambda>r.
              Inr (s\<lparr>path_roots := (path_roots s)(root \<mapsto> r\<lparr>pr_first := first_part\<rparr>)\<rparr>))
            else Inr s) (\<lambda>s.
     bindE (bindE (pathparser_parse_path_part s first_part tmp_path)
         (\<lambda>(part, tmp_path, s). ran (parse_parts_loop s part tmp_path))) (\<lambda>s.
     Inr (root, s))))"
    using len pos by (simp add: pathparser_parse_def dr c returns_def bindE_assoc) (simp add: split_beta bindE_assoc)
  show ?thesis
  proof (rule parse_path_part [OF takes_ok [OF t1] rm(1) _ at1, of 0])
    show "2 \<le> kmem_room s1" using rm(2) by simp
    show "(0, 4096) \<in> kmem_live s1 \<and> path_parts s1 0 = Some \<lparr>pp_part = undefined, pp_next = 0\<rparr>"
      if "(0 :: addr) \<noteq> 0" using that by simp
  next
    fix p q s2
    assume w: "part_of xs \<noteq> []" and t2: "takes s1 [q, p] s2" and po2: "path_only s1 s2"
      and str: "string_in (km_ram s2) q (part_of xs)" and rt: "path_roots s2 = path_roots s1"
      and pts: "path_parts s2 = (if 0 = (0 :: addr) then path_parts s1
          else (path_parts s1)(0 \<mapsto> \<lparr>pp_part = undefined, pp_next = p\<rparr>))(p \<mapsto> \<lparr>pp_part = q, pp_next = 0\<rparr>)"
      and r2: "pathparser_parse_path_part s1 0 (path + 3) = Inr (p, after_part (km_ram s2) (path + 3) xs, s2)"
    define s3 where "s3 = s2\<lparr>path_roots := (path_roots s2)(root \<mapsto>
      \<lparr>pr_drive_no = tonumericdigit d, pr_first = p\<rparr>)\<rparr>"
    have nzp: "p \<noteq> 0" using takes_nonnull [OF t2] by simp
    have dd: "deref (path_roots s2) root = Inr \<lparr>pr_drive_no = tonumericdigit d, pr_first = 0\<rparr>"
      using rt r1 by simp
    have t3: "takes s1 [q, p] s3" using t2 by (simp add: s3_def)
    have lv: "(p, 4096) \<in> kmem_live s3" "(q, 4096) \<in> kmem_live s3" using takes_live [OF t3] by simp_all
    have at3: "path_at s3 (after_part (km_ram s2) (path + 3) xs) (rest_of xs)"
      using path_at_rest [OF path_at_takes [OF at1 t3]] by (simp add: s3_def)
    have pp: "path_parts s3 p = Some \<lparr>pp_part = q, pp_next = 0\<rparr>" by (simp add: s3_def pts)
    have rm3: "0 < kmem_room s3" "rest_of xs \<noteq> [] \<Longrightarrow> length (rest_of xs) + 2 \<le> kmem_room s3"
      by (rule room_after_part [OF t3 _ w], use rm in simp)+
    obtain nx s' where l: "parse_parts_loop s3 p (after_part (km_ram s2) (path + 3) xs) = Some (Inr s')"
      "path_parts s' p = Some \<lparr>pp_part = q, pp_next = nx\<rparr>" "path_chain s' nx (path_words (rest_of xs))"
      "takes s3 (chain_blocks s' nx (path_words (rest_of xs))) s'" "path_only s3 s'" "path_roots s' = path_roots s3"
      using parse_parts_loop_chain [OF takes_ok [OF t3] nzp lv(1) pp at3 rm3] by blast
    have rl: "ran (parse_parts_loop s3 p (after_part (km_ram s2) (path + 3) xs)) = Inr s'" by (simp add: l(1))
    have ws: "path_words xs = part_of xs # path_words (rest_of xs)" using w by (subst path_words_unfold) simp
    have "string_in (km_ram s') q (part_of xs)"
      by (rule string_in_block [OF l(4) lv(2) _ path_at_part_length [OF at1]]) (use str in \<open>simp add: s3_def\<close>)
    then have ch: "path_chain s' p (path_words xs)" using l(2,3) nzp by (simp add: ws)
    have tk: "takes s (root # chain_blocks s' p (path_words xs) @ []) s'"
      using takes_trans [OF t1 takes_trans [OF t3 l(4)]] l(2) by (simp add: ws)
    have "pathparser_parse s path = Inr (root, s')"
      unfolding p r2 bindE.simps prod.case using nzp
      by (simp add: dd parse_second_part rl del: deref_Inr_iff flip: s3_def)
    moreover have "path_only s s'"
      using path_only_trans [OF po1 path_only_trans [OF _ l(5)]] po2 by (simp add: s3_def)
    moreover have "path_roots s' root = Some \<lparr>pr_drive_no = tonumericdigit d, pr_first = p\<rparr>"
      by (simp add: l(6) s3_def)
    ultimately show ?thesis using ch tk by blast
  next
    fix s2 assume w: "part_of xs = []" and t2: "takes s1 [] s2" and m2: "kmem.more s2 = kmem.more s1"
      and r2: "pathparser_parse_path_part s1 0 (path + 3) = Inr (0, after_part (km_ram s2) (path + 3) xs, s2)"
    have ws: "path_words xs = []" using w by (subst path_words_unfold) simp
    have po2: "path_only s s2" by (rule path_only_trans [OF po1 path_only_more [OF m2]])
    have t02: "takes s [root] s2" using takes_trans [OF t1 t2] by simp
    have root2: "path_roots s2 root = Some \<lparr>pr_drive_no = tonumericdigit d, pr_first = 0\<rparr>"
      using path_stores_more [OF m2] r1 by simp
    have at2: "path_at s2 (after_part (km_ram s2) (path + 3) xs) (rest_of xs)"
      by (rule path_at_rest [OF path_at_takes [OF at1 t2]])
    have rm2: "0 < kmem_room s2" "2 \<le> kmem_room s2" using takes_room [OF t2] rm by simp_all
    note p2 = p [unfolded r2 bindE.simps prod.case, simplified]
    show ?thesis
    proof (rule parse_path_part [OF takes_ok [OF t2] rm2 at2, of 0])
      show "(0, 4096) \<in> kmem_live s2 \<and> path_parts s2 0 = Some \<lparr>pp_part = undefined, pp_next = 0\<rparr>"
        if "(0 :: addr) \<noteq> 0" using that by simp
    next
      fix s3 assume t3: "takes s2 [] s3" and m3: "kmem.more s3 = kmem.more s2"
        and r3: "pathparser_parse_path_part s2 0 (after_part (km_ram s2) (path + 3) xs) =
          Inr (0, after_part (km_ram s3) (after_part (km_ram s2) (path + 3) xs) (rest_of xs), s3)"
      have "pathparser_parse s path = Inr (root, s3)"
        unfolding p2 by (simp add: r3 parse_parts_loop_null ran_def)
      moreover have "takes s (root # chain_blocks s3 0 (path_words xs) @ []) s3"
        using takes_trans [OF t02 t3] by (simp add: ws)
      moreover have "path_roots s3 root = Some \<lparr>pr_drive_no = tonumericdigit d, pr_first = 0\<rparr>"
        using path_stores_more [OF m3] root2 by simp
      moreover have "path_only s s3" by (rule path_only_trans [OF po2 path_only_more [OF m3]])
      moreover have "path_chain s3 0 (path_words xs)" by (simp add: ws)
      ultimately show ?thesis by blast
    next
      fix p q s3
      assume w3: "part_of (rest_of xs) \<noteq> []" and t3: "takes s2 [q, p] s3" and po3: "path_only s2 s3"
        and rt: "path_roots s3 = path_roots s2"
        and pts: "path_parts s3 = (if 0 = (0 :: addr) then path_parts s2
            else (path_parts s2)(0 \<mapsto> \<lparr>pp_part = undefined, pp_next = p\<rparr>))(p \<mapsto> \<lparr>pp_part = q, pp_next = 0\<rparr>)"
        and r3: "pathparser_parse_path_part s2 0 (after_part (km_ram s2) (path + 3) xs) =
          Inr (p, after_part (km_ram s3) (after_part (km_ram s2) (path + 3) xs) (rest_of xs), s3)"
      have nzp: "p \<noteq> 0" using takes_nonnull [OF t3] by simp
      have lv: "(p, 4096) \<in> kmem_live s3" using takes_live [OF t3] by simp
      have pp: "path_parts s3 p = Some \<lparr>pp_part = q, pp_next = 0\<rparr>" by (simp add: pts)
      have at3: "path_at s3 (after_part (km_ram s3) (after_part (km_ram s2) (path + 3) xs) (rest_of xs))
          (rest_of (rest_of xs))"
        by (rule path_at_rest [OF path_at_takes [OF at2 t3]])
      have "length (rest_of xs) + 2 \<le> kmem_room s2"
        using length_part_rest(1) [of xs] takes_room [OF t2] rm(2) by simp
      note rm3 = room_after_part [OF t3 this w3]
      obtain nx s' where l: "parse_parts_loop s3 p
          (after_part (km_ram s3) (after_part (km_ram s2) (path + 3) xs) (rest_of xs)) = Some (Inr s')"
        "takes s3 (chain_blocks s' nx (path_words (rest_of (rest_of xs)))) s'" "path_only s3 s'"
        "path_roots s' = path_roots s3"
        using parse_parts_loop_chain [OF takes_ok [OF t3] nzp lv pp at3 rm3] by blast
      let ?lost = "[q, p] @ chain_blocks s' nx (path_words (rest_of (rest_of xs)))"
      have "pathparser_parse s path = Inr (root, s')"
        unfolding p2 by (simp add: r3 l(1) ran_def)
      moreover have "takes s (root # chain_blocks s' 0 (path_words xs) @ ?lost) s'"
        using takes_trans [OF t02 takes_trans [OF t3 l(2)]] by (simp add: ws)
      moreover have "path_roots s' root = Some \<lparr>pr_drive_no = tonumericdigit d, pr_first = 0\<rparr>"
        using root2 by (simp add: l(4) rt)
      moreover have "path_only s s'" by (rule path_only_trans [OF po2 path_only_trans [OF po3 l(3)]])
      moreover have "path_chain s' 0 (path_words xs)" by (simp add: ws)
      moreover have "xs \<noteq> []" using w3 by (auto simp: rest_of_def)
      ultimately show ?thesis using ws by blast
    qed
  qed
qed

section \<open>Giving it back\<close>

lemma path_chain_cong:
  "km_ram t = km_ram s \<Longrightarrow> path_parts t = path_parts s \<Longrightarrow>
   path_chain t p ws = path_chain s p ws \<and> chain_blocks t p ws = chain_blocks s p ws"
  by (induction ws arbitrary: p) (auto split: option.splits)

lemma free_parts_loop_chain:
  assumes "path_chain s' p ws" "takes s (chain_blocks s' p ws @ bs) s'"
  shows "\<exists>s''. free_parts_loop s' p = Some (Inr s'') \<and> takes s bs s''"
  using assms
proof (induction ws arbitrary: p s')
  case Nil
  then show ?case by (subst free_parts_loop.simps) simp
next
  case (Cons w ws)
  then obtain part where part: "path_parts s' p = Some part" "p \<noteq> 0" "path_chain s' (pp_next part) ws"
    by (auto split: option.splits)
  have "takes s (pp_part part # p # chain_blocks s' (pp_next part) ws @ bs) s'"
    using Cons.prems(2) part(1) by simp
  then obtain s1 where s1: "kfree s' (pp_part part) = Inr s1"
    "takes s (p # chain_blocks s' (pp_next part) ws @ bs) s1" "km_ram s1 = km_ram s'" "kmem.more s1 = kmem.more s'"
    by (rule takes_kfree)
  obtain s2 where s2: "kfree s1 p = Inr s2" "takes s (chain_blocks s' (pp_next part) ws @ bs) s2"
    "km_ram s2 = km_ram s1" "kmem.more s2 = kmem.more s1"
    by (rule takes_kfree [OF s1(2)])
  have same: "km_ram s2 = km_ram s'" "path_parts s2 = path_parts s'"
    using s1(3) s2(3) path_stores_more(1) [of s2 s'] s1(4) s2(4) by simp_all
  have c: "path_chain s2 (pp_next part) ws" "takes s (chain_blocks s2 (pp_next part) ws @ bs) s2"
    using part(3) s2(2) path_chain_cong [OF same] by simp_all
  from Cons.IH [OF this] part(1,2) s1(1) s2(1) show ?case
    by (subst free_parts_loop.simps) (simp add: deref_Some)
qed

lemma pathparser_free_result:
  assumes "path_roots s' root = Some r" "path_chain s' (pr_first r) ws"
    "takes s (root # chain_blocks s' (pr_first r) ws @ lost) s'"
  shows "\<exists>s''. pathparser_free s' root = Inr s'' \<and> takes s lost s''"
proof -
  have "takes s (chain_blocks s' (pr_first r) ws @ root # lost) s'"
    by (rule takes_perm [OF assms(3)]) simp
  then obtain s1 where s1: "free_parts_loop s' (pr_first r) = Some (Inr s1)" "takes s (root # lost) s1"
    using free_parts_loop_chain [OF assms(2)] by blast
  obtain s2 where "kfree s1 root = Inr s2" "takes s lost s2"
    by (rule takes_kfree [OF s1(2)])
  with s1 assms(1) show ?thesis by (simp add: pathparser_free_def deref_Some ran_def)
qed

section \<open>Properties\<close>

text \<open>C19: \<open>pathparser_parse\<close> of a path of fewer than 108 bytes with a drive returns, when the
  heap has a free block for each byte of the path, a root with the drive's number and the linked list
  of the path's parts, up to the first empty one; it took from the heap the root and two blocks a
  part (and blocks no list leads to only when the path goes on after an empty first part), and changed
  nothing else of the machine.\<close>

theorem pathparser_parse_links:
  assumes "kmem_ok s" "isdigit d" "path_at s path ([d, 0x3A, 0x2F] @ xs)" "length xs + 3 \<le> kmem_room s"
  shows "\<exists>root first lost s'. pathparser_parse s path = Inr (root, s') \<and>
    path_roots s' root = Some \<lparr>pr_drive_no = tonumericdigit d, pr_first = first\<rparr> \<and>
    path_chain s' first (path_words xs) \<and>
    takes s (root # chain_blocks s' first (path_words xs) @ lost) s' \<and> path_only s s' \<and>
    (path_words xs \<noteq> [] \<or> xs = [] \<longrightarrow> lost = [])"
  by (rule pathparser_parse_result [OF assms])

text \<open>C30: \<open>pathparser_free\<close> of what \<open>pathparser_parse\<close> returned gives back every block that the list of parts
  leads to, for a path of fewer than 108 bytes with a drive and with a free block in the heap for each of its
  bytes.  For a path with a first part (\<open>0:/a/b\<close>) and for the root alone (\<open>0:/\<close>) those are all: the heap has the
  live allocations and the free blocks it had before the path was parsed.  For a path that goes on after an
  empty first part (\<open>0://a\<close>) the blocks of the parts that no list leads to stay allocated.\<close>

theorem pathparser_parse_free:
  assumes "kmem_ok s" "isdigit d" "path_at s path ([d, 0x3A, 0x2F] @ xs)" "length xs + 3 \<le> kmem_room s"
  shows "\<exists>root first lost s' s''. pathparser_parse s path = Inr (root, s') \<and> root \<noteq> 0 \<and>
    path_roots s' root = Some \<lparr>pr_drive_no = tonumericdigit d, pr_first = first\<rparr> \<and> path_chain s' first (path_words xs) \<and>
    kmem_live s' = (\<lambda>b. (b, 4096)) ` set (root # chain_blocks s' first (path_words xs) @ lost) \<union> kmem_live s \<and>
    pathparser_free s' root = Inr s'' \<and> kmem_ok s'' \<and>
    kmem_live s'' = (\<lambda>b. (b, 4096)) ` set lost \<union> kmem_live s \<and> kmem_room s'' + length lost = kmem_room s \<and>
    (path_words xs \<noteq> [] \<or> xs = [] \<longrightarrow> lost = [])"
proof -
  obtain root first lost s' where p: "pathparser_parse s path = Inr (root, s')"
    "path_roots s' root = Some \<lparr>pr_drive_no = tonumericdigit d, pr_first = first\<rparr>"
    "path_chain s' first (path_words xs)" "takes s (root # chain_blocks s' first (path_words xs) @ lost) s'"
    "path_words xs \<noteq> [] \<or> xs = [] \<longrightarrow> lost = []"
    using pathparser_parse_result [OF assms] by blast
  obtain s'' where f: "pathparser_free s' root = Inr s''" "takes s lost s''"
    using pathparser_free_result [OF p(2), of "path_words xs" s lost] p(3,4) by auto
  have "root \<noteq> 0" using takes_nonnull [OF p(4)] by simp
  then show ?thesis
    using p f takes_live [OF p(4)] takes_ok [OF f(2)] takes_live [OF f(2)] takes_room [OF f(2)] by auto
qed

text \<open>A heap of ten free blocks from 16 MB on, and the path \<open>0:/ab/c\<close> at 0x500.\<close>

definition demo_paths :: pathmem where
  "demo_paths = \<lparr>km_heap = \<lparr>h_table = \<lparr>ht_entries = replicate 10 0, ht_total = 10\<rparr>, h_saddr = 0x1000000\<rparr>,
     km_ram = (\<lambda>a. 0)(0x500 := 0x30, 0x501 := 0x3A, 0x502 := 0x2F, 0x503 := 97, 0x504 := 98, 0x505 := 0x2F, 0x506 := 99),
     current_directory = 0, current_chunk = 0,
     fault_handlers = replicate 16 0, chunks = \<lambda>p. None, pfaults = \<lambda>p. None, disk_at = 64,
     the_disk = \<lparr>dk_type = 0, dk_filesystem = 0, dk_id = 0, dk_sector_size = 512, dk_fs_private = 0\<rparr>,
     streams = \<lambda>p. None, path_roots = \<lambda>p. None, path_parts = \<lambda>p. None\<rparr>"

lemma demo_paths_ready:
  "kmem_ok demo_paths" "path_at demo_paths 0x500 ([0x30, 0x3A, 0x2F] @ [97, 98, 0x2F, 99])"
  "kmem_room demo_paths = 10" "isdigit 0x30"
proof -
  have "heap_segs (km_heap demo_paths) (replicate 10 FreeBlock)"
    by (simp add: heap_segs_def demo_paths_def)
  then show "kmem_ok demo_paths"
    by (auto simp: kmem_ok_def heap_wf_def demo_paths_def paging_is_address_aligned_def)
  have "region (0x500 + of_nat 0 :: addr) 8 \<inter> region (0x500 + of_nat 0xFFFB00) 40960 = {}"
    by (rule region_apart) simp_all
  then have "region (0x500 :: addr) 8 \<inter> kmem_spare demo_paths = {}"
    by (auto simp: kmem_spare_def spare_in_def kmem_arena_def heap_arena_def demo_paths_def)
  moreover have "string_in (km_ram demo_paths) 0x500 ([0x30, 0x3A, 0x2F] @ [97, 98, 0x2F, 99])"
    by (simp add: string_in_def read_bytes_def upt_rec demo_paths_def)
  ultimately show "path_at demo_paths 0x500 ([0x30, 0x3A, 0x2F] @ [97, 98, 0x2F, 99])"
    by (simp add: path_at_def eval_nat_numeral)
  show "kmem_room demo_paths = 10" by (simp add: kmem_room_def free_count_def demo_paths_def)
  show "isdigit 0x30" by (simp add: isdigit_def)
qed

lemma pathparser_parse_links_witness:
  "\<exists>root first s'. pathparser_parse demo_paths 0x500 = Inr (root, s') \<and>
     path_roots s' root = Some \<lparr>pr_drive_no = 0, pr_first = first\<rparr> \<and> path_chain s' first [[97, 98], [99]]"
proof -
  have w: "path_words [97, 98, 0x2F, 99] = [[97, 98], [99]]" by simp
  have "length [97, 98, 0x2F, 99 :: byte] + 3 \<le> kmem_room demo_paths" by (simp add: demo_paths_ready(3))
  from pathparser_parse_links [OF demo_paths_ready(1,4,2) this] show ?thesis
    unfolding w by (auto simp: tonumericdigit_def)
qed

lemma pathparser_parse_free_witness:
  "\<exists>root s' s''. pathparser_parse demo_paths 0x500 = Inr (root, s') \<and> pathparser_free s' root = Inr s'' \<and>
     kmem_live s'' = kmem_live demo_paths"
proof -
  have "length [97, 98, 0x2F, 99 :: byte] + 3 \<le> kmem_room demo_paths" by (simp add: demo_paths_ready(3))
  from pathparser_parse_free [OF demo_paths_ready(1,4,2) this] show ?thesis by auto
qed

end
