(* ===== verification/FAT16.thy ===== *)
theory FAT16
  imports Path_Parser
begin

text \<open>
  The read-only FAT16 file system, \<open>src/fs/fat/fat16.c\<close>.  The boot sector's header is kept as
  the 62 bytes read from the disk, with one accessor per field; directory entries are the 32-byte
  records the code keeps in memory.  Directories, items, file descriptors and the file system's
  private data are objects of typed stores.  A local array or structure of a function is a value of
  the model: the code never keeps its address.
\<close>

section \<open>State\<close>

abbreviation (input) FAT_ITEM_TYPE_DIRECTORY :: u32 where "FAT_ITEM_TYPE_DIRECTORY \<equiv> 0"
abbreviation (input) FAT_ITEM_TYPE_FILE :: u32 where "FAT_ITEM_TYPE_FILE \<equiv> 1"
abbreviation (input) FAT_FILE_SUBDIRECTORY :: byte where "FAT_FILE_SUBDIRECTORY \<equiv> 0x10"
abbreviation (input) COS32_FAT16_BAD_SECTOR :: int where "COS32_FAT16_BAD_SECTOR \<equiv> 0xFF7"
abbreviation (input) FILE_MODE_READ :: u32 where "FILE_MODE_READ \<equiv> 0"
abbreviation (input) SEEK_SET :: u32 where "SEEK_SET \<equiv> 0"
abbreviation (input) SEEK_CUR :: u32 where "SEEK_CUR \<equiv> 1"
abbreviation (input) SEEK_END :: u32 where "SEEK_END \<equiv> 2"

type_synonym fat_header = "byte list"

definition header16 :: "fat_header \<Rightarrow> nat \<Rightarrow> int" where
  "header16 h i = uint (h ! i) + 256 * uint (h ! (i + 1))"

definition bytes_per_sector :: "fat_header \<Rightarrow> int" where "bytes_per_sector h = header16 h 11"
definition sectors_per_cluster :: "fat_header \<Rightarrow> int" where "sectors_per_cluster h = uint (h ! 13)"
definition reserved_sectors :: "fat_header \<Rightarrow> int" where "reserved_sectors h = header16 h 14"
definition fat_copies :: "fat_header \<Rightarrow> int" where "fat_copies h = uint (h ! 16)"
definition root_dir_entries :: "fat_header \<Rightarrow> int" where "root_dir_entries h = header16 h 17"
definition sectors_per_fat :: "fat_header \<Rightarrow> int" where "sectors_per_fat h = header16 h 22"
definition fat_signature :: "fat_header \<Rightarrow> int" where "fat_signature h = uint (h ! 38)"

record fat_directory =
  fd_item :: addr
  fd_total :: int
  fd_sector_pos :: int
  fd_ending_sector_pos :: int

record fat_item =
  fi_ptr :: addr
  fi_type :: u32

record fat_file_descriptor =
  ffd_item :: addr
  ffd_pos :: u32

record fat_private =
  fp_header :: fat_header
  root_directory :: fat_directory
  cluster_read_stream :: addr
  fat_read_stream :: addr
  directory_stream :: addr

record file_stat =
  st_flags :: u32
  st_filesize :: u32

record fatmem = pathmem +
  fat16_fs_at :: addr
  fat_privates :: "addr \<Rightarrow> fat_private option"
  fat_dirs :: "addr \<Rightarrow> fat_directory option"
  fat_items :: "addr \<Rightarrow> fat_item option"
  fat_fds :: "addr \<Rightarrow> fat_file_descriptor option"

text \<open>A directory entry at \<open>p\<close>.\<close>

definition item_attribute :: "ram \<Rightarrow> addr \<Rightarrow> byte" where "item_attribute m p = m (p + 11)"
definition item_filesize :: "ram \<Rightarrow> addr \<Rightarrow> u32" where "item_filesize m p = load32 m (p + 28)"

definition fat16_get_first_cluster :: "ram \<Rightarrow> addr \<Rightarrow> u32" where
  "fat16_get_first_cluster m item =
     push_bit 16 (ucast (load16 m (item + 20))) OR ucast (load16 m (item + 26))"

definition fs_private :: "'a fatmem_scheme \<Rightarrow> fat_private outcome" where
  "fs_private s = deref (fat_privates s) (dk_fs_private (the_disk s))"

section \<open>Geometry\<close>

definition fat16_get_first_fat_sector :: "fat_private \<Rightarrow> u32" where
  "fat16_get_first_fat_sector private = word_of_int (reserved_sectors (fp_header private))"

definition fat16_get_cluster_size_in_bytes :: "'a fatmem_scheme \<Rightarrow> u32 outcome" where
  "fat16_get_cluster_size_in_bytes s = bindE (fs_private s) (\<lambda>private.
     Inr (word_of_int (sectors_per_cluster (fp_header private) * dk_sector_size (the_disk s))))"

definition fat16_cluster_to_sector :: "fat_private \<Rightarrow> int \<Rightarrow> int" where
  "fat16_cluster_to_sector private cluster =
     fd_ending_sector_pos (root_directory private) + (cluster - 2) * sectors_per_cluster (fp_header private)"

definition fat16_root_dir_sectors :: "fat_private \<Rightarrow> int outcome" where
  "fat16_root_dir_sectors private =
     (let h = fp_header private in
      if bytes_per_sector h = 0 then Inl DivideError
      else Inr ((root_dir_entries h * 32 + (bytes_per_sector h - 1)) div bytes_per_sector h))"

definition fat16_sector_to_absolute :: "'a fatmem_scheme \<Rightarrow> int \<Rightarrow> int" where
  "fat16_sector_to_absolute s sector = sector * dk_sector_size (the_disk s)"

section \<open>Freeing\<close>

definition fat16_free_directory :: "'a fatmem_scheme \<Rightarrow> addr \<Rightarrow> 'a fatmem_scheme outcome" where
  "fat16_free_directory s directory =
     (if directory = 0 then Inr s
      else bindE (deref (fat_dirs s) directory) (\<lambda>d.
        bindE (if fd_item d \<noteq> 0 then kfree s (fd_item d) else Inr s) (\<lambda>s.
        kfree s directory)))"

definition fat16_fat_item_free :: "'a fatmem_scheme \<Rightarrow> addr \<Rightarrow> 'a fatmem_scheme outcome" where
  "fat16_fat_item_free s item =
     bindE (deref (fat_items s) item) (\<lambda>i.
     bindE (if fi_type i = FAT_ITEM_TYPE_DIRECTORY then fat16_free_directory s (fi_ptr i)
            else if fi_type i = FAT_ITEM_TYPE_FILE then kfree s (fi_ptr i)
            else panic ''Trying to free illegal fat_item'') (\<lambda>s.
     kfree s item))"

definition fat16_free_file_descriptor :: "'a fatmem_scheme \<Rightarrow> addr \<Rightarrow> 'a fatmem_scheme outcome" where
  "fat16_free_file_descriptor s private =
     bindE (deref (fat_fds s) private) (\<lambda>d.
     bindE (fat16_fat_item_free s (ffd_item d)) (\<lambda>s. kfree s private))"

definition fat16_close :: "'a fatmem_scheme \<Rightarrow> addr \<Rightarrow> (int \<times> 'a fatmem_scheme) outcome" where
  "fat16_close s private = bindE (fat16_free_file_descriptor s private) (\<lambda>s. Inr (0, s))"

text \<open>The status and, where it is 0, what is written to \<open>stat\<close>.\<close>

definition fat16_stat :: "'a fatmem_scheme \<Rightarrow> addr \<Rightarrow> (int \<times> file_stat option) outcome" where
  "fat16_stat s private =
     bindE (deref (fat_fds s) private) (\<lambda>descriptor.
     bindE (deref (fat_items s) (ffd_item descriptor)) (\<lambda>desc_item.
     if fi_type desc_item \<noteq> FAT_ITEM_TYPE_FILE then Inr (- EINVARG, None)
     else Inr (0, Some \<lparr>st_flags = 0, st_filesize = item_filesize (km_ram s) (fi_ptr desc_item)\<rparr>)))"

section \<open>Following the cluster chain\<close>

definition fat16_get_fat_entry :: "drive \<Rightarrow> 'a fatmem_scheme \<Rightarrow> int \<Rightarrow> (int \<times> 'a fatmem_scheme) outcome" where
  "fat16_get_fat_entry drv s cluster =
     bindE (fs_private s) (\<lambda>private.
     let stream = fat_read_stream private in
     if stream = 0 then Inr (- 1, s)
     else
       let fat_table_position = fat16_get_first_fat_sector private * 512 in
       bindE (diskstreamer_seek s stream (sint (fat_table_position + word_of_int (cluster * 2)))) (\<lambda>(res, s).
       if res < 0 then Inr (res, s)
       else
         bindE (diskstreamer_read drv s stream 2) (\<lambda>(res, result, s).
         if res < 0 then Inr (res, s)
         else Inr (uint (result ! 0) + 256 * uint (result ! 1), s))))"

text \<open>The loop of \<open>fat16_get_cluster_for_offset\<close> with \<open>k\<close> clusters still ahead.\<close>

fun cluster_ahead_loop ::
  "drive \<Rightarrow> 'a fatmem_scheme \<Rightarrow> int \<Rightarrow> nat \<Rightarrow> (int \<times> 'a fatmem_scheme) outcome" where
  "cluster_ahead_loop drv s cluster_to_use 0 = Inr (cluster_to_use, s)"
| "cluster_ahead_loop drv s cluster_to_use (Suc k) =
     bindE (fat16_get_fat_entry drv s cluster_to_use) (\<lambda>(entry, s).
     if entry = 0xFF8 \<or> entry = 0xFFF then Inr (- EIO, s)
     else if entry = COS32_FAT16_BAD_SECTOR then Inr (- EIO, s)
     else if entry = 0xFF0 \<or> entry = 0xFF6 then Inr (- EIO, s)
     else if entry = 0 then Inr (- EIO, s)
     else cluster_ahead_loop drv s entry k)"

definition fat16_get_cluster_for_offset ::
  "drive \<Rightarrow> 'a fatmem_scheme \<Rightarrow> int \<Rightarrow> int \<Rightarrow> (int \<times> 'a fatmem_scheme) outcome" where
  "fat16_get_cluster_for_offset drv s starting_cluster offset =
     bindE (fs_private s) (\<lambda>private.
     let size_of_cluster_bytes = sectors_per_cluster (fp_header private) * COS32_SECTOR_SIZE in
     if size_of_cluster_bytes = 0 then Inl DivideError
     else cluster_ahead_loop drv s starting_cluster (nat (offset sdiv size_of_cluster_bytes)))"

text \<open>
  \<open>fat16_read_internal_from_stream\<close>: at most one cluster a call, the rest by recursion.  The
  cluster size is read from the header again at every level and cannot be 0 past the first division.
\<close>

function fat16_read_internal_from_stream ::
  "drive \<Rightarrow> 'a fatmem_scheme \<Rightarrow> addr \<Rightarrow> int \<Rightarrow> int \<Rightarrow> int \<Rightarrow> addr \<Rightarrow> (int \<times> 'a fatmem_scheme) outcome"
where
  "fat16_read_internal_from_stream drv s stream cluster offset tot out =
     bindE (fs_private s) (\<lambda>private.
     let size_of_cluster_bytes = sectors_per_cluster (fp_header private) * COS32_SECTOR_SIZE in
     bindE (fat16_get_cluster_for_offset drv s cluster offset) (\<lambda>(cluster_to_use, s1).
     if cluster_to_use < 0 then Inr (cluster_to_use, s1)
     else
       let offset_from_cluster = offset smod size_of_cluster_bytes;
           starting_sector = fat16_cluster_to_sector private cluster_to_use;
           starting_pos = starting_sector * COS32_SECTOR_SIZE + offset_from_cluster;
           total_to_read = (if tot > size_of_cluster_bytes then size_of_cluster_bytes else tot)
       in
       bindE (diskstreamer_seek s1 stream starting_pos) (\<lambda>(res, s2).
       if res \<noteq> COS32_ALL_OK then Inr (res, s2)
       else
         bindE (diskstreamer_read_to drv s2 stream out total_to_read) (\<lambda>(res, s3).
         if res \<noteq> COS32_ALL_OK then Inr (res, s3)
         else if tot - total_to_read > 0 \<and> 0 < size_of_cluster_bytes
         then fat16_read_internal_from_stream drv s3 stream cluster (offset + total_to_read)
                (tot - total_to_read) (out + word_of_int total_to_read)
         else Inr (res, s3)))))"
  by pat_completeness auto
termination
  by (relation "measure (\<lambda>(drv, s, stream, cluster, offset, tot, out). nat tot)") auto

declare fat16_read_internal_from_stream.simps [simp del]

definition fat16_read_internal ::
  "drive \<Rightarrow> 'a fatmem_scheme \<Rightarrow> int \<Rightarrow> int \<Rightarrow> int \<Rightarrow> addr \<Rightarrow> (int \<times> 'a fatmem_scheme) outcome" where
  "fat16_read_internal drv s starting_cluster offset tot out =
     bindE (fs_private s) (\<lambda>private.
     fat16_read_internal_from_stream drv s (cluster_read_stream private) starting_cluster offset tot out)"

fun read_members_loop ::
  "drive \<Rightarrow> 'a fatmem_scheme \<Rightarrow> addr \<Rightarrow> int \<Rightarrow> u32 \<Rightarrow> addr \<Rightarrow> nat \<Rightarrow> (int \<times> 'a fatmem_scheme) outcome" where
  "read_members_loop drv s item offset sz out_ptr 0 = Inr (0, s)"
| "read_members_loop drv s item offset sz out_ptr (Suc k) =
     bindE (fat16_read_internal drv s (sint (fat16_get_first_cluster (km_ram s) item)) offset (sint sz) out_ptr) (\<lambda>(res, s).
     if ISERR res then Inr (res, s)
     else read_members_loop drv s item (sint (word_of_int offset + sz)) sz (out_ptr + sz) k)"

text \<open>
  A descriptor of a directory has a pointer to a directory where the code takes one to a directory
  entry.
\<close>

definition fat16_read ::
  "drive \<Rightarrow> 'a fatmem_scheme \<Rightarrow> addr \<Rightarrow> u32 \<Rightarrow> u32 \<Rightarrow> addr \<Rightarrow> (int \<times> 'a fatmem_scheme) outcome" where
  "fat16_read drv s descriptor sz nmemb out_ptr =
     bindE (deref (fat_fds s) descriptor) (\<lambda>fat_desc.
     bindE (deref (fat_items s) (ffd_item fat_desc)) (\<lambda>desc_item.
     if fi_type desc_item \<noteq> FAT_ITEM_TYPE_FILE then Inl (BadPointer (fi_ptr desc_item))
     else
       let item = fi_ptr desc_item;
           offset = sint (ffd_pos fat_desc)
       in bindE (read_members_loop drv s item offset sz out_ptr (unat nmemb)) (\<lambda>(res, s).
          if ISERR res then Inr (res, s) else Inr (sint nmemb, s))))"

definition fat16_seek :: "'a fatmem_scheme \<Rightarrow> addr \<Rightarrow> u32 \<Rightarrow> u32 \<Rightarrow> (int \<times> 'a fatmem_scheme) outcome" where
  "fat16_seek s private offset seek_mode =
     bindE (deref (fat_fds s) private) (\<lambda>desc.
     bindE (deref (fat_items s) (ffd_item desc)) (\<lambda>desc_item.
     if fi_type desc_item \<noteq> FAT_ITEM_TYPE_FILE then Inr (- EINVARG, s)
     else if offset \<ge> item_filesize (km_ram s) (fi_ptr desc_item) then Inr (- EIO, s)
     else if seek_mode = SEEK_SET
     then Inr (0, s\<lparr>fat_fds := (fat_fds s)(private \<mapsto> desc\<lparr>ffd_pos := offset\<rparr>)\<rparr>)
     else if seek_mode = SEEK_END then Inr (- EUNIMP, s)
     else if seek_mode = SEEK_CUR
     then Inr (0, s\<lparr>fat_fds := (fat_fds s)(private \<mapsto> desc\<lparr>ffd_pos := ffd_pos desc + offset\<rparr>)\<rparr>)
     else Inr (- EINVARG, s)))"

section \<open>Directories\<close>

text \<open>The loop of \<open>fat16_get_total_items_for_directory\<close>; it ends only at a blank record.\<close>

partial_function (option) count_items_loop ::
  "drive \<Rightarrow> addr \<Rightarrow> disk_stream \<Rightarrow> int \<Rightarrow> (int \<times> disk_stream) option" where
  "count_items_loop drv at st i =
     (let (res, item, st') = stream_read drv at st 32 in
      if res \<noteq> COS32_ALL_OK then Some (- EIO, st')
      else if item ! 0 = 0 then Some (i, st')
      else if item ! 0 = 0xE5 then count_items_loop drv at st' i
      else count_items_loop drv at st' (i + 1))"

definition fat16_get_total_items_for_directory ::
  "drive \<Rightarrow> 'a fatmem_scheme \<Rightarrow> u32 \<Rightarrow> (int \<times> 'a fatmem_scheme) outcome" where
  "fat16_get_total_items_for_directory drv s directory_start_sector =
     bindE (fs_private s) (\<lambda>private.
     let directory_start_pos = sint (directory_start_sector * word_of_int (dk_sector_size (the_disk s)));
         stream = directory_stream private in
     bindE (diskstreamer_seek s stream directory_start_pos) (\<lambda>(_, s).
     bindE (deref (streams s) stream) (\<lambda>st.
     bindE (returns (count_items_loop drv (disk_at s) st 0)) (\<lambda>(res, st).
     Inr (res, s\<lparr>streams := (streams s)(stream \<mapsto> st)\<rparr>)))))"

text \<open>\<open>directory\<close> is always the root directory inside the private data.\<close>

definition fat16_get_root_directory :: "drive \<Rightarrow> 'a fatmem_scheme \<Rightarrow> addr \<Rightarrow> (int \<times> 'a fatmem_scheme) outcome" where
  "fat16_get_root_directory drv s private_ptr =
     bindE (deref (fat_privates s) private_ptr) (\<lambda>private.
     let h = fp_header private;
         root_dir_sector_pos = fat_copies h * sectors_per_fat h + reserved_sectors h;
         root_dir_size = root_dir_entries h * 32
     in
     bindE (fat16_get_total_items_for_directory drv s (word_of_int root_dir_sector_pos)) (\<lambda>(total_items, s).
     bindE (kzalloc s root_dir_size) (\<lambda>(dir, s).
     if dir = 0 then Inr (- ENOMEM, s)
     else
       let stream = directory_stream private in
       bindE (diskstreamer_seek s stream (fat16_sector_to_absolute s root_dir_sector_pos)) (\<lambda>(res, s).
       if res \<noteq> COS32_ALL_OK then Inr (- EIO, s)
       else
         bindE (diskstreamer_read_to drv s stream dir root_dir_size) (\<lambda>(res, s).
         if res \<noteq> COS32_ALL_OK then Inr (- EIO, s)
         else if dk_sector_size (the_disk s) = 0 then Inl DivideError
         else Inr (0, s\<lparr>fat_privates := (fat_privates s)(private_ptr \<mapsto> private\<lparr>root_directory :=
             \<lparr>fd_item = dir, fd_total = total_items, fd_sector_pos = root_dir_sector_pos,
              fd_ending_sector_pos = root_dir_sector_pos + root_dir_size sdiv dk_sector_size (the_disk s)\<rparr>\<rparr>)\<rparr>))))))"

definition fat16_init_private :: "'a fatmem_scheme \<Rightarrow> addr \<Rightarrow> 'a fatmem_scheme outcome" where
  "fat16_init_private s private_ptr =
     bindE (diskstreamer_new s (dk_id (the_disk s))) (\<lambda>(st1, s).
     bindE (diskstreamer_new s (dk_id (the_disk s))) (\<lambda>(st2, s).
     bindE (diskstreamer_new s (dk_id (the_disk s))) (\<lambda>(st3, s).
     Inr (s\<lparr>fat_privates := (fat_privates s)(private_ptr \<mapsto>
       \<lparr>fp_header = replicate 62 0,
        root_directory = \<lparr>fd_item = 0, fd_total = 0, fd_sector_pos = 0, fd_ending_sector_pos = 0\<rparr>,
        cluster_read_stream = st1, fat_read_stream = st2, directory_stream = st3\<rparr>)\<rparr>))))"

text \<open>The part of \<open>fat16_resolve\<close> before its label \<open>out\<close>, once the stream exists.\<close>

definition resolve_body :: "drive \<Rightarrow> 'a fatmem_scheme \<Rightarrow> addr \<Rightarrow> addr \<Rightarrow> (int \<times> 'a fatmem_scheme) outcome" where
  "resolve_body drv s private_ptr stream =
     bindE (diskstreamer_read drv s stream 62) (\<lambda>(res, header, s).
     bindE (deref (fat_privates s) private_ptr) (\<lambda>private.
     let s = s\<lparr>fat_privates := (fat_privates s)(private_ptr \<mapsto> private\<lparr>fp_header := header\<rparr>)\<rparr> in
     if res \<noteq> COS32_ALL_OK then Inr (- EIO, s)
     else if fat_signature header \<noteq> 0x29 then Inr (- EFSNOTUS, s)
     else
       bindE (fat16_get_root_directory drv s private_ptr) (\<lambda>(res, s).
       if res \<noteq> COS32_ALL_OK then Inr (- EIO, s) else Inr (0, s))))"

definition fat16_resolve :: "drive \<Rightarrow> 'a fatmem_scheme \<Rightarrow> (int \<times> 'a fatmem_scheme) outcome" where
  "fat16_resolve drv s =
     bindE (kmalloc s 92) (\<lambda>(private_ptr, s).
     if private_ptr = 0 then Inl (BadPointer 0)
     else
       bindE (fat16_init_private s private_ptr) (\<lambda>s.
       let s = s\<lparr>the_disk := (the_disk s)\<lparr>dk_fs_private := private_ptr, dk_filesystem := fat16_fs_at s\<rparr>\<rparr> in
       bindE (diskstreamer_new s (dk_id (the_disk s))) (\<lambda>(stream, s).
       bindE (if stream = 0 then Inr (- ENOMEM, s) else resolve_body drv s private_ptr stream) (\<lambda>(res, s).
       bindE (if stream \<noteq> 0 then diskstreamer_close s stream else Inr s) (\<lambda>s.
       if res < 0
       then bindE (kfree s private_ptr) (\<lambda>s.
         Inr (res, s\<lparr>the_disk := (the_disk s)\<lparr>dk_fs_private := 0\<rparr>\<rparr>))
       else Inr (res, s))))))"

section \<open>Names\<close>

text \<open>
  \<open>fat16_to_proper_string\<close> copies from \<open>inp\<close> up to a null or a space, wherever that is; the
  buffer and the position in it are returned.
\<close>

partial_function (option) fat16_to_proper_string ::
  "ram \<Rightarrow> addr \<Rightarrow> byte list \<Rightarrow> nat \<Rightarrow> (byte list \<times> nat) option" where
  "fat16_to_proper_string m inp buf out =
     (if m inp \<noteq> 0 \<and> m inp \<noteq> 0x20
      then fat16_to_proper_string m (inp + 1) (buf[out := m inp]) (Suc out)
      else Some (if m inp = 0x20 then buf[out := 0] else buf, out))"

definition fat16_get_full_relative_filename :: "ram \<Rightarrow> addr \<Rightarrow> nat \<Rightarrow> byte list option" where
  "fat16_get_full_relative_filename m item max_len =
     (case fat16_to_proper_string m item (replicate max_len 0) 0 of
        None \<Rightarrow> None
      | Some (buf, out) \<Rightarrow>
          if m (item + 8) \<noteq> 0 \<and> m (item + 8) \<noteq> 0x20
          then map_option fst (fat16_to_proper_string m (item + 8) (buf[out := 0x2E]) (Suc out))
          else Some buf)"

section \<open>Looking up and opening\<close>

definition fat16_clone_directory_item :: "'a fatmem_scheme \<Rightarrow> addr \<Rightarrow> int \<Rightarrow> (addr \<times> 'a fatmem_scheme) outcome" where
  "fat16_clone_directory_item s item sz =
     bindE (kzalloc s 32) (\<lambda>(item_copy, s).
     if item_copy = 0 then Inr (0, s)
     else Inr (item_copy, s\<lparr>km_ram := memcpy (km_ram s) item_copy item (word_of_int sz)\<rparr>))"

text \<open>A failure after the directory is allocated frees it, and the freed pointer is returned.\<close>

definition fat16_load_fat_directory :: "drive \<Rightarrow> 'a fatmem_scheme \<Rightarrow> addr \<Rightarrow> (addr \<times> 'a fatmem_scheme) outcome" where
  "fat16_load_fat_directory drv s item =
     bindE (fs_private s) (\<lambda>private.
     if item_attribute (km_ram s) item AND FAT_FILE_SUBDIRECTORY = 0 then Inr (0, s)
     else
       bindE (kzalloc s 16) (\<lambda>(directory, s).
       if directory = 0 then Inr (0, s)
       else
         let s = s\<lparr>fat_dirs := (fat_dirs s)(directory \<mapsto>
               \<lparr>fd_item = 0, fd_total = 0, fd_sector_pos = 0, fd_ending_sector_pos = 0\<rparr>)\<rparr>;
             cluster = sint (fat16_get_first_cluster (km_ram s) item);
             cluster_sector = fat16_cluster_to_sector private cluster
         in
         bindE (fat16_get_total_items_for_directory drv s (word_of_int cluster_sector)) (\<lambda>(total_items, s).
         let directory_size = total_items * 32 in
         bindE (kzalloc s directory_size) (\<lambda>(items, s).
         let s = s\<lparr>fat_dirs := (fat_dirs s)(directory \<mapsto>
               \<lparr>fd_item = items, fd_total = total_items, fd_sector_pos = 0, fd_ending_sector_pos = 0\<rparr>)\<rparr> in
         if items = 0 then bindE (fat16_free_directory s directory) (\<lambda>s. Inr (directory, s))
         else
           bindE (fat16_read_internal drv s cluster 0 directory_size items) (\<lambda>(res, s).
           if res \<noteq> COS32_ALL_OK
           then bindE (fat16_free_directory s directory) (\<lambda>s. Inr (directory, s))
           else Inr (directory, s))))))"

definition fat16_new_fat_item_for_directory_item ::
  "drive \<Rightarrow> 'a fatmem_scheme \<Rightarrow> addr \<Rightarrow> (addr \<times> 'a fatmem_scheme) outcome" where
  "fat16_new_fat_item_for_directory_item drv s item =
     bindE (kzalloc s 8) (\<lambda>(f_item, s).
     if f_item = 0 then Inr (0, s)
     else if item_attribute (km_ram s) item AND FAT_FILE_SUBDIRECTORY \<noteq> 0
     then bindE (fat16_load_fat_directory drv s item) (\<lambda>(directory, s).
       Inr (f_item, s\<lparr>fat_items := (fat_items s)(f_item \<mapsto> \<lparr>fi_ptr = directory, fi_type = FAT_ITEM_TYPE_DIRECTORY\<rparr>)\<rparr>))
     else bindE (fat16_clone_directory_item s item 32) (\<lambda>(copy, s).
       Inr (f_item, s\<lparr>fat_items := (fat_items s)(f_item \<mapsto> \<lparr>fi_ptr = copy, fi_type = FAT_ITEM_TYPE_FILE\<rparr>)\<rparr>)))"

text \<open>The loop goes on after a match, so the last one wins.\<close>

fun find_item_loop ::
  "drive \<Rightarrow> 'a fatmem_scheme \<Rightarrow> addr \<Rightarrow> addr \<Rightarrow> addr \<Rightarrow> nat \<Rightarrow> (addr \<times> 'a fatmem_scheme) outcome" where
  "find_item_loop drv s item nme f_item 0 = Inr (f_item, s)"
| "find_item_loop drv s item nme f_item (Suc k) =
     bindE (returns (fat16_get_full_relative_filename (km_ram s) item COS32_MAX_PATH)) (\<lambda>tmp_filename.
     if istrncmp (\<lambda>i. tmp_filename ! i) (str_at (km_ram s) nme) (int COS32_MAX_PATH) = 0
     then bindE (fat16_new_fat_item_for_directory_item drv s item) (\<lambda>(f_item, s).
       find_item_loop drv s (item + 32) nme f_item k)
     else find_item_loop drv s (item + 32) nme f_item k)"

definition fat16_find_item_in_directory ::
  "drive \<Rightarrow> 'a fatmem_scheme \<Rightarrow> fat_directory \<Rightarrow> addr \<Rightarrow> (addr \<times> 'a fatmem_scheme) outcome" where
  "fat16_find_item_in_directory drv s directory nme =
     find_item_loop drv s (fd_item directory) nme 0 (nat (fd_total directory))"

partial_function (option) directory_walk ::
  "drive \<Rightarrow> 'a fatmem_scheme \<Rightarrow> addr \<Rightarrow> addr \<Rightarrow> (addr \<times> 'a fatmem_scheme) outcome option" where
  "directory_walk drv s current_item next_part =
     (if next_part = 0 then Some (Inr (current_item, s))
      else case bindE (deref (fat_items s) current_item) (\<lambda>i.
             if fi_type i \<noteq> FAT_ITEM_TYPE_DIRECTORY then Inr None
             else
               bindE (deref (fat_dirs s) (fi_ptr i)) (\<lambda>d.
               bindE (deref (path_parts s) next_part) (\<lambda>p.
               bindE (fat16_find_item_in_directory drv s d (pp_part p)) (\<lambda>(tmp_item, s).
               bindE (fat16_fat_item_free s current_item) (\<lambda>s.
               Inr (Some (tmp_item, pp_next p, s))))))) of
          Inl e \<Rightarrow> Some (Inl e)
        | Inr None \<Rightarrow> Some (Inr (0, s))
        | Inr (Some (tmp_item, nxt, s')) \<Rightarrow> directory_walk drv s' tmp_item nxt)"

definition fat16_get_directory_entry ::
  "drive \<Rightarrow> 'a fatmem_scheme \<Rightarrow> addr \<Rightarrow> (addr \<times> 'a fatmem_scheme) outcome" where
  "fat16_get_directory_entry drv s path =
     bindE (fs_private s) (\<lambda>private.
     bindE (deref (path_parts s) path) (\<lambda>p.
     bindE (fat16_find_item_in_directory drv s (root_directory private) (pp_part p)) (\<lambda>(root_item, s).
     if root_item = 0 then Inr (0, s)
     else ran (directory_walk drv s root_item (pp_next p)))))"

definition fat16_open :: "drive \<Rightarrow> 'a fatmem_scheme \<Rightarrow> addr \<Rightarrow> u32 \<Rightarrow> (addr \<times> 'a fatmem_scheme) outcome" where
  "fat16_open drv s path mode =
     (if mode \<noteq> FILE_MODE_READ then Inr (ERROR (- ERDONLY), s)
      else
        bindE (kzalloc s 8) (\<lambda>(descriptor, s).
        if descriptor = 0 then Inr (ERROR (- ENOMEM), s)
        else
          bindE (fat16_get_directory_entry drv s path) (\<lambda>(item, s).
          if item = 0 then Inr (ERROR (- EIO), s)
          else Inr (descriptor, s\<lparr>fat_fds := (fat_fds s)(descriptor \<mapsto> \<lparr>ffd_item = item, ffd_pos = 0\<rparr>)\<rparr>))))"

section \<open>Files as the drive holds them\<close>

lemma header16_bounds: "0 \<le> header16 h i" "header16 h i < 65536"
proof -
  have "uint (b :: byte) < 256" "0 \<le> uint b" for b using uint_bounded [of b] by simp_all
  from this [of "h ! i"] this [of "h ! (i + 1)"] show "0 \<le> header16 h i" "header16 h i < 65536"
    by (simp_all add: header16_def)
qed

definition fat_next :: "(nat \<Rightarrow> byte) \<Rightarrow> fat_private \<Rightarrow> nat \<Rightarrow> nat" where
  "fat_next content p c =
     (let a = 512 * nat (reserved_sectors (fp_header p)) + 2 * c in unat (content a) + 256 * unat (content (a + 1)))"

fun cluster_at :: "(nat \<Rightarrow> byte) \<Rightarrow> fat_private \<Rightarrow> nat \<Rightarrow> nat \<Rightarrow> nat" where
  "cluster_at content p c 0 = c"
| "cluster_at content p c (Suc k) = cluster_at content p (fat_next content p c) k"

text \<open>The first \<open>k\<close> links lead on: none of them is a value the code takes for an end or an error.\<close>

fun links_ok :: "(nat \<Rightarrow> byte) \<Rightarrow> fat_private \<Rightarrow> nat \<Rightarrow> nat \<Rightarrow> bool" where
  "links_ok content p c 0 = True"
| "links_ok content p c (Suc k) =
     (fat_next content p c \<notin> {0xFF8, 0xFFF, 0xFF7, 0xFF0, 0xFF6, 0} \<and> links_ok content p (fat_next content p c) k)"

definition cluster_bytes :: "fat_private \<Rightarrow> nat" where
  "cluster_bytes p = nat (sectors_per_cluster (fp_header p)) * 512"

definition cluster_pos :: "fat_private \<Rightarrow> nat \<Rightarrow> int" where
  "cluster_pos p c = fat16_cluster_to_sector p (int c) * 512"

text \<open>Byte \<open>i\<close> of the file that starts at cluster \<open>c\<close>.\<close>

definition file_byte :: "(nat \<Rightarrow> byte) \<Rightarrow> fat_private \<Rightarrow> nat \<Rightarrow> nat \<Rightarrow> byte" where
  "file_byte content p c i =
     content (nat (cluster_pos p (cluster_at content p c (i div cluster_bytes p))) + i mod cluster_bytes p)"

text \<open>The file system's private data and its streams are in place.\<close>

definition fat_mounted :: "'a fatmem_scheme \<Rightarrow> fat_private \<Rightarrow> bool" where
  "fat_mounted s p \<longleftrightarrow> fat_privates s (dk_fs_private (the_disk s)) = Some p \<and>
     fat_read_stream p \<noteq> 0 \<and>
     (\<exists>st. streams s (fat_read_stream p) = Some st \<and> ds_disk st = disk_at s) \<and>
     (\<exists>st. streams s (cluster_read_stream p) = Some st \<and> ds_disk st = disk_at s)"

lemma fat_mounted_stream_step:
  assumes "fat_mounted s p" "ds_disk st = disk_at s"
  shows "fat_mounted (s\<lparr>streams := (streams s)(q \<mapsto> st)\<rparr>) p"
  using assms unfolding fat_mounted_def by auto

lemma fat_mounted_ram [simp]: "fat_mounted (s\<lparr>km_ram := m\<rparr>) p = fat_mounted s p"
  by (simp add: fat_mounted_def)

text \<open>Seek to \<open>pos\<close>, then read \<open>n\<close> bytes there.\<close>

lemma seek_read:
  assumes "drive_serves drv content" "streams s q = Some st" "ds_disk st = disk_at s" "pos + n < 2 ^ 31"
  shows "\<exists>s1 f. diskstreamer_seek s q (int pos) = Inr (0, s1) \<and>
    diskstreamer_read drv s1 q (int n) = Inr (0, map (\<lambda>i. content (pos + i)) [0..<n], s\<lparr>streams := f\<rparr>) \<and>
    (\<forall>p. fat_mounted s p \<longrightarrow> fat_mounted (s\<lparr>streams := f\<rparr>) p)"
proof -
  let ?st = "st\<lparr>ds_pos := int pos\<rparr>"
  let ?s1 = "s\<lparr>streams := (streams s)(q \<mapsto> ?st)\<rparr>"
  have "diskstreamer_seek s q (int pos) = Inr (0, ?s1)"
    using assms(2) by (simp add: diskstreamer_seek_def deref_def)
  moreover have "diskstreamer_read drv ?s1 q (int n) =
      Inr (0, map (\<lambda>i. content (pos + i)) [0..<n], ?s1\<lparr>streams := (streams ?s1)(q \<mapsto> ?st\<lparr>ds_pos := int (pos + n)\<rparr>)\<rparr>)"
    by (rule diskstreamer_read_result [OF assms(1)]) (use assms in simp_all)
  moreover have "?s1\<lparr>streams := (streams ?s1)(q \<mapsto> ?st\<lparr>ds_pos := int (pos + n)\<rparr>)\<rparr> =
      s\<lparr>streams := (streams s)(q \<mapsto> ?st\<lparr>ds_pos := int (pos + n)\<rparr>)\<rparr>" by simp
  moreover have "fat_mounted (s\<lparr>streams := (streams s)(q \<mapsto> ?st\<lparr>ds_pos := int (pos + n)\<rparr>)\<rparr>) p"
    if "fat_mounted s p" for p
    by (rule fat_mounted_stream_step [OF that]) (use assms(3) in simp)
  ultimately show ?thesis by metis
qed

lemma get_fat_entry_content:
  assumes "drive_serves drv content" "fat_mounted s p" "c < 65536"
  shows "\<exists>f. fat16_get_fat_entry drv s (int c) = Inr (int (fat_next content p c), s\<lparr>streams := f\<rparr>) \<and>
    fat_mounted (s\<lparr>streams := f\<rparr>) p"
proof -
  let ?r = "reserved_sectors (fp_header p)"
  have r: "0 \<le> ?r" "?r < 65536" using header16_bounds by (simp_all add: reserved_sectors_def)
  define a where "a = 512 * nat ?r + 2 * c"
  have a: "int a = 512 * ?r + 2 * int c" "a + 2 < 2 ^ 31" using r assms(3) by (simp_all add: a_def)
  have w: "(word_of_int ?r * 512 + word_of_int (int c * 2) :: u32) = word_of_int (int a)"
    unfolding a(1) by (simp add: mult.commute)
  have pos: "sint (word_of_int ?r * 512 + word_of_int (int c * 2) :: u32) = int a"
    unfolding w by (rule sint_word_of_int_u32) (use a(2) in simp_all)
  have fn: "int (fat_next content p c) = uint (content a) + 256 * uint (content (a + 1))"
    by (simp add: fat_next_def a_def Let_def)
  obtain st where st: "streams s (fat_read_stream p) = Some st" "ds_disk st = disk_at s"
    using assms(2) by (auto simp: fat_mounted_def)
  obtain s1 f where sr: "diskstreamer_seek s (fat_read_stream p) (int a) = Inr (0, s1)"
    "diskstreamer_read drv s1 (fat_read_stream p) (int 2) = Inr (0, map (\<lambda>i. content (a + i)) [0..<2], s\<lparr>streams := f\<rparr>)"
    "fat_mounted (s\<lparr>streams := f\<rparr>) p"
    using seek_read [OF assms(1) st a(2)] assms(2) by blast
  have "fs_private s = Inr p" "fat_read_stream p \<noteq> 0" using assms(2) by (auto simp: fs_private_def fat_mounted_def)
  moreover have "map (\<lambda>i. content (a + i)) [0..<2] = [content a, content (a + 1)]" by (simp add: upt_rec)
  ultimately have "fat16_get_fat_entry drv s (int c) = Inr (int (fat_next content p c), s\<lparr>streams := f\<rparr>)"
    using sr(1,2) pos fn unfolding fat16_get_fat_entry_def
    by (simp add: Let_def fat16_get_first_fat_sector_def)
  with sr(3) show ?thesis by blast
qed

lemma fat_next_less: "fat_next content p c < 65536"
  unfolding fat_next_def Let_def
  using unat_u8_less [of "content (512 * nat (reserved_sectors (fp_header p)) + 2 * c)"]
    unat_u8_less [of "content (512 * nat (reserved_sectors (fp_header p)) + 2 * c + 1)"] by linarith

lemma cluster_ahead_content:
  assumes "drive_serves drv content" "fat_mounted s p" "c < 65536" "links_ok content p c k"
  shows "\<exists>f. cluster_ahead_loop drv s (int c) k = Inr (int (cluster_at content p c k), s\<lparr>streams := f\<rparr>) \<and>
    fat_mounted (s\<lparr>streams := f\<rparr>) p"
  using assms(2-4)
proof (induction k arbitrary: s c)
  case 0
  then show ?case by (intro exI [of _ "streams s"]) simp
next
  case (Suc k)
  obtain f where f: "fat16_get_fat_entry drv s (int c) = Inr (int (fat_next content p c), s\<lparr>streams := f\<rparr>)"
    "fat_mounted (s\<lparr>streams := f\<rparr>) p"
    using get_fat_entry_content [OF assms(1) Suc.prems(1,2)] by blast
  obtain g where g: "cluster_ahead_loop drv (s\<lparr>streams := f\<rparr>) (int (fat_next content p c)) k =
      Inr (int (cluster_at content p (fat_next content p c) k), s\<lparr>streams := f\<rparr>\<lparr>streams := g\<rparr>)"
    "fat_mounted (s\<lparr>streams := f\<rparr>\<lparr>streams := g\<rparr>) p"
  proof -
    have "links_ok content p (fat_next content p c) k" using Suc.prems(3) by simp
    from Suc.IH [OF f(2) fat_next_less this] that show ?thesis by blast
  qed
  have "cluster_ahead_loop drv s (int c) (Suc k) = Inr (int (cluster_at content p c (Suc k)), s\<lparr>streams := g\<rparr>)"
    using f(1) g(1) Suc.prems(3) by simp
  with g(2) show ?case by auto
qed

lemma links_ok_mono: "links_ok content p c k \<Longrightarrow> j \<le> k \<Longrightarrow> links_ok content p c j"
proof (induction k arbitrary: c j)
  case (Suc k)
  then show ?case by (cases j) auto
qed simp

text \<open>The chain up to link \<open>K\<close> stays on the part of the disk a stream can address.\<close>

definition chain_ok :: "(nat \<Rightarrow> byte) \<Rightarrow> fat_private \<Rightarrow> nat \<Rightarrow> nat \<Rightarrow> bool" where
  "chain_ok content p c K \<longleftrightarrow> c < 65536 \<and> links_ok content p c K \<and> 0 < cluster_bytes p \<and>
     (\<forall>j\<le>K. 0 \<le> cluster_pos p (cluster_at content p c j) \<and>
            cluster_pos p (cluster_at content p c j) + int (cluster_bytes p) < 2 ^ 31)"

lemma div_mod_step:
  assumes "m mod C + i < (C :: nat)"
  shows "(m + i) div C = m div C" "(m + i) mod C = m mod C + i"
proof -
  have e: "m + i = m div C * C + (m mod C + i)" by (metis add.assoc div_mult_mod_eq)
  have c: "C \<noteq> 0" using assms by simp
  show "(m + i) div C = m div C"
    by (subst e, subst div_mult_self3 [OF c]) (simp only: div_less [OF assms] add_0_right)
  show "(m + i) mod C = m mod C + i"
    by (subst e, subst mod_mult_self3) (simp only: mod_less [OF assms])
qed

text \<open>One cluster's worth of a read.\<close>

lemma read_one_cluster:
  assumes "drive_serves drv content" "fat_mounted s p" "chain_ok content p c K"
    "off div cluster_bytes p \<le> K" "off mod cluster_bytes p + n \<le> cluster_bytes p"
  shows "\<exists>s1 s2 f. fat16_get_cluster_for_offset drv s (int c) (int off) =
      Inr (int (cluster_at content p c (off div cluster_bytes p)), s1) \<and>
    diskstreamer_seek s1 (cluster_read_stream p)
      (fat16_cluster_to_sector p (int (cluster_at content p c (off div cluster_bytes p))) * 512
       + int off smod int (cluster_bytes p)) = Inr (0, s2) \<and>
    diskstreamer_read_to drv s2 (cluster_read_stream p) out (int n) =
      Inr (0, s\<lparr>streams := f, km_ram := write_bytes (km_ram s) out (map (\<lambda>i. file_byte content p c (off + i)) [0..<n])\<rparr>) \<and>
    fat_mounted (s\<lparr>streams := f\<rparr>) p"
proof -
  let ?C = "cluster_bytes p" and ?c = "cluster_at content p c (off div cluster_bytes p)"
  have C: "0 < ?C" "int ?C = sectors_per_cluster (fp_header p) * 512" "links_ok content p c (off div ?C)" "c < 65536"
    using assms(3,4) links_ok_mono by (auto simp: chain_ok_def cluster_bytes_def sectors_per_cluster_def)
  obtain f where f: "cluster_ahead_loop drv s (int c) (off div ?C) = Inr (int ?c, s\<lparr>streams := f\<rparr>)"
    "fat_mounted (s\<lparr>streams := f\<rparr>) p"
    using cluster_ahead_content [OF assms(1,2) C(4,3)] by blast
  have priv: "fs_private s = Inr p" using assms(2) by (simp add: fs_private_def fat_mounted_def)
  have d: "nat (int off sdiv int ?C) = off div ?C" "int off smod int ?C = int (off mod ?C)"
    using C(1) by (simp_all add: sdiv_nonneg smod_nonneg nat_div_distrib zmod_int)
  have g: "fat16_get_cluster_for_offset drv s (int c) (int off) = Inr (int ?c, s\<lparr>streams := f\<rparr>)"
    using C(1,2) f(1) d(1) by (simp add: fat16_get_cluster_for_offset_def priv)
  define a where "a = nat (cluster_pos p ?c) + off mod ?C"
  have cp: "0 \<le> cluster_pos p ?c" "cluster_pos p ?c + int ?C < 2 ^ 31"
    using assms(3,4) by (auto simp: chain_ok_def)
  have a: "a + n < 2 ^ 31" using cp assms(5) by (simp add: a_def)
  have pos: "fat16_cluster_to_sector p (int ?c) * 512 + int off smod int ?C = int a"
    using cp(1) d(2) by (simp add: a_def cluster_pos_def)
  obtain st where st: "streams (s\<lparr>streams := f\<rparr>) (cluster_read_stream p) = Some st" "ds_disk st = disk_at (s\<lparr>streams := f\<rparr>)"
    using f(2) unfolding fat_mounted_def by blast
  obtain s2 h where sr: "diskstreamer_seek (s\<lparr>streams := f\<rparr>) (cluster_read_stream p) (int a) = Inr (0, s2)"
    "diskstreamer_read drv s2 (cluster_read_stream p) (int n) =
       Inr (0, map (\<lambda>i. content (a + i)) [0..<n], s\<lparr>streams := f\<rparr>\<lparr>streams := h\<rparr>)"
    "fat_mounted (s\<lparr>streams := f\<rparr>\<lparr>streams := h\<rparr>) p"
    using seek_read [OF assms(1) st a] f(2) by blast
  have "content (a + i) = file_byte content p c (off + i)" if "i < n" for i
  proof -
    have "off mod ?C + i < ?C" using that assms(5) by linarith
    from div_mod_step [OF this] show ?thesis by (simp add: file_byte_def a_def add.assoc)
  qed
  then have m: "map (\<lambda>i. content (a + i)) [0..<n] = map (\<lambda>i. file_byte content p c (off + i)) [0..<n]" by simp
  show ?thesis
    using g sr unfolding pos
    by (intro exI [of _ "s\<lparr>streams := f\<rparr>"] exI [of _ s2] exI [of _ h]) (simp add: diskstreamer_read_to_def m)
qed

lemma read_along_chain:
  assumes "drive_serves drv content" "chain_ok content p c K"
  shows "fat_mounted s p \<Longrightarrow> off div cluster_bytes p \<le> K \<Longrightarrow> off + n \<le> Suc K * cluster_bytes p \<Longrightarrow>
    off mod cluster_bytes p = 0 \<or> off mod cluster_bytes p + n \<le> cluster_bytes p \<Longrightarrow>
    \<exists>f. fat16_read_internal_from_stream drv s (cluster_read_stream p) (int c) (int off) (int n) out =
      Inr (0, s\<lparr>streams := f, km_ram := write_bytes (km_ram s) out (map (\<lambda>i. file_byte content p c (off + i)) [0..<n])\<rparr>) \<and>
    fat_mounted (s\<lparr>streams := f\<rparr>) p"
proof (induction n arbitrary: s off out rule: less_induct)
  case (less n)
  let ?C = "cluster_bytes p"
  have C: "0 < ?C" "int ?C = sectors_per_cluster (fp_header p) * 512"
    using assms(2) by (auto simp: chain_ok_def cluster_bytes_def sectors_per_cluster_def)
  have priv: "fs_private s = Inr p" using less.prems(1) by (simp add: fs_private_def fat_mounted_def)
  define k where "k = (if n > ?C then ?C else n)"
  have k: "off mod ?C + k \<le> ?C" using less.prems(4) by (auto simp: k_def)
  obtain s1 s2 f where r:
    "fat16_get_cluster_for_offset drv s (int c) (int off) = Inr (int (cluster_at content p c (off div ?C)), s1)"
    "diskstreamer_seek s1 (cluster_read_stream p)
      (fat16_cluster_to_sector p (int (cluster_at content p c (off div ?C))) * 512 + int off smod int ?C) = Inr (0, s2)"
    "diskstreamer_read_to drv s2 (cluster_read_stream p) out (int k) =
      Inr (0, s\<lparr>streams := f, km_ram := write_bytes (km_ram s) out (map (\<lambda>i. file_byte content p c (off + i)) [0..<k])\<rparr>)"
    "fat_mounted (s\<lparr>streams := f\<rparr>) p"
    using read_one_cluster [OF assms(1) less.prems(1) assms(2) less.prems(2) k] by blast
  have tr: "(if int n > int ?C then int ?C else int n) = int k" by (simp add: k_def)
  let ?s3 = "s\<lparr>streams := f, km_ram := write_bytes (km_ram s) out (map (\<lambda>i. file_byte content p c (off + i)) [0..<k])\<rparr>"
  have unfold: "fat16_read_internal_from_stream drv s (cluster_read_stream p) (int c) (int off) (int n) out =
      (if int n - int k > 0
       then fat16_read_internal_from_stream drv ?s3 (cluster_read_stream p) (int c) (int off + int k)
              (int n - int k) (out + word_of_int (int k))
       else Inr (0, ?s3))"
  proof -
    have pos: "(0 < int ?C) = True" "(int j < 0) = False" for j using C(1) by simp_all
    show ?thesis
      by (subst fat16_read_internal_from_stream.simps)
        (simp only: priv bindE.simps Let_def C(2) [symmetric] r(1-3) prod.case tr pos if_False simp_thms)
  qed
  show ?case
  proof (cases "n > ?C")
    case False
    then show ?thesis using unfold r(4) by (intro exI [of _ f]) (simp add: k_def)
  next
    case True
    then have kC: "k = ?C" by (simp add: k_def)
    have "off mod ?C = 0" using less.prems(4) True by auto
    moreover have "(off + ?C) div ?C = Suc (off div ?C)"
    proof -
      have "?C \<noteq> 0" using C(1) by simp
      from div_add_self2 [OF this, of off] show ?thesis by (simp only: Suc_eq_plus1)
    qed
    moreover have "Suc (off div ?C) \<le> K"
    proof -
      have "off div ?C * ?C = off" using \<open>off mod ?C = 0\<close> by (metis add.right_neutral div_mult_mod_eq)
      then have "Suc (off div ?C) * ?C < Suc K * ?C" using less.prems(3) True by simp
      then have "Suc (off div ?C) < Suc K" by (simp only: mult_less_cancel2)
      then show ?thesis by simp
    qed
    moreover have "off + ?C + (n - ?C) \<le> Suc K * ?C" using less.prems(3) True by simp
    ultimately have "\<exists>g. fat16_read_internal_from_stream drv ?s3 (cluster_read_stream p) (int c) (int (off + ?C)) (int (n - ?C))
        (out + of_nat ?C) = Inr (0, ?s3\<lparr>streams := g, km_ram := write_bytes (km_ram ?s3) (out + of_nat ?C)
          (map (\<lambda>i. file_byte content p c (off + ?C + i)) [0..<n - ?C])\<rparr>) \<and> fat_mounted (?s3\<lparr>streams := g\<rparr>) p"
      using True C(1) r(4) by (intro less.IH) simp_all
    then obtain g where g: "fat16_read_internal_from_stream drv ?s3 (cluster_read_stream p) (int c) (int (off + ?C)) (int (n - ?C))
        (out + of_nat ?C) = Inr (0, ?s3\<lparr>streams := g, km_ram := write_bytes (km_ram ?s3) (out + of_nat ?C)
          (map (\<lambda>i. file_byte content p c (off + ?C + i)) [0..<n - ?C])\<rparr>)" "fat_mounted (?s3\<lparr>streams := g\<rparr>) p"
      by blast
    have "[0..<n] = [0..<?C] @ map (\<lambda>i. i + ?C) [0..<n - ?C]"
      using True upt_add_eq_append [of 0 ?C "n - ?C"] by (simp add: map_add_upt)
    then have all: "map (\<lambda>i. file_byte content p c (off + i)) [0..<n] =
        map (\<lambda>i. file_byte content p c (off + i)) [0..<?C] @ map (\<lambda>i. file_byte content p c (off + ?C + i)) [0..<n - ?C]"
      by (simp add: ac_simps)
    have ram: "write_bytes (km_ram ?s3) (out + of_nat ?C) (map (\<lambda>i. file_byte content p c (off + ?C + i)) [0..<n - ?C]) =
        write_bytes (km_ram s) out (map (\<lambda>i. file_byte content p c (off + i)) [0..<n])"
      unfolding all using write_bytes_append [of "km_ram s" out "map (\<lambda>i. file_byte content p c (off + i)) [0..<?C]"]
      by (simp add: kC)
    have "int n - int k = int (n - ?C)" "int off + int k = int (off + ?C)" using True kC by simp_all
    then have "fat16_read_internal_from_stream drv s (cluster_read_stream p) (int c) (int off) (int n) out =
        Inr (0, s\<lparr>streams := g, km_ram := write_bytes (km_ram s) out (map (\<lambda>i. file_byte content p c (off + i)) [0..<n])\<rparr>)"
      unfolding unfold using g(1) True kC unfolding ram by simp
    moreover have "fat_mounted (s\<lparr>streams := g\<rparr>) p" using g(2) by (simp add: fat_mounted_def)
    ultimately show ?thesis by blast
  qed
qed

section \<open>Properties\<close>

text \<open>C10: a read that starts on a cluster boundary, or does not leave its cluster, puts at \<open>out\<close>
  exactly the file's bytes from the offset on, following the cluster chain of the FAT, and nothing
  else of memory changes.\<close>

theorem fat16_read_internal_content:
  assumes "drive_serves drv content" "fat_mounted s p" "chain_ok content p c K"
    "off div cluster_bytes p \<le> K" "off + n \<le> Suc K * cluster_bytes p"
    "off mod cluster_bytes p = 0 \<or> off mod cluster_bytes p + n \<le> cluster_bytes p"
  shows "\<exists>f. fat16_read_internal drv s (int c) (int off) (int n) out =
      Inr (0, s\<lparr>streams := f, km_ram := write_bytes (km_ram s) out (map (\<lambda>i. file_byte content p c (off + i)) [0..<n])\<rparr>)"
proof -
  have "fs_private s = Inr p" using assms(2) by (simp add: fs_private_def fat_mounted_def)
  then show ?thesis
    using read_along_chain [OF assms(1,3,2,4-6)] by (auto simp: fat16_read_internal_def)
qed

text \<open>
  A mounted volume for concrete runs: one sector a cluster, the FAT in sector 1, cluster 2 in sector
  10; the file at cluster 2 goes on in cluster 4, and every other byte is its sector's number.
\<close>

definition demo_content :: "nat \<Rightarrow> byte" where
  "demo_content a = (if a = 516 then 4 else if a = 517 then 0 else of_nat (a div 512))"

definition demo_private :: fat_private where
  "demo_private = \<lparr>fp_header = (replicate 62 0)[13 := 1, 14 := 1],
     root_directory = \<lparr>fd_item = 0, fd_total = 0, fd_sector_pos = 5, fd_ending_sector_pos = 10\<rparr>,
     cluster_read_stream = 4096, fat_read_stream = 8192, directory_stream = 12288\<rparr>"

definition demo_fatmem :: fatmem where
  "demo_fatmem = \<lparr>km_heap = demo_heap, km_ram = \<lambda>a. 7, current_directory = 0, current_chunk = 0,
     fault_handlers = replicate 16 0, chunks = \<lambda>p. None, pfaults = \<lambda>p. None, disk_at = 64,
     the_disk = \<lparr>dk_type = 0, dk_filesystem = 128, dk_id = 0, dk_sector_size = 512, dk_fs_private = 256\<rparr>,
     streams = [4096 \<mapsto> \<lparr>ds_pos = 0, ds_disk = 64\<rparr>, 8192 \<mapsto> \<lparr>ds_pos = 0, ds_disk = 64\<rparr>],
     path_roots = \<lambda>p. None, path_parts = \<lambda>p. None, fat16_fs_at = 128, fat_privates = [256 \<mapsto> demo_private],
     fat_dirs = \<lambda>p. None, fat_items = \<lambda>p. None, fat_fds = \<lambda>p. None\<rparr>"

lemma demo_fat_facts:
  "fat_mounted demo_fatmem demo_private" "cluster_bytes demo_private = 512"
  "fat_next demo_content demo_private 2 = 4"
  "cluster_pos demo_private 4 = 6144"
  "chain_ok demo_content demo_private 2 1"
proof -
  show "fat_mounted demo_fatmem demo_private"
    by (simp add: fat_mounted_def demo_fatmem_def demo_private_def)
  show c: "cluster_bytes demo_private = 512"
    by (simp add: cluster_bytes_def demo_private_def sectors_per_cluster_def)
  show n: "fat_next demo_content demo_private 2 = 4"
    by (simp add: fat_next_def demo_private_def reserved_sectors_def header16_def demo_content_def)
  show "cluster_pos demo_private 4 = 6144"
    by (simp add: cluster_pos_def fat16_cluster_to_sector_def demo_private_def sectors_per_cluster_def)
  moreover have "cluster_pos demo_private 2 = 5120"
    by (simp add: cluster_pos_def fat16_cluster_to_sector_def demo_private_def sectors_per_cluster_def)
  ultimately show "chain_ok demo_content demo_private 2 1"
    by (auto simp: chain_ok_def c n le_Suc_eq)
qed

lemma fat16_read_internal_content_witness:
  "\<exists>s'. fat16_read_internal (drive_of demo_content) demo_fatmem 2 512 2 0x5000 = Inr (0, s') \<and>
     read_bytes (km_ram s') 0x5000 2 = [12, 12]"
proof -
  have "\<exists>f. fat16_read_internal (drive_of demo_content) demo_fatmem (int 2) (int 512) (int 2) 0x5000 =
      Inr (0, demo_fatmem\<lparr>streams := f, km_ram := write_bytes (km_ram demo_fatmem) 0x5000
        (map (\<lambda>i. file_byte demo_content demo_private 2 (512 + i)) [0..<2])\<rparr>)"
    by (rule fat16_read_internal_content [OF drive_of_serves demo_fat_facts(1,5)])
      (simp_all add: demo_fat_facts)
  moreover have bytes: "map (\<lambda>i. file_byte demo_content demo_private 2 (512 + i)) [0..<2] = [12, 12]"
    by (simp add: file_byte_def demo_fat_facts upt_rec) (simp add: demo_content_def)
  ultimately obtain f where f: "fat16_read_internal (drive_of demo_content) demo_fatmem 2 512 2 0x5000 =
      Inr (0, demo_fatmem\<lparr>streams := f, km_ram := write_bytes (km_ram demo_fatmem) 0x5000 [12, 12]\<rparr>)"
    by (auto simp only: bytes of_nat_numeral)
  have "read_bytes (write_bytes (km_ram demo_fatmem) 0x5000 [12, 12]) 0x5000 2 = [12, 12]"
    using read_write_bytes [of "[12, 12]" "km_ram demo_fatmem" "0x5000"] by (simp add: numeral_2_eq_2 [symmetric])
  with f show ?thesis by auto
qed

end
