(* ===== verification/File.thy ===== *)
theory File
  imports FAT16
begin

text \<open>
  \<open>src/fs/file.c\<close>: the table of file systems, the table of 128 file descriptors, and
  \<open>fopen\<close>, \<open>fread\<close>, \<open>fseek\<close>, \<open>fstat\<close> and \<open>fclose\<close>, which go through the
  function pointers of the descriptor's file system.  \<open>fs_lookup\<close> is what those pointers lead to;
  \<open>fat16_ops\<close> is the only file system the kernel has.
\<close>

section \<open>State\<close>

abbreviation (input) FILE_MODE_WRITE :: u32 where "FILE_MODE_WRITE \<equiv> 1"
abbreviation (input) FILE_MODE_APPEND :: u32 where "FILE_MODE_APPEND \<equiv> 2"
abbreviation (input) FILE_MODE_INVALID :: u32 where "FILE_MODE_INVALID \<equiv> 3"

record file_descriptor =
  fdesc_index :: int
  fdesc_filesystem :: addr
  fdesc_private :: addr
  fdesc_disk :: addr

record filemem = fatmem +
  filesystems :: "addr list"
  file_descriptors :: "addr list"
  fdescs :: "addr \<Rightarrow> file_descriptor option"

record 's fs_ops =
  fs_resolve_op :: "'s \<Rightarrow> (int \<times> 's) outcome"
  fs_open_op :: "'s \<Rightarrow> addr \<Rightarrow> u32 \<Rightarrow> (addr \<times> 's) outcome"
  fs_close_op :: "'s \<Rightarrow> addr \<Rightarrow> (int \<times> 's) outcome"
  fs_read_op :: "'s \<Rightarrow> addr \<Rightarrow> u32 \<Rightarrow> u32 \<Rightarrow> addr \<Rightarrow> (int \<times> 's) outcome"
  fs_seek_op :: "'s \<Rightarrow> addr \<Rightarrow> u32 \<Rightarrow> u32 \<Rightarrow> (int \<times> 's) outcome"
  fs_stat_op :: "'s \<Rightarrow> addr \<Rightarrow> (int \<times> file_stat option) outcome"

type_synonym 's fs_table = "addr \<Rightarrow> 's fs_ops option"

definition fat16_ops :: "drive \<Rightarrow> 'a fatmem_scheme fs_ops" where
  "fat16_ops drv = \<lparr>fs_resolve_op = fat16_resolve drv, fs_open_op = fat16_open drv, fs_close_op = fat16_close,
     fs_read_op = fat16_read drv, fs_seek_op = fat16_seek, fs_stat_op = fat16_stat\<rparr>"

section \<open>File systems\<close>

text \<open>The index of the first free slot, where there is one.\<close>

fun first_free :: "addr list \<Rightarrow> nat \<Rightarrow> nat option" where
  "first_free [] i = None"
| "first_free (p # ps) i = (if p = 0 then Some i else first_free ps (Suc i))"

definition fs_get_free_filesystem :: "'a filemem_scheme \<Rightarrow> nat option" where
  "fs_get_free_filesystem s = first_free (filesystems s) 0"

definition fs_insert_filesystem :: "'a filemem_scheme \<Rightarrow> addr \<Rightarrow> 'a filemem_scheme outcome" where
  "fs_insert_filesystem s filesystem =
     (if filesystem = 0 then panic ''NULL filesystem provided''
      else case fs_get_free_filesystem s of
        None \<Rightarrow> panic ''No more filesystem slots available, failed to register filesystem''
      | Some i \<Rightarrow> Inr (s\<lparr>filesystems := (filesystems s)[i := filesystem]\<rparr>))"

text \<open>\<open>fs_load\<close> with \<open>fs_static_load\<close>; \<open>fat16_init\<close> returns the address of \<open>fat16_fs\<close>.\<close>

definition fs_load :: "'a filemem_scheme \<Rightarrow> 'a filemem_scheme outcome" where
  "fs_load s = fs_insert_filesystem (s\<lparr>filesystems := replicate 10 0\<rparr>) (fat16_fs_at s)"

definition fs_init :: "'a filemem_scheme \<Rightarrow> 'a filemem_scheme outcome" where
  "fs_init s = fs_load (s\<lparr>file_descriptors := replicate 128 0\<rparr>)"

fun resolve_loop ::
  "'a filemem_scheme fs_table \<Rightarrow> addr list \<Rightarrow> 'a filemem_scheme \<Rightarrow> (addr \<times> 'a filemem_scheme) outcome" where
  "resolve_loop fs_lookup [] s = Inr (0, s)"
| "resolve_loop fs_lookup (fs # rest) s =
     (if fs = 0 then resolve_loop fs_lookup rest s
      else
        bindE (deref fs_lookup fs) (\<lambda>ops.
        bindE (fs_resolve_op ops s) (\<lambda>(res, s).
        if res = 0 then Inr (fs, s) else resolve_loop fs_lookup rest s)))"

definition fs_resolve :: "'a filemem_scheme fs_table \<Rightarrow> 'a filemem_scheme \<Rightarrow> (addr \<times> 'a filemem_scheme) outcome" where
  "fs_resolve fs_lookup s = resolve_loop fs_lookup (filesystems s) s"

text \<open>\<open>disk_search_and_init\<close> of \<open>disk.c\<close>.\<close>

definition disk_search_and_init :: "'a filemem_scheme fs_table \<Rightarrow> 'a filemem_scheme \<Rightarrow> 'a filemem_scheme outcome" where
  "disk_search_and_init fs_lookup s =
     (let s = s\<lparr>the_disk := \<lparr>dk_type = 0, dk_filesystem = 0, dk_id = 0, dk_sector_size = 512, dk_fs_private = 0\<rparr>\<rparr> in
      bindE (fs_resolve fs_lookup s) (\<lambda>(fs, s).
      Inr (s\<lparr>the_disk := (the_disk s)\<lparr>dk_filesystem := fs\<rparr>\<rparr>)))"

section \<open>Descriptors\<close>

definition file_new_descriptor :: "'a filemem_scheme \<Rightarrow> (int \<times> addr \<times> 'a filemem_scheme) outcome" where
  "file_new_descriptor s =
     (case first_free (file_descriptors s) 0 of
        None \<Rightarrow> Inr (- ENOMEM, 0, s)
      | Some i \<Rightarrow>
          bindE (kzalloc s 16) (\<lambda>(desc, s).
          if desc = 0 then Inl (BadPointer 0)
          else Inr (0, desc, s\<lparr>file_descriptors := (file_descriptors s)[i := desc],
                 fdescs := (fdescs s)(desc \<mapsto> \<lparr>fdesc_index = int i + 1, fdesc_filesystem = 0,
                   fdesc_private = 0, fdesc_disk = 0\<rparr>)\<rparr>)))"

definition file_get_descriptor :: "'a filemem_scheme \<Rightarrow> int \<Rightarrow> addr" where
  "file_get_descriptor s fd =
     (if fd \<le> 0 \<or> fd > 128 then 0 else file_descriptors s ! nat (fd - 1))"

definition file_get_mode_by_string :: "cview \<Rightarrow> u32" where
  "file_get_mode_by_string str =
     (if strncmp str (\<lambda>i. [0x72, 0] ! i) 1 = 0 then FILE_MODE_READ
      else if strncmp str (\<lambda>i. [0x77, 0] ! i) 1 = 0 then FILE_MODE_WRITE
      else if strncmp str (\<lambda>i. [0x61, 0] ! i) 1 = 0 then FILE_MODE_APPEND
      else FILE_MODE_INVALID)"

definition fread ::
  "'a filemem_scheme fs_table \<Rightarrow> 'a filemem_scheme \<Rightarrow> addr \<Rightarrow> u32 \<Rightarrow> u32 \<Rightarrow> int \<Rightarrow> (int \<times> 'a filemem_scheme) outcome" where
  "fread fs_lookup s ptr sz nmemb fd =
     (if sz = 0 \<or> nmemb = 0 \<or> fd < 1 then Inr (- EINVARG, s)
      else let desc = file_get_descriptor s fd in
        if desc = 0 then Inr (- EINVARG, s)
        else
          bindE (deref (fdescs s) desc) (\<lambda>d.
          bindE (deref fs_lookup (fdesc_filesystem d)) (\<lambda>ops.
          fs_read_op ops s (fdesc_private d) sz nmemb ptr)))"

text \<open>
  \<open>fopen\<close> before its label \<open>out\<close>: there a negative result becomes 0.  \<open>mode_str\<close> is a view
  of the mode string.
\<close>

definition fopen_body ::
  "'a filemem_scheme fs_table \<Rightarrow> 'a filemem_scheme \<Rightarrow> addr \<Rightarrow> cview \<Rightarrow> (int \<times> 'a filemem_scheme) outcome" where
  "fopen_body fs_lookup s filename mode_str =
     bindE (pathparser_parse s filename) (\<lambda>(root_path, s).
     if root_path = 0 then Inr (- EINVARG, s)
     else
       bindE (deref (path_roots s) root_path) (\<lambda>r.
       if pr_first r = 0 then Inr (- EINVARG, s)
       else if disk_get s (pr_drive_no r) = 0 then Inr (- EINVARG, s)
       else if dk_filesystem (the_disk s) = 0 then Inr (- EINVARG, s)
       else
         let mode = file_get_mode_by_string mode_str in
         if mode = FILE_MODE_INVALID then Inr (- EINVARG, s)
         else
           let fs = dk_filesystem (the_disk s) in
           bindE (deref fs_lookup fs) (\<lambda>ops.
           bindE (fs_open_op ops s (pr_first r) mode) (\<lambda>(descriptor_private_data, s).
           if descriptor_private_data = 0 then Inr (- EIO, s)
           else if ISERR (sint descriptor_private_data) then Inr (ERROR_I descriptor_private_data, s)
           else
             bindE (file_new_descriptor s) (\<lambda>(res, desc, s).
             if res < 0 then Inr (res, s)
             else
               bindE (deref (fdescs s) desc) (\<lambda>d.
               Inr (fdesc_index d, s\<lparr>fdescs := (fdescs s)(desc \<mapsto> d\<lparr>fdesc_filesystem := fs,
                 fdesc_private := descriptor_private_data, fdesc_disk := disk_at s\<rparr>)\<rparr>)))))))"

definition fopen ::
  "'a filemem_scheme fs_table \<Rightarrow> 'a filemem_scheme \<Rightarrow> addr \<Rightarrow> cview \<Rightarrow> (int \<times> 'a filemem_scheme) outcome" where
  "fopen fs_lookup s filename mode_str =
     bindE (fopen_body fs_lookup s filename mode_str) (\<lambda>(res, s). Inr (if res < 0 then 0 else res, s))"

definition fseek ::
  "'a filemem_scheme fs_table \<Rightarrow> 'a filemem_scheme \<Rightarrow> int \<Rightarrow> int \<Rightarrow> u32 \<Rightarrow> (int \<times> 'a filemem_scheme) outcome" where
  "fseek fs_lookup s fd offset whence =
     (let desc = file_get_descriptor s fd in
      if desc = 0 then Inr (- EIO, s)
      else
        bindE (deref (fdescs s) desc) (\<lambda>d.
        bindE (deref fs_lookup (fdesc_filesystem d)) (\<lambda>ops.
        fs_seek_op ops s (fdesc_private d) (word_of_int offset) whence)))"

definition fstat ::
  "'a filemem_scheme fs_table \<Rightarrow> 'a filemem_scheme \<Rightarrow> int \<Rightarrow> (int \<times> file_stat option) outcome" where
  "fstat fs_lookup s fd =
     (let desc = file_get_descriptor s fd in
      if desc = 0 then Inr (- EIO, None)
      else
        bindE (deref (fdescs s) desc) (\<lambda>d.
        bindE (deref fs_lookup (fdesc_filesystem d)) (\<lambda>ops.
        fs_stat_op ops s (fdesc_private d))))"

definition fclose ::
  "'a filemem_scheme fs_table \<Rightarrow> 'a filemem_scheme \<Rightarrow> int \<Rightarrow> (int \<times> 'a filemem_scheme) outcome" where
  "fclose fs_lookup s fd =
     (let desc = file_get_descriptor s fd in
      if desc = 0 then Inr (- EIO, s)
      else
        bindE (deref (fdescs s) desc) (\<lambda>d.
        bindE (deref fs_lookup (fdesc_filesystem d)) (\<lambda>ops.
        fs_close_op ops s (fdesc_private d))))"

end
