(* ===== verification/Kernel_State.thy ===== *)
theory Kernel_State
  imports File C_Array C_String
begin

text \<open>
  The state of the kernel above the file layer: the structures of \<open>src/task\<close>, \<open>src/video\<close>,
  \<open>src/keyboard\<close>, \<open>src/loader\<close> and the globals of those directories, of \<open>kernel.c\<close>,
  \<open>idt.c\<close> and \<open>pit.c\<close>.  Objects the kernel allocates are kept in one store per structure,
  from addresses to their contents; buffers of bytes (pixels, terminal text, arguments, programs)
  are bytes of memory.  The theory also holds what every part uses: \<open>kernel_page\<close>,
  \<open>is_kernel_page\<close>, \<open>task_page\<close> and accesses through the page directory in force.
\<close>

section \<open>Structures\<close>

record registers =
  r_edi :: u32
  r_esi :: u32
  r_ebp :: u32
  r_ebx :: u32
  r_edx :: u32
  r_ecx :: u32
  r_eax :: u32
  r_ip :: u32
  r_cs :: u32
  r_flags :: u32
  r_esp :: u32
  r_ss :: u32

definition zero_registers :: registers where
  "zero_registers = \<lparr>r_edi = 0, r_esi = 0, r_ebp = 0, r_ebx = 0, r_edx = 0, r_ecx = 0, r_eax = 0,
     r_ip = 0, r_cs = 0, r_flags = 0, r_esp = 0, r_ss = 0\<rparr>"

text \<open>\<open>long\<close> has 32 bits on the target.\<close>

record task =
  tk_page_directory :: addr
  tk_registers :: registers
  tk_awake :: bool
  tk_awake_at :: int
  tk_process :: addr
  tk_next :: addr
  tk_prev :: addr

definition zero_task :: task where
  "zero_task = \<lparr>tk_page_directory = 0, tk_registers = zero_registers, tk_awake = False,
     tk_awake_at = 0, tk_process = 0, tk_next = 0, tk_prev = 0\<rparr>"

datatype processfiletype = FILE_TYPE_BINARY | FILE_TYPE_ELF

record keyboard_buffer =
  kb_buffer :: "byte list"
  kb_tail :: int
  kb_head :: int

record process_arguments =
  pa_argc :: int
  pa_argv :: addr

text \<open>
  \<open>p_ptr\<close> is the union of \<open>ptr\<close> and \<open>elf_file\<close>; the array \<open>filename\<close> is kept in memory, at
  offset 1 of the structure.
\<close>

record process =
  p_id :: byte
  p_task :: addr
  p_allocations :: "addr list"
  p_filetype :: processfiletype
  p_flags :: byte
  p_parent :: addr
  p_ptr :: addr
  p_stack :: addr
  p_size :: u32
  p_started :: bool
  p_awake :: bool
  p_subprocess :: bool
  p_keyboard :: keyboard_buffer
  p_arguments :: process_arguments
  p_video :: addr

definition zero_process :: process where
  "zero_process = \<lparr>p_id = 0, p_task = 0, p_allocations = replicate 1024 0,
     p_filetype = FILE_TYPE_BINARY, p_flags = 0, p_parent = 0, p_ptr = 0, p_stack = 0, p_size = 0,
     p_started = False, p_awake = False, p_subprocess = False,
     p_keyboard = \<lparr>kb_buffer = replicate 1024 0, kb_tail = 0, kb_head = 0\<rparr>,
     p_arguments = \<lparr>pa_argc = 0, pa_argv = 0\<rparr>, p_video = 0\<rparr>"

record terminal_properties =
  tp_index :: int
  tp_color :: byte
  tp_data :: addr
  tp_y_scroll :: int
  tp_video :: addr

record video =
  v_properties :: terminal_properties
  v_ptr :: addr
  v_backbuffer :: addr
  v_rectangles :: addr
  v_rectangle_last :: addr
  v_printing_rectangle :: addr
  v_flags :: byte

record rectangle_item =
  ri_rectangle :: addr
  ri_next :: addr

text \<open>\<open>properties.scale\<close>, a float nothing reads, is left out.\<close>

record video_rectangle =
  vr_name :: "byte list"
  vr_width :: int
  vr_height :: int
  vr_x :: int
  vr_y :: int
  vr_redraw :: bool
  vr_pixels :: addr
  vr_shared :: int
  vr_flags :: byte

record video_font =
  vf_name :: "byte list"
  vf_data :: addr
  vf_datasize :: int
  vf_width :: int
  vf_height :: int
  vf_max :: int
  vf_bytes :: int
  vf_next :: addr

text \<open>
  The first member of \<open>struct elf_file\<close> and of \<open>struct library\<close>, \<open>filename\<close> and \<open>name\<close>, is
  kept in memory, at the structure's own address.
\<close>

record elf_file =
  ef_memory :: addr
  ef_virtual_base :: addr
  ef_virtual_end :: addr
  ef_physical_base :: addr
  ef_physical_end :: addr
  ef_library :: addr

record library =
  lib_sections :: addr
  lib_symbols :: addr
  lib_next :: addr

record keyboard_listener =
  kl_keypress :: addr
  kl_special :: addr
  kl_next :: addr

record keyboard =
  k_init :: addr
  k_next :: addr

record idt_desc =
  idt_offset_1 :: u16
  idt_selector :: u16
  idt_zero :: byte
  idt_type_attr :: byte
  idt_offset_2 :: u16

section \<open>The kernel's state\<close>

record kstate = filemem +
  kernel_paging_chunk :: addr
  ticks_since_initialized :: int
  kernel_terminal_properties :: terminal_properties
  video_default :: addr
  console_font :: addr
  font_head :: addr
  font_last :: addr
  published_video_rectangles :: "addr list"
  videos :: "addr \<Rightarrow> video option"
  rectangles :: "addr \<Rightarrow> video_rectangle option"
  rectangle_items :: "addr \<Rightarrow> rectangle_item option"
  fonts :: "addr \<Rightarrow> video_font option"
  current_task :: addr
  task_head :: addr
  task_tail :: addr
  tasks :: "addr \<Rightarrow> task option"
  current_process :: addr
  process_is_running :: bool
  processes :: "addr list"
  process_at :: "addr \<Rightarrow> process option"
  elf_files :: "addr \<Rightarrow> elf_file option"
  strtok_sp :: addr
  carrays :: "addr \<Rightarrow> carray option"
  library_head :: addr
  library_tail :: addr
  libraries :: "addr \<Rightarrow> library option"
  keyboard_list_head :: addr
  keyboard_list_last :: addr
  keyboards :: "addr \<Rightarrow> keyboard option"
  special_keys :: "bool list"
  keyboard_listener_head :: addr
  keyboard_listener_last :: addr
  listeners :: "addr \<Rightarrow> keyboard_listener option"
  idt_table :: "idt_desc list"
  interrupt_callbacks :: "addr list"
  isr80h_commands :: "addr list"

text \<open>Assignment to members of an object through a pointer to it.\<close>

definition upd_task :: "addr \<Rightarrow> (task \<Rightarrow> task) \<Rightarrow> 'a kstate_scheme \<Rightarrow> 'a kstate_scheme outcome" where
  "upd_task p f s = bindE (deref (tasks s) p) (\<lambda>t. Inr (s\<lparr>tasks := (tasks s)(p \<mapsto> f t)\<rparr>))"

definition upd_process :: "addr \<Rightarrow> (process \<Rightarrow> process) \<Rightarrow> 'a kstate_scheme \<Rightarrow> 'a kstate_scheme outcome" where
  "upd_process p f s = bindE (deref (process_at s) p) (\<lambda>t. Inr (s\<lparr>process_at := (process_at s)(p \<mapsto> f t)\<rparr>))"

definition upd_video :: "addr \<Rightarrow> (video \<Rightarrow> video) \<Rightarrow> 'a kstate_scheme \<Rightarrow> 'a kstate_scheme outcome" where
  "upd_video p f s = bindE (deref (videos s) p) (\<lambda>t. Inr (s\<lparr>videos := (videos s)(p \<mapsto> f t)\<rparr>))"

definition upd_rectangle ::
  "addr \<Rightarrow> (video_rectangle \<Rightarrow> video_rectangle) \<Rightarrow> 'a kstate_scheme \<Rightarrow> 'a kstate_scheme outcome" where
  "upd_rectangle p f s = bindE (deref (rectangles s) p) (\<lambda>t. Inr (s\<lparr>rectangles := (rectangles s)(p \<mapsto> f t)\<rparr>))"

section \<open>Paging the kernel and the tasks\<close>

definition kernel_page :: "'a kstate_scheme \<Rightarrow> 'a kstate_scheme outcome" where
  "kernel_page s = paging_switch s (kernel_paging_chunk s)"

definition kernel_get_page_directory :: "'a kstate_scheme \<Rightarrow> addr outcome" where
  "kernel_get_page_directory s = bindE (deref (chunks s) (kernel_paging_chunk s)) (\<lambda>c. Inr (directory_entry c))"

definition is_kernel_page :: "'a kstate_scheme \<Rightarrow> bool outcome" where
  "is_kernel_page s = bindE (kernel_get_page_directory s) (\<lambda>d. Inr (current_directory s = d))"

text \<open>\<open>ASSERT(is_kernel_page())\<close> in the function \<open>fn\<close>.\<close>

definition assert_kernel_page :: "string \<Rightarrow> 'a kstate_scheme \<Rightarrow> unit outcome" where
  "assert_kernel_page fn s = bindE (is_kernel_page s) (\<lambda>b. ASSERT fn b)"

definition task_page_task :: "'a kstate_scheme \<Rightarrow> addr \<Rightarrow> 'a kstate_scheme outcome" where
  "task_page_task s task = bindE (deref (tasks s) task) (\<lambda>t. paging_switch s (tk_page_directory t))"

definition task_page :: "'a kstate_scheme \<Rightarrow> 'a kstate_scheme outcome" where
  "task_page s = task_page_task s (current_task s)"

section \<open>Accesses through the page directory in force\<close>

text \<open>
  The processor's memory management unit is a parameter: from the memory, the address of the page
  directory and a linear address to the physical address, or \<open>None\<close> for a page fault.  The code
  relies on it following the entries of the directory and of the table it names, which
  \<open>mmu_translates\<close> states for pages whose two entries are present.
\<close>

type_synonym mmu = "ram \<Rightarrow> addr \<Rightarrow> addr \<Rightarrow> addr option"

definition page_present :: "ram \<Rightarrow> addr \<Rightarrow> addr \<Rightarrow> bool" where
  "page_present m d v \<longleftrightarrow> load32 m (d + 4 * of_nat (dir_index v)) AND 1 \<noteq> 0 \<and> entry_of d m v AND 1 \<noteq> 0"

definition mmu_translates :: "mmu \<Rightarrow> bool" where
  "mmu_translates mmu \<longleftrightarrow> (\<forall>m d v. page_present m d v \<longrightarrow>
     mmu m d v = Some ((entry_of d m v AND 0xfffff000) + (v AND 0xfff)))"

definition read_virtual :: "mmu \<Rightarrow> 'a kstate_scheme \<Rightarrow> addr \<Rightarrow> byte outcome" where
  "read_virtual mmu s v =
     (case mmu (km_ram s) (current_directory s) v of None \<Rightarrow> Inl (BadPointer v) | Some p \<Rightarrow> Inr (km_ram s p))"

definition write_virtual :: "mmu \<Rightarrow> 'a kstate_scheme \<Rightarrow> addr \<Rightarrow> byte \<Rightarrow> 'a kstate_scheme outcome" where
  "write_virtual mmu s v b =
     (case mmu (km_ram s) (current_directory s) v of None \<Rightarrow> Inl (BadPointer v)
      | Some p \<Rightarrow> Inr (s\<lparr>km_ram := (km_ram s)(p := b)\<rparr>))"

definition read32_virtual :: "mmu \<Rightarrow> 'a kstate_scheme \<Rightarrow> addr \<Rightarrow> u32 outcome" where
  "read32_virtual mmu s v =
     bindE (read_virtual mmu s v) (\<lambda>b0. bindE (read_virtual mmu s (v + 1)) (\<lambda>b1.
     bindE (read_virtual mmu s (v + 2)) (\<lambda>b2. bindE (read_virtual mmu s (v + 3)) (\<lambda>b3.
     Inr (ucast b0 OR push_bit 8 (ucast b1) OR push_bit 16 (ucast b2) OR push_bit 24 (ucast b3))))))"

definition write32_virtual :: "mmu \<Rightarrow> 'a kstate_scheme \<Rightarrow> addr \<Rightarrow> u32 \<Rightarrow> 'a kstate_scheme outcome" where
  "write32_virtual mmu s v x =
     bindE (write_virtual mmu s v (ucast x)) (\<lambda>s. bindE (write_virtual mmu s (v + 1) (ucast (drop_bit 8 x))) (\<lambda>s.
     bindE (write_virtual mmu s (v + 2) (ucast (drop_bit 16 x))) (\<lambda>s.
     write_virtual mmu s (v + 3) (ucast (drop_bit 24 x)))))"

text \<open>\<open>strncpy\<close> and \<open>memcpy\<close> between two virtual addresses.\<close>

fun strncpy_virtual :: "mmu \<Rightarrow> 'a kstate_scheme \<Rightarrow> addr \<Rightarrow> addr \<Rightarrow> nat \<Rightarrow> nat \<Rightarrow> 'a kstate_scheme outcome" where
  "strncpy_virtual mmu s dest src i 0 = Inr s"
| "strncpy_virtual mmu s dest src i (Suc k) =
     bindE (read_virtual mmu s (src + of_nat i)) (\<lambda>c.
     if c \<noteq> 0
     then bindE (write_virtual mmu s (dest + of_nat i) c) (\<lambda>s. strncpy_virtual mmu s dest src (Suc i) k)
     else write_virtual mmu s (dest + of_nat i) 0)"

fun memcpy_virtual :: "mmu \<Rightarrow> 'a kstate_scheme \<Rightarrow> addr \<Rightarrow> addr \<Rightarrow> nat \<Rightarrow> nat \<Rightarrow> 'a kstate_scheme outcome" where
  "memcpy_virtual mmu s dest src i 0 = Inr s"
| "memcpy_virtual mmu s dest src i (Suc k) =
     bindE (read_virtual mmu s (src + of_nat i)) (\<lambda>c.
     bindE (write_virtual mmu s (dest + of_nat i) c) (\<lambda>s. memcpy_virtual mmu s dest src (Suc i) k))"

text \<open>Whether a kernel routine comes back to its caller, or left for the user's program.\<close>

datatype flow = Returns | EntersTask

section \<open>A kernel with empty tables\<close>

text \<open>The state the examples start from: the small heap of \<open>demo_heap\<close> and nothing created.\<close>

definition blank_kernel :: kstate where
  "blank_kernel = \<lparr>km_heap = demo_heap, km_ram = \<lambda>a. 0, current_directory = 0, current_chunk = 0,
     fault_handlers = replicate 16 0, chunks = \<lambda>p. None, pfaults = \<lambda>p. None, disk_at = 64,
     the_disk = \<lparr>dk_type = 0, dk_filesystem = 0, dk_id = 0, dk_sector_size = 512, dk_fs_private = 0\<rparr>,
     streams = \<lambda>p. None, path_roots = \<lambda>p. None, path_parts = \<lambda>p. None, fat16_fs_at = 128,
     fat_privates = \<lambda>p. None, fat_dirs = \<lambda>p. None, fat_items = \<lambda>p. None, fat_fds = \<lambda>p. None,
     filesystems = replicate 10 0, file_descriptors = replicate 128 0, fdescs = \<lambda>p. None,
     kernel_paging_chunk = 0, ticks_since_initialized = 0,
     kernel_terminal_properties = \<lparr>tp_index = 0, tp_color = 0, tp_data = 0, tp_y_scroll = 0, tp_video = 0\<rparr>,
     video_default = 0, console_font = 0, font_head = 0, font_last = 0,
     published_video_rectangles = replicate 64 0, videos = \<lambda>p. None, rectangles = \<lambda>p. None,
     rectangle_items = \<lambda>p. None, fonts = \<lambda>p. None, current_task = 0, task_head = 0, task_tail = 0,
     tasks = \<lambda>p. None, current_process = 0, process_is_running = False, processes = replicate 12 0,
     process_at = \<lambda>p. None, elf_files = \<lambda>p. None, strtok_sp = 0, carrays = \<lambda>p. None, library_head = 0,
     library_tail = 0, libraries = \<lambda>p. None, keyboard_list_head = 0, keyboard_list_last = 0,
     keyboards = \<lambda>p. None, special_keys = replicate 17 False, keyboard_listener_head = 0,
     keyboard_listener_last = 0, listeners = \<lambda>p. None, idt_table = [], interrupt_callbacks = replicate 512 0,
     isr80h_commands = replicate 128 0\<rparr>"

end
