(* ===== verification/Rectangle.thy ===== *)
theory Rectangle
  imports Kernel_State
begin

text \<open>
  \<open>src/video/rectangle.c\<close>: rectangles of pixels, their drawing into a back buffer, the table of
  published rectangles and the list of rectangles of a video.  These routines run under the
  kernel's page directory, which maps every page to itself, so their pointers are physical.
\<close>

section \<open>Pixels\<close>

definition video_rectangle_pixel_in_bounds :: "video_rectangle \<Rightarrow> int \<Rightarrow> int \<Rightarrow> bool" where
  "video_rectangle_pixel_in_bounds rect x y \<longleftrightarrow>
     \<not> (x \<ge> vr_width rect \<or> y \<ge> vr_height rect \<or> x < 0 \<or> y < 0)"

definition video_rectangle_vga_320_200_plot_pixel :: "ram \<Rightarrow> addr \<Rightarrow> int \<Rightarrow> int \<Rightarrow> byte \<Rightarrow> ram" where
  "video_rectangle_vga_320_200_plot_pixel m back_buffer x y colour =
     (let index = y * 320 + x in m(back_buffer + word_of_int index := colour))"

definition video_rectangle_get_pixel :: "'a kstate_scheme \<Rightarrow> addr \<Rightarrow> int \<Rightarrow> int \<Rightarrow> byte outcome" where
  "video_rectangle_get_pixel s rect x y =
     bindE (deref (rectangles s) rect) (\<lambda>r.
     if \<not> video_rectangle_pixel_in_bounds r x y then Inr (word_of_int (- EINVARG))
     else let index = y * vr_width r + x in Inr (km_ram s (vr_pixels r + word_of_int index)))"

definition video_rectangle_set_pixel ::
  "'a kstate_scheme \<Rightarrow> addr \<Rightarrow> int \<Rightarrow> int \<Rightarrow> byte \<Rightarrow> (int \<times> 'a kstate_scheme) outcome" where
  "video_rectangle_set_pixel s rect x y colour =
     bindE (deref (rectangles s) rect) (\<lambda>r.
     if \<not> video_rectangle_pixel_in_bounds r x y then Inr (- EINVARG, s)
     else let index = y * vr_width r + x in
       Inr (0, s\<lparr>km_ram := (km_ram s)(vr_pixels r + word_of_int index := colour),
              rectangles := (rectangles s)(rect \<mapsto> r\<lparr>vr_redraw := True\<rparr>)\<rparr>))"

text \<open>One row of a block: the pixels \<open>i\<close> to \<open>i + k\<close>; \<open>char\<close> is signed.\<close>

fun draw_row_loop :: "'a kstate_scheme \<Rightarrow> addr \<Rightarrow> byte \<Rightarrow> int \<Rightarrow> int \<Rightarrow> nat \<Rightarrow> nat \<Rightarrow> 'a kstate_scheme outcome" where
  "draw_row_loop s rect c absx ry i 0 = Inr s"
| "draw_row_loop s rect c absx ry i (Suc k) =
     (if push_bit i (scast c :: u32) AND 0x80 \<noteq> 0
      then bindE (video_rectangle_set_pixel s rect (absx + int i) ry 1) (\<lambda>(_, s).
             draw_row_loop s rect c absx ry (Suc i) k)
      else draw_row_loop s rect c absx ry (Suc i) k)"

fun draw_block_loop ::
  "'a kstate_scheme \<Rightarrow> addr \<Rightarrow> addr \<Rightarrow> int \<Rightarrow> int \<Rightarrow> int \<Rightarrow> nat \<Rightarrow> nat \<Rightarrow> 'a kstate_scheme outcome" where
  "draw_block_loop s rect ptr absx absy pixels_per_row y 0 = Inr s"
| "draw_block_loop s rect ptr absx absy pixels_per_row y (Suc k) =
     bindE (draw_row_loop s rect (km_ram s (ptr + of_nat y)) absx (absy + int y) 0 (nat pixels_per_row)) (\<lambda>s.
     draw_block_loop s rect ptr absx absy pixels_per_row (Suc y) k)"

definition video_rectangle_draw_block ::
  "'a kstate_scheme \<Rightarrow> addr \<Rightarrow> addr \<Rightarrow> int \<Rightarrow> int \<Rightarrow> int \<Rightarrow> int \<Rightarrow> 'a kstate_scheme outcome" where
  "video_rectangle_draw_block s rect ptr absx absy total_rows pixels_per_row =
     draw_block_loop s rect ptr absx absy pixels_per_row 0 (nat total_rows)"

fun draw_blocks_loop ::
  "'a kstate_scheme \<Rightarrow> addr \<Rightarrow> addr \<Rightarrow> int \<Rightarrow> int \<Rightarrow> int \<Rightarrow> int \<Rightarrow> nat \<Rightarrow> 'a kstate_scheme outcome" where
  "draw_blocks_loop s rect ptr absx absy total_rows pixels_per_row 0 = Inr s"
| "draw_blocks_loop s rect ptr absx absy total_rows pixels_per_row (Suc k) =
     bindE (video_rectangle_draw_block s rect ptr absx absy total_rows pixels_per_row) (\<lambda>s.
     draw_blocks_loop s rect (ptr + word_of_int total_rows) (absx + pixels_per_row) absy total_rows pixels_per_row k)"

definition video_rectangle_draw_blocks ::
  "'a kstate_scheme \<Rightarrow> addr \<Rightarrow> addr \<Rightarrow> int \<Rightarrow> int \<Rightarrow> int \<Rightarrow> int \<Rightarrow> int \<Rightarrow> 'a kstate_scheme outcome" where
  "video_rectangle_draw_blocks s rect ptr absx absy total_rows pixels_per_row slen =
     draw_blocks_loop s rect ptr absx absy total_rows pixels_per_row (nat slen)"

definition video_rectangle_draw_font_data ::
  "'a kstate_scheme \<Rightarrow> addr \<Rightarrow> addr \<Rightarrow> addr \<Rightarrow> int \<Rightarrow> int \<Rightarrow> int \<Rightarrow> 'a kstate_scheme outcome" where
  "video_rectangle_draw_font_data s rect font ptr absx absy slen =
     bindE (deref (fonts s) font) (\<lambda>f.
     video_rectangle_draw_blocks s rect ptr absx absy (vf_height f) (vf_width f) slen)"

text \<open>One column of \<open>video_rectangle_fill\<close>, left at the first pixel refused.\<close>

fun fill_column :: "'a kstate_scheme \<Rightarrow> addr \<Rightarrow> byte \<Rightarrow> int \<Rightarrow> nat \<Rightarrow> nat \<Rightarrow> int \<Rightarrow> (int \<times> 'a kstate_scheme) outcome" where
  "fill_column s rect colour x y 0 res = Inr (res, s)"
| "fill_column s rect colour x y (Suc k) res =
     bindE (video_rectangle_set_pixel s rect x (int y) colour) (\<lambda>(res, s).
     if res < 0 then Inr (res, s) else fill_column s rect colour x (Suc y) k res)"

fun fill_columns :: "'a kstate_scheme \<Rightarrow> addr \<Rightarrow> byte \<Rightarrow> nat \<Rightarrow> nat \<Rightarrow> nat \<Rightarrow> int \<Rightarrow> (int \<times> 'a kstate_scheme) outcome" where
  "fill_columns s rect colour height x 0 res = Inr (res, s)"
| "fill_columns s rect colour height x (Suc k) res =
     bindE (fill_column s rect colour (int x) 0 height res) (\<lambda>(res, s).
     fill_columns s rect colour height (Suc x) k res)"

definition video_rectangle_fill :: "'a kstate_scheme \<Rightarrow> addr \<Rightarrow> int \<Rightarrow> (int \<times> 'a kstate_scheme) outcome" where
  "video_rectangle_fill s rect colour =
     bindE (deref (rectangles s) rect) (\<lambda>r.
     fill_columns s rect (word_of_int colour) (nat (vr_height r)) 0 (nat (vr_width r)) 0)"

section \<open>Published rectangles\<close>

text \<open>
  The name of a table slot: the code reads it for null slots too, and then sees the bytes of
  memory from address 0 on.
\<close>

definition rectangle_name :: "'a kstate_scheme \<Rightarrow> addr \<Rightarrow> cview outcome" where
  "rectangle_name s p =
     (if p = 0 then Inr (str_at (km_ram s) 0)
      else bindE (deref (rectangles s) p) (\<lambda>r. Inr (\<lambda>i. vr_name r ! i)))"

fun published_loop :: "'a kstate_scheme \<Rightarrow> cview \<Rightarrow> addr list \<Rightarrow> addr option outcome" where
  "published_loop s nme [] = Inr None"
| "published_loop s nme (p # ps) =
     bindE (rectangle_name s p) (\<lambda>n.
     if istrncmp n nme 64 = 0 then Inr (Some p) else published_loop s nme ps)"

definition video_rectangle_is_published :: "'a kstate_scheme \<Rightarrow> cview \<Rightarrow> bool outcome" where
  "video_rectangle_is_published s nme =
     bindE (published_loop s nme (published_video_rectangles s)) (\<lambda>r. Inr (r \<noteq> None))"

definition video_rectangle_get :: "'a kstate_scheme \<Rightarrow> cview \<Rightarrow> addr outcome" where
  "video_rectangle_get s nme =
     bindE (published_loop s nme (published_video_rectangles s)) (\<lambda>r.
     Inr (case r of None \<Rightarrow> 0 | Some p \<Rightarrow> p))"

definition video_rectangle_find_publish_slot :: "'a kstate_scheme \<Rightarrow> int" where
  "video_rectangle_find_publish_slot s =
     (case first_free (published_video_rectangles s) 0 of None \<Rightarrow> - ENOMEM | Some i \<Rightarrow> int i)"

definition video_rectangle_publish_insert :: "'a kstate_scheme \<Rightarrow> addr \<Rightarrow> int \<times> 'a kstate_scheme" where
  "video_rectangle_publish_insert s rect =
     (let index = video_rectangle_find_publish_slot s in
      if index < 0 then (index, s)
      else (0, s\<lparr>published_video_rectangles := (published_video_rectangles s)[nat index := rect]\<rparr>))"

text \<open>\<open>nme\<close> is the string at \<open>name_at\<close>.\<close>

definition video_rectangle_publish ::
  "'a kstate_scheme \<Rightarrow> addr \<Rightarrow> cview \<Rightarrow> addr \<Rightarrow> (int \<times> 'a kstate_scheme) outcome" where
  "video_rectangle_publish s name_at nme rect =
     (if name_at = 0 then Inr (- EINVARG, s)
      else
        bindE (video_rectangle_is_published s nme) (\<lambda>published.
        if published then Inr (- EISTKN, s)
        else
          bindE (upd_rectangle rect (\<lambda>r. r\<lparr>vr_name := strncpy_list (vr_name r) nme 0 64,
                   vr_flags := vr_flags r OR 1\<rparr>) s) (\<lambda>s.
          Inr (video_rectangle_publish_insert s rect))))"

section \<open>Drawing into the back buffer\<close>

fun draw_column :: "'a kstate_scheme \<Rightarrow> addr \<Rightarrow> addr \<Rightarrow> video_rectangle \<Rightarrow> int \<Rightarrow> nat \<Rightarrow> nat \<Rightarrow> 'a kstate_scheme outcome" where
  "draw_column s back_buffer rect r x y 0 = Inr s"
| "draw_column s back_buffer rect r x y (Suc k) =
     bindE (video_rectangle_get_pixel s rect x (int y)) (\<lambda>pixel.
     draw_column (s\<lparr>km_ram := video_rectangle_vga_320_200_plot_pixel (km_ram s) back_buffer
         (x + vr_x r) (int y + vr_y r) pixel\<rparr>) back_buffer rect r x (Suc y) k)"

fun draw_columns :: "'a kstate_scheme \<Rightarrow> addr \<Rightarrow> addr \<Rightarrow> video_rectangle \<Rightarrow> nat \<Rightarrow> nat \<Rightarrow> 'a kstate_scheme outcome" where
  "draw_columns s back_buffer rect r x 0 = Inr s"
| "draw_columns s back_buffer rect r x (Suc k) =
     bindE (draw_column s back_buffer rect r (int x) 0 (nat (vr_height r))) (\<lambda>s.
     draw_columns s back_buffer rect r (Suc x) k)"

definition video_rectangle_draw :: "'a kstate_scheme \<Rightarrow> addr \<Rightarrow> addr \<Rightarrow> 'a kstate_scheme outcome" where
  "video_rectangle_draw s video rect =
     bindE (deref (videos s) video) (\<lambda>v.
     bindE (deref (rectangles s) rect) (\<lambda>r.
     bindE (draw_columns s (v_backbuffer v) rect r 0 (nat (vr_width r))) (\<lambda>s.
     upd_rectangle rect (\<lambda>r. r\<lparr>vr_redraw := False\<rparr>) s)))"

section \<open>The rectangles of a video\<close>

definition video_rectangle_register :: "'a kstate_scheme \<Rightarrow> addr \<Rightarrow> addr \<Rightarrow> 'a kstate_scheme outcome" where
  "video_rectangle_register s video rect =
     bindE (upd_rectangle rect (\<lambda>r. r\<lparr>vr_shared := vr_shared r + 1\<rparr>) s) (\<lambda>s.
     bindE (kzalloc s 8) (\<lambda>(list_item, s).
     if list_item = 0 then Inl (BadPointer 0)
     else
       let s = s\<lparr>rectangle_items := (rectangle_items s)(list_item \<mapsto> \<lparr>ri_rectangle = rect, ri_next = 0\<rparr>)\<rparr> in
       bindE (deref (videos s) video) (\<lambda>v.
       if v_rectangles v = 0
       then upd_video video (\<lambda>v. v\<lparr>v_rectangles := list_item, v_rectangle_last := list_item\<rparr>) s
       else
         bindE (deref (rectangle_items s) (v_rectangle_last v)) (\<lambda>lst.
         upd_video video (\<lambda>v. v\<lparr>v_rectangle_last := list_item\<rparr>)
           (s\<lparr>rectangle_items := (rectangle_items s)(v_rectangle_last v \<mapsto> lst\<lparr>ri_next := list_item\<rparr>)\<rparr>)))))"

definition video_rectangle_new ::
  "'a kstate_scheme \<Rightarrow> addr \<Rightarrow> int \<Rightarrow> int \<Rightarrow> int \<Rightarrow> int \<Rightarrow> (addr \<times> 'a kstate_scheme) outcome" where
  "video_rectangle_new s video x y width height =
     bindE (kzalloc s 100) (\<lambda>(rectangle, s).
     if rectangle = 0 then Inl (BadPointer 0)
     else
       bindE (kzalloc s (width * height)) (\<lambda>(pixels, s).
       bindE (video_rectangle_register (s\<lparr>rectangles := (rectangles s)(rectangle \<mapsto>
           \<lparr>vr_name = replicate 64 0, vr_width = width, vr_height = height, vr_x = x, vr_y = y,
            vr_redraw = False, vr_pixels = pixels, vr_shared = 0, vr_flags = 0\<rparr>)\<rparr>) video rectangle) (\<lambda>s.
       Inr (rectangle, s))))"

definition video_rectangle_free :: "'a kstate_scheme \<Rightarrow> addr \<Rightarrow> 'a kstate_scheme outcome" where
  "video_rectangle_free s rectangle =
     bindE (upd_rectangle rectangle (\<lambda>r. r\<lparr>vr_shared := vr_shared r - 1\<rparr>) s) (\<lambda>s.
     bindE (deref (rectangles s) rectangle) (\<lambda>r.
     if vr_shared r > 0 then Inr s
     else bindE (kfree s (vr_pixels r)) (\<lambda>s. kfree s rectangle)))"

text \<open>The walk of \<open>video_rectangles_free\<close>; \<open>None\<close> is a list that never ends.\<close>

partial_function (option) rectangles_free_loop :: "'a kstate_scheme \<Rightarrow> addr \<Rightarrow> 'a kstate_scheme outcome option" where
  "rectangles_free_loop s item =
     (if item = 0 then Some (Inr s)
      else case bindE (deref (rectangle_items s) item) (\<lambda>it.
             bindE (video_rectangle_free s (ri_rectangle it)) (\<lambda>s.
             bindE (kfree s item) (\<lambda>s. Inr (ri_next it, s)))) of
        Inl e \<Rightarrow> Some (Inl e)
      | Inr r \<Rightarrow> rectangles_free_loop (snd r) (fst r))"

definition video_rectangles_free :: "'a kstate_scheme \<Rightarrow> addr \<Rightarrow> 'a kstate_scheme outcome" where
  "video_rectangles_free s video =
     bindE (deref (videos s) video) (\<lambda>v. ran (rectangles_free_loop s (v_rectangles v)))"

text \<open>A string literal of the source.\<close>

definition lit :: "string \<Rightarrow> cview" where
  "lit cs i = (if i < length cs then of_char (cs ! i) else 0)"

definition video_rectangle_register_default_rectangles :: "'a kstate_scheme \<Rightarrow> addr \<Rightarrow> 'a kstate_scheme outcome" where
  "video_rectangle_register_default_rectangles s video =
     bindE (video_rectangle_get s (lit ''taskbar'')) (\<lambda>taskbar_rect.
     if taskbar_rect = 0 then Inr s
     else
       bindE (video_rectangle_register s video taskbar_rect) (\<lambda>s.
       bindE (deref (rectangles s) taskbar_rect) (\<lambda>t.
       bindE (video_rectangle_new s video 0 (vr_height t) 320 (200 - vr_height t)) (\<lambda>(printable_rectangle, s).
       bindE (video_rectangle_fill s printable_rectangle 3) (\<lambda>(_, s).
       if printable_rectangle = 0 then Inr s
       else upd_video video (\<lambda>v. v\<lparr>v_printing_rectangle := printable_rectangle\<rparr>) s)))))"

section \<open>Filling a rectangle\<close>

text \<open>A state in which the bytes at \<open>A\<close> have been painted through the rectangle.\<close>

definition painted :: "'a kstate_scheme \<Rightarrow> addr \<Rightarrow> video_rectangle \<Rightarrow> byte \<Rightarrow> addr set \<Rightarrow> 'a kstate_scheme" where
  "painted s rect r c A = s\<lparr>km_ram := (\<lambda>a. if a \<in> A then c else km_ram s a),
     rectangles := (rectangles s)(rect \<mapsto> r\<lparr>vr_redraw := vr_redraw r \<or> A \<noteq> {}\<rparr>)\<rparr>"

abbreviation (input) pixel_at :: "video_rectangle \<Rightarrow> int \<Rightarrow> int \<Rightarrow> addr" where
  "pixel_at r x y \<equiv> vr_pixels r + word_of_int (y * vr_width r + x)"

lemma set_pixel_painted:
  assumes "video_rectangle_pixel_in_bounds r x y"
  shows "video_rectangle_set_pixel (painted s rect r c A) rect x y c = Inr (0, painted s rect r c (insert (pixel_at r x y) A))"
proof -
  have "(\<lambda>a. if a \<in> A then c else km_ram s a)(pixel_at r x y := c) =
      (\<lambda>a. if a \<in> insert (pixel_at r x y) A then c else km_ram s a)"
    by (rule ext) simp
  then show ?thesis
    using assms by (simp add: video_rectangle_set_pixel_def painted_def deref_Some video_rectangle_pixel_in_bounds_def)
qed

lemma fill_column_painted:
  assumes "0 \<le> x" "x < vr_width r" "y + k \<le> nat (vr_height r)"
  shows "fill_column (painted s rect r c A) rect c x y k res =
    Inr (if k = 0 then res else 0, painted s rect r c (A \<union> (\<lambda>j. pixel_at r x (int j)) ` {y..<y + k}))"
  using assms(3)
proof (induction k arbitrary: y A res)
  case (Suc k)
  have "video_rectangle_pixel_in_bounds r x (int y)"
    using assms(1,2) Suc.prems by (auto simp: video_rectangle_pixel_in_bounds_def)
  note p = set_pixel_painted [OF this]
  have i: "{y..<y + Suc k} = insert y {Suc y..<Suc y + k}" by auto
  have "Suc y + k \<le> nat (vr_height r)" using Suc.prems by simp
  then show ?case unfolding i image_insert by (simp add: p Suc.IH del: add_Suc)
qed simp

lemma fill_columns_painted:
  assumes "x + k \<le> nat (vr_width r)"
  shows "fill_columns (painted s rect r c A) rect c (nat (vr_height r)) x k 0 =
    Inr (0, painted s rect r c (A \<union> (\<Union>i\<in>{x..<x + k}. (\<lambda>j. pixel_at r (int i) (int j)) ` {0..<nat (vr_height r)})))"
  using assms
proof (induction k arbitrary: x A)
  case (Suc k)
  have b: "0 \<le> int x" "int x < vr_width r" "0 + nat (vr_height r) \<le> nat (vr_height r)" using Suc.prems by simp_all
  have i: "{x..<x + Suc k} = insert x {Suc x..<Suc x + k}" by auto
  have "Suc x + k \<le> nat (vr_width r)" using Suc.prems by simp
  note IH = Suc.IH [OF this]
  show ?case unfolding i by (simp add: fill_column_painted [OF b, simplified] IH Un_assoc)
qed simp

text \<open>The pixels of all columns are the bytes of the buffer.\<close>

lemma pixels_region:
  assumes "0 \<le> w" "0 \<le> h"
  shows "(\<Union>i\<in>{0..<nat w}. (\<lambda>j. p + word_of_int (int j * w + int i)) ` {0..<nat h}) = region p (nat (w * h))"
    (is "?L = _")
proof (intro equalityI subsetI)
  fix a assume "a \<in> ?L"
  then obtain i j where ij: "i < nat w" "j < nat h" "a = p + word_of_int (int j * w + int i)" by auto
  have "j * nat w + i < nat w * nat h"
  proof -
    have "j * nat w + i < Suc j * nat w" using ij(1) by simp
    also have "\<dots> \<le> nat h * nat w" using ij(2) by (intro mult_le_mono1) simp
    finally show ?thesis by (simp add: mult.commute)
  qed
  moreover have "int j * w + int i = int (j * nat w + i)" using assms(1) by simp
  then have "a = p + of_nat (j * nat w + i)" unfolding ij(3) by (simp only: of_int_of_nat_eq)
  ultimately show "a \<in> region p (nat (w * h))" using assms by (auto simp: mem_region nat_mult_distrib)
next
  fix a assume "a \<in> region p (nat (w * h))"
  then obtain n where n: "n < nat w * nat h" "a = p + of_nat n" using assms by (auto simp: mem_region nat_mult_distrib)
  have w: "0 < nat w" using n(1) by (cases "nat w") simp_all
  have "n div nat w < nat h" using n(1) by (simp add: less_mult_imp_div_less mult.commute)
  moreover have "n mod nat w < nat w" using w by simp
  moreover have "int (n div nat w) * w + int (n mod nat w) = int n"
    using assms(1) div_mult_mod_eq [of n "nat w"] by (metis int_nat_eq of_nat_add of_nat_mult)
  ultimately show "a \<in> ?L"
    unfolding n(2) by (intro UN_I [of "n mod nat w"] image_eqI [of _ _ "n div nat w"]) simp_all
qed

lemma rectangle_fill_result:
  assumes "rectangles s rect = Some r" "0 \<le> vr_width r" "0 \<le> vr_height r"
  shows "video_rectangle_fill s rect colour = Inr (0, s
    \<lparr>km_ram := memset (km_ram s) (vr_pixels r) (word_of_int colour) (vr_width r * vr_height r),
     rectangles := (rectangles s)(rect \<mapsto> r\<lparr>vr_redraw := vr_redraw r \<or> 0 < vr_width r * vr_height r\<rparr>)\<rparr>)"
proof -
  let ?c = "word_of_int colour :: byte" and ?n = "nat (vr_width r * vr_height r)"
  have s: "s = painted s rect r ?c {}" using assms(1) by (simp add: painted_def fun_upd_idem)
  have "region (vr_pixels r) ?n \<noteq> {} \<longleftrightarrow> 0 < vr_width r * vr_height r"
    by (cases ?n) (auto simp: region_Suc)
  then have p: "painted s rect r ?c (region (vr_pixels r) ?n) = s
    \<lparr>km_ram := memset (km_ram s) (vr_pixels r) ?c (vr_width r * vr_height r),
     rectangles := (rectangles s)(rect \<mapsto> r\<lparr>vr_redraw := vr_redraw r \<or> 0 < vr_width r * vr_height r\<rparr>)\<rparr>"
    by (simp add: painted_def memset_eq)
  have "fill_columns (painted s rect r ?c {}) rect ?c (nat (vr_height r)) 0 (nat (vr_width r)) 0 =
      Inr (0, painted s rect r ?c (region (vr_pixels r) ?n))"
    using fill_columns_painted [of 0 "nat (vr_width r)" r s rect ?c "{}"] pixels_region [OF assms(2,3), of "vr_pixels r"]
    by simp
  then show ?thesis unfolding video_rectangle_fill_def p [symmetric] using assms(1) s by (simp add: deref_Some)
qed

text \<open>C31: Filling a rectangle pixel by pixel is \<open>memset\<close> on its buffer: every pixel of the rectangle, and no
  other byte of memory, gets the colour; no pixel is refused, and the rectangle is marked for drawing
  when it has any.\<close>

theorem rectangle_fill_is_memset:
  assumes "rectangles s rect = Some r" "0 \<le> vr_width r" "0 \<le> vr_height r"
  shows "video_rectangle_fill s rect colour = Inr (0, s
    \<lparr>km_ram := memset (km_ram s) (vr_pixels r) (word_of_int colour) (vr_width r * vr_height r),
     rectangles := (rectangles s)(rect \<mapsto> r\<lparr>vr_redraw := vr_redraw r \<or> 0 < vr_width r * vr_height r\<rparr>)\<rparr>)"
  by (rule rectangle_fill_result [OF assms])

definition demo_rectangle :: video_rectangle where
  "demo_rectangle = \<lparr>vr_name = replicate 64 0, vr_width = 3, vr_height = 2, vr_x = 0, vr_y = 0, vr_redraw = False,
     vr_pixels = 0x2000, vr_shared = 0, vr_flags = 0\<rparr>"

lemma rectangle_fill_is_memset_witness:
  "\<exists>s'. video_rectangle_fill (blank_kernel\<lparr>rectangles := [0x1000 \<mapsto> demo_rectangle]\<rparr>) 0x1000 5 = Inr (0, s') \<and>
     read_bytes (km_ram s') 0x1FFF 8 = [0, 5, 5, 5, 5, 5, 5, 0]"
proof -
  let ?s = "blank_kernel\<lparr>rectangles := [0x1000 \<mapsto> demo_rectangle]\<rparr>"
  have r: "rectangles ?s 0x1000 = Some demo_rectangle" "0 \<le> vr_width demo_rectangle" "0 \<le> vr_height demo_rectangle"
    by (simp_all add: demo_rectangle_def)
  have "read_bytes (memset (\<lambda>a. 0) 0x2000 5 6) 0x1FFF 8 = [0, 5, 5, 5, 5, 5, 5, 0]"
    by (simp add: memset_def read_bytes_def upt_rec)
  then show ?thesis
    using rectangle_fill_is_memset [OF r, of 5] by (simp add: demo_rectangle_def blank_kernel_def)
qed

section \<open>Publishing a rectangle\<close>

lemma strncpy_list_before: "j < i \<Longrightarrow> strncpy_list d src i k ! j = d ! j"
  by (induction d src i k rule: strncpy_list.induct) simp_all

lemma strncpy_list_matches: "i + k \<le> length d \<Longrightarrow> istrncmp_loop ((!) (strncpy_list d src i k)) src i k = 0"
proof (induction d src i k rule: strncpy_list.induct)
  case (2 d src i k)
  show ?case
  proof (cases "src i = 0")
    case False
    have "strncpy_list (d[i := src i]) src (Suc i) k ! i = src i"
      using 2(2) by (simp add: strncpy_list_before)
    then show ?thesis using 2 False by simp
  qed (use 2(2) in simp)
qed simp

lemma istrncmp_first: "s1 0 \<noteq> s2 0 \<Longrightarrow> tolower (s1 0) \<noteq> tolower (s2 0) \<Longrightarrow> 0 < n \<Longrightarrow> istrncmp s1 s2 n \<noteq> 0"
  by (cases "nat n") (simp_all add: istrncmp_def)

lemma published_insert:
  "published_loop s nme ps = Inr None \<Longrightarrow> first_free ps k = Some j \<Longrightarrow> rect \<noteq> 0 \<Longrightarrow>
   (\<And>p. p \<in> set ps \<Longrightarrow> rectangle_name s' p = rectangle_name s p) \<Longrightarrow>
   rectangle_name s' rect = Inr n \<Longrightarrow> istrncmp n nme 64 = 0 \<Longrightarrow>
   k \<le> j \<and> published_loop s' nme (ps[j - k := rect]) = Inr (Some rect)"
proof (induction ps arbitrary: k)
  case (Cons p ps)
  show ?case
  proof (cases "p = 0")
    case True
    then show ?thesis using Cons.prems by simp
  next
    case False
    have l: "published_loop s nme ps = Inr None" and f: "first_free ps (Suc k) = Some j"
      and n: "\<exists>n. rectangle_name s p = Inr n \<and> istrncmp n nme 64 \<noteq> 0"
      using Cons.prems(1,2) False by (auto simp: bindE_Inr_iff split: if_splits)
    have "Suc k \<le> j \<and> published_loop s' nme (ps[j - Suc k := rect]) = Inr (Some rect)"
      using Cons.IH [OF l f Cons.prems(3) _ Cons.prems(5,6)] Cons.prems(4) by simp
    note this [THEN conjunct1] this [THEN conjunct2]
    moreover from this(1) have "j - k = Suc (j - Suc k)" by simp
    ultimately show ?thesis using n Cons.prems(4) [of p] by (auto simp: Cons.prems(5))
  qed
qed simp

lemma rectangle_publish_result:
  assumes p: "video_rectangle_publish s name_at nme rect = Inr (0, s')"
    and r: "rect \<noteq> 0" "rect \<notin> set (published_video_rectangles s)" "rectangles s rect = Some r" "length (vr_name r) = 64"
  shows "published_loop s' nme (published_video_rectangles s') = Inr (Some rect)" "name_at \<noteq> 0"
proof -
  let ?r = "r\<lparr>vr_name := strncpy_list (vr_name r) nme 0 64, vr_flags := vr_flags r OR 1\<rparr>"
  let ?s = "s\<lparr>rectangles := (rectangles s)(rect \<mapsto> ?r)\<rparr>"
  show na: "name_at \<noteq> 0" using p by (auto simp: video_rectangle_publish_def)
  have u: "upd_rectangle rect (\<lambda>r. r\<lparr>vr_name := strncpy_list (vr_name r) nme 0 64, vr_flags := vr_flags r OR 1\<rparr>) s = Inr ?s"
    using r(3) by (simp add: upd_rectangle_def deref_Some)
  have l: "published_loop s nme (published_video_rectangles s) = Inr None"
    and i: "video_rectangle_publish_insert ?s rect = (0, s')"
    using p u na by (auto simp: video_rectangle_publish_def video_rectangle_is_published_def bindE_Inr_iff split: if_splits)
  obtain j where f: "first_free (published_video_rectangles s) 0 = Some j"
    and s': "s' = ?s\<lparr>published_video_rectangles := (published_video_rectangles s)[j := rect]\<rparr>"
    using i by (auto simp: video_rectangle_publish_insert_def video_rectangle_find_publish_slot_def Let_def split: option.splits)
  have n: "rectangle_name s' q = rectangle_name s q" if "q \<in> set (published_video_rectangles s)" for q
    using r(2) that unfolding s' by (auto simp: rectangle_name_def deref_def)
  have "rectangle_name s' rect = Inr ((!) (strncpy_list (vr_name r) nme 0 64))"
    using r(1) unfolding s' by (simp add: rectangle_name_def deref_Some)
  moreover have "istrncmp ((!) (strncpy_list (vr_name r) nme 0 64)) nme 64 = 0"
    unfolding istrncmp_def using strncpy_list_matches [of 0 64 "vr_name r" nme] r(4) by simp
  ultimately show "published_loop s' nme (published_video_rectangles s') = Inr (Some rect)"
    using published_insert [OF l f r(1) n] by (simp add: s')
qed

text \<open>A rectangle that \<open>video_rectangle_publish\<close> accepts is the one \<open>video_rectangle_get\<close> finds under its
  name, and the name cannot be published again.\<close>

theorem published_rectangle_is_found:
  assumes "video_rectangle_publish s name_at nme rect = Inr (0, s')" "rect \<noteq> 0"
    "rect \<notin> set (published_video_rectangles s)" "rectangles s rect = Some r" "length (vr_name r) = 64"
  shows "video_rectangle_get s' nme = Inr rect \<and> video_rectangle_publish s' name_at nme other = Inr (- EISTKN, s')"
  using rectangle_publish_result [OF assms]
  by (simp add: video_rectangle_get_def video_rectangle_publish_def video_rectangle_is_published_def)

lemma published_rectangle_is_found_witness:
  "\<exists>s'. video_rectangle_publish (blank_kernel\<lparr>rectangles := [0x1000 \<mapsto> demo_rectangle]\<rparr>) 0x3000 (lit ''bar'') 0x1000 = Inr (0, s') \<and>
     video_rectangle_get s' (lit ''bar'') = Inr 0x1000"
proof -
  let ?s = "blank_kernel\<lparr>rectangles := [0x1000 \<mapsto> demo_rectangle]\<rparr>"
  have z: "istrncmp (str_at (\<lambda>a. 0) 0) (lit ''bar'') 64 \<noteq> 0"
    by (rule istrncmp_first) (simp_all add: str_at_def lit_def tolower_def)
  have "published_loop ?s (lit ''bar'') (replicate n 0) = Inr None" for n
    using z by (induction n) (simp_all add: rectangle_name_def blank_kernel_def)
  moreover have "first_free (replicate 64 0) 0 = Some 0" by (simp add: numeral_eq_Suc)
  ultimately obtain s' where p: "video_rectangle_publish ?s 0x3000 (lit ''bar'') 0x1000 = Inr (0, s')"
    by (simp add: video_rectangle_publish_def video_rectangle_is_published_def blank_kernel_def upd_rectangle_def
        deref_Some video_rectangle_publish_insert_def video_rectangle_find_publish_slot_def)
  have "video_rectangle_get s' (lit ''bar'') = Inr 0x1000 \<and>
    video_rectangle_publish s' 0x3000 (lit ''bar'') 0 = Inr (- EISTKN, s')"
    by (rule published_rectangle_is_found [OF p, where r = demo_rectangle]) (simp_all add: blank_kernel_def demo_rectangle_def)
  then show ?thesis using p by blast
qed

end
