(* ===== verification/Font.thy ===== *)
theory Font
  imports Rectangle
begin

text \<open>
  \<open>src/video/font/font.c\<close> and \<open>src/video/font/formats/psffont.c\<close>: the list of fonts, drawing
  characters into a pixel string, and loading a PSF font file.  The address of a literal or of a
  local variable that a routine hands on is an argument (\<open>header_at\<close>).
\<close>

section \<open>The list of fonts\<close>

definition video_font_register :: "'a kstate_scheme \<Rightarrow> addr \<Rightarrow> 'a kstate_scheme outcome" where
  "video_font_register s font =
     (if font_head s = 0 then Inr (s\<lparr>font_head := font, font_last := font\<rparr>)
      else
        bindE (deref (fonts s) font) (\<lambda>f.
        Inr (s\<lparr>fonts := (fonts s)(font \<mapsto> f\<lparr>vf_next := font_last s\<rparr>), font_last := font\<rparr>)))"

partial_function (option) font_walk :: "'a kstate_scheme \<Rightarrow> cview \<Rightarrow> addr \<Rightarrow> addr outcome option" where
  "font_walk s nme font_current =
     (if font_current = 0 then Some (Inr 0)
      else case deref (fonts s) font_current of
        Inl e \<Rightarrow> Some (Inl e)
      | Inr f \<Rightarrow>
          if istrncmp (\<lambda>i. vf_name f ! i) nme 16 = 0 then Some (Inr font_current)
          else font_walk s nme (vf_next f))"

definition video_font_get :: "'a kstate_scheme \<Rightarrow> cview \<Rightarrow> addr outcome" where
  "video_font_get s nme = ran (font_walk s nme (font_head s))"

definition video_font_new ::
  "'a kstate_scheme \<Rightarrow> cview \<Rightarrow> addr \<Rightarrow> int \<Rightarrow> int \<Rightarrow> int \<Rightarrow> int \<Rightarrow> (addr \<times> 'a kstate_scheme) outcome" where
  "video_font_new s nme data c_bytes max_characters width height =
     (if max_characters \<le> 0 then Inr (0, s)
      else if width > 8 then Inr (0, s)
      else
        let data_buffer_size = c_bytes * max_characters in
        bindE (kzalloc s 44) (\<lambda>(font, s).
        if font = 0 then Inl (BadPointer 0)
        else
          bindE (kzalloc s data_buffer_size) (\<lambda>(font_data, s).
          let s = s\<lparr>km_ram := memcpy (km_ram s) font_data data (word_of_int data_buffer_size),
                fonts := (fonts s)(font \<mapsto> \<lparr>vf_name = strncpy_list (replicate 16 0) nme 0 16,
                  vf_data = font_data, vf_datasize = data_buffer_size, vf_width = width, vf_height = height,
                  vf_max = max_characters, vf_bytes = c_bytes, vf_next = 0\<rparr>)\<rparr> in
          bindE (video_font_register s font) (\<lambda>s. Inr (font, s)))))"

definition video_font_free :: "'a kstate_scheme \<Rightarrow> addr \<Rightarrow> 'a kstate_scheme outcome" where
  "video_font_free s font = kfree s font"

section \<open>Drawing text\<close>

definition video_font_make_empty_string :: "'a kstate_scheme \<Rightarrow> addr \<Rightarrow> int \<Rightarrow> (addr \<times> 'a kstate_scheme) outcome" where
  "video_font_make_empty_string s font len =
     bindE (deref (fonts s) font) (\<lambda>f. kzalloc s (vf_bytes f * len))"

definition video_font_free_string :: "'a kstate_scheme \<Rightarrow> addr \<Rightarrow> 'a kstate_scheme outcome" where
  "video_font_free_string s ptr = kfree s ptr"

definition video_font_draw_character :: "ram \<Rightarrow> video_font \<Rightarrow> addr \<Rightarrow> byte \<Rightarrow> ram" where
  "video_font_draw_character m f out c =
     (let start_index = sint c * vf_bytes f in
      if start_index \<ge> vf_datasize f then m
      else fold (\<lambda>y m. m(out + of_nat y := m (vf_data f + word_of_int start_index + of_nat y)))
             [0..<nat (vf_height f)] m)"

definition video_font_draw :: "'a kstate_scheme \<Rightarrow> addr \<Rightarrow> addr \<Rightarrow> addr \<Rightarrow> 'a kstate_scheme outcome" where
  "video_font_draw s font out text =
     bindE (deref (fonts s) font) (\<lambda>f.
     bindE (returns (strlen (str_at (km_ram s) text))) (\<lambda>len.
     Inr (s\<lparr>km_ram := fold (\<lambda>i m. video_font_draw_character m f (out + of_nat i * word_of_int (vf_bytes f))
                                  (m (text + of_nat i))) [0..<len] (km_ram s)\<rparr>)))"

section \<open>Loading a PSF font\<close>

abbreviation (input) PSF_FILE_MAGIC_SIGNATURE :: u32 where "PSF_FILE_MAGIC_SIGNATURE \<equiv> 0x864AB572"

definition psffont_load_header ::
  "'a kstate_scheme fs_table \<Rightarrow> 'a kstate_scheme \<Rightarrow> int \<Rightarrow> addr \<Rightarrow> (int \<times> 'a kstate_scheme) outcome" where
  "psffont_load_header fs_lookup s fd header_out =
     bindE (fseek fs_lookup s fd 0 0) (\<lambda>(res, s).
     if res \<noteq> 0 then Inr (- EIO, s)
     else
       bindE (fread fs_lookup s header_out 32 1 fd) (\<lambda>(res, s).
       if res \<noteq> 1 then Inr (- EIO, s)
       else if load32 (km_ram s) header_out \<noteq> PSF_FILE_MAGIC_SIGNATURE then Inr (- EINVARG, s)
       else Inr (0, s)))"

text \<open>\<open>psffont_load\<close> between \<open>fopen\<close> and its label \<open>out\<close>.\<close>

definition psffont_load_body ::
  "'a kstate_scheme fs_table \<Rightarrow> 'a kstate_scheme \<Rightarrow> int \<Rightarrow> addr \<Rightarrow> cview \<Rightarrow> (addr \<times> 'a kstate_scheme) outcome" where
  "psffont_load_body fs_lookup s fd header_at font_name =
     bindE (psffont_load_header fs_lookup s fd header_at) (\<lambda>(res, s).
     if res \<noteq> COS32_ALL_OK then Inr (0, s)
     else
       let field = (\<lambda>i. load32 (km_ram s) (header_at + 4 * i));
           headersize = field 2; numglyph = field 4; bytesperglyph = field 5; height = field 6; width = field 7;
           total_char_data_bytes = sint (numglyph * bytesperglyph) in
       bindE (kzalloc s total_char_data_bytes) (\<lambda>(data, s).
       bindE (fseek fs_lookup s fd (sint headersize) 0) (\<lambda>(res, s).
       if res \<noteq> COS32_ALL_OK then Inr (0, s)
       else
         bindE (fread fs_lookup s data bytesperglyph numglyph fd) (\<lambda>(res, s).
         if res \<noteq> sint numglyph then Inr (0, s)
         else video_font_new s font_name data (sint bytesperglyph) (sint numglyph) (sint width) (sint height)))))"

definition psffont_load ::
  "'a kstate_scheme fs_table \<Rightarrow> 'a kstate_scheme \<Rightarrow> addr \<Rightarrow> cview \<Rightarrow> addr \<Rightarrow> (addr \<times> 'a kstate_scheme) outcome" where
  "psffont_load fs_lookup s filename font_name header_at =
     bindE (fopen fs_lookup s filename (lit ''r'')) (\<lambda>(fd, s).
     if fd = 0 then Inr (0, s)
     else
       bindE (psffont_load_body fs_lookup s fd header_at font_name) (\<lambda>(font, s).
       bindE (fclose fs_lookup s fd) (\<lambda>(_, s). Inr (font, s))))"

definition video_font_load ::
  "'a kstate_scheme fs_table \<Rightarrow> 'a kstate_scheme \<Rightarrow> addr \<Rightarrow> cview \<Rightarrow> addr \<Rightarrow> (addr \<times> 'a kstate_scheme) outcome" where
  "video_font_load fs_lookup s filename nme header_at = psffont_load fs_lookup s filename nme header_at"

text \<open>\<open>filename_at\<close> is the address of the literal \<open>0:/fonts/plfont.psf\<close>.\<close>

definition video_font_load_defaults ::
  "'a kstate_scheme fs_table \<Rightarrow> 'a kstate_scheme \<Rightarrow> addr \<Rightarrow> addr \<Rightarrow> 'a kstate_scheme outcome" where
  "video_font_load_defaults fs_lookup s filename_at header_at =
     bindE (video_font_load fs_lookup s filename_at (lit ''Default'') header_at) (\<lambda>(_, s). Inr s)"

end
