(* ===== verification/Video.thy ===== *)
theory Video
  imports Font
begin

text \<open>
  \<open>src/video/video.c\<close>: the text of a terminal, its lines, pasting it into a rectangle, and the
  memory of a video, saved, restored and flushed to the screen.
\<close>

section \<open>Terminals\<close>

abbreviation (input) COS32_VIDEO_MEMORY_SIZE :: int where "COS32_VIDEO_MEMORY_SIZE \<equiv> 0x20000"
abbreviation (input) COS32_VIDEO_MEMORY_ADDRESS_START :: addr where "COS32_VIDEO_MEMORY_ADDRESS_START \<equiv> 0x000A0000"
abbreviation (input) VIDEO_MODE_VGA_320x200_MEMORY_SIZE :: int where "VIDEO_MODE_VGA_320x200_MEMORY_SIZE \<equiv> 64000"

definition vga_entry_color :: "byte \<Rightarrow> byte \<Rightarrow> byte" where
  "vga_entry_color fg bg = fg OR push_bit 4 bg"

definition vga_entry :: "byte \<Rightarrow> byte \<Rightarrow> u16" where
  "vga_entry uc color = ucast uc OR push_bit 8 (ucast color)"

definition kernel_terminal_initialize :: "'a kstate_scheme \<Rightarrow> 'a kstate_scheme" where
  "kernel_terminal_initialize s =
     s\<lparr>kernel_terminal_properties := (kernel_terminal_properties s)\<lparr>tp_index := 0, tp_video := 0, tp_data := 0,
       tp_color := vga_entry_color 7 0\<rparr>\<rparr>"

definition terminal_putentryat :: "ram \<Rightarrow> addr \<Rightarrow> byte \<Rightarrow> int \<Rightarrow> ram" where
  "terminal_putentryat m terminal_buffer c index =
     (if terminal_buffer = 0 then m else m(terminal_buffer + word_of_int index := c))"

text \<open>\<open>terminal_putchar\<close> on any character but backspace, and then with it.\<close>

definition terminal_put :: "ram \<Rightarrow> terminal_properties \<Rightarrow> byte \<Rightarrow> ram \<times> terminal_properties" where
  "terminal_put m p c = (terminal_putentryat m (tp_data p) c (tp_index p), p\<lparr>tp_index := tp_index p + 1\<rparr>)"

definition terminal_backspace :: "ram \<Rightarrow> terminal_properties \<Rightarrow> ram \<times> terminal_properties" where
  "terminal_backspace m p =
     (if tp_index p = 0 then (m, p)
      else let p = p\<lparr>tp_index := tp_index p - 1\<rparr>;
               (m, p) = terminal_put m p 0x20
           in (m, p\<lparr>tp_index := tp_index p - 1\<rparr>))"

definition terminal_putchar :: "ram \<Rightarrow> terminal_properties \<Rightarrow> byte \<Rightarrow> ram \<times> terminal_properties" where
  "terminal_putchar m p c = (if c = 0x08 then terminal_backspace m p else terminal_put m p c)"

definition video_terminal_putchar :: "ram \<Rightarrow> terminal_properties \<Rightarrow> byte \<Rightarrow> ram \<times> terminal_properties" where
  "video_terminal_putchar m p c = terminal_putchar m p c"

text \<open>The string read from memory: \<open>terminal_write\<close> reads each character when it is due.\<close>

fun terminal_write :: "ram \<Rightarrow> terminal_properties \<Rightarrow> addr \<Rightarrow> nat \<Rightarrow> nat \<Rightarrow> ram \<times> terminal_properties" where
  "terminal_write m p data i 0 = (m, p)"
| "terminal_write m p data i (Suc k) =
     (let (m, p) = terminal_putchar m p (m (data + of_nat i)) in terminal_write m p data (Suc i) k)"

definition video_terminal_writestring :: "ram \<Rightarrow> terminal_properties \<Rightarrow> addr \<Rightarrow> (ram \<times> terminal_properties) outcome" where
  "video_terminal_writestring m p data =
     bindE (returns (strlen (str_at m data))) (\<lambda>len. Inr (terminal_write m p data 0 len))"

definition print :: "'a kstate_scheme \<Rightarrow> addr \<Rightarrow> 'a kstate_scheme outcome" where
  "print s message =
     bindE (video_terminal_writestring (km_ram s) (kernel_terminal_properties s) message) (\<lambda>(m, p).
     Inr (s\<lparr>km_ram := m, kernel_terminal_properties := p\<rparr>))"

definition video_terminal_set_scroll :: "terminal_properties \<Rightarrow> int \<Rightarrow> terminal_properties" where
  "video_terminal_set_scroll p scroll = (if scroll < 0 then p else p\<lparr>tp_y_scroll := scroll\<rparr>)"

section \<open>Lines\<close>

fun newline_in :: "cview \<Rightarrow> nat \<Rightarrow> nat \<Rightarrow> nat option" where
  "newline_in data i 0 = None"
| "newline_in data i (Suc k) = (if data i = 0x0a then Some i else newline_in data (Suc i) k)"

text \<open>The start of the next line, null at the end, and the length of this one.\<close>

definition video_terminal_get_next_line ::
  "ram \<Rightarrow> video_rectangle \<Rightarrow> video_font \<Rightarrow> addr \<Rightarrow> (addr \<times> int) outcome" where
  "video_terminal_get_next_line m rect font data_now =
     bindE (returns (strlen (str_at m data_now))) (\<lambda>slen.
     if slen = 0 then Inr (0, 0)
     else if vf_width font = 0 then Inl DivideError
     else
       let max_characters = vr_width rect sdiv vf_width font;
           slen = (if int slen > max_characters then max_characters else int slen)
       in case newline_in (str_at m data_now) 0 (nat slen) of
            Some i \<Rightarrow> Inr (data_now + of_nat i + 1, int i)
          | None \<Rightarrow> Inr (data_now + word_of_int slen, slen))"

text \<open>One turn of the loop of \<open>video_terminal_paste\<close>; \<open>None\<close> ends it.\<close>

definition paste_line ::
  "'a kstate_scheme \<Rightarrow> addr \<Rightarrow> addr \<Rightarrow> int \<Rightarrow> int \<Rightarrow> ('a kstate_scheme \<times> addr \<times> int \<times> int) option outcome" where
  "paste_line s rectangle data_now ignore y =
     bindE (deref (rectangles s) rectangle) (\<lambda>rect.
     bindE (deref (fonts s) (console_font s)) (\<lambda>font.
     bindE (video_terminal_get_next_line (km_ram s) rect font data_now) (\<lambda>(next_data, len).
     if next_data = 0 then Inr None
     else if ignore > 0 then Inr (Some (s, next_data, ignore - 1, y))
     else
       bindE (video_font_make_empty_string s (console_font s) len) (\<lambda>(str_pixel_data, s).
       bindE (video_font_draw s (console_font s) str_pixel_data data_now) (\<lambda>s.
       bindE (video_rectangle_draw_font_data s rectangle (console_font s) str_pixel_data 0 y len) (\<lambda>s.
       bindE (video_font_free_string s str_pixel_data) (\<lambda>s.
       Inr (Some (s, next_data, ignore, y + vf_height font)))))))))"

partial_function (option) paste_loop ::
  "'a kstate_scheme \<Rightarrow> addr \<Rightarrow> addr \<Rightarrow> int \<Rightarrow> int \<Rightarrow> 'a kstate_scheme outcome option" where
  "paste_loop s rectangle data_now ignore y =
     (case paste_line s rectangle data_now ignore y of
        Inl e \<Rightarrow> Some (Inl e)
      | Inr None \<Rightarrow> Some (Inr s)
      | Inr (Some (s', data', ignore', y')) \<Rightarrow> paste_loop s' rectangle data' ignore' y')"

definition video_terminal_paste :: "'a kstate_scheme \<Rightarrow> terminal_properties \<Rightarrow> addr \<Rightarrow> 'a kstate_scheme outcome" where
  "video_terminal_paste s p rectangle =
     bindE (video_rectangle_fill s rectangle 3) (\<lambda>(_, s).
     ran (paste_loop s rectangle (tp_data p) (tp_y_scroll p) 0))"

section \<open>Videos\<close>

definition video_back_buffer :: "'a kstate_scheme \<Rightarrow> addr \<Rightarrow> addr outcome" where
  "video_back_buffer s video = bindE (deref (videos s) video) (\<lambda>v. Inr (v_backbuffer v))"

definition video_back_buffer_clear :: "'a kstate_scheme \<Rightarrow> addr \<Rightarrow> 'a kstate_scheme outcome" where
  "video_back_buffer_clear s video =
     bindE (video_back_buffer s video) (\<lambda>ptr.
     Inr (s\<lparr>km_ram := memset (km_ram s) ptr 0 VIDEO_MODE_VGA_320x200_MEMORY_SIZE\<rparr>))"

definition video_flush_back_buffer :: "mmu \<Rightarrow> 'a kstate_scheme \<Rightarrow> addr \<Rightarrow> 'a kstate_scheme outcome" where
  "video_flush_back_buffer mmu s video =
     bindE (task_page s) (\<lambda>s.
     bindE (deref (videos s) video) (\<lambda>v.
     bindE (memcpy_virtual mmu s 0xA0000 (v_backbuffer v) 0 64000) (\<lambda>s.
     bindE (kernel_page s) (\<lambda>s.
     video_back_buffer_clear s video))))"

partial_function (option) draw_loop :: "'a kstate_scheme \<Rightarrow> addr \<Rightarrow> addr \<Rightarrow> 'a kstate_scheme outcome option" where
  "draw_loop s video list_item =
     (if list_item = 0 then Some (Inr s)
      else case bindE (deref (rectangle_items s) list_item) (\<lambda>it.
             bindE (video_rectangle_draw s video (ri_rectangle it)) (\<lambda>s. Inr (ri_next it, s))) of
        Inl e \<Rightarrow> Some (Inl e)
      | Inr r \<Rightarrow> draw_loop (snd r) video (fst r))"

definition video_draw :: "mmu \<Rightarrow> 'a kstate_scheme \<Rightarrow> addr \<Rightarrow> 'a kstate_scheme outcome" where
  "video_draw mmu s video =
     bindE (deref (videos s) video) (\<lambda>v.
     bindE (if v_printing_rectangle v \<noteq> 0 then video_terminal_paste s (v_properties v) (v_printing_rectangle v)
            else Inr s) (\<lambda>s.
     bindE (ran (draw_loop s video (v_rectangles v))) (\<lambda>s.
     bindE (video_flush_back_buffer mmu s video) (\<lambda>s.
     upd_video video (\<lambda>v. v\<lparr>v_flags := v_flags v AND NOT 2\<rparr>) s))))"

definition video_process :: "mmu \<Rightarrow> 'a kstate_scheme \<Rightarrow> addr \<Rightarrow> 'a kstate_scheme outcome" where
  "video_process mmu s video =
     bindE (deref (videos s) video) (\<lambda>v.
     if v_flags v AND 1 \<noteq> 0 then video_draw mmu s video else Inr s)"

definition video_init ::
  "'a kstate_scheme fs_table \<Rightarrow> 'a kstate_scheme \<Rightarrow> addr \<Rightarrow> addr \<Rightarrow> 'a kstate_scheme outcome" where
  "video_init fs_lookup s filename_at header_at =
     (let s = kernel_terminal_initialize s in
      bindE (kzalloc s COS32_VIDEO_MEMORY_SIZE) (\<lambda>(p, s).
      let s = s\<lparr>video_default := p,
                km_ram := memcpy (km_ram s) p COS32_VIDEO_MEMORY_ADDRESS_START 0x20000\<rparr> in
      bindE (video_font_load_defaults fs_lookup s filename_at header_at) (\<lambda>s.
      bindE (video_font_get s (lit ''Default'')) (\<lambda>font.
      if font = 0 then panic ''No default font was found, we cannot continue!''
      else Inr (s\<lparr>console_font := font\<rparr>)))))"

definition video_new :: "'a kstate_scheme \<Rightarrow> (addr \<times> 'a kstate_scheme) outcome" where
  "video_new s =
     bindE (kmalloc s COS32_VIDEO_MEMORY_SIZE) (\<lambda>(video_ptr, s).
     let s = s\<lparr>km_ram := memcpy (km_ram s) video_ptr (video_default s) 0x20000\<rparr>;
         terminal_data_size = 80 * 20 * 6 in
     bindE (kzalloc s 44) (\<lambda>(video, s).
     if video = 0 then Inl (BadPointer 0)
     else
       bindE (kzalloc s terminal_data_size) (\<lambda>(data, s).
       let s = s\<lparr>km_ram := memset (km_ram s) data 0 terminal_data_size\<rparr> in
       bindE (kzalloc s VIDEO_MODE_VGA_320x200_MEMORY_SIZE) (\<lambda>(backbuffer, s).
       Inr (video, s\<lparr>videos := (videos s)(video \<mapsto>
         \<lparr>v_properties = \<lparr>tp_index = 0, tp_color = vga_entry_color 7 0, tp_data = data, tp_y_scroll = 0, tp_video = video\<rparr>,
          v_ptr = video_ptr, v_backbuffer = backbuffer, v_rectangles = 0, v_rectangle_last = 0,
          v_printing_rectangle = 0, v_flags = 1\<rparr>)\<rparr>)))))"

definition video_free :: "'a kstate_scheme \<Rightarrow> addr \<Rightarrow> 'a kstate_scheme outcome" where
  "video_free s video =
     bindE (video_rectangles_free s video) (\<lambda>s.
     bindE (deref (videos s) video) (\<lambda>v.
     bindE (kfree s (v_ptr v)) (\<lambda>s.
     kfree s video)))"

definition video_save :: "'a kstate_scheme \<Rightarrow> addr \<Rightarrow> 'a kstate_scheme outcome" where
  "video_save s video =
     bindE (deref (videos s) video) (\<lambda>v.
     Inr (s\<lparr>km_ram := memcpy (km_ram s) (v_ptr v) COS32_VIDEO_MEMORY_ADDRESS_START 0x20000\<rparr>))"

definition video_restore :: "'a kstate_scheme \<Rightarrow> addr \<Rightarrow> 'a kstate_scheme outcome" where
  "video_restore s video =
     bindE (deref (videos s) video) (\<lambda>v.
     Inr (s\<lparr>km_ram := memcpy (km_ram s) COS32_VIDEO_MEMORY_ADDRESS_START (v_ptr v) 0x20000\<rparr>))"

section \<open>A terminal as text\<close>

text \<open>What typing \<open>cs\<close> makes of the text \<open>t\<close>, and the terminal that shows \<open>t\<close>.\<close>

definition edited :: "byte list \<Rightarrow> byte list \<Rightarrow> byte list" where
  "edited t cs = foldl (\<lambda>t c. if c = 0x08 then butlast t else t @ [c]) t cs"

definition shows_text :: "ram \<Rightarrow> terminal_properties \<Rightarrow> byte list \<Rightarrow> bool" where
  "shows_text m p t \<longleftrightarrow> tp_data p \<noteq> 0 \<and> tp_index p = int (length t) \<and> read_bytes m (tp_data p) (length t) = t"

lemma putchar_shows:
  assumes "shows_text m p t" "length t < 2 ^ 31" "terminal_putchar m p c = (m', p')"
  shows "shows_text m' p' (edited t [c])" "tp_data p' = tp_data p"
    "a \<notin> region (tp_data p) (Suc (length t)) \<Longrightarrow> m' a = m a"
proof -
  have d: "tp_data p \<noteq> 0" and i: "tp_index p = int (length t)" and r: "read_bytes m (tp_data p) (length t) = t"
    using assms(1) by (simp_all add: shows_text_def)
  have ne: "tp_data p + of_nat k \<noteq> tp_data p + of_nat n" if "k < n" "n < 2 ^ 31" for k n
    using of_nat_inj_u32 [of k n] that by simp
  have keep: "read_bytes (m(tp_data p + of_nat n := b)) (tp_data p) n = read_bytes m (tp_data p) n" if "n < 2 ^ 31" for n b
    by (rule nth_equalityI) (use ne that in auto)
  have snoc: "read_bytes (m(tp_data p + of_nat n := b)) (tp_data p) (Suc n) = read_bytes m (tp_data p) n @ [b]" if "n < 2 ^ 31" for n b
    using keep [OF that, of b] by (simp add: read_bytes_def)
  have "shows_text m' p' (edited t [c]) \<and> tp_data p' = tp_data p \<and>
    (a \<notin> region (tp_data p) (Suc (length t)) \<longrightarrow> m' a = m a)"
  proof (cases "c = 0x08")
    case False
    then have e: "m' = m(tp_data p + of_nat (length t) := c)" "p' = p\<lparr>tp_index := tp_index p + 1\<rparr>"
      using assms(3) d i by (simp_all add: terminal_putchar_def terminal_put_def terminal_putentryat_def)
    show ?thesis
      using False d i r snoc [OF assms(2), of c]
      by (auto simp: e shows_text_def edited_def region_Suc)
  next
    case True
    show ?thesis
    proof (cases t rule: rev_cases)
      case Nil
      then show ?thesis using True assms(1,3) i by (simp add: terminal_putchar_def terminal_backspace_def edited_def)
    next
      case (snoc u b)
      then have e: "m' = m(tp_data p + of_nat (length u) := 0x20)" "p' = p\<lparr>tp_index := tp_index p - 1\<rparr>"
        using True assms(3) d i
        by (simp_all add: terminal_putchar_def terminal_backspace_def terminal_put_def terminal_putentryat_def Let_def)
      have l: "length u < 2 ^ 31" using assms(2) snoc by simp
      have "read_bytes m (tp_data p) (length u) = u" using r snoc by (simp add: read_bytes_def)
      then show ?thesis
        using True d i snoc keep [OF l, of "0x20"] by (auto simp: e shows_text_def edited_def region_Suc)
    qed
  qed
  then show "shows_text m' p' (edited t [c])" "tp_data p' = tp_data p"
    "a \<notin> region (tp_data p) (Suc (length t)) \<Longrightarrow> m' a = m a" by simp_all
qed

lemma edited_Cons: "edited t (c # cs) = edited (edited t [c]) cs"
  by (simp add: edited_def)

lemma length_edited: "length (edited t cs) \<le> length t + length cs"
proof (induction cs arbitrary: t)
  case (Cons c cs)
  then show ?case using Cons [of "butlast t"] Cons [of "t @ [c]"] by (auto simp: edited_def)
qed (simp add: edited_def)

lemma write_shows:
  assumes "shows_text m p t" "length t + n < 2 ^ 31"
    "region (data + of_nat i) n \<inter> region (tp_data p) (length t + n) = {}"
    "terminal_write m p data i n = (m', p')"
  shows "shows_text m' p' (edited t (read_bytes m (data + of_nat i) n)) \<and> tp_data p' = tp_data p \<and>
    (\<forall>a. a \<notin> region (tp_data p) (length t + n) \<longrightarrow> m' a = m a)"
  using assms
proof (induction n arbitrary: m p t i)
  case 0
  then show ?case by (simp add: edited_def read_bytes_def)
next
  case (Suc n)
  let ?c = "m (data + of_nat i)"
  obtain m1 p1 where 1: "terminal_putchar m p ?c = (m1, p1)" by (cases "terminal_putchar m p ?c")
  have lt: "length t < 2 ^ 31" using Suc.prems(2) by simp
  note s1 = putchar_shows [OF Suc.prems(1) lt 1]
  let ?t = "edited t [?c]"
  have len: "length ?t \<le> Suc (length t)" using length_edited [of t "[?c]"] by simp
  have rd: "region (data + of_nat (Suc i)) n \<subseteq> region (data + of_nat i) (Suc n)"
    by (auto simp: mem_region add.assoc) (metis Suc_mono of_nat_Suc)
  have sub: "region (tp_data p) (length ?t + n) \<subseteq> region (tp_data p) (length t + Suc n)"
    by (rule region_mono) (use len in simp)
  have dis: "region (data + of_nat (Suc i)) n \<inter> region (tp_data p1) (length ?t + n) = {}"
    using Suc.prems(3) rd sub unfolding s1(2) by blast
  have w: "terminal_write m1 p1 data (Suc i) n = (m', p')" using Suc.prems(4) 1 by (simp add: Let_def)
  have l: "length ?t + n < 2 ^ 31" using Suc.prems(2) len by simp
  note IH = Suc.IH [OF s1(1) l dis w]
  have st: "region (tp_data p) (Suc (length t)) \<subseteq> region (tp_data p) (length t + Suc n)" by (rule region_mono) simp
  have "read_bytes m1 (data + of_nat (Suc i)) n = read_bytes m (data + of_nat (Suc i)) n"
    by (rule read_bytes_cong) (use s1(3) Suc.prems(3) rd st in blast)
  moreover have "read_bytes m (data + of_nat i) (Suc n) = ?c # read_bytes m (data + of_nat (Suc i)) n"
  proof (rule nth_equalityI)
    fix j assume "j < length (read_bytes m (data + of_nat i) (Suc n))"
    then show "read_bytes m (data + of_nat i) (Suc n) ! j = (?c # read_bytes m (data + of_nat (Suc i)) n) ! j"
      by (cases j) (simp_all add: algebra_simps)
  qed simp
  ultimately have r: "edited ?t (read_bytes m1 (data + of_nat (Suc i)) n) = edited t (read_bytes m (data + of_nat i) (Suc n))"
    using edited_Cons [of t ?c "read_bytes m (data + of_nat (Suc i)) n"] by simp
  have fr: "m' a = m a" if "a \<notin> region (tp_data p) (length t + Suc n)" for a
  proof -
    have "a \<notin> region (tp_data p) (Suc (length t))" "a \<notin> region (tp_data p1) (length ?t + n)"
      using that st sub unfolding s1(2) by blast+
    then show ?thesis using IH s1(3) by simp
  qed
  show ?case using IH fr s1(2) unfolding r by simp
qed

text \<open>C26: Writing a string to a terminal types it: the terminal then shows its text with the characters
  appended in order, each backspace taking the last character off, at the beginning without effect;
  only the bytes of the terminal are written.\<close>

theorem terminal_write_types:
  assumes "shows_text m p t" "string_in m data cs" "length t + length cs < 2 ^ 31"
    "region data (length cs) \<inter> region (tp_data p) (length t + length cs) = {}"
  shows "\<exists>m' p'. video_terminal_writestring m p data = Inr (m', p') \<and> shows_text m' p' (edited t cs) \<and>
    (\<forall>a. a \<notin> region (tp_data p) (length t + length cs) \<longrightarrow> m' a = m a)"
proof -
  have l: "strlen (str_at m data) = Some (length cs)"
    using string_in_cstr [OF assms(2)] by (simp add: strlen_eq_iff)
  obtain m' p' where w: "terminal_write m p data 0 (length cs) = (m', p')" by (cases "terminal_write m p data 0 (length cs)")
  have d: "region (data + of_nat 0) (length cs) \<inter> region (tp_data p) (length t + length cs) = {}" using assms(4) by simp
  have "read_bytes m data (length cs) = cs" using assms(2) by (simp add: string_in_def)
  then show ?thesis
    using write_shows [OF assms(1,3) d w] by (simp add: video_terminal_writestring_def l w returns_def)
qed

lemma terminal_write_types_witness:
  "\<exists>m' p'. video_terminal_writestring ((\<lambda>a. 0)(0x100 := 97, 0x101 := 98, 0x102 := 8, 0x103 := 99))
     \<lparr>tp_index = 0, tp_color = 7, tp_data = 0x200, tp_y_scroll = 0, tp_video = 0\<rparr> 0x100 = Inr (m', p') \<and>
   shows_text m' p' [97, 99]"
proof -
  let ?m = "(\<lambda>a. 0)(0x100 := 97, 0x101 := 98, 0x102 := 8, 0x103 := 99) :: ram"
  let ?p = "\<lparr>tp_index = 0, tp_color = 7, tp_data = 0x200, tp_y_scroll = 0, tp_video = 0\<rparr>"
  have t: "shows_text ?m ?p []" by (simp add: shows_text_def read_bytes_def)
  have s: "string_in ?m 0x100 [97, 98, 8, 99]" by (simp add: string_in_def read_bytes_def upt_rec)
  have l: "length [97, 98, 8, 99 :: byte] = 4" "length ([] :: byte list) = 0" by simp_all
  have d: "region 0x100 (length [97, 98, 8, 99 :: byte]) \<inter> region (tp_data ?p) (length ([] :: byte list) + length [97, 98, 8, 99 :: byte]) = {}"
    unfolding l add_0 region_4 by simp
  from terminal_write_types [OF t s _ d] show ?thesis by (auto simp: edited_def)
qed

end
