(* ===== verification/Task.thy ===== *)
theory Task
  imports Video
begin

text \<open>
  \<open>src/task/task.c\<close>: tasks, the circular order in which they run, sleeping and waking, the list of
  all tasks, copies between the kernel and a task's address space, and the mapping of video memory.
  \<open>EntersTask\<close> marks the calls that end in \<open>task_return\<close>, which never come back: the machine is
  then in the program of \<open>current_task\<close> with its saved registers.
\<close>

section \<open>Sleeping and waking\<close>

definition task_wake :: "'a kstate_scheme \<Rightarrow> addr \<Rightarrow> 'a kstate_scheme outcome" where
  "task_wake s task = upd_task task (\<lambda>t. t\<lparr>tk_awake := True, tk_awake_at := - 1\<rparr>) s"

definition task_pause :: "'a kstate_scheme \<Rightarrow> addr \<Rightarrow> 'a kstate_scheme outcome" where
  "task_pause s task = upd_task task (\<lambda>t. t\<lparr>tk_awake := False, tk_awake_at := - 1\<rparr>) s"

definition pit_get_millis :: "'a kstate_scheme \<Rightarrow> int" where
  "pit_get_millis s = ticks_since_initialized s"

text \<open>One step of \<open>task_wake_tasks\<close>: wakes the task when it is due and gives its successor.\<close>

definition wake_step :: "'a kstate_scheme \<Rightarrow> addr \<Rightarrow> (addr \<times> 'a kstate_scheme) outcome" where
  "wake_step s current =
     bindE (deref (tasks s) current) (\<lambda>t.
     bindE (if tk_awake t \<or> tk_awake_at t = - 1 then Inr s
            else if pit_get_millis s > tk_awake_at t then task_wake s current else Inr s) (\<lambda>s.
     Inr (tk_next t, s)))"

partial_function (option) wake_loop :: "'a kstate_scheme \<Rightarrow> addr \<Rightarrow> 'a kstate_scheme outcome option" where
  "wake_loop s current =
     (if current = 0 then Some (Inr s)
      else case wake_step s current of Inl e \<Rightarrow> Some (Inl e) | Inr r \<Rightarrow> wake_loop (snd r) (fst r))"

definition task_wake_tasks :: "'a kstate_scheme \<Rightarrow> 'a kstate_scheme outcome" where
  "task_wake_tasks s = ran (wake_loop s (task_head s))"

definition task_process :: "'a kstate_scheme \<Rightarrow> 'a kstate_scheme outcome" where
  "task_process s = task_wake_tasks s"

section \<open>The scheduler\<close>

definition task_switch :: "'a kstate_scheme \<Rightarrow> addr \<Rightarrow> 'a kstate_scheme outcome" where
  "task_switch s task =
     bindE (deref (tasks s) task) (\<lambda>t.
     if tk_page_directory t = 0 then panic ''???''
     else
       bindE (ASSERT ''task_switch'' (tk_page_directory t \<noteq> 0)) (\<lambda>_.
       paging_switch (s\<lparr>current_task := task\<rparr>) (tk_page_directory t)))"

definition task_get_next_to :: "'a kstate_scheme \<Rightarrow> addr \<Rightarrow> addr outcome" where
  "task_get_next_to s task =
     bindE (deref (tasks s) task) (\<lambda>t. Inr (if tk_next t = 0 then task_head s else tk_next t))"

partial_function (option) count_loop :: "'a kstate_scheme \<Rightarrow> addr \<Rightarrow> nat \<Rightarrow> nat outcome option" where
  "count_loop s task i =
     (if task = 0 then Some (Inr i)
      else case deref (tasks s) task of Inl e \<Rightarrow> Some (Inl e) | Inr t \<Rightarrow> count_loop s (tk_next t) (Suc i))"

definition task_get_count :: "'a kstate_scheme \<Rightarrow> nat outcome" where
  "task_get_count s = ran (count_loop s (task_head s) 0)"

partial_function (option) awake_count_loop :: "'a kstate_scheme \<Rightarrow> addr \<Rightarrow> nat \<Rightarrow> nat outcome option" where
  "awake_count_loop s task i =
     (if task = 0 then Some (Inr i)
      else case deref (tasks s) task of
        Inl e \<Rightarrow> Some (Inl e)
      | Inr t \<Rightarrow> if tk_awake t then awake_count_loop s (tk_next t) (Suc i) else Some (Inr i))"

definition task_get_awake_count :: "'a kstate_scheme \<Rightarrow> nat outcome" where
  "task_get_awake_count s = ran (awake_count_loop s (task_head s) 0)"

text \<open>\<open>task_get_next_active_task\<close> up to its recursive call: the candidate, and whether it is awake.\<close>

definition next_candidate :: "'a kstate_scheme \<Rightarrow> addr \<Rightarrow> (addr \<times> bool \<times> 'a kstate_scheme) outcome" where
  "next_candidate s task =
     bindE (task_get_next_to s task) (\<lambda>next_task.
     bindE (task_get_awake_count s) (\<lambda>awake.
     bindE (if awake = 0 then task_wake s next_task else Inr s) (\<lambda>s.
     bindE (deref (tasks s) next_task) (\<lambda>t. Inr (next_task, tk_awake t, s)))))"

partial_function (option) next_active_loop :: "'a kstate_scheme \<Rightarrow> addr \<Rightarrow> (addr \<times> 'a kstate_scheme) outcome option" where
  "next_active_loop s task =
     (case next_candidate s task of
        Inl e \<Rightarrow> Some (Inl e)
      | Inr (next_task, awake, s') \<Rightarrow>
          if awake then Some (Inr (next_task, s')) else next_active_loop s' next_task)"

definition task_get_next_active_task :: "'a kstate_scheme \<Rightarrow> addr \<Rightarrow> (addr \<times> 'a kstate_scheme) outcome" where
  "task_get_next_active_task s task = ran (next_active_loop s task)"

definition task_get_next :: "'a kstate_scheme \<Rightarrow> (addr \<times> 'a kstate_scheme) outcome" where
  "task_get_next s = task_get_next_active_task s (current_task s)"

text \<open>The state in which the chosen task's program goes on.\<close>

definition task_next :: "'a kstate_scheme \<Rightarrow> 'a kstate_scheme outcome" where
  "task_next s = bindE (task_get_next s) (\<lambda>(task, s). task_switch s task)"

definition task_usleep :: "'a kstate_scheme \<Rightarrow> addr \<Rightarrow> u32 \<Rightarrow> (flow \<times> 'a kstate_scheme) outcome" where
  "task_usleep s task millis =
     bindE (upd_task task (\<lambda>t. t\<lparr>tk_awake := False, tk_awake_at := sint (word_of_int (pit_get_millis s) + millis)\<rparr>) s) (\<lambda>s.
     if task = current_task s then bindE (task_next s) (\<lambda>s. Inr (EntersTask, s))
     else Inr (Returns, s))"

definition task_run_first_ever_task :: "'a kstate_scheme \<Rightarrow> 'a kstate_scheme outcome" where
  "task_run_first_ever_task s =
     bindE (ASSERT ''task_run_first_ever_task'' (current_task s = 0)) (\<lambda>_.
     bindE (ASSERT ''task_run_first_ever_task'' (task_head s \<noteq> 0)) (\<lambda>_.
     task_switch s (task_head s)))"

section \<open>Saved registers\<close>

record interrupt_frame =
  if_edi :: u32
  if_esi :: u32
  if_ebp :: u32
  if_reserved :: u32
  if_ebx :: u32
  if_edx :: u32
  if_ecx :: u32
  if_eax :: u32
  if_ip :: u32
  if_cs :: u32
  if_flags :: u32
  if_esp :: u32
  if_ss :: u32

definition task_save_state :: "'a kstate_scheme \<Rightarrow> addr \<Rightarrow> interrupt_frame \<Rightarrow> (int \<times> 'a kstate_scheme) outcome" where
  "task_save_state s task frame =
     bindE (upd_task task (\<lambda>t. t\<lparr>tk_registers :=
       \<lparr>r_edi = if_edi frame, r_esi = if_esi frame, r_ebp = if_ebp frame, r_ebx = if_ebx frame,
        r_edx = if_edx frame, r_ecx = if_ecx frame, r_eax = if_eax frame, r_ip = if_ip frame,
        r_cs = if_cs frame, r_flags = if_flags frame, r_esp = if_esp frame, r_ss = if_ss frame\<rparr>\<rparr>) s) (\<lambda>s.
     Inr (0, s))"

definition task_current_save_state :: "'a kstate_scheme \<Rightarrow> interrupt_frame \<Rightarrow> 'a kstate_scheme outcome" where
  "task_current_save_state s frame =
     bindE (assert_kernel_page ''task_current_save_state'' s) (\<lambda>_.
     bindE (ASSERT ''task_current_save_state'' (current_task s \<noteq> 0)) (\<lambda>_.
     bindE (task_save_state s (current_task s) frame) (\<lambda>(res, s).
     bindE (ASSERT ''task_current_save_state'' (res = 0)) (\<lambda>_. Inr s))))"

section \<open>Copies between the kernel and a task\<close>

text \<open>The page directory of a task.\<close>

definition task_directory :: "'a kstate_scheme \<Rightarrow> addr \<Rightarrow> addr outcome" where
  "task_directory s task =
     bindE (deref (tasks s) task) (\<lambda>t. bindE (deref (chunks s) (tk_page_directory t)) (\<lambda>c. Inr (directory_entry c)))"

definition copy_integer_to_task :: "mmu \<Rightarrow> 'a kstate_scheme \<Rightarrow> addr \<Rightarrow> addr \<Rightarrow> int \<Rightarrow> (int \<times> 'a kstate_scheme) outcome" where
  "copy_integer_to_task mmu s task address val =
     bindE (task_page_task s task) (\<lambda>s.
     bindE (write32_virtual mmu s address (word_of_int val)) (\<lambda>s.
     bindE (kernel_page s) (\<lambda>s. Inr (0, s))))"

text \<open>Here the old entry goes to \<open>paging_map\<close> as its flags.\<close>

definition copy_string_to_task ::
  "mmu \<Rightarrow> 'a kstate_scheme \<Rightarrow> addr \<Rightarrow> addr \<Rightarrow> addr \<Rightarrow> int \<Rightarrow> (int \<times> 'a kstate_scheme) outcome" where
  "copy_string_to_task mmu s task virtual_address val mx =
     (if mx \<ge> 4096 then Inr (- EINVARG, s)
      else
        bindE (task_directory s task) (\<lambda>task_directory.
        bindE (kzalloc s mx) (\<lambda>(tmp, s).
        let s = s\<lparr>km_ram := strncpy (km_ram s) tmp val mx\<rparr> in
        bindE (paging_get (km_ram s) task_directory tmp) (\<lambda>old_paging_entry.
        let (_, m) = paging_map (km_ram s) task_directory tmp tmp
              (PAGING_PAGE_WRITEABLE OR PAGING_PAGE_PRESENT OR PAGING_CACHE_DISABLED OR PAGING_ACCESS_FROM_ALL);
            s = s\<lparr>km_ram := m\<rparr> in
        bindE (task_page_task s task) (\<lambda>s.
        bindE (strncpy_virtual mmu s virtual_address tmp 0 (nat mx)) (\<lambda>s.
        bindE (kernel_page s) (\<lambda>s.
        let (_, m) = paging_map (km_ram s) task_directory tmp tmp old_paging_entry in
        Inr (0, s\<lparr>km_ram := m\<rparr>))))))))"

text \<open>\<open>virt\<close> is an address of the task, \<open>phys\<close> one of the kernel.\<close>

definition copy_string_from_task ::
  "mmu \<Rightarrow> 'a kstate_scheme \<Rightarrow> addr \<Rightarrow> addr \<Rightarrow> addr \<Rightarrow> int \<Rightarrow> (int \<times> 'a kstate_scheme) outcome" where
  "copy_string_from_task mmu s task virt phys mx =
     bindE (assert_kernel_page ''copy_string_from_task'' s) (\<lambda>_.
     if mx \<ge> 4096 then Inr (- EINVARG, s)
     else
       bindE (kzalloc s mx) (\<lambda>(tmp, s).
       if tmp = 0 then Inr (0, s)
       else
         bindE (task_directory s task) (\<lambda>task_directory.
         bindE (paging_get (km_ram s) task_directory tmp) (\<lambda>old_entry.
         let (_, m) = paging_map (km_ram s) task_directory tmp tmp
               (PAGING_PAGE_WRITEABLE OR PAGING_PAGE_PRESENT OR PAGING_ACCESS_FROM_ALL);
             s = s\<lparr>km_ram := m\<rparr> in
         bindE (task_page_task s task) (\<lambda>s.
         bindE (strncpy_virtual mmu s tmp virt 0 (nat mx)) (\<lambda>s.
         bindE (kernel_page s) (\<lambda>s.
         let (res, m) = paging_set (km_ram s) task_directory tmp old_entry;
             s = s\<lparr>km_ram := m\<rparr>;
             s = (if res < 0 then s else s\<lparr>km_ram := strncpy (km_ram s) phys tmp mx\<rparr>) in
         bindE (kfree s tmp) (\<lambda>s. Inr (0, s)))))))))"

text \<open>\<open>stack_item_ptr\<close> counts four-byte units, so the index is scaled twice.\<close>

definition task_set_stack_item :: "mmu \<Rightarrow> 'a kstate_scheme \<Rightarrow> addr \<Rightarrow> int \<Rightarrow> u32 \<Rightarrow> (int \<times> 'a kstate_scheme) outcome" where
  "task_set_stack_item mmu s task index val =
     bindE (assert_kernel_page ''task_set_stack_item'' s) (\<lambda>_.
     bindE (deref (tasks s) task) (\<lambda>t.
     let sp_ptr = r_esp (tk_registers t);
         stack_item_ptr = sp_ptr - 4 * (word_of_int index * 4) in
     bindE (task_page_task s task) (\<lambda>s.
     bindE (write32_virtual mmu s stack_item_ptr val) (\<lambda>s.
     bindE (kernel_page s) (\<lambda>s. Inr (0, s))))))"

definition task_push_stack_item :: "mmu \<Rightarrow> 'a kstate_scheme \<Rightarrow> addr \<Rightarrow> u32 \<Rightarrow> (int \<times> 'a kstate_scheme) outcome" where
  "task_push_stack_item mmu s task val =
     bindE (assert_kernel_page ''task_push_stack_item'' s) (\<lambda>_.
     bindE (deref (tasks s) task) (\<lambda>t.
     let sp_ptr = r_esp (tk_registers t) in
     bindE (task_page_task s task) (\<lambda>s.
     let sp_ptr = sp_ptr - 4 in
     bindE (write32_virtual mmu s sp_ptr val) (\<lambda>s.
     bindE (kernel_page s) (\<lambda>s.
     bindE (upd_task task (\<lambda>t. t\<lparr>tk_registers := (tk_registers t)\<lparr>r_esp := sp_ptr\<rparr>\<rparr>) s) (\<lambda>s.
     Inr (0, s)))))))"

definition task_get_stack_item :: "mmu \<Rightarrow> 'a kstate_scheme \<Rightarrow> addr \<Rightarrow> int \<Rightarrow> (addr \<times> 'a kstate_scheme) outcome" where
  "task_get_stack_item mmu s task index =
     bindE (assert_kernel_page ''task_get_stack_item'' s) (\<lambda>_.
     bindE (deref (tasks s) task) (\<lambda>t.
     let sp_ptr = r_esp (tk_registers t) in
     bindE (task_page_task s task) (\<lambda>s.
     bindE (read32_virtual mmu s (sp_ptr + 4 * word_of_int index)) (\<lambda>result.
     bindE (kernel_page s) (\<lambda>s. Inr (result, s))))))"

definition task_current_get_stack_item :: "mmu \<Rightarrow> 'a kstate_scheme \<Rightarrow> int \<Rightarrow> (addr \<times> 'a kstate_scheme) outcome" where
  "task_current_get_stack_item mmu s index =
     bindE (ASSERT ''task_current_get_stack_item'' (current_task s \<noteq> 0)) (\<lambda>_.
     task_get_stack_item mmu s (current_task s) index)"

definition task_current_get_stack_item_uint :: "mmu \<Rightarrow> 'a kstate_scheme \<Rightarrow> int \<Rightarrow> (u32 \<times> 'a kstate_scheme) outcome" where
  "task_current_get_stack_item_uint mmu s index = task_current_get_stack_item mmu s index"

definition task_virtual_address_to_physical :: "'a kstate_scheme \<Rightarrow> addr \<Rightarrow> addr \<Rightarrow> (addr \<times> 'a kstate_scheme) outcome" where
  "task_virtual_address_to_physical s task virtual_address =
     bindE (task_page_task s task) (\<lambda>s.
     bindE (task_directory s task) (\<lambda>d.
     bindE (paging_get_physical_address (km_ram s) d virtual_address) (\<lambda>physical_address.
     bindE (kernel_page s) (\<lambda>s. Inr (physical_address, s)))))"

section \<open>The list of tasks\<close>

text \<open>\<open>prev\<close> of the successor is left as it was.\<close>

definition task_list_remove :: "'a kstate_scheme \<Rightarrow> addr \<Rightarrow> 'a kstate_scheme outcome" where
  "task_list_remove s task =
     bindE (deref (tasks s) task) (\<lambda>t.
     bindE (if tk_prev t \<noteq> 0 then upd_task (tk_prev t) (\<lambda>p. p\<lparr>tk_next := tk_next t\<rparr>) s else Inr s) (\<lambda>s.
     bindE (deref (tasks s) task) (\<lambda>t.
     let s = (if task = task_head s then s\<lparr>task_head := tk_next t\<rparr> else s);
         s = (if task = task_tail s then s\<lparr>task_tail := tk_prev t\<rparr> else s) in
     if task = current_task s then bindE (task_get_next s) (\<lambda>(n, s). Inr (s\<lparr>current_task := n\<rparr>))
     else Inr s)))"

definition task_free :: "'a kstate_scheme \<Rightarrow> addr \<Rightarrow> (int \<times> 'a kstate_scheme) outcome" where
  "task_free s task =
     bindE (assert_kernel_page ''task_free'' s) (\<lambda>_.
     bindE (deref (tasks s) task) (\<lambda>t.
     bindE (paging_free_4gb s (tk_page_directory t)) (\<lambda>s.
     bindE (task_list_remove s task) (\<lambda>s.
     bindE (kfree s task) (\<lambda>s. Inr (0, s))))))"

section \<open>Video memory of a task\<close>

definition task_video :: "'a kstate_scheme \<Rightarrow> addr \<Rightarrow> video outcome" where
  "task_video s task =
     bindE (deref (tasks s) task) (\<lambda>t. bindE (deref (process_at s) (tk_process t)) (\<lambda>p. deref (videos s) (p_video p)))"

definition task_map_video_memory :: "'a kstate_scheme \<Rightarrow> addr \<Rightarrow> (int \<times> 'a kstate_scheme) outcome" where
  "task_map_video_memory s task =
     bindE (task_video s task) (\<lambda>v.
     let video_memory = v_ptr v in
     bindE (task_directory s task) (\<lambda>d.
     bindE (paging_map_to (km_ram s) d COS32_VIDEO_MEMORY_ADDRESS_START video_memory
              (paging_align_address (video_memory + 0x20000))
              (PAGING_PAGE_PRESENT OR PAGING_ACCESS_FROM_ALL OR PAGING_PAGE_WRITEABLE)) (\<lambda>(res, m).
     Inr (res, s\<lparr>km_ram := m\<rparr>))))"

definition task_unmap_video_memory :: "'a kstate_scheme \<Rightarrow> addr \<Rightarrow> (int \<times> 'a kstate_scheme) outcome" where
  "task_unmap_video_memory s task =
     bindE (task_directory s task) (\<lambda>d.
     bindE (paging_map_to (km_ram s) d COS32_VIDEO_MEMORY_ADDRESS_START COS32_VIDEO_MEMORY_ADDRESS_START
              (paging_align_address (COS32_VIDEO_MEMORY_ADDRESS_START + 0x20000))
              (PAGING_PAGE_PRESENT OR PAGING_ACCESS_FROM_ALL OR PAGING_PAGE_WRITEABLE)) (\<lambda>(res, m).
     Inr (res, s\<lparr>km_ram := m\<rparr>)))"

text \<open>
  Both print to the video of the current task's process; the text buffer is kernel memory, which
  the task's directory maps to itself.
\<close>

definition task_print :: "'a kstate_scheme \<Rightarrow> addr \<Rightarrow> 'a kstate_scheme outcome" where
  "task_print s message =
     bindE (deref (tasks s) (current_task s)) (\<lambda>t.
     bindE (deref (process_at s) (tk_process t)) (\<lambda>p.
     bindE (deref (videos s) (p_video p)) (\<lambda>v.
     bindE (video_terminal_writestring (km_ram s) (v_properties v) message) (\<lambda>(m, props).
     upd_video (p_video p) (\<lambda>v. v\<lparr>v_properties := props\<rparr>) (s\<lparr>km_ram := m\<rparr>)))))"

definition task_putchar :: "'a kstate_scheme \<Rightarrow> byte \<Rightarrow> 'a kstate_scheme outcome" where
  "task_putchar s c =
     bindE (task_page s) (\<lambda>s.
     bindE (deref (tasks s) (current_task s)) (\<lambda>t.
     bindE (deref (process_at s) (tk_process t)) (\<lambda>p.
     bindE (deref (videos s) (p_video p)) (\<lambda>v.
     let (m, props) = terminal_putchar (km_ram s) (v_properties v) c in
     bindE (upd_video (p_video p) (\<lambda>v. v\<lparr>v_properties := props\<rparr>) (s\<lparr>km_ram := m\<rparr>)) (\<lambda>s.
     kernel_page s)))))"

section \<open>New tasks\<close>

abbreviation (input) COS32_PROGRAM_VIRTUAL_ADDRESS :: addr where "COS32_PROGRAM_VIRTUAL_ADDRESS \<equiv> 0x0400000"
abbreviation (input) COS32_PROGRAM_VIRTUAL_STACK_ADDRESS_START :: addr where
  "COS32_PROGRAM_VIRTUAL_STACK_ADDRESS_START \<equiv> 0x3FF000"
abbreviation (input) USER_DATA_SEGMENT :: u32 where "USER_DATA_SEGMENT \<equiv> 0x23"
abbreviation (input) USER_CODE_SEGMENT :: u32 where "USER_CODE_SEGMENT \<equiv> 0x1b"

text \<open>\<open>elf_header(process->elf_file)->e_entry\<close>, at offset 24 of the file's image.\<close>

definition task_entry :: "'a kstate_scheme \<Rightarrow> process \<Rightarrow> addr outcome" where
  "task_entry s p =
     (case p_filetype p of
        FILE_TYPE_ELF \<Rightarrow> bindE (deref (elf_files s) (p_ptr p)) (\<lambda>f. Inr (load32 (km_ram s) (ef_memory f + 24)))
      | FILE_TYPE_BINARY \<Rightarrow> Inr COS32_PROGRAM_VIRTUAL_ADDRESS)"

definition task_init :: "'a kstate_scheme \<Rightarrow> addr \<Rightarrow> addr \<Rightarrow> (int \<times> 'a kstate_scheme) outcome" where
  "task_init s task process =
     bindE (deref (process_at s) process) (\<lambda>p.
     bindE (ASSERT ''task_init'' (p_video p \<noteq> 0)) (\<lambda>_.
     let s = s\<lparr>tasks := (tasks s)(task \<mapsto> zero_task)\<rparr> in
     bindE (paging_new_4gb s (ucast (PAGING_PAGE_PRESENT OR PAGING_CACHE_DISABLED))) (\<lambda>(chunk, s).
     if chunk = 0 then Inr (- EIO, s)
     else
       bindE (task_entry s p) (\<lambda>entry.
       let s = s\<lparr>tasks := (tasks s)(task \<mapsto> zero_task\<lparr>tk_page_directory := chunk,
             tk_registers := zero_registers\<lparr>r_ip := entry, r_ss := USER_DATA_SEGMENT, r_cs := USER_CODE_SEGMENT,
               r_esp := COS32_PROGRAM_VIRTUAL_STACK_ADDRESS_START\<rparr>,
             tk_awake := True, tk_process := process\<rparr>)\<rparr> in
       bindE (task_map_video_memory s task) (\<lambda>(res, s).
       bindE (ASSERT ''task_init'' (res = 0)) (\<lambda>_. Inr (0, s)))))))"

definition task_new :: "'a kstate_scheme \<Rightarrow> addr \<Rightarrow> (addr \<times> 'a kstate_scheme) outcome" where
  "task_new s process =
     bindE (kzalloc s 72) (\<lambda>(task, s).
     bindE (if task = 0 then Inr (- ENOMEM, s) else task_init s task process) (\<lambda>(res, s).
     bindE (if res \<noteq> COS32_ALL_OK then Inr s
            else if task_head s = 0 then Inr (s\<lparr>task_head := task, task_tail := task\<rparr>)
            else
              bindE (upd_task (task_tail s) (\<lambda>t. t\<lparr>tk_next := task\<rparr>) s) (\<lambda>s.
              bindE (upd_task task (\<lambda>t. t\<lparr>tk_prev := task_tail s\<rparr>) s) (\<lambda>s.
              Inr (s\<lparr>task_tail := task\<rparr>)))) (\<lambda>s.
     if ISERR res then bindE (task_free s task) (\<lambda>(_, s). Inr (ERROR res, s))
     else Inr (task, s))))"

section \<open>The list of tasks as a list\<close>

text \<open>The tasks met from \<open>p\<close> on along \<open>next\<close>, and the whole list with its two ends.\<close>

fun task_chain :: "(addr \<Rightarrow> task option) \<Rightarrow> addr \<Rightarrow> addr list \<Rightarrow> bool" where
  "task_chain st p [] \<longleftrightarrow> p = 0"
| "task_chain st p (x # xs) \<longleftrightarrow> p = x \<and> x \<noteq> 0 \<and> (case st x of None \<Rightarrow> False | Some t \<Rightarrow> task_chain st (tk_next t) xs)"

definition task_list :: "'a kstate_scheme \<Rightarrow> addr list \<Rightarrow> bool" where
  "task_list s ts \<longleftrightarrow> task_chain (tasks s) (task_head s) ts \<and> distinct ts \<and>
     task_tail s = (if ts = [] then 0 else last ts)"

definition awake_in :: "'a kstate_scheme \<Rightarrow> addr \<Rightarrow> bool" where
  "awake_in s x \<longleftrightarrow> (case tasks s x of None \<Rightarrow> False | Some t \<Rightarrow> tk_awake t)"

lemma awake_in_Some: "tasks s x = Some t \<Longrightarrow> awake_in s x = tk_awake t"
  by (simp add: awake_in_def)

lemma task_chain_Cons_iff:
  "task_chain st p (x # xs) \<longleftrightarrow> p = x \<and> x \<noteq> 0 \<and> (\<exists>t. st x = Some t \<and> task_chain st (tk_next t) xs)"
  by (auto split: option.splits)

lemma task_chain_nth:
  "task_chain st p ts \<Longrightarrow> i < length ts \<Longrightarrow>
   ts ! i \<noteq> 0 \<and> (\<exists>t. st (ts ! i) = Some t \<and> tk_next t = (if Suc i < length ts then ts ! Suc i else 0))"
proof (induction ts arbitrary: p i)
  case (Cons x xs)
  then obtain t where t: "x \<noteq> 0" "st x = Some t" "task_chain st (tk_next t) xs"
    by (auto simp: task_chain_Cons_iff simp del: task_chain.simps)
  show ?case
  proof (cases i)
    case 0
    then show ?thesis using t by (cases xs) (auto simp: task_chain_Cons_iff simp del: task_chain.simps(2))
  next
    case (Suc k)
    then show ?thesis using Cons.IH [OF t(3), of k] Cons.prems(2) by (auto split: if_splits)
  qed
qed simp

lemma task_chain_head: "task_chain st p ts \<Longrightarrow> p = (if ts = [] then 0 else hd ts)"
  by (cases ts) auto

lemma task_chain_mem: "task_chain st p ts \<Longrightarrow> x \<in> set ts \<Longrightarrow> x \<noteq> 0 \<and> (\<exists>t. st x = Some t)"
  by (metis in_set_conv_nth task_chain_nth)

lemma task_chain_cong:
  "(\<And>x. x \<in> set ts \<Longrightarrow> map_option tk_next (st x) = map_option tk_next (st' x)) \<Longrightarrow>
   task_chain st p ts \<longleftrightarrow> task_chain st' p ts"
proof (induction ts arbitrary: p)
  case (Cons x xs)
  have e: "map_option tk_next (st x) = map_option tk_next (st' x)" using Cons.prems by simp
  show ?case using Cons.IH Cons.prems e by (cases "st x"; cases "st' x") auto
qed simp

lemma task_list_successor:
  assumes "task_list s ts" "i < length ts"
  shows "task_get_next_to s (ts ! i) = Inr (ts ! (Suc i mod length ts))"
proof -
  obtain t where t: "tasks s (ts ! i) = Some t" "tk_next t = (if Suc i < length ts then ts ! Suc i else 0)"
    using assms task_chain_nth unfolding task_list_def by blast
  show ?thesis
  proof (cases "Suc i < length ts")
    case True
    moreover have "ts ! Suc i \<noteq> 0" using True assms(1) task_chain_nth unfolding task_list_def by blast
    ultimately show ?thesis using t by (simp add: task_get_next_to_def deref_Some)
  next
    case False
    then have n: "Suc i = length ts" using assms(2) by simp
    moreover have "task_head s = ts ! 0"
      using assms task_chain_head [of "tasks s" "task_head s" ts] unfolding task_list_def
      by (cases ts) (auto simp: hd_conv_nth)
    ultimately show ?thesis using t by (simp add: task_get_next_to_def deref_Some)
  qed
qed

section \<open>Counting\<close>

lemma count_loop_chain: "task_chain (tasks s) p ts \<Longrightarrow> count_loop s p i = Some (Inr (i + length ts))"
proof (induction ts arbitrary: p i)
  case Nil
  then show ?case by (subst count_loop.simps) simp
next
  case (Cons x xs)
  then obtain t where "p = x" "x \<noteq> 0" "tasks s x = Some t" "task_chain (tasks s) (tk_next t) xs"
    by (auto simp: task_chain_Cons_iff simp del: task_chain.simps)
  then show ?case using Cons.IH [of "tk_next t" "Suc i"]
    by (subst count_loop.simps) (simp add: deref_Some)
qed

lemma awake_count_loop_chain:
  "task_chain (tasks s) p ts \<Longrightarrow>
   awake_count_loop s p i = Some (Inr (i + length (takeWhile (awake_in s) ts)))"
proof (induction ts arbitrary: p i)
  case Nil
  then show ?case by (subst awake_count_loop.simps) simp
next
  case (Cons x xs)
  then obtain t where "p = x" "x \<noteq> 0" "tasks s x = Some t" "task_chain (tasks s) (tk_next t) xs"
    by (auto simp: task_chain_Cons_iff simp del: task_chain.simps)
  then show ?case using Cons.IH [of "tk_next t" "Suc i"]
    by (subst awake_count_loop.simps) (simp add: deref_Some awake_in_Some)
qed

lemma task_counts_result:
  assumes "task_list s ts"
  shows "task_get_count s = Inr (length ts)"
    and "task_get_awake_count s = Inr (length (takeWhile (awake_in s) ts))"
  using assms count_loop_chain [of s "task_head s" ts 0] awake_count_loop_chain [of s "task_head s" ts 0]
  unfolding task_list_def task_get_count_def task_get_awake_count_def by simp_all

section \<open>The choice of the next task\<close>

text \<open>The state after \<open>task_wake\<close>.\<close>

definition woken :: "'a kstate_scheme \<Rightarrow> addr \<Rightarrow> 'a kstate_scheme" where
  "woken s x = s\<lparr>tasks := (tasks s)(x := map_option (\<lambda>t. t\<lparr>tk_awake := True, tk_awake_at := - 1\<rparr>) (tasks s x))\<rparr>"

lemma task_wake_woken: "tasks s x \<noteq> None \<Longrightarrow> task_wake s x = Inr (woken s x)"
  by (auto simp: task_wake_def upd_task_def woken_def deref_Some)

lemma next_candidate_step:
  assumes "task_list s ts" "i < length ts"
  shows "next_candidate s (ts ! i) =
    (let x = ts ! (Suc i mod length ts) in
     if awake_in s (hd ts) then Inr (x, awake_in s x, s) else Inr (x, True, woken s x))"
proof -
  let ?x = "ts ! (Suc i mod length ts)"
  have "Suc i mod length ts < length ts" using assms(2) by (intro mod_less_divisor) auto
  then obtain t where t: "tasks s ?x = Some t"
    using assms(1) task_chain_nth unfolding task_list_def by blast
  have ne: "ts \<noteq> []" using assms(2) by auto
  have c: "takeWhile (awake_in s) ts = [] \<longleftrightarrow> \<not> awake_in s (hd ts)"
    using ne by (cases ts) auto
  show ?thesis
    unfolding next_candidate_def task_list_successor [OF assms] task_counts_result(2) [OF assms(1)] Let_def
    using t task_wake_woken [of s ?x]
    by (cases "awake_in s (hd ts)") (simp_all add: c awake_in_Some woken_def deref_Some)
qed

lemma rotate_Suc_mod: "rotate (Suc (Suc i mod length ts)) ts = rotate1 (rotate (Suc i) ts)"
  by (metis rotate_Suc rotate_conv_mod)

lemma filter_rotate1: "xs \<noteq> [] \<Longrightarrow> \<not> P (hd xs) \<Longrightarrow> filter P (rotate1 xs) = filter P xs"
  by (cases xs) auto

lemma next_active_awake:
  assumes l: "task_list s ts" and h: "awake_in s (hd ts)" and i: "i < length ts"
  shows "next_active_loop s (ts ! i) = Some (Inr (hd (filter (awake_in s) (rotate (Suc i) ts)), s))"
  using i
proof (induction "length (takeWhile (\<lambda>x. \<not> awake_in s x) (rotate (Suc i) ts))" arbitrary: i rule: less_induct)
  case less
  let ?n = "length ts" and ?r = "rotate (Suc i) ts"
  have ne: "ts \<noteq> []" "?r \<noteq> []" using less.prems by auto
  have hd: "hd ?r = ts ! (Suc i mod ?n)" using ne by (simp add: hd_rotate_conv_nth del: rotate_Suc)
  note step = next_candidate_step [OF l less.prems]
  show ?case
  proof (cases "awake_in s (hd ?r)")
    case True
    then have "hd (filter (awake_in s) ?r) = hd ?r" using ne by (cases ?r) (auto simp del: rotate_Suc)
    then show ?thesis using True step h hd by (subst next_active_loop.simps) (simp add: Let_def)
  next
    case False
    let ?j = "Suc i mod ?n"
    have j: "?j < ?n" using ne by (simp add: mod_less_divisor)
    have r: "rotate (Suc ?j) ts = rotate1 ?r" by (rule rotate_Suc_mod)
    have ex: "\<exists>x\<in>set ?r. awake_in s x" using h ne by (intro bexI [of _ "hd ts"]) simp_all
    obtain y ys where y: "?r = y # ys" using ne by (cases ?r) auto
    have ny: "\<not> awake_in s y" using False y by simp
    have ys: "\<exists>x\<in>set ys. awake_in s x" using ex ny unfolding y by simp
    have "length (takeWhile (\<lambda>x. \<not> awake_in s x) (rotate1 ?r)) < length (takeWhile (\<lambda>x. \<not> awake_in s x) ?r)"
      using ys ny unfolding y by (auto simp: takeWhile_append1)
    then have "next_active_loop s (ts ! ?j) = Some (Inr (hd (filter (awake_in s) (rotate1 ?r)), s))"
      using less.hyps [of ?j] j unfolding r by blast
    moreover have "filter (awake_in s) (rotate1 ?r) = filter (awake_in s) ?r"
      using False ne(2) by (rule filter_rotate1 [rotated])
    ultimately show ?thesis using False step h hd
      by (subst next_active_loop.simps) (simp add: Let_def del: rotate_Suc)
  qed
qed

lemma task_get_next_result:
  assumes "task_list s ts" "current_task s = ts ! i" "i < length ts"
  shows "task_get_next s =
    (if awake_in s (hd ts) then Inr (hd (filter (awake_in s) (rotate (Suc i) ts)), s)
     else Inr (ts ! (Suc i mod length ts), woken s (ts ! (Suc i mod length ts))))"
proof (cases "awake_in s (hd ts)")
  case True
  then show ?thesis using next_active_awake [OF assms(1) True assms(3)] assms(2)
    by (simp add: task_get_next_def task_get_next_active_task_def ran_def)
next
  case False
  then show ?thesis using next_candidate_step [OF assms(1,3)] assms(2)
    unfolding task_get_next_def task_get_next_active_task_def
    by (subst next_active_loop.simps) (simp add: Let_def ran_def)
qed

section \<open>What the scheduler promises\<close>

text \<open>Three tasks at 16, 32 and 48; the second is asleep until 100 ms.\<close>

definition demo_task :: "bool \<Rightarrow> int \<Rightarrow> addr \<Rightarrow> addr \<Rightarrow> task" where
  "demo_task awake awake_at next prev = zero_task\<lparr>tk_page_directory := 4096, tk_awake := awake,
     tk_awake_at := awake_at, tk_next := next, tk_prev := prev\<rparr>"

definition demo_tasks :: kstate where
  "demo_tasks = blank_kernel\<lparr>kernel_paging_chunk := 4096, current_directory := 8192,
     chunks := [4096 \<mapsto> \<lparr>directory_entry = 8192, faults = 0, last_fault = 0\<rparr>],
     tasks := [16 \<mapsto> demo_task True (- 1) 32 0, 32 \<mapsto> demo_task False 100 48 16, 48 \<mapsto> demo_task True (- 1) 0 32],
     task_head := 16, task_tail := 48, current_task := 16\<rparr>"

lemma demo_tasks_list: "task_list demo_tasks [16, 32, 48]"
  by (simp add: task_list_def demo_tasks_def demo_task_def blank_kernel_def)

text \<open>C21: The scheduler chooses, with the first task of the list awake, the first awake task met when
  the list is read circularly from the successor of the running task on, and changes nothing else;
  with the first task asleep, it wakes the successor of the running task, whoever else is awake, and
  chooses that.\<close>

theorem scheduler_choice:
  assumes "task_list s ts" "current_task s = ts ! i" "i < length ts"
  shows "task_get_next s =
    (if awake_in s (hd ts) then Inr (hd (filter (awake_in s) (rotate (Suc i) ts)), s)
     else Inr (ts ! (Suc i mod length ts), woken s (ts ! (Suc i mod length ts))))"
  by (rule task_get_next_result [OF assms])

lemma scheduler_choice_witness: "task_get_next demo_tasks = Inr (48, demo_tasks)"
proof -
  have c: "current_task demo_tasks = [16, 32, 48] ! 0" by (simp add: demo_tasks_def)
  have a: "awake_in demo_tasks 16" "\<not> awake_in demo_tasks 32" "awake_in demo_tasks 48"
    by (simp_all add: awake_in_def demo_tasks_def demo_task_def)
  from scheduler_choice [OF demo_tasks_list c] a show ?thesis by simp
qed

text \<open>\<open>task_get_awake_count\<close> does not count the tasks that are awake but those in front of the
  first one asleep.\<close>

theorem awake_count_is_a_prefix:
  assumes "task_list s ts"
  shows "task_get_awake_count s = Inr (length (takeWhile (awake_in s) ts))"
  by (rule task_counts_result(2) [OF assms])

lemma awake_count_is_a_prefix_witness: "task_get_awake_count demo_tasks = Inr 1"
  using awake_count_is_a_prefix [OF demo_tasks_list]
  by (simp add: awake_in_def demo_tasks_def demo_task_def)

section \<open>Waking sleepers\<close>

text \<open>A task as \<open>task_wake_tasks\<close> leaves it at a time in milliseconds.\<close>

definition rouse :: "int \<Rightarrow> task \<Rightarrow> task" where
  "rouse now t = (if \<not> tk_awake t \<and> tk_awake_at t \<noteq> - 1 \<and> now > tk_awake_at t
     then t\<lparr>tk_awake := True, tk_awake_at := - 1\<rparr> else t)"

lemma rouse_next [simp]: "tk_next (rouse now t) = tk_next t"
  by (simp add: rouse_def)

lemma wake_step_rouse:
  "tasks s x = Some t \<Longrightarrow>
   wake_step s x = Inr (tk_next t, s\<lparr>tasks := (tasks s)(x \<mapsto> rouse (ticks_since_initialized s) t)\<rparr>)"
  by (auto simp: wake_step_def rouse_def pit_get_millis_def task_wake_def upd_task_def deref_Some fun_upd_idem)

lemma wake_loop_chain:
  "task_chain (tasks s) p ts \<Longrightarrow> distinct ts \<Longrightarrow>
   wake_loop s p = Some (Inr (s\<lparr>tasks := \<lambda>x. if x \<in> set ts
      then map_option (rouse (ticks_since_initialized s)) (tasks s x) else tasks s x\<rparr>))"
proof (induction ts arbitrary: s p)
  case Nil
  then show ?case by (subst wake_loop.simps) simp
next
  case (Cons x xs)
  then obtain t where t: "p = x" "x \<noteq> 0" "tasks s x = Some t" "task_chain (tasks s) (tk_next t) xs"
    by (auto simp: task_chain_Cons_iff simp del: task_chain.simps)
  let ?s = "s\<lparr>tasks := (tasks s)(x \<mapsto> rouse (ticks_since_initialized s) t)\<rparr>"
  have "task_chain (tasks ?s) (tk_next t) xs"
    using t(3,4) task_chain_cong [of xs "tasks s" "tasks ?s" "tk_next t"] by simp
  moreover have "distinct xs" using Cons.prems by simp
  ultimately have "wake_loop ?s (tk_next t) = Some (Inr (?s\<lparr>tasks := \<lambda>y. if y \<in> set xs
      then map_option (rouse (ticks_since_initialized ?s)) (tasks ?s y) else tasks ?s y\<rparr>))"
    by (rule Cons.IH)
  moreover have "(\<lambda>y. if y \<in> set xs then map_option (rouse (ticks_since_initialized ?s)) (tasks ?s y) else tasks ?s y) =
      (\<lambda>y. if y \<in> set (x # xs) then map_option (rouse (ticks_since_initialized s)) (tasks s y) else tasks s y)"
    using t(3) Cons.prems by (auto simp: fun_eq_iff)
  ultimately show ?case using t wake_step_rouse [OF t(3)]
    by (subst wake_loop.simps) simp
qed

text \<open>C34: A timer tick wakes exactly the tasks of the list that sleep with a deadline other than \<open>- 1\<close> that
  has passed, and leaves every other task as it was; the walk along the list ends.  The only sleep without an
  end is the deadline \<open>- 1\<close>: a deadline of 0, which the comment on \<open>awake_at\<close> in \<open>task.h\<close> says is a permanent
  sleep, is to the code one that has passed as soon as the clock is past 0.\<close>

theorem task_wake_tasks_due:
  assumes "task_list s ts"
  shows "task_wake_tasks s = Inr (s\<lparr>tasks := \<lambda>x. if x \<in> set ts
      then map_option (rouse (ticks_since_initialized s)) (tasks s x) else tasks s x\<rparr>)"
  using assms wake_loop_chain [of s "task_head s" ts]
  unfolding task_list_def task_wake_tasks_def by (simp add: ran_def)

lemma task_wake_tasks_due_witness:
  "\<exists>s. task_wake_tasks (demo_tasks\<lparr>ticks_since_initialized := 110\<rparr>) = Inr s \<and> awake_in s 32"
proof -
  have "task_list (demo_tasks\<lparr>ticks_since_initialized := 110\<rparr>) [16, 32, 48]"
    using demo_tasks_list by (simp add: task_list_def)
  from task_wake_tasks_due [OF this] show ?thesis
    by (simp add: awake_in_def demo_tasks_def demo_task_def rouse_def)
qed

text \<open>The comment in \<open>task.h\<close> and the code: a sleep with the deadline 0, said to be permanent, ends with the next tick;
  it is the deadline \<open>- 1\<close> that no tick ends.\<close>

lemma sleep_until_zero_ends:
  assumes "task_list s ts" "x \<in> set ts" "tasks s x = Some t" "\<not> tk_awake t" "ticks_since_initialized s > 0"
  shows "tk_awake_at t = 0 \<Longrightarrow> \<exists>s'. task_process s = Inr s' \<and> awake_in s' x"
    and "tk_awake_at t = - 1 \<Longrightarrow> \<exists>s'. task_process s = Inr s' \<and> tasks s' x = Some t"
  using assms wake_loop_chain [of s "task_head s" ts]
  unfolding task_list_def task_process_def task_wake_tasks_def by (simp_all add: ran_def rouse_def awake_in_def)

section \<open>Running in turns\<close>

text \<open>Every task of the list has a page directory.\<close>

definition tasks_paged :: "'a kstate_scheme \<Rightarrow> addr list \<Rightarrow> bool" where
  "tasks_paged s ts \<longleftrightarrow> (\<forall>x\<in>set ts. \<exists>t c. tasks s x = Some t \<and> tk_page_directory t \<noteq> 0 \<and>
     chunks s (tk_page_directory t) = Some c)"

fun run_turns :: "nat \<Rightarrow> 'a kstate_scheme \<Rightarrow> 'a kstate_scheme outcome" where
  "run_turns 0 s = Inr s"
| "run_turns (Suc k) s = bindE (task_next s) (run_turns k)"

lemma task_switch_paged:
  assumes "tasks_paged s ts" "x \<in> set ts"
  obtains t c where "tasks s x = Some t" "chunks s (tk_page_directory t) = Some c"
    "task_switch s x = Inr (s\<lparr>current_task := x, current_directory := directory_entry c,
       current_chunk := tk_page_directory t\<rparr>)"
proof -
  obtain t c where "tasks s x = Some t" "tk_page_directory t \<noteq> 0" "chunks s (tk_page_directory t) = Some c"
    using assms unfolding tasks_paged_def by blast
  then show ?thesis using that by (simp add: task_switch_def paging_switch_def deref_Some)
qed

lemma task_next_turn:
  assumes "task_list s ts" "\<forall>x\<in>set ts. awake_in s x" "tasks_paged s ts" "current_task s = ts ! i" "i < length ts"
  shows "task_next s = task_switch s (ts ! (Suc i mod length ts))"
proof -
  have ne: "ts \<noteq> []" using assms(5) by auto
  have "filter (awake_in s) (rotate (Suc i) ts) = rotate (Suc i) ts"
    using assms(2) by (intro filter_True) simp
  moreover have "hd (rotate (Suc i) ts) = ts ! (Suc i mod length ts)"
    using ne by (simp add: hd_rotate_conv_nth del: rotate_Suc)
  moreover have "awake_in s (hd ts)" using assms(2) ne by simp
  ultimately show ?thesis using task_get_next_result [OF assms(1,4,5)]
    by (simp add: task_next_def del: rotate_Suc)
qed

lemma run_turns_result:
  assumes "task_list s ts" "\<forall>x\<in>set ts. awake_in s x" "tasks_paged s ts" "current_task s = ts ! i" "i < length ts"
  shows "\<exists>s'. run_turns k s = Inr s' \<and> current_task s' = ts ! ((i + k) mod length ts) \<and> tasks s' = tasks s"
  using assms
proof (induction k arbitrary: s i)
  case (Suc k)
  let ?j = "Suc i mod length ts"
  have j: "?j < length ts" using Suc.prems(5) by (intro mod_less_divisor) auto
  obtain t c where "tasks s (ts ! ?j) = Some t" "chunks s (tk_page_directory t) = Some c" and sw: "task_switch s (ts ! ?j) = Inr (s\<lparr>current_task := ts ! ?j,
      current_directory := directory_entry c, current_chunk := tk_page_directory t\<rparr>)"
    by (rule task_switch_paged [OF Suc.prems(3) nth_mem [OF j]])
  let ?s = "s\<lparr>current_task := ts ! ?j, current_directory := directory_entry c, current_chunk := tk_page_directory t\<rparr>"
  have "\<exists>s'. run_turns k ?s = Inr s' \<and> current_task s' = ts ! ((?j + k) mod length ts) \<and> tasks s' = tasks ?s"
  proof (rule Suc.IH [OF _ _ _ _ j])
    show "task_list ?s ts" using Suc.prems(1) by (simp add: task_list_def)
    show "\<forall>x\<in>set ts. awake_in ?s x" using Suc.prems(2) by (simp add: awake_in_def)
    show "tasks_paged ?s ts" using Suc.prems(3) by (simp add: tasks_paged_def)
  qed simp
  moreover have "(?j + k) mod length ts = (i + Suc k) mod length ts" by (simp add: mod_add_left_eq)
  ultimately show ?case using task_next_turn [OF Suc.prems] sw by auto
qed simp

text \<open>C27: While every task is awake, the tasks run in turn: after \<open>k\<close> switches the task \<open>k\<close> places
  further round the list is running, so each runs again after as many switches as there are tasks.\<close>

theorem round_robin:
  assumes "task_list s ts" "\<forall>x\<in>set ts. awake_in s x" "tasks_paged s ts" "current_task s = ts ! i" "i < length ts"
  shows "\<exists>s'. run_turns k s = Inr s' \<and> current_task s' = ts ! ((i + k) mod length ts) \<and> tasks s' = tasks s"
  by (rule run_turns_result [OF assms])

lemma round_robin_witness:
  "\<exists>s'. run_turns 2 (demo_tasks\<lparr>tasks := (tasks demo_tasks)(32 \<mapsto> demo_task True 0 48 16)\<rparr>) = Inr s' \<and> current_task s' = 48"
proof -
  let ?s = "demo_tasks\<lparr>tasks := (tasks demo_tasks)(32 \<mapsto> demo_task True 0 48 16)\<rparr>"
  have l: "task_list ?s [16, 32, 48]"
    by (simp add: task_list_def demo_tasks_def demo_task_def blank_kernel_def)
  have a: "\<forall>x\<in>set [16, 32, 48]. awake_in ?s x" "tasks_paged ?s [16, 32, 48]"
    by (simp_all add: awake_in_def tasks_paged_def demo_tasks_def demo_task_def)
  have c: "current_task ?s = [16, 32, 48] ! 0" "0 < length [16, 32, 48 :: addr]" by (simp_all add: demo_tasks_def)
  from round_robin [OF l a c, of 2] show ?thesis by auto
qed

section \<open>Removing a task from the list\<close>

text \<open>The \<open>prev\<close> links of a list of tasks.\<close>

definition prevs_ok :: "(addr \<Rightarrow> task option) \<Rightarrow> addr list \<Rightarrow> bool" where
  "prevs_ok st ts \<longleftrightarrow> (\<forall>i<length ts. map_option tk_prev (st (ts ! i)) = Some (if i = 0 then 0 else ts ! (i - 1)))"

lemma task_chain_upd: "x \<notin> set ts \<Longrightarrow> task_chain (st(x := v)) p ts = task_chain st p ts"
  by (rule task_chain_cong) auto

lemma chain_unlink:
  "task_chain st p (as @ a # b # cs) \<Longrightarrow> distinct (as @ a # b # cs) \<Longrightarrow> st a = Some ta \<Longrightarrow> st b = Some tb \<Longrightarrow>
   task_chain (st(a \<mapsto> ta\<lparr>tk_next := tk_next tb\<rparr>)) p (as @ a # cs)"
proof (induction as arbitrary: p)
  case Nil
  let ?st = "st(a \<mapsto> ta\<lparr>tk_next := tk_next tb\<rparr>)"
  have n: "task_chain st (tk_next tb) cs" "a \<notin> set cs" "p = a" "a \<noteq> 0" using Nil by auto
  with task_chain_upd [OF n(2)] have "p = a \<and> a \<noteq> 0 \<and> (\<exists>t. ?st a = Some t \<and> task_chain ?st (tk_next t) cs)" by simp
  then show ?case unfolding append_Nil task_chain_Cons_iff .
next
  case (Cons x xs)
  then show ?case by (auto split: option.splits)
qed

lemma prevs_okD: "prevs_ok st (as @ b # cs) \<Longrightarrow> st b = Some tb \<Longrightarrow> tk_prev tb = (if as = [] then 0 else last as)"
  unfolding prevs_ok_def by (drule spec [of _ "length as"]) (auto simp: nth_append last_conv_nth)

lemma task_list_remove_linked:
  assumes "tasks s x = Some t" "tk_prev t = y" "y \<noteq> 0" "y \<noteq> x" "tasks s y = Some q"
    "task_head s \<noteq> x" "current_task s \<noteq> x"
  shows "task_list_remove s x = Inr (s\<lparr>tasks := (tasks s)(y \<mapsto> q\<lparr>tk_next := tk_next t\<rparr>),
     task_tail := (if task_tail s = x then y else task_tail s)\<rparr>)"
  unfolding task_list_remove_def upd_task_def Let_def
  using assms by (cases "task_tail s = x") (auto simp: deref_Some)

lemma task_list_remove_middle:
  assumes l: "task_list s (as @ a # b # cs)" and p: "tasks s b = Some tb" "tk_prev tb = a"
    and c: "current_task s \<noteq> b" and ta: "tasks s a = Some ta"
  shows "task_list_remove s b = Inr (s\<lparr>tasks := (tasks s)(a \<mapsto> ta\<lparr>tk_next := tk_next tb\<rparr>),
     task_tail := (if cs = [] then a else task_tail s)\<rparr>)"
proof -
  have d: "distinct (as @ a # b # cs)" "task_tail s = last (as @ a # b # cs)" using l by (simp_all add: task_list_def)
  have nz: "a \<noteq> 0" "b \<noteq> 0" using l task_chain_mem unfolding task_list_def by fastforce+
  have h: "task_head s \<noteq> b" using l d task_chain_head [of "tasks s" "task_head s" "as @ a # b # cs"]
    unfolding task_list_def by (cases as) auto
  have t: "(b = task_tail s) = (cs = [])" using d by (cases cs rule: rev_cases) auto
  have ne: "a \<noteq> b" using d by auto
  show ?thesis
    using task_list_remove_linked [OF p nz(1) ne ta h c] t by (cases "cs = []") auto
qed

text \<open>The links after the first two steps of the removal: the list without the task, which still has its own.\<close>

lemma task_unlinked:
  assumes l: "task_list s (as @ b # cs)" and pv: "prevs_ok (tasks s) (as @ b # cs)" and tb: "tasks s b = Some tb" and ne: "as @ cs \<noteq> []"
  obtains s1 where "task_list s1 (as @ cs)" "tasks s1 b = Some tb" "current_task s1 = current_task s"
    "awake_in s1 = awake_in s"
    "task_list_remove s b = (if b = current_task s then bindE (task_get_next s1) (\<lambda>(n, s). Inr (s\<lparr>current_task := n\<rparr>)) else Inr s1)"
proof (cases as rule: rev_cases)
  case Nil
  have p0: "tk_prev tb = 0" using prevs_okD [of "tasks s" "[]" b cs tb] pv tb Nil by simp
  have l': "task_chain (tasks s) (tk_next tb) cs" "task_head s = b" "distinct cs" "b \<notin> set cs" "task_tail s = last (b # cs)"
    using l tb Nil by (simp_all add: task_list_def)
  let ?s = "s\<lparr>task_head := tk_next tb\<rparr>"
  have "cs \<noteq> []" using ne Nil by simp
  then have nt: "b \<noteq> task_tail s" using l'(4,5) by (metis last.simps last_in_set)
  show ?thesis
  proof (rule that [of ?s])
    show "task_list ?s (as @ cs)" using l' Nil \<open>cs \<noteq> []\<close> by (simp add: task_list_def)
    show "task_list_remove s b =
        (if b = current_task s then bindE (task_get_next ?s) (\<lambda>(n, s). Inr (s\<lparr>current_task := n\<rparr>)) else Inr ?s)"
      using tb p0 l'(2) nt by (simp add: task_list_remove_def deref_Some Let_def)
  qed (use tb in \<open>simp_all add: awake_in_def fun_eq_iff\<close>)
next
  case (snoc as' a)
  have l1: "task_list s (as' @ a # b # cs)" using l snoc by simp
  then obtain ta where ta: "tasks s a = Some ta" using task_chain_mem unfolding task_list_def by fastforce
  have p: "tk_prev tb = a" using prevs_okD [OF pv tb] snoc by simp
  let ?s = "s\<lparr>tasks := (tasks s)(a \<mapsto> ta\<lparr>tk_next := tk_next tb\<rparr>), task_tail := (if cs = [] then a else task_tail s)\<rparr>"
  have d: "distinct (as' @ a # b # cs)" "task_tail s = last (as' @ a # b # cs)" using l1 by (simp_all add: task_list_def)
  have nz: "a \<noteq> 0" using l1 task_chain_mem unfolding task_list_def by fastforce
  have h: "task_head s \<noteq> b" using l1 d task_chain_head [of "tasks s" "task_head s" "as' @ a # b # cs"]
    unfolding task_list_def by (cases as') auto
  have t: "b = task_tail s \<longleftrightarrow> cs = []" using d by (cases cs rule: rev_cases) auto
  have ab: "a \<noteq> b" using d by auto
  have "task_list ?s (as' @ a # cs)"
    using chain_unlink [of "tasks s" "task_head s" as' a b cs ta tb] l1 ta tb
    unfolding task_list_def by (auto simp: last_append)
  show ?thesis
  proof (rule that [of ?s])
    show "task_list ?s (as @ cs)" using \<open>task_list ?s (as' @ a # cs)\<close> snoc by simp
    show "awake_in ?s = awake_in s" using ta by (auto simp: awake_in_def fun_eq_iff)
    show "task_list_remove s b =
        (if b = current_task s then bindE (task_get_next ?s) (\<lambda>(n, s). Inr (s\<lparr>current_task := n\<rparr>)) else Inr ?s)"
      unfolding task_list_remove_def upd_task_def using tb p nz ab ta h t by (simp add: deref_Some Let_def)
  qed (use tb ab in simp_all)
qed

text \<open>The search for the next task depends on the task it starts at by its successor only.\<close>

lemma next_active_from:
  assumes "task_list s ts" "i < length ts" "task_get_next_to s b = Inr (ts ! (Suc i mod length ts))"
  shows "next_active_loop s b = next_active_loop s (ts ! i)"
proof -
  have "next_candidate s b = next_candidate s (ts ! i)"
    using task_list_successor [OF assms(1,2)] assms(3) by (simp add: next_candidate_def)
  then show ?thesis by (subst (1 2) next_active_loop.simps) simp
qed

lemma task_list_current [simp]: "task_list (s\<lparr>current_task := x\<rparr>) ts = task_list s ts"
  by (simp add: task_list_def)

lemma woken_list [simp]: "task_list (woken s x) ts = task_list s ts"
proof -
  have "map_option tk_next (tasks (woken s x) y) = map_option tk_next (tasks s y)" for y
    by (simp add: woken_def option.map_comp comp_def)
  then have "task_chain (tasks (woken s x)) p ts = task_chain (tasks s) p ts" for p by (intro task_chain_cong) simp
  then show ?thesis by (simp add: task_list_def woken_def)
qed

lemma get_next_from_removed:
  assumes l: "task_list s (as @ cs)" and ne: "as @ cs \<noteq> []" and tb: "tasks s b = Some tb" "tk_next tb = (if cs = [] then 0 else hd cs)"
    and c: "current_task s = b"
  shows "task_get_next s =
    (if awake_in s (hd (as @ cs)) then Inr (hd (filter (awake_in s) (cs @ as)), s) else Inr (hd (cs @ as), woken s (hd (cs @ as))))"
proof -
  define i where "i = (if as = [] then length cs else length as) - 1"
  have i: "i < length (as @ cs)" "Suc i = (if as = [] then length cs else length as)"
    using ne by (cases as; cases cs; simp add: i_def)+
  have r: "rotate (Suc i) (as @ cs) = cs @ as" unfolding i(2) by (simp add: rotate_append)
  have h: "(as @ cs) ! (Suc i mod length (as @ cs)) = hd (cs @ as)"
    using hd_rotate_conv_nth [OF ne, of "Suc i"] unfolding r by simp
  have nz: "\<forall>x\<in>set (as @ cs). x \<noteq> 0" using l task_chain_mem unfolding task_list_def by blast
  have "task_head s = hd (as @ cs)" using l task_chain_head ne unfolding task_list_def by fastforce
  then have "task_get_next_to s b = Inr (hd (cs @ as))"
    using tb ne nz by (cases cs) (auto simp: task_get_next_to_def deref_Some)
  then have g: "task_get_next s = ran (next_active_loop s ((as @ cs) ! i))"
    using next_active_from [OF l i(1), of b] h c by (simp add: task_get_next_def task_get_next_active_task_def)
  show ?thesis
  proof (cases "awake_in s (hd (as @ cs))")
    case True
    then show ?thesis using g next_active_awake [OF l True i(1)] unfolding r by (simp add: ran_def)
  next
    case False
    then show ?thesis using g next_candidate_step [OF l i(1)] unfolding h
      by (subst (asm) next_active_loop.simps) (simp add: Let_def ran_def)
  qed
qed

text \<open>C36: Removing a task, at the head, in the middle or at the end, from a list of several tasks whose \<open>prev\<close>
  links are in order takes exactly that task out of it: the \<open>next\<close> links from the head on give the remaining
  tasks in order, and the tail is the last of them.  When another task is the running one it stays so.  When
  the running task itself is removed, the task that becomes the running one is, with the first task of
  the remaining list awake, the first awake task met from the removed one on, and otherwise the successor of
  the removed one, woken up.  (The \<open>prev\<close> links are in order until a task has been removed: the next
  property is about the removal after that.)\<close>

theorem task_list_remove_unlinks:
  assumes "task_list s (as @ b # cs)" "prevs_ok (tasks s) (as @ b # cs)" "as @ cs \<noteq> []"
  shows "\<exists>s'. task_list_remove s b = Inr s' \<and> task_list s' (as @ cs) \<and>
    (if current_task s \<noteq> b then current_task s' = current_task s
     else current_task s' = hd (if awake_in s (hd (as @ cs)) then filter (awake_in s) (cs @ as) else cs @ as) \<and>
       awake_in s' (current_task s'))"
proof -
  obtain tb where tb: "tasks s b = Some tb" using assms(1) task_chain_mem unfolding task_list_def by fastforce
  have nx: "tk_next tb = (if cs = [] then 0 else hd cs)"
    using task_chain_nth [of "tasks s" "task_head s" "as @ b # cs" "length as"] assms(1) tb
    unfolding task_list_def by (auto simp: nth_append hd_conv_nth)
  obtain s1 where s1: "task_list s1 (as @ cs)" "tasks s1 b = Some tb" "current_task s1 = current_task s"
    "awake_in s1 = awake_in s"
    "task_list_remove s b = (if b = current_task s then bindE (task_get_next s1) (\<lambda>(n, s). Inr (s\<lparr>current_task := n\<rparr>)) else Inr s1)"
    by (rule task_unlinked [OF assms(1,2) tb assms(3)])
  note aw = s1(4)
  show ?thesis
  proof (cases "current_task s = b")
    case True
    note g = get_next_from_removed [OF s1(1) assms(3) s1(2) nx, unfolded s1(3) aw, OF True]
    let ?y = "hd (cs @ as)"
    show ?thesis
    proof (cases "awake_in s (hd (as @ cs))")
      case aw1: True
      let ?x = "hd (filter (awake_in s) (cs @ as))"
      have "hd (as @ cs) \<in> set (cs @ as)" using assms(3) hd_in_set [of "as @ cs"] by auto
      then have "filter (awake_in s) (cs @ as) \<noteq> []" using aw1 by (auto simp: filter_empty_conv)
      from hd_in_set [OF this] have "awake_in s ?x" unfolding set_filter by blast
      then have "awake_in s1 ?x" using aw by simp
      then have "awake_in (s1\<lparr>current_task := ?x\<rparr>) ?x" by (simp add: awake_in_def)
      then show ?thesis using g aw1 s1(1,5) True by simp
    next
      case aw0: False
      have "?y \<in> set (as @ cs)" using assms(3) hd_in_set [of "cs @ as"] by auto
      then obtain u where "tasks s1 ?y = Some u" using s1(1) task_chain_mem unfolding task_list_def by blast
      then have "awake_in ((woken s1 ?y)\<lparr>current_task := ?y\<rparr>) ?y" by (simp add: awake_in_def woken_def)
      moreover have "task_list ((woken s1 ?y)\<lparr>current_task := ?y\<rparr>) (as @ cs)"
        using s1(1) by simp
      ultimately show ?thesis using g aw0 s1(5) True by simp
    qed
  qed (use s1 in auto)
qed

lemma demo_prevs: "prevs_ok (tasks demo_tasks) [16, 32, 48]"
  by (auto simp: prevs_ok_def demo_tasks_def demo_task_def less_Suc_eq numeral_3_eq_3)

text \<open>The running task 16, at the head, and the sleeping task 32 are removed from the same list.\<close>

lemma task_list_remove_unlinks_witness:
  "(\<exists>s'. task_list_remove demo_tasks 16 = Inr s' \<and> task_list s' [32, 48] \<and> current_task s' = 32 \<and> awake_in s' 32) \<and>
   (\<exists>s'. task_list_remove demo_tasks 32 = Inr s' \<and> task_list s' [16, 48] \<and> current_task s' = 16)"
  using task_list_remove_unlinks [of demo_tasks "[]" 16 "[32, 48]"] task_list_remove_unlinks [of demo_tasks "[16]" 32 "[48]"]
    demo_tasks_list demo_prevs
  by (auto simp: demo_tasks_def demo_task_def awake_in_def)



section \<open>A new task\<close>

lemma task_map_video_memory_result:
  assumes t: "tasks s task = Some t" "process_at s (tk_process t) = Some p" "videos s (p_video p) = Some v"
    "chunks s (tk_page_directory t) = Some c"
    and d: "pagedir_ok (km_ram s) (directory_entry c)"
    and a: "v_ptr v mod 4096 = 0" "unat (v_ptr v) + 131072 < 2 ^ 32"
  obtains m where "task_map_video_memory s task = Inr (0, s\<lparr>km_ram := m\<rparr>)" "pagedir_ok m (directory_entry c)"
    "\<forall>k<32. paging_get m (directory_entry c) (0xA0000 + of_nat (4096 * k)) = Inr ((v_ptr v + of_nat (4096 * k)) OR 7)"
    "\<forall>w. w mod 4096 = 0 \<longrightarrow> (\<forall>k<32. w \<noteq> 0xA0000 + of_nat (4096 * k)) \<longrightarrow>
       paging_get m (directory_entry c) w = paging_get (km_ram s) (directory_entry c) w"
proof -
  have n: "(0 :: nat) < 32" "unat (v_ptr v) + 4096 * 32 < 2 ^ 32" using a(2) by simp_all
  obtain m where m: "paging_map_to (km_ram s) (directory_entry c) 0xA0000 (v_ptr v) (v_ptr v + of_nat (4096 * 32)) 7 = Inr (0, m)"
    "pagedir_ok m (directory_entry c)"
    "\<forall>k<32. paging_get m (directory_entry c) (0xA0000 + of_nat (4096 * k)) = Inr ((v_ptr v + of_nat (4096 * k)) OR 7)"
    "\<forall>w. w mod 4096 = 0 \<longrightarrow> (\<forall>k<32. w \<noteq> 0xA0000 + of_nat (4096 * k)) \<longrightarrow>
       paging_get m (directory_entry c) w = paging_get (km_ram s) (directory_entry c) w"
    by (rule paging_map_to_result [OF d _ a(1) n, of "0xA0000" 7]) simp_all
  have e: "(of_nat (4096 * 32) :: u32) = 0x20000" by simp
  have "unat (v_ptr v + 0x20000) = unat (v_ptr v) + 32 * 4096" using a(2) by (simp add: unat_word_ariths)
  moreover have "unat (v_ptr v) mod 4096 = 0" using a(1) by (simp add: aligned_nat)
  ultimately have "unat (v_ptr v + 0x20000) mod 4096 = 0" by (simp only: mod_mult_self1)
  then have al0: "(v_ptr v + 0x20000) mod 4096 = 0" by (simp only: aligned_nat)
  have al: "paging_align_address (v_ptr v + 0x20000) = v_ptr v + 0x20000"
    unfolding paging_align_address_def by (simp only: al0 simp_thms if_False)
  have f: "PAGING_PAGE_PRESENT OR PAGING_ACCESS_FROM_ALL OR PAGING_PAGE_WRITEABLE = (7 :: u32)" by simp
  have ts: "deref (tasks s) task = Inr t" "deref (process_at s) (tk_process t) = Inr p"
    "deref (videos s) (p_video p) = Inr v" "deref (chunks s) (tk_page_directory t) = Inr c"
    using t by (simp_all only: deref_Some)
  have "task_map_video_memory s task = Inr (0, s\<lparr>km_ram := m\<rparr>)"
    unfolding task_map_video_memory_def task_video_def task_directory_def f
    by (simp only: ts bindE.simps Let_def al m(1) [unfolded e] prod.case)
  then show ?thesis using m(2-4) by (rule that)
qed

lemma task_entry_runs:
  assumes "p_filetype p = FILE_TYPE_ELF \<longrightarrow> elf_files s (p_ptr p) \<noteq> None"
  obtains e where "task_entry s p = Inr e"
  using assms that by (cases "p_filetype p") (auto simp: task_entry_def deref_Some)

lemma task_init_result:
  assumes h: "kmem_ok s" "1026 \<le> free_count (km_heap s)"
    and p: "process_at s pr = Some p" "p_video p \<noteq> 0" "videos s (p_video p) = Some v"
    and elf: "p_filetype p = FILE_TYPE_ELF \<longrightarrow> elf_files s (p_ptr p) \<noteq> None"
    and a: "v_ptr v mod 4096 = 0" "unat (v_ptr v) + 131072 < 2 ^ 32"
  obtains s' tt c where "task_init s task pr = Inr (0, s')" "kmem_ok s'" "kmem_live s \<subseteq> kmem_live s'"
    "tasks s' = (tasks s)(task \<mapsto> tt)" "tk_awake tt" "tk_process tt = pr" "tk_next tt = 0"
    "task_head s' = task_head s" "task_tail s' = task_tail s"
    "chunks s' (tk_page_directory tt) = Some c" "pagedir_ok (km_ram s') (directory_entry c)"
    "\<forall>k<32. paging_get (km_ram s') (directory_entry c) (0xA0000 + of_nat (4096 * k)) = Inr ((v_ptr v + of_nat (4096 * k)) OR 7)"
    "\<forall>w. w mod 4096 = 0 \<longrightarrow> (\<forall>k<32. w \<noteq> 0xA0000 + of_nat (4096 * k)) \<longrightarrow>
       paging_get (km_ram s') (directory_entry c) w = Inr (w OR 0x11)"
proof -
  let ?s0 = "s\<lparr>tasks := (tasks s)(task \<mapsto> zero_task)\<rparr>"
  have h0: "kmem_ok ?s0" "1026 \<le> free_count (km_heap ?s0)" using h by (simp_all add: kmem_ok_def)
  obtain chunk s1 c where n: "paging_new_4gb ?s0 0x11 = Inr (chunk, s1)" "kmem_ok s1" "chunk \<noteq> 0"
    "kmem_live ?s0 \<subseteq> kmem_live s1" "chunks s1 = (chunks ?s0)(chunk \<mapsto> c)"
    "s1 = ?s0\<lparr>km_heap := km_heap s1, km_ram := km_ram s1, chunks := chunks s1\<rparr>"
    "pagedir_ok (km_ram s1) (directory_entry c)"
    "\<forall>w. w mod 4096 = 0 \<longrightarrow> paging_get (km_ram s1) (directory_entry c) w = Inr (w OR ucast (0x11 :: byte))"
    by (rule paging_new_4gb_result [OF h0]) blast
  obtain hp m ch where s1: "s1 = ?s0\<lparr>km_heap := hp, km_ram := m, chunks := ch\<rparr>" using n(6) by blast
  obtain e where e: "task_entry s1 p = Inr e" by (rule task_entry_runs [of p s1]) (use elf s1 in simp_all)
  define tt where "tt = zero_task\<lparr>tk_page_directory := chunk,
     tk_registers := zero_registers\<lparr>r_ip := e, r_ss := USER_DATA_SEGMENT, r_cs := USER_CODE_SEGMENT,
       r_esp := COS32_PROGRAM_VIRTUAL_STACK_ADDRESS_START\<rparr>, tk_awake := True, tk_process := pr\<rparr>"
  let ?s2 = "s1\<lparr>tasks := (tasks s1)(task \<mapsto> tt)\<rparr>"
  have t2: "tasks ?s2 task = Some tt" "process_at ?s2 (tk_process tt) = Some p" "videos ?s2 (p_video p) = Some v"
    "chunks ?s2 (tk_page_directory tt) = Some c" "pagedir_ok (km_ram ?s2) (directory_entry c)"
    using p s1 n(5,7) by (simp_all add: tt_def)
  obtain m2 where m2: "task_map_video_memory ?s2 task = Inr (0, ?s2\<lparr>km_ram := m2\<rparr>)" "pagedir_ok m2 (directory_entry c)"
    "\<forall>k<32. paging_get m2 (directory_entry c) (0xA0000 + of_nat (4096 * k)) = Inr ((v_ptr v + of_nat (4096 * k)) OR 7)"
    "\<forall>w. w mod 4096 = 0 \<longrightarrow> (\<forall>k<32. w \<noteq> 0xA0000 + of_nat (4096 * k)) \<longrightarrow>
       paging_get m2 (directory_entry c) w = paging_get (km_ram ?s2) (directory_entry c) w"
    by (rule task_map_video_memory_result [OF t2 a])
  have f: "ucast (PAGING_PAGE_PRESENT OR PAGING_CACHE_DISABLED) = (0x11 :: byte)" by simp
  have dp: "deref (process_at s) pr = Inr p" using p(1) by (simp only: deref_Some)
  have i: "task_init s task pr = Inr (0, ?s2\<lparr>km_ram := m2\<rparr>)"
    unfolding task_init_def f
    by (simp only: dp p(2) n(1,3) e m2(1) [unfolded tt_def] tt_def bindE.simps Let_def
        prod.case simp_thms ASSERT_True if_False not_False_eq_True)
  show ?thesis
  proof (rule that [OF i, of tt c], goal_cases)
    case 1 show ?case using n(2) by (simp add: kmem_ok_def)
  next
    case 2 show ?case using n(4) by (simp add: kmem_live_def)
  next
    case 11 show ?case using m2(3) by simp
  next
    case 12 show ?case using m2(4) n(8) by simp
  qed (use s1 t2 m2(2) in \<open>simp_all add: tt_def zero_task_def\<close>)
qed

lemma task_chain_snoc:
  "task_chain st p ts \<Longrightarrow> ts \<noteq> [] \<Longrightarrow> distinct ts \<Longrightarrow> x \<notin> set ts \<Longrightarrow> x \<noteq> 0 \<Longrightarrow> st x = Some t \<Longrightarrow> tk_next t = 0 \<Longrightarrow>
   st (last ts) = Some l \<Longrightarrow> task_chain (st(last ts \<mapsto> l\<lparr>tk_next := x\<rparr>)) p (ts @ [x])"
proof (induction ts arbitrary: p)
  case (Cons y ys)
  show ?case
  proof (cases "ys = []")
    case False
    then have "y \<noteq> last ys" using Cons.prems(3) by auto
    then show ?thesis using Cons False by (auto split: option.splits)
  qed (use Cons.prems in auto)
qed simp

text \<open>Where \<open>task_new\<close> links a task that \<open>task_init\<close> has filled in.\<close>

lemma task_new_linked:
  assumes z: "kzalloc s 72 = Inr (t, s1)" "t \<noteq> 0"
    and i: "task_init s1 t pr = Inr (0, s2)" "tasks s2 t = Some tt" "tk_next tt = 0"
    and l: "task_list s2 ts" "t \<notin> set ts"
  obtains st where "task_new s pr = Inr (t, s2\<lparr>tasks := st, task_head := (if ts = [] then t else task_head s2), task_tail := t\<rparr>)"
    "task_chain st (if ts = [] then t else task_head s2) (ts @ [t])" "\<exists>q. st t = Some (tt\<lparr>tk_prev := q\<rparr>)"
proof (cases "ts = []")
  case True
  then have h: "task_head s2 = 0" using l(1) task_chain_head by (fastforce simp: task_list_def)
  have "task_new s pr = Inr (t, s2\<lparr>tasks := tasks s2, task_head := t, task_tail := t\<rparr>)"
    unfolding task_new_def by (simp only: z i(1) bindE.simps prod.case if_False h) (simp add: ISERR_def)
  moreover have "task_chain (tasks s2) t [t]" using i z(2) by simp
  moreover have "\<exists>q. tasks s2 t = Some (tt\<lparr>tk_prev := q\<rparr>)"
    by (rule exI [of _ "tk_prev tt"]) (simp add: i(2))
  ultimately show ?thesis by (intro that [of "tasks s2"]) (simp_all add: True)
next
  case False
  then obtain q where q: "tasks s2 (last ts) = Some q" "task_head s2 \<noteq> 0" "task_tail s2 = last ts" "last ts \<noteq> t"
    using l task_chain_mem task_chain_head by (fastforce simp: task_list_def)
  let ?u = "tt\<lparr>tk_prev := last ts\<rparr>" and ?l = "q\<lparr>tk_next := t\<rparr>"
  let ?st = "(tasks s2)(last ts \<mapsto> ?l, t \<mapsto> ?u)"
  have "task_new s pr = Inr (t, s2\<lparr>tasks := ?st, task_head := task_head s2, task_tail := t\<rparr>)"
    unfolding task_new_def upd_task_def
    by (simp only: z i(1) bindE.simps prod.case if_False) (simp add: ISERR_def q q(4) [symmetric] i(2) deref_Some)
  moreover have "task_chain ((tasks s2)(last ts \<mapsto> ?l)) (task_head s2) (ts @ [t])"
    using task_chain_snoc [OF _ False _ l(2) z(2) i(2,3) q(1)] l(1) by (simp add: task_list_def)
  then have "task_chain ?st (task_head s2) (ts @ [t])"
    by (rule iffD1 [OF task_chain_cong, rotated]) (use i(2) q(4) in auto)
  ultimately show ?thesis using that [of ?st] False by auto
qed

lemma task_new_result:
  assumes h: "kmem_ok s" "1027 \<le> free_count (km_heap s)"
    and p: "process_at s pr = Some p" "p_video p \<noteq> 0" "videos s (p_video p) = Some v"
    and elf: "p_filetype p = FILE_TYPE_ELF \<longrightarrow> elf_files s (p_ptr p) \<noteq> None"
    and a: "v_ptr v mod 4096 = 0" "unat (v_ptr v) + 131072 < 2 ^ 32"
    and l: "task_list s ts" "\<forall>x\<in>set ts. \<exists>n. (x, n) \<in> kmem_live s"
  shows "\<exists>t s' tt c. task_new s pr = Inr (t, s') \<and> task_list s' (ts @ [t]) \<and> kmem_ok s' \<and>
    tasks s' t = Some tt \<and> tk_awake tt \<and> tk_process tt = pr \<and> chunks s' (tk_page_directory tt) = Some c \<and>
    (\<forall>k<32. paging_get (km_ram s') (directory_entry c) (0xA0000 + of_nat (4096 * k)) = Inr ((v_ptr v + of_nat (4096 * k)) OR 7)) \<and>
    (\<forall>w. w mod 4096 = 0 \<longrightarrow> (\<forall>k<32. w \<noteq> 0xA0000 + of_nat (4096 * k)) \<longrightarrow>
       paging_get (km_ram s') (directory_entry c) w = Inr (w OR 0x11))"
proof -
  have sz: "0 < free_count (km_heap s)" "(0 :: int) < 72" "72 \<le> (4096 :: int)" using h(2) by simp_all
  obtain t s1 where z: "kzalloc s 72 = Inr (t, s1)" "t \<noteq> 0" "kmem_ok s1"
    "free_count (km_heap s1) = free_count (km_heap s) - 1" "\<forall>n. (t, n) \<notin> kmem_live s" "kmem.more s1 = kmem.more s"
    by (rule kzalloc_pageE [OF h(1) sz])
  obtain hp m where s1: "s1 = s\<lparr>km_heap := hp, km_ram := m\<rparr>" by (rule kmem_more_frame [OF z(6)])
  have f: "1026 \<le> free_count (km_heap s1)" using z(4) h(2) by simp
  have p1: "process_at s1 pr = Some p" "videos s1 (p_video p) = Some v"
    "p_filetype p = FILE_TYPE_ELF \<longrightarrow> elf_files s1 (p_ptr p) \<noteq> None" "task_list s1 ts"
    using p elf l(1) by (simp_all add: s1 task_list_def)
  have nt: "t \<notin> set ts" using l(2) z(5) by blast
  obtain s2 tt c where i: "task_init s1 t pr = Inr (0, s2)" "kmem_ok s2" "tasks s2 = (tasks s1)(t \<mapsto> tt)"
    "tk_awake tt" "tk_process tt = pr" "tk_next tt = 0" "task_head s2 = task_head s1" "task_tail s2 = task_tail s1"
    "chunks s2 (tk_page_directory tt) = Some c"
    "\<forall>k<32. paging_get (km_ram s2) (directory_entry c) (0xA0000 + of_nat (4096 * k)) = Inr ((v_ptr v + of_nat (4096 * k)) OR 7)"
    "\<forall>w. w mod 4096 = 0 \<longrightarrow> (\<forall>k<32. w \<noteq> 0xA0000 + of_nat (4096 * k)) \<longrightarrow>
       paging_get (km_ram s2) (directory_entry c) w = Inr (w OR 0x11)"
    by (rule task_init_result [OF z(3) f p1(1) p(2) p1(2,3) a])
  have t2: "tasks s2 t = Some tt" using i(3) by simp
  have l2: "task_list s2 ts"
    using p1(4) nt by (simp add: task_list_def i(3,7,8) task_chain_upd)
  obtain st q where n: "task_new s pr = Inr (t, s2\<lparr>tasks := st, task_head := (if ts = [] then t else task_head s2), task_tail := t\<rparr>)"
    "task_chain st (if ts = [] then t else task_head s2) (ts @ [t])" "st t = Some (tt\<lparr>tk_prev := q\<rparr>)"
    by (rule task_new_linked [OF z(1,2) i(1) t2 i(6) l2 nt]) blast
  let ?s = "s2\<lparr>tasks := st, task_head := (if ts = [] then t else task_head s2), task_tail := t\<rparr>"
  have "task_list ?s (ts @ [t])" using n(2) nt l(1) by (simp add: task_list_def)
  moreover have "kmem_ok ?s" using i(2) by (simp add: kmem_ok_def)
  ultimately show ?thesis
    using n(1,3) i(4,5,9-11)
    by (intro exI [of _ t] exI [of _ ?s] exI [of _ "tt\<lparr>tk_prev := q\<rparr>"] exI [of _ c]) simp
qed

text \<open>C15: \<open>task_new\<close> on a list of live tasks, with enough free blocks, returns a new awake task of
  the given process at the end of the list, whose directory maps the 128 KB of video memory at
  \<open>0xA0000\<close> to the video's own buffer, open to the program, and every other page to itself with
  access for the kernel only.\<close>

theorem task_new_appends:
  assumes "kmem_ok s" "1027 \<le> free_count (km_heap s)"
    and "process_at s pr = Some p" "p_video p \<noteq> 0" "videos s (p_video p) = Some v"
    and "p_filetype p = FILE_TYPE_ELF \<longrightarrow> elf_files s (p_ptr p) \<noteq> None"
    and "v_ptr v mod 4096 = 0" "unat (v_ptr v) + 131072 < 2 ^ 32"
    and "task_list s ts" "\<forall>x\<in>set ts. \<exists>n. (x, n) \<in> kmem_live s"
  shows "\<exists>t s' tt c. task_new s pr = Inr (t, s') \<and> task_list s' (ts @ [t]) \<and> kmem_ok s' \<and>
    tasks s' t = Some tt \<and> tk_awake tt \<and> tk_process tt = pr \<and> chunks s' (tk_page_directory tt) = Some c \<and>
    (\<forall>k<32. paging_get (km_ram s') (directory_entry c) (0xA0000 + of_nat (4096 * k)) = Inr ((v_ptr v + of_nat (4096 * k)) OR 7)) \<and>
    (\<forall>w. w mod 4096 = 0 \<longrightarrow> (\<forall>k<32. w \<noteq> 0xA0000 + of_nat (4096 * k)) \<longrightarrow>
       paging_get (km_ram s') (directory_entry c) w = Inr (w OR 0x11))"
  by (rule task_new_result [OF assms])

definition demo_boot :: kstate where
  "demo_boot = (projr (kheap_init blank_kernel []))
     \<lparr>process_at := [0x500 \<mapsto> zero_process\<lparr>p_video := 0x700\<rparr>],
      videos := [0x700 \<mapsto> \<lparr>v_properties = \<lparr>tp_index = 0, tp_color = 15, tp_data = 0x90000, tp_y_scroll = 0, tp_video = 0x700\<rparr>,
        v_ptr = 0x90000, v_backbuffer = 0, v_rectangles = 0, v_rectangle_last = 0, v_printing_rectangle = 0, v_flags = 0\<rparr>],
      task_head := 0, task_tail := 0\<rparr>"

lemma task_new_appends_witness:
  "\<exists>t s' tt c. task_new demo_boot 0x500 = Inr (t, s') \<and> task_list s' [t] \<and> tasks s' t = Some tt \<and>
    chunks s' (tk_page_directory tt) = Some c \<and>
    paging_get (km_ram s') (directory_entry c) 0xA1000 = Inr 0x91007"
proof -
  obtain b where b: "kheap_init blank_kernel [] = Inr b" "kmem_ok b" "free_count (km_heap b) = 51200"
    using kheap_init_result [of blank_kernel "[]"] by blast
  have r: "kmem_ok demo_boot" "1027 \<le> free_count (km_heap demo_boot)" "task_list demo_boot []"
    using b by (simp_all add: demo_boot_def task_list_def kmem_ok_def)
  let ?v = "the (videos demo_boot 0x700)"
  have v: "process_at demo_boot 0x500 = Some (zero_process\<lparr>p_video := 0x700\<rparr>)"
    "videos demo_boot 0x700 = Some ?v" "v_ptr ?v = 0x90000"
    by (simp_all add: demo_boot_def)
  have "\<exists>t s' tt c. task_new demo_boot 0x500 = Inr (t, s') \<and> task_list s' ([] @ [t]) \<and> kmem_ok s' \<and>
    tasks s' t = Some tt \<and> tk_awake tt \<and> tk_process tt = 0x500 \<and> chunks s' (tk_page_directory tt) = Some c \<and>
    (\<forall>k<32. paging_get (km_ram s') (directory_entry c) (0xA0000 + of_nat (4096 * k)) = Inr ((v_ptr ?v + of_nat (4096 * k)) OR 7)) \<and>
    (\<forall>w. w mod 4096 = 0 \<longrightarrow> (\<forall>k<32. w \<noteq> 0xA0000 + of_nat (4096 * k)) \<longrightarrow>
       paging_get (km_ram s') (directory_entry c) w = Inr (w OR 0x11))"
    by (rule task_new_appends [OF r(1,2) v(1)]) (use v r in \<open>simp_all add: zero_process_def\<close>)
  then obtain t s' tt c where t: "task_new demo_boot 0x500 = Inr (t, s')" "task_list s' [t]" "tasks s' t = Some tt"
    "chunks s' (tk_page_directory tt) = Some c"
    and g: "\<forall>k<32. paging_get (km_ram s') (directory_entry c) (0xA0000 + of_nat (4096 * k)) = Inr ((v_ptr ?v + of_nat (4096 * k)) OR 7)"
    by auto
  have "paging_get (km_ram s') (directory_entry c) 0xA1000 = Inr 0x91007"
    using g [rule_format, of 1] by (simp add: v(3))
  with t show ?thesis by blast
qed

section \<open>The scheduler as a state machine\<close>

text \<open>What happens to tasks between the creation of one and the end of one; \<open>enter\<close> and \<open>leave\<close> are the changes of the
  page directory when an interrupt begins and ends.\<close>

inductive sched_step :: "'a kstate_scheme \<Rightarrow> 'a kstate_scheme \<Rightarrow> bool" where
  wake: "task_wake s x = Inr s' \<Longrightarrow> sched_step s s'"
| pause: "task_pause s x = Inr s' \<Longrightarrow> sched_step s s'"
| usleep: "task_usleep s x ms = Inr (fl, s') \<Longrightarrow> sched_step s s'"
| tick: "task_process (s\<lparr>ticks_since_initialized := now\<rparr>) = Inr s' \<Longrightarrow> sched_step s s'"
| switch: "task_next s = Inr s' \<Longrightarrow> sched_step s s'"
| save: "task_current_save_state s frame = Inr s' \<Longrightarrow> sched_step s s'"
| enter: "kernel_page s = Inr s' \<Longrightarrow> sched_step s s'"
| leave: "task_page s = Inr s' \<Longrightarrow> sched_step s s'"

inductive sched_reach :: "'a kstate_scheme \<Rightarrow> 'a kstate_scheme \<Rightarrow> bool" where
  start: "sched_reach s s"
| step: "sched_reach s s' \<Longrightarrow> sched_step s' s'' \<Longrightarrow> sched_reach s s''"

text \<open>The list is in order, each of its tasks has a page directory, and the running task is one of them.\<close>

definition sched_ok :: "'a kstate_scheme \<Rightarrow> addr list \<Rightarrow> bool" where
  "sched_ok s ts \<longleftrightarrow> task_list s ts \<and> tasks_paged s ts \<and> current_task s \<in> set ts"

lemma upd_task_ok:
  assumes "upd_task x f s = Inr s'" "sched_ok s ts"
    "\<And>t. tk_next (f t) = tk_next t" "\<And>t. tk_page_directory (f t) = tk_page_directory t"
  shows "sched_ok s' ts"
proof -
  obtain t where t: "tasks s x = Some t" "s' = s\<lparr>tasks := (tasks s)(x \<mapsto> f t)\<rparr>"
    using assms(1) by (auto simp: upd_task_def deref_def split: option.splits)
  have "task_chain (tasks s') (task_head s) ts"
    using assms(2) t by (subst task_chain_cong [of ts _ "tasks s"]) (auto simp: assms(3) sched_ok_def task_list_def)
  moreover have "tasks_paged s' ts" using assms(2,4) t unfolding sched_ok_def tasks_paged_def by auto
  ultimately show ?thesis using assms(2) t by (simp add: sched_ok_def task_list_def)
qed

lemma task_next_sched:
  assumes "sched_ok s ts"
  obtains s' where "task_next s = Inr s'" "sched_ok s' ts" "awake_in s' (current_task s')"
proof -
  have l: "task_list s ts" "tasks_paged s ts" using assms by (simp_all add: sched_ok_def)
  obtain i where i: "i < length ts" "current_task s = ts ! i"
    using assms unfolding sched_ok_def by (metis in_set_conv_nth)
  obtain x s1 where x: "task_get_next s = Inr (x, s1)" "sched_ok s1 ts" "x \<in> set ts" "awake_in s1 x"
  proof (cases "awake_in s (hd ts)")
    case True
    have ne: "filter (awake_in s) (rotate (Suc i) ts) \<noteq> []"
      using True i(1) by (auto simp: filter_empty_conv simp del: rotate_Suc intro!: bexI [of _ "hd ts"] hd_in_set)
    have "hd (filter (awake_in s) (rotate (Suc i) ts)) \<in> set (filter (awake_in s) (rotate (Suc i) ts))"
      by (rule list.set_sel(1) [OF ne])
    then show ?thesis using that task_get_next_result [OF l(1) i(2,1)] True assms by (simp del: rotate_Suc)
  next
    case False
    let ?x = "ts ! (Suc i mod length ts)"
    have m: "?x \<in> set ts" using i(1) by (intro nth_mem mod_less_divisor) auto
    then obtain t where t: "tasks s ?x = Some t" using l(1) task_chain_mem unfolding task_list_def by blast
    then have "task_wake s ?x = Inr (woken s ?x)" by (simp add: task_wake_woken)
    then have "sched_ok (woken s ?x) ts" unfolding task_wake_def by (rule upd_task_ok [OF _ assms]) simp_all
    moreover have "awake_in (woken s ?x) ?x" using t by (simp add: awake_in_def woken_def)
    ultimately show ?thesis using that task_get_next_result [OF l(1) i(2,1)] False m by simp
  qed
  have "tasks_paged s1 ts" using x(2) by (simp add: sched_ok_def)
  then obtain t c where sw: "tasks s1 x = Some t" "chunks s1 (tk_page_directory t) = Some c" "task_switch s1 x = Inr (s1\<lparr>current_task := x, current_directory := directory_entry c,
       current_chunk := tk_page_directory t\<rparr>)"
    by (rule task_switch_paged [OF _ x(3)])
  show ?thesis
  proof (rule that)
    show "task_next s = Inr (s1\<lparr>current_task := x, current_directory := directory_entry c, current_chunk := tk_page_directory t\<rparr>)"
      using x(1) sw(3) by (simp add: task_next_def)
  qed (use x in \<open>simp_all add: sched_ok_def task_list_def tasks_paged_def awake_in_def\<close>)
qed

lemma paging_switch_sched: "paging_switch s c = Inr s' \<Longrightarrow> sched_ok s ts \<Longrightarrow> sched_ok s' ts"
proof -
  assume "paging_switch s c = Inr s'" "sched_ok s ts"
  then obtain d where s': "s' = s\<lparr>current_directory := d, current_chunk := c\<rparr>" and ok: "sched_ok s ts"
    by (auto simp: paging_switch_def bindE_Inr_iff)
  show "sched_ok s' ts" using ok by (simp add: s' sched_ok_def task_list_def tasks_paged_def)
qed

lemma sched_step_ok: "sched_step s s' \<Longrightarrow> sched_ok s ts \<Longrightarrow> sched_ok s' ts"
proof (induction rule: sched_step.induct)
  case (wake s x s')
  then show ?case unfolding task_wake_def by (rule upd_task_ok) simp_all
next
  case (pause s x s')
  then show ?case unfolding task_pause_def by (rule upd_task_ok) simp_all
next
  case (usleep s x ms fl s')
  then obtain s1 where u: "upd_task x (\<lambda>t. t\<lparr>tk_awake := False, tk_awake_at := sint (word_of_int (pit_get_millis s) + ms)\<rparr>) s = Inr s1"
    and r: "s' = s1 \<or> task_next s1 = Inr s'"
    by (auto simp: task_usleep_def bindE_Inr_iff split: if_splits)
  have k: "sched_ok s1 ts" by (rule upd_task_ok [OF u usleep(2)]) simp_all
  obtain s2 where "task_next s1 = Inr s2" "sched_ok s2 ts" by (rule task_next_sched [OF k])
  then show ?case using r k by auto
next
  case (tick now s s')
  let ?s = "s\<lparr>ticks_since_initialized := now\<rparr>"
  have l: "task_list ?s ts" using tick(2) by (simp add: sched_ok_def task_list_def)
  have s': "s' = ?s\<lparr>tasks := \<lambda>x. if x \<in> set ts then map_option (rouse now) (tasks s x) else tasks s x\<rparr>"
    using tick(1) l wake_loop_chain [of ?s "task_head ?s" ts]
    by (simp add: task_process_def task_wake_tasks_def task_list_def cong: if_cong)
  have "task_chain (tasks s') (task_head s) ts"
    using tick(2) by (subst task_chain_cong [of ts _ "tasks s"]) (auto simp: s' sched_ok_def task_list_def option.map_comp comp_def)
  moreover have "tk_page_directory (rouse now t) = tk_page_directory t" for t by (simp add: rouse_def)
  then have "tasks_paged s' ts" using tick(2) unfolding sched_ok_def tasks_paged_def s' by fastforce
  ultimately show ?case using tick(2) by (simp add: s' sched_ok_def task_list_def)
next
  case (switch s s')
  obtain s2 where "task_next s = Inr s2" "sched_ok s2 ts" by (rule task_next_sched [OF switch(2)])
  then show ?case using switch(1) by simp
next
  case (save s frame s')
  then obtain f where f: "upd_task (current_task s) f s = Inr s'" "\<And>t. tk_next (f t) = tk_next t"
    "\<And>t. tk_page_directory (f t) = tk_page_directory t"
    by (fastforce simp: task_current_save_state_def task_save_state_def bindE_Inr_iff panic_def split: if_splits)
  then show ?case by (intro upd_task_ok [OF f(1) save(2)]) simp_all
next
  case (enter s s')
  then show ?case unfolding kernel_page_def by (rule paging_switch_sched)
next
  case (leave s s')
  from leave(1) obtain c where "paging_switch s c = Inr s'"
    by (auto simp: task_page_def task_page_task_def bindE_Inr_iff)
  then show ?case by (rule paging_switch_sched [OF _ leave(2)])
qed

text \<open>C7: Whatever sequence of wakes, pauses, sleeps, timer ticks, register saves and switches has happened, the
  list of tasks is intact and the scheduler is never stuck: \<open>task_next\<close> returns, and the task it runs
  is one of the list and awake.\<close>

theorem scheduler_never_stuck:
  assumes "sched_reach s s'" "sched_ok s ts"
  shows "sched_ok s' ts \<and> (\<exists>s''. task_next s' = Inr s'' \<and> current_task s'' \<in> set ts \<and> awake_in s'' (current_task s''))"
proof -
  have k: "sched_ok s' ts" using assms by (induction rule: sched_reach.induct) (simp_all add: sched_step_ok)
  obtain s'' where "task_next s' = Inr s''" "sched_ok s'' ts" "awake_in s'' (current_task s'')"
    by (rule task_next_sched [OF k])
  then show ?thesis using k by (auto simp: sched_ok_def)
qed

lemma scheduler_never_stuck_witness:
  "\<exists>s s''. task_pause demo_tasks 16 = Inr s \<and> task_next s = Inr s'' \<and> awake_in s'' (current_task s'')"
proof -
  obtain s where p: "task_pause demo_tasks 16 = Inr s"
    by (simp add: task_pause_def upd_task_def demo_tasks_def deref_Some)
  have r: "sched_reach demo_tasks s" by (rule sched_reach.step [OF sched_reach.start sched_step.pause [OF p]])
  have k: "sched_ok demo_tasks [16, 32, 48]"
    using demo_tasks_list by (simp add: sched_ok_def tasks_paged_def demo_tasks_def demo_task_def)
  from scheduler_never_stuck [OF r k] p show ?thesis by blast
qed

end
