(* ===== verification/Library.thy ===== *)
theory Library
  imports Task
begin

text \<open>
  \<open>src/loader/library.c\<close>: the list of loaded libraries, their sections and symbols (growing arrays
  whose elements are the bytes of \<open>struct section\<close> and \<open>struct symbol\<close>), and the mapping of a
  library into a task.  \<open>local\<close> is the address of a routine's local structure on the stack.
\<close>

section \<open>Layout of symbols and sections in memory\<close>

text \<open>
  \<open>struct symbol\<close>: name (256 bytes), physical and virtual address, library; 268 bytes.
  \<open>struct section\<close>: name, physical and virtual address, size, flags, library; 276 bytes.
\<close>

definition symbol_phys :: "ram \<Rightarrow> addr \<Rightarrow> addr" where "symbol_phys m p = load32 m (p + 256)"
definition symbol_virt :: "ram \<Rightarrow> addr \<Rightarrow> addr" where "symbol_virt m p = load32 m (p + 260)"
definition section_phys :: "ram \<Rightarrow> addr \<Rightarrow> addr" where "section_phys m p = load32 m (p + 256)"
definition section_virt :: "ram \<Rightarrow> addr \<Rightarrow> addr" where "section_virt m p = load32 m (p + 260)"
definition section_size :: "ram \<Rightarrow> addr \<Rightarrow> u32" where "section_size m p = load32 m (p + 264)"
definition section_flags :: "ram \<Rightarrow> addr \<Rightarrow> byte" where "section_flags m p = m (p + 268)"

section \<open>The list of libraries\<close>

definition library_insert :: "'a kstate_scheme \<Rightarrow> addr \<Rightarrow> 'a kstate_scheme outcome" where
  "library_insert s library =
     (if library_head s = 0 then Inr (s\<lparr>library_head := library, library_tail := library\<rparr>)
      else
        bindE (deref (libraries s) (library_tail s)) (\<lambda>t.
        Inr (s\<lparr>libraries := (libraries s)(library_tail s \<mapsto> t\<lparr>lib_next := library\<rparr>), library_tail := library\<rparr>)))"

definition new_array :: "'a kstate_scheme \<Rightarrow> u32 \<Rightarrow> (addr \<times> 'a kstate_scheme) outcome" where
  "new_array s element_size =
     bindE (array_create s element_size) (\<lambda>(p, arr, s). Inr (p, s\<lparr>carrays := (carrays s)(p \<mapsto> arr)\<rparr>))"

definition library_new :: "'a kstate_scheme \<Rightarrow> addr \<Rightarrow> (addr \<times> 'a kstate_scheme) outcome" where
  "library_new s nme =
     bindE (returns (strlen (str_at (km_ram s) nme))) (\<lambda>len.
     if len \<ge> 256 then Inr (0, s)
     else
       bindE (kzalloc s 268) (\<lambda>(library, s).
       if library = 0 then Inl (BadPointer 0)
       else
         bindE (new_array s 268) (\<lambda>(symbols, s).
         bindE (new_array s 276) (\<lambda>(sections, s).
         let s = s\<lparr>libraries := (libraries s)(library \<mapsto> \<lparr>lib_sections = sections, lib_symbols = symbols, lib_next = 0\<rparr>),
               km_ram := strncpy (km_ram s) library nme 256\<rparr> in
         bindE (library_insert s library) (\<lambda>s. Inr (library, s))))))"

partial_function (option) library_walk :: "'a kstate_scheme \<Rightarrow> cview \<Rightarrow> addr \<Rightarrow> addr outcome option" where
  "library_walk s nme current =
     (if current = 0 then Some (Inr 0)
      else if strncmp (str_at (km_ram s) current) nme 256 = 0 then Some (Inr current)
      else case deref (libraries s) current of
        Inl e \<Rightarrow> Some (Inl e)
      | Inr l \<Rightarrow> library_walk s nme (lib_next l))"

definition library_get :: "'a kstate_scheme \<Rightarrow> cview \<Rightarrow> addr outcome" where
  "library_get s nme = ran (library_walk s nme (library_head s))"

section \<open>Sections and symbols\<close>

text \<open>\<open>array_insert\<close> on an array of the store.\<close>

definition insert_element :: "'a kstate_scheme \<Rightarrow> addr \<Rightarrow> addr \<Rightarrow> 'a kstate_scheme outcome" where
  "insert_element s array elem =
     bindE (deref (carrays s) array) (\<lambda>arr.
     bindE (array_insert s arr elem) (\<lambda>(arr, s). Inr (s\<lparr>carrays := (carrays s)(array \<mapsto> arr)\<rparr>)))"

definition library_insert_section :: "'a kstate_scheme \<Rightarrow> addr \<Rightarrow> addr \<Rightarrow> 'a kstate_scheme outcome" where
  "library_insert_section s library sec =
     bindE (deref (libraries s) library) (\<lambda>l. insert_element s (lib_sections l) sec)"

definition library_insert_symbol :: "'a kstate_scheme \<Rightarrow> addr \<Rightarrow> addr \<Rightarrow> 'a kstate_scheme outcome" where
  "library_insert_symbol s library symb =
     bindE (deref (libraries s) library) (\<lambda>l. insert_element s (lib_symbols l) symb)"

text \<open>A \<open>struct addr\<close> in memory: the physical address, then the virtual one.\<close>

definition library_build_address :: "ram \<Rightarrow> addr \<Rightarrow> addr \<Rightarrow> addr \<Rightarrow> ram" where
  "library_build_address m virt phys addr_out = store32 (store32 m (addr_out + 4) virt) addr_out phys"

text \<open>In what follows \<open>phys\<close> and \<open>virt\<close> are the members of the \<open>struct addr\<close> handed in.\<close>

definition library_new_section ::
  "'a kstate_scheme \<Rightarrow> addr \<Rightarrow> addr \<Rightarrow> addr \<Rightarrow> addr \<Rightarrow> addr \<Rightarrow> u32 \<Rightarrow> byte \<Rightarrow> (int \<times> 'a kstate_scheme) outcome" where
  "library_new_section s library local nme phys virt sz flags =
     (let m = store32 (km_ram s) (local + 264) sz;
          m = store32 m (local + 272) library;
          m = m(local + 268 := flags);
          m = strncpy m local nme 256;
          m = store32 m (local + 256) phys;
          m = store32 m (local + 260) virt in
      bindE (library_insert_section (s\<lparr>km_ram := m\<rparr>) library local) (\<lambda>s. Inr (0, s)))"

definition library_sections_count :: "'a kstate_scheme \<Rightarrow> addr \<Rightarrow> int outcome" where
  "library_sections_count s library =
     bindE (deref (libraries s) library) (\<lambda>l.
     bindE (deref (carrays s) (lib_sections l)) (\<lambda>arr. Inr (sint (array_total arr))))"

definition library_get_section :: "'a kstate_scheme \<Rightarrow> addr \<Rightarrow> int \<Rightarrow> addr outcome" where
  "library_get_section s library index =
     bindE (deref (libraries s) library) (\<lambda>l.
     bindE (deref (carrays s) (lib_sections l)) (\<lambda>arr.
     Inr (if index \<ge> sint (array_total arr) then 0 else array_get_index arr index)))"

definition library_new_symbol ::
  "'a kstate_scheme \<Rightarrow> addr \<Rightarrow> addr \<Rightarrow> addr \<Rightarrow> addr \<Rightarrow> addr \<Rightarrow> (int \<times> 'a kstate_scheme) outcome" where
  "library_new_symbol s library local nme phys virt =
     bindE (returns (strlen (str_at (km_ram s) nme))) (\<lambda>len.
     if len \<ge> 256 then Inr (- EINVARG, s)
     else
       let m = store32 (km_ram s) (local + 264) library;
           m = strncpy m local nme 256;
           m = store32 m (local + 256) phys;
           m = store32 m (local + 260) virt in
       bindE (library_insert_symbol (s\<lparr>km_ram := m\<rparr>) library local) (\<lambda>s. Inr (0, s)))"

fun symbol_loop :: "ram \<Rightarrow> carray \<Rightarrow> cview \<Rightarrow> nat \<Rightarrow> nat \<Rightarrow> addr" where
  "symbol_loop m arr nme i 0 = 0"
| "symbol_loop m arr nme i (Suc k) =
     (let symb = array_get_index arr (int i) in
      if strncmp (str_at m symb) nme 256 = 0 then symb else symbol_loop m arr nme (Suc i) k)"

definition library_get_symbol_by_name :: "'a kstate_scheme \<Rightarrow> addr \<Rightarrow> cview \<Rightarrow> addr outcome" where
  "library_get_symbol_by_name s library nme =
     bindE (deref (libraries s) library) (\<lambda>l.
     bindE (deref (carrays s) (lib_symbols l)) (\<lambda>arr.
     Inr (symbol_loop (km_ram s) arr nme 0 (nat (sint (array_total arr))))))"

section \<open>Mapping libraries into a task\<close>

text \<open>The loop over the sections from \<open>i\<close> on; \<open>res\<close> is the last result.\<close>

fun map_sections_loop :: "'a kstate_scheme \<Rightarrow> addr \<Rightarrow> addr \<Rightarrow> nat \<Rightarrow> nat \<Rightarrow> int \<Rightarrow> (int \<times> 'a kstate_scheme) outcome" where
  "map_sections_loop s directory library i 0 res = Inr (res, s)"
| "map_sections_loop s directory library i (Suc k) res =
     bindE (library_get_section s library (int i)) (\<lambda>sec.
     let m = km_ram s; sz = section_size m sec in
     if sz = 0 then map_sections_loop s directory library (Suc i) k res
     else
       let flags = PAGING_PAGE_PRESENT OR PAGING_ACCESS_FROM_ALL OR PAGING_PAGE_WRITEABLE;
           flags = (if section_flags m sec AND 1 \<noteq> 0 then flags OR PAGING_PAGE_WRITEABLE else flags) in
       bindE (paging_map_to m directory (paging_align_to_lower_page (section_virt m sec))
                (paging_align_to_lower_page (section_phys m sec))
                (paging_align_address (section_phys m sec + sz)) flags) (\<lambda>(res, m).
       if res < 0 then Inr (res, s\<lparr>km_ram := m\<rparr>)
       else map_sections_loop (s\<lparr>km_ram := m\<rparr>) directory library (Suc i) k res))"

definition library_map :: "'a kstate_scheme \<Rightarrow> addr \<Rightarrow> addr \<Rightarrow> (int \<times> 'a kstate_scheme) outcome" where
  "library_map s task library =
     bindE (library_sections_count s library) (\<lambda>total_sections.
     bindE (task_directory s task) (\<lambda>directory.
     map_sections_loop s directory library 0 (nat total_sections) 0))"

partial_function (option) library_map_loop ::
  "'a kstate_scheme \<Rightarrow> addr \<Rightarrow> addr \<Rightarrow> int \<Rightarrow> (int \<times> 'a kstate_scheme) outcome option" where
  "library_map_loop s task library res =
     (if library = 0 then Some (Inr (res, s))
      else case bindE (library_map s task library) (\<lambda>(res, s).
             bindE (deref (libraries s) library) (\<lambda>l. Inr (res, lib_next l, s))) of
        Inl e \<Rightarrow> Some (Inl e)
      | Inr (res', nxt, s') \<Rightarrow>
          if res' < 0 then Some (Inr (res', s')) else library_map_loop s' task nxt res')"

definition library_map_all :: "'a kstate_scheme \<Rightarrow> addr \<Rightarrow> (int \<times> 'a kstate_scheme) outcome" where
  "library_map_all s task = ran (library_map_loop s task (library_head s) 0)"

end
