(* ===== verification/ELF.thy ===== *)
theory ELF
  imports Library
begin

text \<open>
  \<open>src/loader/formats/elf/elfloader.c\<close> and \<open>elf.c\<close>: the headers, sections and symbols of an ELF
  image in memory, validation, processing of program headers, export of symbols, relocation, and
  loading a file with the libraries it needs.  The image is read where the code reads it, as bytes
  of memory at the offsets of the packed structures of \<open>elf.h\<close>.
\<close>

section \<open>Fields of the structures of elf.h\<close>

definition e_type :: "ram \<Rightarrow> addr \<Rightarrow> u16" where "e_type m h = load16 m (h + 16)"
definition e_entry :: "ram \<Rightarrow> addr \<Rightarrow> addr" where "e_entry m h = load32 m (h + 24)"
definition e_phoff :: "ram \<Rightarrow> addr \<Rightarrow> u32" where "e_phoff m h = load32 m (h + 28)"
definition e_shoff :: "ram \<Rightarrow> addr \<Rightarrow> u32" where "e_shoff m h = load32 m (h + 32)"
definition e_phnum :: "ram \<Rightarrow> addr \<Rightarrow> nat" where "e_phnum m h = unat (load16 m (h + 44))"
definition e_shnum :: "ram \<Rightarrow> addr \<Rightarrow> nat" where "e_shnum m h = unat (load16 m (h + 48))"
definition e_shstrndx :: "ram \<Rightarrow> addr \<Rightarrow> nat" where "e_shstrndx m h = unat (load16 m (h + 50))"

definition p_type :: "ram \<Rightarrow> addr \<Rightarrow> u32" where "p_type m p = load32 m p"
definition p_offset :: "ram \<Rightarrow> addr \<Rightarrow> u32" where "p_offset m p = load32 m (p + 4)"
definition p_vaddr :: "ram \<Rightarrow> addr \<Rightarrow> addr" where "p_vaddr m p = load32 m (p + 8)"
definition p_filesz :: "ram \<Rightarrow> addr \<Rightarrow> u32" where "p_filesz m p = load32 m (p + 16)"
definition ph_flags :: "ram \<Rightarrow> addr \<Rightarrow> u32" where "ph_flags m p = load32 m (p + 24)"

definition sh_name :: "ram \<Rightarrow> addr \<Rightarrow> u32" where "sh_name m p = load32 m p"
definition sh_type :: "ram \<Rightarrow> addr \<Rightarrow> u32" where "sh_type m p = load32 m (p + 4)"
definition sh_flags :: "ram \<Rightarrow> addr \<Rightarrow> u32" where "sh_flags m p = load32 m (p + 8)"
definition sh_offset :: "ram \<Rightarrow> addr \<Rightarrow> u32" where "sh_offset m p = load32 m (p + 16)"
definition sh_size :: "ram \<Rightarrow> addr \<Rightarrow> u32" where "sh_size m p = load32 m (p + 20)"
definition sh_entsize :: "ram \<Rightarrow> addr \<Rightarrow> u32" where "sh_entsize m p = load32 m (p + 36)"

definition st_name :: "ram \<Rightarrow> addr \<Rightarrow> u32" where "st_name m p = load32 m p"
definition st_value :: "ram \<Rightarrow> addr \<Rightarrow> addr" where "st_value m p = load32 m (p + 4)"
definition st_info :: "ram \<Rightarrow> addr \<Rightarrow> byte" where "st_info m p = m (p + 12)"
definition st_shndx :: "ram \<Rightarrow> addr \<Rightarrow> u16" where "st_shndx m p = load16 m (p + 14)"

definition r_offset :: "ram \<Rightarrow> addr \<Rightarrow> addr" where "r_offset m p = load32 m p"
definition r_info :: "ram \<Rightarrow> addr \<Rightarrow> u32" where "r_info m p = load32 m (p + 4)"

definition d_tag :: "ram \<Rightarrow> addr \<Rightarrow> u32" where "d_tag m p = load32 m p"
definition d_val :: "ram \<Rightarrow> addr \<Rightarrow> u32" where "d_val m p = load32 m (p + 4)"

definition ELF32_ST_BIND :: "byte \<Rightarrow> byte" where "ELF32_ST_BIND i = drop_bit 4 i"
definition ELF32_R_SYM :: "u32 \<Rightarrow> u32" where "ELF32_R_SYM i = drop_bit 8 i"
definition ELF32_R_TYPE :: "u32 \<Rightarrow> byte" where "ELF32_R_TYPE i = ucast i"

abbreviation (input) DT_NULL :: u32 where "DT_NULL \<equiv> 0"
abbreviation (input) DT_NEEDED :: u32 where "DT_NEEDED \<equiv> 1"
abbreviation (input) R_386_JUMP_SLOT :: byte where "R_386_JUMP_SLOT \<equiv> 7"
abbreviation (input) R_386_RELATIVE :: byte where "R_386_RELATIVE \<equiv> 8"

section \<open>Validation and header access\<close>

definition elf_signature :: "byte list" where
  "elf_signature = [0x7f, 0x45, 0x4c, 0x46]"

definition elf_valid_signature :: "ram \<Rightarrow> addr \<Rightarrow> bool" where
  "elf_valid_signature m buffer \<longleftrightarrow> memcmp (str_at m buffer) (\<lambda>i. elf_signature ! i) 4 = 0"

definition elf_valid_class :: "ram \<Rightarrow> addr \<Rightarrow> bool" where
  "elf_valid_class m header \<longleftrightarrow> m (header + 4) = 0 \<or> m (header + 4) = 1"

definition elf_valid_encoding :: "ram \<Rightarrow> addr \<Rightarrow> bool" where
  "elf_valid_encoding m header \<longleftrightarrow> m (header + 5) = 0 \<or> m (header + 5) = 1"

definition elf_is_executable :: "ram \<Rightarrow> addr \<Rightarrow> bool" where
  "elf_is_executable m header \<longleftrightarrow> e_type m header = 2 \<and> e_entry m header \<ge> COS32_PROGRAM_VIRTUAL_ADDRESS"

definition elf_is_shared_library :: "ram \<Rightarrow> addr \<Rightarrow> bool" where
  "elf_is_shared_library m header \<longleftrightarrow> e_type m header = 3"

definition elf_has_program_header :: "ram \<Rightarrow> addr \<Rightarrow> bool" where
  "elf_has_program_header m header \<longleftrightarrow> e_phoff m header \<noteq> 0"

definition elf_validate_loaded :: "ram \<Rightarrow> addr \<Rightarrow> int" where
  "elf_validate_loaded m header =
     (if elf_valid_signature m header \<and> elf_valid_class m header \<and> elf_valid_encoding m header
       \<and> elf_has_program_header m header then COS32_ALL_OK else - EINFORMAT)"

definition elf_memory :: "elf_file \<Rightarrow> addr" where "elf_memory file = ef_memory file"

definition elf_header :: "elf_file \<Rightarrow> addr" where "elf_header file = ef_memory file"

definition elf_sheader :: "ram \<Rightarrow> addr \<Rightarrow> addr" where
  "elf_sheader m header = header + e_shoff m header"

definition elf_pheader :: "ram \<Rightarrow> addr \<Rightarrow> addr" where
  "elf_pheader m header = (if e_phoff m header = 0 then 0 else header + e_phoff m header)"

definition elf_program_header :: "ram \<Rightarrow> addr \<Rightarrow> nat \<Rightarrow> addr" where
  "elf_program_header m header index = elf_pheader m header + 32 * of_nat index"

definition elf_section :: "ram \<Rightarrow> addr \<Rightarrow> nat \<Rightarrow> addr" where
  "elf_section m header index = elf_sheader m header + 40 * of_nat index"

definition elf_str_table :: "ram \<Rightarrow> addr \<Rightarrow> addr" where
  "elf_str_table m header = header + sh_offset m (elf_section m header (e_shstrndx m header))"

definition elf_string :: "ram \<Rightarrow> addr \<Rightarrow> u32 \<Rightarrow> addr" where
  "elf_string m header index = elf_str_table m header + index"

fun sheader_loop :: "ram \<Rightarrow> addr \<Rightarrow> cview \<Rightarrow> nat \<Rightarrow> nat \<Rightarrow> addr outcome" where
  "sheader_loop m header nme i 0 = Inr 0"
| "sheader_loop m header nme i (Suc k) =
     (let shdr = elf_section m header i in
      bindE (returns (strcmp (str_at m (elf_string m header (sh_name m shdr))) nme)) (\<lambda>c.
      if c = 0 then Inr shdr else sheader_loop m header nme (Suc i) k))"

definition elf_sheader_by_name :: "ram \<Rightarrow> addr \<Rightarrow> cview \<Rightarrow> addr outcome" where
  "elf_sheader_by_name m header nme = sheader_loop m header nme 0 (e_shnum m header)"

definition elf_dynamic :: "ram \<Rightarrow> addr \<Rightarrow> addr outcome" where
  "elf_dynamic m header =
     bindE (elf_sheader_by_name m header (lit ''.dynamic'')) (\<lambda>sec.
     Inr (if sec = 0 then 0 else header + sh_offset m sec))"

definition elf32_shdr_total_items :: "ram \<Rightarrow> addr \<Rightarrow> int outcome" where
  "elf32_shdr_total_items m shdr =
     (if sh_entsize m shdr = 0 then Inl DivideError else Inr (sint (sh_size m shdr div sh_entsize m shdr)))"

text \<open>The table of symbols and their number; 0 and 0 where there is none.\<close>

definition elf_dynsym :: "ram \<Rightarrow> addr \<Rightarrow> (addr \<times> int) outcome" where
  "elf_dynsym m header =
     bindE (elf_sheader_by_name m header (lit ''.dynsym'')) (\<lambda>sec.
     if sec = 0 \<or> sh_type m sec \<noteq> 11 then Inr (0, 0)
     else bindE (elf32_shdr_total_items m sec) (\<lambda>tot. Inr (header + sh_offset m sec, tot)))"

text \<open>With a null second argument the number is not computed.\<close>

definition elf_dynsym_table :: "ram \<Rightarrow> addr \<Rightarrow> addr outcome" where
  "elf_dynsym_table m header =
     bindE (elf_sheader_by_name m header (lit ''.dynsym'')) (\<lambda>sec.
     Inr (if sec = 0 \<or> sh_type m sec \<noteq> 11 then 0 else header + sh_offset m sec))"

definition elf_dynstr_section :: "ram \<Rightarrow> addr \<Rightarrow> addr outcome" where
  "elf_dynstr_section m header = elf_sheader_by_name m header (lit ''.dynstr'')"

definition elf_dynstr_table :: "ram \<Rightarrow> addr \<Rightarrow> addr outcome" where
  "elf_dynstr_table m header =
     bindE (elf_dynstr_section m header) (\<lambda>dynstr.
     Inr (if sh_type m dynstr \<noteq> 3 then 0 else header + sh_offset m dynstr))"

definition elf_dynamic_string :: "ram \<Rightarrow> addr \<Rightarrow> u32 \<Rightarrow> addr outcome" where
  "elf_dynamic_string m header index =
     bindE (elf_dynstr_table m header) (\<lambda>table. Inr (if table = 0 then 0 else table + index))"

definition elf_get_entry :: "ram \<Rightarrow> addr \<Rightarrow> u32" where "elf_get_entry m header = e_entry m header"

definition elf_get_entry_ptr :: "ram \<Rightarrow> addr \<Rightarrow> addr" where "elf_get_entry_ptr m header = e_entry m header"

definition elf_virtual_base :: "elf_file \<Rightarrow> addr" where "elf_virtual_base file = ef_virtual_base file"

definition elf_virtual_end :: "elf_file \<Rightarrow> addr" where "elf_virtual_end file = ef_virtual_end file"

definition elf_phys_base :: "elf_file \<Rightarrow> addr" where "elf_phys_base file = ef_physical_base file"

definition elf_phys_end :: "elf_file \<Rightarrow> addr" where "elf_phys_end file = ef_physical_end file"

definition elf_phdr_data_address :: "ram \<Rightarrow> elf_file \<Rightarrow> addr \<Rightarrow> addr" where
  "elf_phdr_data_address m file phdr = elf_memory file + p_offset m phdr"

definition elf_virtual_to_phys :: "elf_file \<Rightarrow> addr \<Rightarrow> addr" where
  "elf_virtual_to_phys file virt_addr = (virt_addr - ef_virtual_base file) + ef_physical_base file"

definition elf_symbol_get_virt_address :: "ram \<Rightarrow> elf_file \<Rightarrow> addr \<Rightarrow> addr" where
  "elf_symbol_get_virt_address m file symbol =
     (if st_value m symbol = 0 then 0
      else if elf_is_shared_library m (elf_header file) then ef_virtual_base file + st_value m symbol
      else if elf_is_executable m (elf_header file) then st_value m symbol
      else 0)"

definition elf_symbol_get_phys_address :: "ram \<Rightarrow> elf_file \<Rightarrow> addr \<Rightarrow> addr" where
  "elf_symbol_get_phys_address m file symbol =
     (let ptr = elf_symbol_get_virt_address m file symbol in
      if ptr = 0 then 0 else elf_virtual_to_phys file ptr)"

section \<open>Addresses fixed by the compiler and the linker\<close>

text \<open>
  Where a routine's local buffer lies at a depth of nested calls of \<open>elf_load\<close>, where a string
  literal and where a routine's code lie.
\<close>

record image =
  local_at :: "string \<Rightarrow> nat \<Rightarrow> addr"
  literal_at :: "string \<Rightarrow> addr"
  code_at :: "string \<Rightarrow> addr"

text \<open>\<open>basename\<close> on the kernel's state, with the address of its own buffer.\<close>

definition basename_to ::
  "image \<Rightarrow> nat \<Rightarrow> 'a kstate_scheme \<Rightarrow> addr \<Rightarrow> addr \<Rightarrow> int \<Rightarrow> 'a kstate_scheme outcome" where
  "basename_to im n s filename out_filename max_len =
     bindE (returns (basename (km_ram s) (strtok_sp s) filename out_filename max_len
              (local_at im ''buf'' n) (literal_at im ''/''))) (\<lambda>(m, sp).
     Inr (s\<lparr>km_ram := m, strtok_sp := sp\<rparr>))"

definition upd_elf_file :: "addr \<Rightarrow> (elf_file \<Rightarrow> elf_file) \<Rightarrow> 'a kstate_scheme \<Rightarrow> 'a kstate_scheme outcome" where
  "upd_elf_file p f s = bindE (deref (elf_files s) p) (\<lambda>t. Inr (s\<lparr>elf_files := (elf_files s)(p \<mapsto> f t)\<rparr>))"

section \<open>Program headers\<close>

definition elf_process_phdr_pt_load :: "'a kstate_scheme \<Rightarrow> addr \<Rightarrow> addr \<Rightarrow> (int \<times> 'a kstate_scheme) outcome" where
  "elf_process_phdr_pt_load s elf_file phdr =
     bindE (deref (elf_files s) elf_file) (\<lambda>f.
     let m = km_ram s;
         m = (if elf_is_shared_library m (elf_header f)
              then store32 m (phdr + 8) (p_vaddr m phdr + elf_memory f) else m);
         v = p_vaddr m phdr;
         f = (if ef_virtual_base f \<ge> v \<or> ef_virtual_base f = 0
              then f\<lparr>ef_virtual_base := v, ef_physical_base := elf_memory f + p_offset m phdr\<rparr> else f);
         end_virtual_address = v + p_filesz m phdr;
         f = (if ef_virtual_end f \<le> end_virtual_address \<or> ef_virtual_end f = 0
              then f\<lparr>ef_virtual_end := end_virtual_address,
                     ef_physical_end := elf_memory f + p_offset m phdr + p_filesz m phdr\<rparr> else f)
     in Inr (0, s\<lparr>km_ram := m, elf_files := (elf_files s)(elf_file \<mapsto> f)\<rparr>))"

text \<open>\<open>load\<close> stands for the call of \<open>elf_load\<close> one level deeper: result, file, state.\<close>

type_synonym 's elf_loader = "'s \<Rightarrow> addr \<Rightarrow> (int \<times> addr \<times> 's) outcome"

definition elf_process_dynamic_tag_needed ::
  "image \<Rightarrow> nat \<Rightarrow> 'a kstate_scheme elf_loader \<Rightarrow> 'a kstate_scheme \<Rightarrow> addr \<Rightarrow> addr \<Rightarrow> (int \<times> 'a kstate_scheme) outcome" where
  "elf_process_dynamic_tag_needed im n load s elf_file dynamic_tag =
     bindE (deref (elf_files s) elf_file) (\<lambda>f.
     bindE (elf_dynamic_string (km_ram s) (elf_header f) (d_val (km_ram s) dynamic_tag)) (\<lambda>required_library_name.
     let tmp = local_at im ''tmp_required_library_name'' n; path_buf = local_at im ''path_buf'' n in
     bindE (basename_to im n s required_library_name tmp 108) (\<lambda>s.
     bindE (library_get s (str_at (km_ram s) tmp)) (\<lambda>library.
     if library \<noteq> 0 then Inr (0, s)
     else
       let m = strncpy (km_ram s) path_buf (literal_at im ''0:/'') 108;
           m = strncpy m (path_buf + 3) tmp 108 in
       bindE (load (s\<lparr>km_ram := m\<rparr>) path_buf) (\<lambda>(res, library_file, s). Inr (res, s))))))"

text \<open>The tags from \<open>tag\<close> on, eight bytes each; \<open>None\<close> is a table with no end mark.\<close>

partial_function (option) dynamic_tags_loop ::
  "('a kstate_scheme \<Rightarrow> addr \<Rightarrow> (int \<times> 'a kstate_scheme) outcome) \<Rightarrow> 'a kstate_scheme \<Rightarrow> addr \<Rightarrow> int
   \<Rightarrow> (int \<times> 'a kstate_scheme) outcome option" where
  "dynamic_tags_loop needed s tag res =
     (if d_tag (km_ram s) tag = DT_NULL then Some (Inr (res, s))
      else if d_tag (km_ram s) tag = DT_NEEDED
      then (case needed s tag of
              Inl e \<Rightarrow> Some (Inl e)
            | Inr (res', s') \<Rightarrow> if res' < 0 then Some (Inr (res', s')) else dynamic_tags_loop needed s' (tag + 8) res')
      else dynamic_tags_loop needed s (tag + 8) res)"

definition elf_process_phdr_pt_dynamic ::
  "image \<Rightarrow> nat \<Rightarrow> 'a kstate_scheme elf_loader \<Rightarrow> 'a kstate_scheme \<Rightarrow> addr \<Rightarrow> addr \<Rightarrow> (int \<times> 'a kstate_scheme) outcome" where
  "elf_process_phdr_pt_dynamic im n load s elf_file phdr =
     bindE (deref (elf_files s) elf_file) (\<lambda>f.
     ran (dynamic_tags_loop (\<lambda>s tag. elf_process_dynamic_tag_needed im n load s elf_file tag) s
            (elf_memory f + p_offset (km_ram s) phdr) 0))"

definition elf_process_pheader ::
  "image \<Rightarrow> nat \<Rightarrow> 'a kstate_scheme elf_loader \<Rightarrow> 'a kstate_scheme \<Rightarrow> addr \<Rightarrow> addr \<Rightarrow> (int \<times> 'a kstate_scheme) outcome" where
  "elf_process_pheader im n load s elf_file phdr =
     (if p_type (km_ram s) phdr = 1 then elf_process_phdr_pt_load s elf_file phdr
      else if p_type (km_ram s) phdr = 2 then elf_process_phdr_pt_dynamic im n load s elf_file phdr
      else Inr (0, s))"

text \<open>
  A loop over at most 65535 entries whose bound, a 16-bit field of the image, is read again in
  every turn: \<open>k\<close> turns are left of 65536.
\<close>

fun counted_loop ::
  "(ram \<Rightarrow> nat) \<Rightarrow> ('a kstate_scheme \<Rightarrow> nat \<Rightarrow> (int \<times> 'a kstate_scheme) outcome) \<Rightarrow> 'a kstate_scheme
   \<Rightarrow> nat \<Rightarrow> nat \<Rightarrow> int \<Rightarrow> (int \<times> 'a kstate_scheme) outcome" where
  "counted_loop bound body s i 0 res = Inr (res, s)"
| "counted_loop bound body s i (Suc k) res =
     (if i < bound (km_ram s)
      then bindE (body s i) (\<lambda>(res, s). if res < 0 then Inr (res, s) else counted_loop bound body s (Suc i) k res)
      else Inr (res, s))"

definition elf_process_pheaders ::
  "image \<Rightarrow> nat \<Rightarrow> 'a kstate_scheme elf_loader \<Rightarrow> 'a kstate_scheme \<Rightarrow> addr \<Rightarrow> (int \<times> 'a kstate_scheme) outcome" where
  "elf_process_pheaders im n load s elf_file =
     bindE (deref (elf_files s) elf_file) (\<lambda>f.
     let header = elf_header f in
     counted_loop (\<lambda>m. e_phnum m header)
       (\<lambda>s i. elf_process_pheader im n load s elf_file (elf_program_header (km_ram s) header i)) s 0 65536 0)"

section \<open>Exported symbols and sections of a library\<close>

definition elf_export_symbol :: "image \<Rightarrow> nat \<Rightarrow> 'a kstate_scheme \<Rightarrow> addr \<Rightarrow> addr \<Rightarrow> (int \<times> 'a kstate_scheme) outcome" where
  "elf_export_symbol im n s elf_file symbol =
     bindE (deref (elf_files s) elf_file) (\<lambda>f.
     let m = km_ram s in
     if \<not> elf_is_shared_library m (elf_header f) then Inr (0, s)
     else
       let abs_phys_addr = elf_symbol_get_phys_address m f symbol;
           abs_virt_addr = elf_symbol_get_virt_address m f symbol in
       bindE (elf_dynamic_string m (elf_header f) (st_name m symbol)) (\<lambda>nme.
       library_new_symbol s (ef_library f) (local_at im ''sym'' n) nme abs_phys_addr abs_virt_addr))"

definition elf_process_symbol_handle_export ::
  "image \<Rightarrow> nat \<Rightarrow> 'a kstate_scheme \<Rightarrow> addr \<Rightarrow> addr \<Rightarrow> (int \<times> 'a kstate_scheme) outcome" where
  "elf_process_symbol_handle_export im n s elf_file symbol = elf_export_symbol im n s elf_file symbol"

definition elf_process_symbol :: "image \<Rightarrow> nat \<Rightarrow> 'a kstate_scheme \<Rightarrow> addr \<Rightarrow> addr \<Rightarrow> (int \<times> 'a kstate_scheme) outcome" where
  "elf_process_symbol im n s elf_file symbol =
     (if ELF32_ST_BIND (st_info (km_ram s) symbol) = 0 then Inr (0, s)
      else elf_process_symbol_handle_export im n s elf_file symbol)"

fun symbols_loop ::
  "image \<Rightarrow> nat \<Rightarrow> 'a kstate_scheme \<Rightarrow> addr \<Rightarrow> addr \<Rightarrow> nat \<Rightarrow> nat \<Rightarrow> int \<Rightarrow> (int \<times> 'a kstate_scheme) outcome" where
  "symbols_loop im n s elf_file symbols i 0 res = Inr (res, s)"
| "symbols_loop im n s elf_file symbols i (Suc k) res =
     (let symbol = symbols + 16 * of_nat i in
      if st_shndx (km_ram s) symbol = 0 then symbols_loop im n s elf_file symbols (Suc i) k res
      else
        bindE (elf_process_symbol im n s elf_file symbol) (\<lambda>(res, s).
        if res < 0 then Inr (res, s) else symbols_loop im n s elf_file symbols (Suc i) k res))"

definition elf_process_symbols :: "image \<Rightarrow> nat \<Rightarrow> 'a kstate_scheme \<Rightarrow> addr \<Rightarrow> (int \<times> 'a kstate_scheme) outcome" where
  "elf_process_symbols im n s elf_file =
     bindE (deref (elf_files s) elf_file) (\<lambda>f.
     bindE (elf_dynsym (km_ram s) (elf_header f)) (\<lambda>(symbols, total_symbols).
     symbols_loop im n s elf_file symbols 0 (nat total_symbols) 0))"

definition elf_library_process_section ::
  "image \<Rightarrow> nat \<Rightarrow> 'a kstate_scheme \<Rightarrow> addr \<Rightarrow> addr \<Rightarrow> (int \<times> 'a kstate_scheme) outcome" where
  "elf_library_process_section im n s elf_file shdr =
     bindE (deref (elf_files s) elf_file) (\<lambda>f.
     let m = km_ram s; header = elf_header f;
         abs_phys_addr = ef_physical_base f + sh_offset m shdr;
         abs_virt_addr = ef_virtual_base f + sh_offset m shdr;
         flags = 2 OR 4;
         flags = (if sh_flags m shdr AND 1 \<noteq> 0 then flags OR 1 else flags)
     in library_new_section s (ef_library f) (local_at im ''section'' n) (elf_string m header (sh_name m shdr))
          abs_phys_addr abs_virt_addr (sh_size m shdr) flags)"

definition elf_process_section :: "image \<Rightarrow> nat \<Rightarrow> 'a kstate_scheme \<Rightarrow> addr \<Rightarrow> addr \<Rightarrow> (int \<times> 'a kstate_scheme) outcome" where
  "elf_process_section im n s elf_file shdr =
     bindE (deref (elf_files s) elf_file) (\<lambda>f.
     if \<not> elf_is_shared_library (km_ram s) (elf_header f) then Inr (0, s)
     else elf_library_process_section im n s elf_file shdr)"

definition elf_process_sections :: "image \<Rightarrow> nat \<Rightarrow> 'a kstate_scheme \<Rightarrow> addr \<Rightarrow> (int \<times> 'a kstate_scheme) outcome" where
  "elf_process_sections im n s elf_file =
     bindE (deref (elf_files s) elf_file) (\<lambda>f.
     let header = elf_header f; shdr = elf_sheader (km_ram s) header in
     counted_loop (\<lambda>m. e_shnum m header)
       (\<lambda>s i. elf_process_section im n s elf_file (shdr + 40 * of_nat i)) s 0 65536 0)"

section \<open>Relocation\<close>

text \<open>
  The loop of \<open>elf_get_loaded_symbol_address\<close>: a missing library makes it give up with 0, a library
  without the symbol is passed over.
\<close>

definition needed_symbol ::
  "image \<Rightarrow> nat \<Rightarrow> 'a kstate_scheme \<Rightarrow> addr \<Rightarrow> addr \<Rightarrow> cview \<Rightarrow> (addr option \<times> 'a kstate_scheme) outcome" where
  "needed_symbol im n s header tag symbol_name =
     bindE (elf_dynamic_string (km_ram s) header (d_val (km_ram s) tag)) (\<lambda>required_library_name_path.
     let required_library_name = local_at im ''required_library_name'' n in
     bindE (basename_to im n s required_library_name_path required_library_name 108) (\<lambda>s.
     bindE (library_get s (str_at (km_ram s) required_library_name)) (\<lambda>library.
     if library = 0 then Inr (Some 0, s)
     else
       bindE (library_get_symbol_by_name s library symbol_name) (\<lambda>symbol.
       Inr (if symbol = 0 then None else Some (symbol_virt (km_ram s) symbol), s)))))"

partial_function (option) loaded_symbol_loop ::
  "('a kstate_scheme \<Rightarrow> addr \<Rightarrow> (addr option \<times> 'a kstate_scheme) outcome) \<Rightarrow> 'a kstate_scheme \<Rightarrow> addr
   \<Rightarrow> (addr \<times> 'a kstate_scheme) outcome option" where
  "loaded_symbol_loop needed s tag =
     (if d_tag (km_ram s) tag = DT_NULL then Some (Inr (0, s))
      else if d_tag (km_ram s) tag = DT_NEEDED
      then (case needed s tag of
              Inl e \<Rightarrow> Some (Inl e)
            | Inr (Some a, s') \<Rightarrow> Some (Inr (a, s'))
            | Inr (None, s') \<Rightarrow> loaded_symbol_loop needed s' (tag + 8))
      else loaded_symbol_loop needed s (tag + 8))"

definition elf_get_loaded_symbol_address ::
  "image \<Rightarrow> nat \<Rightarrow> 'a kstate_scheme \<Rightarrow> addr \<Rightarrow> addr \<Rightarrow> (addr \<times> 'a kstate_scheme) outcome" where
  "elf_get_loaded_symbol_address im n s elf_file symbol_name =
     bindE (deref (elf_files s) elf_file) (\<lambda>f.
     let header = elf_header f in
     bindE (elf_dynamic (km_ram s) header) (\<lambda>dynamic_tag.
     ran (loaded_symbol_loop (\<lambda>s tag. needed_symbol im n s header tag (str_at (km_ram s) symbol_name)) s dynamic_tag)))"

definition elf_symbol_poke_value_to_virtual_address ::
  "'a kstate_scheme \<Rightarrow> addr \<Rightarrow> addr \<Rightarrow> u32 \<Rightarrow> (int \<times> 'a kstate_scheme) outcome" where
  "elf_symbol_poke_value_to_virtual_address s elf_file virtual_address val =
     bindE (deref (elf_files s) elf_file) (\<lambda>f.
     let phys_addr = elf_virtual_to_phys f virtual_address in
     if phys_addr = 0 then Inr (- EIO, s)
     else Inr (0, s\<lparr>km_ram := store32 (km_ram s) phys_addr val\<rparr>))"

definition elf_symbol_poke_to_virtual_address ::
  "image \<Rightarrow> nat \<Rightarrow> 'a kstate_scheme \<Rightarrow> addr \<Rightarrow> addr \<Rightarrow> addr \<Rightarrow> (int \<times> 'a kstate_scheme) outcome" where
  "elf_symbol_poke_to_virtual_address im n s elf_file virtual_address symbol_name =
     bindE (elf_get_loaded_symbol_address im n s elf_file symbol_name) (\<lambda>(symbol_address, s).
     elf_symbol_poke_value_to_virtual_address s elf_file virtual_address symbol_address)"

definition elf_relocation_type_supported :: "byte \<Rightarrow> bool" where
  "elf_relocation_type_supported relocation_type \<longleftrightarrow>
     relocation_type = R_386_JUMP_SLOT \<or> relocation_type = R_386_RELATIVE"

definition elf_get_relocation_address :: "ram \<Rightarrow> elf_file \<Rightarrow> addr \<Rightarrow> addr" where
  "elf_get_relocation_address m f relocation =
     (let relocation_type = ELF32_R_TYPE (r_info m relocation) in
      if \<not> elf_relocation_type_supported relocation_type then 0
      else if relocation_type = R_386_JUMP_SLOT then r_offset m relocation
      else if relocation_type = R_386_RELATIVE then ef_virtual_base f + r_offset m relocation
      else 0)"

definition elf_resolve_relocation_386_relative :: "'a kstate_scheme \<Rightarrow> addr \<Rightarrow> addr \<Rightarrow> (int \<times> 'a kstate_scheme) outcome" where
  "elf_resolve_relocation_386_relative s elf_file relocation =
     bindE (deref (elf_files s) elf_file) (\<lambda>f.
     let relocation_offset = elf_get_relocation_address (km_ram s) f relocation in
     elf_symbol_poke_value_to_virtual_address s elf_file relocation_offset relocation_offset)"

definition elf_resolve_relocation_386_jmp_slot ::
  "image \<Rightarrow> nat \<Rightarrow> 'a kstate_scheme \<Rightarrow> addr \<Rightarrow> addr \<Rightarrow> (int \<times> 'a kstate_scheme) outcome" where
  "elf_resolve_relocation_386_jmp_slot im n s elf_file relocation =
     bindE (deref (elf_files s) elf_file) (\<lambda>f.
     let header = elf_header f; m = km_ram s;
         relocation_offset = elf_get_relocation_address m f relocation;
         symbol_index = ELF32_R_SYM (r_info m relocation) in
     bindE (elf_dynsym_table m header) (\<lambda>symbols.
     bindE (elf_dynamic_string m header (st_name m (symbols + 16 * symbol_index))) (\<lambda>symbol_name.
     elf_symbol_poke_to_virtual_address im n s elf_file relocation_offset symbol_name)))"

definition elf_resolve_relocation ::
  "image \<Rightarrow> nat \<Rightarrow> 'a kstate_scheme \<Rightarrow> addr \<Rightarrow> addr \<Rightarrow> (int \<times> 'a kstate_scheme) outcome" where
  "elf_resolve_relocation im n s elf_file relocation =
     (let relocation_type = ELF32_R_TYPE (r_info (km_ram s) relocation) in
      if \<not> elf_relocation_type_supported relocation_type then Inr (- EUNIMP, s)
      else if relocation_type = R_386_RELATIVE then elf_resolve_relocation_386_relative s elf_file relocation
      else if relocation_type = R_386_JUMP_SLOT then elf_resolve_relocation_386_jmp_slot im n s elf_file relocation
      else Inr (0, s))"

fun relocations_loop ::
  "image \<Rightarrow> nat \<Rightarrow> 'a kstate_scheme \<Rightarrow> addr \<Rightarrow> addr \<Rightarrow> nat \<Rightarrow> nat \<Rightarrow> int \<Rightarrow> (int \<times> 'a kstate_scheme) outcome" where
  "relocations_loop im n s elf_file relocations i 0 res = Inr (res, s)"
| "relocations_loop im n s elf_file relocations i (Suc k) res =
     bindE (elf_resolve_relocation im n s elf_file (relocations + 8 * of_nat i)) (\<lambda>(res, s).
     if res < 0 then Inr (res, s) else relocations_loop im n s elf_file relocations (Suc i) k res)"

definition elf_resolve_relocation_table ::
  "image \<Rightarrow> nat \<Rightarrow> 'a kstate_scheme \<Rightarrow> addr \<Rightarrow> addr \<Rightarrow> (int \<times> 'a kstate_scheme) outcome" where
  "elf_resolve_relocation_table im n s elf_file sec =
     bindE (elf32_shdr_total_items (km_ram s) sec) (\<lambda>total_relocations.
     bindE (deref (elf_files s) elf_file) (\<lambda>f.
     relocations_loop im n s elf_file (elf_memory f + sh_offset (km_ram s) sec) 0 (nat total_relocations) 0))"

definition elf_resolve_relocations :: "image \<Rightarrow> nat \<Rightarrow> 'a kstate_scheme \<Rightarrow> addr \<Rightarrow> (int \<times> 'a kstate_scheme) outcome" where
  "elf_resolve_relocations im n s elf_file =
     bindE (deref (elf_files s) elf_file) (\<lambda>f.
     let header = elf_header f; sections = elf_sheader (km_ram s) header in
     counted_loop (\<lambda>m. e_shnum m header)
       (\<lambda>s i. let sec = sections + 40 * of_nat i in
          if sh_type (km_ram s) sec = 9 then elf_resolve_relocation_table im n s elf_file sec else Inr (0, s)) s 0 65536 0)"

section \<open>Loading a file\<close>

definition elf_process_header :: "image \<Rightarrow> nat \<Rightarrow> 'a kstate_scheme \<Rightarrow> addr \<Rightarrow> (int \<times> 'a kstate_scheme) outcome" where
  "elf_process_header im n s elf_file =
     bindE (deref (elf_files s) elf_file) (\<lambda>f.
     if \<not> elf_is_shared_library (km_ram s) (elf_header f) then Inr (0, s)
     else
       let library_name = local_at im ''library_name'' n in
       bindE (basename_to im n s elf_file library_name 108) (\<lambda>s.
       bindE (library_new s library_name) (\<lambda>(library, s).
       bindE (upd_elf_file elf_file (\<lambda>f. f\<lparr>ef_library := library\<rparr>) s) (\<lambda>s.
       Inr (if library = 0 then - EIO else 0, s)))))"

text \<open>Doing \<open>step\<close> unless the result so far is an error, where the code goes to \<open>out\<close>.\<close>

definition and_then ::
  "(int \<times> 's) outcome \<Rightarrow> ('s \<Rightarrow> (int \<times> 's) outcome) \<Rightarrow> (int \<times> 's) outcome" where
  "and_then r step = bindE r (\<lambda>(res, s). if res < 0 then Inr (res, s) else step s)"

definition elf_process_loaded ::
  "image \<Rightarrow> nat \<Rightarrow> 'a kstate_scheme elf_loader \<Rightarrow> 'a kstate_scheme \<Rightarrow> addr \<Rightarrow> (int \<times> 'a kstate_scheme) outcome" where
  "elf_process_loaded im n load s elf_file =
     bindE (deref (elf_files s) elf_file) (\<lambda>f.
     and_then (and_then (and_then (and_then (and_then
       (Inr (elf_validate_loaded (km_ram s) (elf_header f), s))
       (\<lambda>s. elf_process_header im n s elf_file))
       (\<lambda>s. elf_process_pheaders im n load s elf_file))
       (\<lambda>s. elf_process_sections im n s elf_file))
       (\<lambda>s. elf_process_symbols im n s elf_file))
       (\<lambda>s. elf_resolve_relocations im n s elf_file))"

text \<open>
  \<open>elf_load\<close> between its first allocation and its label \<open>out\<close>, with \<open>fd\<close> as it is there; the file
  comes back in the second component, 0 when \<open>*file_out\<close> was not written.
\<close>

definition elf_load_body ::
  "image \<Rightarrow> nat \<Rightarrow> 'a kstate_scheme fs_table \<Rightarrow> 'a kstate_scheme elf_loader \<Rightarrow> 'a kstate_scheme \<Rightarrow> addr \<Rightarrow> addr \<Rightarrow> int
   \<Rightarrow> (int \<times> addr \<times> 'a kstate_scheme) outcome" where
  "elf_load_body im n fs_lookup load s elf_file filename fd =
     bindE (fstat fs_lookup s fd) (\<lambda>(res, stat).
     if res < 0 then Inr (res, 0, s)
     else
       let s = s\<lparr>km_ram := strncpy (km_ram s) elf_file filename 108\<rparr>;
           filesize = (case stat of None \<Rightarrow> 0 | Some st \<Rightarrow> st_filesize st) in
       bindE (kzalloc s (sint filesize)) (\<lambda>(memory, s).
       bindE (upd_elf_file elf_file (\<lambda>f. f\<lparr>ef_memory := memory\<rparr>) s) (\<lambda>s.
       bindE (fread fs_lookup s memory filesize 1 fd) (\<lambda>(res, s).
       if res < 0 then Inr (res, 0, s)
       else
         bindE (elf_process_loaded im n load s elf_file) (\<lambda>(res, s).
         Inr (res, if res < 0 then 0 else elf_file, s))))))"

text \<open>
  Libraries that need libraries are loaded by nested calls; the first argument bounds the nesting,
  at 0 the nested call does not return.
\<close>

fun elf_load :: "image \<Rightarrow> 'a kstate_scheme fs_table \<Rightarrow> nat \<Rightarrow> 'a kstate_scheme elf_loader" where
  "elf_load im fs_lookup 0 s filename = Inl NoReturn"
| "elf_load im fs_lookup (Suc n) s filename =
     bindE (kzalloc s 136) (\<lambda>(elf_file, s).
     let s = s\<lparr>elf_files := (elf_files s)(elf_file \<mapsto> \<lparr>ef_memory = 0, ef_virtual_base = 0, ef_virtual_end = 0,
               ef_physical_base = 0, ef_physical_end = 0, ef_library = 0\<rparr>)\<rparr> in
     bindE (fopen fs_lookup s filename (lit ''r'')) (\<lambda>(res, s).
     let fd = (if res \<le> 0 then 0 else res) in
     bindE (if res \<le> 0 then Inr (res, 0, s)
            else elf_load_body im n fs_lookup (elf_load im fs_lookup n) s elf_file filename fd) (\<lambda>(res, file_out, s).
     bindE (fclose fs_lookup s fd) (\<lambda>(_, s). Inr (res, file_out, s)))))"

definition elf_close :: "'a kstate_scheme \<Rightarrow> addr \<Rightarrow> (int \<times> 'a kstate_scheme) outcome" where
  "elf_close s file =
     (if file = 0 then Inr (0, s)
      else
        bindE (deref (elf_files s) file) (\<lambda>f.
        bindE (kfree s (elf_memory f)) (\<lambda>s. Inr (0, s))))"

end
