(* ===== verification/Itoa.thy ===== *)
theory Itoa
  imports C_String
begin

text \<open>
  \<open>itoa\<close> of \<open>src/kernel.c\<close>: the decimal text of an \<open>int\<close>, written from the end of a static
  array of 12 bytes at \<open>text\<close>.
\<close>

section \<open>The routine\<close>

text \<open>The loop, on a number that is not positive; \<open>loc\<close> is the index of the last byte written.\<close>

function itoa_loop :: "ram \<Rightarrow> addr \<Rightarrow> int \<Rightarrow> int \<Rightarrow> ram \<times> int" where
  "itoa_loop m text loc i =
     (if i = 0 then (m, loc)
      else let loc = loc - 1 in
        itoa_loop (m(text + word_of_int loc := word_of_int (48 - i smod 10))) text loc (i sdiv 10))"
  by pat_completeness auto
termination
proof (relation "measure (\<lambda>(m, text, loc, i). nat \<bar>i\<bar>)"; clarsimp)
  fix i :: int assume "i \<noteq> 0"
  then show "\<bar>i sdiv 10\<bar> < \<bar>i\<bar>"
    by (simp add: signed_divide_int_def abs_mult)
qed

declare itoa_loop.simps [simp del]

definition itoa :: "ram \<Rightarrow> addr \<Rightarrow> int \<Rightarrow> ram \<times> addr" where
  "itoa m text i =
     (let m = m(text + 11 := 0);
          neg = i < 0;
          i = (if i \<ge> 0 then - i else i);
          (m, loc) = itoa_loop m text 11 i;
          (m, loc) = (if loc = 11 then (m(text + word_of_int (loc - 1) := 0x30), loc - 1) else (m, loc));
          (m, loc) = (if neg then (m(text + word_of_int (loc - 1) := 0x2d), loc - 1) else (m, loc))
      in (m, text + word_of_int loc))"

section \<open>Decimal text\<close>

fun digits_of :: "nat \<Rightarrow> byte list" where
  "digits_of n = (if n = 0 then [] else digits_of (n div 10) @ [of_nat (48 + n mod 10)])"

declare digits_of.simps [simp del]

definition int_text :: "int \<Rightarrow> byte list" where
  "int_text i = (if i < 0 then [0x2d] else []) @ (if i = 0 then [0x30] else digits_of (nat \<bar>i\<bar>))"

text \<open>What a decimal text says.\<close>

definition digits_value :: "byte list \<Rightarrow> int" where
  "digits_value ds = foldl (\<lambda>v d. 10 * v + (uint d - 48)) 0 ds"

definition text_value :: "byte list \<Rightarrow> int" where
  "text_value t = (if t \<noteq> [] \<and> hd t = 0x2d then - digits_value (tl t) else digits_value t)"

lemma digits_of_0 [simp]: "digits_of 0 = []"
  by (subst digits_of.simps) simp

lemma digits_of_pos: "0 < n \<Longrightarrow> digits_of n = digits_of (n div 10) @ [of_nat (48 + n mod 10)]"
  by (subst digits_of.simps) simp

lemma digit_byte: "uint (of_nat (48 + n mod 10) :: byte) = 48 + int (n mod 10)"
proof -
  have "48 + n mod 10 < 2 ^ 8" using mod_less_divisor [of 10 n] by simp
  then have "take_bit 8 (48 + n mod 10) = 48 + n mod 10" by (rule take_bit_nat_eq_self)
  then show ?thesis by (simp only: unsigned_of_nat len_of_numeral_defs) simp
qed

lemma digits_of_value: "digits_value (digits_of n) = int n"
proof (induction n rule: less_induct)
  case (less n)
  show ?case
  proof (cases "n = 0")
    case False
    then have "digits_value (digits_of (n div 10)) = int (n div 10)" by (intro less.IH) simp
    moreover have "10 * (n div 10) + n mod 10 = n" by (rule mult_div_mod_eq)
    ultimately show ?thesis
      using False by (simp only: digits_of_pos neq0_conv digits_value_def foldl_append foldl.simps digit_byte)
  qed (simp add: digits_value_def)
qed

lemma digits_of_length: "n < 10 ^ k \<Longrightarrow> length (digits_of n) \<le> k"
proof (induction k arbitrary: n)
  case (Suc k)
  show ?case
  proof (cases "n = 0")
    case False
    have "n div 10 < 10 ^ k" using Suc.prems by (simp add: less_mult_imp_div_less mult.commute)
    then show ?thesis using Suc.IH False by (simp add: digits_of_pos)
  qed simp
qed simp

lemma digits_of_no_minus: "d \<in> set (digits_of n) \<Longrightarrow> 48 \<le> uint d"
proof (induction n rule: less_induct)
  case (less n)
  then show ?case
    using less.IH [of "n div 10"] by (cases "n = 0") (auto simp: digits_of_pos digit_byte simp del: of_nat_add)
qed

lemma int_text_value: "text_value (int_text i) = i"
proof -
  have h: "hd (digits_of n) \<noteq> 0x2d" if "digits_of n \<noteq> []" for n
    using digits_of_no_minus [OF list.set_sel(1) [OF that]] by auto
  consider "i < 0" | "i = 0" | "0 < i" by linarith
  then show ?thesis
  proof cases
    case 2
    then show ?thesis by (simp add: int_text_def text_value_def digits_value_def)
  qed (use h in \<open>auto simp: int_text_def text_value_def digits_of_value\<close>)
qed

lemma int_text_length:
  assumes "- 2147483648 \<le> i" "i < 2147483648"
  shows "0 < length (int_text i)" "length (int_text i) \<le> 11"
proof -
  have "nat \<bar>i\<bar> < 10 ^ 10" using assms by simp
  then have "length (digits_of (nat \<bar>i\<bar>)) \<le> 10" by (rule digits_of_length)
  then show "length (int_text i) \<le> 11" by (cases "i < 0") (auto simp: int_text_def)
  show "0 < length (int_text i)" by (simp add: int_text_def digits_of_pos)
qed

section \<open>What itoa writes\<close>

lemma fold_store_upd:
  "q \<notin> (\<lambda>i. p + of_nat i) ` set is \<Longrightarrow>
   fold (\<lambda>i m. m(p + of_nat i := f i)) is (m(q := d)) = (fold (\<lambda>i m. m(p + of_nat i := f i)) is m)(q := d)"
  by (induction "is" arbitrary: m) (auto simp: fun_upd_twist [of q])

lemma write_bytes_last:
  "length bs < 2 ^ 32 \<Longrightarrow> write_bytes (m(p + of_nat (length bs) := d)) p bs = write_bytes m p (bs @ [d])"
proof -
  assume l: "length bs < 2 ^ 32"
  have "p + of_nat (length bs) \<notin> (\<lambda>i. p + of_nat i) ` set [0..<length bs]"
  proof
    assume "p + of_nat (length bs) \<in> (\<lambda>i. p + of_nat i) ` set [0..<length bs]"
    then obtain i where "i < length bs" "(of_nat (length bs) :: u32) = of_nat i" by auto
    then show False using of_nat_inj_u32 [of "length bs" i] l by simp
  qed
  then show ?thesis
    unfolding write_bytes_append [symmetric] by (simp add: write_bytes_def fold_store_upd)
qed

lemma itoa_loop_digits:
  "length (digits_of n) < 2 ^ 32 \<Longrightarrow> itoa_loop m text loc (- int n) =
     (write_bytes m (text + word_of_int (loc - int (length (digits_of n)))) (digits_of n), loc - int (length (digits_of n)))"
proof (induction n arbitrary: m loc rule: less_induct)
  case (less n)
  show ?case
  proof (cases "n = 0")
    case True
    then show ?thesis by (simp add: itoa_loop.simps write_bytes_def)
  next
    case False
    let ?ds = "digits_of (n div 10)" and ?d = "of_nat (48 + n mod 10) :: byte"
    let ?p = "text + word_of_int (loc - 1 - int (length ?ds))"
    have ds: "digits_of n = ?ds @ [?d]" using False by (simp add: digits_of_pos)
    have l: "length ?ds < 2 ^ 32" using less.prems ds by simp
    have s: "- int n smod 10 = - int (n mod 10)" "- int n sdiv 10 = - int (n div 10)"
      using False by (simp_all add: signed_modulo_int_def signed_divide_int_def of_nat_mod of_nat_div)
    have d: "word_of_int (48 - - int (n mod 10)) = ?d" by simp
    have q: "?p + of_nat (length ?ds) = text + word_of_int (loc - 1)" by simp
    have "itoa_loop m text loc (- int n) =
        itoa_loop (m(text + word_of_int (loc - 1) := ?d)) text (loc - 1) (- int (n div 10))"
      by (subst itoa_loop.simps) (simp only: s d Let_def, use False in simp)
    also have "\<dots> = (write_bytes (m(text + word_of_int (loc - 1) := ?d)) ?p ?ds, loc - 1 - int (length ?ds))"
      by (rule less.IH) (use False l in simp_all)
    also have "write_bytes (m(text + word_of_int (loc - 1) := ?d)) ?p ?ds = write_bytes m ?p (?ds @ [?d])"
      using write_bytes_last [OF l, of m ?p ?d] by (simp only: q)
    finally show ?thesis unfolding ds by (simp add: algebra_simps)
  qed
qed

lemma itoa_result:
  assumes "- 2147483648 \<le> i" "i < 2147483648"
  shows "itoa m text i = (write_bytes m (text + of_nat (11 - length (int_text i))) (int_text i @ [0]),
    text + of_nat (11 - length (int_text i)))"
proof -
  let ?n = "nat \<bar>i\<bar>" and ?m = "m(text + 11 := 0)"
  define k where "k = length (digits_of ?n)"
  have "?n < 10 ^ 10" using assms by simp
  then have k: "k \<le> 10" unfolding k_def by (rule digits_of_length)
  have kp: "k = 0 \<longleftrightarrow> i = 0" unfolding k_def by (cases "i = 0") (simp_all add: digits_of_pos)
  have "itoa_loop ?m text 11 (- int ?n) = (write_bytes ?m (text + word_of_int (11 - int k)) (digits_of ?n), 11 - int k)"
    using k unfolding k_def by (intro itoa_loop_digits) simp
  moreover have "- int ?n = (if i \<ge> 0 then - i else i)" by simp
  ultimately have l: "itoa_loop ?m text 11 (if i \<ge> 0 then - i else i) =
    (write_bytes ?m (text + word_of_int (11 - int k)) (digits_of ?n), 11 - int k)" by (simp only:)
  have p: "text + of_nat (11 - j) + of_nat j = text + 11" if "j \<le> 11" for j
    using that by (simp add: of_nat_diff)
  have w: "write_bytes ?m (text + of_nat (11 - length t)) t = write_bytes m (text + of_nat (11 - length t)) (t @ [0])"
    if "length t \<le> 11" for t
    using write_bytes_last [of t m "text + of_nat (11 - length t)" 0] that by (simp only: p) simp
  have n: "word_of_int (11 - int j) = (of_nat (11 - j) :: u32)" if "j \<le> 11" for j
    using that by (simp add: of_nat_diff)
  consider "i = 0" | "0 < i" | "i < 0" by linarith
  then show ?thesis
  proof cases
    case 1
    then have "itoa m text i = (?m(text + 10 := 0x30), text + 10)"
      using kp by (simp add: itoa_def l [simplified] Let_def write_bytes_def itoa_loop.simps)
    then show ?thesis using 1 w [of "[0x30]"] by (simp add: int_text_def) (simp add: write_bytes_def)
  next
    case 2
    then have t: "int_text i = digits_of ?n" by (simp add: int_text_def)
    have "itoa m text i = (write_bytes ?m (text + of_nat (11 - k)) (digits_of ?n), text + of_nat (11 - k))"
      using 2 kp k unfolding itoa_def Let_def l prod.case by (simp add: n [symmetric])
    then show ?thesis using w [of "digits_of ?n"] k unfolding t k_def by simp
  next
    case 3
    then have t: "int_text i = 0x2d # digits_of ?n" by (simp add: int_text_def)
    let ?p = "text + of_nat (11 - Suc k)"
    have c: "write_bytes (m'(?p := b)) (?p + 1) ds = (write_bytes m' (?p + 1) ds)(?p := b)"
      if "length ds = k" for ds b m'
      unfolding write_bytes_def
    proof (rule fold_store_upd, clarsimp)
      fix j assume j: "j < length ds" "1 + word_of_nat j = (0 :: u32)"
      have "(of_nat (Suc j) :: u32) = of_nat 0" using j(2) by simp
      then show False using of_nat_inj_u32 [of "Suc j" 0] j(1) that k by simp
    qed
    have s: "write_bytes m' ?p (b # ds) = write_bytes (m'(?p := b)) (?p + 1) ds" for b ds m'
      using write_bytes_append [of m' ?p "[b]" ds] by (simp add: write_bytes_def)
    have q: "word_of_int (11 - int k) = (of_nat (11 - Suc k) + 1 :: u32)" "word_of_int (11 - int k - 1) = (of_nat (11 - Suc k) :: u32)"
      using k by (simp_all add: of_nat_diff)
    have "itoa m text i = ((write_bytes ?m (?p + 1) (digits_of ?n))(?p := 0x2d), ?p)"
      using 3 kp k unfolding itoa_def Let_def l prod.case by (simp add: q add.assoc)
    also have "(write_bytes ?m (?p + 1) (digits_of ?n))(?p := 0x2d) = write_bytes ?m ?p (0x2d # digits_of ?n)"
      unfolding s by (rule c [symmetric]) (simp add: k_def)
    finally show ?thesis using w [of "0x2d # digits_of ?n"] k unfolding t k_def by simp
  qed
qed

text \<open>C35: \<open>itoa\<close> writes the decimal text of every \<open>int\<close>, the smallest included, and its terminator into
  the end of its 12 byte array and returns where the text starts; read back, the text gives the
  number, so different numbers have different texts.\<close>

theorem itoa_writes_decimal:
  assumes "- 2147483648 \<le> i" "i < 2147483648"
  shows "\<exists>t. itoa m text i = (write_bytes m (text + of_nat (11 - length t)) (t @ [0]), text + of_nat (11 - length t)) \<and>
    0 < length t \<and> length t \<le> 11 \<and> text_value t = i"
  using itoa_result [OF assms, of m "text"] int_text_length [OF assms] int_text_value [of i] by blast

lemma itoa_writes_decimal_witness:
  "\<exists>t. itoa (\<lambda>a. 7) 100 (- 42) = (write_bytes (\<lambda>a. 7) (100 + of_nat (11 - length t)) (t @ [0]), 100 + of_nat (11 - length t)) \<and> text_value t = - 42"
  using itoa_writes_decimal [of "- 42" "\<lambda>a. 7" 100] by auto

end
