(* ===== verification/Process.thy ===== *)
theory Process
  imports ELF Itoa
begin

text \<open>
  \<open>src/task/process.c\<close>: the table of processes, their allocations, command arguments, loading a
  program into a new process, switching between processes, and their end.  A
  \<open>struct command_argument\<close> is 512 bytes of text followed by the address of the next one, as bytes
  of memory, since programs hand them to the kernel.
\<close>

section \<open>The table of processes\<close>

definition process_init :: "'a kstate_scheme \<Rightarrow> addr \<Rightarrow> 'a kstate_scheme" where
  "process_init s process = s\<lparr>km_ram := memset (km_ram s) process 0 5284,
     process_at := (process_at s)(process \<mapsto> zero_process)\<rparr>"

definition process_mark_running :: "'a kstate_scheme \<Rightarrow> bool \<Rightarrow> 'a kstate_scheme" where
  "process_mark_running s running = s\<lparr>process_is_running := running\<rparr>"

definition process_get_free_slot :: "'a kstate_scheme \<Rightarrow> int" where
  "process_get_free_slot s = (case first_free (processes s) 0 of None \<Rightarrow> - 1 | Some i \<Rightarrow> int i)"

definition process_get :: "'a kstate_scheme \<Rightarrow> int \<Rightarrow> addr" where
  "process_get s index = (if index < 0 \<or> index \<ge> 12 then 0 else processes s ! nat index)"

fun first_other :: "addr list \<Rightarrow> addr \<Rightarrow> addr" where
  "first_other [] process = 0"
| "first_other (p # ps) process = (if p \<noteq> 0 \<and> p \<noteq> process then p else first_other ps process)"

definition process_get_first_ignore :: "'a kstate_scheme \<Rightarrow> addr \<Rightarrow> addr" where
  "process_get_first_ignore s process = first_other (processes s) process"

section \<open>Command arguments\<close>

definition argument_next :: "ram \<Rightarrow> addr \<Rightarrow> addr" where
  "argument_next m p = load32 m (p + 512)"

partial_function (option) count_arguments_loop :: "ram \<Rightarrow> addr \<Rightarrow> nat \<Rightarrow> nat option" where
  "count_arguments_loop m current i =
     (if current = 0 then Some i else count_arguments_loop m (argument_next m current) (Suc i))"

definition process_count_command_arguments :: "'a kstate_scheme \<Rightarrow> addr \<Rightarrow> nat outcome" where
  "process_count_command_arguments s argument = returns (count_arguments_loop (km_ram s) argument 0)"

definition process_argument_create_one :: "'a kstate_scheme \<Rightarrow> (addr \<times> 'a kstate_scheme) outcome" where
  "process_argument_create_one s = kzalloc s 516"

definition process_arguments_create :: "'a kstate_scheme \<Rightarrow> addr \<Rightarrow> (addr \<times> 'a kstate_scheme) outcome" where
  "process_arguments_create s starting_argument =
     bindE (process_argument_create_one s) (\<lambda>(argument, s).
     if argument = 0 then Inr (0, s)
     else Inr (argument, s\<lparr>km_ram := strncpy (km_ram s) argument starting_argument 512\<rparr>))"

partial_function (option) last_argument_loop :: "ram \<Rightarrow> addr \<Rightarrow> addr option" where
  "last_argument_loop m current =
     (if current = 0 then Some 0
      else if argument_next m current = 0 then Some current
      else last_argument_loop m (argument_next m current))"

definition process_arguments_get_last :: "'a kstate_scheme \<Rightarrow> addr \<Rightarrow> addr outcome" where
  "process_arguments_get_last s root_argument = returns (last_argument_loop (km_ram s) root_argument)"

definition process_arguments_add :: "'a kstate_scheme \<Rightarrow> addr \<Rightarrow> addr \<Rightarrow> (addr \<times> 'a kstate_scheme) outcome" where
  "process_arguments_add s arguments argument =
     bindE (process_arguments_get_last s arguments) (\<lambda>last_arg.
     bindE (process_argument_create_one s) (\<lambda>(new_argument, s).
     let m = store32 (km_ram s) (last_arg + 512) new_argument in
     Inr (new_argument, s\<lparr>km_ram := strncpy m new_argument argument 512\<rparr>)))"

definition process_argument_destory :: "'a kstate_scheme \<Rightarrow> addr \<Rightarrow> 'a kstate_scheme outcome" where
  "process_argument_destory s argument = kfree s argument"

partial_function (option) arguments_destroy_loop :: "'a kstate_scheme \<Rightarrow> addr \<Rightarrow> 'a kstate_scheme outcome option" where
  "arguments_destroy_loop s current =
     (if current = 0 then Some (Inr s)
      else case process_argument_destory s current of
        Inl e \<Rightarrow> Some (Inl e)
      | Inr s' \<Rightarrow> arguments_destroy_loop s' (argument_next (km_ram s) current))"

definition process_arguments_destory :: "'a kstate_scheme \<Rightarrow> addr \<Rightarrow> 'a kstate_scheme outcome" where
  "process_arguments_destory s root_argument = ran (arguments_destroy_loop s root_argument)"

definition process_get_arguments :: "process \<Rightarrow> int \<times> addr" where
  "process_get_arguments p = (pa_argc (p_arguments p), pa_argv (p_arguments p))"

section \<open>Memory of a process\<close>

text \<open>The index of a free entry of \<open>allocations\<close>.\<close>

definition process_get_free_heap_allocation_slot :: "process \<Rightarrow> nat option" where
  "process_get_free_heap_allocation_slot p = first_free (p_allocations p) 0"

definition process_paging_map_to ::
  "'a kstate_scheme \<Rightarrow> addr \<Rightarrow> addr \<Rightarrow> addr \<Rightarrow> addr \<Rightarrow> u32 \<Rightarrow> (int \<times> 'a kstate_scheme) outcome" where
  "process_paging_map_to s process virt phys phys_end flags =
     bindE (deref (process_at s) process) (\<lambda>p.
     bindE (task_directory s (p_task p)) (\<lambda>d.
     bindE (paging_map_to (km_ram s) d virt phys phys_end flags) (\<lambda>(res, m).
     Inr (res, s\<lparr>km_ram := m\<rparr>))))"

definition process_malloc :: "'a kstate_scheme \<Rightarrow> addr \<Rightarrow> int \<Rightarrow> (addr \<times> 'a kstate_scheme) outcome" where
  "process_malloc s process sz =
     bindE (assert_kernel_page ''process_malloc'' s) (\<lambda>_.
     bindE (deref (process_at s) process) (\<lambda>p.
     case process_get_free_heap_allocation_slot p of
       None \<Rightarrow> Inr (0, s)
     | Some allocation_slot \<Rightarrow>
         bindE (kmalloc s sz) (\<lambda>(ptr, s).
         if ptr = 0 then Inr (0, s)
         else
           bindE (upd_process process (\<lambda>p. p\<lparr>p_allocations := (p_allocations p)[allocation_slot := ptr]\<rparr>) s) (\<lambda>s.
           bindE (process_paging_map_to s process ptr ptr (paging_align_address (ptr + word_of_int sz))
                    (PAGING_ACCESS_FROM_ALL OR PAGING_CACHE_DISABLED OR PAGING_PAGE_WRITEABLE OR PAGING_PAGE_PRESENT)) (\<lambda>(res, s).
           if res < 0 then panic ''Mapping of process memory failed'' else Inr (ptr, s))))))"

text \<open>\<open>task_malloc\<close> of \<open>task.c\<close> and the font routine that allocates for a process.\<close>

definition task_malloc :: "'a kstate_scheme \<Rightarrow> addr \<Rightarrow> int \<Rightarrow> (addr \<times> 'a kstate_scheme) outcome" where
  "task_malloc s task sz = bindE (deref (tasks s) task) (\<lambda>t. process_malloc s (tk_process t) sz)"

definition video_font_make_empty_string_for_process ::
  "'a kstate_scheme \<Rightarrow> addr \<Rightarrow> addr \<Rightarrow> int \<Rightarrow> (addr \<times> 'a kstate_scheme) outcome" where
  "video_font_make_empty_string_for_process s process font len =
     bindE (deref (fonts s) font) (\<lambda>f. process_malloc s process (vf_bytes f * len))"

fun free_allocations_loop :: "'a kstate_scheme \<Rightarrow> addr list \<Rightarrow> 'a kstate_scheme outcome" where
  "free_allocations_loop s [] = Inr s"
| "free_allocations_loop s (p # ps) =
     (if p \<noteq> 0 then bindE (kfree s p) (\<lambda>s. free_allocations_loop s ps) else free_allocations_loop s ps)"

definition process_free_allocations :: "'a kstate_scheme \<Rightarrow> addr \<Rightarrow> 'a kstate_scheme outcome" where
  "process_free_allocations s process =
     bindE (deref (process_at s) process) (\<lambda>p. free_allocations_loop s (p_allocations p))"

text \<open>The arguments copied into the process; \<open>i\<close> is the index in \<open>argv\<close>.\<close>

definition inject_step ::
  "'a kstate_scheme \<Rightarrow> addr \<Rightarrow> addr \<Rightarrow> addr \<Rightarrow> nat \<Rightarrow> (int \<times> 'a kstate_scheme) outcome" where
  "inject_step s process argv current i =
     bindE (process_malloc s process 512) (\<lambda>(argument_str, s).
     if argument_str = 0 then Inr (- ENOMEM, s)
     else
       let m = strncpy (km_ram s) argument_str current 512 in
       Inr (0, s\<lparr>km_ram := store32 m (argv + 4 * of_nat i) argument_str\<rparr>))"

partial_function (option) inject_loop ::
  "'a kstate_scheme \<Rightarrow> addr \<Rightarrow> addr \<Rightarrow> addr \<Rightarrow> nat \<Rightarrow> (int \<times> 'a kstate_scheme) outcome option" where
  "inject_loop s process argv current i =
     (if current = 0 then Some (Inr (0, s))
      else case inject_step s process argv current i of
        Inl e \<Rightarrow> Some (Inl e)
      | Inr (res, s') \<Rightarrow>
          if res < 0 then Some (Inr (res, s'))
          else inject_loop s' process argv (argument_next (km_ram s') current) (Suc i))"

definition process_inject_arguments :: "'a kstate_scheme \<Rightarrow> addr \<Rightarrow> addr \<Rightarrow> (int \<times> 'a kstate_scheme) outcome" where
  "process_inject_arguments s process root_argument =
     bindE (process_count_command_arguments s root_argument) (\<lambda>argc.
     if argc = 0 then Inr (- EIO, s)
     else
       bindE (process_malloc s process (4 * int argc)) (\<lambda>(argv, s).
       if argv = 0 then Inr (- ENOMEM, s)
       else
         bindE (ran (inject_loop s process argv root_argument 0)) (\<lambda>(res, s).
         if res < 0 then Inr (res, s)
         else
           bindE (upd_process process (\<lambda>p. p\<lparr>p_arguments := \<lparr>pa_argc = int argc, pa_argv = argv\<rparr>\<rparr>) s) (\<lambda>s.
           Inr (res, s)))))"

section \<open>Switching between processes\<close>

definition process_save :: "'a kstate_scheme \<Rightarrow> addr \<Rightarrow> 'a kstate_scheme outcome" where
  "process_save s process = bindE (deref (process_at s) process) (\<lambda>p. video_save s (p_video p))"

definition process_restore :: "'a kstate_scheme \<Rightarrow> addr \<Rightarrow> 'a kstate_scheme outcome" where
  "process_restore s process =
     bindE (if current_process s \<noteq> 0
            then bindE (deref (process_at s) (current_process s)) (\<lambda>c.
                 bindE (task_map_video_memory s (p_task c)) (\<lambda>(_, s). Inr s))
            else Inr s) (\<lambda>s.
     let s = s\<lparr>current_process := process, process_is_running := True\<rparr> in
     bindE (deref (process_at s) process) (\<lambda>p.
     bindE (task_unmap_video_memory s (p_task p)) (\<lambda>(_, s).
     video_restore s (p_video p))))"

definition process_switch :: "'a kstate_scheme \<Rightarrow> addr \<Rightarrow> (int \<times> 'a kstate_scheme) outcome" where
  "process_switch s process =
     bindE (if current_process s \<noteq> 0 then process_save s (current_process s) else Inr s) (\<lambda>s.
     bindE (process_restore s process) (\<lambda>s. Inr (0, s)))"

definition process_start :: "'a kstate_scheme \<Rightarrow> addr \<Rightarrow> (int \<times> 'a kstate_scheme) outcome" where
  "process_start s process =
     bindE (deref (process_at s) process) (\<lambda>p.
     if p_started p then Inr (- EIO, s)
     else
       bindE (upd_process process (\<lambda>p. p\<lparr>p_started := True\<rparr>) s) (\<lambda>s.
       bindE (process_switch s process) (\<lambda>(_, s). Inr (0, s))))"

definition process_wake :: "'a kstate_scheme \<Rightarrow> addr \<Rightarrow> 'a kstate_scheme outcome" where
  "process_wake s process =
     bindE (upd_process process (\<lambda>p. p\<lparr>p_awake := True\<rparr>) s) (\<lambda>s.
     bindE (deref (process_at s) process) (\<lambda>p. task_wake s (p_task p)))"

definition process_pause :: "'a kstate_scheme \<Rightarrow> addr \<Rightarrow> 'a kstate_scheme outcome" where
  "process_pause s process =
     bindE (upd_process process (\<lambda>p. p\<lparr>p_awake := False\<rparr>) s) (\<lambda>s.
     bindE (deref (process_at s) process) (\<lambda>p. task_pause s (p_task p)))"

section \<open>Loading a program\<close>

definition process_load_binary_data ::
  "'a kstate_scheme fs_table \<Rightarrow> 'a kstate_scheme \<Rightarrow> addr \<Rightarrow> addr \<Rightarrow> (int \<times> 'a kstate_scheme) outcome" where
  "process_load_binary_data fs_lookup s filename process =
     bindE (fopen fs_lookup s filename (lit ''r'')) (\<lambda>(fd, s).
     if fd = 0 then Inr (- EIO, s)
     else
       bindE (fstat fs_lookup s fd) (\<lambda>(res, stat).
       if res \<noteq> COS32_ALL_OK then Inr (res, s)
       else
         let filesize = (case stat of None \<Rightarrow> 0 | Some st \<Rightarrow> st_filesize st) in
         bindE (kzalloc s (sint filesize)) (\<lambda>(program_data_ptr, s).
         if program_data_ptr = 0 then Inr (- ENOMEM, s)
         else
           bindE (fread fs_lookup s program_data_ptr filesize 1 fd) (\<lambda>(n, s).
           if n \<noteq> 1 then Inr (- EIO, s)
           else
             bindE (upd_process process (\<lambda>p. p\<lparr>p_filetype := FILE_TYPE_BINARY, p_ptr := program_data_ptr,
                      p_size := filesize\<rparr>) s) (\<lambda>s.
             bindE (fclose fs_lookup s fd) (\<lambda>(_, s). Inr (res, s)))))))"

text \<open>\<open>depth\<close> bounds the nesting of libraries, as in \<open>elf_load\<close>.\<close>

definition process_load_elf ::
  "image \<Rightarrow> 'a kstate_scheme fs_table \<Rightarrow> nat \<Rightarrow> 'a kstate_scheme \<Rightarrow> addr \<Rightarrow> addr \<Rightarrow> (int \<times> 'a kstate_scheme) outcome" where
  "process_load_elf im fs_lookup depth s filename process =
     bindE (elf_load im fs_lookup depth s filename) (\<lambda>(res, elf_file, s).
     bindE (if ISERR res then Inr (res, s)
            else
              bindE (deref (elf_files s) elf_file) (\<lambda>f.
              if \<not> elf_is_executable (km_ram s) (elf_header f) then Inr (- EINVARG, s)
              else
                bindE (upd_process process (\<lambda>p. p\<lparr>p_filetype := FILE_TYPE_ELF, p_ptr := elf_file\<rparr>) s) (\<lambda>s.
                Inr (res, s)))) (\<lambda>(res, s).
     if ISERR res then bindE (elf_close s elf_file) (\<lambda>(_, s). Inr (res, s)) else Inr (res, s)))"

definition process_load_data ::
  "image \<Rightarrow> 'a kstate_scheme fs_table \<Rightarrow> nat \<Rightarrow> 'a kstate_scheme \<Rightarrow> addr \<Rightarrow> addr \<Rightarrow> (int \<times> 'a kstate_scheme) outcome" where
  "process_load_data im fs_lookup depth s filename process =
     bindE (process_load_elf im fs_lookup depth s filename process) (\<lambda>(res, s).
     if res = - EINFORMAT then process_load_binary_data fs_lookup s filename process else Inr (res, s))"

definition process_map_binary :: "'a kstate_scheme \<Rightarrow> addr \<Rightarrow> (int \<times> 'a kstate_scheme) outcome" where
  "process_map_binary s process =
     bindE (deref (process_at s) process) (\<lambda>p.
     if p_filetype p \<noteq> FILE_TYPE_BINARY then Inr (- EINVARG, s)
     else
       bindE (task_directory s (p_task p)) (\<lambda>d.
       bindE (paging_map_to (km_ram s) d COS32_PROGRAM_VIRTUAL_ADDRESS (p_ptr p)
                (paging_align_address (p_ptr p + p_size p))
                (PAGING_PAGE_PRESENT OR PAGING_ACCESS_FROM_ALL OR PAGING_PAGE_WRITEABLE)) (\<lambda>(r, m).
       bindE (ASSERT ''process_map_binary'' (r = 0)) (\<lambda>_. Inr (0, s\<lparr>km_ram := m\<rparr>)))))"

text \<open>One program header of \<open>process_map_elf\<close>.\<close>

definition map_phdr :: "'a kstate_scheme \<Rightarrow> addr \<Rightarrow> elf_file \<Rightarrow> addr \<Rightarrow> (int \<times> 'a kstate_scheme) outcome" where
  "map_phdr s process f phdr =
     (let m = km_ram s;
          phdr_data_address = elf_phdr_data_address m f phdr;
          flags = PAGING_PAGE_PRESENT OR PAGING_ACCESS_FROM_ALL;
          flags = (if ph_flags m phdr AND 2 \<noteq> 0 then flags OR PAGING_PAGE_WRITEABLE else flags)
      in bindE (deref (process_at s) process) (\<lambda>p.
         bindE (task_directory s (p_task p)) (\<lambda>d.
         bindE (paging_map_to m d (paging_align_to_lower_page (p_vaddr m phdr))
                  (paging_align_to_lower_page phdr_data_address)
                  (paging_align_address (phdr_data_address + p_filesz m phdr)) flags) (\<lambda>(r, m).
         bindE (ASSERT ''process_map_elf'' (r = 0)) (\<lambda>_. Inr (0, s\<lparr>km_ram := m\<rparr>))))))"

definition process_map_elf :: "'a kstate_scheme \<Rightarrow> addr \<Rightarrow> (int \<times> 'a kstate_scheme) outcome" where
  "process_map_elf s process =
     bindE (deref (process_at s) process) (\<lambda>p.
     if p_filetype p \<noteq> FILE_TYPE_ELF then Inr (- EINVARG, s)
     else
       bindE (deref (elf_files s) (p_ptr p)) (\<lambda>f.
       let header = elf_header f; phdrs = elf_pheader (km_ram s) header in
       counted_loop (\<lambda>m. e_phnum m header) (\<lambda>s i. map_phdr s process f (phdrs + 32 * of_nat i)) s 0 65536 0))"

definition process_map_memory :: "'a kstate_scheme \<Rightarrow> addr \<Rightarrow> (int \<times> 'a kstate_scheme) outcome" where
  "process_map_memory s process =
     bindE (deref (process_at s) process) (\<lambda>p.
     bindE (case p_filetype p of
              FILE_TYPE_BINARY \<Rightarrow> process_map_binary s process
            | FILE_TYPE_ELF \<Rightarrow> process_map_elf s process) (\<lambda>(res, s).
     if ISERR res then Inr (res, s)
     else
       bindE (task_directory s (p_task p)) (\<lambda>d.
       bindE (paging_map_to (km_ram s) d (COS32_PROGRAM_VIRTUAL_STACK_ADDRESS_START - 1024 * 16) (p_stack p)
                (paging_align_address (p_stack p + 1024 * 16))
                (PAGING_ACCESS_FROM_ALL OR PAGING_PAGE_PRESENT OR PAGING_PAGE_WRITEABLE)) (\<lambda>(r, m).
       bindE (ASSERT ''process_map_memory'' (r = 0)) (\<lambda>_.
       bindE (library_map_all (s\<lparr>km_ram := m\<rparr>) (p_task p)) (\<lambda>(_, s). Inr (res, s)))))))"

definition process_get_video :: "'a kstate_scheme \<Rightarrow> byte \<Rightarrow> addr \<Rightarrow> (addr \<times> 'a kstate_scheme) outcome" where
  "process_get_video s flags parent =
     (if flags AND 1 \<noteq> 0
      then bindE (deref (process_at s) parent) (\<lambda>p. Inr (p_video p, s))
      else video_new s)"

text \<open>
  \<open>process_load_for_slot\<close> from the data on to the label \<open>out\<close>, for the new process at \<open>process\<close>:
  the result, what \<open>*process\<close> is set to (0 when it is not) and the state.
\<close>

definition load_into ::
  "image \<Rightarrow> 'a kstate_scheme fs_table \<Rightarrow> nat \<Rightarrow> 'a kstate_scheme \<Rightarrow> addr \<Rightarrow> addr \<Rightarrow> int \<Rightarrow> addr \<Rightarrow> byte
   \<Rightarrow> (int \<times> addr \<times> 'a kstate_scheme) outcome" where
  "load_into im fs_lookup depth s filename process process_slot parent flags =
     bindE (process_load_data im fs_lookup depth (process_init s process) filename process) (\<lambda>(res, s).
     if res < 0 then Inr (res, 0, s)
     else
       bindE (kzalloc s (1024 * 16)) (\<lambda>(program_stack_ptr, s).
       if program_stack_ptr = 0 then Inr (- ENOMEM, 0, s)
       else
         bindE (upd_process process (\<lambda>p. p\<lparr>p_parent := parent, p_flags := flags, p_stack := program_stack_ptr\<rparr>)
                  (s\<lparr>km_ram := strncpy (km_ram s) (process + 1) filename 108\<rparr>)) (\<lambda>s.
         bindE (process_get_video s flags parent) (\<lambda>(video, s).
         bindE (upd_process process (\<lambda>p. p\<lparr>p_video := video\<rparr>) s) (\<lambda>s.
         if video = 0 then Inr (- ENOMEM, 0, s)
         else
           bindE (video_rectangle_register_default_rectangles s video) (\<lambda>s.
           bindE (task_new s process) (\<lambda>(task, s).
           if ERROR_I task \<le> 0 then Inr (ERROR_I task, 0, s)
           else
             bindE (upd_process process (\<lambda>p. p\<lparr>p_task := task\<rparr>) s) (\<lambda>s.
             bindE (process_map_memory s process) (\<lambda>(res, s).
             if res < 0 then Inr (res, 0, s)
             else
               bindE (upd_process process (\<lambda>p. p\<lparr>p_id := word_of_int process_slot\<rparr>) s) (\<lambda>s.
               Inr (res, process, s\<lparr>processes := (processes s)[nat process_slot := process]\<rparr>)))))))))))"

text \<open>The second component is what \<open>*process\<close> is set to, 0 when it is not set.\<close>

definition process_load_for_slot ::
  "image \<Rightarrow> 'a kstate_scheme fs_table \<Rightarrow> nat \<Rightarrow> 'a kstate_scheme \<Rightarrow> addr \<Rightarrow> int \<Rightarrow> addr \<Rightarrow> byte
   \<Rightarrow> (int \<times> addr \<times> 'a kstate_scheme) outcome" where
  "process_load_for_slot im fs_lookup depth s filename process_slot parent flags =
     (if flags AND 1 \<noteq> 0 \<and> parent = 0 then Inr (- EINVARG, 0, s)
      else if process_get s process_slot \<noteq> 0 then Inr (- EISTKN, 0, s)
      else
        bindE (kzalloc s 5284) (\<lambda>(process, s).
        if process = 0 then Inr (- ENOMEM, 0, s)
        else
          bindE (load_into im fs_lookup depth s filename process process_slot parent flags) (\<lambda>(res, loaded, s).
          if ISERR res
          then
            bindE (deref (process_at s) process) (\<lambda>p.
            if p_task p \<noteq> 0 then bindE (task_free s (p_task p)) (\<lambda>(_, s). Inr (res, 0, s))
            else Inr (res, 0, s))
          else Inr (res, loaded, s))))"

definition process_load ::
  "image \<Rightarrow> 'a kstate_scheme fs_table \<Rightarrow> nat \<Rightarrow> 'a kstate_scheme \<Rightarrow> addr \<Rightarrow> addr \<Rightarrow> byte
   \<Rightarrow> (int \<times> addr \<times> 'a kstate_scheme) outcome" where
  "process_load im fs_lookup depth s filename parent flags =
     (let process_slot = process_get_free_slot s in
      if process_slot < 0 then Inr (- ENOMEM, 0, s)
      else process_load_for_slot im fs_lookup depth s filename process_slot parent flags)"

definition process_load_start ::
  "image \<Rightarrow> 'a kstate_scheme fs_table \<Rightarrow> nat \<Rightarrow> 'a kstate_scheme \<Rightarrow> addr \<Rightarrow> addr \<Rightarrow> byte \<Rightarrow> addr
   \<Rightarrow> (int \<times> 'a kstate_scheme) outcome" where
  "process_load_start im fs_lookup depth s path parent flags root_argument =
     bindE (process_load im fs_lookup depth s path parent flags) (\<lambda>(res, process, s).
     if ISERR res then Inr (res, s)
     else
       bindE (if root_argument \<noteq> 0 then process_inject_arguments s process root_argument else Inr (res, s)) (\<lambda>(res, s).
       if ISERR res then Inr (res, s) else process_start s process))"

definition process_run_for_argument ::
  "image \<Rightarrow> 'a kstate_scheme fs_table \<Rightarrow> nat \<Rightarrow> 'a kstate_scheme \<Rightarrow> addr \<Rightarrow> addr \<Rightarrow> byte \<Rightarrow> (int \<times> 'a kstate_scheme) outcome" where
  "process_run_for_argument im fs_lookup depth s root_argument parent flags =
     (if root_argument = 0 then Inr (- EINVARG, s)
      else
        let path = local_at im ''path'' depth;
            m = strncpy (km_ram s) path (literal_at im ''0:/'') 108;
            m = strncpy m (path + 3) root_argument 108 in
        process_load_start im fs_lookup depth (s\<lparr>km_ram := m\<rparr>) path parent flags root_argument)"

section \<open>The end of a process\<close>

definition process_get_first :: "'a kstate_scheme \<Rightarrow> addr" where
  "process_get_first s = process_get_first_ignore s 0"

definition process_free_binary_data :: "'a kstate_scheme \<Rightarrow> process \<Rightarrow> 'a kstate_scheme outcome" where
  "process_free_binary_data s p = kfree s (p_ptr p)"

text \<open>The call of \<open>elf_close\<close> is commented out in the source.\<close>

definition process_free_elf_data :: "'a kstate_scheme \<Rightarrow> process \<Rightarrow> 'a kstate_scheme outcome" where
  "process_free_elf_data s p = Inr s"

definition process_free_data :: "'a kstate_scheme \<Rightarrow> addr \<Rightarrow> 'a kstate_scheme outcome" where
  "process_free_data s process =
     bindE (deref (process_at s) process) (\<lambda>p.
     case p_filetype p of
       FILE_TYPE_BINARY \<Rightarrow> process_free_binary_data s p
     | FILE_TYPE_ELF \<Rightarrow> process_free_elf_data s p)"

text \<open>
  The loop of \<open>process_terminate_subprocesses\<close>, where \<open>free\<close> is the nested call of
  \<open>process_free\<close>.
\<close>

fun subprocesses_loop ::
  "('a kstate_scheme \<Rightarrow> addr \<Rightarrow> 'a kstate_scheme outcome) \<Rightarrow> 'a kstate_scheme \<Rightarrow> addr \<Rightarrow> nat \<Rightarrow> nat \<Rightarrow> 'a kstate_scheme outcome" where
  "subprocesses_loop free s process i 0 = Inr s"
| "subprocesses_loop free s process i (Suc k) =
     (let q = processes s ! i in
      bindE (if q = 0 then Inr s
             else bindE (deref (process_at s) q) (\<lambda>p. if p_parent p = process then free s q else Inr s)) (\<lambda>s.
      subprocesses_loop free s process (Suc i) k))"

definition process_terminate_subprocesses ::
  "('a kstate_scheme \<Rightarrow> addr \<Rightarrow> 'a kstate_scheme outcome) \<Rightarrow> 'a kstate_scheme \<Rightarrow> addr \<Rightarrow> 'a kstate_scheme outcome" where
  "process_terminate_subprocesses free s process = subprocesses_loop free s process 0 12"

text \<open>\<open>process_free\<close> after the choice of the next process.\<close>

definition free_rest ::
  "('a kstate_scheme \<Rightarrow> addr \<Rightarrow> 'a kstate_scheme outcome) \<Rightarrow> 'a kstate_scheme \<Rightarrow> addr \<Rightarrow> 'a kstate_scheme outcome" where
  "free_rest free s process =
     bindE (process_terminate_subprocesses free s process) (\<lambda>s.
     bindE (process_free_allocations s process) (\<lambda>s.
     bindE (deref (process_at s) process) (\<lambda>p.
     bindE (task_free s (p_task p)) (\<lambda>(_, s).
     bindE (process_free_data s process) (\<lambda>s.
     bindE (if p_flags p AND 1 = 0 then video_free s (p_video p) else Inr s) (\<lambda>s.
     bindE (if p_flags p AND 2 \<noteq> 0 then process_wake s (p_parent p) else Inr s) (\<lambda>s.
     bindE (kfree s process) (\<lambda>s.
     bindE (deref (process_at s) process) (\<lambda>p.
     Inr (s\<lparr>processes := (processes s)[unat (p_id p) := 0]\<rparr>))))))))))"

text \<open>The first argument bounds the nesting of subprocesses.\<close>

fun process_free :: "nat \<Rightarrow> 'a kstate_scheme \<Rightarrow> addr \<Rightarrow> 'a kstate_scheme outcome" where
  "process_free 0 s process = Inl NoReturn"
| "process_free (Suc n) s process =
     (let next_process = process_get_first_ignore s process in
      if next_process = 0 then panic ''No more processes available to switch to''
      else
        bindE (if current_process s = process
               then bindE (process_switch s next_process) (\<lambda>(_, s). Inr s) else Inr s) (\<lambda>s.
        free_rest (process_free n) s process))"

definition process_terminate :: "nat \<Rightarrow> 'a kstate_scheme \<Rightarrow> addr \<Rightarrow> int \<Rightarrow> (int \<times> 'a kstate_scheme) outcome" where
  "process_terminate n s process error_code = bindE (process_free n s process) (\<lambda>s. Inr (0, s))"

definition process_crash ::
  "image \<Rightarrow> 'a kstate_scheme fs_table \<Rightarrow> nat \<Rightarrow> 'a kstate_scheme \<Rightarrow> addr \<Rightarrow> int \<Rightarrow> (int \<times> 'a kstate_scheme) outcome" where
  "process_crash im fs_lookup depth s process error_code =
     (let filename = local_at im ''filename'' depth; error_code_str = local_at im ''error_code_str'' depth;
          death_ip_str = local_at im ''death_ip_str'' depth; text = local_at im ''itoa.text'' 0;
          crash_e = literal_at im ''0:/bin/crash.e'';
          m = strncpy (km_ram s) filename (process + 1) 108;
          m = memset m error_code_str 0 10;
          (m, p) = itoa m text error_code;
          m = strncpy m error_code_str p 10
      in bindE (deref (process_at s) process) (\<lambda>pr.
         bindE (deref (tasks s) (p_task pr)) (\<lambda>t.
         let (m, p) = itoa m text (sint (r_ip (tk_registers t)));
             m = strncpy m death_ip_str p 20 in
         bindE (process_terminate depth (s\<lparr>km_ram := m\<rparr>) process error_code) (\<lambda>(res, s).
         if res < 0 then Inr (res, s)
         else
           bindE (process_arguments_create s crash_e) (\<lambda>(root_argument, s).
           if root_argument = 0 then Inr (res, s)
           else
             bindE (process_arguments_add s root_argument filename) (\<lambda>(_, s).
             bindE (process_arguments_add s root_argument error_code_str) (\<lambda>(_, s).
             bindE (process_arguments_add s root_argument death_ip_str) (\<lambda>(_, s).
             bindE (process_load_start im fs_lookup depth s crash_e 0 0 root_argument) (\<lambda>(_, s).
             bindE (process_arguments_destory s root_argument) (\<lambda>s.
             Inr (res, s)))))))))))"

section \<open>Memory of a process is mapped and given back\<close>

lemma kmem_live_pages:
  assumes "kmem_ok s" "(p, n) \<in> kmem_live s"
  obtains q a where "unat p = 4096 * q" "n = 4096 * a" "q + a < 2 ^ 20"
proof -
  have wf: "heap_wf (km_heap s)" using assms(1) by (simp add: kmem_ok_def)
  obtain j k where jk: "j + k \<le> length (ht_entries (h_table (km_heap s)))" "p = heap_block_to_address (km_heap s) (int j)" "n = 4096 * k"
    using assms(2) heap_live_cases [OF wf] unfolding kmem_live_def by metis
  obtain b where b: "unat (h_saddr (km_heap s)) = 4096 * b"
    using wf by (auto simp: heap_wf_def aligned_iff_nat)
  have "unat p = 4096 * (b + j)" using jk(1,2) b unat_block_address [OF wf, of j] by simp
  moreover have "b + j + k < 2 ^ 20" using heap_wf_bounds(1) [OF wf jk(1)] b by simp
  ultimately show ?thesis using jk(3) by (intro that)
qed

lemma page_end_of:
  assumes "unat p = 4096 * q" "n \<le> 4096 * a" "q + a < 2 ^ 20"
  shows "paging_align_address (p + of_nat n) = p + of_nat (4096 * ((n + 4095) div 4096))"
proof -
  let ?k = "(n + 4095) div 4096"
  have k: "?k \<le> a" using assms(2) div_le_mono [of "n + 4095" "4096 * a + 4095" 4096] div_4096_of [of 4095 a]
    by (simp add: mult.commute)
  have u: "unat (p + of_nat j) = 4096 * q + j" if "j \<le> 4096 * a" for j
  proof -
    have "unat (of_nat j :: u32) = j" using that assms(3) by (intro unat_of_nat_small) simp
    then show ?thesis using that assms by (subst unat_add_lem [THEN iffD1]) simp_all
  qed
  have "unat (paging_align_address (p + of_nat n)) = (4096 * q + n + 4095) div 4096 * 4096"
    unfolding align_address_eq_upper using assms u [of n] by (subst unat_upper_page) simp_all
  also have "(4096 * q + n + 4095) div 4096 = q + ?k"
    using div_mult_self4 [of 4096 q "n + 4095"] by (simp add: add.assoc)
  also have "(q + ?k) * 4096 = unat (p + of_nat (4096 * ?k))"
    using u [of "4096 * ?k"] k by simp
  finally show ?thesis by (simp only: word_unat_eq_iff)
qed

lemma process_malloc_step:
  assumes k: "is_kernel_page s = Inr True"
    and p: "process_at s pr = Some p" "tasks s (p_task p) = Some t" "chunks s (tk_page_directory t) = Some c"
    and d: "pagedir_ok (km_ram s) (directory_entry c)" and h: "kmem_ok s"
    and slot: "process_get_free_heap_allocation_slot p = Some i"
    and m: "kmalloc s sz = Inr (ptr, s1)" "ptr \<noteq> 0" "0 < sz" "sz < 2 ^ 31"
  shows "\<exists>s' n. process_malloc s pr sz = Inr (ptr, s') \<and> kmem_ok s' \<and> nat sz \<le> n \<and>
    kmem_live s' = insert (ptr, n) (kmem_live s) \<and>
    process_at s' pr = Some (p\<lparr>p_allocations := (p_allocations p)[i := ptr]\<rparr>) \<and>
    (\<forall>k. 4096 * k < nat sz \<longrightarrow> paging_get (km_ram s') (directory_entry c) (ptr + of_nat (4096 * k)) =
       Inr ((ptr + of_nat (4096 * k)) OR 0x17)) \<and>
    (\<forall>w. w mod 4096 = 0 \<longrightarrow> w \<notin> region ptr n \<longrightarrow>
       paging_get (km_ram s') (directory_entry c) w = paging_get (km_ram s) (directory_entry c) w) \<and>
    pagedir_ok (km_ram s') (directory_entry c) \<and>
    (\<exists>h m. heap_malloc (km_heap s) (word_of_int sz) = Inr (ptr, h) \<and> s' = s\<lparr>km_heap := h,
       process_at := (process_at s)(pr \<mapsto> p\<lparr>p_allocations := (p_allocations p)[i := ptr]\<rparr>), km_ram := m\<rparr>)"
proof -
  define w :: u32 where "w = word_of_int sz"
  have w: "sint w = sz" "unat w = nat sz" "w = of_nat (nat sz)"
    using m(3,4) by (simp_all add: w_def sint_word_of_int_u32 unat_eq_nat_uint uint_word_of_int_u32)
  have a: "kmalloc s (sint w) = Inr (ptr, s1)" using m(1) w by simp
  obtain n where n: "nat sz \<le> n" "kmem_live s1 = insert (ptr, n) (kmem_live s)"
    using kernel_memory.alloc_live [OF h a m(2)] w by auto
  have h1: "kmem_ok s1" by (rule kernel_memory.alloc_ok [OF h a])
  obtain q b where q: "unat ptr = 4096 * q" "n = 4096 * b" "q + b < 2 ^ 20"
    using kmem_live_pages [OF h1, of ptr n] n(2) by auto
  let ?k = "(nat sz + 4095) div 4096"
  have kb: "?k \<le> b" using n(1) q(2) div_le_mono [of "nat sz + 4095" "4096 * b + 4095" 4096] div_4096_of [of 4095 b]
    by (simp add: mult.commute)
  have al: "paging_align_address (ptr + word_of_int sz) = ptr + of_nat (4096 * ?k)"
    using page_end_of [OF q(1) _ q(3), of "nat sz"] n(1) q(2) w(3) w_def by simp
  obtain hp where s1: "s1 = s\<lparr>km_heap := hp\<rparr>" and hp: "heap_malloc (km_heap s) (word_of_int sz) = Inr (ptr, hp)"
    using m(1) by (auto simp: kmalloc_Inr_iff)
  let ?p = "p\<lparr>p_allocations := (p_allocations p)[i := ptr]\<rparr>"
  let ?s2 = "s1\<lparr>process_at := (process_at s1)(pr \<mapsto> ?p)\<rparr>"
  have d2: "pagedir_ok (km_ram ?s2) (directory_entry c)" using d s1 by simp
  have pa: "ptr mod 4096 = 0" using q(1) by (simp add: aligned_nat)
  have kp: "0 < ?k" "unat ptr + 4096 * ?k < 2 ^ 32" using m(3) q kb by simp_all
  obtain m' where mp: "paging_map_to (km_ram ?s2) (directory_entry c) ptr ptr (ptr + of_nat (4096 * ?k)) 0x17 = Inr (0, m')"
    "pagedir_ok m' (directory_entry c)"
    "\<forall>k<?k. paging_get m' (directory_entry c) (ptr + of_nat (4096 * k)) = Inr ((ptr + of_nat (4096 * k)) OR 0x17)"
    "\<forall>w. w mod 4096 = 0 \<longrightarrow> (\<forall>k<?k. w \<noteq> ptr + of_nat (4096 * k)) \<longrightarrow>
       paging_get m' (directory_entry c) w = paging_get (km_ram ?s2) (directory_entry c) w"
    by (rule paging_map_to_result [OF d2 pa pa kp, of "0x17"])
  let ?s3 = "?s2\<lparr>km_ram := m'\<rparr>"
  have f: "PAGING_ACCESS_FROM_ALL OR PAGING_CACHE_DISABLED OR PAGING_PAGE_WRITEABLE OR PAGING_PAGE_PRESENT = (0x17 :: u32)" by simp
  have dp: "deref (process_at ?s2) pr = Inr ?p" "deref (tasks ?s2) (p_task ?p) = Inr t"
    "deref (chunks ?s2) (tk_page_directory t) = Inr c" "deref (process_at s) pr = Inr p"
    using p s1 by (simp_all add: deref_Some)
  have map: "process_paging_map_to ?s2 pr ptr ptr (paging_align_address (ptr + word_of_int sz)) 0x17 = Inr (0, ?s3)"
    unfolding process_paging_map_to_def task_directory_def al by (simp only: dp bindE.simps mp(1) prod.case)
  have u: "upd_process pr (\<lambda>p. p\<lparr>p_allocations := (p_allocations p)[i := ptr]\<rparr>) s1 = Inr ?s2"
    using p(1) s1 by (simp add: upd_process_def deref_Some)
  have "process_malloc s pr sz = Inr (ptr, ?s3)"
    unfolding process_malloc_def assert_kernel_page_def f
    by (simp only: k dp(4) bindE.simps ASSERT_True slot option.case m(1,2) prod.case if_False u map) simp
  moreover have "kmem_ok ?s3" "kmem_live ?s3 = insert (ptr, n) (kmem_live s)"
    using h1 n(2) by (simp_all add: kmem_ok_def kmem_live_def)
  moreover have "\<forall>k. 4096 * k < nat sz \<longrightarrow> paging_get (km_ram ?s3) (directory_entry c) (ptr + of_nat (4096 * k)) =
      Inr ((ptr + of_nat (4096 * k)) OR 0x17)"
  proof (intro allI impI)
    fix k assume "4096 * k < nat sz"
    then have "k < ?k" by (simp add: less_eq_div_iff_mult_less_eq Suc_le_eq [symmetric])
    then show "paging_get (km_ram ?s3) (directory_entry c) (ptr + of_nat (4096 * k)) = Inr ((ptr + of_nat (4096 * k)) OR 0x17)"
      using mp(3) by simp
  qed
  moreover have "\<forall>w. w mod 4096 = 0 \<longrightarrow> w \<notin> region ptr n \<longrightarrow>
       paging_get (km_ram ?s3) (directory_entry c) w = paging_get (km_ram s) (directory_entry c) w"
  proof (intro allI impI)
    fix w :: addr assume al: "w mod 4096 = 0" and out: "w \<notin> region ptr n"
    have "w \<noteq> ptr + of_nat (4096 * k)" if "k < ?k" for k
    proof -
      have "4096 * k < n" using that kb q(2) by simp
      then show ?thesis using out by (auto simp: mem_region)
    qed
    then show "paging_get (km_ram ?s3) (directory_entry c) w = paging_get (km_ram s) (directory_entry c) w"
      using mp(4) al s1 by simp
  qed
  moreover have "\<exists>h m. heap_malloc (km_heap s) (word_of_int sz) = Inr (ptr, h) \<and> ?s3 = s\<lparr>km_heap := h,
       process_at := (process_at s)(pr \<mapsto> ?p), km_ram := m\<rparr>"
    using hp s1 by (intro exI [of _ hp] exI [of _ m']) simp
  moreover have "pagedir_ok (km_ram ?s3) (directory_entry c)" using mp(2) by simp
  moreover have "process_at ?s3 pr = Some ?p" by simp
  ultimately show ?thesis using n(1) by blast
qed

lemma process_malloc_result:
  assumes k: "is_kernel_page s = Inr True"
    and p: "process_at s pr = Some p" "tasks s (p_task p) = Some t" "chunks s (tk_page_directory t) = Some c"
    and d: "pagedir_ok (km_ram s) (directory_entry c)" and h: "kmem_ok s"
    and slot: "process_get_free_heap_allocation_slot p = Some i"
    and m: "kmalloc s sz = Inr (ptr, s1)" "ptr \<noteq> 0" "0 < sz" "sz < 2 ^ 31"
  shows "\<exists>s' n. process_malloc s pr sz = Inr (ptr, s') \<and> kmem_ok s' \<and> nat sz \<le> n \<and>
    kmem_live s' = insert (ptr, n) (kmem_live s) \<and>
    process_at s' pr = Some (p\<lparr>p_allocations := (p_allocations p)[i := ptr]\<rparr>) \<and>
    (\<forall>k. 4096 * k < nat sz \<longrightarrow> paging_get (km_ram s') (directory_entry c) (ptr + of_nat (4096 * k)) =
       Inr ((ptr + of_nat (4096 * k)) OR 0x17)) \<and>
    (\<forall>w. w mod 4096 = 0 \<longrightarrow> w \<notin> region ptr n \<longrightarrow>
       paging_get (km_ram s') (directory_entry c) w = paging_get (km_ram s) (directory_entry c) w)"
  using process_malloc_step [OF assms] by blast

text \<open>C18: \<open>process_malloc\<close> hands out a new allocation of the kernel heap, enters it in the process's
  table of allocations, and maps each of its pages to itself in the directory of the process's task,
  open to the program; no page outside the allocation changes.\<close>

theorem process_malloc_maps:
  assumes "is_kernel_page s = Inr True"
    and "process_at s pr = Some p" "tasks s (p_task p) = Some t" "chunks s (tk_page_directory t) = Some c"
    and "pagedir_ok (km_ram s) (directory_entry c)" "kmem_ok s"
    and "process_get_free_heap_allocation_slot p = Some i"
    and "kmalloc s sz = Inr (ptr, s1)" "ptr \<noteq> 0" "0 < sz" "sz < 2 ^ 31"
  shows "\<exists>s' n. process_malloc s pr sz = Inr (ptr, s') \<and> kmem_ok s' \<and> nat sz \<le> n \<and>
    kmem_live s' = insert (ptr, n) (kmem_live s) \<and>
    process_at s' pr = Some (p\<lparr>p_allocations := (p_allocations p)[i := ptr]\<rparr>) \<and>
    (\<forall>k. 4096 * k < nat sz \<longrightarrow> paging_get (km_ram s') (directory_entry c) (ptr + of_nat (4096 * k)) =
       Inr ((ptr + of_nat (4096 * k)) OR 0x17)) \<and>
    (\<forall>w. w mod 4096 = 0 \<longrightarrow> w \<notin> region ptr n \<longrightarrow>
       paging_get (km_ram s') (directory_entry c) w = paging_get (km_ram s) (directory_entry c) w)"
  by (rule process_malloc_result [OF assms])

definition demo_process :: kstate where
  "demo_process = blank_kernel\<lparr>km_ram := demo_pages, kernel_paging_chunk := 4096, current_directory := 0x1000,
     chunks := [4096 \<mapsto> \<lparr>directory_entry = 0x1000, faults = 0, last_fault = 0\<rparr>],
     tasks := [16 \<mapsto> zero_task\<lparr>tk_page_directory := 4096\<rparr>],
     process_at := [0x500 \<mapsto> zero_process\<lparr>p_task := 16\<rparr>]\<rparr>"

lemma demo_process_malloc: "kmalloc demo_process 5000 = Inr (0x1000000, demo_process\<lparr>km_heap := take_blocks demo_heap 0 2\<rparr>)"
proof -
  have "heap_malloc demo_heap 5000 = Inr (0x1000000, take_blocks demo_heap 0 2)" by code_simp
  then show ?thesis by (simp add: kmalloc_def demo_process_def blank_kernel_def)
qed

lemma demo_process_ok: "kmem_ok demo_process"
  by (simp add: demo_process_def blank_kernel_def kmem_ok_def demo_heap_wf)

lemma process_malloc_maps_witness:
  "\<exists>s'. process_malloc demo_process 0x500 5000 = Inr (0x1000000, s') \<and>
     paging_get (km_ram s') 0x1000 0x1001000 = Inr 0x1001017"
proof -
  have k: "is_kernel_page demo_process = Inr True"
    by (simp add: is_kernel_page_def kernel_get_page_directory_def demo_process_def deref_Some)
  have p: "process_at demo_process 0x500 = Some (zero_process\<lparr>p_task := 16\<rparr>)"
    "tasks demo_process (p_task (zero_process\<lparr>p_task := 16\<rparr>)) = Some (zero_task\<lparr>tk_page_directory := 4096\<rparr>)"
    "chunks demo_process (tk_page_directory (zero_task\<lparr>tk_page_directory := 4096\<rparr>)) =
       Some \<lparr>directory_entry = 0x1000, faults = 0, last_fault = 0\<rparr>"
    by (simp_all add: demo_process_def)
  have d: "pagedir_ok (km_ram demo_process) (directory_entry \<lparr>directory_entry = 0x1000, faults = 0, last_fault = 0\<rparr>)"
    using demo_pages_ok by (simp add: demo_process_def)
  have i: "process_get_free_heap_allocation_slot (zero_process\<lparr>p_task := 16\<rparr>) = Some 0"
    by (subst process_get_free_heap_allocation_slot_def) (simp add: zero_process_def first_free.simps(2) [of 0 "replicate 1023 0", folded replicate_Suc, simplified])
  obtain s' where s': "process_malloc demo_process 0x500 5000 = Inr (0x1000000, s')"
    and g: "\<forall>k. 4096 * k < nat 5000 \<longrightarrow> paging_get (km_ram s') (directory_entry \<lparr>directory_entry = 0x1000, faults = 0, last_fault = 0\<rparr>)
      (0x1000000 + of_nat (4096 * k)) = Inr ((0x1000000 + of_nat (4096 * k)) OR 0x17)"
    using process_malloc_maps [OF k p d demo_process_ok i demo_process_malloc] by auto
  have "paging_get (km_ram s') 0x1000 0x1001000 = Inr 0x1001017" using g [rule_format, of 1] by simp
  with s' show ?thesis by blast
qed

text \<open>Freeing a list of addresses, nulls among them.\<close>

lemma kmem_live_unique:
  assumes "kmem_ok s" "(p, n) \<in> kmem_live s" "(p, k) \<in> kmem_live s"
  shows "n = k"
proof (rule ccontr)
  assume "n \<noteq> k"
  then have "region p n \<inter> region p k = {}" using kernel_memory.live_disjoint [OF assms] by blast
  moreover have "0 < n" "0 < k" using kernel_memory.live_pos [OF assms(1)] assms(2,3) by blast+
  ultimately show False by (auto simp: region_def disjoint_iff)
qed

lemma free_allocations_live:
  "kmem_ok s \<Longrightarrow> \<forall>p\<in>set ps. p \<noteq> 0 \<longrightarrow> (\<exists>n. (p, n) \<in> kmem_live s) \<Longrightarrow> distinct (filter (\<lambda>p. p \<noteq> 0) ps) \<Longrightarrow>
   \<exists>h. free_allocations_loop s ps = Inr (s\<lparr>km_heap := h\<rparr>) \<and> kmem_ok (s\<lparr>km_heap := h\<rparr>) \<and>
     kmem_live (s\<lparr>km_heap := h\<rparr>) = {a \<in> kmem_live s. fst a \<notin> set ps}"
proof (induction ps arbitrary: s)
  case Nil
  then show ?case by (intro exI [of _ "km_heap s"]) simp
next
  case (Cons p ps)
  have nz: "(0, n) \<notin> kmem_live s" for n using kernel_memory.live_pos [OF Cons.prems(1)] by blast
  show ?case
  proof (cases "p = 0")
    case True
    obtain h where "free_allocations_loop s ps = Inr (s\<lparr>km_heap := h\<rparr>)" "kmem_ok (s\<lparr>km_heap := h\<rparr>)"
      "kmem_live (s\<lparr>km_heap := h\<rparr>) = {a \<in> kmem_live s. fst a \<notin> set ps}"
      using Cons.IH [of s] Cons.prems True by auto
    moreover have "{a \<in> kmem_live s. fst a \<notin> set ps} = {a \<in> kmem_live s. fst a \<notin> set (p # ps)}" using nz True by auto
    ultimately show ?thesis using True by (intro exI [of _ h]) simp
  next
    case False
    then obtain n where n: "(p, n) \<in> kmem_live s" using Cons.prems(2) by auto
    obtain s1 where s1: "kfree s p = Inr s1" "kmem_ok s1" "kmem_live s1 = kmem_live s - {(p, n)}"
      using kernel_memory.release_live [OF Cons.prems(1) n] by blast
    obtain h1 where h1: "s1 = s\<lparr>km_heap := h1\<rparr>" using s1(1) False by (auto simp: kfree_Inr_iff)
    have "\<forall>q\<in>set ps. q \<noteq> 0 \<longrightarrow> (\<exists>k. (q, k) \<in> kmem_live s1)"
      using Cons.prems(2,3) False by (auto simp: s1(3))
    then obtain h where h: "free_allocations_loop s1 ps = Inr (s1\<lparr>km_heap := h\<rparr>)" "kmem_ok (s1\<lparr>km_heap := h\<rparr>)"
      "kmem_live (s1\<lparr>km_heap := h\<rparr>) = {a \<in> kmem_live s1. fst a \<notin> set ps}"
      using Cons.IH [OF s1(2)] Cons.prems(3) False by auto
    have "(p, k) \<in> kmem_live s \<Longrightarrow> k = n" for k using kmem_live_unique [OF Cons.prems(1) n] by blast
    then have "a \<in> kmem_live s - {(p, n)} \<longleftrightarrow> a \<in> kmem_live s \<and> fst a \<noteq> p" for a
      by (cases a) (simp, blast)
    then have l: "kmem_live s1 = {a \<in> kmem_live s. fst a \<noteq> p}" unfolding s1(3) by (intro set_eqI) (simp only: mem_Collect_eq)
    have e: "{a \<in> kmem_live s1. fst a \<notin> set ps} = {a \<in> kmem_live s. fst a \<notin> set (p # ps)}"
      unfolding l by auto
    have "free_allocations_loop s (p # ps) = Inr (s\<lparr>km_heap := h\<rparr>)" using h(1) s1(1) False h1 by simp
    moreover have "kmem_ok (s\<lparr>km_heap := h\<rparr>)" using h(2) h1 by simp
    moreover have "kmem_live (s\<lparr>km_heap := h\<rparr>) = {a \<in> kmem_live s. fst a \<notin> set (p # ps)}"
      using h(3) [unfolded e] h1 by simp
    ultimately show ?thesis by blast
  qed
qed

text \<open>C28: At the end of a process its allocations, and no others, go back to the heap: if the table of
  allocations holds live allocations, each once, then \<open>process_free_allocations\<close> succeeds and what is
  live afterwards is what was live and not in the table.\<close>

theorem process_allocations_released:
  assumes "process_at s pr = Some p" "kmem_ok s"
    "\<forall>a\<in>set (p_allocations p). a \<noteq> 0 \<longrightarrow> (\<exists>n. (a, n) \<in> kmem_live s)" "distinct (filter (\<lambda>a. a \<noteq> 0) (p_allocations p))"
  shows "\<exists>s'. process_free_allocations s pr = Inr s' \<and> kmem_ok s' \<and> km_ram s' = km_ram s \<and>
    kmem_live s' = {a \<in> kmem_live s. fst a \<notin> set (p_allocations p)}"
  using free_allocations_live [OF assms(2-4)] assms(1) by (auto simp: process_free_allocations_def deref_Some)

lemma process_allocations_released_witness:
  "\<exists>s'. process_free_allocations (demo_process\<lparr>km_heap := take_blocks demo_heap 0 2,
     process_at := [0x500 \<mapsto> zero_process\<lparr>p_allocations := [0, 0x1000000, 0]\<rparr>]\<rparr>) 0x500 = Inr s' \<and> kmem_live s' = {}"
proof -
  let ?h = "demo_process\<lparr>km_heap := take_blocks demo_heap 0 2\<rparr>"
  let ?p = "zero_process\<lparr>p_allocations := [0, 0x1000000, 0]\<rparr>"
  let ?s = "?h\<lparr>process_at := [0x500 \<mapsto> ?p]\<rparr>"
  have m: "kmalloc demo_process (sint (5000 :: u32)) = Inr (0x1000000, ?h)" using demo_process_malloc by simp
  obtain n where n: "kmem_live ?h = insert (0x1000000, n) (kmem_live demo_process)"
    using kernel_memory.alloc_live [OF demo_process_ok m] by auto
  have e: "kmem_live demo_process = {}"
    by (simp add: kmem_live_def demo_process_def blank_kernel_def heap_live_def live_blocks_def demo_heap_def) (auto simp: less_Suc_eq numeral_3_eq_3)
  have s: "process_at ?s 0x500 = Some ?p" "kmem_ok ?s" "kmem_live ?s = {(0x1000000, n)}"
    using kernel_memory.alloc_ok [OF demo_process_ok m] n e by (simp_all add: kmem_ok_def kmem_live_def)
  have a: "\<forall>a\<in>set (p_allocations ?p). a \<noteq> 0 \<longrightarrow> (\<exists>n. (a, n) \<in> kmem_live ?s)" "distinct (filter (\<lambda>a. a \<noteq> 0) (p_allocations ?p))"
    by (simp_all add: s(3))
  from process_allocations_released [OF s(1,2) a] show ?thesis by (auto simp: s(3))
qed

end
