(* ===== verification/Keyboard.thy ===== *)
theory Keyboard
  imports Process
begin

text \<open>
  \<open>src/keyboard\<close>: the list of keyboards, the special keys, the key buffer of a process, the
  listeners, and the classic keyboard driver.  Function pointers are addresses; what they lead to is
  an argument, \<open>key_handlers\<close> for listeners.
\<close>

section \<open>Listeners\<close>

record 's key_handlers =
  keypress_fn :: "addr \<Rightarrow> byte \<Rightarrow> 's \<Rightarrow> 's outcome"
  special_fn :: "addr \<Rightarrow> int \<Rightarrow> 's \<Rightarrow> 's outcome"

definition upd_listener ::
  "addr \<Rightarrow> (keyboard_listener \<Rightarrow> keyboard_listener) \<Rightarrow> 'a kstate_scheme \<Rightarrow> 'a kstate_scheme outcome" where
  "upd_listener p f s = bindE (deref (listeners s) p) (\<lambda>t. Inr (s\<lparr>listeners := (listeners s)(p \<mapsto> f t)\<rparr>))"

definition keyboard_listener_register :: "'a kstate_scheme \<Rightarrow> addr \<Rightarrow> (int \<times> 'a kstate_scheme) outcome" where
  "keyboard_listener_register s listener =
     (if keyboard_listener_last s \<noteq> 0
      then
        bindE (upd_listener (keyboard_listener_last s) (\<lambda>l. l\<lparr>kl_next := listener\<rparr>) s) (\<lambda>s.
        Inr (0, s\<lparr>keyboard_listener_last := listener\<rparr>))
      else Inr (0, s\<lparr>keyboard_listener_head := listener, keyboard_listener_last := listener\<rparr>))"

text \<open>
  The walks along the listeners.  A listener without the function is met with \<open>continue\<close> before
  \<open>current\<close> moves on, so the walk stays there for ever: \<open>None\<close>.
\<close>

partial_function (option) keypressed_loop ::
  "'a kstate_scheme key_handlers \<Rightarrow> 'a kstate_scheme \<Rightarrow> byte \<Rightarrow> addr \<Rightarrow> 'a kstate_scheme outcome option" where
  "keypressed_loop hs s key current =
     (if current = 0 then Some (Inr s)
      else case deref (listeners s) current of
        Inl e \<Rightarrow> Some (Inl e)
      | Inr l \<Rightarrow>
          if kl_keypress l = 0 then keypressed_loop hs s key current
          else case bindE (keypress_fn hs (kl_keypress l) key s) (\<lambda>s.
                 bindE (deref (listeners s) current) (\<lambda>l. Inr (kl_next l, s))) of
            Inl e \<Rightarrow> Some (Inl e)
          | Inr r \<Rightarrow> keypressed_loop hs (snd r) key (fst r))"

definition keyboard_listener_keypressed ::
  "'a kstate_scheme key_handlers \<Rightarrow> 'a kstate_scheme \<Rightarrow> byte \<Rightarrow> 'a kstate_scheme outcome" where
  "keyboard_listener_keypressed hs s key = ran (keypressed_loop hs s key (keyboard_listener_head s))"

partial_function (option) keyspecial_loop ::
  "'a kstate_scheme key_handlers \<Rightarrow> 'a kstate_scheme \<Rightarrow> int \<Rightarrow> addr \<Rightarrow> 'a kstate_scheme outcome option" where
  "keyspecial_loop hs s key current =
     (if current = 0 then Some (Inr s)
      else case deref (listeners s) current of
        Inl e \<Rightarrow> Some (Inl e)
      | Inr l \<Rightarrow>
          if kl_special l = 0 then keyspecial_loop hs s key current
          else case bindE (special_fn hs (kl_special l) key s) (\<lambda>s.
                 bindE (deref (listeners s) current) (\<lambda>l. Inr (kl_next l, s))) of
            Inl e \<Rightarrow> Some (Inl e)
          | Inr r \<Rightarrow> keyspecial_loop hs (snd r) key (fst r))"

definition keyboard_listener_keyspecial ::
  "'a kstate_scheme key_handlers \<Rightarrow> 'a kstate_scheme \<Rightarrow> int \<Rightarrow> 'a kstate_scheme outcome" where
  "keyboard_listener_keyspecial hs s key = ran (keyspecial_loop hs s key (keyboard_listener_head s))"

section \<open>Special keys\<close>

abbreviation (input) F1_PRESSED_OR_RELEASED :: int where "F1_PRESSED_OR_RELEASED \<equiv> 0"
abbreviation (input) F12_PRESSED_OR_RELEASED :: int where "F12_PRESSED_OR_RELEASED \<equiv> 11"
abbreviation (input) CAPS_LOCK_PRESSED_OR_RELEASED :: int where "CAPS_LOCK_PRESSED_OR_RELEASED \<equiv> 12"
abbreviation (input) UP_PRESSED_OR_RELEASED :: int where "UP_PRESSED_OR_RELEASED \<equiv> 15"
abbreviation (input) DOWN_PRESSED_OR_RELEASED :: int where "DOWN_PRESSED_OR_RELEASED \<equiv> 16"

definition keyboard_assert_special_key_valid :: "int \<Rightarrow> unit outcome" where
  "keyboard_assert_special_key_valid c = ASSERT ''keyboard_assert_special_key_valid'' (c \<ge> 0 \<and> c < 17)"

definition keyboard_is_special_on :: "'a kstate_scheme \<Rightarrow> int \<Rightarrow> bool outcome" where
  "keyboard_is_special_on s c =
     bindE (keyboard_assert_special_key_valid c) (\<lambda>_. Inr (special_keys s ! nat c))"

definition keyboard_special_on ::
  "'a kstate_scheme key_handlers \<Rightarrow> 'a kstate_scheme \<Rightarrow> int \<Rightarrow> 'a kstate_scheme outcome" where
  "keyboard_special_on hs s c =
     bindE (keyboard_assert_special_key_valid c) (\<lambda>_.
     if special_keys s ! nat c then Inr s
     else keyboard_listener_keyspecial hs (s\<lparr>special_keys := (special_keys s)[nat c := True]\<rparr>) c)"

definition keyboard_special_off ::
  "'a kstate_scheme key_handlers \<Rightarrow> 'a kstate_scheme \<Rightarrow> int \<Rightarrow> 'a kstate_scheme outcome" where
  "keyboard_special_off hs s c =
     bindE (keyboard_assert_special_key_valid c) (\<lambda>_.
     if \<not> special_keys s ! nat c then Inr s
     else keyboard_listener_keyspecial hs (s\<lparr>special_keys := (special_keys s)[nat c := False]\<rparr>) c)"

section \<open>The key buffer of a process\<close>

text \<open>\<open>tail % sizeof(buffer)\<close>: the \<open>int\<close> is converted to \<open>size_t\<close>.\<close>

definition buffer_index :: "int \<Rightarrow> nat" where
  "buffer_index i = unat ((word_of_int i :: u32) mod 1024)"

definition keyboard_get_tail_index :: "keyboard_buffer \<Rightarrow> nat" where
  "keyboard_get_tail_index kb = buffer_index (kb_tail kb)"

definition keyboard_backspace :: "keyboard_buffer \<Rightarrow> keyboard_buffer" where
  "keyboard_backspace kb =
     (let kb = kb\<lparr>kb_tail := kb_tail kb - 1\<rparr> in
      kb\<lparr>kb_buffer := (kb_buffer kb)[keyboard_get_tail_index kb := 0]\<rparr>)"

text \<open>What \<open>keyboard_push\<close> and \<open>keyboard_pop\<close> do to the buffer.\<close>

definition buffer_push :: "keyboard_buffer \<Rightarrow> byte \<Rightarrow> keyboard_buffer" where
  "buffer_push kb c = kb\<lparr>kb_buffer := (kb_buffer kb)[keyboard_get_tail_index kb := c], kb_tail := kb_tail kb + 1\<rparr>"

definition buffer_pop :: "keyboard_buffer \<Rightarrow> byte \<times> keyboard_buffer" where
  "buffer_pop kb =
     (let real_index = buffer_index (kb_head kb); c = kb_buffer kb ! real_index in
      if c = 0 then (0, kb)
      else (c, kb\<lparr>kb_buffer := (kb_buffer kb)[real_index := 0], kb_head := kb_head kb + 1\<rparr>))"

definition keyboard_push ::
  "'a kstate_scheme key_handlers \<Rightarrow> 'a kstate_scheme \<Rightarrow> byte \<Rightarrow> 'a kstate_scheme outcome" where
  "keyboard_push hs s c =
     (let process = current_process s in
      if process = 0 then Inr s
      else
        bindE (upd_process process (\<lambda>p. p\<lparr>p_keyboard := buffer_push (p_keyboard p) c\<rparr>) s) (\<lambda>s.
        keyboard_listener_keypressed hs s c))"

definition keyboard_pop :: "'a kstate_scheme \<Rightarrow> (byte \<times> 'a kstate_scheme) outcome" where
  "keyboard_pop s =
     (if current_task s = 0 then Inr (0, s)
      else
        bindE (deref (tasks s) (current_task s)) (\<lambda>t.
        bindE (deref (process_at s) (tk_process t)) (\<lambda>p.
        let (c, kb) = buffer_pop (p_keyboard p) in
        Inr (c, s\<lparr>process_at := (process_at s)(tk_process t \<mapsto> p\<lparr>p_keyboard := kb\<rparr>)\<rparr>))))"

section \<open>The listeners of the kernel\<close>

definition fkeylistener_special ::
  "image \<Rightarrow> 'a kstate_scheme fs_table \<Rightarrow> nat \<Rightarrow> 'a kstate_scheme \<Rightarrow> int \<Rightarrow> 'a kstate_scheme outcome" where
  "fkeylistener_special im fs_lookup depth s key =
     bindE (keyboard_is_special_on s key) (\<lambda>on.
     if key < F1_PRESSED_OR_RELEASED \<or> key > F12_PRESSED_OR_RELEASED then Inr s
     else if on then Inr s
     else
       bindE (process_load_for_slot im fs_lookup depth s (literal_at im ''0:/bin/shell.e'') key 0 0) (\<lambda>(res, process, s).
       if res = - EISTKN
       then bindE (process_switch s (process_get s key)) (\<lambda>(_, s). Inr s)
       else if res < 0 then print s (literal_at im ''Fatal error loading the process'')
       else bindE (process_start s process) (\<lambda>(_, s). Inr s)))"

definition scrollkeylistener_special :: "'a kstate_scheme \<Rightarrow> int \<Rightarrow> 'a kstate_scheme outcome" where
  "scrollkeylistener_special s key =
     (if key \<noteq> UP_PRESSED_OR_RELEASED \<and> key \<noteq> DOWN_PRESSED_OR_RELEASED then Inr s
      else
        bindE (keyboard_is_special_on s key) (\<lambda>on.
        if \<not> on then Inr s
        else
          bindE (deref (process_at s) (current_process s)) (\<lambda>p.
          upd_video (p_video p) (\<lambda>v. let q = v_properties v in v\<lparr>v_properties :=
            (if key = DOWN_PRESSED_OR_RELEASED then video_terminal_set_scroll q (tp_y_scroll q + 1)
             else video_terminal_set_scroll q (tp_y_scroll q - 1))\<rparr>) s)))"

text \<open>Both keypress functions are empty.\<close>

definition fkeylistener_keypress :: "'a kstate_scheme \<Rightarrow> byte \<Rightarrow> 'a kstate_scheme" where
  "fkeylistener_keypress s c = s"

definition scrollkeylistener_keypress :: "'a kstate_scheme \<Rightarrow> byte \<Rightarrow> 'a kstate_scheme" where
  "scrollkeylistener_keypress s key = s"

definition kernel_key_handlers :: "image \<Rightarrow> 'a kstate_scheme fs_table \<Rightarrow> nat \<Rightarrow> 'a kstate_scheme key_handlers" where
  "kernel_key_handlers im fs_lookup depth =
     \<lparr>keypress_fn = (\<lambda>f key s.
        if f = code_at im ''fkeylistener_keypress'' then Inr (fkeylistener_keypress s key)
        else if f = code_at im ''scrollkeylistener_keypress'' then Inr (scrollkeylistener_keypress s key)
        else Inl (BadPointer f)),
      special_fn = (\<lambda>f key s.
        if f = code_at im ''fkeylistener_special'' then fkeylistener_special im fs_lookup depth s key
        else if f = code_at im ''scrollkeylistener_special'' then scrollkeylistener_special s key
        else Inl (BadPointer f))\<rparr>"

text \<open>The two static listeners lie at \<open>literal_at\<close> of their files' names.\<close>

definition fkeylistener_init :: "image \<Rightarrow> 'a kstate_scheme \<Rightarrow> 'a kstate_scheme outcome" where
  "fkeylistener_init im s =
     bindE (keyboard_listener_register s (literal_at im ''fkeylistener'')) (\<lambda>(_, s). Inr s)"

definition scrollkeylistener_init :: "image \<Rightarrow> 'a kstate_scheme \<Rightarrow> 'a kstate_scheme outcome" where
  "scrollkeylistener_init im s =
     bindE (keyboard_listener_register s (literal_at im ''scrollkeylistener'')) (\<lambda>(_, s). Inr s)"

definition keyboard_listener_init :: "image \<Rightarrow> 'a kstate_scheme \<Rightarrow> 'a kstate_scheme outcome" where
  "keyboard_listener_init im s =
     fkeylistener_init im (s\<lparr>keyboard_listener_head := 0, keyboard_listener_last := 0\<rparr>)"

section \<open>The classic keyboard\<close>

definition keyboard_special_keys_set_one :: "byte list" where
  "keyboard_special_keys_set_one = [0x3B, 0x3C, 0x3D, 0x3E, 0x3F, 0x3F, 0x40, 0x41, 0x43, 0x44, 0x57, 0x58,
     0x3A, 0x00, 0x00, 0x48, 0x50]"

definition keyboard_scan_set_one :: "byte list" where
  "keyboard_scan_set_one = [
     0x00, 0x1b, 0x31, 0x32, 0x33, 0x34, 0x35, 0x36, 0x37, 0x38, 0x39, 0x30, 0x2d, 0x3d, 0x08, 0x09,
     0x51, 0x57, 0x45, 0x52, 0x54, 0x59, 0x55, 0x49, 0x4f, 0x50, 0x5b, 0x5d, 0x0d, 0x00, 0x41, 0x53,
     0x44, 0x46, 0x47, 0x48, 0x4a, 0x4b, 0x4c, 0x3b, 0x27, 0x60, 0x00, 0x27, 0x5a, 0x58, 0x43, 0x56,
     0x42, 0x4e, 0x4d, 0x2c, 0x2e, 0x2f, 0x00, 0x2a, 0x00, 0x20, 0x00, 0x00, 0x00, 0x00, 0x00, 0x00,
     0x00, 0x00, 0x00, 0x00, 0x00, 0x37, 0x38, 0x39, 0x2d, 0x34, 0x35, 0x36, 0x2b, 0x31, 0x32, 0x33,
     0x30, 0x2e]"

fun special_index_from :: "byte list \<Rightarrow> byte \<Rightarrow> int \<Rightarrow> int" where
  "special_index_from [] scancode i = - 1"
| "special_index_from (k # ks) scancode i = (if k = scancode then i else special_index_from ks scancode (i + 1))"

definition classic_keyboard_scancode_special :: "byte \<Rightarrow> int" where
  "classic_keyboard_scancode_special scancode = special_index_from keyboard_special_keys_set_one scancode 0"

text \<open>The test lets the scan code 82 through; \<open>after\<close> is the byte that follows the table.\<close>

definition classic_keyboard_scancode_to_char :: "byte \<Rightarrow> 'a kstate_scheme \<Rightarrow> byte \<Rightarrow> byte outcome" where
  "classic_keyboard_scancode_to_char after s scancode =
     (let sz = length keyboard_scan_set_one in
      if unat scancode > sz then Inr 0
      else
        let c = (keyboard_scan_set_one @ [after]) ! unat scancode in
        bindE (keyboard_is_special_on s CAPS_LOCK_PRESSED_OR_RELEASED) (\<lambda>caps.
        Inr (if \<not> caps then tolower c else c)))"

definition classic_keyboard_handle_caps_lock_press ::
  "'a kstate_scheme key_handlers \<Rightarrow> 'a kstate_scheme \<Rightarrow> byte \<Rightarrow> 'a kstate_scheme outcome" where
  "classic_keyboard_handle_caps_lock_press hs s scancode =
     (if scancode AND 0x80 \<noteq> 0 then Inr s
      else
        bindE (keyboard_is_special_on s CAPS_LOCK_PRESSED_OR_RELEASED) (\<lambda>on.
        if on then keyboard_special_off hs s CAPS_LOCK_PRESSED_OR_RELEASED
        else keyboard_special_on hs s CAPS_LOCK_PRESSED_OR_RELEASED))"

text \<open>\<open>scancode\<close> is the byte the keyboard's port gives.\<close>

definition classic_keyboard_handle_interrupt ::
  "'a kstate_scheme key_handlers \<Rightarrow> byte \<Rightarrow> byte \<Rightarrow> 'a kstate_scheme \<Rightarrow> 'a kstate_scheme outcome" where
  "classic_keyboard_handle_interrupt hs after scancode s =
     bindE (kernel_page s) (\<lambda>s.
     let special_index = classic_keyboard_scancode_special (scancode AND NOT 0x80) in
     if special_index = CAPS_LOCK_PRESSED_OR_RELEASED then classic_keyboard_handle_caps_lock_press hs s scancode
     else if scancode AND 0x80 \<noteq> 0
     then (if special_index \<noteq> - 1 then keyboard_special_off hs s special_index else Inr s)
     else if special_index \<noteq> - 1 then keyboard_special_on hs s special_index
     else
       bindE (classic_keyboard_scancode_to_char after s scancode) (\<lambda>c.
       bindE (if c \<noteq> 0 then keyboard_push hs s c else Inr s) (\<lambda>s.
       task_page s)))"

definition classic_keyboard_push :: "int \<Rightarrow> int" where "classic_keyboard_push keycode = - EIO"

definition classic_keyboard_pop :: "int" where "classic_keyboard_pop = - EIO"

section \<open>The list of keyboards\<close>

text \<open>\<open>call_init\<close> is what the function pointer \<open>init\<close> of a keyboard leads to.\<close>

definition keyboard_insert ::
  "(addr \<Rightarrow> 'a kstate_scheme \<Rightarrow> (int \<times> 'a kstate_scheme) outcome) \<Rightarrow> 'a kstate_scheme \<Rightarrow> addr \<Rightarrow> (int \<times> 'a kstate_scheme) outcome" where
  "keyboard_insert call_init s keyboard =
     bindE (deref (keyboards s) keyboard) (\<lambda>k.
     if k_init k = 0 then Inr (- EINVARG, s)
     else
       bindE (if keyboard_list_last s \<noteq> 0
              then
                bindE (deref (keyboards s) (keyboard_list_last s)) (\<lambda>l.
                Inr (s\<lparr>keyboards := (keyboards s)(keyboard_list_last s \<mapsto> l\<lparr>k_next := keyboard\<rparr>),
                       keyboard_list_last := keyboard\<rparr>))
              else Inr (s\<lparr>keyboard_list_head := keyboard, keyboard_list_last := keyboard\<rparr>)) (\<lambda>s.
       call_init (k_init k) s))"

definition keyboard_init ::
  "image \<Rightarrow> (addr \<Rightarrow> 'a kstate_scheme \<Rightarrow> (int \<times> 'a kstate_scheme) outcome) \<Rightarrow> 'a kstate_scheme \<Rightarrow> 'a kstate_scheme outcome" where
  "keyboard_init im call_init s =
     bindE (keyboard_insert call_init s (literal_at im ''classic_keyboard'')) (\<lambda>(_, s).
     bindE (fkeylistener_init im s) (\<lambda>s.
     scrollkeylistener_init im s))"

section \<open>The key buffer as a queue\<close>

text \<open>
  The contract of a bounded queue of keys: between an \<open>ok\<close> state and the list of its \<open>items\<close>, a
  push below the capacity appends, a pop takes the first or gives 0.
\<close>

locale key_queue =
  fixes ok :: "'q \<Rightarrow> bool"
    and items :: "'q \<Rightarrow> byte list"
    and push :: "'q \<Rightarrow> byte \<Rightarrow> 'q"
    and pop :: "'q \<Rightarrow> byte \<times> 'q"
    and capacity :: nat
  assumes push_ok: "ok q \<Longrightarrow> length (items q) < capacity \<Longrightarrow> c \<noteq> 0 \<Longrightarrow> ok (push q c)"
    and push_items: "ok q \<Longrightarrow> length (items q) < capacity \<Longrightarrow> c \<noteq> 0 \<Longrightarrow> items (push q c) = items q @ [c]"
    and pop_ok: "ok q \<Longrightarrow> ok (snd (pop q))"
    and pop_items: "ok q \<Longrightarrow> items (snd (pop q)) = tl (items q)"
    and pop_key: "ok q \<Longrightarrow> fst (pop q) = (if items q = [] then 0 else hd (items q))"
begin

fun pops :: "nat \<Rightarrow> 'q \<Rightarrow> byte list" where
  "pops 0 q = []"
| "pops (Suc n) q = fst (pop q) # pops n (snd (pop q))"

lemma pushes:
  "ok q \<Longrightarrow> length (items q) + length cs \<le> capacity \<Longrightarrow> 0 \<notin> set cs \<Longrightarrow>
   ok (foldl push q cs) \<and> items (foldl push q cs) = items q @ cs"
proof (induction cs arbitrary: q)
  case (Cons c cs)
  have l: "length (items q) < capacity" "c \<noteq> 0" using Cons.prems by auto
  note p = push_ok [OF Cons.prems(1) l] push_items [OF Cons.prems(1) l]
  show ?case using Cons.IH [OF p(1)] p(2) Cons.prems by simp
qed simp

lemma pops_items: "ok q \<Longrightarrow> pops n q = take n (items q) @ replicate (n - length (items q)) 0"
proof (induction n arbitrary: q)
  case (Suc n)
  have "pops n (snd (pop q)) = take n (tl (items q)) @ replicate (n - length (tl (items q))) 0"
    using Suc.IH [OF pop_ok [OF Suc.prems]] pop_items [OF Suc.prems] by simp
  then show ?case using pop_key [OF Suc.prems] by (cases "items q") simp_all
qed simp

text \<open>First in, first out.\<close>

lemma fifo:
  "ok q \<Longrightarrow> items q = [] \<Longrightarrow> length cs \<le> capacity \<Longrightarrow> 0 \<notin> set cs \<Longrightarrow> pops (Suc (length cs)) (foldl push q cs) = cs @ [0]"
  using pushes [of q cs] pops_items [of "foldl push q cs" "Suc (length cs)"] by simp

end

text \<open>The keys of a buffer: what lies from \<open>head\<close> on up to the first zero, at most a lap.\<close>

definition slot_from :: "keyboard_buffer \<Rightarrow> nat \<Rightarrow> byte" where
  "slot_from kb i = kb_buffer kb ! buffer_index (kb_head kb + int i)"

definition queued :: "keyboard_buffer \<Rightarrow> byte list" where
  "queued kb = takeWhile (\<lambda>c. c \<noteq> 0) (map (slot_from kb) [0..<1024])"

definition keys_ok :: "keyboard_buffer \<Rightarrow> bool" where
  "keys_ok kb \<longleftrightarrow> length (kb_buffer kb) = 1024 \<and> kb_tail kb = kb_head kb + int (length (queued kb)) \<and>
     (\<forall>i. length (queued kb) \<le> i \<and> i < 1024 \<longrightarrow> slot_from kb i = 0)"

lemma buffer_index_mod: "buffer_index i = nat (i mod 1024)"
proof -
  have "int (unat ((word_of_int i :: u32) mod 1024)) = i mod 1024"
    unfolding uint_nat [symmetric] uint_mod by (simp add: uint_word_of_int mod_mod_cancel)
  then show ?thesis unfolding buffer_index_def by linarith
qed

lemma buffer_index_less [simp]: "buffer_index i < 1024"
  by (simp add: buffer_index_mod nat_less_iff)

lemma buffer_index_eq:
  "i < 1024 \<Longrightarrow> j < 1024 \<Longrightarrow> buffer_index (h + int i) = buffer_index (h + int j) \<longleftrightarrow> i = j"
proof
  assume a: "i < 1024" "j < 1024" and e: "buffer_index (h + int i) = buffer_index (h + int j)"
  then have "(h + int i) mod 1024 = (h + int j) mod 1024" by (simp add: buffer_index_mod eq_nat_nat_iff)
  then have "1024 dvd int i - int j" by (simp add: mod_eq_dvd_iff)
  then have "int i - int j \<noteq> 0 \<longrightarrow> 1024 \<le> \<bar>int i - int j\<bar>"
    using dvd_imp_le_int [of "int i - int j" 1024] by simp
  then show "i = j" using a by linarith
qed simp

lemma buffer_index_lap: "buffer_index (h + 1024) = buffer_index h"
  by (simp add: buffer_index_mod)

text \<open>A list of keys describes a buffer.\<close>

lemma queued_eqI:
  assumes "length q \<le> 1024" "\<And>i. i < length q \<Longrightarrow> slot_from kb i = q ! i" "0 \<notin> set q"
    "length q < 1024 \<Longrightarrow> slot_from kb (length q) = 0"
  shows "queued kb = q"
proof -
  let ?xs = "map (slot_from kb) [0..<1024]"
  have t: "take (length q) ?xs = q"
    by (rule nth_equalityI) (use assms(1,2) in simp_all)
  have a: "\<forall>c\<in>set (take (length q) ?xs). c \<noteq> 0" using assms(3) unfolding t by auto
  have "takeWhile (\<lambda>c. c \<noteq> 0) (take (length q) ?xs @ drop (length q) ?xs) =
    take (length q) ?xs @ takeWhile (\<lambda>c. c \<noteq> 0) (drop (length q) ?xs)"
    by (rule takeWhile_append2) (use a in blast)
  moreover have "takeWhile (\<lambda>c. c \<noteq> 0) (drop (length q) ?xs) = []"
    using assms(1,4) by (cases "length q < 1024") (auto simp flip: Cons_nth_drop_Suc)
  moreover have "?xs = q @ drop (length q) ?xs" using append_take_drop_id [of "length q" ?xs] unfolding t by (rule sym)
  ultimately show ?thesis unfolding queued_def t by (simp only: append_Nil2)
qed

lemma queued_props:
  shows "length (queued kb) \<le> 1024" "i < length (queued kb) \<Longrightarrow> slot_from kb i = queued kb ! i" "0 \<notin> set (queued kb)"
proof -
  show l: "length (queued kb) \<le> 1024" unfolding queued_def by (rule order_trans [OF length_takeWhile_le]) simp
  show "0 \<notin> set (queued kb)" unfolding queued_def by (auto dest: set_takeWhileD)
  assume i: "i < length (queued kb)"
  then show "slot_from kb i = queued kb ! i" using l unfolding queued_def by (simp add: takeWhile_nth)
qed

lemma slot_from_push:
  assumes "length (kb_buffer kb) = 1024" "kb_tail kb = kb_head kb + int n" "n < 1024" "i < 1024"
  shows "slot_from (buffer_push kb c) i = (if i = n then c else slot_from kb i)"
  using assms buffer_index_eq [of i n "kb_head kb"]
  by (auto simp: slot_from_def buffer_push_def keyboard_get_tail_index_def nth_list_update)

lemma push_queued:
  assumes "keys_ok kb" "length (queued kb) < 1024" "c \<noteq> 0"
  shows "queued (buffer_push kb c) = queued kb @ [c]"
proof (rule queued_eqI)
  let ?n = "length (queued kb)"
  have l: "length (kb_buffer kb) = 1024" "kb_tail kb = kb_head kb + int ?n"
    and z: "\<forall>i. ?n \<le> i \<and> i < 1024 \<longrightarrow> slot_from kb i = 0" using assms(1) by (simp_all add: keys_ok_def)
  note s = slot_from_push [OF l assms(2)]
  show "length (queued kb @ [c]) \<le> 1024" using assms(2) by simp
  show "0 \<notin> set (queued kb @ [c])" using queued_props(3) assms(3) by simp
  fix i assume "i < length (queued kb @ [c])"
  then show "slot_from (buffer_push kb c) i = (queued kb @ [c]) ! i"
    using s [of i] assms(2) queued_props(2) by (auto simp: nth_append less_Suc_eq)
next
  let ?n = "length (queued kb)"
  assume "length (queued kb @ [c]) < 1024"
  then have "Suc ?n < 1024" by simp
  moreover have "slot_from (buffer_push kb c) (Suc ?n) = (if Suc ?n = ?n then c else slot_from kb (Suc ?n))"
    by (rule slot_from_push) (use assms \<open>Suc ?n < 1024\<close> in \<open>simp_all add: keys_ok_def\<close>)
  ultimately show "slot_from (buffer_push kb c) (length (queued kb @ [c])) = 0"
    using assms(1) by (simp add: keys_ok_def)
qed

lemma push_keys_ok:
  assumes "keys_ok kb" "length (queued kb) < 1024" "c \<noteq> 0"
  shows "keys_ok (buffer_push kb c)"
proof -
  let ?n = "length (queued kb)"
  have l: "length (kb_buffer kb) = 1024" "kb_tail kb = kb_head kb + int ?n"
    and z: "\<forall>i. ?n \<le> i \<and> i < 1024 \<longrightarrow> slot_from kb i = 0" using assms(1) by (simp_all add: keys_ok_def)
  have "slot_from (buffer_push kb c) i = 0" if "Suc ?n \<le> i" "i < 1024" for i
    using slot_from_push [OF l assms(2) that(2)] z that by simp
  then show ?thesis
    using l push_queued [OF assms] by (simp add: keys_ok_def) (simp add: buffer_push_def)
qed

lemma queued_head:
  "queued kb = [] \<longleftrightarrow> slot_from kb 0 = 0" "queued kb \<noteq> [] \<Longrightarrow> hd (queued kb) = slot_from kb 0"
  by (simp_all add: queued_def upt_rec [of 0] split: if_splits)

lemma buffer_pop_eq:
  "buffer_pop kb = (if queued kb = [] then (0, kb)
     else (hd (queued kb), kb\<lparr>kb_buffer := (kb_buffer kb)[buffer_index (kb_head kb) := 0], kb_head := kb_head kb + 1\<rparr>))"
  using queued_head [of kb] by (auto simp: buffer_pop_def slot_from_def Let_def)

lemma pop_slots:
  assumes "keys_ok kb" "queued kb \<noteq> []" "i < 1024"
  shows "slot_from (snd (buffer_pop kb)) i = (if Suc i < length (queued kb) then queued kb ! Suc i else 0)"
proof (cases "Suc i = 1024")
  case True
  have "kb_head kb + 1 + int i = kb_head kb + 1024" using True by linarith
  then have "buffer_index (kb_head kb + 1 + int i) = buffer_index (kb_head kb)"
    by (simp only: buffer_index_lap)
  then show ?thesis
    using assms queued_props(1) [of kb] True by (simp add: buffer_pop_eq slot_from_def keys_ok_def)
next
  case False
  then have i: "Suc i < 1024" using assms(3) by simp
  have e: "kb_head kb + 1 + int i = kb_head kb + int (Suc i)" by simp
  have "slot_from (snd (buffer_pop kb)) i = slot_from kb (Suc i)"
    using buffer_index_eq [OF i, of 0 "kb_head kb"] assms(1,2) unfolding buffer_pop_eq slot_from_def
    by (simp add: e keys_ok_def del: of_nat_Suc)
  then show ?thesis
    using assms(1) i queued_props(2) [of "Suc i" kb] by (simp add: keys_ok_def)
qed

lemma pop_queued:
  assumes "keys_ok kb"
  shows "queued (snd (buffer_pop kb)) = tl (queued kb)"
proof (cases "queued kb = []")
  case False
  note s = pop_slots [OF assms False]
  show ?thesis
  proof (rule queued_eqI)
    show "length (tl (queued kb)) \<le> 1024" "0 \<notin> set (tl (queued kb))"
      using queued_props(1,3) [of kb] by (auto dest: list.set_sel(2) [OF False])
    fix i assume "i < length (tl (queued kb))"
    then show "slot_from (snd (buffer_pop kb)) i = tl (queued kb) ! i"
      using s [of i] queued_props(1) [of kb] by (auto simp: nth_tl less_diff_conv)
  qed (use s [of "length (queued kb) - 1"] in auto)
qed (simp add: buffer_pop_eq)

lemma pop_keys_ok:
  assumes "keys_ok kb"
  shows "keys_ok (snd (buffer_pop kb))"
proof (cases "queued kb = []")
  case False
  have "int (length (queued kb) - 1) = int (length (queued kb)) - 1" using False by (simp add: Suc_leI)
  then show ?thesis
    using assms False pop_slots [OF assms False] pop_queued [OF assms]
    unfolding keys_ok_def by (simp add: buffer_pop_eq)
qed (use assms in \<open>simp add: buffer_pop_eq\<close>)

interpretation keys: key_queue keys_ok queued buffer_push buffer_pop 1024
  by unfold_locales (simp_all add: push_keys_ok push_queued pop_keys_ok pop_queued, simp add: buffer_pop_eq)

section \<open>Keys from the keyboard to the program\<close>

text \<open>The listeners met from \<open>p\<close> on, each with a function for key presses.\<close>

fun key_listeners :: "(addr \<Rightarrow> keyboard_listener option) \<Rightarrow> addr \<Rightarrow> addr list \<Rightarrow> bool" where
  "key_listeners st p [] \<longleftrightarrow> p = 0"
| "key_listeners st p (x # xs) \<longleftrightarrow> p = x \<and> x \<noteq> 0 \<and>
     (case st x of None \<Rightarrow> False | Some l \<Rightarrow> kl_keypress l \<noteq> 0 \<and> key_listeners st (kl_next l) xs)"

lemma keypressed_loop_end: "keypressed_loop hs s key 0 = Some (Inr s)"
  by (subst keypressed_loop.simps) simp

lemma keypressed_loop_step:
  assumes "p \<noteq> 0" "listeners s p = Some l" "kl_keypress l \<noteq> 0" "keypress_fn hs (kl_keypress l) key s = Inr s"
  shows "keypressed_loop hs s key p = keypressed_loop hs s key (kl_next l)"
  using assms by (subst keypressed_loop.simps) (simp add: deref_Some)

text \<open>Listeners whose functions for key presses are the two of the kernel, which are empty.\<close>

definition kernel_listeners :: "image \<Rightarrow> 'a kstate_scheme \<Rightarrow> addr list \<Rightarrow> bool" where
  "kernel_listeners im s ls \<longleftrightarrow> key_listeners (listeners s) (keyboard_listener_head s) ls \<and>
     (\<forall>x\<in>set ls. \<forall>l. listeners s x = Some l \<longrightarrow>
        kl_keypress l = code_at im ''fkeylistener_keypress'' \<or> kl_keypress l = code_at im ''scrollkeylistener_keypress'')"

lemma kernel_keypress:
  assumes "f = code_at im ''fkeylistener_keypress'' \<or> f = code_at im ''scrollkeylistener_keypress''"
  shows "keypress_fn (kernel_key_handlers im fs_lookup depth) f key s = Inr s"
  using assms by (auto simp: kernel_key_handlers_def fkeylistener_keypress_def scrollkeylistener_keypress_def)

lemma quiet_listeners:
  "\<forall>x\<in>set ls. \<forall>l. listeners s x = Some l \<longrightarrow> keypress_fn hs (kl_keypress l) key s = Inr s \<Longrightarrow>
   key_listeners (listeners s) p ls \<Longrightarrow> keypressed_loop hs s key p = Some (Inr s)"
proof (induction ls arbitrary: p)
  case (Cons x xs)
  then obtain l where "p \<noteq> 0" "p = x" "listeners s p = Some l" "kl_keypress l \<noteq> 0" "key_listeners (listeners s) (kl_next l) xs"
    by (auto split: option.splits)
  then show ?case using Cons keypressed_loop_step [of p s l hs key] by simp
qed (simp add: keypressed_loop_end)

text \<open>
  What \<open>kernel_main\<close> does with the two listeners: \<open>keyboard_init\<close> registers both, and \<open>keyboard_listener_init\<close>
  empties the list and registers the first again, whose \<open>next\<close> still leads to the second.
\<close>

lemma kernel_listeners_registered:
  fixes im :: image and s s' :: "'a kstate_scheme" and lf :: keyboard_listener
  defines "F \<equiv> literal_at im ''fkeylistener''" and "S \<equiv> literal_at im ''scrollkeylistener''"
  defines "s' \<equiv> s\<lparr>listeners := (listeners s)(F \<mapsto> lf\<lparr>kl_next := S\<rparr>), keyboard_listener_head := F, keyboard_listener_last := F\<rparr>"
  assumes "F \<noteq> 0" "S \<noteq> 0" "F \<noteq> S" "keyboard_listener_last s = 0"
    and "listeners s F = Some lf" "kl_keypress lf = code_at im ''fkeylistener_keypress''" "kl_keypress lf \<noteq> 0"
    and "listeners s S = Some ls" "kl_keypress ls = code_at im ''scrollkeylistener_keypress''" "kl_keypress ls \<noteq> 0" "kl_next ls = 0"
  shows "bindE (fkeylistener_init im s) (\<lambda>s. bindE (scrollkeylistener_init im s) (keyboard_listener_init im)) = Inr s'"
    and "kernel_listeners im s' [F, S]"
proof -
  show "bindE (fkeylistener_init im s) (\<lambda>s. bindE (scrollkeylistener_init im s) (keyboard_listener_init im)) = Inr s'"
    using assms(4-8)
    unfolding fkeylistener_init_def scrollkeylistener_init_def keyboard_listener_init_def keyboard_listener_register_def
      upd_listener_def F_def [symmetric] S_def [symmetric] s'_def by (simp add: deref_Some)
  show "kernel_listeners im s' [F, S]" using assms(4-) unfolding kernel_listeners_def s'_def by auto
qed

text \<open>Presses of several keys, and reads of several keys by the running program.\<close>

fun press_keys :: "'a kstate_scheme key_handlers \<Rightarrow> 'a kstate_scheme \<Rightarrow> byte list \<Rightarrow> 'a kstate_scheme outcome" where
  "press_keys hs s [] = Inr s"
| "press_keys hs s (c # cs) = bindE (keyboard_push hs s c) (\<lambda>s. press_keys hs s cs)"

fun read_keys :: "nat \<Rightarrow> 'a kstate_scheme \<Rightarrow> byte list outcome" where
  "read_keys 0 s = Inr []"
| "read_keys (Suc n) s = bindE (keyboard_pop s) (\<lambda>(c, s). bindE (read_keys n s) (\<lambda>cs. Inr (c # cs)))"

definition with_keys :: "addr \<Rightarrow> process \<Rightarrow> 'a kstate_scheme \<Rightarrow> keyboard_buffer \<Rightarrow> 'a kstate_scheme" where
  "with_keys pr p s kb = s\<lparr>process_at := (process_at s)(pr \<mapsto> p\<lparr>p_keyboard := kb\<rparr>)\<rparr>"

lemma push_with_keys:
  assumes "pr \<noteq> 0" "current_process s = pr" "kernel_listeners im s ls"
  shows "keyboard_push (kernel_key_handlers im fs_lookup depth) (with_keys pr p s kb) c = Inr (with_keys pr p s (buffer_push kb c))"
proof -
  let ?s = "with_keys pr p s (buffer_push kb c)"
  have "upd_process pr (\<lambda>p. p\<lparr>p_keyboard := buffer_push (p_keyboard p) c\<rparr>) (with_keys pr p s kb) = Inr ?s"
    by (simp add: upd_process_def with_keys_def deref_Some)
  moreover have "keypressed_loop (kernel_key_handlers im fs_lookup depth) ?s c (keyboard_listener_head ?s) = Some (Inr ?s)"
    by (rule quiet_listeners [of ls]) (use assms(3) in \<open>auto simp: with_keys_def kernel_listeners_def intro: kernel_keypress\<close>)
  ultimately show ?thesis
    using assms(1,2) unfolding keyboard_push_def keyboard_listener_keypressed_def Let_def
    by (simp add: ran_def) (simp add: with_keys_def)
qed

lemma press_with_keys:
  assumes "pr \<noteq> 0" "current_process s = pr" "kernel_listeners im s ls"
  shows "press_keys (kernel_key_handlers im fs_lookup depth) (with_keys pr p s kb) cs = Inr (with_keys pr p s (foldl buffer_push kb cs))"
  by (induction cs arbitrary: kb) (simp_all add: push_with_keys [OF assms])

lemma read_with_keys:
  assumes "current_task s \<noteq> 0" "tasks s (current_task s) = Some t" "tk_process t = pr"
  shows "read_keys n (with_keys pr p s kb) = Inr (keys.pops n kb)"
proof (induction n arbitrary: kb)
  case (Suc n)
  obtain c kb' where b: "buffer_pop kb = (c, kb')" by (cases "buffer_pop kb")
  have "keyboard_pop (with_keys pr p s kb) = Inr (c, with_keys pr p s kb')"
    using assms b by (simp add: keyboard_pop_def with_keys_def deref_Some)
  then show ?case using Suc b by simp
qed simp

text \<open>C11: Up to 1024 keys, none of them 0, typed while a process with an empty key buffer is the current one,
  and its task the running one, are read by its program each once and in the order typed, and a further
  read gives 0.  The listeners are the kernel's own (those \<open>kernel_main\<close> registers), whose functions for
  key presses are walked through on each press.\<close>

theorem keys_read_in_order:
  assumes "pr \<noteq> 0" "current_process s = pr" "process_at s pr = Some p" "keys_ok (p_keyboard p)" "queued (p_keyboard p) = []"
    and "kernel_listeners im s ls"
    and "current_task s \<noteq> 0" "tasks s (current_task s) = Some t" "tk_process t = pr"
    and "length cs \<le> 1024" "0 \<notin> set cs"
  shows "bindE (press_keys (kernel_key_handlers im fs_lookup depth) s cs) (read_keys (Suc (length cs))) = Inr (cs @ [0])"
proof -
  let ?hs = "kernel_key_handlers im fs_lookup depth"
  have s: "s = with_keys pr p s (p_keyboard p)" using assms(3) by (simp add: with_keys_def fun_upd_idem)
  have "press_keys ?hs s cs = Inr (with_keys pr p s (foldl buffer_push (p_keyboard p) cs))"
    by (subst s) (rule press_with_keys [OF assms(1,2,6)])
  moreover have "keys.pops (Suc (length cs)) (foldl buffer_push (p_keyboard p) cs) = cs @ [0]"
    by (rule keys.fifo [OF assms(4,5,10,11)])
  ultimately show ?thesis using read_with_keys [OF assms(7-9)] by (simp del: read_keys.simps)
qed

definition demo_keyboard :: kstate where
  "demo_keyboard = blank_kernel\<lparr>current_process := 0x500, process_at := [0x500 \<mapsto> zero_process],
     current_task := 16, tasks := [16 \<mapsto> zero_task\<lparr>tk_process := 0x500\<rparr>],
     listeners := [0x600 \<mapsto> \<lparr>kl_keypress = 7, kl_special = 8, kl_next = 0\<rparr>],
     keyboard_listener_head := 0x600, keyboard_listener_last := 0x600\<rparr>"

lemma zero_keys: "keys_ok (p_keyboard zero_process)" "queued (p_keyboard zero_process) = []"
proof -
  have s: "slot_from (p_keyboard zero_process) i = 0" for i
    by (simp add: slot_from_def zero_process_def)
  show q: "queued (p_keyboard zero_process) = []" using queued_head(1) s by blast
  show "keys_ok (p_keyboard zero_process)" using s unfolding keys_ok_def q by (simp add: zero_process_def)
qed

text \<open>The same machine with the kernel's two listeners at 0x600 and 0x700, as they are before and after the start.\<close>

definition demo_image :: image where
  "demo_image = \<lparr>local_at = (\<lambda>nme i. 0), literal_at = (\<lambda>txt. if txt = ''fkeylistener'' then 0x600 else 0x700),
     code_at = (\<lambda>nme. if nme = ''fkeylistener_keypress'' then 7 else 9)\<rparr>"

definition demo_listeners :: kstate where
  "demo_listeners = demo_keyboard\<lparr>listeners := [0x600 \<mapsto> \<lparr>kl_keypress = 7, kl_special = 8, kl_next = 0\<rparr>,
     0x700 \<mapsto> \<lparr>kl_keypress = 9, kl_special = 10, kl_next = 0\<rparr>], keyboard_listener_head := 0, keyboard_listener_last := 0\<rparr>"

lemma keys_read_in_order_witness:
  "\<exists>s. bindE (fkeylistener_init demo_image demo_listeners) (\<lambda>s. bindE (scrollkeylistener_init demo_image s) (keyboard_listener_init demo_image)) = Inr s \<and>
     bindE (press_keys (kernel_key_handlers demo_image (\<lambda>f. None) 3) s [104, 105]) (read_keys 3) = Inr [104, 105, 0]"
proof -
  let ?f = "\<lparr>kl_keypress = 7, kl_special = 8, kl_next = 0\<rparr>" and ?l = "\<lparr>kl_keypress = 9, kl_special = 10, kl_next = 0\<rparr>"
  let ?s = "demo_listeners\<lparr>listeners := (listeners demo_listeners)(0x600 \<mapsto> ?f\<lparr>kl_next := 0x700\<rparr>),
     keyboard_listener_head := 0x600, keyboard_listener_last := 0x600\<rparr>"
  have k: "bindE (fkeylistener_init demo_image demo_listeners) (\<lambda>s. bindE (scrollkeylistener_init demo_image s)
      (keyboard_listener_init demo_image)) = Inr ?s" "kernel_listeners demo_image ?s [0x600, 0x700]"
    using kernel_listeners_registered [of demo_image demo_listeners ?f ?l] by (simp_all add: demo_image_def demo_listeners_def)
  have d: "current_process ?s = 0x500" "process_at ?s 0x500 = Some zero_process"
    "current_task ?s \<noteq> 0" "tasks ?s (current_task ?s) = Some (zero_task\<lparr>tk_process := 0x500\<rparr>)"
    by (simp_all add: demo_listeners_def demo_keyboard_def)
  have "bindE (press_keys (kernel_key_handlers demo_image (\<lambda>f. None) 3) ?s [104, 105])
      (read_keys (Suc (length [104, 105 :: byte]))) = Inr ([104, 105] @ [0])"
    by (rule keys_read_in_order [OF _ d(1,2) zero_keys k(2) d(3,4)]) simp_all
  then show ?thesis using k(1) by (simp add: numeral_3_eq_3)
qed

text \<open>C39: A key typed into a full buffer of 1024 unread keys takes the place of the oldest unread key:
  that key is lost, and the new key is the next to be read.\<close>

theorem full_buffer_overwrites:
  assumes "keys_ok kb" "length (queued kb) = 1024" "c \<noteq> 0"
  shows "queued (buffer_push kb c) = c # tl (queued kb) \<and> fst (buffer_pop (buffer_push kb c)) = c"
proof -
  have l: "length (kb_buffer kb) = 1024" "kb_tail kb = kb_head kb + 1024"
    using assms(1,2) by (simp_all add: keys_ok_def)
  have s: "slot_from (buffer_push kb c) i = (if i = 0 then c else slot_from kb i)" if "i < 1024" for i
    using buffer_index_eq [OF that, of 0 "kb_head kb"] l
    by (auto simp: slot_from_def buffer_push_def keyboard_get_tail_index_def nth_list_update buffer_index_lap)
  have "queued (buffer_push kb c) = c # tl (queued kb)"
  proof (rule queued_eqI)
    show "length (c # tl (queued kb)) \<le> 1024" "0 \<notin> set (c # tl (queued kb))"
      using assms queued_props(3) [of kb] by (auto dest: list.set_sel(2) [rotated])
    fix i assume i: "i < length (c # tl (queued kb))"
    then show "slot_from (buffer_push kb c) i = (c # tl (queued kb)) ! i"
      using s [of i] assms(2) queued_props(2) [of i kb] by (cases i) (simp_all add: nth_tl)
  qed (use assms in simp)
  then show ?thesis by (simp add: buffer_pop_eq)
qed

lemma full_buffer_overwrites_witness:
  "queued (buffer_push \<lparr>kb_buffer = replicate 1024 97, kb_tail = 1024, kb_head = 0\<rparr> 98) = 98 # replicate 1023 97"
proof -
  let ?kb = "\<lparr>kb_buffer = replicate 1024 97, kb_tail = 1024, kb_head = 0\<rparr>"
  have s: "slot_from ?kb i = 97" for i by (simp add: slot_from_def)
  have q: "queued ?kb = replicate 1024 97" by (rule queued_eqI) (simp_all add: s)
  have "keys_ok ?kb" unfolding keys_ok_def q by auto
  from full_buffer_overwrites [OF this, of 98] show ?thesis by (simp add: q)
qed

text \<open>
  \<open>walk_meets hs key s p s' q\<close>: the walk that is at \<open>p\<close> in state \<open>s\<close> comes to \<open>q\<close> in state \<open>s'\<close>, by calling
  the functions of the listeners before it.
\<close>

inductive walk_meets ::
  "'a kstate_scheme key_handlers \<Rightarrow> byte \<Rightarrow> 'a kstate_scheme \<Rightarrow> addr \<Rightarrow> 'a kstate_scheme \<Rightarrow> addr \<Rightarrow> bool" for hs key where
  here: "walk_meets hs key s p s p"
| called: "p \<noteq> 0 \<Longrightarrow> listeners s p = Some l \<Longrightarrow> kl_keypress l \<noteq> 0 \<Longrightarrow> keypress_fn hs (kl_keypress l) key s = Inr s1 \<Longrightarrow>
    listeners s1 p = Some l1 \<Longrightarrow> walk_meets hs key s1 (kl_next l1) s' q \<Longrightarrow> walk_meets hs key s p s' q"

lemma walk_meets_loop: "walk_meets hs key s p s' q \<Longrightarrow> keypressed_loop hs s key p = keypressed_loop hs s' key q"
proof (induction rule: walk_meets.induct)
  case (called p s l s1 l1 s' q)
  then show ?case by (subst keypressed_loop.simps) (simp add: deref_Some)
qed simp

lemma silent_listener_loop:
  assumes "q \<noteq> 0" "listeners s q = Some l" "kl_keypress l = 0"
  shows "keypressed_loop hs s key q = None"
proof -
  have "\<not> (s' = s \<and> p = q)" if "keypressed_loop hs' s' key' p = Some y" for hs' s' key' p y
    by (rule keypressed_loop.raw_induct [where P = "\<lambda>hs s' key p y. \<not> (s' = s \<and> p = q)", OF _ that])
      (use assms in \<open>fastforce simp: deref_Some\<close>)
  then show ?thesis by (cases "keypressed_loop hs s key q") blast+
qed

text \<open>C40: The walk along the listeners never ends once it meets, first or after calling any number of others, a
  listener without a function for key presses: \<open>keyboard_listener_keypressed\<close> does not return, and the press
  of a key hangs the kernel.\<close>

theorem silent_listener_hangs:
  assumes "walk_meets hs key s (keyboard_listener_head s) s' q" "q \<noteq> 0" "listeners s' q = Some l" "kl_keypress l = 0"
  shows "keypressed_loop hs s key (keyboard_listener_head s) = None \<and> keyboard_listener_keypressed hs s key = Inl NoReturn"
  using walk_meets_loop [OF assms(1)] silent_listener_loop [OF assms(2-4)]
  by (simp add: keyboard_listener_keypressed_def ran_def)

text \<open>The kernel's first listener, and a silent one after it.\<close>

lemma silent_listener_hangs_witness:
  "keyboard_listener_keypressed (kernel_key_handlers demo_image (\<lambda>f. None) 3)
     (demo_listeners\<lparr>keyboard_listener_head := 0x600, listeners := [0x600 \<mapsto> \<lparr>kl_keypress = 7, kl_special = 8, kl_next = 0x800\<rparr>,
       0x800 \<mapsto> \<lparr>kl_keypress = 0, kl_special = 4, kl_next = 0\<rparr>]\<rparr>) 104 = Inl NoReturn"
proof -
  let ?hs = "kernel_key_handlers demo_image (\<lambda>f. None) 3"
  let ?s = "demo_listeners\<lparr>keyboard_listener_head := 0x600, listeners := [0x600 \<mapsto> \<lparr>kl_keypress = 7, kl_special = 8, kl_next = 0x800\<rparr>,
       0x800 \<mapsto> \<lparr>kl_keypress = 0, kl_special = 4, kl_next = 0\<rparr>]\<rparr>"
  have "walk_meets ?hs 104 ?s 0x600 ?s 0x800"
    by (rule walk_meets.called [where p = "0x600" and ?s1.0 = ?s and l = "\<lparr>kl_keypress = 7, kl_special = 8, kl_next = 0x800\<rparr>"
        and ?l1.0 = "\<lparr>kl_keypress = 7, kl_special = 8, kl_next = 0x800\<rparr>"])
      (use walk_meets.here [of ?hs 104 ?s "0x800"] in \<open>simp_all add: kernel_keypress demo_image_def\<close>)
  then show ?thesis using silent_listener_hangs [of ?hs 104 ?s ?s "0x800"] by simp
qed

section \<open>Scan codes\<close>

text \<open>What the rows of the main block of a US keyboard type, from their first scan code on.\<close>

definition typed :: "'a kstate_scheme \<Rightarrow> nat \<Rightarrow> nat \<Rightarrow> byte list" where
  "typed s first n = map (\<lambda>i. projr (classic_keyboard_scancode_to_char 0 s (of_nat (first + i)))) [0..<n]"

definition ascii :: "string \<Rightarrow> byte list" where
  "ascii cs = map of_char cs"

text \<open>The main block types the letters and digits of a US keyboard, small while caps lock is off and
  capital while it is on.\<close>

theorem main_block_types:
  assumes "length (special_keys s) = 17"
  shows "if special_keys s ! 12
    then typed s 2 10 = ascii ''1234567890'' \<and> typed s 0x10 10 = ascii ''QWERTYUIOP'' \<and>
      typed s 0x1E 9 = ascii ''ASDFGHJKL'' \<and> typed s 0x2C 7 = ascii ''ZXCVBNM''
    else typed s 2 10 = ascii ''1234567890'' \<and> typed s 0x10 10 = ascii ''qwertyuiop'' \<and>
      typed s 0x1E 9 = ascii ''asdfghjkl'' \<and> typed s 0x2C 7 = ascii ''zxcvbnm''"
  by (simp add: typed_def ascii_def upt_rec classic_keyboard_scancode_to_char_def keyboard_scan_set_one_def
      keyboard_is_special_on_def keyboard_assert_special_key_valid_def tolower_def)

lemma main_block_types_witness: "typed blank_kernel 0x10 10 = ascii ''qwertyuiop''"
  using main_block_types [of blank_kernel] by (simp add: blank_kernel_def)

text \<open>The keypad is decoded two keys off: the scan codes of 7, 8, 9 and minus, \<open>0x47\<close> to \<open>0x4A\<close>, of
  which 8 is also the cursor key up, give what the keys two places further on stand for, and the two
  codes before them, num lock and scroll lock, type 7 and 8.\<close>

lemma keypad_is_shifted:
  assumes "length (special_keys s) = 17"
  shows "typed s 0x45 13 = ascii ''789-456+1230.''"
  by (simp add: typed_def ascii_def upt_rec classic_keyboard_scancode_to_char_def keyboard_scan_set_one_def
      keyboard_is_special_on_def keyboard_assert_special_key_valid_def tolower_def)

text \<open>The table of special keys has the scan code of F5 twice and that of F8 not at all, so F6 and F7
  act as the key after them, nothing acts as F6, and F8 is not a special key; the other function
  keys are recognised.\<close>

lemma function_keys_recognised:
  "map classic_keyboard_scancode_special [0x3B, 0x3C, 0x3D, 0x3E, 0x3F, 0x40, 0x41, 0x42, 0x43, 0x44, 0x57, 0x58] =
     [0, 1, 2, 3, 4, 6, 7, - 1, 8, 9, 10, 11] \<and>
   classic_keyboard_scancode_special c \<noteq> 5"
  by (simp add: classic_keyboard_scancode_special_def keyboard_special_keys_set_one_def)

end
