(* ===== verification/IDT.thy ===== *)
theory IDT
  imports Keyboard
begin

text \<open>
  \<open>src/idt/idt.c\<close>, \<open>src/timer/pit.c\<close> and the handling of page faults in \<open>paging.c\<close>: the
  interrupt descriptor table, the callbacks of interrupts, the system calls, and the timer tick.
  The routines that a function pointer of a table leads to are arguments of the dispatchers.
\<close>

section \<open>Descriptors and callbacks\<close>

abbreviation (input) COS32_CODE_SELECTOR :: u16 where "COS32_CODE_SELECTOR \<equiv> 0x08"

definition idt_set :: "'a kstate_scheme \<Rightarrow> int \<Rightarrow> addr \<Rightarrow> 'a kstate_scheme outcome" where
  "idt_set s i address =
     bindE (ASSERT ''idt_set'' (i < 512)) (\<lambda>_.
     Inr (s\<lparr>idt_table := (idt_table s)[nat i :=
       \<lparr>idt_offset_1 = ucast (address AND 0x0000ffff), idt_selector = COS32_CODE_SELECTOR, idt_zero = 0,
        idt_type_attr = 0xEE, idt_offset_2 = ucast (drop_bit 16 address)\<rparr>]\<rparr>))"

definition idt_is_reserved :: "int \<Rightarrow> bool" where
  "idt_is_reserved interrupt \<longleftrightarrow> interrupt \<in> set [0x80]"

definition idt_function_is_valid :: "int \<Rightarrow> int" where
  "idt_function_is_valid interrupt =
     (if interrupt \<ge> 512 \<or> interrupt < 0 then - EINVARG
      else if idt_is_reserved interrupt then - EINVARG
      else COS32_ALL_OK)"

definition idt_register_interrupt_callback :: "'a kstate_scheme \<Rightarrow> int \<Rightarrow> addr \<Rightarrow> int \<times> 'a kstate_scheme" where
  "idt_register_interrupt_callback s interrupt interrupt_callback =
     (let res = idt_function_is_valid interrupt in
      if res < 0 then (res, s)
      else (res, s\<lparr>interrupt_callbacks := (interrupt_callbacks s)[nat interrupt := interrupt_callback]\<rparr>))"

text \<open>The two loops of \<open>idt_init\<close>, from entry \<open>i\<close> on.\<close>

fun set_all_loop :: "'a kstate_scheme \<Rightarrow> addr list \<Rightarrow> nat \<Rightarrow> 'a kstate_scheme outcome" where
  "set_all_loop s [] i = Inr s"
| "set_all_loop s (p # ps) i = bindE (idt_set s (int i) p) (\<lambda>s. set_all_loop s ps (Suc i))"

definition register_faults :: "'a kstate_scheme \<Rightarrow> addr \<Rightarrow> 'a kstate_scheme" where
  "register_faults s handler =
     fold (\<lambda>i s. snd (idt_register_interrupt_callback s (int i) handler)) [0..<0x20] s"

definition pit_init :: "image \<Rightarrow> 'a kstate_scheme \<Rightarrow> 'a kstate_scheme" where
  "pit_init im s = snd (idt_register_interrupt_callback s 0x20 (code_at im ''pit_interrupt''))"

text \<open>\<open>pointer_table\<close> is the table of the 512 interrupt wrappers in \<open>idt.asm\<close>.\<close>

definition idt_init :: "image \<Rightarrow> addr list \<Rightarrow> 'a kstate_scheme \<Rightarrow> 'a kstate_scheme outcome" where
  "idt_init im pointer_table s =
     (let s = s\<lparr>idt_table := replicate 512
            \<lparr>idt_offset_1 = 0, idt_selector = 0, idt_zero = 0, idt_type_attr = 0, idt_offset_2 = 0\<rparr>\<rparr> in
      bindE (set_all_loop s pointer_table 0) (\<lambda>s.
      bindE (idt_set s 0x80 (code_at im ''isr80h_wrapper'')) (\<lambda>s.
      let s = register_faults s (code_at im ''idt_general_protection_fault'') in
      bindE (idt_set s 0x0e (code_at im ''idt_page_fault'')) (\<lambda>s.
      Inr (pit_init im s)))))"

section \<open>System calls\<close>

definition isr80h_register_command :: "'a kstate_scheme \<Rightarrow> int \<Rightarrow> addr \<Rightarrow> 'a kstate_scheme outcome" where
  "isr80h_register_command s command_id command =
     (if command_id < 0 \<or> command_id \<ge> 128 then panic ''The command ID is out of bounds!''
      else if isr80h_commands s ! nat command_id \<noteq> 0
      then panic ''Your attempting to register a comamnd thats been taken!''
      else Inr (s\<lparr>isr80h_commands := (isr80h_commands s)[nat command_id := command]\<rparr>))"

text \<open>A command gives its result, or leaves for a task.\<close>

type_synonym 's command_fn = "addr \<Rightarrow> interrupt_frame \<Rightarrow> 's \<Rightarrow> (addr \<times> flow \<times> 's) outcome"

definition isr80h_handle_command ::
  "'a kstate_scheme command_fn \<Rightarrow> 'a kstate_scheme \<Rightarrow> int \<Rightarrow> interrupt_frame \<Rightarrow> (addr \<times> flow \<times> 'a kstate_scheme) outcome" where
  "isr80h_handle_command command_fn s command frame =
     (if command \<le> 0 \<or> command \<ge> 128 then Inr (0, Returns, s)
      else
        let command_func = isr80h_commands s ! nat command in
        if command_func = 0 then Inr (0, Returns, s)
        else command_fn command_func frame s)"

definition isr80h_handler ::
  "'a kstate_scheme command_fn \<Rightarrow> 'a kstate_scheme \<Rightarrow> int \<Rightarrow> interrupt_frame \<Rightarrow> (addr \<times> flow \<times> 'a kstate_scheme) outcome" where
  "isr80h_handler command_fn s command frame =
     bindE (kernel_page s) (\<lambda>s.
     bindE (task_current_save_state s frame) (\<lambda>s.
     bindE (isr80h_handle_command command_fn s command frame) (\<lambda>(res, fl, s).
     if fl = EntersTask then Inr (res, EntersTask, s)
     else
       bindE (deref (tasks s) (current_task s)) (\<lambda>t.
       if \<not> tk_awake t then bindE (task_next s) (\<lambda>s. Inr (res, EntersTask, s))
       else bindE (task_page s) (\<lambda>s. Inr (res, Returns, s))))))"

section \<open>Interrupts\<close>

text \<open>\<open>callback_fn\<close> is what an address in \<open>interrupt_callbacks\<close> leads to.\<close>

definition interrupt_handler ::
  "(addr \<Rightarrow> 'a kstate_scheme \<Rightarrow> (flow \<times> 'a kstate_scheme) outcome) \<Rightarrow> 'a kstate_scheme \<Rightarrow> int \<Rightarrow> interrupt_frame
   \<Rightarrow> (flow \<times> 'a kstate_scheme) outcome" where
  "interrupt_handler callback_fn s interrupt frame =
     bindE (kernel_page s) (\<lambda>s.
     let callback = interrupt_callbacks s ! nat interrupt in
     bindE (if callback \<noteq> 0
            then
              bindE (task_current_save_state (process_mark_running s False) frame) (\<lambda>s.
              bindE (callback_fn callback s) (\<lambda>(fl, s).
              Inr (fl, if fl = EntersTask then s else process_mark_running s True)))
            else Inr (Returns, s)) (\<lambda>(fl, s).
     if fl = EntersTask then Inr (fl, s)
     else bindE (task_page s) (\<lambda>s. Inr (Returns, s))))"

definition idt_general_protection_fault ::
  "image \<Rightarrow> 'a kstate_scheme fs_table \<Rightarrow> nat \<Rightarrow> 'a kstate_scheme \<Rightarrow> (flow \<times> 'a kstate_scheme) outcome" where
  "idt_general_protection_fault im fs_lookup depth s =
     bindE (process_crash im fs_lookup depth s (current_process s) (- 1)) (\<lambda>(_, s).
     bindE (task_next s) (\<lambda>s. Inr (EntersTask, s)))"

text \<open>\<open>bad_address\<close> is what CR2 holds; \<open>live\<close> is what the fault handlers do, as in \<open>Paging\<close>.\<close>

definition paging_handle_page_fault ::
  "(addr \<Rightarrow> addr \<Rightarrow> 'a kstate_scheme \<Rightarrow> bool \<times> 'a kstate_scheme) \<Rightarrow> image \<Rightarrow> 'a kstate_scheme fs_table \<Rightarrow> nat
   \<Rightarrow> addr \<Rightarrow> 'a kstate_scheme \<Rightarrow> (flow \<times> 'a kstate_scheme) outcome" where
  "paging_handle_page_fault live im fs_lookup depth bad_address s =
     bindE (paging_register_fault s (current_chunk s) bad_address) (\<lambda>(fault, s).
     let (handled, s) = live_fault_loop live (fault_handlers s) fault s in
     if handled then Inr (Returns, s)
     else
       bindE (is_kernel_page s) (\<lambda>k.
       if k then panic ''Unhandled page fault!''
       else
         bindE (kernel_page s) (\<lambda>s.
         bindE (deref (tasks s) (current_task s)) (\<lambda>t.
         bindE (process_crash im fs_lookup depth s (tk_process t) (- 1)) (\<lambda>(_, s).
         bindE (task_next s) (\<lambda>s. Inr (EntersTask, s)))))))"

definition idt_page_fault_handler ::
  "(addr \<Rightarrow> addr \<Rightarrow> 'a kstate_scheme \<Rightarrow> bool \<times> 'a kstate_scheme) \<Rightarrow> image \<Rightarrow> 'a kstate_scheme fs_table \<Rightarrow> nat
   \<Rightarrow> addr \<Rightarrow> 'a kstate_scheme \<Rightarrow> (flow \<times> 'a kstate_scheme) outcome" where
  "idt_page_fault_handler live im fs_lookup depth bad_address s =
     paging_handle_page_fault live im fs_lookup depth bad_address s"

text \<open>
  \<open>print_page_fault\<close> prints texts, which lie where the image has them (\<open>newline\<close> is the text of a line
  feed), and numbers through the buffer of \<open>itoa\<close>.
\<close>

definition print_number :: "image \<Rightarrow> u32 \<Rightarrow> 'a kstate_scheme \<Rightarrow> 'a kstate_scheme outcome" where
  "print_number im v s =
     (let (m, p) = itoa (km_ram s) (local_at im ''itoa.text'' 0) (sint v) in print (s\<lparr>km_ram := m\<rparr>) p)"

fun print_texts :: "image \<Rightarrow> string list \<Rightarrow> 'a kstate_scheme \<Rightarrow> 'a kstate_scheme outcome" where
  "print_texts im [] s = Inr s"
| "print_texts im (t # ts) s = bindE (print s (literal_at im t)) (print_texts im ts)"

definition page_entry_texts :: "u32 \<Rightarrow> string list" where
  "page_entry_texts page_entry =
     [if page_entry AND PAGING_ACCESS_FROM_ALL \<noteq> 0 then ''Access from user space: allowed''
      else ''Access from user space disallowed'',
      if page_entry AND PAGING_CACHE_DISABLED \<noteq> 0 then ''Cache disabled'' else ''Cache enabled'',
      if page_entry AND PAGING_PAGE_WRITEABLE \<noteq> 0 then ''Page is writeable'' else ''Page is not writeable'',
      if page_entry AND PAGING_PAGE_PRESENT \<noteq> 0 then ''Page is present'' else ''Page is not present'']"

definition print_page_fault :: "image \<Rightarrow> 'a kstate_scheme \<Rightarrow> u32 \<Rightarrow> 'a kstate_scheme outcome" where
  "print_page_fault im s bad_address =
     bindE (is_kernel_page s) (\<lambda>was_kernel_page.
     bindE (kernel_page s) (\<lambda>s.
     bindE (print_texts im [''newline'', ''ADDRESS: ''] s) (\<lambda>s.
     bindE (print_number im bad_address s) (\<lambda>s.
     bindE (print_texts im [''newline''] s) (\<lambda>s.
     let bad_page_address = paging_align_to_lower_page bad_address in
     bindE (task_directory s (current_task s)) (\<lambda>directory.
     bindE (paging_get (km_ram s) directory bad_page_address) (\<lambda>page_entry.
     bindE (print_texts im [''Page entry: ''] s) (\<lambda>s.
     bindE (print_number im page_entry s) (\<lambda>s.
     bindE (print_texts im (''newline'' # page_entry_texts page_entry) s) (\<lambda>s.
     let (directory_index, table_index) =
           (case paging_get_indexes bad_page_address of (res, None) \<Rightarrow> (0, 0) | (res, Some ix) \<Rightarrow> ix) in
     bindE (print_texts im [''Directory index:''] s) (\<lambda>s.
     bindE (print_number im directory_index s) (\<lambda>s.
     bindE (print_texts im [''newline'', ''Table index: ''] s) (\<lambda>s.
     bindE (print_number im table_index s) (\<lambda>s.
     print_texts im (''newline'' # (if was_kernel_page then [''Fault happend on the kernel page''] else [])) s))))))))))))))"

definition isr0_handler :: "'a kstate_scheme \<Rightarrow> 'a kstate_scheme outcome" where
  "isr0_handler s =
     (if process_is_running s then panic ''Divide by zero in process'' else panic ''Divide by zero in kernel'')"

definition isr_segment_not_present_handler :: "'a kstate_scheme outcome" where
  "isr_segment_not_present_handler = panic ''Invalid Segment, Segment not present.''"

definition isr_invalid_tss_handler :: "'a kstate_scheme outcome" where
  "isr_invalid_tss_handler = panic ''Bad TSS''"

section \<open>The timer\<close>

text \<open>\<open>past\<close> is what the fault handlers do with a past fault, as in \<open>Paging\<close>.\<close>

definition pit_interrupt ::
  "mmu \<Rightarrow> (addr \<Rightarrow> addr \<Rightarrow> 'a kstate_scheme \<Rightarrow> 'a kstate_scheme) \<Rightarrow> 'a kstate_scheme \<Rightarrow> (flow \<times> 'a kstate_scheme) outcome" where
  "pit_interrupt mmu past s =
     (let s = s\<lparr>ticks_since_initialized := ticks_since_initialized s + 55\<rparr> in
      bindE (ran (paging_process past s (current_chunk s))) (\<lambda>s.
      bindE (ran (paging_process past s (kernel_paging_chunk s))) (\<lambda>s.
      bindE (deref (process_at s) (current_process s)) (\<lambda>p.
      bindE (video_process mmu s (p_video p)) (\<lambda>s.
      bindE (task_process s) (\<lambda>s.
      bindE (task_next s) (\<lambda>s. Inr (EntersTask, s))))))))"

section \<open>The tables after initialisation\<close>

text \<open>The descriptor \<open>idt_set\<close> writes, and the address the processor reads in one.\<close>

definition gate :: "addr \<Rightarrow> idt_desc" where
  "gate a = \<lparr>idt_offset_1 = ucast (a AND 0x0000ffff), idt_selector = COS32_CODE_SELECTOR, idt_zero = 0,
     idt_type_attr = 0xEE, idt_offset_2 = ucast (drop_bit 16 a)\<rparr>"

definition gate_target :: "idt_desc \<Rightarrow> addr" where
  "gate_target d = ucast (idt_offset_1 d) OR push_bit 16 (ucast (idt_offset_2 d))"

lemma gate_target_gate [simp]: "gate_target (gate a) = a"
proof (rule bit_eqI)
  fix n assume "possible_bit TYPE(u32) n"
  then have n: "n < 32" by (simp add: possible_bit_word)
  have m: "(0x0000ffff :: u32) = mask 16" by (simp add: mask_numeral)
  show "bit (gate_target (gate a)) n = bit a n"
    using n unfolding gate_target_def gate_def m by (cases "n < 16") (auto simp: bit_simps)
qed

lemma idt_set_gate: "i < 512 \<Longrightarrow> idt_set s i a = Inr (s\<lparr>idt_table := (idt_table s)[nat i := gate a]\<rparr>)"
  by (simp add: idt_set_def gate_def)

lemma set_all_loop_result:
  "k + length ps \<le> 512 \<Longrightarrow> length (idt_table s) = 512 \<Longrightarrow>
   \<exists>t. set_all_loop s ps k = Inr (s\<lparr>idt_table := t\<rparr>) \<and> length t = 512 \<and>
     (\<forall>i<512. t ! i = (if k \<le> i \<and> i < k + length ps then gate (ps ! (i - k)) else idt_table s ! i))"
proof (induction ps arbitrary: s k)
  case Nil
  then show ?case by (intro exI [of _ "idt_table s"]) auto
next
  case (Cons p ps)
  let ?s = "s\<lparr>idt_table := (idt_table s)[k := gate p]\<rparr>"
  have "idt_set s (int k) p = Inr ?s" using Cons.prems(1) by (simp add: idt_set_gate)
  moreover have pr: "Suc k + length ps \<le> 512" "length (idt_table ?s) = 512" using Cons.prems by simp_all
  obtain t where t: "set_all_loop ?s ps (Suc k) = Inr (?s\<lparr>idt_table := t\<rparr>)" "length t = 512"
    "\<forall>i<512. t ! i = (if Suc k \<le> i \<and> i < Suc k + length ps then gate (ps ! (i - Suc k)) else idt_table ?s ! i)"
    using Cons.IH [OF pr] by blast
  have "t ! i = (if k \<le> i \<and> i < k + length (p # ps) then gate ((p # ps) ! (i - k)) else idt_table s ! i)" if i: "i < 512" for i
  proof (cases "i = k")
    case True
    then show ?thesis using t(3) [rule_format, OF i] Cons.prems by simp
  next
    case False
    then have "Suc k \<le> i \<and> i < Suc k + length ps \<longleftrightarrow> k \<le> i \<and> i < k + length (p # ps)" by auto
    moreover have "k \<le> i \<Longrightarrow> (p # ps) ! (i - k) = ps ! (i - Suc k)" using False by (simp add: nth_Cons')
    ultimately show ?thesis using t(3) [rule_format, OF i] False by simp
  qed
  ultimately show ?case using t(1,2) by (intro exI [of _ t]) simp
qed

lemma register_faults_prefix:
  "n \<le> 32 \<Longrightarrow> length (interrupt_callbacks s) = 512 \<Longrightarrow>
   fold (\<lambda>i s. snd (idt_register_interrupt_callback s (int i) h)) [0..<n] s =
   s\<lparr>interrupt_callbacks := replicate n h @ drop n (interrupt_callbacks s)\<rparr>"
proof (induction n)
  case (Suc n)
  let ?cs = "interrupt_callbacks s"
  have n: "n < 512" using Suc.prems(1) by simp
  have v: "idt_function_is_valid (int n) = 0"
    using Suc.prems(1) by (simp add: idt_function_is_valid_def idt_is_reserved_def)
  have d: "drop n ?cs = ?cs ! n # drop (Suc n) ?cs"
    using n Suc.prems(2) by (simp add: Cons_nth_drop_Suc)
  have "(replicate n h @ drop n ?cs)[n := h] = replicate (Suc n) h @ drop (Suc n) ?cs"
    unfolding d by (simp add: list_update_append replicate_app_Cons_same)
  then show ?case
    using Suc v by (simp only: upt_Suc_append fold_append fold.simps comp_apply id_apply)
      (simp add: idt_register_interrupt_callback_def)
qed simp

lemma idt_init_result:
  assumes "length ptrs = 512" "length (interrupt_callbacks s) = 512"
  shows "\<exists>s'. idt_init im ptrs s = Inr s' \<and> length (idt_table s') = 512 \<and>
    (\<forall>i<512. idt_table s' ! i = gate (if i = 0x80 then code_at im ''isr80h_wrapper''
       else if i = 0x0e then code_at im ''idt_page_fault'' else ptrs ! i)) \<and>
    (\<forall>i<512. interrupt_callbacks s' ! i = (if i < 0x20 then code_at im ''idt_general_protection_fault''
       else if i = 0x20 then code_at im ''pit_interrupt'' else interrupt_callbacks s ! i))"
proof -
  let ?z = "replicate 512 \<lparr>idt_offset_1 = 0, idt_selector = 0, idt_zero = 0, idt_type_attr = 0, idt_offset_2 = 0\<rparr>"
  let ?g = "code_at im ''idt_general_protection_fault''"
  let ?c = "replicate 32 ?g @ drop 32 (interrupt_callbacks s)"
  have z: "0 + length ptrs \<le> 512" "length (idt_table (s\<lparr>idt_table := ?z\<rparr>)) = 512" using assms by simp_all
  obtain t where t: "set_all_loop (s\<lparr>idt_table := ?z\<rparr>) ptrs 0 = Inr (s\<lparr>idt_table := t\<rparr>)" "length t = 512"
    "\<forall>i<512. t ! i = gate (ptrs ! i)"
    using set_all_loop_result [OF z] assms(1) by auto
  let ?t = "t[0x80 := gate (code_at im ''isr80h_wrapper''), 0x0e := gate (code_at im ''idt_page_fault'')]"
  have r: "register_faults (s\<lparr>idt_table := t[0x80 := gate (code_at im ''isr80h_wrapper'')]\<rparr>) ?g =
      s\<lparr>idt_table := t[0x80 := gate (code_at im ''isr80h_wrapper'')], interrupt_callbacks := ?c\<rparr>"
    unfolding register_faults_def using assms(2) by (subst register_faults_prefix) simp_all
  have i: "idt_init im ptrs s =
      Inr (s\<lparr>idt_table := ?t, interrupt_callbacks := ?c[32 := code_at im ''pit_interrupt'']\<rparr>)"
    unfolding idt_init_def Let_def
    by (simp add: t(1) idt_set_gate r [simplified])
      (simp add: pit_init_def idt_register_interrupt_callback_def idt_function_is_valid_def idt_is_reserved_def)
  have "?t ! i = gate (if i = 0x80 then code_at im ''isr80h_wrapper''
       else if i = 0x0e then code_at im ''idt_page_fault'' else ptrs ! i)" if "i < 512" for i
    using t(2,3) that by (simp add: nth_list_update)
  moreover have "?c[32 := code_at im ''pit_interrupt''] ! i = (if i < 0x20 then ?g
       else if i = 0x20 then code_at im ''pit_interrupt'' else interrupt_callbacks s ! i)" if "i < 512" for i
    using assms(2) that by (simp add: nth_list_update nth_append)
  ultimately show ?thesis using i t(2) by simp
qed

text \<open>C33: After \<open>idt_init\<close> every interrupt enters the routine meant for it: the gate of \<open>0x80\<close> leads to the
  system call wrapper, that of \<open>0x0e\<close> to the page fault routine and every other to its own wrapper;
  the callbacks of the 32 exceptions are the general protection handler and that of \<open>0x20\<close> the timer.\<close>

theorem idt_init_gates:
  assumes "length ptrs = 512" "length (interrupt_callbacks s) = 512"
  shows "\<exists>s'. idt_init im ptrs s = Inr s' \<and>
    (\<forall>i<512. gate_target (idt_table s' ! i) = (if i = 0x80 then code_at im ''isr80h_wrapper''
       else if i = 0x0e then code_at im ''idt_page_fault'' else ptrs ! i)) \<and>
    (\<forall>i<512. interrupt_callbacks s' ! i = (if i < 0x20 then code_at im ''idt_general_protection_fault''
       else if i = 0x20 then code_at im ''pit_interrupt'' else interrupt_callbacks s ! i))"
proof -
  obtain s' where "idt_init im ptrs s = Inr s'" "length (idt_table s') = 512"
    "\<forall>i<512. idt_table s' ! i = gate (if i = 0x80 then code_at im ''isr80h_wrapper''
       else if i = 0x0e then code_at im ''idt_page_fault'' else ptrs ! i)"
    "\<forall>i<512. interrupt_callbacks s' ! i = (if i < 0x20 then code_at im ''idt_general_protection_fault''
       else if i = 0x20 then code_at im ''pit_interrupt'' else interrupt_callbacks s ! i)"
    using idt_init_result [OF assms, of im] by (elim exE conjE) (rule that)
  then show ?thesis by (intro exI [of _ s'] conjI allI impI) (simp_all only: gate_target_gate)
qed

definition demo_image :: image where
  "demo_image = \<lparr>local_at = \<lambda>v n. 0x9000, literal_at = \<lambda>t. 0x8000, code_at = \<lambda>f. 0x7000\<rparr>"

lemma idt_init_gates_witness:
  "\<exists>s'. idt_init demo_image (replicate 512 7) blank_kernel = Inr s' \<and> gate_target (idt_table s' ! 3) = 7 \<and>
    interrupt_callbacks s' ! 0x20 = code_at demo_image ''pit_interrupt''"
proof -
  obtain s' where s: "idt_init demo_image (replicate 512 7) blank_kernel = Inr s'"
    and g: "\<forall>i<512. gate_target (idt_table s' ! i) = (if i = 0x80 then code_at demo_image ''isr80h_wrapper''
       else if i = 0x0e then code_at demo_image ''idt_page_fault'' else (replicate 512 7) ! i)"
    and c: "\<forall>i<512. interrupt_callbacks s' ! i = (if i < 0x20 then code_at demo_image ''idt_general_protection_fault''
       else if i = 0x20 then code_at demo_image ''pit_interrupt'' else interrupt_callbacks blank_kernel ! i)"
    using idt_init_gates [of "replicate 512 7" blank_kernel demo_image] by (auto simp: blank_kernel_def)
  then show ?thesis using g [rule_format, of 3] c [rule_format, of "0x20"] by simp
qed

section \<open>System calls reach their commands\<close>

text \<open>A system call runs the command registered under its number and no other; a number without a
  command, out of range, or 0, which can be registered, gives 0 and changes nothing.\<close>

theorem system_calls_dispatch:
  assumes "isr80h_register_command s c cmd = Inr s'" "cmd \<noteq> 0" "length (isr80h_commands s) = 128"
  shows "0 \<le> c \<and> c < 128 \<and>
    isr80h_handle_command fn s' n frame =
      (if n \<le> 0 \<or> 128 \<le> n then Inr (0, Returns, s')
       else if n = c then fn cmd frame s'
       else if isr80h_commands s ! nat n = 0 then Inr (0, Returns, s')
       else fn (isr80h_commands s ! nat n) frame s')"
proof -
  have c: "0 \<le> c" "c < 128" and s': "s' = s\<lparr>isr80h_commands := (isr80h_commands s)[nat c := cmd]\<rparr>"
    using assms(1) by (auto simp: isr80h_register_command_def panic_def split: if_splits)
  have "(isr80h_commands s)[nat c := cmd] ! nat n = (if n = c then cmd else isr80h_commands s ! nat n)" if "0 < n" "n < 128"
    using c that assms(3) by (auto simp: nth_list_update nat_less_iff)
  then show ?thesis using c assms(2) by (auto simp: isr80h_handle_command_def s' Let_def)
qed

definition demo_frame :: interrupt_frame where
  "demo_frame = \<lparr>if_edi = 0, if_esi = 0, if_ebp = 0, if_reserved = 0, if_ebx = 0, if_edx = 0, if_ecx = 0, if_eax = 3,
     if_ip = 0x400000, if_cs = 0x1B, if_flags = 0x202, if_esp = 0x3FF000, if_ss = 0x23\<rparr>"

lemma system_calls_dispatch_witness:
  "isr80h_handle_command (\<lambda>f frame s. Inr (f, Returns, s)) (blank_kernel\<lparr>isr80h_commands := (replicate 128 0)[3 := 0x700]\<rparr>) 3 demo_frame =
     Inr (0x700, Returns, blank_kernel\<lparr>isr80h_commands := (replicate 128 0)[3 := 0x700]\<rparr>)"
proof -
  have "isr80h_register_command blank_kernel 3 0x700 = Inr (blank_kernel\<lparr>isr80h_commands := (replicate 128 0)[3 := 0x700]\<rparr>)"
    by (simp add: isr80h_register_command_def blank_kernel_def)
  from system_calls_dispatch [OF this, of "\<lambda>f frame s. Inr (f, Returns, s)" 3 demo_frame] show ?thesis
    by (simp add: blank_kernel_def)
qed

end
