(* ===== verification/Syscalls.thy ===== *)
theory Syscalls
  imports IDT
begin

text \<open>
  \<open>src/isr80h\<close>: the system calls a program makes through interrupt 0x80, each reading its
  arguments from the program's stack, and their registration.
\<close>

section \<open>Arguments\<close>

abbreviation (input) item :: "mmu \<Rightarrow> 'a kstate_scheme \<Rightarrow> int \<Rightarrow> (u32 \<times> 'a kstate_scheme) outcome" where
  "item \<equiv> task_current_get_stack_item"

text \<open>A string of the program copied to the routine's buffer of 1024 bytes.\<close>

definition user_string :: "image \<Rightarrow> mmu \<Rightarrow> 'a kstate_scheme \<Rightarrow> addr \<Rightarrow> (int \<times> addr \<times> 'a kstate_scheme) outcome" where
  "user_string im mmu s p =
     (let buf = local_at im ''isr80h.buf'' 0 in
      bindE (copy_string_from_task mmu s (current_task s) p buf 1024) (\<lambda>(res, s). Inr (res, buf, s)))"

definition current_task_process :: "'a kstate_scheme \<Rightarrow> addr outcome" where
  "current_task_process s = bindE (deref (tasks s) (current_task s)) (\<lambda>t. Inr (tk_process t))"

section \<open>Input and output\<close>

definition isr80h_command1_print :: "image \<Rightarrow> mmu \<Rightarrow> 'a kstate_scheme \<Rightarrow> (addr \<times> flow \<times> 'a kstate_scheme) outcome" where
  "isr80h_command1_print im mmu s =
     bindE (item mmu s 0) (\<lambda>(msg_user_space_addr, s).
     bindE (user_string im mmu s msg_user_space_addr) (\<lambda>(res, buf, s).
     bindE (ASSERT ''isr80h_command1_print'' (res = 0)) (\<lambda>_.
     bindE (task_print s buf) (\<lambda>s. Inr (0, Returns, s)))))"

definition isr80h_command2_get_key :: "'a kstate_scheme \<Rightarrow> (addr \<times> flow \<times> 'a kstate_scheme) outcome" where
  "isr80h_command2_get_key s = bindE (keyboard_pop s) (\<lambda>(key, s). Inr (scast key, Returns, s))"

definition isr80h_command4_putchar :: "mmu \<Rightarrow> 'a kstate_scheme \<Rightarrow> (addr \<times> flow \<times> 'a kstate_scheme) outcome" where
  "isr80h_command4_putchar mmu s =
     bindE (item mmu s 0) (\<lambda>(c, s).
     bindE (task_putchar s (ucast c)) (\<lambda>s. Inr (0, Returns, s)))"

text \<open>The two numbers are the addresses of symbols the linker sets.\<close>

definition isr80h_command3_get_kernel_info ::
  "image \<Rightarrow> mmu \<Rightarrow> 'a kstate_scheme \<Rightarrow> (addr \<times> flow \<times> 'a kstate_scheme) outcome" where
  "isr80h_command3_get_kernel_info im mmu s =
     bindE (item mmu s 0) (\<lambda>(info, s).
     bindE (copy_integer_to_task mmu s (current_task s) (info + 4) (sint (code_at im ''__BUILD_NUMBER''))) (\<lambda>(_, s).
     bindE (copy_integer_to_task mmu s (current_task s) info (sint (code_at im ''__BUILD_DATE''))) (\<lambda>(_, s).
     Inr (0, Returns, s))))"

section \<open>Processes\<close>

definition isr80h_command5_malloc :: "mmu \<Rightarrow> 'a kstate_scheme \<Rightarrow> (addr \<times> flow \<times> 'a kstate_scheme) outcome" where
  "isr80h_command5_malloc mmu s =
     bindE (item mmu s 0) (\<lambda>(sz, s).
     bindE (task_malloc s (current_task s) (sint sz)) (\<lambda>(p, s). Inr (p, Returns, s)))"

definition isr80h_command6_invoke ::
  "image \<Rightarrow> mmu \<Rightarrow> 'a kstate_scheme fs_table \<Rightarrow> nat \<Rightarrow> 'a kstate_scheme \<Rightarrow> (addr \<times> flow \<times> 'a kstate_scheme) outcome" where
  "isr80h_command6_invoke im mmu fs_lookup depth s =
     bindE (item mmu s 0) (\<lambda>(root_command_argument, s).
     bindE (process_run_for_argument im fs_lookup depth s root_command_argument 0 0) (\<lambda>(res, s).
     Inr (word_of_int res, Returns, s)))"

definition isr80h_command7_sleep :: "mmu \<Rightarrow> 'a kstate_scheme \<Rightarrow> (addr \<times> flow \<times> 'a kstate_scheme) outcome" where
  "isr80h_command7_sleep mmu s =
     bindE (item mmu s 0) (\<lambda>(sleep_seconds, s).
     bindE (task_usleep s (current_task s) (sleep_seconds * 1000)) (\<lambda>(fl, s). Inr (0, fl, s)))"

definition isr80h_command19_process_get_arguments ::
  "mmu \<Rightarrow> 'a kstate_scheme \<Rightarrow> (addr \<times> flow \<times> 'a kstate_scheme) outcome" where
  "isr80h_command19_process_get_arguments mmu s =
     bindE (current_task_process s) (\<lambda>process.
     bindE (item mmu s 0) (\<lambda>(v, s).
     bindE (task_virtual_address_to_physical s (current_task s) v) (\<lambda>(arguments, s).
     bindE (deref (process_at s) process) (\<lambda>p.
     let (argc, argv) = process_get_arguments p;
         m = store32 (km_ram s) arguments (word_of_int argc);
         m = store32 m (arguments + 4) argv in
     Inr (0, Returns, s\<lparr>km_ram := m\<rparr>)))))"

section \<open>Video\<close>

definition isr80h_command8_video_rectangle_new :: "mmu \<Rightarrow> 'a kstate_scheme \<Rightarrow> (addr \<times> flow \<times> 'a kstate_scheme) outcome" where
  "isr80h_command8_video_rectangle_new mmu s =
     bindE (item mmu s 3) (\<lambda>(abs_x, s). bindE (item mmu s 2) (\<lambda>(abs_y, s).
     bindE (item mmu s 1) (\<lambda>(width, s). bindE (item mmu s 0) (\<lambda>(height, s).
     bindE (deref (process_at s) (current_process s)) (\<lambda>p.
     bindE (video_rectangle_new s (p_video p) (sint abs_x) (sint abs_y) (sint width) (sint height)) (\<lambda>(r, s).
     Inr (r, Returns, s)))))))"

definition isr80h_command9_video_rectangle_set_pixel :: "mmu \<Rightarrow> 'a kstate_scheme \<Rightarrow> (addr \<times> flow \<times> 'a kstate_scheme) outcome" where
  "isr80h_command9_video_rectangle_set_pixel mmu s =
     bindE (item mmu s 3) (\<lambda>(rect, s). bindE (item mmu s 2) (\<lambda>(x, s).
     bindE (item mmu s 1) (\<lambda>(y, s). bindE (item mmu s 0) (\<lambda>(colour, s).
     bindE (video_rectangle_set_pixel s rect (sint x) (sint y) (ucast colour)) (\<lambda>(res, s).
     Inr (word_of_int res, Returns, s))))))"

definition isr80h_command10_video_rectangle_fill :: "mmu \<Rightarrow> 'a kstate_scheme \<Rightarrow> (addr \<times> flow \<times> 'a kstate_scheme) outcome" where
  "isr80h_command10_video_rectangle_fill mmu s =
     bindE (item mmu s 1) (\<lambda>(rect, s). bindE (item mmu s 0) (\<lambda>(colour, s).
     bindE (video_rectangle_fill s rect (sint colour)) (\<lambda>(res, s). Inr (word_of_int res, Returns, s))))"

definition isr80h_command11_video_rectangle_draw_block :: "mmu \<Rightarrow> 'a kstate_scheme \<Rightarrow> (addr \<times> flow \<times> 'a kstate_scheme) outcome" where
  "isr80h_command11_video_rectangle_draw_block mmu s =
     bindE (item mmu s 5) (\<lambda>(pixels_per_row, s). bindE (item mmu s 4) (\<lambda>(total_rows, s).
     bindE (item mmu s 3) (\<lambda>(absy, s). bindE (item mmu s 2) (\<lambda>(absx, s).
     bindE (item mmu s 1) (\<lambda>(ptr, s). bindE (item mmu s 0) (\<lambda>(rect, s).
     bindE (video_rectangle_draw_block s rect ptr (sint absx) (sint absy) (sint total_rows) (sint pixels_per_row)) (\<lambda>s.
     Inr (0, Returns, s))))))))"

definition isr80h_command12_video_rectangle_draw_blocks :: "mmu \<Rightarrow> 'a kstate_scheme \<Rightarrow> (addr \<times> flow \<times> 'a kstate_scheme) outcome" where
  "isr80h_command12_video_rectangle_draw_blocks mmu s =
     bindE (item mmu s 6) (\<lambda>(tot, s). bindE (item mmu s 5) (\<lambda>(pixels_per_row, s).
     bindE (item mmu s 4) (\<lambda>(total_rows, s). bindE (item mmu s 3) (\<lambda>(absy, s).
     bindE (item mmu s 2) (\<lambda>(absx, s). bindE (item mmu s 1) (\<lambda>(ptr, s). bindE (item mmu s 0) (\<lambda>(rect, s).
     bindE (video_rectangle_draw_blocks s rect ptr (sint absx) (sint absy) (sint total_rows) (sint pixels_per_row)
              (sint tot)) (\<lambda>s. Inr (0, Returns, s)))))))))"

definition isr80h_command16_rectangle_draw_font_data :: "mmu \<Rightarrow> 'a kstate_scheme \<Rightarrow> (addr \<times> flow \<times> 'a kstate_scheme) outcome" where
  "isr80h_command16_rectangle_draw_font_data mmu s =
     bindE (item mmu s 0) (\<lambda>(tot, s). bindE (item mmu s 1) (\<lambda>(absy, s).
     bindE (item mmu s 2) (\<lambda>(absx, s). bindE (item mmu s 3) (\<lambda>(ptr, s).
     bindE (item mmu s 4) (\<lambda>(font, s). bindE (item mmu s 5) (\<lambda>(rect, s).
     bindE (video_rectangle_draw_font_data s rect font ptr (sint absx) (sint absy) (sint tot)) (\<lambda>s.
     Inr (0, Returns, s))))))))"

definition isr80h_command17_rectangle_publish :: "image \<Rightarrow> mmu \<Rightarrow> 'a kstate_scheme \<Rightarrow> (addr \<times> flow \<times> 'a kstate_scheme) outcome" where
  "isr80h_command17_rectangle_publish im mmu s =
     bindE (item mmu s 0) (\<lambda>(user_space_rectangle_name, s). bindE (item mmu s 1) (\<lambda>(video_rect_addr, s).
     bindE (user_string im mmu s user_space_rectangle_name) (\<lambda>(_, buf, s).
     bindE (video_rectangle_publish s buf (str_at (km_ram s) buf) video_rect_addr) (\<lambda>(res, s).
     Inr (word_of_int res, Returns, s)))))"

definition isr80h_command18_rectangle_get :: "image \<Rightarrow> mmu \<Rightarrow> 'a kstate_scheme \<Rightarrow> (addr \<times> flow \<times> 'a kstate_scheme) outcome" where
  "isr80h_command18_rectangle_get im mmu s =
     bindE (item mmu s 0) (\<lambda>(user_space_rectangle_name, s).
     bindE (user_string im mmu s user_space_rectangle_name) (\<lambda>(_, buf, s).
     bindE (video_rectangle_get s (str_at (km_ram s) buf)) (\<lambda>r. Inr (r, Returns, s))))"

definition isr80h_command20_video_buffer_flush :: "mmu \<Rightarrow> 'a kstate_scheme \<Rightarrow> (addr \<times> flow \<times> 'a kstate_scheme) outcome" where
  "isr80h_command20_video_buffer_flush mmu s =
     bindE (current_task_process s) (\<lambda>process.
     bindE (deref (process_at s) process) (\<lambda>p.
     bindE (video_draw mmu s (p_video p)) (\<lambda>s. Inr (0, Returns, s))))"

definition isr80h_command21_video_clear_flag :: "mmu \<Rightarrow> 'a kstate_scheme \<Rightarrow> (addr \<times> flow \<times> 'a kstate_scheme) outcome" where
  "isr80h_command21_video_clear_flag mmu s =
     bindE (item mmu s 0) (\<lambda>(flag, s).
     bindE (current_task_process s) (\<lambda>process.
     bindE (deref (process_at s) process) (\<lambda>p.
     bindE (upd_video (p_video p) (\<lambda>v. v\<lparr>v_flags := v_flags v AND NOT (ucast flag)\<rparr>) s) (\<lambda>s.
     Inr (0, Returns, s)))))"

section \<open>Fonts\<close>

definition isr80h_command13_font_get :: "image \<Rightarrow> mmu \<Rightarrow> 'a kstate_scheme \<Rightarrow> (addr \<times> flow \<times> 'a kstate_scheme) outcome" where
  "isr80h_command13_font_get im mmu s =
     bindE (item mmu s 0) (\<lambda>(font_name_user_space_addr, s).
     bindE (user_string im mmu s font_name_user_space_addr) (\<lambda>(res, buf, s).
     bindE (ASSERT ''isr80h_command13_font_get'' (res = 0)) (\<lambda>_.
     bindE (video_font_get s (str_at (km_ram s) buf)) (\<lambda>f. Inr (f, Returns, s)))))"

definition isr80h_command14_font_draw :: "image \<Rightarrow> mmu \<Rightarrow> 'a kstate_scheme \<Rightarrow> (addr \<times> flow \<times> 'a kstate_scheme) outcome" where
  "isr80h_command14_font_draw im mmu s =
     bindE (item mmu s 2) (\<lambda>(font, s). bindE (item mmu s 1) (\<lambda>(out, s). bindE (item mmu s 0) (\<lambda>(text, s).
     bindE (user_string im mmu s text) (\<lambda>(_, buf, s).
     bindE (video_font_draw s font out buf) (\<lambda>s. Inr (0, Returns, s))))))"

definition isr80h_command_15_font_make_empty_string :: "mmu \<Rightarrow> 'a kstate_scheme \<Rightarrow> (addr \<times> flow \<times> 'a kstate_scheme) outcome" where
  "isr80h_command_15_font_make_empty_string mmu s =
     bindE (item mmu s 1) (\<lambda>(font, s). bindE (item mmu s 0) (\<lambda>(len, s).
     bindE (current_task_process s) (\<lambda>process.
     bindE (video_font_make_empty_string_for_process s process font (sint len)) (\<lambda>(p, s). Inr (p, Returns, s)))))"

section \<open>Registration\<close>

text \<open>The commands in the order of \<open>enum SystemCommands\<close>, from 1 on, with what they do.\<close>

definition system_commands ::
  "image \<Rightarrow> mmu \<Rightarrow> 'a kstate_scheme fs_table \<Rightarrow> nat
   \<Rightarrow> (string \<times> ('a kstate_scheme \<Rightarrow> (addr \<times> flow \<times> 'a kstate_scheme) outcome)) list" where
  "system_commands im mmu fs_lookup depth = [
     (''isr80h_command1_print'', isr80h_command1_print im mmu),
     (''isr80h_command2_get_key'', isr80h_command2_get_key),
     (''isr80h_command3_get_kernel_info'', isr80h_command3_get_kernel_info im mmu),
     (''isr80h_command4_putchar'', isr80h_command4_putchar mmu),
     (''isr80h_command5_malloc'', isr80h_command5_malloc mmu),
     (''isr80h_command6_invoke'', isr80h_command6_invoke im mmu fs_lookup depth),
     (''isr80h_command7_sleep'', isr80h_command7_sleep mmu),
     (''isr80h_command8_video_rectangle_new'', isr80h_command8_video_rectangle_new mmu),
     (''isr80h_command9_video_rectangle_set_pixel'', isr80h_command9_video_rectangle_set_pixel mmu),
     (''isr80h_command10_video_rectangle_fill'', isr80h_command10_video_rectangle_fill mmu),
     (''isr80h_command11_video_rectangle_draw_block'', isr80h_command11_video_rectangle_draw_block mmu),
     (''isr80h_command12_video_rectangle_draw_blocks'', isr80h_command12_video_rectangle_draw_blocks mmu),
     (''isr80h_command13_font_get'', isr80h_command13_font_get im mmu),
     (''isr80h_command14_font_draw'', isr80h_command14_font_draw im mmu),
     (''isr80h_command_15_font_make_empty_string'', isr80h_command_15_font_make_empty_string mmu),
     (''isr80h_command16_rectangle_draw_font_data'', isr80h_command16_rectangle_draw_font_data mmu),
     (''isr80h_command17_rectangle_publish'', isr80h_command17_rectangle_publish im mmu),
     (''isr80h_command18_rectangle_get'', isr80h_command18_rectangle_get im mmu),
     (''isr80h_command19_process_get_arguments'', isr80h_command19_process_get_arguments mmu),
     (''isr80h_command20_video_buffer_flush'', isr80h_command20_video_buffer_flush mmu),
     (''isr80h_command21_video_clear_flag'', isr80h_command21_video_clear_flag mmu)]"

fun register_from :: "image \<Rightarrow> 'a kstate_scheme \<Rightarrow> int \<Rightarrow> string list \<Rightarrow> 'a kstate_scheme outcome" where
  "register_from im s i [] = Inr s"
| "register_from im s i (n # ns) =
     bindE (isr80h_register_command s i (code_at im n)) (\<lambda>s. register_from im s (i + 1) ns)"

definition isr80h_register_all :: "image \<Rightarrow> mmu \<Rightarrow> 'a kstate_scheme fs_table \<Rightarrow> nat \<Rightarrow> 'a kstate_scheme \<Rightarrow> 'a kstate_scheme outcome" where
  "isr80h_register_all im mmu fs_lookup depth s =
     register_from im s 1 (map fst (system_commands im mmu fs_lookup depth))"

text \<open>What an address of the command table leads to.\<close>

definition kernel_command :: "image \<Rightarrow> mmu \<Rightarrow> 'a kstate_scheme fs_table \<Rightarrow> nat \<Rightarrow> 'a kstate_scheme command_fn" where
  "kernel_command im mmu fs_lookup depth f frame s =
     (case find (\<lambda>(n, _). code_at im n = f) (system_commands im mmu fs_lookup depth) of
        None \<Rightarrow> Inl (BadPointer f)
      | Some (_, run) \<Rightarrow> run s)"

section \<open>A system call runs its command\<close>

lemma register_from_result:
  assumes "length (isr80h_commands s) = 128" "i + length ns \<le> 128" "\<forall>j<length ns. isr80h_commands s ! (i + j) = 0"
  shows "\<exists>cs. register_from im s (int i) ns = Inr (s\<lparr>isr80h_commands := cs\<rparr>) \<and> length cs = 128 \<and>
    (\<forall>j<length ns. cs ! (i + j) = code_at im (ns ! j)) \<and> (\<forall>j. j < i \<or> i + length ns \<le> j \<longrightarrow> cs ! j = isr80h_commands s ! j)"
  using assms
proof (induction ns arbitrary: s i)
  case Nil
  then show ?case by (intro exI [of _ "isr80h_commands s"]) simp
next
  case (Cons n ns)
  let ?c = "(isr80h_commands s)[i := code_at im n]"
  let ?s = "s\<lparr>isr80h_commands := ?c\<rparr>"
  have "isr80h_commands s ! i = 0" using Cons.prems(3) [rule_format, of 0] by simp
  then have r: "isr80h_register_command s (int i) (code_at im n) = Inr ?s"
    using Cons.prems(2) by (simp add: isr80h_register_command_def)
  have z: "\<forall>j<length ns. isr80h_commands ?s ! (Suc i + j) = 0"
    using Cons.prems(3) by (auto dest: spec [of _ "Suc _"])
  obtain cs where cs: "register_from im ?s (int (Suc i)) ns = Inr (?s\<lparr>isr80h_commands := cs\<rparr>)" "length cs = 128"
    "\<forall>j<length ns. cs ! (Suc i + j) = code_at im (ns ! j)" "\<forall>j. j < Suc i \<or> Suc i + length ns \<le> j \<longrightarrow> cs ! j = isr80h_commands ?s ! j"
    using Cons.IH [of ?s "Suc i"] Cons.prems(1,2) z by auto
  have e: "int i + 1 = int (Suc i)" by simp
  have "register_from im s (int i) (n # ns) = Inr (s\<lparr>isr80h_commands := cs\<rparr>)"
    using r cs(1) by (simp add: e del: of_nat_Suc)
  moreover have "cs ! (i + j) = code_at im ((n # ns) ! j)" if "j < length (n # ns)" for j
    using that cs(3,4) Cons.prems(1,2) by (cases j) auto
  moreover have "cs ! j = isr80h_commands s ! j" if "j < i \<or> i + length (n # ns) \<le> j" for j
    using cs(4) that by auto
  ultimately show ?case using cs(2) by blast
qed

lemma find_command:
  assumes "inj_on f (set (map fst xs))" "distinct (map fst xs)" "i < length xs"
  shows "find (\<lambda>x. f (fst x) = f (fst (xs ! i))) xs = Some (xs ! i)"
  using assms
proof (induction xs arbitrary: i)
  case (Cons x xs)
  show ?case
  proof (cases i)
    case (Suc j)
    then have j: "xs ! j \<in> set xs" using Cons.prems(3) by simp
    then have "fst x \<noteq> fst (xs ! j)" using Cons.prems(2) by (metis distinct.simps(2) list.simps(9) nth_map nth_mem image_eqI list.set_map)
    then have "f (fst x) \<noteq> f (fst (xs ! j))" using Cons.prems(1) j by (auto simp: inj_on_def)
    moreover have "find (\<lambda>x. f (fst x) = f (fst (xs ! j))) xs = Some (xs ! j)"
      using Cons Suc by (intro Cons.IH) (auto simp: inj_on_def)
    ultimately show ?thesis using Suc by simp
  qed simp
qed simp

lemma system_commands_names:
  "length (system_commands im mmu fs_lookup depth) = 21" "distinct (map fst (system_commands im mmu fs_lookup depth))"
  by (simp_all add: system_commands_def)

text \<open>A table that holds the commands, each at its number, and nothing else serves them.\<close>

lemma command_table_serves:
  fixes t :: "'a kstate_scheme"
  assumes "inj_on (code_at im) (set (map fst (system_commands im mmu fs_lookup depth :: (string \<times> ('a kstate_scheme \<Rightarrow> _)) list)))"
    and "0 \<notin> code_at im ` set (map fst (system_commands im mmu fs_lookup depth :: (string \<times> ('a kstate_scheme \<Rightarrow> _)) list))"
    and "\<forall>j<21. isr80h_commands t ! (1 + j) = code_at im (fst ((system_commands im mmu fs_lookup depth :: (string \<times> ('a kstate_scheme \<Rightarrow> _)) list) ! j))"
    and "\<forall>j. 22 \<le> j \<longrightarrow> j < 128 \<longrightarrow> isr80h_commands t ! j = 0"
  shows "isr80h_handle_command (kernel_command im mmu fs_lookup depth) t n frame =
      (if 1 \<le> n \<and> n \<le> 21 then snd (system_commands im mmu fs_lookup depth ! nat (n - 1)) t else Inr (0, Returns, t))"
proof (cases "1 \<le> n \<and> n \<le> 21")
  case True
  let ?cmds = "system_commands im mmu fs_lookup depth :: (string \<times> ('a kstate_scheme \<Rightarrow> _)) list"
  define j where "j = nat (n - 1)"
  have j: "n = int (1 + j)" "j < 21" "nat n = 1 + j" using True unfolding j_def by linarith+
  have jl: "j < length ?cmds" using j(2) by (simp add: system_commands_names)
  have c: "isr80h_commands t ! nat n = code_at im (fst (?cmds ! j))" using assms(3) j(2,3) by simp
  have "fst (?cmds ! j) \<in> set (map fst ?cmds)" using jl by simp
  then have "code_at im (fst (?cmds ! j)) \<noteq> 0" using assms(2) by (metis imageI)
  moreover have "find (\<lambda>x. code_at im (fst x) = code_at im (fst (?cmds ! j))) ?cmds = Some (?cmds ! j)"
    by (rule find_command [OF assms(1) system_commands_names(2) jl])
  ultimately show ?thesis
    using True j(2) c by (simp add: isr80h_handle_command_def kernel_command_def Let_def case_prod_unfold flip: j_def)
next
  case False
  have "isr80h_commands t ! nat n = 0" if "0 < n" "n < 128"
    using assms(4) False that by simp
  then show ?thesis using False by (auto simp: isr80h_handle_command_def)
qed

text \<open>C16: After the start of the kernel, interrupt 0x80 with the number of a command of
  \<open>SystemCommands\<close> runs that command, on whatever state the kernel is then in, as long as the table
  keeps what was registered; every other number gives 0 and changes nothing.\<close>

theorem system_calls_served:
  assumes "isr80h_commands s = replicate 128 0"
    and "inj_on (code_at im) (set (map fst (system_commands im mmu fs_lookup depth)))"
    and "0 \<notin> code_at im ` set (map fst (system_commands im mmu fs_lookup depth))"
  shows "\<exists>s'. isr80h_register_all im mmu fs_lookup depth s = Inr s' \<and>
    (\<forall>t n frame. isr80h_commands t = isr80h_commands s' \<longrightarrow>
       isr80h_handle_command (kernel_command im mmu fs_lookup depth) t n frame =
         (if 1 \<le> n \<and> n \<le> 21 then snd (system_commands im mmu fs_lookup depth ! nat (n - 1)) t else Inr (0, Returns, t)))"
proof -
  let ?cmds = "system_commands im mmu fs_lookup depth"
  let ?names = "map fst ?cmds"
  have len: "length ?names = 21" by (simp add: system_commands_names)
  have "length (isr80h_commands s) = 128" "1 + length ?names \<le> 128" "\<forall>j<length ?names. isr80h_commands s ! (1 + j) = 0"
    unfolding len assms(1) by simp_all
  from register_from_result [OF this, of im]
  obtain cs where cs: "register_from im s (int 1) ?names = Inr (s\<lparr>isr80h_commands := cs\<rparr>)" "length cs = 128"
    "\<forall>j<21. cs ! (1 + j) = code_at im (?names ! j)" "\<forall>j. j < 1 \<or> 1 + 21 \<le> j \<longrightarrow> cs ! j = isr80h_commands s ! j"
    unfolding len by blast
  have served: "isr80h_handle_command (kernel_command im mmu fs_lookup depth) t n frame =
      (if 1 \<le> n \<and> n \<le> 21 then snd (?cmds ! nat (n - 1)) t else Inr (0, Returns, t))"
    if t: "isr80h_commands t = cs" for t n frame
    by (rule command_table_serves [OF assms(2,3)]) (use t cs(3,4) assms(1) len in simp_all)
  have "isr80h_register_all im mmu fs_lookup depth s = Inr (s\<lparr>isr80h_commands := cs\<rparr>)"
    using cs(1) by (simp add: isr80h_register_all_def)
  then show ?thesis using served by (intro exI [of _ "s\<lparr>isr80h_commands := cs\<rparr>"]) simp
qed

text \<open>An image in which each routine lies at an address of its own, made from its name.\<close>

definition command_image :: image where
  "command_image = demo_image\<lparr>code_at := foldl (\<lambda>h c. 31 * h + of_char c) 7\<rparr>"

lemma command_image_distinct:
  "distinct (0 # map (code_at command_image) (map fst (system_commands im mmu fs_lookup depth)))"
  unfolding system_commands_def list.map fst_conv command_image_def by code_simp

lemma system_calls_served_witness:
  "\<exists>s'. isr80h_register_all command_image (\<lambda>m d a. None) (\<lambda>a. None) 0 blank_kernel = Inr s' \<and>
    isr80h_handle_command (kernel_command command_image (\<lambda>m d a. None) (\<lambda>a. None) 0) s' 2 demo_frame = isr80h_command2_get_key s' \<and>
    isr80h_handle_command (kernel_command command_image (\<lambda>m d a. None) (\<lambda>a. None) 0) s' 22 demo_frame = Inr (0, Returns, s')"
proof -
  let ?c = "system_commands command_image (\<lambda>m d a. None) (\<lambda>a. None) 0 :: (string \<times> (kstate \<Rightarrow> (addr \<times> flow \<times> kstate) outcome)) list"
  have d: "distinct (0 # map (code_at command_image) (map fst ?c))" by (rule command_image_distinct)
  have i: "inj_on (code_at command_image) (set (map fst ?c))" using d unfolding distinct.simps distinct_map by blast
  have z: "0 \<notin> code_at command_image ` set (map fst ?c)" using d unfolding distinct.simps list.set_map by blast
  have b: "isr80h_commands blank_kernel = replicate 128 0" by (simp add: blank_kernel_def)
  obtain s' where s': "isr80h_register_all command_image (\<lambda>m d a. None) (\<lambda>a. None) 0 blank_kernel = Inr s'"
    and h: "\<forall>t n frame. isr80h_commands t = isr80h_commands s' \<longrightarrow>
       isr80h_handle_command (kernel_command command_image (\<lambda>m d a. None) (\<lambda>a. None) 0) t n frame =
         (if 1 \<le> n \<and> n \<le> 21 then snd (?c ! nat (n - 1)) t else Inr (0, Returns, t))"
    using system_calls_served [OF b i z] by blast
  have "snd (?c ! nat (2 - 1)) = isr80h_command2_get_key" by (simp add: system_commands_def)
  then show ?thesis using s' h by (intro exI [of _ s']) simp
qed

end
