(* ===== verification/GDT.thy ===== *)
theory GDT
  imports C_Memory
begin

text \<open>
  \<open>src/gdt/gdt.c\<close>: the eight bytes of a segment descriptor, from the structured form with base,
  limit and type.
\<close>

section \<open>Encoding\<close>

record gdt_structured =
  gs_base :: u32
  gs_limit :: u32
  gs_type :: byte

text \<open>The bytes \<open>target[0]\<close> to \<open>target[7]\<close>.\<close>

definition encodeGdtEntry :: "gdt_structured \<Rightarrow> byte list outcome" where
  "encodeGdtEntry source =
     (if gs_limit source > 65536 \<and> gs_limit source AND 0xFFF \<noteq> 0xFFF
      then panic ''You can't do that!''
      else
        let (limit, high) = (if gs_limit source > 65536 then (drop_bit 12 (gs_limit source), 0xC0)
                             else (gs_limit source, 0x40));
            base = gs_base source in
        Inr [ucast (limit AND 0xFF), ucast (drop_bit 8 limit AND 0xFF),
             ucast (base AND 0xFF), ucast (drop_bit 8 base AND 0xFF), ucast (drop_bit 16 base AND 0xFF),
             gs_type source, high OR ucast (drop_bit 16 limit AND 0xF), ucast (drop_bit 24 base AND 0xFF)])"

text \<open>The table of eight-byte entries written at \<open>gdt\<close>.\<close>

fun encode_entries :: "ram \<Rightarrow> addr \<Rightarrow> gdt_structured list \<Rightarrow> nat \<Rightarrow> ram outcome" where
  "encode_entries m gdt [] i = Inr m"
| "encode_entries m gdt (e # es) i =
     bindE (encodeGdtEntry e) (\<lambda>bs. encode_entries (write_bytes m (gdt + 8 * of_nat i) bs) gdt es (Suc i))"

definition gdt_structured_to_gdt :: "ram \<Rightarrow> addr \<Rightarrow> gdt_structured list \<Rightarrow> int \<Rightarrow> ram outcome" where
  "gdt_structured_to_gdt m gdt structured_gdt total_entries =
     encode_entries m gdt (take (nat total_entries) structured_gdt) 0"

section \<open>What the processor reads in a descriptor\<close>

text \<open>The base, the limit (in pages when the granularity bit is set) and the type of eight bytes.\<close>

definition descriptor_base :: "byte list \<Rightarrow> u32" where
  "descriptor_base bs = ucast (bs ! 2) OR push_bit 8 (ucast (bs ! 3)) OR push_bit 16 (ucast (bs ! 4))
     OR push_bit 24 (ucast (bs ! 7))"

definition descriptor_limit :: "byte list \<Rightarrow> u32" where
  "descriptor_limit bs =
     (let limit = ucast (bs ! 0) OR push_bit 8 (ucast (bs ! 1)) OR push_bit 16 (ucast (bs ! 6 AND 0xF)) in
      if bs ! 6 AND 0x80 \<noteq> 0 then push_bit 12 limit OR 0xFFF else limit)"

definition descriptor_type :: "byte list \<Rightarrow> byte" where
  "descriptor_type bs = bs ! 5"

section \<open>Encoded entries\<close>

lemma ucast_byte_mask: "(ucast (x AND 0xFF :: u32) :: byte) = ucast x"
proof (rule bit_eqI)
  fix n assume "possible_bit TYPE(byte) n"
  then have n: "n < 8" by (simp add: possible_bit_word)
  have "(0xFF :: u32) = mask 8" by (simp add: mask_numeral)
  then show "bit (ucast (x AND 0xFF :: u32) :: byte) n = bit (ucast x :: byte) n"
    using n by (simp only: bit_simps) simp
qed

text \<open>The three pieces of a limit of 20 bits, the upper four in a byte with other bits above.\<close>

lemma limit_pieces:
  assumes "x < 2 ^ 20" "h AND 0xF = 0"
  shows "ucast (ucast x :: byte) OR push_bit 8 (ucast (ucast (drop_bit 8 x) :: byte))
     OR push_bit 16 (ucast ((h OR ucast (drop_bit 16 x AND 0xF)) AND 0xF :: byte)) = (x :: u32)"
proof (rule bit_eqI)
  fix n assume "possible_bit TYPE(u32) n"
  then have n: "n < 32" by (simp add: possible_bit_word)
  have m: "(0xF :: u32) = mask 4" "(0xF :: byte) = mask 4" by (simp_all add: mask_numeral)
  have "unat (x mod 2 ^ 20) = unat x" using assms(1) by (simp add: unat_mod word_less_nat_alt)
  then have x: "x = take_bit 20 x" by (simp only: take_bit_eq_mod word_unat_eq_iff)
  have h: "\<not> bit h k" if "k < 4" for k
    using assms(2) that unfolding m bit_eq_iff by (auto simp: bit_simps possible_bit_word dest: spec [of _ k])
  have b: "bit x n \<longleftrightarrow> n < 20 \<and> bit x n" by (subst (1) x) (simp add: bit_simps)
  consider "n < 8" | "8 \<le> n \<and> n < 16" | "16 \<le> n \<and> n < 20" | "20 \<le> n" by linarith
  then show "bit ((ucast (ucast x :: byte) :: u32) OR push_bit 8 (ucast (ucast (drop_bit 8 x) :: byte))
     OR push_bit 16 (ucast ((h OR ucast (drop_bit 16 x AND 0xF)) AND 0xF :: byte))) n = bit x n"
    by cases (use n b h [of "n - 16"] in \<open>auto simp: bit_simps m\<close>)
qed

definition encodable :: "gdt_structured \<Rightarrow> bool" where
  "encodable e \<longleftrightarrow> gs_limit e \<le> 65536 \<or> gs_limit e AND 0xFFF = 0xFFF"

text \<open>The granularity bit as the encoder sets it.\<close>

lemma high_bits:
  "(0x40 OR ucast (x AND 0xF :: u32) :: byte) AND 0x80 = 0" "(0xC0 OR ucast (x AND 0xF :: u32) :: byte) AND 0x80 \<noteq> 0"
proof -
  have e: "(0x80 :: byte) = 2 ^ 7" "(0x40 :: byte) = 2 ^ 6" "(0xC0 :: byte) = 2 ^ 7 OR 2 ^ 6" "(0xF :: u32) = mask 4"
    by (simp_all add: mask_numeral)
  have b: "bit (2 ^ k :: byte) n \<longleftrightarrow> n < 8 \<and> k = n" for k n
    by (auto simp: bit_exp_iff possible_bit_word)
  show "(0x40 OR ucast (x AND 0xF :: u32) :: byte) AND 0x80 = 0"
    unfolding e by (rule bit_eqI) (simp only: b bit_simps, auto)
  have "bit ((0xC0 OR ucast (x AND 0xF :: u32) :: byte) AND 0x80) 7"
    unfolding e by (simp only: b bit_simps) simp
  then show "(0xC0 OR ucast (x AND 0xF :: u32) :: byte) AND 0x80 \<noteq> 0" by (metis bit_0_eq bot_apply bot_bool_def)
qed

lemma low12_ones: "(x AND 0xFFF = 0xFFF) \<Longrightarrow> push_bit 12 (drop_bit 12 x) OR 0xFFF = (x :: u32)"
proof (rule bit_eqI)
  fix n assume a: "x AND 0xFFF = 0xFFF" and "possible_bit TYPE(u32) n"
  then have n: "n < 32" by (simp add: possible_bit_word)
  have m: "(0xFFF :: u32) = mask 12" by (simp add: mask_numeral)
  have "bit x n" if "n < 12" using a that n unfolding m bit_eq_iff by (auto simp: bit_simps possible_bit_word dest: spec [of _ n])
  then show "bit (push_bit 12 (drop_bit 12 x) OR 0xFFF) n = bit x n"
    unfolding m using n by (auto simp: bit_simps)
qed

lemma encoded_entry:
  assumes "encodable e"
  obtains bs where "encodeGdtEntry e = Inr bs" "length bs = 8" "descriptor_base bs = gs_base e"
    "descriptor_limit bs = gs_limit e" "descriptor_type bs = gs_type e"
proof -
  let ?l = "gs_limit e" and ?b = "gs_base e"
  let ?bytes = "\<lambda>l h. [ucast l, ucast (drop_bit 8 l), ucast ?b, ucast (drop_bit 8 ?b), ucast (drop_bit 16 ?b),
    gs_type e, h OR ucast (drop_bit 16 l AND 0xF :: u32), ucast (drop_bit 24 ?b)] :: byte list"
  have base: "descriptor_base (?bytes l h) = ?b" for l h by (simp add: descriptor_base_def bytes_of_u32)
  have type: "descriptor_type (?bytes l h) = gs_type e" for l h by (simp add: descriptor_type_def)
  show ?thesis
  proof (cases "?l > 65536")
    case False
    have "encodeGdtEntry e = Inr (?bytes ?l 0x40)"
      using False by (simp add: encodeGdtEntry_def ucast_byte_mask Let_def)
    moreover have "descriptor_limit (?bytes ?l 0x40) = ?l"
    proof -
      have "?l < 2 ^ 20" using False by (simp add: word_less_nat_alt word_le_nat_alt)
      then show ?thesis using limit_pieces [of ?l "0x40"] high_bits(1) by (simp add: descriptor_limit_def Let_def)
    qed
    ultimately show ?thesis by (intro that [of "?bytes ?l 0x40"] base type) simp_all
  next
    case True
    let ?g = "drop_bit 12 ?l"
    have ones: "?l AND 0xFFF = 0xFFF" using assms True by (auto simp: encodable_def)
    then have "encodeGdtEntry e = Inr (?bytes ?g 0xC0)"
      using True by (simp add: encodeGdtEntry_def ucast_byte_mask Let_def)
    moreover have "descriptor_limit (?bytes ?g 0xC0) = ?l"
    proof -
      have "unat ?g < 2 ^ 20" using unat_u32_less [of ?l] by (simp add: drop_bit_eq_div unat_div less_mult_imp_div_less)
      then have "?g < 2 ^ 20" by (simp add: word_less_nat_alt)
      then show ?thesis
        using limit_pieces [of ?g "0xC0"] high_bits(2) low12_ones [OF ones] by (simp add: descriptor_limit_def Let_def)
    qed
    ultimately show ?thesis by (intro that [of "?bytes ?g 0xC0"] base type) simp_all
  qed
qed

text \<open>C32: Encoding a segment descriptor loses nothing: read the way the processor does, the eight bytes
  have the structured entry's base, limit and type; a limit above 65536 that does not end in a whole
  page is refused with a panic, and nothing else is.\<close>

theorem gdt_entry_roundtrip:
  "if encodable e
   then \<exists>bs. encodeGdtEntry e = Inr bs \<and> length bs = 8 \<and> descriptor_base bs = gs_base e \<and>
     descriptor_limit bs = gs_limit e \<and> descriptor_type bs = gs_type e
   else encodeGdtEntry e = panic ''You can't do that!''"
proof (cases "encodable e")
  case True
  then show ?thesis using encoded_entry [OF True] by auto
next
  case False
  then show ?thesis by (auto simp: encodable_def encodeGdtEntry_def)
qed

end
