(* ===== verification/Kernel_Main.thy ===== *)
theory Kernel_Main
  imports Syscalls GDT
begin

text \<open>
  \<open>src/kernel.c\<close>: the start of the kernel, in the order of \<open>kernel_main\<close>, up to the point where the
  first task runs.  Loading the processor's descriptor tables, the task state segment and the paging
  bit is assembly and does not change the modelled state.
\<close>

section \<open>What the function pointers of the running kernel lead to\<close>

definition kernel_fs_lookup :: "drive \<Rightarrow> addr \<Rightarrow> 'a kstate_scheme fs_table" where
  "kernel_fs_lookup drv fat16_fs p = (if p = fat16_fs then Some (fat16_ops drv) else None)"

definition classic_keyboard_init :: "image \<Rightarrow> 'a kstate_scheme \<Rightarrow> (int \<times> 'a kstate_scheme) outcome" where
  "classic_keyboard_init im s =
     (let (_, s) = idt_register_interrupt_callback s 0x21 (code_at im ''classic_keyboard_handle_interrupt'') in
      bindE (print s (literal_at im ''Classic Keyboard Initialized'')) (\<lambda>s. Inr (0, s)))"

definition keyboard_init_fn :: "image \<Rightarrow> addr \<Rightarrow> 'a kstate_scheme \<Rightarrow> (int \<times> 'a kstate_scheme) outcome" where
  "keyboard_init_fn im f s =
     (if f = code_at im ''classic_keyboard_init'' then classic_keyboard_init im s else Inl (BadPointer f))"

section \<open>kernel_main\<close>

text \<open>\<open>tss\<close> is the address of the task state segment, 100 bytes long.\<close>

definition gdt_structured_table :: "addr \<Rightarrow> gdt_structured list" where
  "gdt_structured_table tss = [
     \<lparr>gs_base = 0, gs_limit = 0, gs_type = 0\<rparr>,
     \<lparr>gs_base = 0, gs_limit = 0xffffffff, gs_type = 0x9a\<rparr>,
     \<lparr>gs_base = 0, gs_limit = 0xffffffff, gs_type = 0x92\<rparr>,
     \<lparr>gs_base = 0, gs_limit = 0xffffffff, gs_type = 0xf8\<rparr>,
     \<lparr>gs_base = 0, gs_limit = 0xffffffff, gs_type = 0xf2\<rparr>,
     \<lparr>gs_base = tss, gs_limit = 100, gs_type = 0xE9\<rparr>]"

text \<open>
  The part before paging; \<open>heap_bytes\<close> is what lies at the heap's table, \<open>wrappers\<close> the interrupt
  wrappers of \<open>idt.asm\<close>.
\<close>

definition kernel_start ::
  "image \<Rightarrow> 'a kstate_scheme fs_table \<Rightarrow> HEAP_BLOCK_TABLE_ENTRY list \<Rightarrow> addr list \<Rightarrow> 'a kstate_scheme \<Rightarrow> 'a kstate_scheme outcome" where
  "kernel_start im fs_lookup heap_bytes wrappers s =
     (let s = kernel_terminal_initialize s; gdt_real = code_at im ''gdt_real'' in
      bindE (gdt_structured_to_gdt (memset (km_ram s) gdt_real 0 48) gdt_real
               (gdt_structured_table (code_at im ''tss'')) 6) (\<lambda>m.
      bindE (idt_init im wrappers (s\<lparr>km_ram := m\<rparr>)) (\<lambda>s.
      bindE (kheap_init s heap_bytes) (\<lambda>s.
      bindE (keyboard_init im (keyboard_init_fn im) s) (\<lambda>s.
      bindE (keyboard_listener_init im s) (\<lambda>s.
      bindE (fs_init s) (\<lambda>s.
      bindE (disk_search_and_init fs_lookup s) (\<lambda>s.
      video_init fs_lookup s (literal_at im ''0:/fonts/plfont.psf'') (local_at im ''header'' 0)))))))))"

definition kernel_enable_paging :: "'a kstate_scheme \<Rightarrow> 'a kstate_scheme outcome" where
  "kernel_enable_paging s =
     bindE (paging_new_4gb s (ucast (PAGING_ACCESS_FROM_ALL OR PAGING_PAGE_PRESENT OR PAGING_CACHE_DISABLED
              OR PAGING_PAGE_WRITEABLE))) (\<lambda>(chunk, s).
     kernel_page (s\<lparr>kernel_paging_chunk := chunk\<rparr>))"

definition kernel_main ::
  "image \<Rightarrow> mmu \<Rightarrow> 'a kstate_scheme fs_table \<Rightarrow> nat \<Rightarrow> HEAP_BLOCK_TABLE_ENTRY list \<Rightarrow> addr list
   \<Rightarrow> 'a kstate_scheme \<Rightarrow> 'a kstate_scheme outcome" where
  "kernel_main im mmu fs_lookup depth heap_bytes wrappers s =
     bindE (kernel_start im fs_lookup heap_bytes wrappers s) (\<lambda>s.
     bindE (kernel_enable_paging s) (\<lambda>s.
     bindE (isr80h_register_all im mmu fs_lookup depth s) (\<lambda>s.
     bindE (print s (literal_at im ''Kernel initialized'')) (\<lambda>s.
     bindE (process_load_start im fs_lookup depth s (literal_at im ''0:/taskbar.e'') 0 0 0) (\<lambda>(res, s).
     if res < 0 then panic ''Failed to load the start program!''
     else task_run_first_ever_task s)))))"

section \<open>The running kernel's handlers\<close>

text \<open>What the addresses in the table of interrupt callbacks lead to; the fault handlers and the
  byte the keyboard gives are arguments, as in the theories they come from.\<close>

definition kernel_callback ::
  "image \<Rightarrow> mmu \<Rightarrow> 'a kstate_scheme fs_table \<Rightarrow> nat \<Rightarrow> (addr \<Rightarrow> addr \<Rightarrow> 'a kstate_scheme \<Rightarrow> 'a kstate_scheme)
   \<Rightarrow> byte \<Rightarrow> byte \<Rightarrow> addr \<Rightarrow> 'a kstate_scheme \<Rightarrow> (flow \<times> 'a kstate_scheme) outcome" where
  "kernel_callback im mmu fs_lookup depth past after scancode f s =
     (if f = code_at im ''pit_interrupt'' then pit_interrupt mmu past s
      else if f = code_at im ''idt_general_protection_fault'' then idt_general_protection_fault im fs_lookup depth s
      else if f = code_at im ''classic_keyboard_handle_interrupt''
      then bindE (classic_keyboard_handle_interrupt (kernel_key_handlers im fs_lookup depth) after scancode s)
             (\<lambda>s. Inr (Returns, s))
      else Inl (BadPointer f))"

end
