(* ===== verification/User_Library.thy ===== *)
theory User_Library
  imports Syscalls Itoa
begin

text \<open>
  The library of the programs (\<open>src/programs/stdlib\<close>: \<open>string.c\<close>, \<open>stdio.c\<close>,
  \<open>stdlib.c\<close>, \<open>cos32.c\<close> and the stubs of \<open>cos32.asm\<close>) and what starts a program
  (\<open>initlib\<close>).  A program sees its own memory and the kernel only
  through interrupt 0x80: a \<open>kernel_call\<close> is what an interrupt with the command in \<open>eax\<close> and
  the pushed items does.  \<open>strlen\<close>, \<open>strnlen\<close>, \<open>isdigit\<close>, \<open>strtok\<close> and
  \<open>itoa\<close> are, character for character, those of the kernel, and are the kernel's models here.
\<close>

section \<open>Programs and system calls\<close>

record 'k user =
  u_ram :: ram
  u_sp :: addr
  u_kernel :: 'k

type_synonym 'k kernel_call = "u32 \<Rightarrow> u32 list \<Rightarrow> 'k user \<Rightarrow> (u32 \<times> 'k user) outcome"

text \<open>The stubs of \<open>cos32.asm\<close>: the items are pushed in the order of the list.\<close>

definition user_print :: "'k kernel_call \<Rightarrow> addr \<Rightarrow> 'k user \<Rightarrow> (u32 \<times> 'k user) outcome" where
  "user_print call message u = call 1 [message] u"

definition cos32_getkey :: "'k kernel_call \<Rightarrow> 'k user \<Rightarrow> (byte \<times> 'k user) outcome" where
  "cos32_getkey call u = bindE (call 2 [] u) (\<lambda>(r, u). Inr (ucast r, u))"

partial_function (option) try_again :: "'k kernel_call \<Rightarrow> 'k user \<Rightarrow> (byte \<times> 'k user) outcome option" where
  "try_again call u =
     (case call 2 [] u of Inl e \<Rightarrow> Some (Inl e)
      | Inr (r, u') \<Rightarrow> if r = 0 then try_again call u' else Some (Inr (ucast r, u')))"

definition cos32_getkeyblock :: "'k kernel_call \<Rightarrow> 'k user \<Rightarrow> (byte \<times> 'k user) outcome" where
  "cos32_getkeyblock call u = ran (try_again call u)"

definition kernel_information :: "'k kernel_call \<Rightarrow> addr \<Rightarrow> 'k user \<Rightarrow> (u32 \<times> 'k user) outcome" where
  "kernel_information call info u = call 3 [info] u"

definition cos32_putchar :: "'k kernel_call \<Rightarrow> byte \<Rightarrow> 'k user \<Rightarrow> (u32 \<times> 'k user) outcome" where
  "cos32_putchar call c u = call 4 [scast c] u"

definition cos32_malloc :: "'k kernel_call \<Rightarrow> int \<Rightarrow> 'k user \<Rightarrow> (addr \<times> 'k user) outcome" where
  "cos32_malloc call sz u = call 5 [word_of_int sz] u"

definition cos32_invoke_command :: "'k kernel_call \<Rightarrow> addr \<Rightarrow> 'k user \<Rightarrow> (int \<times> 'k user) outcome" where
  "cos32_invoke_command call root_command u = bindE (call 6 [root_command] u) (\<lambda>(r, u). Inr (sint r, u))"

definition cos32_sleep :: "'k kernel_call \<Rightarrow> int \<Rightarrow> 'k user \<Rightarrow> (u32 \<times> 'k user) outcome" where
  "cos32_sleep call millis u = call 7 [word_of_int millis] u"

definition cos32_video_rectangle_new ::
  "'k kernel_call \<Rightarrow> int \<Rightarrow> int \<Rightarrow> int \<Rightarrow> int \<Rightarrow> 'k user \<Rightarrow> (addr \<times> 'k user) outcome" where
  "cos32_video_rectangle_new call x y width height u =
     call 8 [word_of_int x, word_of_int y, word_of_int width, word_of_int height] u"

definition cos32_video_rectangle_set_pixel ::
  "'k kernel_call \<Rightarrow> addr \<Rightarrow> int \<Rightarrow> int \<Rightarrow> byte \<Rightarrow> 'k user \<Rightarrow> (addr \<times> 'k user) outcome" where
  "cos32_video_rectangle_set_pixel call rect_ptr x y colour u =
     call 9 [rect_ptr, word_of_int x, word_of_int y, scast colour] u"

definition cos32_video_rectangle_fill :: "'k kernel_call \<Rightarrow> addr \<Rightarrow> byte \<Rightarrow> 'k user \<Rightarrow> (addr \<times> 'k user) outcome" where
  "cos32_video_rectangle_fill call rect_ptr colour u = call 10 [rect_ptr, scast colour] u"

definition cos32_video_rectangle_draw_block ::
  "'k kernel_call \<Rightarrow> addr \<Rightarrow> addr \<Rightarrow> int \<Rightarrow> int \<Rightarrow> int \<Rightarrow> int \<Rightarrow> 'k user \<Rightarrow> (u32 \<times> 'k user) outcome" where
  "cos32_video_rectangle_draw_block call rect ptr absx absy total_rows pixels_per_row u =
     call 11 [rect, ptr, word_of_int absx, word_of_int absy, word_of_int total_rows, word_of_int pixels_per_row] u"

definition cos32_video_rectangle_draw_blocks ::
  "'k kernel_call \<Rightarrow> addr \<Rightarrow> addr \<Rightarrow> int \<Rightarrow> int \<Rightarrow> int \<Rightarrow> int \<Rightarrow> int \<Rightarrow> 'k user \<Rightarrow> (u32 \<times> 'k user) outcome" where
  "cos32_video_rectangle_draw_blocks call rect ptr absx absy total_rows pixels_per_row tot u =
     call 12 [rect, ptr, word_of_int absx, word_of_int absy, word_of_int total_rows, word_of_int pixels_per_row,
              word_of_int tot] u"

definition cos32_video_font_get :: "'k kernel_call \<Rightarrow> addr \<Rightarrow> 'k user \<Rightarrow> (addr \<times> 'k user) outcome" where
  "cos32_video_font_get call font_name u = call 13 [font_name] u"

definition cos32_video_font_draw :: "'k kernel_call \<Rightarrow> addr \<Rightarrow> addr \<Rightarrow> addr \<Rightarrow> 'k user \<Rightarrow> (u32 \<times> 'k user) outcome" where
  "cos32_video_font_draw call font ptr message u = call 14 [font, ptr, message] u"

definition cos32_video_font_make_empty_string ::
  "'k kernel_call \<Rightarrow> addr \<Rightarrow> int \<Rightarrow> 'k user \<Rightarrow> (addr \<times> 'k user) outcome" where
  "cos32_video_font_make_empty_string call font len u = call 15 [font, word_of_int len] u"

definition cos32_video_rectangle_draw_font_data ::
  "'k kernel_call \<Rightarrow> addr \<Rightarrow> addr \<Rightarrow> addr \<Rightarrow> int \<Rightarrow> int \<Rightarrow> int \<Rightarrow> 'k user \<Rightarrow> (addr \<times> 'k user) outcome" where
  "cos32_video_rectangle_draw_font_data call rect font ptr absx absy tot u =
     call 16 [rect, font, ptr, word_of_int absx, word_of_int absy, word_of_int tot] u"

definition cos32_video_rectangle_publish :: "'k kernel_call \<Rightarrow> addr \<Rightarrow> addr \<Rightarrow> 'k user \<Rightarrow> (addr \<times> 'k user) outcome" where
  "cos32_video_rectangle_publish call rect rname u = call 17 [rect, rname] u"

definition cos32_video_rectangle_get :: "'k kernel_call \<Rightarrow> addr \<Rightarrow> 'k user \<Rightarrow> (addr \<times> 'k user) outcome" where
  "cos32_video_rectangle_get call rname u = call 18 [rname] u"

definition cos32_get_arguments :: "'k kernel_call \<Rightarrow> addr \<Rightarrow> 'k user \<Rightarrow> (u32 \<times> 'k user) outcome" where
  "cos32_get_arguments call arguments u = call 19 [arguments] u"

definition cos32_flush_video_buffer :: "'k kernel_call \<Rightarrow> 'k user \<Rightarrow> (u32 \<times> 'k user) outcome" where
  "cos32_flush_video_buffer call u = call 20 [] u"

definition cos32_video_clear_flag :: "'k kernel_call \<Rightarrow> int \<Rightarrow> 'k user \<Rightarrow> (u32 \<times> 'k user) outcome" where
  "cos32_video_clear_flag call flag u = call 21 [word_of_int flag] u"

section \<open>string.c\<close>

partial_function (option) strcpy_loop :: "ram \<Rightarrow> addr \<Rightarrow> addr \<Rightarrow> nat \<Rightarrow> ram option" where
  "strcpy_loop m dest src i =
     (if m (src + of_nat i) = 0 then Some (m(dest + of_nat i := 0))
      else strcpy_loop (m(dest + of_nat i := m (src + of_nat i))) dest src (Suc i))"

definition strcpy :: "ram \<Rightarrow> addr \<Rightarrow> addr \<Rightarrow> ram option" where
  "strcpy m dest src = strcpy_loop m dest src 0"

text \<open>Unlike the kernel's, this \<open>strncpy\<close> fills the rest of the bound with zeroes.\<close>

fun user_strncpy_loop :: "ram \<Rightarrow> addr \<Rightarrow> addr \<Rightarrow> nat \<Rightarrow> nat \<Rightarrow> ram" where
  "user_strncpy_loop m dest src i 0 = m"
| "user_strncpy_loop m dest src i (Suc k) =
     (if m (src + of_nat i) \<noteq> 0
      then user_strncpy_loop (m(dest + of_nat i := m (src + of_nat i))) dest src (Suc i) k
      else memset m (dest + of_nat i) 0 (int (Suc k)))"

definition user_strncpy :: "ram \<Rightarrow> addr \<Rightarrow> addr \<Rightarrow> int \<Rightarrow> ram" where
  "user_strncpy m dest src n = user_strncpy_loop m dest src 0 (nat n)"

definition user_strtok :: "addr \<Rightarrow> addr \<Rightarrow> 'k user \<Rightarrow> (addr \<times> 'k user) outcome" where
  "user_strtok str delimiters u =
     bindE (returns (strtok (u_ram u) (u_sp u) str delimiters)) (\<lambda>(m, sp, token).
     Inr (token, u\<lparr>u_ram := m, u_sp := sp\<rparr>))"

section \<open>stdio.c and stdlib.c\<close>

definition put_byte :: "addr \<Rightarrow> byte \<Rightarrow> 'k user \<Rightarrow> 'k user" where
  "put_byte p b u = u\<lparr>u_ram := (u_ram u)(p := b)\<rparr>"

text \<open>The stub of \<open>cos32_getkey\<close> takes no argument, so \<open>c\<close> keeps the value it starts with.\<close>

definition getchar :: "'k kernel_call \<Rightarrow> 'k user \<Rightarrow> (int \<times> 'k user) outcome" where
  "getchar call u = (let c = 0 in bindE (cos32_getkey call u) (\<lambda>(_, u). Inr (c, u)))"

definition putchar :: "'k kernel_call \<Rightarrow> byte \<Rightarrow> 'k user \<Rightarrow> 'k user outcome" where
  "putchar call c u = bindE (cos32_putchar call c u) (\<lambda>(_, u). Inr u)"

definition malloc :: "'k kernel_call \<Rightarrow> int \<Rightarrow> 'k user \<Rightarrow> (addr \<times> 'k user) outcome" where
  "malloc call sz u = cos32_malloc call sz u"

text \<open>
  \<open>printf\<close>: \<open>p\<close> runs along the format, \<open>ap\<close> along the arguments on the stack, and \<open>text\<close>
  is where the static array of \<open>itoa\<close> lies.  A step gives the next \<open>p\<close> and \<open>ap\<close>.
\<close>

definition printf_step ::
  "'k kernel_call \<Rightarrow> addr \<Rightarrow> addr \<Rightarrow> addr \<Rightarrow> 'k user \<Rightarrow> (addr \<times> addr \<times> 'k user) outcome" where
  "printf_step call txt p ap u =
     (if u_ram u p \<noteq> 0x25 then bindE (putchar call (u_ram u p) u) (\<lambda>u. Inr (p + 1, ap, u))
      else let p = p + 1; c = u_ram u p in
        if c = 0x69 then
          let ival = sint (load32 (u_ram u) ap);
              (m, s) = itoa (u_ram u) txt ival
          in bindE (user_print call s (u\<lparr>u_ram := m\<rparr>)) (\<lambda>(_, u). Inr (p + 1, ap + 4, u))
        else if c = 0x73 then
          let sval = load32 (u_ram u) ap
          in bindE (user_print call sval u) (\<lambda>(_, u). Inr (p + 1, ap + 4, u))
        else bindE (putchar call c u) (\<lambda>u. Inr (p + 1, ap, u)))"

partial_function (option) printf_loop ::
  "'k kernel_call \<Rightarrow> addr \<Rightarrow> addr \<Rightarrow> addr \<Rightarrow> 'k user \<Rightarrow> 'k user outcome option" where
  "printf_loop call txt p ap u =
     (if u_ram u p = 0 then Some (Inr u)
      else case printf_step call txt p ap u of
        Inl e \<Rightarrow> Some (Inl e) | Inr (p', ap', u') \<Rightarrow> printf_loop call txt p' ap' u')"

definition printf :: "'k kernel_call \<Rightarrow> addr \<Rightarrow> addr \<Rightarrow> addr \<Rightarrow> 'k user \<Rightarrow> 'k user outcome" where
  "printf call txt fmt ap u = ran (printf_loop call txt fmt ap u)"

section \<open>cos32.c\<close>

text \<open>A \<open>struct command_argument\<close>: the argument in 512 bytes and then the pointer to the next.\<close>

definition command_argument_new :: "addr \<Rightarrow> addr \<Rightarrow> 'k user \<Rightarrow> 'k user" where
  "command_argument_new command token u =
     u\<lparr>u_ram := store32 (user_strncpy (u_ram u) command token 512) (command + 512) 0\<rparr>"

text \<open>
  The addresses of locals, of the array of \<open>itoa\<close> and of literals are those of an \<open>image\<close>, here that
  of the program.  A call of \<open>printf\<close> leaves its further arguments on the stack.
\<close>

definition call_printf :: "'k kernel_call \<Rightarrow> image \<Rightarrow> addr \<Rightarrow> u32 list \<Rightarrow> 'k user \<Rightarrow> 'k user outcome" where
  "call_printf call im fmt args u =
     (let ap = local_at im ''ap'' 0;
          m = fold (\<lambda>i m. store32 m (ap + 4 * of_nat i) (args ! i)) [0..<length args] (u_ram u)
      in printf call (local_at im ''text'' 0) fmt ap (u\<lparr>u_ram := m\<rparr>))"

partial_function (option) parse_loop ::
  "'k kernel_call \<Rightarrow> image \<Rightarrow> addr \<Rightarrow> addr \<Rightarrow> 'k user \<Rightarrow> 'k user outcome option" where
  "parse_loop call im token current u =
     (if token = 0 then Some (Inr u)
      else case cos32_malloc call 516 u of
        Inl e \<Rightarrow> Some (Inl e)
      | Inr (new_command, u1) \<Rightarrow>
          if new_command = 0
          then Some (call_printf call im (literal_at im ''Out of memory!'') [] u1)
          else
            let u2 = command_argument_new new_command token u1;
                u3 = u2\<lparr>u_ram := store32 (u_ram u2) (current + 512) new_command\<rparr>
            in case user_strtok 0 (literal_at im '' '') u3 of
                 Inl e \<Rightarrow> Some (Inl e)
               | Inr (token', u4) \<Rightarrow> parse_loop call im token' new_command u4)"

definition cos32_parse_command ::
  "'k kernel_call \<Rightarrow> image \<Rightarrow> addr \<Rightarrow> int \<Rightarrow> 'k user \<Rightarrow> (addr \<times> 'k user) outcome" where
  "cos32_parse_command call im command mx u =
     (if mx \<ge> 1024 then Inr (0, u)
      else
        let u = u\<lparr>u_ram := user_strncpy (u_ram u) (local_at im ''scommand'' 0) command 1024\<rparr> in
        bindE (user_strtok (local_at im ''scommand'' 0) (literal_at im '' '') u) (\<lambda>(token, u).
        if token = 0 then Inr (0, u)
        else
          bindE (cos32_malloc call 516 u) (\<lambda>(root_command, u).
          if root_command = 0
          then bindE (call_printf call im (literal_at im ''Out of memory!'') [] u) (\<lambda>u. Inr (0, u))
          else
            let u = command_argument_new root_command token u in
            bindE (user_strtok 0 (literal_at im '' '') u) (\<lambda>(token, u).
            bindE (ran (parse_loop call im token root_command u)) (\<lambda>u.
            Inr (root_command, u))))))"

text \<open>The walk frees nothing: the call that would is a comment.\<close>

partial_function (option) cos32_free_commands :: "addr \<Rightarrow> 'k user \<Rightarrow> 'k user option" where
  "cos32_free_commands current u =
     (if current = 0 then Some u else cos32_free_commands (load32 (u_ram u) (current + 512)) u)"

definition cos32_run_command ::
  "'k kernel_call \<Rightarrow> image \<Rightarrow> addr \<Rightarrow> int \<Rightarrow> 'k user \<Rightarrow> (int \<times> 'k user) outcome" where
  "cos32_run_command call im command mx u =
     bindE (cos32_parse_command call im command mx u) (\<lambda>(commands, u).
     bindE (if commands = 0 then Inr (- 1, u) else cos32_invoke_command call commands u) (\<lambda>(res, u).
     bindE (returns (cos32_free_commands commands u)) (\<lambda>u.
     Inr (res, u))))"

text \<open>The loop gives the index at which it stops.\<close>

partial_function (option) readline_loop ::
  "'k kernel_call \<Rightarrow> addr \<Rightarrow> int \<Rightarrow> bool \<Rightarrow> int \<Rightarrow> 'k user \<Rightarrow> (int \<times> 'k user) outcome option" where
  "readline_loop call out mx output_while_typing i u =
     (if i \<ge> mx - 1 then Some (Inr (i, u))
      else case cos32_getkeyblock call u of
        Inl e \<Rightarrow> Some (Inl e)
      | Inr (key, u1) \<Rightarrow>
          if key = 13 then Some (Inr (i, u1))
          else case (if output_while_typing then cos32_putchar call key u1 else Inr (0, u1)) of
            Inl e \<Rightarrow> Some (Inl e)
          | Inr (_, u2) \<Rightarrow>
              if key = 0x08 \<and> i \<ge> 1
              then readline_loop call out mx output_while_typing (i - 1) (put_byte (out + word_of_int (i - 1)) 0 u2)
              else readline_loop call out mx output_while_typing (i + 1) (put_byte (out + word_of_int i) key u2))"

definition cos32_terminal_readline ::
  "'k kernel_call \<Rightarrow> addr \<Rightarrow> int \<Rightarrow> bool \<Rightarrow> 'k user \<Rightarrow> 'k user outcome" where
  "cos32_terminal_readline call out mx output_while_typing u =
     bindE (ran (readline_loop call out mx output_while_typing 0 u)) (\<lambda>(i, u).
     Inr (put_byte (out + word_of_int i) 0 u))"

section \<open>Start of a program\<close>

text \<open>The structure lies at \<open>arguments\<close> on the stack; \<open>main\<close> is the program's.\<close>

definition start_get_arguments :: "'k kernel_call \<Rightarrow> addr \<Rightarrow> 'k user \<Rightarrow> (u32 \<times> 'k user) outcome" where
  "start_get_arguments call arguments u = call 19 [arguments] u"

definition start_c_func ::
  "'k kernel_call \<Rightarrow> (int \<Rightarrow> addr \<Rightarrow> 'k user \<Rightarrow> (int \<times> 'k user) outcome) \<Rightarrow> addr \<Rightarrow> 'k user \<Rightarrow> (int \<times> 'k user) outcome" where
  "start_c_func call main arguments u =
     bindE (start_get_arguments call arguments u) (\<lambda>(_, u).
     main (sint (load32 (u_ram u) arguments)) (load32 (u_ram u) (arguments + 4)) u)"

end
