(* ===== verification/User_Programs.thy ===== *)
theory User_Programs
  imports User_Library
begin

text \<open>
  The programs written in C: \<open>src/programs/crash\<close>, \<open>testlib\<close>, \<open>shell\<close> and \<open>taskbar\<close>.
\<close>

section \<open>The programs\<close>

text \<open>
  \<open>crash\<close>, run for a program that crashed, tells its arguments and then loops for ever; the third is
  printed as a number although it is a text.
\<close>

definition crash_main :: "'k kernel_call \<Rightarrow> image \<Rightarrow> int \<Rightarrow> addr \<Rightarrow> 'k user \<Rightarrow> (int \<times> 'k user) outcome" where
  "crash_main call im argc argv u =
     bindE (call_printf call im (literal_at im ''The program has crashed'')
              [load32 (u_ram u) (argv + 4), load32 (u_ram u) (argv + 8)] u) (\<lambda>u.
     bindE (call_printf call im (literal_at im ''Stack trace'') [] u) (\<lambda>u.
     bindE (call_printf call im (literal_at im ''Death IP'') [load32 (u_ram u) (argv + 12)] u) (\<lambda>u.
     Inl NoReturn)))"

text \<open>The two functions of the test library.\<close>

definition mytestfunction :: "int \<Rightarrow> int" where
  "mytestfunction abc = abc + 5"

definition mysecondtestfunction :: "int \<Rightarrow> int" where
  "mysecondtestfunction abc = abc + 12"

text \<open>
  The shell: a turn of its loop reads a line of at most 511 characters and runs it.  Its \<open>main\<close>
  never gets there: it waits for ever before.
\<close>

definition shell_turn :: "'k kernel_call \<Rightarrow> image \<Rightarrow> addr \<Rightarrow> 'k user \<Rightarrow> 'k user outcome" where
  "shell_turn call im shell_buf u =
     bindE (call_printf call im (literal_at im ''>'') [] u) (\<lambda>u.
     bindE (cos32_terminal_readline call shell_buf 512 True u) (\<lambda>u.
     bindE (cos32_run_command call im shell_buf 512 u) (\<lambda>(res, u).
     bindE (if res \<noteq> 0 then call_printf call im (literal_at im ''The command is invalid'') [shell_buf] u else Inr u) (\<lambda>u.
     call_printf call im (literal_at im ''newline'') [] u))))"

definition shell_main :: "'k kernel_call \<Rightarrow> image \<Rightarrow> int \<Rightarrow> addr \<Rightarrow> 'k user \<Rightarrow> (int \<times> 'k user) outcome" where
  "shell_main call im argc argv u =
     (let (m, s) = itoa (u_ram u) (local_at im ''text'' 0) 50 in Inl NoReturn)"

text \<open>The task bar: its globals, its start, and a turn of its loop.\<close>

record taskbar =
  default_font :: addr
  taskbar_rect :: addr
  info_rect :: addr
  info_text_use_function_keys_ptr :: addr
  info_text_use_function_keys_ptr_len :: int

abbreviation (input) VIDEO_FLAG_AUTO_FLUSH :: int where "VIDEO_FLAG_AUTO_FLUSH \<equiv> 1"

definition taskbar_draw_title :: "'k kernel_call \<Rightarrow> image \<Rightarrow> taskbar \<Rightarrow> addr \<Rightarrow> int \<Rightarrow> 'k user \<Rightarrow> (taskbar \<times> 'k user) outcome" where
  "taskbar_draw_title call im g pixel_ptr len u =
     bindE (cos32_video_font_draw call (default_font g) pixel_ptr (literal_at im ''COS32 Kernel'') u) (\<lambda>(_, u).
     bindE (cos32_video_rectangle_new call 0 0 320 20 u) (\<lambda>(rect, u).
     bindE (cos32_video_rectangle_fill call rect 29 u) (\<lambda>(_, u).
     bindE (cos32_video_rectangle_draw_font_data call rect (default_font g) pixel_ptr 120 5 len u) (\<lambda>(_, u).
     bindE (cos32_video_rectangle_publish call rect (literal_at im ''taskbar'') u) (\<lambda>(_, u).
     Inr (g\<lparr>taskbar_rect := rect\<rparr>, u))))))"

definition taskbar_info_text :: "'k kernel_call \<Rightarrow> image \<Rightarrow> taskbar \<Rightarrow> 'k user \<Rightarrow> (int \<times> taskbar \<times> 'k user) outcome" where
  "taskbar_info_text call im g u =
     (let info_text = literal_at im ''Press F1-F12 keys to start a shell'' in
      bindE (returns (strlen (str_at (u_ram u) info_text))) (\<lambda>len.
      bindE (cos32_video_font_make_empty_string call (default_font g) (int len) u) (\<lambda>(p, u).
      bindE (cos32_video_font_draw call (default_font g) p info_text u) (\<lambda>(_, u).
      bindE (cos32_video_rectangle_new call 20 100 220 20 u) (\<lambda>(rect, u).
      Inr (0, g\<lparr>info_text_use_function_keys_ptr := p, info_text_use_function_keys_ptr_len := int len,
                 info_rect := rect\<rparr>, u))))))"

definition taskbar_initialize :: "'k kernel_call \<Rightarrow> image \<Rightarrow> taskbar \<Rightarrow> 'k user \<Rightarrow> (int \<times> taskbar \<times> 'k user) outcome" where
  "taskbar_initialize call im g u =
     bindE (cos32_video_clear_flag call VIDEO_FLAG_AUTO_FLUSH u) (\<lambda>(_, u).
     bindE (cos32_video_font_get call (literal_at im ''Default'') u) (\<lambda>(font, u).
     let g = g\<lparr>default_font := font\<rparr> in
     if font = 0 then Inr (- 1, g, u)
     else
       bindE (returns (strlen (str_at (u_ram u) (literal_at im ''COS32 Kernel'')))) (\<lambda>len.
       bindE (cos32_video_font_make_empty_string call font (int len) u) (\<lambda>(pixel_ptr, u).
       if pixel_ptr = 0 then Inr (- 1, g, u)
       else
         bindE (taskbar_draw_title call im g pixel_ptr (int len) u) (\<lambda>(g, u).
         taskbar_info_text call im g u)))))"

definition info_rect_update :: "'k kernel_call \<Rightarrow> taskbar \<Rightarrow> 'k user \<Rightarrow> 'k user outcome" where
  "info_rect_update call g u =
     bindE (cos32_video_rectangle_fill call (info_rect g) 28 u) (\<lambda>(_, u).
     bindE (cos32_video_rectangle_draw_font_data call (info_rect g) (default_font g)
              (info_text_use_function_keys_ptr g) 10 1 (info_text_use_function_keys_ptr_len g) u) (\<lambda>(_, u).
     bindE (cos32_sleep call 3000 u) (\<lambda>(_, u). Inr u)))"

definition redraw :: "'k kernel_call \<Rightarrow> 'k user \<Rightarrow> 'k user outcome" where
  "redraw call u = bindE (cos32_flush_video_buffer call u) (\<lambda>(_, u). Inr u)"

partial_function (option) taskbar_loop :: "'k kernel_call \<Rightarrow> taskbar \<Rightarrow> 'k user \<Rightarrow> (int \<times> 'k user) outcome option" where
  "taskbar_loop call g u =
     (case bindE (info_rect_update call g u) (redraw call) of
        Inl e \<Rightarrow> Some (Inl e)
      | Inr u' \<Rightarrow> taskbar_loop call g u')"

definition taskbar_main :: "'k kernel_call \<Rightarrow> image \<Rightarrow> taskbar \<Rightarrow> 'k user \<Rightarrow> (int \<times> 'k user) outcome" where
  "taskbar_main call im g u =
     bindE (taskbar_initialize call im g u) (\<lambda>(_, g, u). ran (taskbar_loop call g u))"

end
