(* ===== verification/User_Terminal.thy ===== *)
theory User_Terminal
  imports User_Library
begin

text \<open>
  Reading a line: what \<open>cos32_terminal_readline\<close> makes of the keys typed.  The contract of a console
  is a locale; the kernel's key buffers and terminals meet it.
\<close>

section \<open>Reading a line\<close>

text \<open>
  The contract of a keyboard as a program sees it, and of a console, which also shows characters:
  \<open>pending\<close> are the keys that wait in the kernel.
\<close>

locale typed_keys =
  fixes call :: "'k kernel_call"
    and ok :: "'k \<Rightarrow> bool"
    and pending :: "'k \<Rightarrow> byte list"
  assumes getkey: "ok (u_kernel u) \<Longrightarrow> pending (u_kernel u) = c # cs \<Longrightarrow>
      \<exists>k. call 2 [] u = Inr (scast c, u\<lparr>u_kernel := k\<rparr>) \<and> ok k \<and> pending k = cs"
    and pending_keys: "ok k \<Longrightarrow> 0 \<notin> set (pending k)"
begin

lemma getkeyblock:
  assumes "ok (u_kernel u)" "pending (u_kernel u) = c # cs"
  obtains k where "cos32_getkeyblock call u = Inr (c, u\<lparr>u_kernel := k\<rparr>)" "ok k" "pending k = cs"
proof -
  obtain k where k: "call 2 [] u = Inr (scast c, u\<lparr>u_kernel := k\<rparr>)" "ok k" "pending k = cs"
    using getkey [OF assms] by blast
  have "c \<noteq> 0" using pending_keys [OF assms(1)] assms(2) by auto
  moreover have uc: "ucast (scast c :: u32) = c" by (rule bit_word_eqI) (auto simp: bit_simps)
  ultimately have "scast c \<noteq> (0 :: u32)" by (metis ucast_0)
  then have "try_again call u = Some (Inr (c, u\<lparr>u_kernel := k\<rparr>))"
    using k(1) uc by (subst try_again.simps) simp
  then show thesis using that k by (simp add: cos32_getkeyblock_def ran_def)
qed

end

locale console = typed_keys +
  assumes putchar: "ok (u_kernel u) \<Longrightarrow>
      \<exists>r k. call 4 [scast (c :: byte)] u = Inr (r, u\<lparr>u_kernel := k\<rparr>) \<and> ok k \<and> pending k = pending (u_kernel u)"

text \<open>What a key does to the line typed so far: the backspace takes the last character off, if there is one.\<close>

definition line_key :: "byte list \<Rightarrow> byte \<Rightarrow> byte list" where
  "line_key xs c = (if c = 0x08 \<and> xs \<noteq> [] then butlast xs else xs @ [c])"

lemma length_line_key: "length (line_key xs c) \<le> Suc (length xs)"
  by (auto simp: line_key_def)

lemma length_line: "length (foldl line_key xs cs) \<le> length xs + length cs"
proof (induction cs arbitrary: xs)
  case (Cons c cs)
  show ?case using Cons.IH [of "line_key xs c"] length_line_key [of xs c] by simp
qed simp

lemma put_byte_simps [simp]:
  "u_kernel (put_byte p b u) = u_kernel u" "u_ram (put_byte p b u) = (u_ram u)(p := b)"
  by (simp_all add: put_byte_def)

lemma of_int_addr: "out + word_of_int (int n) = out + (of_nat n :: addr)"
  by simp

text \<open>The store a key makes keeps the line in the buffer.\<close>

lemma line_key_store:
  fixes c :: byte and m :: ram
  assumes "read_bytes m out (length xs) = xs" "length xs < 2 ^ 31"
  defines "m' \<equiv> (if c = 0x08 \<and> xs \<noteq> [] then m(out + word_of_int (int (length xs) - 1) := 0)
                 else m(out + word_of_int (int (length xs)) := c))"
  shows "read_bytes m' out (length (line_key xs c)) = line_key xs c"
    "a \<notin> region out (Suc (length xs)) \<Longrightarrow> m' a = m a"
proof -
  have nth: "m (out + of_nat i) = xs ! i" if "i < length xs" for i
    using assms(1) that by (metis nth_read_bytes)
  have inj: "out + (of_nat i :: addr) = out + of_nat j \<longleftrightarrow> i = j" if "i \<le> length xs" "j \<le> length xs" for i j
    using that assms(2) by (simp add: of_nat_inj_u32)
  have e: "int (length xs) - 1 = int (length xs - 1)" if "xs \<noteq> []" using that by (cases xs) simp_all
  show "read_bytes m' out (length (line_key xs c)) = line_key xs c"
  proof (rule nth_equalityI)
    fix i assume i: "i < length (read_bytes m' out (length (line_key xs c)))"
    then have "read_bytes m' out (length (line_key xs c)) ! i = m' (out + of_nat i)" by simp
    also have "\<dots> = line_key xs c ! i"
    proof (cases "c = 0x08 \<and> xs \<noteq> []")
      case True
      then have l: "line_key xs c = butlast xs" unfolding line_key_def by (rule if_P)
      then have i': "i < length xs - 1" using i by simp
      have "m' (out + of_nat i) = m (out + of_nat i)"
        using i' inj [of i "length xs - 1"] unfolding m'_def if_P [OF True] e [OF conjunct2 [OF True]] of_int_addr by simp
      then show ?thesis using i' nth [of i] by (simp add: l nth_butlast)
    next
      case False
      then have l: "line_key xs c = xs @ [c]" by (simp only: line_key_def if_False)
      have m: "m' (out + of_nat i) = (if i = length xs then c else m (out + of_nat i))"
        using i inj [of i "length xs"] unfolding m'_def if_not_P [OF False] of_int_addr l by simp
      show ?thesis
      proof (cases "i = length xs")
        case True
        then show ?thesis using m by (simp add: l)
      next
        case False
        then have "i < length xs" using i by (simp add: l)
        then show ?thesis using nth [of i] False by (simp add: m l nth_append)
      qed
    qed
    finally show "read_bytes m' out (length (line_key xs c)) ! i = line_key xs c ! i" .
  qed simp
  assume a: "a \<notin> region out (Suc (length xs))"
  have ne: "a \<noteq> out + of_nat i" if "i \<le> length xs" for i using a that by (auto simp: mem_region less_Suc_eq_le)
  show "m' a = m a"
  proof (cases "c = 0x08 \<and> xs \<noteq> []")
    case True
    show ?thesis using ne [of "length xs - 1"] unfolding m'_def if_P [OF True] e [OF conjunct2 [OF True]] of_int_addr by simp
  next
    case False
    show ?thesis using ne [of "length xs"] unfolding m'_def if_not_P [OF False] of_int_addr by simp
  qed
qed

context console
begin

lemma readline_loop_keys:
  assumes "ok (u_kernel u)" "pending (u_kernel u) = cs @ 13 # rest" "13 \<notin> set cs"
    and "read_bytes (u_ram u) out (length xs) = xs" "int (length xs + length cs) < mx - 1" "mx < 2 ^ 31"
  shows "\<exists>u'. readline_loop call out mx echo (int (length xs)) u = Some (Inr (int (length (foldl line_key xs cs)), u')) \<and>
    read_bytes (u_ram u') out (length (foldl line_key xs cs)) = foldl line_key xs cs \<and>
    ok (u_kernel u') \<and> pending (u_kernel u') = rest \<and>
    (\<forall>a. a \<notin> region out (length xs + length cs) \<longrightarrow> u_ram u' a = u_ram u a)"
  using assms
proof (induction cs arbitrary: u xs)
  case Nil
  then have p: "pending (u_kernel u) = 13 # rest" by simp
  obtain k where k: "cos32_getkeyblock call u = Inr (13, u\<lparr>u_kernel := k\<rparr>)" "ok k" "pending k = rest"
    by (rule getkeyblock [OF Nil(1) p])
  have "readline_loop call out mx echo (int (length xs)) u = Some (Inr (int (length xs), u\<lparr>u_kernel := k\<rparr>))"
    using k(1) Nil(5) by (subst readline_loop.simps) simp
  then show ?case using k Nil(4) by simp
next
  case (Cons c cs)
  have p: "pending (u_kernel u) = c # (cs @ 13 # rest)" using Cons.prems(2) by simp
  obtain k where k: "cos32_getkeyblock call u = Inr (c, u\<lparr>u_kernel := k\<rparr>)" "ok k" "pending k = cs @ 13 # rest"
    by (rule getkeyblock [OF Cons.prems(1) p])
  define w where "w = (if echo then cos32_putchar call c (u\<lparr>u_kernel := k\<rparr>) else Inr (0, u\<lparr>u_kernel := k\<rparr>))"
  obtain r k' where w: "w = Inr (r, u\<lparr>u_kernel := k'\<rparr>)" "ok k'" "pending k' = cs @ 13 # rest"
  proof (cases echo)
    case True
    obtain r k' where "call 4 [scast c] (u\<lparr>u_kernel := k\<rparr>) = Inr (r, u\<lparr>u_kernel := k'\<rparr>)" "ok k'" "pending k' = pending k"
      using putchar [of "u\<lparr>u_kernel := k\<rparr>" c] k(2) by auto
    then show ?thesis using that True k(3) by (simp add: w_def cos32_putchar_def)
  qed (use that k in \<open>simp add: w_def\<close>)
  let ?n = "int (length xs)" and ?b = "c = 0x08 \<and> xs \<noteq> []"
  define v where "v = (if ?b then put_byte (out + word_of_int (?n - 1)) 0 (u\<lparr>u_kernel := k'\<rparr>)
                       else put_byte (out + word_of_int ?n) c (u\<lparr>u_kernel := k'\<rparr>))"
  have n: "int (length (line_key xs c)) = (if ?b then ?n - 1 else ?n + 1)"
    by (cases xs) (simp_all add: line_key_def)
  have b: "Suc 0 \<le> length xs \<longleftrightarrow> xs \<noteq> []" by (cases xs) simp_all
  have step: "readline_loop call out mx echo ?n u = readline_loop call out mx echo (int (length (line_key xs c))) v"
    using Cons.prems(3,5) k(1) w(1) unfolding n v_def
    by (subst readline_loop.simps) (simp add: w_def [symmetric] b)
  have vk: "u_kernel v = k'" by (simp add: v_def)
  have vm: "u_ram v = (if ?b then (u_ram u)(out + word_of_int (?n - 1) := 0) else (u_ram u)(out + word_of_int ?n := c))"
    by (simp add: v_def)
  have l: "length xs < 2 ^ 31" using Cons.prems(5,6) by simp
  note st = line_key_store [OF Cons.prems(4) l, where c = c, folded vm]
  have l2: "int (length (line_key xs c) + length cs) < mx - 1"
    using Cons.prems(5) length_line_key [of xs c] by simp
  have "13 \<notin> set cs" using Cons.prems(3) by simp
  from Cons.IH [of v "line_key xs c", unfolded vk, OF w(2,3) this st(1) l2 Cons.prems(6)]
  obtain u' where u': "readline_loop call out mx echo (int (length (line_key xs c))) v =
        Some (Inr (int (length (foldl line_key (line_key xs c) cs)), u'))"
      "read_bytes (u_ram u') out (length (foldl line_key (line_key xs c) cs)) = foldl line_key (line_key xs c) cs"
      "ok (u_kernel u')" "pending (u_kernel u') = rest"
      "\<forall>a. a \<notin> region out (length (line_key xs c) + length cs) \<longrightarrow> u_ram u' a = u_ram v a"
    by (elim exE conjE) (rule that)
  have "u_ram u' a = u_ram u a" if "a \<notin> region out (length xs + length (c # cs))" for a
  proof -
    have "region out (length (line_key xs c) + length cs) \<subseteq> region out (length xs + length (c # cs))"
      "region out (Suc (length xs)) \<subseteq> region out (length xs + length (c # cs))"
      using length_line_key [of xs c] by (simp_all add: region_mono)
    then have "a \<notin> region out (length (line_key xs c) + length cs)" "a \<notin> region out (Suc (length xs))"
      using that by blast+
    then show ?thesis using u'(5) st(2) by simp
  qed
  then show ?case using u'(1-4) step by (intro exI [of _ u']) simp
qed

lemma readline:
  assumes "ok (u_kernel u)" "pending (u_kernel u) = cs @ 13 # rest" "13 \<notin> set cs"
    and "int (length cs) < mx - 1" "mx < 2 ^ 31"
  shows "\<exists>u'. cos32_terminal_readline call out mx echo u = Inr u' \<and>
    (let line = foldl line_key [] cs in
      read_bytes (u_ram u') out (length line) = line \<and> u_ram u' (out + of_nat (length line)) = 0) \<and>
    ok (u_kernel u') \<and> pending (u_kernel u') = rest \<and>
    (\<forall>a. a \<notin> region out (Suc (length cs)) \<longrightarrow> u_ram u' a = u_ram u a)"
proof -
  let ?l = "foldl line_key [] cs"
  have z: "read_bytes (u_ram u) out (length ([] :: byte list)) = []" "int (length ([] :: byte list) + length cs) < mx - 1"
    using assms(4) by (simp_all add: read_bytes_def)
  obtain u' where u': "readline_loop call out mx echo (int (length ([] :: byte list))) u = Some (Inr (int (length ?l), u'))"
      "read_bytes (u_ram u') out (length ?l) = ?l" "ok (u_kernel u')" "pending (u_kernel u') = rest"
    and fr: "\<forall>a. a \<notin> region out (length cs) \<longrightarrow> u_ram u' a = u_ram u a"
    using readline_loop_keys [OF assms(1-3) z assms(5), of echo] by auto
  let ?v = "put_byte (out + word_of_int (int (length ?l))) 0 u'"
  have r: "cos32_terminal_readline call out mx echo u = Inr ?v"
    using u'(1) by (simp add: cos32_terminal_readline_def ran_def)
  have le: "length ?l \<le> length cs" using length_line [of "[]" cs] by simp
  have lt: "length ?l < 2 ^ 31" using le assms(4,5) by simp
  have ne: "out + (of_nat i :: addr) \<noteq> out + of_nat (length ?l)" if "i < length ?l" for i
    using that lt by (simp add: of_nat_inj_u32)
  have "read_bytes (u_ram ?v) out (length ?l) = read_bytes (u_ram u') out (length ?l)"
    unfolding read_bytes_def using ne by (intro map_cong) (auto simp del: of_int_of_nat_eq simp: of_int_addr)
  moreover have "u_ram ?v a = u_ram u a" if "a \<notin> region out (Suc (length cs))" for a
  proof -
    have "a \<noteq> out + of_nat (length ?l)" using that le by (auto simp: mem_region less_Suc_eq_le)
    moreover have "a \<notin> region out (length cs)" using that region_mono [of "length cs" "Suc (length cs)" out] by auto
    ultimately show ?thesis using fr by simp
  qed
  ultimately show ?thesis using r u'(2-4) by (intro exI [of _ ?v] conjI) (simp_all add: Let_def)
qed

end

section \<open>The kernel as the console of its running program\<close>

text \<open>
  The commands for keys, characters and memory, run by the kernel on its own state: the key from the
  buffer of the process, the character to its terminal, the memory from the kernel heap.
\<close>

definition console_call :: "'a kstate_scheme kernel_call" where
  "console_call n items u =
     (if n = 2 then bindE (isr80h_command2_get_key (u_kernel u)) (\<lambda>(r, _, k). Inr (r, u\<lparr>u_kernel := k\<rparr>))
      else if n = 4 then bindE (task_putchar (u_kernel u) (ucast (hd items))) (\<lambda>k. Inr (0, u\<lparr>u_kernel := k\<rparr>))
      else if n = 5
      then bindE (task_malloc (u_kernel u) (current_task (u_kernel u)) (sint (hd items))) (\<lambda>(p, k). Inr (p, u\<lparr>u_kernel := k\<rparr>))
      else Inl (BadPointer n))"

definition console_ok :: "'a kstate_scheme \<Rightarrow> bool" where
  "console_ok k \<longleftrightarrow> current_task k \<noteq> 0 \<and> chunks k (kernel_paging_chunk k) \<noteq> None \<and>
     (case tasks k (current_task k) of None \<Rightarrow> False | Some t \<Rightarrow> chunks k (tk_page_directory t) \<noteq> None \<and>
     (case process_at k (tk_process t) of None \<Rightarrow> False | Some p \<Rightarrow>
        keys_ok (p_keyboard p) \<and> videos k (p_video p) \<noteq> None))"

definition waiting_keys :: "'a kstate_scheme \<Rightarrow> byte list" where
  "waiting_keys k = (case tasks k (current_task k) of None \<Rightarrow> [] | Some t \<Rightarrow>
     (case process_at k (tk_process t) of None \<Rightarrow> [] | Some p \<Rightarrow> queued (p_keyboard p)))"

lemma console_okE:
  assumes "console_ok k"
  obtains t p v c d where "current_task k \<noteq> 0" "tasks k (current_task k) = Some t" "process_at k (tk_process t) = Some p"
    "keys_ok (p_keyboard p)" "videos k (p_video p) = Some v" "chunks k (tk_page_directory t) = Some c"
    "chunks k (kernel_paging_chunk k) = Some d"
  using assms by (auto simp: console_ok_def split: option.splits)

lemma console_getkey:
  assumes "console_ok k" "waiting_keys k = c # cs"
  shows "\<exists>k'. isr80h_command2_get_key k = Inr (scast c, Returns, k') \<and> console_ok k' \<and> waiting_keys k' = cs"
proof -
  obtain t p v ch d where e: "current_task k \<noteq> 0" "tasks k (current_task k) = Some t" "process_at k (tk_process t) = Some p"
    "keys_ok (p_keyboard p)" "videos k (p_video p) = Some v" "chunks k (tk_page_directory t) = Some ch"
    "chunks k (kernel_paging_chunk k) = Some d"
    by (rule console_okE [OF assms(1)])
  have q: "queued (p_keyboard p) = c # cs" using assms(2) e(2,3) by (simp add: waiting_keys_def)
  obtain kb where b: "buffer_pop (p_keyboard p) = (c, kb)" "keys_ok kb" "queued kb = cs"
    using keys.pop_key [OF e(4)] keys.pop_ok [OF e(4)] keys.pop_items [OF e(4)] q
    by (cases "buffer_pop (p_keyboard p)") simp
  let ?k = "k\<lparr>process_at := (process_at k)(tk_process t \<mapsto> p\<lparr>p_keyboard := kb\<rparr>)\<rparr>"
  have "keyboard_pop k = Inr (c, ?k)"
    using e(1,2,3) b(1) by (simp add: keyboard_pop_def deref_Some)
  moreover have "console_ok ?k" "waiting_keys ?k = cs"
    using e b by (simp_all add: console_ok_def waiting_keys_def)
  ultimately show ?thesis by (simp add: isr80h_command2_get_key_def)
qed

lemma console_putchar:
  assumes "console_ok k"
  shows "\<exists>k'. task_putchar k c = Inr k' \<and> console_ok k' \<and> waiting_keys k' = waiting_keys k"
proof -
  obtain t p v ch d where e: "current_task k \<noteq> 0" "tasks k (current_task k) = Some t" "process_at k (tk_process t) = Some p"
    "keys_ok (p_keyboard p)" "videos k (p_video p) = Some v" "chunks k (tk_page_directory t) = Some ch"
    "chunks k (kernel_paging_chunk k) = Some d"
    by (rule console_okE [OF assms])
  obtain m props where w: "terminal_putchar (km_ram k) (v_properties v) c = (m, props)"
    by (cases "terminal_putchar (km_ram k) (v_properties v) c")
  let ?k = "k\<lparr>current_directory := directory_entry d, current_chunk := kernel_paging_chunk k, km_ram := m,
    videos := (videos k)(p_video p \<mapsto> v\<lparr>v_properties := props\<rparr>)\<rparr>"
  have "task_putchar k c = Inr ?k"
    using e w by (simp add: task_putchar_def task_page_def task_page_task_def paging_switch_def kernel_page_def
        upd_video_def deref_Some)
  moreover have "console_ok ?k" "waiting_keys ?k = waiting_keys k"
    using e by (simp_all add: console_ok_def waiting_keys_def)
  ultimately show ?thesis by blast
qed

interpretation kernel_console: console console_call console_ok waiting_keys
proof unfold_locales
  fix u :: "'a kstate_scheme user" and c cs
  assume "console_ok (u_kernel u)" "waiting_keys (u_kernel u) = c # cs"
  from console_getkey [OF this]
  show "\<exists>k. console_call 2 [] u = Inr (scast c, u\<lparr>u_kernel := k\<rparr>) \<and> console_ok k \<and> waiting_keys k = cs"
    by (auto simp: console_call_def)
next
  fix k :: "'a kstate_scheme"
  assume "console_ok k"
  then show "0 \<notin> set (waiting_keys k)"
    by (rule console_okE) (simp add: waiting_keys_def queued_props(3))
next
  fix u :: "'a kstate_scheme user" and c :: byte
  assume "console_ok (u_kernel u)"
  from console_putchar [OF this, of "ucast (scast c :: u32)"]
  show "\<exists>r k. console_call 4 [scast c] u = Inr (r, u\<lparr>u_kernel := k\<rparr>) \<and> console_ok k \<and> waiting_keys k = waiting_keys (u_kernel u)"
    by (auto simp: console_call_def)
qed

text \<open>C20: A program that reads a line gets the keys typed before Enter, each backspace taking the last
  character off the line, with a terminator behind; the keys after Enter stay for the next line, and no
  byte behind the longest line is written.\<close>

theorem readline_reads_line:
  assumes "console_ok (u_kernel u)" "waiting_keys (u_kernel u) = cs @ 13 # rest" "13 \<notin> set cs"
    and "int (length cs) < mx - 1" "mx < 2 ^ 31"
  shows "\<exists>u'. cos32_terminal_readline console_call out mx echo u = Inr u' \<and>
    (let line = foldl line_key [] cs in
      read_bytes (u_ram u') out (length line) = line \<and> u_ram u' (out + of_nat (length line)) = 0) \<and>
    waiting_keys (u_kernel u') = rest \<and>
    (\<forall>a. a \<notin> region out (Suc (length cs)) \<longrightarrow> u_ram u' a = u_ram u a)"
  using kernel_console.readline [OF assms] by blast

definition demo_console :: kstate where
  "demo_console = demo_keyboard\<lparr>
     process_at := [0x500 \<mapsto> zero_process\<lparr>p_keyboard := foldl buffer_push (p_keyboard zero_process) [104, 8, 105, 13],
       p_video := 0x800\<rparr>],
     videos := [0x800 \<mapsto> \<lparr>v_properties = \<lparr>tp_index = 0, tp_color = 0, tp_data = 0x90000, tp_y_scroll = 0, tp_video = 0x800\<rparr>,
       v_ptr = 0, v_backbuffer = 0, v_rectangles = 0, v_rectangle_last = 0, v_printing_rectangle = 0, v_flags = 0\<rparr>],
     chunks := [0 \<mapsto> \<lparr>directory_entry = 0x1000, faults = 0, last_fault = 0\<rparr>]\<rparr>"

lemma demo_console_keys:
  "console_ok demo_console" "waiting_keys demo_console = [104, 8, 105, 13]"
proof -
  let ?p = "zero_process\<lparr>p_keyboard := foldl buffer_push (p_keyboard zero_process) [104, 8, 105, 13], p_video := 0x800\<rparr>"
  have q: "keys_ok (p_keyboard ?p)" "queued (p_keyboard ?p) = [104, 8, 105, 13]"
    using keys.pushes [of "p_keyboard zero_process" "[104, 8, 105, 13]"] zero_keys by simp_all
  have d: "current_task demo_console = 16" "tasks demo_console 16 = Some (zero_task\<lparr>tk_process := 0x500\<rparr>)"
    "process_at demo_console 0x500 = Some ?p" "kernel_paging_chunk demo_console = 0"
    "chunks demo_console 0 \<noteq> None" "videos demo_console 0x800 \<noteq> None" "tk_page_directory zero_task = 0"
    by (simp_all add: demo_console_def demo_keyboard_def blank_kernel_def zero_task_def)
  show "console_ok demo_console" using q(1) d by (simp add: console_ok_def)
  show "waiting_keys demo_console = [104, 8, 105, 13]" using q(2) d by (simp add: waiting_keys_def)
qed

lemma readline_reads_line_witness:
  "\<exists>u'. cos32_terminal_readline console_call 0x2000 512 True \<lparr>u_ram = \<lambda>a. 7, u_sp = 0, u_kernel = demo_console\<rparr> = Inr u' \<and>
    read_bytes (u_ram u') 0x2000 1 = [105] \<and> u_ram u' 0x2001 = 0 \<and> u_ram u' 0x2005 = 7"
proof -
  let ?u = "\<lparr>u_ram = \<lambda>a. 7, u_sp = 0, u_kernel = demo_console\<rparr> :: kstate user"
  have k: "console_ok (u_kernel ?u)" "waiting_keys (u_kernel ?u) = [104, 8, 105] @ 13 # []"
    using demo_console_keys by simp_all
  have l: "foldl line_key [] [104, 8, 105] = [105]" by (simp add: line_key_def)
  have a: "(0x2005 :: addr) \<notin> region 0x2000 (Suc (length [104, 8, 105 :: byte]))"
    by (simp add: numeral_3_eq_3 region_Suc)
  obtain u' where u': "cos32_terminal_readline console_call 0x2000 512 True ?u = Inr u'"
      "read_bytes (u_ram u') 0x2000 (length [105 :: byte]) = [105]" "u_ram u' (0x2000 + of_nat (length [105 :: byte])) = 0"
      "\<forall>a. a \<notin> region 0x2000 (Suc (length [104, 8, 105 :: byte])) \<longrightarrow> u_ram u' a = u_ram ?u a"
    using readline_reads_line [OF k, where mx = 512 and out = "0x2000" and echo = True] unfolding l Let_def by auto
  then show ?thesis using u'(4) [rule_format, OF a] by (intro exI [of _ u']) simp
qed

end
