(* ===== verification/User_Commands.thy ===== *)
theory User_Commands
  imports User_Terminal
begin

text \<open>
  Parsing a command: \<open>cos32_parse_command\<close> turns a command into the list of its words.  The contract
  of the memory a program is granted is a locale; the kernel's heap, handed out by
  \<open>process_malloc\<close>, meets it.
\<close>

section \<open>What the string routines write\<close>

text \<open>A string in a field of \<open>n\<close> bytes, filled up with zeroes.\<close>

definition padded :: "nat \<Rightarrow> byte list \<Rightarrow> byte list" where
  "padded n xs = take n (xs @ replicate n 0)"

lemma length_padded [simp]: "length (padded n xs) = n"
  by (simp add: padded_def)

lemma nth_padded: "i < n \<Longrightarrow> padded n xs ! i = (if i < length xs then xs ! i else 0)"
  by (simp add: padded_def nth_append)

lemma user_strncpy_loop_fill:
  assumes "string_in m src xs" "\<forall>j\<le>length xs. src + of_nat j \<notin> region dest (i + k)" "i \<le> length xs"
  shows "user_strncpy_loop m dest src i k = fold (\<lambda>j m. m(dest + of_nat j := padded (i + k) xs ! j)) [i..<i + k] m"
  using assms
proof (induction k arbitrary: i m)
  case (Suc k)
  let ?n = "i + Suc k"
  have up: "[i..<?n] = i # [Suc i..<?n]" by (rule upt_conv_Cons) simp
  have e: "Suc i + k = ?n" by simp
  have f: "padded ?n xs ! i = (if i < length xs then xs ! i else 0)" by (simp add: nth_padded)
  show ?case
  proof (cases "i < length xs")
    case True
    let ?m = "m(dest + of_nat i := xs ! i)"
    have c: "m (src + of_nat i) = xs ! i" "xs ! i \<noteq> 0" using string_in_nth [OF Suc.prems(1) True] by simp_all
    have d: "dest + of_nat i \<in> region dest ?n" by (rule region_memI) simp
    have s: "string_in ?m src xs"
      by (rule string_in_frame [OF Suc.prems(1)]) (use Suc.prems(2) d in \<open>auto simp: fun_upd_def\<close>)
    have "user_strncpy_loop ?m dest src (Suc i) k =
        fold (\<lambda>j m. m(dest + of_nat j := padded (Suc i + k) xs ! j)) [Suc i..<Suc i + k] ?m"
      by (rule Suc.IH [OF s]) (use Suc.prems(2) True in simp_all)
    then have ih: "user_strncpy_loop ?m dest src (Suc i) k =
        fold (\<lambda>j m. m(dest + of_nat j := padded ?n xs ! j)) [Suc i..<?n] ?m"
      unfolding e .
    have "user_strncpy_loop m dest src i (Suc k) = user_strncpy_loop ?m dest src (Suc i) k" using c by simp
    then show ?thesis using True unfolding up ih fold.simps comp_apply f by (simp only: if_True)
  next
    case False
    then have "i = length xs" using Suc.prems(3) by simp
    then have z: "m (src + of_nat i) = 0" using Suc.prems(1) by (simp add: string_in_def)
    have p: "padded ?n xs ! j = 0" if "j \<in> set [i..<?n]" for j using that False nth_padded [of j ?n xs] by (auto simp del: upt_Suc)
    have "fold (\<lambda>j m. m(dest + of_nat j := padded ?n xs ! j)) [i..<?n] m = fold (\<lambda>j m. m(dest + of_nat j := 0)) [i..<?n] m"
      by (rule fold_cong) (use p in simp_all)
    also have "\<dots> = fold (\<lambda>j m. m(dest + of_nat i + of_nat j := 0)) [0..<Suc k] m"
    proof -
      have "[i..<?n] = map (\<lambda>j. i + j) [0..<Suc k]" by (simp add: map_add_upt add.commute del: upt_Suc)
      then show ?thesis by (simp only: fold_map comp_def of_nat_add add.assoc)
    qed
    also have "\<dots> = user_strncpy_loop m dest src i (Suc k)"
      by (simp only: user_strncpy_loop.simps z memset_def nat_int simp_thms if_False)
    finally show ?thesis by (rule sym)
  qed
qed simp

lemma user_strncpy_writes:
  assumes "string_in m src xs" "region src (Suc (length xs)) \<inter> region dest n = {}"
  shows "user_strncpy m dest src (int n) = write_bytes m dest (padded n xs)"
proof -
  have "\<forall>j\<le>length xs. src + of_nat j \<notin> region dest (0 + n)"
  proof (intro allI impI)
    fix j assume "j \<le> length xs"
    then have "src + of_nat j \<in> region src (Suc (length xs))" by (intro region_memI) simp
    then show "src + of_nat j \<notin> region dest (0 + n)" using assms(2) by auto
  qed
  from user_strncpy_loop_fill [OF assms(1) this] show ?thesis by (simp add: user_strncpy_def write_bytes_def)
qed

lemma padded_string:
  assumes "0 \<notin> set xs" "length xs < n" "unat p + n \<le> 2 ^ 32"
  shows "string_in (write_bytes m p (padded n xs)) p xs"
proof (rule string_inI)
  show "unat p + length xs < 2 ^ 32" using assms by simp
  have b: "write_bytes m p (padded n xs) (p + of_nat i) = padded n xs ! i" if "i < n" for i
    by (rule write_bytes_in) (use that assms(3) in simp_all)
  show "write_bytes m p (padded n xs) (p + of_nat i) = xs ! i \<and> xs ! i \<noteq> 0" if "i < length xs" for i
    using b [of i] that assms(1,2) nth_mem [OF that] by (cases "xs ! i = 0") (simp_all add: nth_padded)
  show "write_bytes m p (padded n xs) (p + of_nat (length xs)) = 0"
    using b [of "length xs"] assms by (simp add: nth_padded)
qed
section \<open>Parsing a command\<close>

text \<open>The list of arguments the kernel is handed: what a chain of structures from \<open>p\<close> on says.\<close>

fun arguments_at :: "ram \<Rightarrow> addr \<Rightarrow> byte list list \<Rightarrow> bool" where
  "arguments_at m p [] \<longleftrightarrow> p = 0"
| "arguments_at m p (t # ts) \<longleftrightarrow> p \<noteq> 0 \<and> read_bytes m p 512 = padded 512 t \<and> arguments_at m (load32 m (p + 512)) ts"

text \<open>The next \<open>n\<close> requests for memory are met.\<close>

fun grants :: "('k \<Rightarrow> (addr \<times> 'k) outcome) \<Rightarrow> nat \<Rightarrow> 'k \<Rightarrow> bool" where
  "grants grant 0 k \<longleftrightarrow> True"
| "grants grant (Suc n) k \<longleftrightarrow> (case grant k of Inl e \<Rightarrow> False | Inr (p, k') \<Rightarrow> p \<noteq> 0 \<and> grants grant n k')"

text \<open>
  What \<open>strtok\<close> has returned and where it stands, when it splits a string in the bytes \<open>B\<close> at blanks
  and \<open>toks\<close> are the token returned and the tokens to come.
\<close>

definition token_at :: "addr set \<Rightarrow> ram \<Rightarrow> addr \<Rightarrow> addr \<Rightarrow> byte list list \<Rightarrow> bool" where
  "token_at B m sp token toks \<longleftrightarrow> (case toks of [] \<Rightarrow> token = 0 \<and> sp = 0
     | t # ts \<Rightarrow> token \<noteq> 0 \<and> string_in m token t \<and> region token (Suc (length t)) \<subseteq> B \<and> sp \<noteq> 0 \<and>
         (\<exists>rest. string_in m sp rest \<and> tokens [0x20] rest = ts \<and> region sp (Suc (length rest)) \<subseteq> B))"

lemma string_in_same:
  assumes "string_in m p xs" "\<And>a. a \<in> region p (Suc (length xs)) \<Longrightarrow> m' a = m a"
  shows "string_in m' p xs"
  by (rule string_in_frame [OF assms(1)]) (use assms(2) in \<open>auto simp: mem_region less_Suc_eq_le\<close>)

lemma token_at_same:
  assumes "token_at B m sp token toks" "\<And>a. a \<in> B \<Longrightarrow> m' a = m a"
  shows "token_at B m' sp token toks"
proof (cases toks)
  case (Cons t ts)
  have s: "string_in m' p xs" if "string_in m p xs" "region p (Suc (length xs)) \<subseteq> B" for p xs
    by (rule string_in_same [OF that(1)]) (use that(2) assms(2) in blast)
  show ?thesis using assms(1) s unfolding token_at_def Cons list.case by blast
qed (use assms in \<open>simp add: token_at_def\<close>)

lemma strtok_token:
  assumes "string_in m d [0x20]" "string_in m p xs" "p \<noteq> 0" "sp = p \<or> (sp = 0 \<and> str = p)"
    and "region p (Suc (length xs)) \<subseteq> B" "B \<inter> region d 2 = {}"
  shows "\<exists>m' sp' q. strtok m sp str d = Some (m', sp', q) \<and> token_at B m' sp' q (tokens [0x20] xs) \<and>
    string_in m' d [0x20] \<and> (\<forall>a. a \<notin> B \<longrightarrow> m' a = m a)"
proof -
  have l: "Suc (length [0x20 :: byte]) = 2" by simp
  have dis: "region p (Suc (length xs)) \<inter> region d (Suc (length [0x20 :: byte])) = {}"
    unfolding l using assms(5,6) by blast
  note r = strtok_tokens_result [OF assms(1-4) dis]
  show ?thesis
  proof (cases "tokens [0x20] xs")
    case Nil
    then show ?thesis using r assms(1) by (simp add: token_at_def)
  next
    case (Cons t ts)
    obtain m' sp' q rest where o: "strtok m sp str d = Some (m', sp', q)" "string_in m' q t" "string_in m' sp' rest"
      "tokens [0x20] rest = ts" "string_in m' d [0x20]" "sp' \<noteq> 0" "region sp' (Suc (length rest)) \<subseteq> region p (Suc (length xs))"
      "q \<noteq> 0" "region q (Suc (length t)) \<subseteq> region p (Suc (length xs))"
      "\<forall>x. x \<notin> region p (Suc (length xs)) \<longrightarrow> m' x = m x"
      using r unfolding Cons list.case by blast
    have "token_at B m' sp' q (t # ts)"
      unfolding token_at_def list.case using o assms(5) by blast
    then show ?thesis using o assms(5) unfolding Cons by blast
  qed
qed

lemma argument_regions:
  "region (p + 512) 4 \<subseteq> region p 516" "region p 512 \<subseteq> region p 516" "region p 512 \<inter> region (p + 512) 4 = {}"
  using region_sub [of 512 4 516 p] region_apart [of 0 512 512 4 p] by (simp_all add: region_mono)

text \<open>The contract of the memory the kernel grants to a program, for structures of 516 bytes.\<close>

locale program_heap =
  fixes call :: "'k kernel_call"
    and grant :: "'k \<Rightarrow> (addr \<times> 'k) outcome"
    and ok :: "'k \<Rightarrow> bool"
    and used :: "'k \<Rightarrow> addr set"
    and arena :: "addr set"
  assumes served: "call 5 [516] u = bindE (grant (u_kernel u)) (\<lambda>(p, k). Inr (p, u\<lparr>u_kernel := k\<rparr>))"
    and granted_ok: "ok k \<Longrightarrow> grant k = Inr (p, k') \<Longrightarrow> p \<noteq> 0 \<Longrightarrow> ok k'"
    and granted_fresh: "ok k \<Longrightarrow> grant k = Inr (p, k') \<Longrightarrow> p \<noteq> 0 \<Longrightarrow> region p 516 \<inter> used k = {}"
    and granted_used: "ok k \<Longrightarrow> grant k = Inr (p, k') \<Longrightarrow> p \<noteq> 0 \<Longrightarrow> region p 516 \<union> used k \<subseteq> used k'"
    and used_arena: "ok k \<Longrightarrow> used k \<subseteq> arena"
begin

text \<open>A new structure for a token: what it holds and what changes.\<close>

lemma new_argument:
  assumes "ok (u_kernel u)" "grant (u_kernel u) = Inr (p, k)" "p \<noteq> 0"
    and "string_in (u_ram u) token t" "region token (Suc (length t)) \<subseteq> B" "B \<inter> arena = {}"
  defines "v \<equiv> command_argument_new p token (u\<lparr>u_kernel := k\<rparr>)"
  shows "cos32_malloc call 516 u = Inr (p, u\<lparr>u_kernel := k\<rparr>)" "u_kernel v = k" "u_sp v = u_sp u"
    "read_bytes (u_ram v) p 512 = padded 512 t" "load32 (u_ram v) (p + 512) = 0"
    "\<forall>a. a \<notin> region p 516 \<longrightarrow> u_ram v a = u_ram u a" "region p 516 \<subseteq> arena"
proof -
  show "cos32_malloc call 516 u = Inr (p, u\<lparr>u_kernel := k\<rparr>)"
    using served [of u] assms(2) by (simp add: cos32_malloc_def)
  show k: "u_kernel v = k" "u_sp v = u_sp u" by (simp_all add: v_def command_argument_new_def)
  show ar: "region p 516 \<subseteq> arena"
    using granted_used [OF assms(1-3)] used_arena [OF granted_ok [OF assms(1-3)]] by blast
  have d: "region token (Suc (length t)) \<inter> region p 512 = {}"
    using assms(5,6) ar argument_regions(2) [of p] by blast
  have m: "u_ram v = store32 (write_bytes (u_ram u) p (padded 512 t)) (p + 512) 0"
    using user_strncpy_writes [OF assms(4) d] by (simp add: v_def command_argument_new_def)
  show "load32 (u_ram v) (p + 512) = 0" unfolding m by simp
  have "read_bytes (u_ram v) p 512 = read_bytes (write_bytes (u_ram u) p (padded 512 t)) p 512"
    unfolding m by (rule read_bytes_cong) (use argument_regions(3) [of p] in \<open>blast intro: store32_out\<close>)
  also have "\<dots> = padded 512 t" using read_write_bytes [of "padded 512 t" "u_ram u" p] by simp
  finally show "read_bytes (u_ram v) p 512 = padded 512 t" .
  show "\<forall>a. a \<notin> region p 516 \<longrightarrow> u_ram v a = u_ram u a"
  proof (intro allI impI)
    fix a assume "a \<notin> region p 516"
    then have "a \<notin> region (p + 512) 4" "a \<notin> region p (length (padded 512 t))" using argument_regions [of p] by auto
    then show "u_ram v a = u_ram u a" unfolding m by (simp add: store32_out write_bytes_out)
  qed
qed

lemma parse_loop_arguments:
  fixes im :: image
  defines "d \<equiv> literal_at im '' ''"
  assumes "ok (u_kernel u)" "token_at B (u_ram u) (u_sp u) token toks" "string_in (u_ram u) d [0x20]"
    and B: "B \<inter> region d 2 = {}" "B \<inter> arena = {}" "region d 2 \<inter> arena = {}"
    and "grants grant (length toks) (u_kernel u)" "region current 516 \<subseteq> used (u_kernel u)"
    and "load32 (u_ram u) (current + 512) = 0"
  shows "\<exists>u'. parse_loop call im token current u = Some (Inr u') \<and> u_sp u' = 0 \<and>
    arguments_at (u_ram u') (load32 (u_ram u') (current + 512)) toks \<and>
    (\<forall>a. a \<notin> B \<longrightarrow> a \<notin> region (current + 512) 4 \<longrightarrow> a \<in> used (u_kernel u) \<or> a \<notin> arena \<longrightarrow> u_ram u' a = u_ram u a)"
  using assms(2-4,8-10)
proof (induction toks arbitrary: u token current)
  case Nil
  then show ?case by (subst parse_loop.simps) (simp add: token_at_def)
next
  case (Cons t ts)
  note hyp = Cons.prems
  obtain rest where tk: "token \<noteq> 0" "string_in (u_ram u) token t" "region token (Suc (length t)) \<subseteq> B" "u_sp u \<noteq> 0"
    "string_in (u_ram u) (u_sp u) rest" "tokens [0x20] rest = ts" "region (u_sp u) (Suc (length rest)) \<subseteq> B"
    using hyp(2) by (auto simp: token_at_def)
  obtain p k where g: "grant (u_kernel u) = Inr (p, k)" "p \<noteq> 0" "grants grant (length ts) k"
    using hyp(4) by (auto split: sum.splits)
  note fresh = granted_ok [OF hyp(1) g(1,2)] granted_fresh [OF hyp(1) g(1,2)] granted_used [OF hyp(1) g(1,2)]
  define u2 where "u2 = command_argument_new p token (u\<lparr>u_kernel := k\<rparr>)"
  note new = new_argument [OF hyp(1) g(1,2) tk(2,3) B(2), folded u2_def]
  have ua: "used (u_kernel u) \<subseteq> arena" by (rule used_arena [OF hyp(1)])
  define u3 where "u3 = u2\<lparr>u_ram := store32 (u_ram u2) (current + 512) p\<rparr>"
  have cu: "region (current + 512) 4 \<subseteq> used (u_kernel u)" using hyp(5) argument_regions(1) [of current] by blast
  have m3: "u_ram u3 a = u_ram u a" if "a \<notin> region p 516" "a \<notin> region (current + 512) 4" for a
    using that new(6) by (simp add: u3_def store32_out)
  have out3: "u_ram u3 a = u_ram u a" if "a \<notin> arena" for a
    using m3 [of a] that new(7) cu ua by blast
  have s3: "string_in (u_ram u3) d [0x20]" "string_in (u_ram u3) (u_sp u) rest"
    by (rule string_in_same [OF hyp(3)], use out3 B(3) in \<open>auto simp: numeral_2_eq_2\<close>)
      (rule string_in_same [OF tk(5)], use out3 B(2) tk(7) in blast)
  obtain m4 sp' q where st: "strtok (u_ram u3) (u_sp u3) 0 d = Some (m4, sp', q)" "token_at B m4 sp' q ts"
    "string_in m4 d [0x20]" "\<forall>a. a \<notin> B \<longrightarrow> m4 a = u_ram u3 a"
    using strtok_token [OF s3 tk(4) _ tk(7) B(1), of "u_sp u3" 0] new(3) tk(6) by (auto simp: u3_def)
  define u4 where "u4 = u3\<lparr>u_ram := m4, u_sp := sp'\<rparr>"
  have k4: "u_kernel u4 = k" "u_ram u4 = m4" "u_sp u4 = sp'" using new(2) by (simp_all add: u4_def u3_def)
  have tok: "user_strtok 0 (literal_at im '' '') u3 = Inr (q, u4)"
    using st(1) by (simp add: user_strtok_def d_def [symmetric] u4_def returns_def)
  have step: "parse_loop call im token current u = parse_loop call im q p u4"
    using tk(1) g(2) new(1)
    by (subst parse_loop.simps) (simp add: Let_def u2_def [symmetric] u3_def [symmetric] tok)
  have l4: "load32 (u_ram u4) (p + 512) = 0"
  proof -
    have "load32 (u_ram u4) (p + 512) = load32 (u_ram u2) (p + 512)"
    proof (rule load32_cong)
      fix i :: nat assume "i < 4"
      then have "p + 512 + of_nat i \<in> region p 516" using argument_regions(1) [of p] by blast
      then have "p + 512 + of_nat i \<notin> region (current + 512) 4" "p + 512 + of_nat i \<notin> B"
        using fresh(2) cu new(7) B(2) by blast+
      then show "u_ram u4 (p + 512 + of_nat i) = u_ram u2 (p + 512 + of_nat i)"
        using st(4) by (simp add: k4 u3_def store32_out)
    qed
    then show ?thesis using new(5) by simp
  qed
  have "region p 516 \<subseteq> used (u_kernel u4)" using fresh(3) k4 by simp
  from Cons.IH [of u4 q p, unfolded k4(1,3), OF fresh(1) st(2) [folded k4(2)] st(3) [folded k4(2)] g(3) this [unfolded k4] l4]
  obtain u' where u': "parse_loop call im q p u4 = Some (Inr u')" "u_sp u' = 0"
    "arguments_at (u_ram u') (load32 (u_ram u') (p + 512)) ts"
    "\<forall>a. a \<notin> B \<longrightarrow> a \<notin> region (p + 512) 4 \<longrightarrow> a \<in> used k \<or> a \<notin> arena \<longrightarrow> u_ram u' a = u_ram u4 a"
    by (elim exE conjE) (rule that)
  have m': "u_ram u' a = u_ram u3 a" if "a \<notin> B" "a \<notin> region (p + 512) 4" "a \<in> used k \<or> a \<notin> arena" for a
  proof -
    have "u_ram u' a = u_ram u4 a" using u'(4) that by blast
    then show ?thesis using st(4) that(1) k4 by simp
  qed
  have link: "load32 (u_ram u') (current + 512) = p"
  proof -
    have "load32 (u_ram u') (current + 512) = load32 (u_ram u3) (current + 512)"
    proof (rule load32_cong)
      fix i :: nat assume "i < 4"
      then have "current + 512 + of_nat i \<in> used (u_kernel u)" using cu by blast
      then show "u_ram u' (current + 512 + of_nat i) = u_ram u3 (current + 512 + of_nat i)"
        using fresh(2,3) ua B(2) argument_regions(1) [of p] by (intro m') blast+
    qed
    then show ?thesis by (simp add: u3_def)
  qed
  have "read_bytes (u_ram u') p 512 = read_bytes (u_ram u2) p 512"
  proof (rule read_bytes_cong)
    fix a assume a: "a \<in> region p 512"
    then have r: "a \<in> region p 516" "a \<notin> region (p + 512) 4" using argument_regions [of p] by blast+
    then have "u_ram u' a = u_ram u3 a" using fresh(3) new(7) B(2) by (intro m') blast+
    moreover have "a \<notin> region (current + 512) 4" using r(1) fresh(2) cu by blast
    ultimately show "u_ram u' a = u_ram u2 a" by (simp add: u3_def store32_out)
  qed
  then have args: "arguments_at (u_ram u') (load32 (u_ram u') (current + 512)) (t # ts)"
    using u'(3) new(4) g(2) unfolding link by simp
  have "u_ram u' a = u_ram u a" if "a \<notin> B" "a \<notin> region (current + 512) 4" "a \<in> used (u_kernel u) \<or> a \<notin> arena" for a
  proof -
    have p: "a \<notin> region p 516" using that(3) fresh(2) new(7) by blast
    then have "a \<notin> region (p + 512) 4" using argument_regions(1) [of p] by blast
    moreover have "a \<in> used k \<or> a \<notin> arena" using that(3) fresh(3) by blast
    ultimately show ?thesis using m' [OF that(1)] m3 [OF p that(2)] by simp
  qed
  then show ?case using step u'(1,2) args by (intro exI [of _ u']) simp
qed

lemma parse_command_arguments:
  fixes im :: image
  defines "d \<equiv> literal_at im '' ''" and "b \<equiv> local_at im ''scommand'' 0"
  assumes "ok (u_kernel u)" "string_in (u_ram u) command cs" "length cs < 1024" "mx < 1024" "u_sp u = 0"
    and "string_in (u_ram u) d [0x20]" "b \<noteq> 0" "unat b + 1024 \<le> 2 ^ 32"
    and "region command (Suc (length cs)) \<inter> region b 1024 = {}"
    and B: "region b 1024 \<inter> region d 2 = {}" "region b 1024 \<inter> arena = {}" "region d 2 \<inter> arena = {}"
    and "grants grant (length (tokens [0x20] cs)) (u_kernel u)"
  shows "\<exists>root u'. cos32_parse_command call im command mx u = Inr (root, u') \<and> u_sp u' = 0 \<and>
    arguments_at (u_ram u') root (tokens [0x20] cs) \<and>
    (\<forall>a. a \<notin> region b 1024 \<longrightarrow> a \<in> used (u_kernel u) \<or> a \<notin> arena \<longrightarrow> u_ram u' a = u_ram u a)"
proof -
  let ?B = "region b 1024"
  define m1 where "m1 = write_bytes (u_ram u) b (padded 1024 cs)"
  have m1: "user_strncpy (u_ram u) b command 1024 = m1"
    using user_strncpy_writes [OF assms(4,11)] by (simp add: m1_def)
  have o1: "m1 a = u_ram u a" if "a \<notin> ?B" for a
    unfolding m1_def by (rule write_bytes_out) (use that in simp)
  have "0 \<notin> set cs" using assms(4) by (simp add: string_in_def)
  then have s1: "string_in m1 b cs" unfolding m1_def by (rule padded_string) (use assms(5,10) in simp_all)
  have d1: "string_in m1 d [0x20]"
    by (rule string_in_same [OF assms(8)]) (use o1 B(1) in \<open>auto simp: numeral_2_eq_2\<close>)
  have sub: "region b (Suc (length cs)) \<subseteq> ?B" by (rule region_mono) (use assms(5) in simp)
  obtain m2 sp q where st: "strtok m1 0 b d = Some (m2, sp, q)" "token_at ?B m2 sp q (tokens [0x20] cs)"
    "string_in m2 d [0x20]" "\<forall>a. a \<notin> ?B \<longrightarrow> m2 a = m1 a"
    using strtok_token [OF d1 s1 assms(9) _ sub B(1), of 0 b] by auto
  define u2 where "u2 = u\<lparr>u_ram := m2, u_sp := sp\<rparr>"
  have tok: "user_strtok b d (u\<lparr>u_ram := m1\<rparr>) = Inr (q, u2)"
    using st(1) assms(7) by (simp add: user_strtok_def returns_def u2_def)
  have run: "cos32_parse_command call im command mx u =
      (if q = 0 then Inr (0, u2)
       else bindE (cos32_malloc call 516 u2) (\<lambda>(root_command, u).
          if root_command = 0
          then bindE (call_printf call im (literal_at im ''Out of memory!'') [] u) (\<lambda>u. Inr (0, u))
          else
            bindE (user_strtok 0 d (command_argument_new root_command q u)) (\<lambda>(token, u).
            bindE (ran (parse_loop call im token root_command u)) (\<lambda>u.
            Inr (root_command, u)))))"
    using assms(6) unfolding cos32_parse_command_def d_def [symmetric] b_def [symmetric] Let_def m1 tok
    by (simp only: bindE.simps prod.case if_False linorder_not_le [symmetric])
  have o2: "u_ram u2 a = u_ram u a" if "a \<notin> ?B" for a using st(4) o1 that by (simp add: u2_def)
  show ?thesis
  proof (cases "tokens [0x20] cs")
    case Nil
    then have "q = 0" "sp = 0" using st(2) by (simp_all add: token_at_def)
    then show ?thesis using run Nil o2 by (simp add: u2_def)
  next
    case (Cons t ts)
    obtain rest where tk: "q \<noteq> 0" "string_in m2 q t" "region q (Suc (length t)) \<subseteq> ?B" "sp \<noteq> 0"
      "string_in m2 sp rest" "tokens [0x20] rest = ts" "region sp (Suc (length rest)) \<subseteq> ?B"
      using st(2) unfolding Cons by (auto simp: token_at_def)
    obtain p k where g: "grant (u_kernel u) = Inr (p, k)" "p \<noteq> 0" "grants grant (length ts) k"
      using assms(15) unfolding Cons by (auto split: sum.splits)
    have k2: "u_kernel u2 = u_kernel u" "u_ram u2 = m2" "u_sp u2 = sp" by (simp_all add: u2_def)
    define u3 where "u3 = command_argument_new p q (u2\<lparr>u_kernel := k\<rparr>)"
    note new = new_argument [OF assms(3) [folded k2(1)] g(1) [folded k2(1)] g(2) tk(2,3) [folded k2(2)] B(2), folded u3_def]
    note fresh = granted_ok [OF assms(3) g(1,2)] granted_fresh [OF assms(3) g(1,2)] granted_used [OF assms(3) g(1,2)]
    have o3: "u_ram u3 a = m2 a" if "a \<notin> arena" for a using new(6,7) that k2(2) by auto
    have s3: "string_in (u_ram u3) d [0x20]" "string_in (u_ram u3) sp rest"
      by (rule string_in_same [OF st(3)], use o3 B(3) in \<open>auto simp: numeral_2_eq_2\<close>)
        (rule string_in_same [OF tk(5)], use o3 B(2) tk(7) in blast)
    obtain m4 sp4 q4 where st4: "strtok (u_ram u3) sp 0 d = Some (m4, sp4, q4)" "token_at ?B m4 sp4 q4 ts"
      "string_in m4 d [0x20]" "\<forall>a. a \<notin> ?B \<longrightarrow> m4 a = u_ram u3 a"
      using strtok_token [OF s3 tk(4) _ tk(7) B(1), of sp 0] tk(6) by auto
    define u4 where "u4 = u3\<lparr>u_ram := m4, u_sp := sp4\<rparr>"
    have k4: "u_kernel u4 = k" "u_ram u4 = m4" "u_sp u4 = sp4" using new(2) by (simp_all add: u4_def)
    have tok4: "user_strtok 0 d u3 = Inr (q4, u4)"
      using st4(1) new(3) k2(3) by (simp add: user_strtok_def returns_def u4_def)
    have same: "u_ram u4 a = u_ram u3 a" if "a \<in> region p 516" for a
      using st4(4) that new(7) B(2) k4(2) by auto
    have l4: "load32 (u_ram u4) (p + 512) = 0"
    proof -
      have "u_ram u4 (p + 512 + of_nat i) = u_ram u3 (p + 512 + of_nat i)" if "i < 4" for i :: nat
        by (rule same) (use that argument_regions(1) [of p] in blast)
      then have "load32 (u_ram u4) (p + 512) = load32 (u_ram u3) (p + 512)" by (rule load32_cong)
      then show ?thesis using new(5) by simp
    qed
    have us: "region p 516 \<subseteq> used (u_kernel u4)" using fresh(3) k4(1) by simp
    have hyp: "ok (u_kernel u4)" "token_at ?B (u_ram u4) (u_sp u4) q4 ts" "string_in (u_ram u4) d [0x20]"
      "grants grant (length ts) (u_kernel u4)"
      using fresh(1) st4(2,3) g(3) k4 by simp_all
    obtain u' where u': "parse_loop call im q4 p u4 = Some (Inr u')" "u_sp u' = 0"
      "arguments_at (u_ram u') (load32 (u_ram u') (p + 512)) ts"
      "\<forall>a. a \<notin> ?B \<longrightarrow> a \<notin> region (p + 512) 4 \<longrightarrow> a \<in> used (u_kernel u4) \<or> a \<notin> arena \<longrightarrow> u_ram u' a = u_ram u4 a"
      using parse_loop_arguments [OF hyp(1,2) hyp(3) [unfolded d_def] B [unfolded d_def] hyp(4) us l4] by (elim exE conjE) (rule that)
    have "read_bytes (u_ram u') p 512 = read_bytes (u_ram u3) p 512"
    proof (rule read_bytes_cong)
      fix a assume "a \<in> region p 512"
      then have r: "a \<in> region p 516" "a \<notin> region (p + 512) 4" using argument_regions [of p] by blast+
      then show "u_ram u' a = u_ram u3 a" using u'(4) same us new(7) B(2) by (metis disjoint_iff subsetD)
    qed
    then have args: "arguments_at (u_ram u') p (t # ts)" using u'(3) new(4) g(2) by simp
    have run': "cos32_parse_command call im command mx u = Inr (p, u')"
      using run tk(1) new(1) g(2) tok4 u'(1) by (simp add: u3_def [symmetric] ran_def)
    have "u_ram u' a = u_ram u a" if "a \<notin> ?B" "a \<in> used (u_kernel u) \<or> a \<notin> arena" for a
    proof -
      have p: "a \<notin> region p 516" using that(2) fresh(2) new(7) by blast
      then have "u_ram u' a = u_ram u4 a"
        using u'(4) that fresh(3) argument_regions(1) [of p] k4(1) by blast
      then show ?thesis using st4(4) that(1) new(6) p o2 k4(2) by simp
    qed
    then show ?thesis using run' args u'(2) unfolding Cons by (intro exI [of _ p] exI [of _ u']) simp
  qed
qed

end

section \<open>The kernel as the heap of its running program\<close>

definition program_heap_ok :: "'a kstate_scheme \<Rightarrow> bool" where
  "program_heap_ok k \<longleftrightarrow> is_kernel_page k = Inr True \<and> kmem_ok k \<and> h_saddr (km_heap k) = 0x1000000 \<and>
     (case tasks k (current_task k) of None \<Rightarrow> False | Some t \<Rightarrow>
     (case process_at k (tk_process t) of None \<Rightarrow> False | Some p \<Rightarrow>
     (case tasks k (p_task p) of None \<Rightarrow> False | Some pt \<Rightarrow>
     (case chunks k (tk_page_directory pt) of None \<Rightarrow> False | Some c \<Rightarrow> pagedir_ok (km_ram k) (directory_entry c)))))"

definition heap_grant :: "'a kstate_scheme \<Rightarrow> (addr \<times> 'a kstate_scheme) outcome" where
  "heap_grant k = task_malloc k (current_task k) 516"

definition heap_used :: "'a kstate_scheme \<Rightarrow> addr set" where
  "heap_used k = (\<Union>(p, n)\<in>kmem_live k. region p n)"

lemma process_malloc_inversion:
  assumes "process_malloc s pr sz = Inr (ptr, s')" "ptr \<noteq> 0" "process_at s pr = Some p"
  obtains i s1 where "process_get_free_heap_allocation_slot p = Some i" "kmalloc s sz = Inr (ptr, s1)"
proof (cases "process_get_free_heap_allocation_slot p")
  case None
  then show thesis using assms by (auto simp: process_malloc_def bindE_Inr_iff)
next
  case (Some i)
  have "\<exists>s1. kmalloc s sz = Inr (ptr, s1)"
    using assms Some by (auto simp: process_malloc_def bindE_Inr_iff split: if_splits)
  then show thesis using that Some by blast
qed

lemma heap_malloc_saddr:
  assumes "heap_wf h" "heap_malloc h sz = Inr (p, h')"
  shows "h_saddr h' = h_saddr h"
  using assms by (rule heap_malloc_inversion) (simp_all add: take_blocks_def)

lemma heap_grant_step:
  assumes "program_heap_ok k" "heap_grant k = Inr (p, k')" "p \<noteq> 0"
  obtains n where "516 \<le> n" "kmem_live k' = insert (p, n) (kmem_live k)" "(p, n) \<notin> kmem_live k" "program_heap_ok k'"
proof -
  obtain t pr pt c where e: "is_kernel_page k = Inr True" "kmem_ok k" "h_saddr (km_heap k) = 0x1000000"
    "tasks k (current_task k) = Some t" "process_at k (tk_process t) = Some pr" "tasks k (p_task pr) = Some pt"
    "chunks k (tk_page_directory pt) = Some c" "pagedir_ok (km_ram k) (directory_entry c)"
    using assms(1) by (auto simp: program_heap_ok_def split: option.splits)
  have m: "process_malloc k (tk_process t) 516 = Inr (p, k')"
    using assms(2) e(4) by (simp add: heap_grant_def task_malloc_def deref_Some)
  obtain i s1 where i: "process_get_free_heap_allocation_slot pr = Some i" "kmalloc k 516 = Inr (p, s1)"
    by (rule process_malloc_inversion [OF m assms(3) e(5)])
  obtain s' n h mm where s': "process_malloc k (tk_process t) 516 = Inr (p, s')" "kmem_ok s'" "nat 516 \<le> n"
    "kmem_live s' = insert (p, n) (kmem_live k)" "pagedir_ok (km_ram s') (directory_entry c)"
    "heap_malloc (km_heap k) (word_of_int 516) = Inr (p, h)"
    "s' = k\<lparr>km_heap := h, process_at := (process_at k)(tk_process t \<mapsto> pr\<lparr>p_allocations := (p_allocations pr)[i := p]\<rparr>),
       km_ram := mm\<rparr>"
    using process_malloc_step [OF e(1) e(5-8) e(2) i assms(3)] by auto
  have k': "k' = s'" using m s'(1) by simp
  have a: "kmalloc k (sint (516 :: u32)) = Inr (p, s1)" using i(2) by simp
  have "(p, n) \<notin> kmem_live k" by (rule kernel_memory.live_not_fresh [OF e(2) a assms(3)])
  moreover have "program_heap_ok k'"
    using e s'(2,5) heap_malloc_saddr [OF _ s'(6)] unfolding k'
    by (simp add: program_heap_ok_def s'(7) is_kernel_page_def kernel_get_page_directory_def kmem_ok_def)
  ultimately show thesis using that s'(3,4) k' by simp
qed

interpretation kernel_grants: program_heap console_call heap_grant program_heap_ok heap_used "{a. 0x1000000 \<le> a}"
proof unfold_locales
  fix u :: "'a kstate_scheme user"
  show "console_call 5 [516] u = bindE (heap_grant (u_kernel u)) (\<lambda>(p, k). Inr (p, u\<lparr>u_kernel := k\<rparr>))"
    by (simp add: console_call_def heap_grant_def)
next
  fix k k' :: "'a kstate_scheme" and p
  assume g: "program_heap_ok k" "heap_grant k = Inr (p, k')" "p \<noteq> 0"
  obtain n where n: "516 \<le> n" "kmem_live k' = insert (p, n) (kmem_live k)" "(p, n) \<notin> kmem_live k" "program_heap_ok k'"
    by (rule heap_grant_step [OF g])
  show "program_heap_ok k'" by (rule n(4))
  have "kmem_ok k'" using n(4) by (simp add: program_heap_ok_def)
  then have "region p n \<inter> heap_used k = {}"
    using kernel_memory.live_disjoint [of k' p n] n(2,3) unfolding heap_used_def by blast
  moreover have s: "region p 516 \<subseteq> region p n" by (rule region_mono [OF n(1)])
  ultimately show "region p 516 \<inter> heap_used k = {}" by blast
  show "region p 516 \<union> heap_used k \<subseteq> heap_used k'" using s n(2) by (auto simp: heap_used_def)
next
  fix k :: "'a kstate_scheme"
  assume "program_heap_ok k"
  then have wf: "heap_wf (km_heap k)" and s: "h_saddr (km_heap k) = 0x1000000"
    by (auto simp: program_heap_ok_def kmem_ok_def)
  show "heap_used k \<subseteq> {a. 0x1000000 \<le> a}"
  proof
    fix a assume "a \<in> heap_used k"
    then obtain p n where l: "(p, n) \<in> heap_live (km_heap k)" "a \<in> region p n" by (auto simp: heap_used_def kmem_live_def)
    obtain j i where "j + i \<le> length (ht_entries (h_table (km_heap k)))" "p = heap_block_to_address (km_heap k) (int j)" "n = 4096 * i"
      by (rule heap_live_cases [OF wf l(1)])
    then have "unat (h_saddr (km_heap k)) \<le> unat a" using block_region(1) [OF wf] l(2) by fastforce
    then show "a \<in> {a. 0x1000000 \<le> a}" by (simp add: s word_le_nat_alt)
  qed
qed

text \<open>C17: A program's command becomes the list of its arguments: when the kernel grants a structure for each
  word of the command, \<open>cos32_parse_command\<close> gives a chain of structures with the words separated by
  blanks, in their order and each filled up with zeroes to 512 bytes, and null for a command without
  words; no byte of older memory is written but the routine's own buffer, and \<open>strtok\<close> is left ready for the
  next command.\<close>

theorem parse_command_lists_words:
  assumes "program_heap_ok (u_kernel u)" "string_in (u_ram u) command cs" "length cs < 1024" "mx < 1024" "u_sp u = 0"
    and "string_in (u_ram u) (literal_at im '' '') [0x20]" "local_at im ''scommand'' 0 \<noteq> 0"
    and "unat (local_at im ''scommand'' 0) + 1024 \<le> 2 ^ 32"
    and "region command (Suc (length cs)) \<inter> region (local_at im ''scommand'' 0) 1024 = {}"
    and "region (local_at im ''scommand'' 0) 1024 \<inter> region (literal_at im '' '') 2 = {}"
    and "region (local_at im ''scommand'' 0) 1024 \<inter> {a. 0x1000000 \<le> a} = {}"
    and "region (literal_at im '' '') 2 \<inter> {a. 0x1000000 \<le> a} = {}"
    and "grants heap_grant (length (tokens [0x20] cs)) (u_kernel u)"
  shows "\<exists>root u'. cos32_parse_command console_call im command mx u = Inr (root, u') \<and> u_sp u' = 0 \<and>
    arguments_at (u_ram u') root (tokens [0x20] cs) \<and>
    (\<forall>a. a \<notin> region (local_at im ''scommand'' 0) 1024 \<longrightarrow> a \<in> heap_used (u_kernel u) \<or> a \<notin> {a. 0x1000000 \<le> a} \<longrightarrow>
       u_ram u' a = u_ram u a)"
  by (rule kernel_grants.parse_command_arguments [OF assms])

lemma heap_grant_ready:
  assumes "program_heap_ok k" "tasks k (current_task k) = Some t" "process_at k (tk_process t) = Some pr"
    "process_get_free_heap_allocation_slot pr = Some i" "heap_malloc (km_heap k) 516 = Inr (p, h)" "p \<noteq> 0"
  obtains k' where "heap_grant k = Inr (p, k')" "program_heap_ok k'" "km_heap k' = h" "tasks k' = tasks k"
    "current_task k' = current_task k" "process_at k' (tk_process t) = Some (pr\<lparr>p_allocations := (p_allocations pr)[i := p]\<rparr>)"
proof -
  obtain pt c where e: "is_kernel_page k = Inr True" "kmem_ok k" "tasks k (p_task pr) = Some pt"
    "chunks k (tk_page_directory pt) = Some c" "pagedir_ok (km_ram k) (directory_entry c)"
    using assms(1-3) by (auto simp: program_heap_ok_def split: option.splits)
  have m: "kmalloc k 516 = Inr (p, k\<lparr>km_heap := h\<rparr>)" using assms(5) by (simp add: kmalloc_def)
  obtain k' h' mm where k': "process_malloc k (tk_process t) 516 = Inr (p, k')"
    "heap_malloc (km_heap k) (word_of_int 516) = Inr (p, h')"
    "k' = k\<lparr>km_heap := h', process_at := (process_at k)(tk_process t \<mapsto> pr\<lparr>p_allocations := (p_allocations pr)[i := p]\<rparr>),
       km_ram := mm\<rparr>"
    using process_malloc_step [OF e(1) assms(3) e(3-5) e(2) assms(4) m assms(6)] by auto
  have g: "heap_grant k = Inr (p, k')"
    using k'(1) assms(2) by (simp add: heap_grant_def task_malloc_def deref_Some)
  have "h' = h" using k'(2) assms(5) by simp
  moreover have "program_heap_ok k'" by (rule heap_grant_step [OF assms(1) g assms(6)])
  ultimately show thesis using that g k'(3) by simp
qed

lemma region_below:
  assumes "unat p + n \<le> unat q"
  shows "region p n \<inter> {a. q \<le> a} = {}"
proof -
  have "\<not> q \<le> p + of_nat i" if "i < n" for i
  proof -
    have "unat q < 2 ^ 32" using unsigned_less [of q, where 'a = nat] by simp
    then have u: "unat (of_nat i :: u32) = i" using that assms by (intro unat_of_nat_small) linarith
    have "unat p + i < 2 ^ 32" using that assms \<open>unat q < 2 ^ 32\<close> by linarith
    then have "unat (p + of_nat i) = unat p + i"
      using u by (subst unat_add_lem [THEN iffD1]) simp_all
    then show ?thesis using that assms by (simp add: word_le_nat_alt)
  qed
  then show ?thesis by (auto simp: mem_region)
qed

definition demo_heap_kernel :: kstate where
  "demo_heap_kernel = demo_process\<lparr>current_task := 16,
     tasks := [16 \<mapsto> zero_task\<lparr>tk_page_directory := 4096, tk_process := 0x500\<rparr>]\<rparr>"

lemma demo_heap_kernel_grants: "program_heap_ok demo_heap_kernel" "grants heap_grant 2 demo_heap_kernel"
proof -
  let ?k = demo_heap_kernel and ?t = "zero_task\<lparr>tk_page_directory := 4096, tk_process := 0x500\<rparr>"
  let ?pr = "zero_process\<lparr>p_task := 16\<rparr>"
  have d: "tasks ?k (current_task ?k) = Some ?t" "process_at ?k (tk_process ?t) = Some ?pr" "km_heap ?k = demo_heap"
    by (simp_all add: demo_heap_kernel_def demo_process_def blank_kernel_def)
  show ok: "program_heap_ok ?k"
    using demo_process_ok demo_pages_ok
    by (simp add: program_heap_ok_def demo_heap_kernel_def demo_process_def blank_kernel_def is_kernel_page_def
        kernel_get_page_directory_def deref_Some kmem_ok_def demo_heap_def)
  have f: "p_allocations ?pr = 0 # 0 # replicate 1022 0"
    by (simp add: zero_process_def flip: replicate_Suc)
  have i: "process_get_free_heap_allocation_slot ?pr = Some 0"
    by (simp add: process_get_free_heap_allocation_slot_def f del: process.simps)
  have m1: "heap_malloc (km_heap ?k) 516 = Inr (0x1000000, take_blocks demo_heap 0 1)" unfolding d(3) by code_simp
  obtain k1 where k1: "heap_grant ?k = Inr (0x1000000, k1)" "program_heap_ok k1" "km_heap k1 = take_blocks demo_heap 0 1"
    "tasks k1 = tasks ?k" "current_task k1 = current_task ?k"
    "process_at k1 (tk_process ?t) = Some (?pr\<lparr>p_allocations := (p_allocations ?pr)[0 := 0x1000000]\<rparr>)"
    by (rule heap_grant_ready [OF ok d(1,2) i m1]) simp
  have i1: "process_get_free_heap_allocation_slot (?pr\<lparr>p_allocations := (p_allocations ?pr)[0 := 0x1000000]\<rparr>) = Some 1"
    unfolding f by (simp add: process_get_free_heap_allocation_slot_def)
  have m2: "heap_malloc (km_heap k1) 516 = Inr (0x1001000, take_blocks (take_blocks demo_heap 0 1) 1 1)"
    unfolding k1(3) by code_simp
  have t1: "tasks k1 (current_task k1) = Some ?t" using k1(4,5) d(1) by simp
  obtain k2 where k2: "heap_grant k1 = Inr (0x1001000, k2)"
    by (rule heap_grant_ready [OF k1(2) t1 k1(6) i1 m2]) simp
  have "grants heap_grant (Suc (Suc 0)) ?k" using k1(1) k2 by simp
  then show "grants heap_grant 2 ?k" by (simp only: numeral_2_eq_2)
qed

lemma parse_command_lists_words_witness:
  "\<exists>root u'. cos32_parse_command console_call \<lparr>local_at = \<lambda>v n. 0x8000, literal_at = \<lambda>t. 0x3000, code_at = \<lambda>f. 0\<rparr> 0x2000 512
     \<lparr>u_ram = (\<lambda>a. 0)(0x2000 := 108, 0x2001 := 115, 0x2002 := 0x20, 0x2003 := 97, 0x3000 := 0x20), u_sp = 0,
      u_kernel = demo_heap_kernel\<rparr> = Inr (root, u') \<and> arguments_at (u_ram u') root [[108, 115], [97]]"
proof -
  let ?m = "(\<lambda>a. 0)(0x2000 := 108, 0x2001 := 115, 0x2002 := 0x20, 0x2003 := 97, 0x3000 := 0x20) :: ram"
  let ?u = "\<lparr>u_ram = ?m, u_sp = 0, u_kernel = demo_heap_kernel\<rparr> :: kstate user"
  let ?im = "\<lparr>local_at = \<lambda>v n. 0x8000, literal_at = \<lambda>t. 0x3000, code_at = \<lambda>f. 0\<rparr> :: image"
  let ?cs = "[108, 115, 0x20, 97] :: byte list"
  have toks: "tokens [0x20] ?cs = [[108, 115], [97]]" by (simp add: tokens.simps)
  have s: "string_in (u_ram ?u) 0x2000 ?cs" "string_in (u_ram ?u) (literal_at ?im '' '') [0x20]"
    by (simp_all add: string_in_def read_bytes_def upt_rec)
  have r1: "region (0x2000 :: addr) 5 \<inter> region 0x8000 1024 = {}"
    using region_apart [of 0 5 "0x6000" 1024 "0x2000"] by simp
  have r2: "region (0x8000 :: addr) 1024 \<inter> region 0x3000 2 = {}"
    using region_apart [of 0 2 "0x5000" 1024 "0x3000"] by auto
  have r3: "region (0x8000 :: addr) 1024 \<inter> {a. 0x1000000 \<le> a} = {}" "region (0x3000 :: addr) 2 \<inter> {a. 0x1000000 \<le> a} = {}"
    by (rule region_below, simp)+
  have l: "Suc (length ?cs) = 5" by simp
  have g: "grants heap_grant (length (tokens [0x20] ?cs)) (u_kernel ?u)"
    using demo_heap_kernel_grants(2) unfolding toks by (simp add: numeral_2_eq_2)
  have p: "program_heap_ok (u_kernel ?u)" "u_sp ?u = 0" "(512 :: int) < 1024" "length ?cs < 1024"
    "local_at ?im ''scommand'' 0 \<noteq> 0" "unat (local_at ?im ''scommand'' 0) + 1024 \<le> 2 ^ 32"
    using demo_heap_kernel_grants(1) by simp_all
  have r: "region 0x2000 (Suc (length ?cs)) \<inter> region (local_at ?im ''scommand'' 0) 1024 = {}"
    "region (local_at ?im ''scommand'' 0) 1024 \<inter> region (literal_at ?im '' '') 2 = {}"
    "region (local_at ?im ''scommand'' 0) 1024 \<inter> {a. 0x1000000 \<le> a} = {}"
    "region (literal_at ?im '' '') 2 \<inter> {a. 0x1000000 \<le> a} = {}"
    unfolding l using r1 r2 r3 by simp_all
  obtain root u' where "cos32_parse_command console_call ?im 0x2000 512 ?u = Inr (root, u')"
    "arguments_at (u_ram u') root (tokens [0x20] ?cs)"
    using parse_command_lists_words [OF p(1) s(1) p(4,3,2) s(2) p(5,6) r g] by blast
  then show ?thesis unfolding toks by blast
qed

end
