(* ===== verification/Page_Memory.thy ===== *)
theory Page_Memory
  imports Kernel_State
begin

text \<open>
  What the routines that work on a program's memory share: sequences of requests to the heap that also
  write elsewhere (\<open>takes_but\<close>, over the contract of \<open>Heap_Room\<close>), the memory a page directory
  and its tables lie in, what lookups depend on, and the copy of a string from one place to another.
\<close>

section \<open>Requests that write elsewhere too\<close>

text \<open>As \<open>takes\<close>, but the bytes of \<open>W\<close> may have changed.\<close>

definition takes_but :: "addr set \<Rightarrow> 'a kmem_scheme \<Rightarrow> addr list \<Rightarrow> 'b kmem_scheme \<Rightarrow> bool" where
  "takes_but W s bs s' \<longleftrightarrow> takes s bs (s'\<lparr>km_ram := km_ram s\<rparr>) \<and>
     (\<forall>a. a \<notin> W \<longrightarrow> a \<notin> kmem_spare s \<longrightarrow> km_ram s' a = km_ram s a)"

lemma takes_but_takes: "takes_but W s bs s' \<Longrightarrow> takes s bs (s'\<lparr>km_ram := km_ram s\<rparr>)"
  by (simp add: takes_but_def)

lemma takes_but_ram: "takes_but W s bs s' \<Longrightarrow> a \<notin> W \<Longrightarrow> a \<notin> kmem_spare s \<Longrightarrow> km_ram s' a = km_ram s a"
  by (simp add: takes_but_def)

lemma takes_but_facts:
  assumes "takes_but W s bs s'"
  shows "kmem_ok s'" "kmem_room s = kmem_room s' + length bs"
    "kmem_live s' = (\<lambda>b. (b, 4096)) ` set bs \<union> kmem_live s" "kmem_spare s' \<subseteq> kmem_spare s"
    "b \<in> set bs \<Longrightarrow> b \<noteq> 0 \<and> region b 4096 \<subseteq> kmem_spare s"
  using takes_ok [OF takes_but_takes [OF assms]] takes_room [OF takes_but_takes [OF assms]]
    takes_live [OF takes_but_takes [OF assms]] takes_spare [OF takes_but_takes [OF assms]]
    takes_region [OF takes_but_takes [OF assms]] takes_nonnull [OF takes_but_takes [OF assms]]
  by simp_all

lemma takes_but_refl: "kmem_ok s \<Longrightarrow> takes_but W s [] s"
  by (simp add: takes_but_def takes_refl)

lemma takes_set_ram: "takes s bs s' \<Longrightarrow> takes (s\<lparr>km_ram := r\<rparr>) bs (s'\<lparr>km_ram := r\<rparr>)"
  by (simp add: takes_def)

lemma takes_but_trans:
  assumes "takes_but W s bs s'" "takes_but W s' cs s''"
  shows "takes_but W s (bs @ cs) s''"
proof -
  have "takes (s'\<lparr>km_ram := km_ram s\<rparr>) cs (s''\<lparr>km_ram := km_ram s\<rparr>)"
    using takes_set_ram [OF takes_but_takes [OF assms(2)], of "km_ram s"] by simp
  then have "takes s (bs @ cs) (s''\<lparr>km_ram := km_ram s\<rparr>)"
    by (rule takes_trans [OF takes_but_takes [OF assms(1)]])
  moreover have "km_ram s'' a = km_ram s a" if "a \<notin> W" "a \<notin> kmem_spare s" for a
    using takes_but_ram [OF assms(1) that] takes_but_ram [OF assms(2) that(1)] takes_but_facts(4) [OF assms(1)] that(2)
    by auto
  ultimately show ?thesis by (simp add: takes_but_def)
qed

lemma takes_but_mono: "takes_but W s bs s' \<Longrightarrow> W \<subseteq> V \<Longrightarrow> takes_but V s bs s'"
  by (auto simp: takes_but_def)

lemma takes_but_heap_cong:
  assumes "km_heap t = km_heap s'" "km_ram t = km_ram s'"
  shows "takes_but W s bs t \<longleftrightarrow> takes_but W s bs s'"
  using takes_heap_cong [of "t\<lparr>km_ram := km_ram s\<rparr>" "s'\<lparr>km_ram := km_ram s\<rparr>" s bs] assms
  by (simp add: takes_but_def)

lemma takes_but_store:
  assumes "takes_but W s bs s'" "\<And>a. a \<notin> W \<Longrightarrow> \<forall>b \<in> set bs. a \<notin> region b 4096 \<Longrightarrow> m a = km_ram s' a"
  shows "takes_but W s bs (s'\<lparr>km_ram := m\<rparr>)"
proof -
  have "m a = km_ram s a" if "a \<notin> W" "a \<notin> kmem_spare s" for a
  proof -
    have "\<forall>b \<in> set bs. a \<notin> region b 4096" using takes_but_facts(5) [OF assms(1)] that(2) by blast
    then show ?thesis using assms(2) [OF that(1)] takes_but_ram [OF assms(1) that] by simp
  qed
  then show ?thesis using takes_but_takes [OF assms(1)] by (simp add: takes_but_def)
qed

section \<open>The memory of a page directory\<close>

definition page_mem :: "ram \<Rightarrow> addr \<Rightarrow> addr set" where
  "page_mem m d = region d 4096 \<union> table_mem m d"

lemma table_at_same:
  assumes "\<And>a. a \<in> region d 4096 \<Longrightarrow> m' a = m a" "i < 1024"
  shows "table_at m' d i = table_at m d i"
proof -
  have "load32 m' (d + 4 * of_nat i) = load32 m (d + 4 * of_nat i)"
    by (rule load32_cong) (use slot_in_page [OF assms(2), of d] in \<open>blast intro: assms(1) region_memI\<close>)
  then show ?thesis by (simp add: table_at_def)
qed

lemma page_mem_same:
  assumes "pagedir_ok m d" "\<And>a. a \<in> page_mem m d \<Longrightarrow> m' a = m a"
  shows "pagedir_ok m' d" "page_mem m' d = page_mem m d" "v mod 4096 = 0 \<Longrightarrow> paging_get m' d v = paging_get m d v"
proof -
  have t: "table_at m' d i = table_at m d i" if "i < 1024" for i
    by (rule table_at_same [OF _ that]) (use assms(2) in \<open>simp add: page_mem_def\<close>)
  then have "inj_on (table_at m' d) {..<1024} \<longleftrightarrow> inj_on (table_at m d) {..<1024}"
    by (intro inj_on_cong) simp
  with t assms(1) show "pagedir_ok m' d" by (simp add: pagedir_ok_def)
  show "page_mem m' d = page_mem m d" using t by (simp add: page_mem_def table_mem_def)
  have s: "slot_of m' d v = slot_of m d v" by (simp add: slot_of_def t)
  have "region (slot_of m d v) 4 \<subseteq> page_mem m d"
    unfolding slot_of_def page_mem_def table_mem_def
    by (rule order_trans [OF slot_in_page]) (auto intro!: bexI [of _ "dir_index v"])
  then have "load32 m' (slot_of m d v) = load32 m (slot_of m d v)"
    by (intro load32_cong assms(2)) blast
  then show "v mod 4096 = 0 \<Longrightarrow> paging_get m' d v = paging_get m d v" by (simp add: paging_get_eq s)
qed

lemma directory_tables_apart:
  assumes "pagedir_ok m d"
  shows "region d 4096 \<inter> table_mem m d = {}"
proof -
  have "region d 4096 \<inter> region (table_at m d i) 4096 = {}" if "i < 1024" for i
    by (rule pages_apart) (use assms that in \<open>auto simp: pagedir_ok_def\<close>)
  then show ?thesis by (auto simp: table_mem_def)
qed

lemma aligned_same_page:
  assumes "unat w mod 4096 = 0" "unat p mod 4096 = 0" "w \<in> region p 4096"
  shows "w = p"
proof (rule ccontr)
  assume "w \<noteq> p"
  then have "region w 4096 \<inter> region p 4096 = {}" by (rule pages_apart [OF assms(1,2)])
  moreover have "w \<in> region w 4096" using region_memI [of 0 4096 w] by simp
  ultimately show False using assms(3) by blast
qed

section \<open>Copying a string\<close>

lemma strncpy_string:
  assumes "cstr (str_at m src) (length t)" "\<And>i. i < length t \<Longrightarrow> m (src + of_nat i) = t ! i" "length t < n"
    "region dest n \<inter> region src n = {}" "unat dest + n \<le> 2 ^ 32"
  shows "string_in (strncpy m dest src (int n)) dest t"
    and "a \<notin> region dest n \<Longrightarrow> strncpy m dest src (int n) a = m a"
proof -
  define r where "r = strnlen_from (str_at m src) 0 n"
  have d: "region dest (0 + n) \<inter> region src (0 + n) = {}" "0 + n \<le> 2 ^ 32" using assms(4,5) by simp_all
  note res = strncpy_loop_result [OF d r_def]
  have nz: "\<forall>i<length t. str_at m src i \<noteq> 0" and z: "str_at m src (length t) = 0"
    using assms(1) by (simp_all add: cstr_def)
  have r: "r = length t"
    using strnlen_from_spec [OF r_def [symmetric]] nz z assms(3) by (metis add_0 le_neq_implies_less linorder_neqE_nat zero_le)
  show "string_in (strncpy m dest src (int n)) dest t"
  proof (rule string_inI)
    show "unat dest + length t < 2 ^ 32" using assms(3,5) by simp
    show "strncpy m dest src (int n) (dest + of_nat i) = t ! i \<and> t ! i \<noteq> 0" if "i < length t" for i
      using res that assms(2) [OF that] nz r by (auto simp: strncpy_def str_at_def)
    show "strncpy m dest src (int n) (dest + of_nat (length t)) = 0"
      using res assms(3) r by (simp add: strncpy_def)
  qed
  show "a \<notin> region dest n \<Longrightarrow> strncpy m dest src (int n) a = m a"
    using res by (auto simp: strncpy_def region_def)
qed

end
