(* ===== verification/Process_Arguments.thy ===== *)
theory Process_Arguments
  imports User_Commands Page_Memory
begin

text \<open>
  The arguments of a new process: \<open>process_inject_arguments\<close> of \<open>src/task/process.c\<close> copies a chain of
  \<open>struct command_argument\<close> into memory of the process and leaves \<open>argc\<close> and \<open>argv\<close> for it.  A step of the
  loop asks \<open>process_malloc\<close> for a block, which writes page tables, so the requests are followed up to the
  memory of the process's page directory.
\<close>

section \<open>A process that can be given memory\<close>

definition process_directory :: "'a kstate_scheme \<Rightarrow> addr \<Rightarrow> addr option" where
  "process_directory s pr = (case process_at s pr of None \<Rightarrow> None | Some p \<Rightarrow>
     (case tasks s (p_task p) of None \<Rightarrow> None | Some t \<Rightarrow>
        map_option directory_entry (chunks s (tk_page_directory t))))"

text \<open>The kernel runs, and the page directory of the process lies in memory the heap will not hand out.\<close>

definition process_memory :: "'a kstate_scheme \<Rightarrow> addr \<Rightarrow> addr \<Rightarrow> bool" where
  "process_memory s pr d \<longleftrightarrow> is_kernel_page s = Inr True \<and> kmem_ok s \<and> process_directory s pr = Some d \<and>
     pagedir_ok (km_ram s) d \<and> page_mem (km_ram s) d \<inter> kmem_spare s = {}"

definition free_slots :: "process \<Rightarrow> nat" where
  "free_slots p = length (filter (\<lambda>a. a = 0) (p_allocations p))"

lemma first_free_count:
  assumes "0 < length (filter (\<lambda>a. a = 0) ps)" "ptr \<noteq> 0"
  shows "\<exists>i. first_free ps j = Some (j + i) \<and>
    Suc (length (filter (\<lambda>a. a = 0) (ps[i := ptr]))) = length (filter (\<lambda>a. a = 0) ps)"
  using assms(1)
proof (induction ps arbitrary: j)
  case (Cons p ps)
  show ?case
  proof (cases "p = 0")
    case False
    then obtain i where "first_free ps (Suc j) = Some (Suc j + i)"
      "Suc (length (filter (\<lambda>a. a = 0) (ps[i := ptr]))) = length (filter (\<lambda>a. a = 0) ps)"
      using Cons.IH [of "Suc j"] Cons.prems by auto
    then show ?thesis using False by (intro exI [of _ "Suc i"]) simp
  qed (use assms(2) in \<open>auto intro!: exI [of _ 0]\<close>)
qed simp

lemma process_malloc_frame:
  assumes "process_directory s pr = Some d" "pagedir_ok (km_ram s) d" "process_malloc s pr sz = Inr (ptr, s')"
  shows "table_mem (km_ram s') d = table_mem (km_ram s) d"
    and "a \<notin> table_mem (km_ram s) d \<Longrightarrow> km_ram s' a = km_ram s a"
proof -
  obtain p t c where e: "process_at s pr = Some p" "tasks s (p_task p) = Some t"
    "chunks s (tk_page_directory t) = Some c" "directory_entry c = d"
    using assms(1) by (auto simp: process_directory_def split: option.splits)
  have "km_ram s' = km_ram s \<or> (\<exists>v q e f r. paging_map_to (km_ram s) d v q e f = Inr (r, km_ram s'))"
  proof (cases "process_get_free_heap_allocation_slot p")
    case None
    then show ?thesis using assms(3) e by (auto simp: process_malloc_def bindE_Inr_iff)
  next
    case (Some i)
    from assms(3) e(1) Some obtain q s1 where q: "kmalloc s sz = Inr (q, s1)"
      and r: "(if q = 0 then Inr (0, s1) else
           bindE (upd_process pr (\<lambda>p. p\<lparr>p_allocations := (p_allocations p)[i := q]\<rparr>) s1) (\<lambda>s.
           bindE (process_paging_map_to s pr q q (paging_align_address (q + word_of_int sz))
                    (PAGING_ACCESS_FROM_ALL OR PAGING_CACHE_DISABLED OR PAGING_PAGE_WRITEABLE OR PAGING_PAGE_PRESENT)) (\<lambda>(res, s).
           if res < 0 then panic ''Mapping of process memory failed'' else Inr (q, s)))) = Inr (ptr, s')"
      by (auto simp: process_malloc_def bindE_Inr_iff)
    obtain h where s1: "s1 = s\<lparr>km_heap := h\<rparr>" using q by (auto simp: kmalloc_Inr_iff)
    show ?thesis
    proof (cases "q = 0")
      case True
      then show ?thesis using r s1 by auto
    next
      case False
      with r e s1 show ?thesis
        by (auto simp: upd_process_def process_paging_map_to_def task_directory_def bindE_Inr_iff deref_Some
            split: if_splits)
    qed
  qed
  then show "table_mem (km_ram s') d = table_mem (km_ram s) d"
    "a \<notin> table_mem (km_ram s) d \<Longrightarrow> km_ram s' a = km_ram s a"
    using paging_map_to_frame [OF assms(2)] by auto
qed

lemma process_malloc_block:
  assumes "process_memory s pr d" "process_at s pr = Some p" "0 < free_slots p" "0 < kmem_room s" "0 < sz" "sz \<le> 4096"
  obtains ptr al s' where "process_malloc s pr sz = Inr (ptr, s')" "takes_but (page_mem (km_ram s) d) s [ptr] s'"
    "process_memory s' pr d" "page_mem (km_ram s') d = page_mem (km_ram s) d"
    "process_at s' pr = Some (p\<lparr>p_allocations := al\<rparr>)" "Suc (free_slots (p\<lparr>p_allocations := al\<rparr>)) = free_slots p"
    "paging_get (km_ram s') d ptr = Inr (ptr OR 0x17)"
    "\<forall>w. w mod 4096 = 0 \<longrightarrow> w \<noteq> ptr \<longrightarrow> paging_get (km_ram s') d w = paging_get (km_ram s) d w"
proof -
  have k: "is_kernel_page s = Inr True" and h: "kmem_ok s" and dir: "process_directory s pr = Some d"
    and dok: "pagedir_ok (km_ram s) d" and apart: "page_mem (km_ram s) d \<inter> kmem_spare s = {}"
    using assms(1) by (simp_all add: process_memory_def)
  obtain t c where e: "tasks s (p_task p) = Some t" "chunks s (tk_page_directory t) = Some c" "directory_entry c = d"
    using dir assms(2) by (auto simp: process_directory_def split: option.splits)
  define w :: u32 where "w = word_of_int sz"
  have w: "sint w = sz" "0 < unat w" "unat w \<le> 4096"
    using assms(5,6) by (simp_all add: w_def sint_word_of_int_u32 unat_eq_nat_uint uint_word_of_int_u32)
  obtain ptr u where u: "kmalloc s sz = Inr (ptr, u)" "ptr \<noteq> 0" "kmem_ok u" "Suc (kmem_room u) = kmem_room s"
    "kmem_live u = insert (ptr, 4096) (kmem_live s)" "(ptr, 4096) \<notin> kmem_live s"
    "region ptr 4096 \<subseteq> kmem_spare s" "kmem_spare u = kmem_spare s - region ptr 4096"
    using kernel_blocks.alloc_block [OF h assms(4) w(2,3)] by (auto simp: w(1) kmem_spare_def)
  have tu: "takes s [ptr] u" using u kmalloc_ram(1) [OF u(1)] by (simp add: takes_def)
  obtain i where i: "process_get_free_heap_allocation_slot p = Some i"
    "Suc (free_slots (p\<lparr>p_allocations := (p_allocations p)[i := ptr]\<rparr>)) = free_slots p"
    using first_free_count [OF _ u(2), of "p_allocations p" 0] assms(3)
    by (auto simp: process_get_free_heap_allocation_slot_def free_slots_def)
  have small: "sz < 2 ^ 31" using assms(6) by simp
  let ?p = "p\<lparr>p_allocations := (p_allocations p)[i := ptr]\<rparr>"
  obtain s' n hp m where s': "process_malloc s pr sz = Inr (ptr, s')"
    "kmem_live s' = insert (ptr, n) (kmem_live s)" "process_at s' pr = Some ?p"
    "\<forall>k. 4096 * k < nat sz \<longrightarrow> paging_get (km_ram s') d (ptr + of_nat (4096 * k)) = Inr ((ptr + of_nat (4096 * k)) OR 0x17)"
    "\<forall>w. w mod 4096 = 0 \<longrightarrow> w \<notin> region ptr n \<longrightarrow> paging_get (km_ram s') d w = paging_get (km_ram s) d w"
    "pagedir_ok (km_ram s') d" "heap_malloc (km_heap s) (word_of_int sz) = Inr (ptr, hp)"
    "s' = s\<lparr>km_heap := hp, process_at := (process_at s)(pr \<mapsto> ?p), km_ram := m\<rparr>"
    using process_malloc_step [OF k assms(2) e(1,2) dok [folded e(3)] h i(1) u(1,2) assms(5) small]
    unfolding e(3) by (elim exE conjE) (rule that)
  have heap: "km_heap s' = km_heap u" using s'(7,8) u(1) by (auto simp: kmalloc_Inr_iff)
  then have n: "n = 4096"
  proof -
    have "insert (ptr, n) (kmem_live s) = insert (ptr, 4096) (kmem_live s)"
      using s'(2) u(5) heap by (simp add: kmem_live_def)
    with u(6) show ?thesis by auto
  qed
  note fr = process_malloc_frame [OF dir dok s'(1)]
  have dsame: "km_ram s' a = km_ram s a" if "a \<in> region d 4096" for a
    by (rule fr(2)) (use directory_tables_apart [OF dok] that in blast)
  have pm: "page_mem (km_ram s') d = page_mem (km_ram s) d" by (simp add: page_mem_def fr(1))
  have "takes s [ptr] (s'\<lparr>km_ram := km_ram s\<rparr>)"
  proof -
    have "km_ram u = km_ram s" by (rule kmalloc_ram(1) [OF u(1)])
    then show ?thesis using tu takes_heap_cong [of "s'\<lparr>km_ram := km_ram s\<rparr>" u s "[ptr]"] heap by simp
  qed
  then have tk: "takes_but (page_mem (km_ram s) d) s [ptr] s'"
    using fr(2) by (simp add: takes_but_def page_mem_def)
  have "is_kernel_page s' = Inr True"
    using k by (simp add: s'(8) is_kernel_page_def kernel_get_page_directory_def)
  moreover have "process_directory s' pr = Some d"
    using e by (simp add: s'(8) process_directory_def)
  ultimately have mem: "process_memory s' pr d"
    using s'(6) takes_but_facts(1,4) [OF tk] apart pm by (auto simp: process_memory_def)
  have al: "unat ptr mod 4096 = 0"
  proof -
    have "(ptr, 4096) \<in> kmem_live s'" using takes_but_facts(3) [OF tk] by simp
    then obtain q where "unat ptr = 4096 * q"
      using kmem_live_pages [OF takes_but_facts(1) [OF tk]] by metis
    then show ?thesis by simp
  qed
  have pg: "paging_get (km_ram s') d ptr = Inr (ptr OR 0x17)" using s'(4) [THEN spec, of 0] assms(5) by simp
  have other: "\<forall>w. w mod 4096 = 0 \<longrightarrow> w \<noteq> ptr \<longrightarrow> paging_get (km_ram s') d w = paging_get (km_ram s) d w"
    using s'(5) aligned_same_page [OF _ al] unfolding n by (metis aligned_nat)
  show ?thesis by (rule that [OF s'(1) tk mem pm s'(3) i(2) pg other])
qed

section \<open>One argument\<close>

lemma process_directory_ram [simp]:
  "process_directory (s\<lparr>km_ram := m\<rparr>) pr = process_directory s pr" "is_kernel_page (s\<lparr>km_ram := m\<rparr>) = is_kernel_page s"
  by (simp_all add: process_directory_def is_kernel_page_def kernel_get_page_directory_def cong: option.case_cong)

text \<open>A structure whose text is a word of fewer than 512 bytes.\<close>

definition short_words :: "byte list list \<Rightarrow> bool" where
  "short_words ts \<longleftrightarrow> (\<forall>t \<in> set ts. 0 \<notin> set t \<and> length t < 512)"

lemma padded_word:
  assumes "read_bytes m p 512 = padded 512 t" "0 \<notin> set t" "length t < 512"
  shows "cstr (str_at m p) (length t)" "i < length t \<Longrightarrow> m (p + of_nat i) = t ! i"
proof -
  have b: "m (p + of_nat i) = padded 512 t ! i" if "i < 512" for i
    using assms(1) nth_read_bytes [OF that, of m p] by simp
  show c: "i < length t \<Longrightarrow> m (p + of_nat i) = t ! i" for i
    using b [of i] assms(3) by (simp add: nth_padded)
  show "cstr (str_at m p) (length t)"
    using c b [of "length t"] assms(2,3) by (auto simp: cstr_def str_at_def nth_padded in_set_conv_nth)
qed

lemma inject_step_result:
  assumes pm: "process_memory s pr d" "process_at s pr = Some p" "0 < free_slots p" "0 < kmem_room s"
    and argv: "(argv, 4096) \<in> kmem_live s" "region argv 4096 \<inter> page_mem (km_ram s) d = {}" "i < 1024"
    and cur: "region cur 516 \<inter> (page_mem (km_ram s) d \<union> kmem_spare s \<union> region argv 4096) = {}"
    and word: "read_bytes (km_ram s) cur 512 = padded 512 t" "0 \<notin> set t" "length t < 512"
  obtains ptr al s' where "inject_step s pr argv cur i = Inr (0, s')"
    "takes_but (page_mem (km_ram s) d \<union> region argv 4096) s [ptr] s'" "process_memory s' pr d"
    "page_mem (km_ram s') d = page_mem (km_ram s) d" "process_at s' pr = Some (p\<lparr>p_allocations := al\<rparr>)"
    "Suc (free_slots (p\<lparr>p_allocations := al\<rparr>)) = free_slots p"
    "load32 (km_ram s') (argv + 4 * of_nat i) = ptr" "string_in (km_ram s') ptr t"
    "paging_get (km_ram s') d ptr = Inr (ptr OR 0x17)"
    "\<forall>w. w mod 4096 = 0 \<longrightarrow> w \<noteq> ptr \<longrightarrow> paging_get (km_ram s') d w = paging_get (km_ram s) d w"
    "\<forall>a \<in> region argv 4096. a \<notin> region (argv + 4 * of_nat i) 4 \<longrightarrow> km_ram s' a = km_ram s a"
proof -
  let ?P = "page_mem (km_ram s) d" and ?slot = "argv + 4 * of_nat i"
  obtain ptr al s1 where s1: "process_malloc s pr 512 = Inr (ptr, s1)" "takes_but ?P s [ptr] s1"
    "process_memory s1 pr d" "page_mem (km_ram s1) d = ?P" "process_at s1 pr = Some (p\<lparr>p_allocations := al\<rparr>)"
    "Suc (free_slots (p\<lparr>p_allocations := al\<rparr>)) = free_slots p"
    "paging_get (km_ram s1) d ptr = Inr (ptr OR 0x17)"
    "\<forall>w. w mod 4096 = 0 \<longrightarrow> w \<noteq> ptr \<longrightarrow> paging_get (km_ram s1) d w = paging_get (km_ram s) d w"
    by (rule process_malloc_block [OF pm, of 512]) simp_all
  have nz: "ptr \<noteq> 0" and new: "region ptr 4096 \<subseteq> kmem_spare s" using takes_but_facts(5) [OF s1(2)] by simp_all
  have Psp: "?P \<inter> kmem_spare s = {}" using pm(1) by (simp add: process_memory_def)
  have av: "region argv 4096 \<inter> kmem_spare s = {}" by (rule kmem_live_not_spare [OF argv(1)])
  have sl: "region ?slot 4 \<subseteq> region argv 4096" by (rule slot_in_page [OF argv(3)])
  have r512: "region ptr 512 \<subseteq> region ptr 4096" by (rule region_mono) simp
  have c1: "km_ram s1 a = km_ram s a" if "a \<in> region cur 516" for a
    by (rule takes_but_ram [OF s1(2)]) (use cur that in auto)
  have "region cur 512 \<subseteq> region cur 516" by (rule region_mono) simp
  then have t1: "read_bytes (km_ram s1) cur 512 = padded 512 t"
    unfolding word(1) [symmetric] by (intro read_bytes_cong) (use c1 in blast)
  note w = padded_word [OF t1 word(2,3)]
  have dis: "region ptr 512 \<inter> region cur 512 = {}" using cur new r512 \<open>region cur 512 \<subseteq> region cur 516\<close> by blast
  have "(ptr, 4096) \<in> kmem_live s1" using takes_but_facts(3) [OF s1(2)] by simp
  then have nw: "unat ptr + 512 \<le> 2 ^ 32"
    using kernel_blocks.live_no_wrap [OF takes_but_facts(1) [OF s1(2)], of ptr 4096] by simp
  define m2 where "m2 = strncpy (km_ram s1) ptr cur 512"
  have m2: "string_in m2 ptr t" "a \<notin> region ptr 512 \<Longrightarrow> m2 a = km_ram s1 a" for a
    using strncpy_string [OF w word(3) dis nw] by (simp_all add: m2_def)
  define m3 where "m3 = store32 m2 ?slot ptr"
  let ?s' = "s1\<lparr>km_ram := m3\<rparr>"
  have m3: "m3 a = km_ram s1 a" if "a \<notin> region ptr 512" "a \<notin> region ?slot 4" for a
    using that m2(2) by (simp add: m3_def store32_out)
  have run: "inject_step s pr argv cur i = Inr (0, ?s')"
    using nz s1(1) by (simp add: inject_step_def Let_def m3_def m2_def)
  have tk: "takes_but (?P \<union> region argv 4096) s [ptr] ?s'"
  proof (rule takes_but_store [OF takes_but_mono [OF s1(2)]])
    fix a assume "a \<notin> ?P \<union> region argv 4096" "\<forall>b \<in> set [ptr]. a \<notin> region b 4096"
    then show "m3 a = km_ram s1 a" using sl r512 by (intro m3) auto
  qed simp
  have Pm: "m3 a = km_ram s1 a" if "a \<in> ?P" for a
    by (rule m3) (use that Psp new r512 sl argv(2) in blast)+
  have dok: "pagedir_ok (km_ram s1) d" using s1(3) by (simp add: process_memory_def)
  have same: "pagedir_ok m3 d" "page_mem m3 d = ?P" "v mod 4096 = 0 \<Longrightarrow> paging_get m3 d v = paging_get (km_ram s1) d v" for v
    using page_mem_same [OF dok, of m3] Pm unfolding s1(4) by auto
  have mem: "process_memory ?s' pr d"
    using s1(3) same(1,2) s1(4) by (simp add: process_memory_def)
  have str: "string_in m3 ptr t"
  proof (rule string_in_same [OF m2(1)])
    fix a assume a: "a \<in> region ptr (Suc (length t))"
    have "region ptr (Suc (length t)) \<subseteq> region ptr 4096" by (rule region_mono) (use word(3) in simp)
    then have "a \<notin> region ?slot 4" using a new av sl by blast
    then show "m3 a = m2 a" by (simp add: m3_def store32_out)
  qed
  have al: "ptr mod 4096 = 0"
  proof -
    have "(ptr, 4096) \<in> kmem_live s1" using takes_but_facts(3) [OF s1(2)] by simp
    then obtain q where "unat ptr = 4096 * q"
      using kmem_live_pages [OF takes_but_facts(1) [OF s1(2)]] by metis
    then show ?thesis by (simp add: aligned_nat)
  qed
  have "paging_get m3 d w = paging_get (km_ram s) d w" if "w mod 4096 = 0" "w \<noteq> ptr" for w
    using same(3) s1(8) that by simp
  moreover have "paging_get m3 d ptr = Inr (ptr OR 0x17)" using same(3) [OF al] s1(7) by simp
  moreover have "m3 a = km_ram s a" if a: "a \<in> region argv 4096" "a \<notin> region ?slot 4" for a
  proof -
    have "a \<notin> region ptr 512" using a(1) av new r512 by blast
    then have "m3 a = km_ram s1 a" using a(2) by (rule m3)
    also have "\<dots> = km_ram s a" by (rule takes_but_ram [OF s1(2)]) (use a(1) argv(2) av in blast)+
    finally show ?thesis .
  qed
  ultimately show ?thesis
    by (intro that [OF run tk mem]) (use same(2) s1(5,6) str in \<open>simp_all add: m3_def\<close>)
qed

section \<open>The chain of arguments\<close>

text \<open>The memory of the structures from \<open>p\<close> on.\<close>

fun argument_mem :: "ram \<Rightarrow> addr \<Rightarrow> byte list list \<Rightarrow> addr set" where
  "argument_mem m p [] = {}"
| "argument_mem m p (t # ts) = region p 516 \<union> argument_mem m (load32 m (p + 512)) ts"

lemma arguments_same:
  assumes "arguments_at m p ts" "\<And>a. a \<in> argument_mem m p ts \<Longrightarrow> m' a = m a"
  shows "arguments_at m' p ts \<and> argument_mem m' p ts = argument_mem m p ts"
  using assms
proof (induction ts arbitrary: p)
  case (Cons t ts)
  have "region (p + 512) 4 \<subseteq> argument_mem m p (t # ts)" "region p 512 \<subseteq> argument_mem m p (t # ts)"
    using argument_regions [of p] by auto
  then have l: "load32 m' (p + 512) = load32 m (p + 512)" and r: "read_bytes m' p 512 = read_bytes m p 512"
    using Cons.prems(2) by (auto intro!: load32_cong read_bytes_cong)
  have "arguments_at m' (load32 m (p + 512)) ts \<and>
      argument_mem m' (load32 m (p + 512)) ts = argument_mem m (load32 m (p + 512)) ts"
    by (rule Cons.IH) (use Cons.prems in auto)
  with Cons.prems(1) l r show ?case by simp
qed simp

lemma count_arguments: "arguments_at m p ts \<Longrightarrow> count_arguments_loop m p i = Some (i + length ts)"
proof (induction ts arbitrary: p i)
  case Nil
  then show ?case by (subst count_arguments_loop.simps) simp
next
  case (Cons t ts)
  then show ?case by (subst count_arguments_loop.simps) (simp add: argument_next_def)
qed

lemma inject_loop_result:
  fixes s :: "'a kstate_scheme"
  assumes "process_memory s pr d" "process_at s pr = Some p" "length ts \<le> free_slots p" "length ts \<le> kmem_room s"
    "(argv, 4096) \<in> kmem_live s" "region argv 4096 \<inter> page_mem (km_ram s) d = {}" "i + length ts \<le> 1024"
    "arguments_at (km_ram s) cur ts" "short_words ts"
    "argument_mem (km_ram s) cur ts \<inter> (page_mem (km_ram s) d \<union> kmem_spare s \<union> region argv 4096) = {}"
  shows "\<exists>ps al s'. inject_loop s pr argv cur i = Some (Inr (0, s')) \<and> length ps = length ts \<and>
    takes_but (page_mem (km_ram s) d \<union> region argv 4096) s ps s' \<and>
    process_at s' pr = Some (p\<lparr>p_allocations := al\<rparr>) \<and>
    (\<forall>k<length ts. load32 (km_ram s') (argv + 4 * of_nat (i + k)) = ps ! k \<and>
       string_in (km_ram s') (ps ! k) (ts ! k) \<and> paging_get (km_ram s') d (ps ! k) = Inr (ps ! k OR 0x17)) \<and>
    (\<forall>w. w mod 4096 = 0 \<longrightarrow> w \<notin> set ps \<longrightarrow> paging_get (km_ram s') d w = paging_get (km_ram s) d w) \<and>
    (\<forall>j<i. \<forall>a \<in> region (argv + 4 * of_nat j) 4. km_ram s' a = km_ram s a)"
  using assms
proof (induction ts arbitrary: s p cur i)
  case Nil
  then have "kmem_ok s" "cur = 0" by (simp_all add: process_memory_def)
  with Nil show ?case
    by (subst inject_loop.simps)
      (auto intro!: exI [of _ "p_allocations p"] simp: takes_but_refl)
next
  case (Cons t ts)
  let ?P = "page_mem (km_ram s) d" and ?nx = "load32 (km_ram s) (cur + 512)"
  have nz: "cur \<noteq> 0" and rd: "read_bytes (km_ram s) cur 512 = padded 512 t"
    and ch: "arguments_at (km_ram s) ?nx ts" using Cons.prems(8) by simp_all
  have w: "0 \<notin> set t" "length t < 512" "short_words ts" using Cons.prems(9) by (simp_all add: short_words_def)
  have cm: "region cur 516 \<inter> (?P \<union> kmem_spare s \<union> region argv 4096) = {}"
    "argument_mem (km_ram s) ?nx ts \<inter> (?P \<union> kmem_spare s \<union> region argv 4096) = {}"
    using Cons.prems(10) by auto
  have pos: "0 < free_slots p" "0 < kmem_room s" "i < 1024" using Cons.prems(3,4,7) by simp_all
  obtain ptr al s1 where s1: "inject_step s pr argv cur i = Inr (0, s1)"
    "takes_but (?P \<union> region argv 4096) s [ptr] s1" "process_memory s1 pr d" "page_mem (km_ram s1) d = ?P"
    "process_at s1 pr = Some (p\<lparr>p_allocations := al\<rparr>)" "Suc (free_slots (p\<lparr>p_allocations := al\<rparr>)) = free_slots p"
    "load32 (km_ram s1) (argv + 4 * of_nat i) = ptr" "string_in (km_ram s1) ptr t"
    "paging_get (km_ram s1) d ptr = Inr (ptr OR 0x17)"
    "\<forall>w. w mod 4096 = 0 \<longrightarrow> w \<noteq> ptr \<longrightarrow> paging_get (km_ram s1) d w = paging_get (km_ram s) d w"
    "\<forall>a \<in> region argv 4096. a \<notin> region (argv + 4 * of_nat i) 4 \<longrightarrow> km_ram s1 a = km_ram s a"
    by (rule inject_step_result [OF Cons.prems(1,2) pos(1,2) Cons.prems(5,6) pos(3) cm(1) rd w(1,2)])
  note tf = takes_but_facts [OF s1(2)]
  have sub: "region ptr 4096 \<subseteq> kmem_spare s" using tf(5) by simp
  have keep: "km_ram s1 a = km_ram s a" if "a \<notin> ?P" "a \<notin> kmem_spare s" "a \<notin> region argv 4096" for a
    by (rule takes_but_ram [OF s1(2)]) (use that in simp_all)
  have nx1: "argument_next (km_ram s1) cur = ?nx"
    unfolding argument_next_def
    by (rule load32_cong) (use argument_regions(1) [of cur] cm(1) in \<open>blast intro: keep region_memI\<close>)
  have ch1: "arguments_at (km_ram s1) ?nx ts \<and> argument_mem (km_ram s1) ?nx ts = argument_mem (km_ram s) ?nx ts"
    by (rule arguments_same [OF ch]) (use cm(2) in \<open>blast intro: keep\<close>)
  have live1: "(argv, 4096) \<in> kmem_live s1" "(ptr, 4096) \<in> kmem_live s1" using tf(3) Cons.prems(5) by simp_all
  have len: "length ts \<le> free_slots (p\<lparr>p_allocations := al\<rparr>)" "length ts \<le> kmem_room s1" "Suc i + length ts \<le> 1024"
    using Cons.prems(3,4,7) s1(6) tf(2) by simp_all
  have dis1: "argument_mem (km_ram s1) ?nx ts \<inter> (page_mem (km_ram s1) d \<union> kmem_spare s1 \<union> region argv 4096) = {}"
    using cm(2) ch1 tf(4) s1(4) by auto
  have av1: "region argv 4096 \<inter> page_mem (km_ram s1) d = {}" using Cons.prems(6) s1(4) by simp
  obtain ps al' s' where ih: "inject_loop s1 pr argv ?nx (Suc i) = Some (Inr (0, s'))" "length ps = length ts"
    "takes_but (page_mem (km_ram s1) d \<union> region argv 4096) s1 ps s'"
    "process_at s' pr = Some (p\<lparr>p_allocations := al\<rparr>\<lparr>p_allocations := al'\<rparr>)"
    "\<forall>k<length ts. load32 (km_ram s') (argv + 4 * of_nat (Suc i + k)) = ps ! k \<and>
       string_in (km_ram s') (ps ! k) (ts ! k) \<and> paging_get (km_ram s') d (ps ! k) = Inr (ps ! k OR 0x17)"
    "\<forall>w. w mod 4096 = 0 \<longrightarrow> w \<notin> set ps \<longrightarrow> paging_get (km_ram s') d w = paging_get (km_ram s1) d w"
    "\<forall>j<Suc i. \<forall>a \<in> region (argv + 4 * of_nat j) 4. km_ram s' a = km_ram s1 a"
    using Cons.IH [OF s1(3,5) len(1,2) live1(1) av1 len(3) conjunct1 [OF ch1] w(3) dis1]
    by (elim exE conjE) (rule that)
  have run: "inject_loop s pr argv cur i = Some (Inr (0, s'))"
    using nz s1(1) ih(1) nx1 by (subst inject_loop.simps) simp
  have tk: "takes_but (?P \<union> region argv 4096) s (ptr # ps) s'"
    using takes_but_trans [OF s1(2) ih(3) [unfolded s1(4)]] by simp
  have al: "ptr mod 4096 = 0"
  proof -
    obtain q where "unat ptr = 4096 * q" using kmem_live_pages [OF tf(1) live1(2)] by metis
    then show ?thesis by (simp add: aligned_nat)
  qed
  have newp: "ptr \<notin> set ps"
  proof
    assume "ptr \<in> set ps"
    then have "(ptr, 4096) \<notin> kmem_live s1" by (rule takes_new [OF takes_but_takes [OF ih(3)]])
    with live1(2) show False by simp
  qed
  have p0: "?P \<inter> kmem_spare s = {}" using Cons.prems(1) by (simp add: process_memory_def)
  have av: "region argv 4096 \<inter> kmem_spare s = {}" by (rule kmem_live_not_spare [OF Cons.prems(5)])
  have str: "string_in (km_ram s') ptr t"
  proof (rule string_in_same [OF s1(8)])
    fix a assume "a \<in> region ptr (Suc (length t))"
    then have a: "a \<in> region ptr 4096" using region_mono [of "Suc (length t)" 4096 ptr] w(2) by auto
    show "km_ram s' a = km_ram s1 a"
    proof (rule takes_but_ram [OF ih(3)])
      show "a \<notin> page_mem (km_ram s1) d \<union> region argv 4096" using a sub p0 av s1(4) by auto
      show "a \<notin> kmem_spare s1" using a kmem_live_not_spare [OF live1(2)] by auto
    qed
  qed
  have ld: "load32 (km_ram s') (argv + 4 * of_nat i) = ptr"
    unfolding s1(7) [symmetric] by (rule load32_cong) (use ih(7) in \<open>blast intro: region_memI\<close>)
  have pg: "paging_get (km_ram s') d ptr = Inr (ptr OR 0x17)" using ih(6) al newp s1(9) by simp
  have each: "load32 (km_ram s') (argv + 4 * of_nat (i + k)) = (ptr # ps) ! k \<and>
      string_in (km_ram s') ((ptr # ps) ! k) ((t # ts) ! k) \<and>
      paging_get (km_ram s') d ((ptr # ps) ! k) = Inr ((ptr # ps) ! k OR 0x17)" if "k < length (t # ts)" for k
  proof (cases k)
    case 0
    then show ?thesis using str ld pg by simp
  next
    case (Suc l)
    then have "l < length ts" using that by simp
    from ih(5) [rule_format, OF this] show ?thesis by (simp add: Suc)
  qed
  have slots: "km_ram s' a = km_ram s a" if "j < i" "a \<in> region (argv + 4 * of_nat j) 4" for j a
  proof -
    have j: "j < 1024" using that(1) pos(3) by simp
    have "region (argv + of_nat (4 * j)) 4 \<inter> region (argv + of_nat (4 * i)) 4 = {}"
      by (rule region_apart) (use that(1) pos(3) in simp_all)
    then have "a \<notin> region (argv + 4 * of_nat i) 4" using that(2) by auto
    moreover have "a \<in> region argv 4096" using slot_in_page [OF j, of argv] that(2) by blast
    ultimately have "km_ram s1 a = km_ram s a" using s1(11) by blast
    moreover have "j < Suc i" using that(1) by simp
    then have "km_ram s' a = km_ram s1 a" using ih(7) that(2) by blast
    ultimately show ?thesis by simp
  qed
  have rest: "paging_get (km_ram s') d w = paging_get (km_ram s) d w" if "w mod 4096 = 0" "w \<notin> set (ptr # ps)" for w
    using ih(6) s1(10) that by simp
  show ?case
    using run tk ih(2,4) each slots rest
    by (intro exI [of _ "ptr # ps"] exI [of _ al'] exI [of _ s']) simp
qed

section \<open>Properties\<close>

lemma takes_but_spare:
  assumes "takes_but (W \<union> X) s bs s'" "X \<subseteq> kmem_spare s"
  shows "takes_but W s bs s'"
  using assms unfolding takes_but_def by auto

lemma process_inject_arguments_result:
  fixes s :: "'a kstate_scheme"
  assumes mem: "process_memory s pr d" and p: "process_at s pr = Some p"
    and ts: "arguments_at (km_ram s) root ts" "short_words ts" "ts \<noteq> []" "length ts \<le> 1024"
    and sep: "argument_mem (km_ram s) root ts \<inter> (page_mem (km_ram s) d \<union> kmem_spare s) = {}"
    and room: "length ts < free_slots p" "length ts < kmem_room s"
  shows "\<exists>argv ps al s'. process_inject_arguments s pr root = Inr (0, s') \<and> length ps = length ts \<and>
    process_at s' pr = Some (p\<lparr>p_allocations := al, p_arguments := \<lparr>pa_argc = int (length ts), pa_argv = argv\<rparr>\<rparr>) \<and>
    takes_but (page_mem (km_ram s) d) s (argv # ps) s' \<and> paging_get (km_ram s') d argv = Inr (argv OR 0x17) \<and>
    (\<forall>k<length ts. load32 (km_ram s') (argv + 4 * of_nat k) = ps ! k \<and>
       string_in (km_ram s') (ps ! k) (ts ! k) \<and> paging_get (km_ram s') d (ps ! k) = Inr (ps ! k OR 0x17))"
proof -
  let ?P = "page_mem (km_ram s) d"
  have pos: "0 < free_slots p" "0 < kmem_room s" "0 < 4 * int (length ts)" "4 * int (length ts) \<le> 4096"
    using room ts(3,4) by auto
  obtain argv al s1 where s1: "process_malloc s pr (4 * int (length ts)) = Inr (argv, s1)"
    "takes_but ?P s [argv] s1" "process_memory s1 pr d" "page_mem (km_ram s1) d = ?P"
    "process_at s1 pr = Some (p\<lparr>p_allocations := al\<rparr>)" "Suc (free_slots (p\<lparr>p_allocations := al\<rparr>)) = free_slots p"
    "paging_get (km_ram s1) d argv = Inr (argv OR 0x17)"
    by (rule process_malloc_block [OF mem p pos])
  note tf = takes_but_facts [OF s1(2)]
  have sub: "region argv 4096 \<subseteq> kmem_spare s" and nz: "argv \<noteq> 0" using tf(5) by simp_all
  have p0: "?P \<inter> kmem_spare s = {}" using mem by (simp add: process_memory_def)
  have live: "(argv, 4096) \<in> kmem_live s1" using tf(3) by simp
  have ch: "arguments_at (km_ram s1) root ts \<and> argument_mem (km_ram s1) root ts = argument_mem (km_ram s) root ts"
    by (rule arguments_same [OF ts(1) takes_but_ram [OF s1(2)]]) (use sep in blast)+
  have len: "length ts \<le> free_slots (p\<lparr>p_allocations := al\<rparr>)" "length ts \<le> kmem_room s1" "0 + length ts \<le> 1024"
    using room s1(6) tf(2) ts(4) by simp_all
  have av: "region argv 4096 \<inter> page_mem (km_ram s1) d = {}" using sub p0 s1(4) by auto
  have dis: "argument_mem (km_ram s1) root ts \<inter> (page_mem (km_ram s1) d \<union> kmem_spare s1 \<union> region argv 4096) = {}"
    using ch sep tf(4) sub s1(4) by auto
  obtain ps al' s' where l: "inject_loop s1 pr argv root 0 = Some (Inr (0, s'))" "length ps = length ts"
    "takes_but (page_mem (km_ram s1) d \<union> region argv 4096) s1 ps s'"
    "process_at s' pr = Some (p\<lparr>p_allocations := al\<rparr>\<lparr>p_allocations := al'\<rparr>)"
    "\<forall>k<length ts. load32 (km_ram s') (argv + 4 * of_nat (0 + k)) = ps ! k \<and>
       string_in (km_ram s') (ps ! k) (ts ! k) \<and> paging_get (km_ram s') d (ps ! k) = Inr (ps ! k OR 0x17)"
    "\<forall>w. w mod 4096 = 0 \<longrightarrow> w \<notin> set ps \<longrightarrow> paging_get (km_ram s') d w = paging_get (km_ram s1) d w"
    using inject_loop_result [OF s1(3,5) len(1,2) live av len(3) conjunct1 [OF ch] ts(2) dis]
    by (elim exE conjE) (rule that)
  let ?arg = "\<lparr>pa_argc = int (length ts), pa_argv = argv\<rparr>"
  let ?p = "p\<lparr>p_allocations := al', p_arguments := ?arg\<rparr>"
  let ?s' = "s'\<lparr>process_at := (process_at s')(pr \<mapsto> ?p)\<rparr>"
  have u: "upd_process pr (\<lambda>p. p\<lparr>p_arguments := ?arg\<rparr>) s' = Inr ?s'"
    using l(4) by (simp add: upd_process_def deref_Some)
  have c: "process_count_command_arguments s root = Inr (length ts)"
    using count_arguments [OF ts(1), of 0] by (simp add: process_count_command_arguments_def returns_def)
  have run: "process_inject_arguments s pr root = Inr (0, ?s')"
    unfolding process_inject_arguments_def
    using ts(3) nz by (simp add: c s1(1) l(1) ran_def u)
  have "takes_but (?P \<union> region argv 4096) s (argv # ps) s'"
    using takes_but_trans [OF takes_but_mono [OF s1(2)] l(3) [unfolded s1(4)]] by simp
  then have "takes_but ?P s (argv # ps) s'" by (rule takes_but_spare [OF _ sub])
  then have "takes_but ?P s (argv # ps) ?s'"
    by (subst takes_but_heap_cong [where s' = s']) simp_all
  moreover have "paging_get (km_ram s') d argv = Inr (argv OR 0x17)"
  proof -
    have "argv mod 4096 = 0"
    proof -
      obtain q where "unat argv = 4096 * q" using kmem_live_pages [OF tf(1) live] by metis
      then show ?thesis by (simp add: aligned_nat)
    qed
    moreover have "argv \<notin> set ps"
      using takes_new [OF takes_but_takes [OF l(3)]] live by fastforce
    ultimately show ?thesis using l(6) s1(7) by simp
  qed
  ultimately show ?thesis using run l(2,5) by (intro exI [of _ argv] exI [of _ ps] exI [of _ al'] exI [of _ ?s']) simp
qed

text \<open>C13: \<open>process_inject_arguments\<close> hands a chain of command arguments to a process: with a free
  block and a free slot of the process's allocation table for each word and one more, it returns 0 and
  leaves \<open>argc\<close>, the number of the words, and \<open>argv\<close>, a new array whose element \<open>k\<close> is the
  address of a new copy of word \<open>k\<close>; the array and every copy are mapped for the process, and apart from
  those blocks and the process's own page tables no byte that was in use changes.\<close>

theorem process_inject_arguments_copies:
  fixes s :: "'a kstate_scheme"
  assumes "process_memory s pr d" "process_at s pr = Some p"
    and "arguments_at (km_ram s) root ts" "short_words ts" "ts \<noteq> []" "length ts \<le> 1024"
    and "argument_mem (km_ram s) root ts \<inter> (page_mem (km_ram s) d \<union> kmem_spare s) = {}"
    and "length ts < free_slots p" "length ts < kmem_room s"
  shows "\<exists>argv ps al s'. process_inject_arguments s pr root = Inr (0, s') \<and> length ps = length ts \<and>
    process_at s' pr = Some (p\<lparr>p_allocations := al, p_arguments := \<lparr>pa_argc = int (length ts), pa_argv = argv\<rparr>\<rparr>) \<and>
    takes_but (page_mem (km_ram s) d) s (argv # ps) s' \<and> paging_get (km_ram s') d argv = Inr (argv OR 0x17) \<and>
    (\<forall>k<length ts. load32 (km_ram s') (argv + 4 * of_nat k) = ps ! k \<and>
       string_in (km_ram s') (ps ! k) (ts ! k) \<and> paging_get (km_ram s') d (ps ! k) = Inr (ps ! k OR 0x17))"
  by (rule process_inject_arguments_result [OF assms])

text \<open>The process of \<open>demo_process\<close> and two arguments, \<open>ls\<close> at 0x8000 and \<open>a\<close> at 0x9000.\<close>

definition demo_arguments :: kstate where
  "demo_arguments = demo_process\<lparr>km_ram := store32 (demo_pages(0x8000 := 108, 0x8001 := 115, 0x9000 := 97)) 0x8200 0x9000\<rparr>"

lemma demo_page_mem: "page_mem demo_pages 0x1000 \<subseteq> region 0x1000 4096 \<union> region 0x100000 (1024 * 4096)"
proof -
  have "region (table_at demo_pages 0x1000 j) 4096 \<subseteq> region 0x100000 (1024 * 4096)" if "j < 1024" for j
  proof -
    have al: "unat (of_nat (1048576 + 4096 * j) :: u32) mod 4096 = 0"
    proof -
      have "unat (of_nat (1048576 + 4096 * j) :: u32) = 1048576 + 4096 * j" by (rule unat_of_nat_small) (use that in simp)
      then show ?thesis by presburger
    qed
    have "load32 demo_pages (0x1000 + 4 * of_nat j) = of_nat (1048576 + 4096 * j) OR 0"
      using fill_table_result(1) [of "0x1000" j "\<lambda>a. 0" "0x100000" 0] that by (simp add: demo_pages_def mult.commute)
    moreover have "(of_nat (1048576 + 4096 * j) OR 0 :: u32) AND 0xfffff000 = of_nat (1048576 + 4096 * j)"
      by (rule table_entry_masked [OF al]) simp
    ultimately have "table_at demo_pages 0x1000 j = 0x100000 + of_nat (4096 * j)"
      unfolding table_at_def by (simp only:) simp
    then show ?thesis using region_sub [of "4096 * j" 4096 "1024 * 4096" "0x100000"] that by simp
  qed
  then show ?thesis by (auto simp: page_mem_def table_mem_def)
qed

lemma demo_argument_spots:
  "region 0x8000 516 \<inter> (region 0x1000 4096 \<union> region 0x100000 (1024 * 4096)) = {}"
  "region 0x9000 516 \<inter> (region 0x1000 4096 \<union> region 0x100000 (1024 * 4096)) = {}"
  "(region 0x8000 516 \<union> region 0x9000 516) \<inter> {a. 0x1000000 \<le> (a :: addr)} = {}"
  "(region 0x1000 4096 \<union> region 0x100000 (1024 * 4096)) \<inter> {a. 0x1000000 \<le> (a :: addr)} = {}"
proof -
  have 1: "region 0x1000 4096 \<inter> region 0x8000 516 = {}" "region 0x1000 4096 \<inter> region 0x9000 516 = {}"
    using region_apart [of 0 4096 "0x7000" 516 "0x1000"] region_apart [of 0 4096 "0x8000" 516 "0x1000"] by simp_all
  have 2: "region 0x8000 516 \<inter> region 0x100000 (1024 * 4096) = {}" "region 0x9000 516 \<inter> region 0x100000 (1024 * 4096) = {}"
    using region_apart [of 0 516 "0xF8000" "1024 * 4096" "0x8000"] region_apart [of 0 516 "0xF7000" "1024 * 4096" "0x9000"] by simp_all
  show "region 0x8000 516 \<inter> (region 0x1000 4096 \<union> region 0x100000 (1024 * 4096)) = {}"
    "region 0x9000 516 \<inter> (region 0x1000 4096 \<union> region 0x100000 (1024 * 4096)) = {}" using 1 2 by blast+
  have "region 0x8000 516 \<inter> {a. 0x1000000 \<le> (a :: addr)} = {}" "region 0x9000 516 \<inter> {a. 0x1000000 \<le> (a :: addr)} = {}"
    "region 0x1000 4096 \<inter> {a. 0x1000000 \<le> (a :: addr)} = {}"
    "region 0x100000 (1024 * 4096) \<inter> {a. 0x1000000 \<le> (a :: addr)} = {}"
    by (rule region_below, simp)+
  then show "(region 0x8000 516 \<union> region 0x9000 516) \<inter> {a. 0x1000000 \<le> (a :: addr)} = {}"
    "(region 0x1000 4096 \<union> region 0x100000 (1024 * 4096)) \<inter> {a. 0x1000000 \<le> (a :: addr)} = {}" by blast+
qed

lemma demo_pages_zero: "a \<notin> region 0x1000 4096 \<Longrightarrow> demo_pages a = 0"
  using fill_table_result(2) [of "0x1000" a "\<lambda>a. 0" "0x100000" 0] by (simp add: demo_pages_def)

lemma demo_arguments_ram:
  "a \<notin> region 0x8000 516 \<Longrightarrow> a \<notin> region 0x9000 516 \<Longrightarrow> km_ram demo_arguments a = demo_pages a"
  "i < 512 \<Longrightarrow> km_ram demo_arguments (0x8000 + of_nat i) = (if i = 0 then 108 else if i = 1 then 115 else 0)"
  "i < 516 \<Longrightarrow> km_ram demo_arguments (0x9000 + of_nat i) = (if i = 0 then 97 else 0)"
  "load32 (km_ram demo_arguments) (0x8000 + 512) = 0x9000"
proof -
  let ?m = "demo_pages(0x8000 := 108, 0x8001 := 115, 0x9000 := 97)"
  have e: "km_ram demo_arguments = store32 ?m 0x8200 0x9000" by (simp add: demo_arguments_def)
  have s: "region 0x8200 4 \<subseteq> region 0x8000 516" using argument_regions(1) [of "0x8000"] by simp
  have z: "0x8000 \<in> region 0x8000 516" "0x8001 \<in> region 0x8000 516" "0x9000 \<in> region 0x9000 516"
    using region_memI [of 0 516 "0x8000"] region_memI [of 1 516 "0x8000"] region_memI [of 0 516 "0x9000"] by simp_all
  show "km_ram demo_arguments a = demo_pages a" if "a \<notin> region 0x8000 516" "a \<notin> region 0x9000 516"
  proof -
    have "a \<notin> region 0x8200 4" using that s by blast
    then have "km_ram demo_arguments a = ?m a" unfolding e by (rule store32_out)
    moreover have "a \<noteq> 0x8000" "a \<noteq> 0x8001" "a \<noteq> 0x9000" using that z by blast+
    ultimately show ?thesis by simp
  qed
  show "km_ram demo_arguments (0x8000 + of_nat i) = (if i = 0 then 108 else if i = 1 then 115 else 0)" if i: "i < 512"
  proof -
    have r: "(0x8000 :: addr) + of_nat i \<in> region 0x8000 512" using i by (rule region_memI)
    then have "(0x8000 :: addr) + of_nat i \<notin> region 0x8200 4" using argument_regions(3) [of "0x8000"] by auto
    then have k: "km_ram demo_arguments (0x8000 + of_nat i) = ?m (0x8000 + of_nat i)" unfolding e by (rule store32_out)
    have "(0x8000 :: addr) + of_nat i \<in> region 0x8000 516" using r argument_regions(2) by blast
    then have "(0x8000 :: addr) + of_nat i \<notin> region 0x1000 4096" using demo_argument_spots(1) by blast
    then have d: "demo_pages (0x8000 + of_nat i) = 0" by (rule demo_pages_zero)
    have "(0x8000 :: addr) + of_nat i = 0x8000 + of_nat j \<longleftrightarrow> i = j" if "j < 2 ^ 32" for j
      using of_nat_inj_u32 [of i j] i that by simp
    from this [of 0] this [of 1] this [of "0x1000"] show ?thesis using i by (simp add: k d)
  qed
  show "km_ram demo_arguments (0x9000 + of_nat i) = (if i = 0 then 97 else 0)" if i: "i < 516"
  proof -
    have r: "(0x9000 :: addr) + of_nat i \<in> region 0x9000 516" using i by (rule region_memI)
    have a: "region (0x8000 + of_nat 0) 516 \<inter> region (0x8000 + of_nat 0x1000) 516 = ({} :: addr set)"
      by (rule region_apart) simp_all
    then have n: "(0x9000 :: addr) + of_nat i \<notin> region 0x8000 516" using r by auto
    then have "(0x9000 :: addr) + of_nat i \<notin> region 0x8200 4" using s by blast
    then have k: "km_ram demo_arguments (0x9000 + of_nat i) = ?m (0x9000 + of_nat i)" unfolding e by (rule store32_out)
    have "(0x9000 :: addr) + of_nat i \<notin> region 0x1000 4096" using r demo_argument_spots(2) by blast
    then have d: "demo_pages (0x9000 + of_nat i) = 0" by (rule demo_pages_zero)
    have n2: "(0x9000 :: addr) + of_nat i \<noteq> 0x8000" "(0x9000 :: addr) + of_nat i \<noteq> 0x8001" using n z by metis+
    have "(0x9000 :: addr) + of_nat i = 0x9000 + of_nat 0 \<longleftrightarrow> i = 0"
      using of_nat_inj_u32 [of i 0] i by simp
    then show ?thesis using n2 by (simp add: k d)
  qed
  show "load32 (km_ram demo_arguments) (0x8000 + 512) = 0x9000" by (simp add: e)
qed

lemma demo_arguments_chain: "arguments_at (km_ram demo_arguments) 0x8000 [[108, 115], [97]]"
proof -
  have 1: "read_bytes (km_ram demo_arguments) 0x8000 512 = padded 512 [108, 115]"
    by (rule nth_equalityI) (auto simp: nth_padded demo_arguments_ram(2) less_Suc_eq)
  have 2: "read_bytes (km_ram demo_arguments) 0x9000 512 = padded 512 [97]"
    by (rule nth_equalityI) (auto simp: nth_padded demo_arguments_ram(3))
  have "km_ram demo_arguments (0x9200 + of_nat i) = 0" if "i < 4" for i
    using demo_arguments_ram(3) [of "512 + i"] that by (simp add: add.assoc [symmetric])
  from this [of 0] this [of 1] this [of 2] this [of 3]
  have "load32 (km_ram demo_arguments) 0x9200 = 0" by (simp add: load32_def)
  with 1 2 demo_arguments_ram(4) show ?thesis by simp
qed

lemma demo_arguments_spare: "kmem_spare demo_arguments \<subseteq> {a. 0x1000000 \<le> a}"
proof -
  have "region 0x1000000 (4096 * 3) \<subseteq> {a. 0x1000000 \<le> (a :: addr)}"
  proof
    fix a :: addr assume "a \<in> region 0x1000000 (4096 * 3)"
    then obtain i where i: "i < 4096 * 3" "a = 0x1000000 + of_nat i" by (auto simp: mem_region)
    have "unat (of_nat i :: u32) = i" by (rule unat_of_nat_small) (use i(1) in simp)
    then have "unat a = 0x1000000 + i" unfolding i(2) using i(1) by (subst unat_add_lem [THEN iffD1]) simp_all
    then show "a \<in> {a. 0x1000000 \<le> a}" by (simp add: word_le_nat_alt)
  qed
  moreover have "kmem_spare demo_arguments \<subseteq> region 0x1000000 (4096 * 3)"
    by (auto simp: kmem_spare_def spare_in_def kmem_arena_def heap_arena_def demo_arguments_def demo_process_def
        blank_kernel_def demo_heap_def)
  ultimately show ?thesis by blast
qed

lemma demo_arguments_ready:
  "process_memory demo_arguments 0x500 0x1000"
  "argument_mem (km_ram demo_arguments) 0x8000 [[108, 115], [97]] \<inter>
     (page_mem (km_ram demo_arguments) 0x1000 \<union> kmem_spare demo_arguments) = {}"
  "kmem_room demo_arguments = 3"
proof -
  have same: "km_ram demo_arguments a = demo_pages a" if "a \<in> page_mem demo_pages 0x1000" for a
    by (rule demo_arguments_ram(1)) (use that demo_page_mem demo_argument_spots in blast)+
  note pm = page_mem_same [OF demo_pages_ok same]
  note sp = demo_arguments_spare
  have pmem: "page_mem (km_ram demo_arguments) 0x1000 \<subseteq> region 0x1000 4096 \<union> region 0x100000 (1024 * 4096)"
    using pm(2) demo_page_mem by simp
  have k: "is_kernel_page demo_arguments = Inr True"
    by (simp add: is_kernel_page_def kernel_get_page_directory_def demo_process_def demo_arguments_def deref_Some)
  have ok: "kmem_ok demo_arguments" using demo_process_ok by (simp add: demo_arguments_def)
  have dir: "process_directory demo_arguments 0x500 = Some 0x1000"
    by (simp add: process_directory_def demo_arguments_def demo_process_def)
  have "page_mem (km_ram demo_arguments) 0x1000 \<inter> kmem_spare demo_arguments = {}"
    using pmem sp demo_argument_spots(4) by blast
  with k ok dir pm(1) show "process_memory demo_arguments 0x500 0x1000" by (simp add: process_memory_def)
  have "argument_mem (km_ram demo_arguments) 0x8000 [[108, 115], [97]] = region 0x8000 516 \<union> region 0x9000 516"
    using demo_arguments_ram(4) by simp
  then show "argument_mem (km_ram demo_arguments) 0x8000 [[108, 115], [97]] \<inter>
     (page_mem (km_ram demo_arguments) 0x1000 \<union> kmem_spare demo_arguments) = {}"
    using pmem sp demo_argument_spots by blast
  show "kmem_room demo_arguments = 3"
    by (simp add: kmem_room_def free_count_def demo_arguments_def demo_process_def blank_kernel_def demo_heap_def)
qed

lemma process_inject_arguments_copies_witness:
  "\<exists>argv ps s'. process_inject_arguments demo_arguments 0x500 0x8000 = Inr (0, s') \<and>
     map_option p_arguments (process_at s' 0x500) = Some \<lparr>pa_argc = 2, pa_argv = argv\<rparr> \<and>
     load32 (km_ram s') argv = ps ! 0 \<and> string_in (km_ram s') (ps ! 0) [108, 115]"
proof -
  let ?p = "zero_process\<lparr>p_task := 16\<rparr>" and ?ts = "[[108, 115], [97]] :: byte list list"
  have p: "process_at demo_arguments 0x500 = Some ?p" by (simp add: demo_arguments_def demo_process_def)
  have w: "short_words ?ts" "?ts \<noteq> []" "length ?ts \<le> 1024" "length ?ts < free_slots ?p" "length ?ts < kmem_room demo_arguments"
    using demo_arguments_ready(3) by (simp_all add: short_words_def free_slots_def zero_process_def)
  obtain argv ps al s' where r: "process_inject_arguments demo_arguments 0x500 0x8000 = Inr (0, s')"
    "process_at s' 0x500 = Some (?p\<lparr>p_allocations := al, p_arguments := \<lparr>pa_argc = int (length ?ts), pa_argv = argv\<rparr>\<rparr>)"
    "\<forall>k<length ?ts. load32 (km_ram s') (argv + 4 * of_nat k) = ps ! k \<and>
       string_in (km_ram s') (ps ! k) (?ts ! k) \<and> paging_get (km_ram s') 0x1000 (ps ! k) = Inr (ps ! k OR 0x17)"
    using process_inject_arguments_copies [OF demo_arguments_ready(1) p demo_arguments_chain w(1-3) demo_arguments_ready(2) w(4,5)]
    by (elim exE conjE) (rule that)
  from r(3) [rule_format, of 0] have "load32 (km_ram s') argv = ps ! 0" "string_in (km_ram s') (ps ! 0) [108, 115]" by simp_all
  with r(1,2) show ?thesis by (intro exI [of _ argv] exI [of _ ps] exI [of _ s']) simp
qed

end
