(* ===== verification/Task_Copy.thy ===== *)
theory Task_Copy
  imports Process_Arguments
begin

text \<open>
  Strings from a program's memory: \<open>copy_string_from_task\<close> of \<open>src/task/task.c\<close> maps a temporary page
  into the task's directory, copies the string through it, and puts the directory back.
\<close>

section \<open>Translation of an address\<close>

lemma page_of:
  fixes v :: addr
  shows "dir_index (paging_align_to_lower_page v) = dir_index v" "tab_index (paging_align_to_lower_page v) = tab_index v"
proof -
  have u: "unat (paging_align_to_lower_page v) = unat v div 4096 * 4096" by (rule unat_lower_page)
  define q r where "q = unat v div 4096" and "r = unat v mod 4096"
  have v: "unat v = q * 4096 + r" "r < 4096" by (simp_all add: q_def r_def)
  define a b where "a = q div 1024" and "b = q mod 1024"
  have q: "q = a * 1024 + b" "b < 1024" by (simp_all add: a_def b_def)
  have vr: "unat v = a * 4194304 + (b * 4096 + r)" "b * 4096 + r < 4194304" using v q by simp_all
  have lr: "unat (paging_align_to_lower_page v) = a * 4194304 + b * 4096" using u q by (simp add: q_def)
  have d: "unat v div 4194304 = a" unfolding vr(1) using vr(2) by (intro div_nat_eqI) simp_all
  have d2: "unat (paging_align_to_lower_page v) div 4194304 = a" unfolding lr using vr(2) by (intro div_nat_eqI) simp_all
  show "dir_index (paging_align_to_lower_page v) = dir_index v" by (simp add: dir_index_def d d2)
  have m: "unat v mod 4194304 = b * 4096 + r" unfolding vr(1) using vr(2) by simp
  have m2: "unat (paging_align_to_lower_page v) mod 4194304 = b * 4096" unfolding lr using q(2) by simp
  show "tab_index (paging_align_to_lower_page v) = tab_index v"
    unfolding tab_index_def m m2 using v(2) by (simp add: div_nat_eqI)
qed

lemma entry_of_page: "entry_of d m (paging_align_to_lower_page v) = entry_of d m v"
  by (simp add: entry_of_def slot_of_def page_of)

lemma lower_page_in:
  assumes "p mod 4096 = 0" "j < 4096"
  shows "paging_align_to_lower_page (p + of_nat j) = p" "(p + of_nat j) AND 0xfff = of_nat j"
proof -
  obtain q where q: "unat p = 4096 * q" using assms(1) by (auto simp: aligned_nat)
  have "q < 1048576" using q unat_u32_less [of p] by linarith
  then have lt: "4096 * q + j < 4294967296" using assms(2) by linarith
  have uj: "unat (of_nat j :: u32) = j" using assms(2) by (intro unat_of_nat_small) simp
  have u: "unat (p + of_nat j) = 4096 * q + j" using lt uj q by (subst unat_add_lem [THEN iffD1]) simp_all
  have "(4096 * q + j) div 4096 = q" using assms(2) by simp
  then show "paging_align_to_lower_page (p + of_nat j) = p"
    by (simp add: word_unat_eq_iff unat_lower_page u q)
  have "(4096 * q + j) mod 4096 = j" using assms(2) by simp
  then show "(p + of_nat j) AND 0xfff = of_nat j"
    unfolding low12_eq_mod by (simp add: word_unat_eq_iff unat_mod_4096 u uj)
qed

text \<open>Where an address leads, and what that depends on.\<close>

definition phys_of :: "ram \<Rightarrow> addr \<Rightarrow> addr \<Rightarrow> addr" where
  "phys_of m d v = (entry_of d m v AND 0xfffff000) + (v AND 0xfff)"

lemma mmu_at: "mmu_translates mmu \<Longrightarrow> page_present m d v \<Longrightarrow> mmu m d v = Some (phys_of m d v)"
  by (simp add: mmu_translates_def phys_of_def)

lemma lookup_same:
  assumes "\<And>a. a \<in> page_mem m d \<Longrightarrow> m' a = m a"
  shows "entry_of d m' v = entry_of d m v" "page_present m' d v = page_present m d v" "phys_of m' d v = phys_of m d v"
proof -
  have t: "table_at m' d i = table_at m d i" if "i < 1024" for i
    by (rule table_at_same [OF _ that]) (use assms in \<open>simp add: page_mem_def\<close>)
  have "region (slot_of m d v) 4 \<subseteq> page_mem m d"
    unfolding slot_of_def page_mem_def table_mem_def
    by (rule order_trans [OF slot_in_page]) (auto intro!: bexI [of _ "dir_index v"])
  then have l: "load32 m' (slot_of m d v) = load32 m (slot_of m d v)" by (intro load32_cong assms) blast
  have "slot_of m' d v = slot_of m d v" by (simp add: slot_of_def t)
  with l show e: "entry_of d m' v = entry_of d m v" by (simp add: entry_of_def)
  have "load32 m' (d + 4 * of_nat (dir_index v)) = load32 m (d + 4 * of_nat (dir_index v))"
    by (rule load32_cong, rule assms)
      (use slot_in_page [of "dir_index v" d] in \<open>auto simp: page_mem_def intro: region_memI\<close>)
  then show "page_present m' d v = page_present m d v" by (simp add: page_present_def e)
  show "phys_of m' d v = phys_of m d v" by (simp add: phys_of_def e)
qed

section \<open>The copy through the page directory\<close>

text \<open>
  The string \<open>xs\<close> with its terminator at the program's address \<open>virt\<close>, as the directory \<open>d\<close> maps
  it: where its bytes lie and what they are.
\<close>

definition user_string :: "ram \<Rightarrow> addr \<Rightarrow> addr \<Rightarrow> byte list \<Rightarrow> bool" where
  "user_string m d virt xs \<longleftrightarrow> 0 \<notin> set xs \<and> (\<forall>i\<le>length xs. page_present m d (virt + of_nat i) \<and>
     m (phys_of m d (virt + of_nat i)) = (xs @ [0]) ! i)"

definition user_bytes :: "ram \<Rightarrow> addr \<Rightarrow> addr \<Rightarrow> nat \<Rightarrow> addr set" where
  "user_bytes m d virt n = (\<lambda>i. phys_of m d (virt + of_nat i)) ` {..<n}"

text \<open>A page mapped to itself.\<close>

definition page_identity :: "ram \<Rightarrow> addr \<Rightarrow> addr \<Rightarrow> bool" where
  "page_identity m d p \<longleftrightarrow> p mod 4096 = 0 \<and> page_present m d p \<and> entry_of d m p AND 0xfffff000 = p"

lemma page_identity_at:
  assumes "page_identity m d p" "j < 4096"
  shows "page_present m d (p + of_nat j)" "phys_of m d (p + of_nat j) = p + of_nat j"
proof -
  have al: "p mod 4096 = 0" using assms(1) by (simp add: page_identity_def)
  note l = lower_page_in [OF al assms(2)]
  have e: "entry_of d m (p + of_nat j) = entry_of d m p" using entry_of_page [of d m "p + of_nat j"] l(1) by simp
  have "dir_index (p + of_nat j) = dir_index p" using page_of(1) [of "p + of_nat j"] l(1) by simp
  then show "page_present m d (p + of_nat j)" using assms(1) e by (simp add: page_identity_def page_present_def)
  show "phys_of m d (p + of_nat j) = p + of_nat j" using assms(1) by (simp add: phys_of_def e l(2) page_identity_def)
qed

lemma strncpy_virtual_string:
  assumes mmu: "mmu_translates mmu" and cur: "current_directory s = d"
    and tmp: "page_identity (km_ram s) d tmp" "region tmp 4096 \<inter> page_mem (km_ram s) d = {}"
    and str: "user_string (km_ram s) d virt xs"
    and sep: "user_bytes (km_ram s) d virt (Suc (length xs)) \<inter> region tmp 4096 = {}"
    and len: "i \<le> length xs" "length xs < i + k" "i + k \<le> 4096"
  shows "\<exists>m'. strncpy_virtual mmu s tmp virt i k = Inr (s\<lparr>km_ram := m'\<rparr>) \<and>
    (\<forall>j. i \<le> j \<longrightarrow> j \<le> length xs \<longrightarrow> m' (tmp + of_nat j) = (xs @ [0]) ! j) \<and>
    (\<forall>a. (\<forall>j. i \<le> j \<longrightarrow> j \<le> length xs \<longrightarrow> a \<noteq> tmp + of_nat j) \<longrightarrow> m' a = km_ram s a)"
  using cur tmp str sep len
proof (induction k arbitrary: i s)
  case (Suc k)
  let ?m = "km_ram s"
  have pr: "page_present ?m d (virt + of_nat i)" "?m (phys_of ?m d (virt + of_nat i)) = (xs @ [0]) ! i"
    using Suc.prems(4,6) by (simp_all add: user_string_def)
  have i: "i < 4096" using Suc.prems(8) by simp
  have rd: "read_virtual mmu s (virt + of_nat i) = Inr ((xs @ [0]) ! i)"
    using mmu_at [OF mmu pr(1)] pr(2) Suc.prems(1) by (simp add: read_virtual_def)
  note idm = page_identity_at [OF Suc.prems(2) i]
  have wr: "write_virtual mmu s (tmp + of_nat i) b = Inr (s\<lparr>km_ram := ?m(tmp + of_nat i := b)\<rparr>)" for b
    using mmu_at [OF mmu idm(1)] idm(2) Suc.prems(1) by (simp add: write_virtual_def)
  have ti: "tmp + of_nat i \<in> region tmp 4096" using i by (rule region_memI)
  show ?case
  proof (cases "i = length xs")
    case True
    then have e: "strncpy_virtual mmu s tmp virt i (Suc k) = Inr (s\<lparr>km_ram := ?m(tmp + of_nat i := 0)\<rparr>)"
      using rd wr by (simp add: nth_append)
    show ?thesis
      by (intro exI [of _ "?m(tmp + of_nat i := 0)"] conjI, rule e) (use True in \<open>auto simp: nth_append\<close>)
  next
    case False
    then have lt: "i < length xs" using Suc.prems(6) by simp
    have "0 \<notin> set xs" using Suc.prems(4) by (simp add: user_string_def)
    then have "xs ! i \<noteq> 0" using nth_mem [OF lt] by metis
    then have nz: "(xs @ [0]) ! i \<noteq> 0" using lt by (simp add: nth_append)
    let ?m1 = "?m(tmp + of_nat i := (xs @ [0]) ! i)" let ?s1 = "s\<lparr>km_ram := ?m1\<rparr>"
    have same: "?m1 a = ?m a" if "a \<in> page_mem ?m d" for a using that ti Suc.prems(3) by auto
    note lk = lookup_same [OF same]
    have pm: "page_mem ?m1 d = page_mem ?m d"
    proof -
      have "table_at ?m1 d j = table_at ?m d j" if "j < 1024" for j
        by (rule table_at_same [OF _ that]) (use same in \<open>simp add: page_mem_def\<close>)
      then show ?thesis by (simp add: page_mem_def table_mem_def)
    qed
    have keep: "?m1 (phys_of ?m d (virt + of_nat j)) = ?m (phys_of ?m d (virt + of_nat j))" if "j \<le> length xs" for j
    proof -
      have "phys_of ?m d (virt + of_nat j) \<in> user_bytes ?m d virt (Suc (length xs))"
        using that by (auto simp: user_bytes_def)
      then have "phys_of ?m d (virt + of_nat j) \<notin> region tmp 4096"
        by (rule disjoint_iff [THEN iffD1, rule_format, OF Suc.prems(5)])
      then have "phys_of ?m d (virt + of_nat j) \<noteq> tmp + of_nat i" using ti by metis
      then show ?thesis by simp
    qed
    have h1: "current_directory ?s1 = d" using Suc.prems(1) by simp
    have h2: "page_identity (km_ram ?s1) d tmp" using Suc.prems(2) by (simp add: page_identity_def lk)
    have h3: "region tmp 4096 \<inter> page_mem (km_ram ?s1) d = {}" using Suc.prems(3) pm by simp
    have h4: "user_string (km_ram ?s1) d virt xs" using Suc.prems(4) keep by (simp add: user_string_def lk)
    have h5: "user_bytes (km_ram ?s1) d virt (Suc (length xs)) \<inter> region tmp 4096 = {}"
      using Suc.prems(5) by (simp add: user_bytes_def lk)
    have ln: "Suc i \<le> length xs" "length xs < Suc i + k" "Suc i + k \<le> 4096" using lt Suc.prems(7,8) by simp_all
    obtain m' where m': "strncpy_virtual mmu ?s1 tmp virt (Suc i) k = Inr (?s1\<lparr>km_ram := m'\<rparr>)"
      "\<forall>j. Suc i \<le> j \<longrightarrow> j \<le> length xs \<longrightarrow> m' (tmp + of_nat j) = (xs @ [0]) ! j"
      "\<forall>a. (\<forall>j. Suc i \<le> j \<longrightarrow> j \<le> length xs \<longrightarrow> a \<noteq> tmp + of_nat j) \<longrightarrow> m' a = km_ram ?s1 a"
      using Suc.IH [OF h1 h2 h3 h4 h5 ln] by (elim exE conjE) (rule that)
    have run: "strncpy_virtual mmu s tmp virt i (Suc k) = Inr (s\<lparr>km_ram := m'\<rparr>)"
      using rd wr nz m'(1) by simp
    have off: "tmp + of_nat i \<noteq> tmp + of_nat j" if "Suc i \<le> j" "j \<le> length xs" for j
    proof -
      have "length xs < 4096" using Suc.prems(7,8) by simp
      then show ?thesis using of_nat_inj_u32 [of i j] that i by simp
    qed
    have "m' (tmp + of_nat j) = (xs @ [0]) ! j" if "i \<le> j" "j \<le> length xs" for j
    proof (cases "j = i")
      case True
      have "m' (tmp + of_nat i) = km_ram ?s1 (tmp + of_nat i)" using m'(3) off by blast
      then show ?thesis using True by simp
    qed (use m'(2) that in simp)
    moreover have "m' a = ?m a" if "\<forall>j. i \<le> j \<longrightarrow> j \<le> length xs \<longrightarrow> a \<noteq> tmp + of_nat j" for a
    proof -
      have "m' a = km_ram ?s1 a" using m'(3) that Suc_leD by blast
      moreover have "a \<noteq> tmp + of_nat i" using that lt by simp
      ultimately show ?thesis by simp
    qed
    ultimately show ?thesis using run by blast
  qed
qed simp

section \<open>The whole routine\<close>

lemma load32_byte:
  "ucast (load32 m p) = m p" "ucast (drop_bit 8 (load32 m p)) = m (p + 1)"
  "ucast (drop_bit 16 (load32 m p)) = m (p + 2)" "ucast (drop_bit 24 (load32 m p)) = m (p + 3)"
  by (rule bit_eqI; auto simp: load32_def bit_simps dest: bit_imp_le_length)+

lemma store32_load32: "store32 m p (load32 m p) = m"
  by (simp add: store32_def load32_byte fun_upd_idem)

lemma store32_inside: "a \<in> region p 4 \<Longrightarrow> store32 m p v a = store32 m' p v a"
  by (auto simp: store32_def region_4)

lemma takes_but_kfree:
  assumes "takes_but W s (p # bs) s'"
  obtains s'' where "kfree s' p = Inr s''" "takes_but W s bs s''" "km_ram s'' = km_ram s'" "kmem.more s'' = kmem.more s'"
proof -
  obtain u where u: "kfree (s'\<lparr>km_ram := km_ram s\<rparr>) p = Inr u" "takes s bs u" "km_ram u = km_ram (s'\<lparr>km_ram := km_ram s\<rparr>)"
    "kmem.more u = kmem.more (s'\<lparr>km_ram := km_ram s\<rparr>)"
    by (rule takes_kfree [OF takes_but_takes [OF assms]])
  have nz: "p \<noteq> 0" using takes_but_facts(5) [OF assms] by simp
  then obtain h where h: "heap_free (km_heap s') p = Inr h" "u = s'\<lparr>km_ram := km_ram s\<rparr>\<lparr>km_heap := h\<rparr>"
    using u(1) by (auto simp: kfree_Inr_iff)
  have e: "s'\<lparr>km_heap := h\<rparr>\<lparr>km_ram := km_ram s\<rparr> = u" by (simp add: h(2))
  have "takes_but W s bs (s'\<lparr>km_heap := h\<rparr>)"
    using u(2) assms unfolding takes_but_def e by simp
  moreover have "kfree s' p = Inr (s'\<lparr>km_heap := h\<rparr>)" using nz h(1) by (simp add: kfree_def)
  ultimately show ?thesis by (intro that [of "s'\<lparr>km_heap := h\<rparr>"]) simp_all
qed

lemma in_own_page: "v \<in> region (paging_align_to_lower_page v) 4096"
proof -
  have "v = paging_align_to_lower_page v + of_nat (unat v mod 4096)"
    by (simp add: paging_align_to_lower_page_def flip: unat_mod_4096)
  then show ?thesis using region_memI [of "unat v mod 4096" 4096 "paging_align_to_lower_page v"] by simp
qed

text \<open>Every table of the directory is present.\<close>

definition directory_present :: "ram \<Rightarrow> addr \<Rightarrow> bool" where
  "directory_present m d \<longleftrightarrow> (\<forall>i<1024. load32 m (d + 4 * of_nat i) AND 1 \<noteq> 0)"

text \<open>Mapping a page of the kernel to itself in a program's directory.\<close>

lemma map_identity:
  assumes "pagedir_ok m d" "directory_present m d" "tmp mod 4096 = 0"
    and virt: "\<forall>i\<le>n. paging_align_to_lower_page (virt + of_nat i) \<noteq> tmp"
  defines "m' \<equiv> store32 m (slot_of m d tmp) (tmp OR 7)"
  shows "paging_map m d tmp tmp 7 = (0, m')" "page_identity m' d tmp" "pagedir_ok m' d" "page_mem m' d = page_mem m d"
    "i \<le> n \<Longrightarrow> page_present m' d (virt + of_nat i) = page_present m d (virt + of_nat i)"
    "i \<le> n \<Longrightarrow> phys_of m' d (virt + of_nat i) = phys_of m d (virt + of_nat i)"
    "slot_of m' d tmp = slot_of m d tmp" "region (slot_of m d tmp) 4 \<subseteq> page_mem m d"
proof -
  have set: "paging_set m d tmp (tmp OR 7) = (0, m')" using assms(3) by (simp add: paging_set_eq m'_def)
  then show "paging_map m d tmp tmp 7 = (0, m')" using assms(3) by (simp add: paging_map_def)
  show ok: "pagedir_ok m' d" unfolding m'_def by (rule store_slot_ok [OF assms(1)])
  show "slot_of m' d tmp = slot_of m d tmp" unfolding m'_def by (rule store_slot_slot_of [OF assms(1)])
  have tm: "region (slot_of m d tmp) 4 \<subseteq> table_mem m d"
    unfolding slot_of_def table_mem_def
    by (rule order_trans [OF slot_in_page]) (auto intro!: bexI [of _ "dir_index tmp"])
  then show "region (slot_of m d tmp) 4 \<subseteq> page_mem m d" by (auto simp: page_mem_def)
  have dir: "load32 m' (d + 4 * of_nat i) = load32 m (d + 4 * of_nat i)" if "i < 1024" for i
  proof -
    have "region (d + 4 * of_nat i) 4 \<subseteq> region d 4096" by (rule slot_in_page [OF that])
    then have "region (slot_of m d tmp) 4 \<inter> region (d + 4 * of_nat i) 4 = {}"
      using tm directory_tables_apart [OF assms(1)] by blast
    then show ?thesis unfolding m'_def by (rule load32_store32_disjoint)
  qed
  have "table_at m' d i = table_at m d i" if "i < 1024" for i using dir [OF that] by (simp add: table_at_def)
  then show "page_mem m' d = page_mem m d" by (simp add: page_mem_def table_mem_def)
  have e: "entry_of d m' tmp = tmp OR 7" using pages.get_set_same [OF assms(1,3), of "tmp OR 7"] by (simp add: set)
  have "(tmp OR 7) AND 0xfffff000 = tmp"
    by (rule table_entry_masked) (use assms(3) in \<open>simp_all add: aligned_nat\<close>)
  moreover have "(tmp OR 7) AND 1 \<noteq> 0"
  proof
    assume "(tmp OR 7) AND 1 = 0"
    then have "bit ((tmp OR 7) AND 1) 0 = bit (0 :: u32) 0" by (simp only:)
    then show False by (simp add: bit_simps)
  qed
  moreover have "load32 m' (d + 4 * of_nat (dir_index tmp)) AND 1 \<noteq> 0"
    using assms(2) by (simp add: dir directory_present_def)
  ultimately show "page_identity m' d tmp"
    using assms(3) by (simp add: page_identity_def page_present_def e)
  have o: "entry_of d m' (virt + of_nat i) = entry_of d m (virt + of_nat i)" if "i \<le> n" for i
  proof -
    have al: "paging_align_to_lower_page (virt + of_nat i) mod 4096 = 0"
      using lower_page_aligned [of "virt + of_nat i"] by (simp add: paging_is_address_aligned_def)
    have "entry_of d (snd (paging_set m d tmp (tmp OR 7))) (paging_align_to_lower_page (virt + of_nat i)) =
        entry_of d m (paging_align_to_lower_page (virt + of_nat i))"
      by (rule pages.get_set_other [OF assms(1,3) al]) (use virt that in metis)
    then show ?thesis by (simp add: set entry_of_page)
  qed
  show "i \<le> n \<Longrightarrow> page_present m' d (virt + of_nat i) = page_present m d (virt + of_nat i)"
    using o by (simp add: page_present_def dir)
  show "i \<le> n \<Longrightarrow> phys_of m' d (virt + of_nat i) = phys_of m d (virt + of_nat i)"
    using o by (simp add: phys_of_def)
qed

lemma copy_string_from_task_result:
  fixes s :: "'a kstate_scheme"
  assumes mmu: "mmu_translates mmu" and k: "is_kernel_page s = Inr True" and ok: "kmem_ok s" "0 < kmem_room s"
    and task: "tasks s task = Some t" "chunks s (tk_page_directory t) = Some c" "directory_entry c = d"
    and dir: "pagedir_ok (km_ram s) d" "directory_present (km_ram s) d" "page_mem (km_ram s) d \<inter> kmem_spare s = {}"
    and str: "user_string (km_ram s) d virt xs" "\<forall>i\<le>length xs. virt + of_nat i \<notin> kmem_spare s"
      "user_bytes (km_ram s) d virt (Suc (length xs)) \<inter> (kmem_spare s \<union> page_mem (km_ram s) d) = {}"
    and len: "length xs < n" "n < 4096"
    and dst: "region phys n \<inter> (kmem_spare s \<union> page_mem (km_ram s) d) = {}" "unat phys + n \<le> 2 ^ 32"
  shows "\<exists>s'. copy_string_from_task mmu s task virt phys (int n) = Inr (0, s') \<and> string_in (km_ram s') phys xs \<and>
    takes_but (region phys n) s [] s' \<and> current_directory s' = current_directory s"
proof -
  obtain kc where kc: "chunks s (kernel_paging_chunk s) = Some kc" "directory_entry kc = current_directory s"
    using k by (auto simp: is_kernel_page_def kernel_get_page_directory_def bindE_Inr_iff)
  have n0: "0 < int n" "int n \<le> 4096" using len by simp_all
  obtain tmp s1 where z: "kzalloc s (int n) = Inr (tmp, s1)" "takes s [tmp] s1" "kmem.more s1 = kmem.more s"
    by (rule takes_kzalloc [OF ok n0])
  have nz: "tmp \<noteq> 0" and new: "region tmp 4096 \<subseteq> kmem_spare s"
    using takes_nonnull [OF z(2)] takes_region [OF z(2)] by simp_all
  have live: "(tmp, 4096) \<in> kmem_live s1" using takes_live [OF z(2)] by simp
  obtain q where q: "unat tmp = 4096 * q" "unat tmp + 4096 < 2 ^ 32"
  proof -
    have "kmem_ok s1" by (rule takes_ok [OF z(2)])
    then have "unat tmp mod 4096 = 0 \<and> unat tmp + 4096 < 2 ^ 32"
      using live kernel_blocks.live_no_wrap [of s1 tmp 4096] heap_live_cases [of "km_heap s1" tmp 4096]
        block_address_props(2) [of "km_heap s1"]
      by (metis add_leD1 aligned_iff_nat kmem_live_def kmem_ok_def)
    then show ?thesis using that by auto
  qed
  have al: "tmp mod 4096 = 0" using q(1) by (simp add: aligned_nat)
  have st: "chunks s1 = chunks s" "tasks s1 = tasks s" "kernel_paging_chunk s1 = kernel_paging_chunk s"
    "current_directory s1 = current_directory s"
    using z(3) by (cases s; cases s1; simp)+
  let ?P = "page_mem (km_ram s) d"
  define m1 where "m1 = km_ram s1"
  have m1: "m1 a = km_ram s a" if "a \<notin> kmem_spare s" for a unfolding m1_def by (rule takes_ram [OF z(2) that])
  have P1: "m1 a = km_ram s a" if "a \<in> ?P" for a by (rule m1) (use that dir(3) in blast)
  have pm1: "pagedir_ok m1 d" "page_mem m1 d = ?P" by (rule page_mem_same [OF dir(1)], erule P1)+
  have lk1: "page_present m1 d v = page_present (km_ram s) d v" "phys_of m1 d v = phys_of (km_ram s) d v" for v
    by (rule lookup_same, erule P1)+
  have dp1: "directory_present m1 d"
    unfolding directory_present_def
  proof (intro allI impI)
    fix i :: nat assume "i < 1024"
    then have "load32 m1 (d + 4 * of_nat i) = load32 (km_ram s) (d + 4 * of_nat i)"
      by (intro load32_cong P1) (use slot_in_page [of i d] in \<open>auto simp: page_mem_def intro: region_memI\<close>)
    then show "load32 m1 (d + 4 * of_nat i) AND 1 \<noteq> 0" using dir(2) \<open>i < 1024\<close> by (simp add: directory_present_def)
  qed
  have vp: "\<forall>i\<le>length xs. paging_align_to_lower_page (virt + of_nat i) \<noteq> tmp"
    using in_own_page str(2) new by blast
  define sl where "sl = slot_of m1 d tmp"
  define old where "old = load32 m1 sl"
  define m2 where "m2 = store32 m1 sl (tmp OR 7)"
  note mi = map_identity [OF pm1(1) dp1 al vp, folded sl_def, folded m2_def]
  have slP: "region sl 4 \<subseteq> ?P" using mi(8) pm1(2) by simp
  have P2: "page_mem m2 d = ?P" using mi(4) pm1(2) by simp
  have tmpP: "region tmp 4096 \<inter> ?P = {}" using new dir(3) by blast
  have us2: "user_string m2 d virt xs"
  proof -
    have "m2 (phys_of m2 d (virt + of_nat i)) = (xs @ [0]) ! i \<and> page_present m2 d (virt + of_nat i)" if i: "i \<le> length xs" for i
    proof -
      have "phys_of (km_ram s) d (virt + of_nat i) \<in> user_bytes (km_ram s) d virt (Suc (length xs))"
        using i by (auto simp: user_bytes_def)
      then have o: "phys_of (km_ram s) d (virt + of_nat i) \<notin> kmem_spare s" "phys_of (km_ram s) d (virt + of_nat i) \<notin> region sl 4"
        using str(3) slP by blast+
      then have "m2 (phys_of (km_ram s) d (virt + of_nat i)) = km_ram s (phys_of (km_ram s) d (virt + of_nat i))"
        by (simp add: m2_def store32_out m1)
      then show ?thesis using mi(5,6) [OF i] lk1 str(1) i by (simp add: user_string_def)
    qed
    then show ?thesis using str(1) by (simp add: user_string_def)
  qed
  have ub2: "user_bytes m2 d virt (Suc (length xs)) \<inter> region tmp 4096 = {}"
  proof -
    have "user_bytes m2 d virt (Suc (length xs)) = user_bytes (km_ram s) d virt (Suc (length xs))"
      unfolding user_bytes_def by (rule image_cong) (use mi(6) lk1(2) in auto)
    then show ?thesis using str(3) new by blast
  qed
  define s2 where "s2 = s1\<lparr>km_ram := m2\<rparr>"
  define s3 where "s3 = s2\<lparr>current_directory := d, current_chunk := tk_page_directory t\<rparr>"
  have r3: "km_ram s3 = m2" "current_directory s3 = d" by (simp_all add: s3_def s2_def)
  obtain m3 where m3: "strncpy_virtual mmu s3 tmp virt 0 n = Inr (s3\<lparr>km_ram := m3\<rparr>)"
    "\<forall>j\<le>length xs. m3 (tmp + of_nat j) = (xs @ [0]) ! j"
    "\<forall>a. (\<forall>j\<le>length xs. a \<noteq> tmp + of_nat j) \<longrightarrow> m3 a = m2 a"
    using strncpy_virtual_string [OF mmu r3(2), unfolded r3(1), OF mi(2) _ us2 ub2, of 0 n] tmpP P2 len by auto
  have off3: "m3 a = m2 a" if "a \<notin> region tmp 4096" for a
    using m3(3) that len by (auto simp: mem_region)
  have sl3: "slot_of m3 d tmp = sl"
  proof -
    have "m3 a = m2 a" if "a \<in> page_mem m2 d" for a by (rule off3) (use that P2 tmpP in blast)
    then have "table_at m3 d i = table_at m2 d i" if "i < 1024" for i
      by (intro table_at_same that) (simp add: page_mem_def)
    then show ?thesis using mi(7) by (simp add: slot_of_def)
  qed
  define m4 where "m4 = store32 m3 sl old"
  have m4: "m4 a = m1 a" if "a \<notin> region tmp 4096" for a
  proof (cases "a \<in> region sl 4")
    case True
    then have "m4 a = store32 m1 sl old a" unfolding m4_def by (rule store32_inside)
    then show ?thesis by (simp add: old_def store32_load32)
  next
    case False
    then show ?thesis using off3 [OF that] by (simp add: m4_def store32_out m2_def)
  qed
  have t4: "m4 (tmp + of_nat j) = (xs @ [0]) ! j" if "j \<le> length xs" for j
  proof -
    have "tmp + of_nat j \<in> region tmp 4096" using that len by (intro region_memI) simp
    then have "tmp + of_nat j \<notin> region sl 4" using slP tmpP by blast
    then show ?thesis using m3(2) that by (simp add: m4_def store32_out)
  qed
  define m5 where "m5 = strncpy m4 phys tmp (int n)"
  have c4: "cstr (str_at m4 tmp) (length xs)"
    using t4 str(1) by (auto simp: cstr_def str_at_def nth_append user_string_def in_set_conv_nth)
  have tn: "region tmp n \<subseteq> region tmp 4096" by (rule region_mono) (use len in simp)
  have dd: "region phys n \<inter> region tmp n = {}" using dst(1) new tn by blast
  have t4': "m4 (tmp + of_nat i) = xs ! i" if "i < length xs" for i using t4 [of i] that by (simp add: nth_append)
  have m5: "string_in m5 phys xs" "a \<notin> region phys n \<Longrightarrow> m5 a = m4 a" for a
    using strncpy_string [OF c4 t4' len(1) dd dst(2)] by (simp_all add: m5_def)
  define s5 where "s5 = s3\<lparr>current_directory := current_directory s, current_chunk := kernel_paging_chunk s, km_ram := m5\<rparr>"
  have h5: "km_heap s5 = km_heap s1" by (simp add: s5_def s3_def s2_def)
  have tb: "takes_but (region phys n) s [tmp] s5"
  proof -
    have "takes s [tmp] (s1\<lparr>km_ram := km_ram s\<rparr>)" using z(2) by (simp add: takes_def)
    then have "takes s [tmp] (s5\<lparr>km_ram := km_ram s\<rparr>)"
      by (subst takes_heap_cong [where s' = "s1\<lparr>km_ram := km_ram s\<rparr>"]) (simp_all add: h5)
    moreover have "m5 a = km_ram s a" if "a \<notin> region phys n" "a \<notin> kmem_spare s" for a
      using m5(2) [OF that(1)] m4 [of a] m1 [OF that(2)] new that(2) by auto
    ultimately show ?thesis by (simp add: takes_but_def s5_def)
  qed
  obtain s' where s': "kfree s5 tmp = Inr s'" "takes_but (region phys n) s [] s'" "km_ram s' = km_ram s5" "kmem.more s' = kmem.more s5"
    by (rule takes_but_kfree [OF tb])
  have "copy_string_from_task mmu s task virt phys (int n) = Inr (0, s')"
  proof -
    define s4 where "s4 = s3\<lparr>km_ram := m3, current_directory := current_directory s, current_chunk := kernel_paging_chunk s\<rparr>"
    have fl: "PAGING_PAGE_WRITEABLE OR PAGING_PAGE_PRESENT OR PAGING_ACCESS_FROM_ALL = (7 :: u32)" by simp
    have a: "assert_kernel_page ''copy_string_from_task'' s = Inr ()" by (simp add: assert_kernel_page_def k)
    have td: "task_directory s1 task = Inr d" using task by (simp add: task_directory_def st deref_Some)
    have pg: "paging_get (km_ram s1) d tmp = Inr old" by (simp add: paging_get_eq [OF al] old_def sl_def m1_def)
    have mp: "paging_map (km_ram s1) d tmp tmp 7 = (0, m2)" using mi(1) by (simp add: m1_def)
    have tp: "task_page_task s2 task = Inr s3"
      using task by (simp add: task_page_task_def paging_switch_def s2_def s3_def st deref_Some)
    have cp: "strncpy_virtual mmu s3 tmp virt 0 (nat (int n)) = Inr (s3\<lparr>km_ram := m3\<rparr>)" using m3(1) by simp
    have kp: "kernel_page (s3\<lparr>km_ram := m3\<rparr>) = Inr s4"
      using kc by (simp add: kernel_page_def paging_switch_def s4_def s3_def s2_def st deref_Some)
    have ps: "paging_set (km_ram s4) d tmp old = (0, m4)"
      by (simp add: paging_set_eq [OF al] m4_def s4_def sl3)
    have s45: "s4\<lparr>km_ram := m4, km_ram := strncpy m4 phys tmp (int n)\<rparr> = s5"
      by (simp add: s4_def s5_def m5_def)
    have lt: "\<not> 4096 \<le> int n" using len by simp
    show ?thesis
      unfolding copy_string_from_task_def fl
      by (simp only: a bindE.simps lt if_False z(1) prod.case nz td pg mp Let_def s2_def [symmetric] tp cp kp ps less_irrefl)
        (use s45 s'(1) in simp)
  qed
  moreover have "current_directory s' = current_directory s"
  proof -
    have "current_directory s' = current_directory s5" using s'(4) by (cases s'; cases s5; simp)
    then show ?thesis by (simp add: s5_def)
  qed
  ultimately show ?thesis using s'(2,3) m5(1) by (intro exI [of _ s']) (simp add: s5_def)
qed

section \<open>Properties\<close>

text \<open>C12: \<open>copy_string_from_task\<close> brings a string of a program's address space into the kernel: whatever
  pages the string lies on, it returns 0 with the string at \<open>phys\<close>, and nothing else has changed: the page
  it mapped into the program's directory has its old entry back, the temporary block is given back to the
  heap, and the kernel's own directory is in force.\<close>

theorem copy_string_from_task_copies:
  fixes s :: "'a kstate_scheme"
  assumes "mmu_translates mmu" "is_kernel_page s = Inr True" "kmem_ok s" "0 < kmem_room s"
    and "tasks s task = Some t" "chunks s (tk_page_directory t) = Some c" "directory_entry c = d"
    and "pagedir_ok (km_ram s) d" "directory_present (km_ram s) d" "page_mem (km_ram s) d \<inter> kmem_spare s = {}"
    and "user_string (km_ram s) d virt xs" "\<forall>i\<le>length xs. virt + of_nat i \<notin> kmem_spare s"
    and "user_bytes (km_ram s) d virt (Suc (length xs)) \<inter> (kmem_spare s \<union> page_mem (km_ram s) d) = {}"
    and "length xs < n" "n < 4096"
    and "region phys n \<inter> (kmem_spare s \<union> page_mem (km_ram s) d) = {}" "unat phys + n \<le> 2 ^ 32"
  shows "\<exists>s'. copy_string_from_task mmu s task virt phys (int n) = Inr (0, s') \<and> string_in (km_ram s') phys xs \<and>
    takes_but (region phys n) s [] s' \<and> current_directory s' = current_directory s"
  by (rule copy_string_from_task_result [OF assms])

text \<open>The directory of \<open>demo_pages\<close> with its tables present, and page 8 of the program mapped to itself.\<close>

definition present_pages :: ram where
  "present_pages = fill_table (\<lambda>a. 0) 0x1000 0x100000 1"

definition demo_strings :: kstate where
  "demo_strings = demo_process\<lparr>km_ram := (store32 present_pages 0x100020 0x8001)(0x8000 := 104, 0x8001 := 105)\<rparr>"

definition demo_mmu :: mmu where
  "demo_mmu m d v = (if page_present m d v then Some (phys_of m d v) else None)"

lemma demo_mmu_translates: "mmu_translates demo_mmu"
  by (simp add: mmu_translates_def demo_mmu_def phys_of_def)

lemma present_pages_tables:
  assumes "j < 1024"
  shows "table_at present_pages 0x1000 j = table_at demo_pages 0x1000 j"
    "load32 present_pages (0x1000 + 4 * of_nat j) AND 1 \<noteq> 0" "table_at demo_pages 0x1000 0 = 0x100000"
proof -
  have al: "unat (of_nat (1048576 + 4096 * j) :: u32) mod 4096 = 0"
  proof -
    have "unat (of_nat (1048576 + 4096 * j) :: u32) = 4096 * (256 + j)"
      using assms by (subst unat_of_nat_small) simp_all
    then show ?thesis by simp
  qed
  have l: "load32 present_pages (0x1000 + 4 * of_nat j) = of_nat (1048576 + 4096 * j) OR 1"
    "load32 demo_pages (0x1000 + 4 * of_nat j) = of_nat (1048576 + 4096 * j) OR 0"
    using fill_table_result(1) [of "0x1000" j "\<lambda>a. 0" "0x100000"] assms
    by (simp_all add: present_pages_def demo_pages_def mult.commute)
  have m: "(of_nat (1048576 + 4096 * j) OR 1 :: u32) AND 0xfffff000 = of_nat (1048576 + 4096 * j)"
    "(of_nat (1048576 + 4096 * j) OR 0 :: u32) AND 0xfffff000 = of_nat (1048576 + 4096 * j)"
    by (rule table_entry_masked [OF al], simp)+
  show "table_at present_pages 0x1000 j = table_at demo_pages 0x1000 j" unfolding table_at_def l m ..
  show "load32 present_pages (0x1000 + 4 * of_nat j) AND 1 \<noteq> 0"
  proof
    assume "load32 present_pages (0x1000 + 4 * of_nat j) AND 1 = 0"
    then have "bit ((of_nat (1048576 + 4096 * j) OR 1 :: u32) AND 1) 0 = bit (0 :: u32) 0" unfolding l by (simp only:)
    then show False by (simp add: bit_simps)
  qed
  have "load32 demo_pages (0x1000 + 4 * of_nat 0) = of_nat (1048576 + 4096 * 0) OR 0"
    using fill_table_result(1) [of "0x1000" 0 "\<lambda>a. 0" "0x100000" 0] by (simp add: demo_pages_def)
  then show "table_at demo_pages 0x1000 0 = 0x100000" by (simp add: table_at_def)
qed

lemma demo_strings_pages:
  "pagedir_ok (km_ram demo_strings) 0x1000" "directory_present (km_ram demo_strings) 0x1000"
  "page_mem (km_ram demo_strings) 0x1000 = page_mem demo_pages 0x1000"
  "i \<le> 2 \<Longrightarrow> page_present (km_ram demo_strings) 0x1000 (0x8000 + of_nat i)"
  "i \<le> 2 \<Longrightarrow> phys_of (km_ram demo_strings) 0x1000 (0x8000 + of_nat i) = 0x8000 + of_nat i"
proof -
  let ?m = "km_ram demo_strings"
  have e: "?m = (store32 present_pages 0x100020 0x8001)(0x8000 := 104, 0x8001 := 105)" by (simp add: demo_strings_def)
  have s1: "region 0x1000 4096 \<inter> region 0x100020 4 = ({} :: addr set)"
    using region_apart [of 0 4096 "0xFF020" 4 "0x1000"] by simp
  have n: "0x8000 \<notin> region (0x1000 :: addr) 4096" "0x8001 \<notin> region (0x1000 :: addr) 4096"
    "0x8000 \<notin> region (0x100020 :: addr) 4" "0x8001 \<notin> region (0x100020 :: addr) 4"
  proof -
    have z: "0x8000 \<in> region 0x8000 516" "0x8001 \<in> region 0x8000 516"
      using region_memI [of 0 516 "0x8000"] region_memI [of 1 516 "0x8000"] by simp_all
    then show "0x8000 \<notin> region (0x1000 :: addr) 4096" "0x8001 \<notin> region (0x1000 :: addr) 4096"
      using demo_argument_spots(1) by blast+
    show "0x8000 \<notin> region (0x100020 :: addr) 4" "0x8001 \<notin> region (0x100020 :: addr) 4"
      by (simp_all add: region_4)
  qed
  have d: "?m a = present_pages a" if "a \<in> region 0x1000 4096" for a
  proof -
    have "a \<notin> region 0x100020 4" "a \<noteq> 0x8000" "a \<noteq> 0x8001" using that s1 n by blast+
    then show ?thesis by (simp add: e store32_out)
  qed
  have ld: "load32 ?m (0x1000 + 4 * of_nat j) = load32 present_pages (0x1000 + 4 * of_nat j)" if "j < 1024" for j
    by (rule load32_cong, rule d) (use slot_in_page [OF that, of "0x1000"] in \<open>blast intro: region_memI\<close>)
  have t: "table_at ?m 0x1000 j = table_at demo_pages 0x1000 j" if "j < 1024" for j
    using table_at_same [OF d that] present_pages_tables(1) [OF that] by simp
  have "inj_on (table_at ?m 0x1000) {..<1024} \<longleftrightarrow> inj_on (table_at demo_pages 0x1000) {..<1024}"
    by (rule inj_on_cong) (use t in simp)
  then show "pagedir_ok ?m 0x1000" using demo_pages_ok t by (simp add: pagedir_ok_def)
  show "directory_present ?m 0x1000" using ld present_pages_tables(2) by (simp add: directory_present_def)
  show "page_mem ?m 0x1000 = page_mem demo_pages 0x1000" using t by (simp add: page_mem_def table_mem_def)
  assume i: "i \<le> 2"
  have u: "unat ((0x8000 :: addr) + of_nat i) = 0x8000 + i"
  proof -
    have "unat (of_nat i :: u32) = i" using i by (intro unat_of_nat_small) simp
    then show ?thesis using i by (subst unat_add_lem [THEN iffD1]) simp_all
  qed
  have ix: "dir_index (0x8000 + of_nat i) = 0" "tab_index (0x8000 + of_nat i) = 8"
    using i by (simp_all add: dir_index_def tab_index_def u)
  have sl: "slot_of ?m 0x1000 (0x8000 + of_nat i) = 0x100020"
    using t [of 0] present_pages_tables(3) [of 0] by (simp add: slot_of_def ix)
  have en: "entry_of 0x1000 ?m (0x8000 + of_nat i) = 0x8001"
  proof -
    have "load32 ?m 0x100020 = load32 (store32 present_pages 0x100020 0x8001) 0x100020"
      by (simp add: e load32_def)
    then show ?thesis by (simp add: entry_of_def sl)
  qed
  show "page_present ?m 0x1000 (0x8000 + of_nat i)"
    using ld [of 0] present_pages_tables(2) [of 0] by (simp add: page_present_def en ix)
  have "((0x8000 :: addr) + of_nat i) AND 0xfff = of_nat i" by (rule lower_page_in(2)) (use i in simp_all)
  then show "phys_of ?m 0x1000 (0x8000 + of_nat i) = 0x8000 + of_nat i" by (simp add: phys_of_def en)
qed

lemma demo_spare:
  assumes "km_heap s = demo_heap"
  shows "kmem_spare s \<subseteq> {a. 0x1000000 \<le> a}" "kmem_room s = 3" "kmem_ok s"
proof -
  have "kmem_spare s = kmem_spare demo_arguments"
    by (simp add: kmem_spare_def spare_in_def kmem_arena_def kmem_live_def assms demo_arguments_def demo_process_def blank_kernel_def)
  then show "kmem_spare s \<subseteq> {a. 0x1000000 \<le> a}" using demo_arguments_spare by simp
  show "kmem_room s = 3" by (simp add: kmem_room_def free_count_def assms demo_heap_def)
  show "kmem_ok s" by (simp add: kmem_ok_def assms demo_heap_wf)
qed

lemma copy_string_from_task_copies_witness:
  "\<exists>s'. copy_string_from_task demo_mmu demo_strings 16 0x8000 0x9000 100 = Inr (0, s') \<and>
     string_in (km_ram s') 0x9000 [104, 105]"
proof -
  let ?s = demo_strings and ?xs = "[104, 105] :: byte list"
  let ?c = "\<lparr>directory_entry = 0x1000, faults = 0, last_fault = 0\<rparr>" and ?t = "zero_task\<lparr>tk_page_directory := 4096\<rparr>"
  have h: "km_heap ?s = demo_heap" by (simp add: demo_strings_def demo_process_def blank_kernel_def)
  note sp = demo_spare [OF h]
  have k: "is_kernel_page ?s = Inr True"
    by (simp add: is_kernel_page_def kernel_get_page_directory_def demo_strings_def demo_process_def deref_Some)
  have t: "tasks ?s 16 = Some ?t" "chunks ?s (tk_page_directory ?t) = Some ?c" "directory_entry ?c = 0x1000"
    by (simp_all add: demo_strings_def demo_process_def)
  have P: "page_mem (km_ram ?s) 0x1000 \<subseteq> region 0x1000 4096 \<union> region 0x100000 (1024 * 4096)"
    using demo_strings_pages(3) demo_page_mem by simp
  have sep: "page_mem (km_ram ?s) 0x1000 \<inter> kmem_spare ?s = {}" using P sp(1) demo_argument_spots(4) by blast
  have us: "user_string (km_ram ?s) 0x1000 0x8000 ?xs"
  proof -
    have "km_ram ?s (0x8000 + of_nat i) = (?xs @ [0]) ! i" if "i \<le> 2" for i
    proof -
      have z: "present_pages 0x8002 = 0"
      proof -
        have "0x8002 \<in> region 0x8000 516" using region_memI [of 2 516 "0x8000"] by simp
        then have "0x8002 \<notin> region 0x1000 4096" using demo_argument_spots(1) by blast
        then show ?thesis using fill_table_result(2) [of "0x1000" "0x8002" "\<lambda>a. 0" "0x100000" 1] by (simp add: present_pages_def)
      qed
      have "i = 0 \<or> i = 1 \<or> i = 2" using that by linarith
      then show ?thesis by (auto simp: demo_strings_def z store32_def)
    qed
    then show ?thesis using demo_strings_pages(4,5) by (simp add: user_string_def)
  qed
  have in8: "0x8000 + of_nat i \<in> region 0x8000 516" if "i \<le> 2" for i using that by (intro region_memI) simp
  have v: "\<forall>i\<le>length ?xs. 0x8000 + of_nat i \<notin> kmem_spare ?s"
  proof (intro allI impI)
    fix i :: nat assume "i \<le> length ?xs"
    then have "(0x8000 :: addr) + of_nat i \<in> region 0x8000 516" by (intro in8) simp
    then have "\<not> 0x1000000 \<le> (0x8000 :: addr) + of_nat i" using demo_argument_spots(3) by blast
    then show "0x8000 + of_nat i \<notin> kmem_spare ?s" using sp(1) by blast
  qed
  have a8: "region 0x8000 516 \<inter> kmem_spare ?s = {}" "region 0x9000 516 \<inter> kmem_spare ?s = {}"
    using sp(1) demo_argument_spots(3) by blast+
  have b8: "region 0x8000 516 \<inter> page_mem (km_ram ?s) 0x1000 = {}" using P demo_argument_spots(1) by blast
  have b9: "region 0x9000 516 \<inter> page_mem (km_ram ?s) 0x1000 = {}" using P demo_argument_spots(2) by blast
  have "user_bytes (km_ram ?s) 0x1000 0x8000 (Suc (length ?xs)) \<subseteq> region 0x8000 516"
    using in8 demo_strings_pages(5) by (auto simp: user_bytes_def)
  then have ub: "user_bytes (km_ram ?s) 0x1000 0x8000 (Suc (length ?xs)) \<inter> (kmem_spare ?s \<union> page_mem (km_ram ?s) 0x1000) = {}"
    using a8(1) b8 by blast
  have "region (0x9000 :: addr) 100 \<subseteq> region 0x9000 516" by (rule region_mono) simp
  then have ds: "region 0x9000 100 \<inter> (kmem_spare ?s \<union> page_mem (km_ram ?s) 0x1000) = {}"
    using a8(2) b9 by blast
  have room: "0 < kmem_room ?s" using sp(2) by simp
  have n: "length ?xs < 100" "(100 :: nat) < 4096" "unat (0x9000 :: addr) + 100 \<le> 2 ^ 32" by simp_all
  obtain s' where "copy_string_from_task demo_mmu ?s 16 0x8000 0x9000 (int 100) = Inr (0, s')" "string_in (km_ram s') 0x9000 ?xs"
    using copy_string_from_task_copies [OF demo_mmu_translates k sp(3) room t demo_strings_pages(1,2) sep us v ub n(1,2) ds n(3)]
    by blast
  then show ?thesis by auto
qed

end
