(* ===== verification/Symbol_Table.thy ===== *)
theory Symbol_Table
  imports Task_Copy
begin

text \<open>
  The tables of loaded libraries and of their symbols (\<open>src/loader/library.c\<close>) as what they stand
  for: a library has a list of symbols, names with their two addresses, and a lookup is the lookup of
  that list; the libraries are a list of names, a new one comes last, and a lookup finds the first.
\<close>

section \<open>The symbols of a library\<close>

definition symbol_at :: "ram \<Rightarrow> addr \<Rightarrow> byte list \<times> addr \<times> addr" where
  "symbol_at m p = (text_at m p 256, symbol_phys m p, symbol_virt m p)"

definition array_symbols :: "ram \<Rightarrow> carray \<Rightarrow> (byte list \<times> addr \<times> addr) list" where
  "array_symbols m arr = map (\<lambda>i. symbol_at m (array_get_index arr (int i))) [0..<unat (arr_total arr)]"

definition symbol_array :: "'a kstate_scheme \<Rightarrow> addr \<Rightarrow> carray option" where
  "symbol_array s library = Option.bind (libraries s library) (\<lambda>l. carrays s (lib_symbols l))"

definition library_symbols :: "'a kstate_scheme \<Rightarrow> addr \<Rightarrow> (byte list \<times> addr \<times> addr) list" where
  "library_symbols s library = (case symbol_array s library of None \<Rightarrow> [] | Some arr \<Rightarrow> array_symbols (km_ram s) arr)"

text \<open>A library whose array of symbols is sound: its elements lie in one block of the heap.\<close>

definition symbols_ok :: "'a kstate_scheme \<Rightarrow> addr \<Rightarrow> bool" where
  "symbols_ok s library \<longleftrightarrow> kmem_ok s \<and>
     (\<exists>arr. symbol_array s library = Some arr \<and> array_ok s arr \<and> e_sz arr = 268 \<and> unat (arr_total arr) < 2 ^ 22)"

lemma load32_bytes:
  assumes "read_bytes m p n = read_bytes m' q n" "k + 4 \<le> n"
  shows "load32 m (p + of_nat k) = load32 m' (q + of_nat k)"
proof (rule load32_cong)
  fix i :: nat assume "i < 4"
  then have "read_bytes m p n ! (k + i) = read_bytes m' q n ! (k + i)" "k + i < n" using assms by simp_all
  then show "m (p + of_nat k + of_nat i) = m' (q + of_nat k + of_nat i)" by (simp add: add.assoc)
qed

lemma symbol_at_cong:
  assumes "read_bytes m p 268 = read_bytes m' q 268"
  shows "symbol_at m p = symbol_at m' q"
  using text_at_cong [OF assms, of 256] load32_bytes [OF assms, of 256] load32_bytes [OF assms, of 260]
  by (simp add: symbol_at_def symbol_phys_def symbol_virt_def)

text \<open>Lookup in the array is the lookup of the first symbol of that name.\<close>

lemma map_of_map_find: "map_of (map (\<lambda>j. (f j, g j)) xs) k = map_option g (find (\<lambda>j. f j = k) xs)"
  by (induction xs) auto

lemma symbol_loop_find:
  "symbol_loop m arr v i k =
     (case find (\<lambda>j. text_at m (array_get_index arr (int j)) 256 = view_text v 256) [i..<i + k] of
        None \<Rightarrow> 0 | Some j \<Rightarrow> array_get_index arr (int j))"
proof (induction k arbitrary: i)
  case (Suc k)
  have u: "[i..<i + Suc k] = i # [Suc i..<Suc i + k]" by (simp add: upt_conv_Cons)
  show ?case
    unfolding u using Suc.IH [of "Suc i"] by (simp add: Let_def strncmp_text text_at_view)
qed simp

lemma array_element_not_null:
  assumes "kmem_ok s" "array_ok s arr" "0 < unat (e_sz arr)" "i < unat (arr_total arr)"
  shows "array_get_index arr (int i) \<noteq> 0"
proof -
  have a0: "arr_ptr arr \<noteq> 0" using assms(2,4) by (auto simp: array_ok_def)
  then obtain n where n: "(arr_ptr arr, n) \<in> kmem_live s" "unat (e_sz arr) * unat (arr_total arr) \<le> n"
    using assms(2) by (auto simp: array_ok_def)
  have nw: "unat (arr_ptr arr) + n < 2 ^ 32" by (rule kernel_blocks.live_no_wrap [OF assms(1) n(1)])
  have le: "unat (e_sz arr) * i \<le> n" using assms(4) n(2) by (meson le_trans less_imp_le_nat mult_le_mono2)
  have "unat (of_nat (unat (e_sz arr) * i) :: u32) = unat (e_sz arr) * i"
    using nw le by (intro unat_of_nat_small) linarith
  moreover have "unat (arr_ptr arr) + unat (e_sz arr) * i < 2 ^ LENGTH(32)" using nw le by simp
  ultimately have "unat (arr_ptr arr + of_nat (unat (e_sz arr) * i)) = unat (arr_ptr arr) + unat (e_sz arr) * i"
    by (metis unat_add_lem)
  moreover have "0 < unat (arr_ptr arr)" using a0 by (simp add: unat_gt_0)
  ultimately show ?thesis unfolding array_elem_address by (metis add_gr_0 less_numeral_extra(3) unat_0)
qed

lemma symbol_lookup_result:
  assumes "symbols_ok s library"
  shows "\<exists>q. library_get_symbol_by_name s library v = Inr q \<and>
    map_of (library_symbols s library) (view_text v 256) =
      (if q = 0 then None else Some (symbol_phys (km_ram s) q, symbol_virt (km_ram s) q))"
proof -
  obtain arr where a: "symbol_array s library = Some arr" "array_ok s arr" "e_sz arr = 268" "kmem_ok s"
    "unat (arr_total arr) < 2 ^ 22"
    using assms by (auto simp: symbols_ok_def)
  then obtain l where l: "libraries s library = Some l" "carrays s (lib_symbols l) = Some arr"
    by (auto simp: symbol_array_def bind_eq_Some_conv)
  let ?t = "unat (arr_total arr)" and ?x = "\<lambda>j. array_get_index arr (int j)"
  define r where "r = find (\<lambda>j. text_at (km_ram s) (?x j) 256 = view_text v 256) [0..<?t]"
  have "sint (arr_total arr) = int ?t" using a(5) by (intro sint_int_unat) simp
  then have "nat (sint (array_total arr)) = ?t" by (simp only: array_total_def nat_int)
  then have g: "library_get_symbol_by_name s library v = Inr (case r of None \<Rightarrow> 0 | Some j \<Rightarrow> ?x j)"
    using l by (simp add: library_get_symbol_by_name_def deref_Some symbol_loop_find r_def)
  have "map_of (library_symbols s library) (view_text v 256) =
      map_option (\<lambda>j. (symbol_phys (km_ram s) (?x j), symbol_virt (km_ram s) (?x j))) r"
    by (simp add: library_symbols_def a(1) array_symbols_def symbol_at_def map_of_map_find r_def)
  moreover have "?x j \<noteq> 0" if "r = Some j" for j
    using array_element_not_null [OF a(4,2)] that by (auto simp: a(3) r_def find_Some_iff)
  ultimately show ?thesis using g by (cases r) auto
qed

section \<open>Entering a symbol\<close>

definition symbol_local :: "ram \<Rightarrow> addr \<Rightarrow> addr \<Rightarrow> addr \<Rightarrow> addr \<Rightarrow> addr \<Rightarrow> ram" where
  "symbol_local m library local nme phys virt =
     store32 (store32 (strncpy (store32 m (local + 264) library) local nme 256) (local + 256) phys) (local + 260) virt"

lemma region_word: "k + n \<le> 268 \<Longrightarrow> region (p + of_nat k) n \<subseteq> region p 268"
  by (rule region_sub)

lemma symbol_local_result:
  assumes "string_in m nme xs" "length xs < 256" "region local 268 \<inter> region nme 256 = {}" "unat local + 268 \<le> 2 ^ 32"
  shows "symbol_at (symbol_local m library local nme phys virt) local = (xs, phys, virt)"
    and "a \<notin> region local 268 \<Longrightarrow> symbol_local m library local nme phys virt a = m a"
proof -
  let ?m1 = "store32 m (local + 264) library"
  let ?m2 = "strncpy ?m1 local nme 256"
  let ?m3 = "store32 ?m2 (local + 256) phys"
  have r: "region (local + 256) 4 \<subseteq> region local 268" "region (local + 260) 4 \<subseteq> region local 268"
    "region (local + 264) 4 \<subseteq> region local 268" "region local 256 \<subseteq> region local 268"
    using region_word [of 256 4 local] region_word [of 260 4 local] region_word [of 264 4 local]
      region_mono [of 256 268 local] by simp_all
  have m1: "?m1 a = m a" if "a \<notin> region local 268" for a
    using that r(3) by (intro store32_out) blast
  have src: "?m1 (nme + of_nat i) = m (nme + of_nat i)" if "i \<le> length xs" for i
  proof (rule m1)
    have "nme + of_nat i \<in> region nme 256" using that assms(2) by (intro region_memI) simp
    with assms(3) show "nme + of_nat i \<notin> region local 268" by blast
  qed
  have s1: "string_in ?m1 nme xs" by (rule string_in_frame [OF assms(1) src])
  have d: "region local 256 \<inter> region nme 256 = {}" using r(4) assms(3) by blast
  have l: "unat local + 256 \<le> 2 ^ 32" using assms(4) by simp
  note cp = strncpy_string [OF string_in_cstr [OF s1] conjunct1 [OF string_in_nth [OF s1]] assms(2) d l]
  have m2: "string_in ?m2 local xs" using cp(1) by simp
  have off: "region (local + 256) 4 \<inter> region local 256 = {}" "region (local + 260) 4 \<inter> region local 256 = {}"
    "region (local + 256) 4 \<inter> region (local + 260) 4 = {}"
    using region_apart [of 0 256 256 4 local] region_apart [of 0 256 260 4 local] region_apart [of 256 4 260 4 local]
    by (auto simp: Int_commute)
  have keep: "symbol_local m library local nme phys virt (local + of_nat i) = ?m2 (local + of_nat i)"
    if "i \<le> length xs" for i
  proof -
    have "local + of_nat i \<in> region local 256" using that assms(2) by (intro region_memI) simp
    then have "local + of_nat i \<notin> region (local + 256) 4" "local + of_nat i \<notin> region (local + 260) 4"
      using off(1,2) by blast+
    then show ?thesis by (simp add: symbol_local_def store32_out)
  qed
  have "string_in (symbol_local m library local nme phys virt) local xs"
    by (rule string_in_frame [OF m2 keep])
  then have "text_at (symbol_local m library local nme phys virt) local 256 = xs"
    by (rule text_at_string [OF _ assms(2)])
  moreover have "load32 (symbol_local m library local nme phys virt) (local + 256) = phys"
    unfolding symbol_local_def using off(3) by (subst load32_store32_disjoint) (auto simp: Int_commute)
  moreover have "load32 (symbol_local m library local nme phys virt) (local + 260) = virt"
    by (simp add: symbol_local_def)
  ultimately show "symbol_at (symbol_local m library local nme phys virt) local = (xs, phys, virt)"
    by (simp add: symbol_at_def symbol_phys_def symbol_virt_def)
  show "symbol_local m library local nme phys virt a = m a" if "a \<notin> region local 268"
  proof -
    have "a \<notin> region (local + 256) 4" "a \<notin> region (local + 260) 4" "a \<notin> region local 256"
      using that r by blast+
    then show ?thesis
      using cp(2) [of a] m1 [OF that] by (simp add: symbol_local_def store32_out)
  qed
qed

lemma array_insert_grants:
  assumes "kmalloc s (sint (e_sz arr * (arr_total arr + 1))) = Inr (p, u)"
  obtains s' where "array_insert s arr el = Inr (arr\<lparr>arr_ptr := p, arr_total := arr_total arr + 1\<rparr>, s')"
  using assms that by (simp add: array_insert_def kzalloc_def Let_def split: if_splits)

lemma kmalloc_ram_update: "kmalloc s sz = Inr (p, u) \<Longrightarrow> kmalloc (s\<lparr>km_ram := m\<rparr>) sz = Inr (p, u\<lparr>km_ram := m\<rparr>)"
  by (auto simp: kmalloc_Inr_iff)

lemma array_symbols_snoc:
  assumes "array_elems m' arr' = array_elems m arr @ [read_bytes m el 268]"
    and "e_sz arr = 268" "e_sz arr' = 268" "unat (arr_total arr') = Suc (unat (arr_total arr))"
  shows "array_symbols m' arr' = array_symbols m arr @ [symbol_at m el]"
proof -
  let ?t = "unat (arr_total arr)"
  have e: "read_bytes m' (array_get_index arr' (int i)) 268 =
      (if i < ?t then read_bytes m (array_get_index arr (int i)) 268 else read_bytes m el 268)" if "i < Suc ?t" for i
  proof -
    have "array_elems m' arr' ! i = (array_elems m arr @ [read_bytes m el 268]) ! i" by (simp only: assms(1))
    then show ?thesis using that assms(2-4) by (auto simp: array_elems_def nth_append less_Suc_eq)
  qed
  have "map (\<lambda>i. symbol_at m' (array_get_index arr' (int i))) [0..<?t] =
      map (\<lambda>i. symbol_at m (array_get_index arr (int i))) [0..<?t]"
    using e by (intro map_cong [OF refl] symbol_at_cong) simp
  moreover have "symbol_at m' (array_get_index arr' (int ?t)) = symbol_at m el"
    using e [of ?t] by (intro symbol_at_cong) simp
  ultimately show ?thesis by (simp add: array_symbols_def assms(4))
qed

lemma array_symbols_frame:
  assumes "array_ok s arr" "e_sz arr = 268" "\<And>p n a. (p, n) \<in> kmem_live s \<Longrightarrow> a \<in> region p n \<Longrightarrow> m a = km_ram s a"
  shows "array_symbols m arr = array_symbols (km_ram s) arr" "array_elems m arr = array_elems (km_ram s) arr"
proof -
  have "read_bytes m (array_get_index arr (int i)) 268 = read_bytes (km_ram s) (array_get_index arr (int i)) 268"
    if "i < unat (arr_total arr)" for i
  proof (rule read_bytes_cong)
    have a0: "arr_ptr arr \<noteq> 0" using assms(1) that by (auto simp: array_ok_def)
    then obtain n where n: "(arr_ptr arr, n) \<in> kmem_live s" "268 * unat (arr_total arr) \<le> n"
      using assms(1,2) by (auto simp: array_ok_def)
    have "268 * i + 268 \<le> n" using that n(2) by linarith
    then have "region (array_get_index arr (int i)) 268 \<subseteq> region (arr_ptr arr) n"
      unfolding array_elem_address assms(2) by (intro region_sub) simp
    then show "m a = km_ram s a" if "a \<in> region (array_get_index arr (int i)) 268" for a
      using assms(3) [OF n(1)] that by blast
  qed
  then show "array_symbols m arr = array_symbols (km_ram s) arr" "array_elems m arr = array_elems (km_ram s) arr"
    unfolding array_symbols_def array_elems_def assms(2) by (auto intro!: symbol_at_cong)
qed

lemma symbols_ok_array:
  assumes "symbols_ok s library"
  obtains l arr where "libraries s library = Some l" "carrays s (lib_symbols l) = Some arr"
    "symbol_array s library = Some arr" "array_ok s arr" "e_sz arr = 268" "kmem_ok s" "unat (arr_total arr) < 2 ^ 22"
  using assms by (auto simp: symbols_ok_def symbol_array_def bind_eq_Some_conv)

lemma length_library_symbols:
  "symbol_array s library = Some arr \<Longrightarrow> length (library_symbols s library) = unat (arr_total arr)"
  by (simp add: library_symbols_def array_symbols_def)

lemma heap_sound:
  "km_heap s' = km_heap s \<Longrightarrow> kmem_ok s' = kmem_ok s"
  "km_heap s' = km_heap s \<Longrightarrow> array_ok s' arr = array_ok s arr"
  by (auto simp: kmem_ok_def array_ok_def kmem_live_def)

text \<open>The block that an insertion takes is not in use before it.\<close>

lemma new_block_spare:
  assumes "kmem_ok s" "kmalloc s sz = Inr (p, u)" "p \<noteq> 0" "kmem_live u = insert (p, n) (kmem_live s)"
    "\<forall>(q, k) \<in> kmem_live s. region p n \<inter> region q k = {}"
  shows "region p n \<subseteq> kmem_spare s"
proof -
  have "kmalloc s sz = kmalloc s (sint (word_of_int sz :: u32))" by (simp add: kmalloc_def)
  then obtain w :: u32 where w: "kmalloc s sz = kmalloc s (sint w)" by blast
  have "kmem_arena u = kmem_arena s" using kernel_blocks.alloc_arena [OF assms(1)] assms(2) w by metis
  moreover have "region p n \<subseteq> kmem_arena u"
    by (rule kernel_blocks.live_arena [OF kmem_ok_kmalloc [OF assms(1,2)]]) (simp add: assms(4))
  ultimately show ?thesis using assms(5) by (fastforce simp: kmem_spare_def spare_in_def)
qed

lemma library_new_symbol_result:
  fixes s :: "'a kstate_scheme"
  assumes "symbols_ok s library" "length (library_symbols s library) < 2 ^ 22 - 1"
    and "string_in (km_ram s) nme xs" "length xs < 256"
    and "region local 268 \<inter> region nme 256 = {}" "unat local + 268 \<le> 2 ^ 32" "region local 268 \<inter> kmem_arena s = {}"
    and "kmalloc s (268 * (int (length (library_symbols s library)) + 1)) = Inr (p, u)" "p \<noteq> 0"
  obtains s' where "library_new_symbol s library local nme phys virt = Inr (0, s')" "symbols_ok s' library"
    "library_symbols s' library = library_symbols s library @ [(xs, phys, virt)]"
    "libraries s' = libraries s" "\<And>q. q \<noteq> lib_symbols (the (libraries s library)) \<Longrightarrow> carrays s' q = carrays s q"
    "km_heap s' = km_heap u" "\<And>a. a \<notin> region local 268 \<union> kmem_spare s \<Longrightarrow> km_ram s' a = km_ram s a"
proof -
  obtain l arr where a: "libraries s library = Some l" "carrays s (lib_symbols l) = Some arr"
    "symbol_array s library = Some arr" "array_ok s arr" "e_sz arr = 268" "kmem_ok s" "unat (arr_total arr) < 2 ^ 22"
    by (rule symbols_ok_array [OF assms(1)])
  let ?t = "arr_total arr" and ?m = "symbol_local (km_ram s) library local nme phys virt"
  let ?s = "s\<lparr>km_ram := ?m\<rparr>"
  have t: "length (library_symbols s library) = unat ?t" by (rule length_library_symbols [OF a(3)])
  have "unat ?t < 4194303" using assms(2) t by simp
  then have sz: "unat (e_sz arr) * (unat ?t + 1) < 2 ^ 31" by (simp add: a(5))
  have e0: "0 < unat (e_sz arr)" by (simp add: a(5))
  note w = array_sizes [OF sz e0]
  have req: "sint (e_sz arr * (?t + 1)) = 268 * (int (length (library_symbols s library)) + 1)"
    by (simp only: w(4) t) (simp add: a(5))
  have len: "strlen (str_at (km_ram s) nme) = Some (length xs)"
    using string_in_cstr [OF assms(3)] by (simp add: strlen_eq_iff)
  have "kmalloc s (sint (e_sz arr * (?t + 1))) = Inr (p, u)" using assms(8) by (simp only: req)
  note k = kmalloc_ram_update [OF this, of ?m]
  obtain s1 where ins: "array_insert ?s arr local = Inr (arr\<lparr>arr_ptr := p, arr_total := ?t + 1\<rparr>, s1)"
    by (rule array_insert_grants [OF k])
  let ?arr = "arr\<lparr>arr_ptr := p, arr_total := ?t + 1\<rparr>"
  have ok: "kmem_ok ?s" using a(6) by simp
  have aok: "array_ok ?s arr" using a(4) by (auto simp: array_ok_def kmem_live_def)
  have live: "kmem_live ?s = kmem_live s" by (simp add: kmem_live_def)
  obtain n where n: "kmem_live (u\<lparr>km_ram := ?m\<rparr>) = insert (p, n) (kmem_live ?s)"
    "\<forall>(q, j) \<in> kmem_live ?s. region p n \<inter> region q j = {}"
    using kernel_memory.alloc_live [OF ok k assms(9)] by auto
  have sp: "region p n \<subseteq> kmem_spare s" if "kmem_live u = insert (p, n) (kmem_live s)"
      "\<forall>(q, j) \<in> kmem_live s. region p n \<inter> region q j = {}" for n
    using new_block_spare [OF a(6) assms(8,9) that] .
  have heap: "km_heap s1 = km_heap u"
    using ins k by (auto simp: array_insert_def Let_def bindE_Inr_iff kzalloc_Inr_iff)
  have live1: "kmem_live s1 = kmem_live u" by (simp add: kmem_live_def heap)
  have "region p n \<inter> region local (unat (e_sz arr)) = {}" if "kmem_live s1 = insert (p, n) (kmem_live ?s)"
      "\<forall>(q, j) \<in> kmem_live ?s. region p n \<inter> region q j = {}" for n
    using sp [of n] that assms(7) by (auto simp: live live1 a(5) kmem_spare_def spare_in_def)
  then have "kmem_ok s1 \<and> array_ok s1 ?arr \<and>
    (\<exists>n. kmem_live s1 = insert (p, n) (kmem_live s) \<and> (\<forall>(q, k) \<in> kmem_live s. region p n \<inter> region q k = {}) \<and>
      (\<forall>a. a \<notin> region p n \<longrightarrow> km_ram s1 a = ?m a)) \<and> kmem.more s1 = kmem.more s \<and>
    array_elems (km_ram s1) ?arr = array_elems ?m arr @ [read_bytes ?m local 268]"
    using array_insert_result [OF ok aok e0 sz ins] assms(9) by (simp add: live a(5))
  then obtain n where r: "kmem_ok s1" "array_ok s1 ?arr" "kmem_live s1 = insert (p, n) (kmem_live s)"
    "\<forall>(q, k) \<in> kmem_live s. region p n \<inter> region q k = {}" "\<And>a. a \<notin> region p n \<Longrightarrow> km_ram s1 a = ?m a"
    "kmem.more s1 = kmem.more s" "array_elems (km_ram s1) ?arr = array_elems ?m arr @ [read_bytes ?m local 268]"
    by blast
  note loc = symbol_local_result [OF assms(3-6), where library = library and phys = phys and virt = virt]
  have arena: "region q k \<inter> region local 268 = {}" if "(q, k) \<in> kmem_live s" for q k
    using kernel_blocks.live_arena [OF a(6) that] assms(7) by blast
  have old: "array_symbols ?m arr = array_symbols (km_ram s) arr"
    by (rule array_symbols_frame [OF a(4,5)]) (use arena in \<open>auto intro!: loc(2)\<close>)
  have "array_symbols (km_ram s1) ?arr = array_symbols ?m arr @ [symbol_at ?m local]"
    by (rule array_symbols_snoc [OF r(7)]) (simp_all add: a(5) w(2))
  then have syms: "array_symbols (km_ram s1) ?arr = array_symbols (km_ram s) arr @ [(xs, phys, virt)]"
    by (simp only: old loc(1))
  let ?s' = "s1\<lparr>carrays := (carrays s1)(lib_symbols l \<mapsto> ?arr)\<rparr>"
  obtain h m where s1: "s1 = s\<lparr>km_heap := h, km_ram := m\<rparr>" by (rule kmem_more_frame [OF r(6)])
  have sa: "symbol_array ?s' library = Some ?arr" by (simp add: symbol_array_def s1 a(1))
  show ?thesis
  proof (rule that [of ?s'])
    show "library_new_symbol s library local nme phys virt = Inr (0, ?s')"
      using ins a(1,2) assms(4)
      by (simp add: library_new_symbol_def len returns_def library_insert_symbol_def insert_element_def deref_Some
          Let_def symbol_local_def)
    have "unat (?t + 1) < 2 ^ 22" using \<open>unat ?t < 4194303\<close> by (simp add: w(2))
    then show "symbols_ok ?s' library"
      using r(1,2) heap_sound [of ?s' s1] unfolding symbols_ok_def by (intro conjI exI [of _ ?arr] sa) (simp_all add: a(5))
    show "library_symbols ?s' library = library_symbols s library @ [(xs, phys, virt)]"
      using syms by (simp add: library_symbols_def sa a(3))
    show "libraries ?s' = libraries s" "km_heap ?s' = km_heap u" using heap by (simp_all add: s1)
    show "carrays ?s' q = carrays s q" if "q \<noteq> lib_symbols (the (libraries s library))" for q
      using that by (simp add: a(1) s1)
    show "km_ram ?s' a = km_ram s a" if "a \<notin> region local 268 \<union> kmem_spare s" for a
      using that r(5) [of a] loc(2) [of a] sp [OF _ r(4)] r(3) by (auto simp: live1)
  qed
qed

section \<open>The list of libraries\<close>

fun library_chain :: "(addr \<Rightarrow> library option) \<Rightarrow> addr \<Rightarrow> addr list \<Rightarrow> bool" where
  "library_chain st p [] \<longleftrightarrow> p = 0"
| "library_chain st p (q # qs) \<longleftrightarrow> p = q \<and> q \<noteq> 0 \<and> (\<exists>l. st q = Some l \<and> library_chain st (lib_next l) qs)"

definition library_list :: "'a kstate_scheme \<Rightarrow> addr list \<Rightarrow> bool" where
  "library_list s ls \<longleftrightarrow> library_chain (libraries s) (library_head s) ls \<and> distinct ls \<and>
     (ls \<noteq> [] \<longrightarrow> library_tail s = last ls) \<and> (\<forall>p \<in> set ls. (p, 4096) \<in> kmem_live s)"

definition library_name :: "'a kstate_scheme \<Rightarrow> addr \<Rightarrow> byte list" where
  "library_name s p = text_at (km_ram s) p 256"

lemma library_walk_find:
  assumes "library_chain (libraries s) p ls"
  shows "library_walk s v p =
    Some (Inr (case find (\<lambda>q. library_name s q = view_text v 256) ls of None \<Rightarrow> 0 | Some q \<Rightarrow> q))"
  using assms
proof (induction ls arbitrary: p)
  case Nil
  then show ?case by (subst library_walk.simps) simp
next
  case (Cons q qs)
  then show ?case
    by (subst library_walk.simps) (auto simp: strncmp_text library_name_def text_at_view deref_Some)
qed

lemma library_get_result:
  assumes "library_list s ls"
  shows "library_get s v =
    Inr (case find (\<lambda>q. library_name s q = view_text v 256) ls of None \<Rightarrow> 0 | Some q \<Rightarrow> q)"
  using assms library_walk_find [of s "library_head s" ls v] by (simp add: library_get_def library_list_def ran_def)

lemma library_chain_frame:
  "(\<And>q. q \<in> set ls \<Longrightarrow> st' q = st q) \<Longrightarrow> library_chain st' p ls = library_chain st p ls"
  by (induction ls arbitrary: p) auto

lemma library_chain_snoc:
  assumes "library_chain st p ls" "distinct (ls @ [q])" "ls \<noteq> []" "st (last ls) = Some t" "q \<noteq> 0"
    and "st' q = Some l" "lib_next l = 0" "st' (last ls) = Some (t\<lparr>lib_next := q\<rparr>)"
    and "\<And>r. r \<in> set (butlast ls) \<Longrightarrow> st' r = st r"
  shows "library_chain st' p (ls @ [q])"
  using assms
proof (induction ls arbitrary: p)
  case (Cons a as)
  show ?case
  proof (cases as)
    case Nil
    then show ?thesis using Cons.prems by auto
  next
    case (Cons b bs)
    obtain u where u: "st a = Some u" "p = a" "a \<noteq> 0" "library_chain st (lib_next u) as"
      using Cons.prems(1) by auto
    have "library_chain st' (lib_next u) (as @ [q])"
      by (rule Cons.IH [OF u(4)]) (use Cons.prems Cons in auto)
    moreover have "st' a = Some u" using Cons.prems(9) [of a] Cons u(1) by simp
    ultimately show ?thesis using u(2,3) by auto
  qed
qed simp

lemma library_list_tail: "library_list s ls \<Longrightarrow> ls \<noteq> [] \<Longrightarrow> \<exists>t. libraries s (last ls) = Some t"
proof -
  have "library_chain st p ls \<Longrightarrow> ls \<noteq> [] \<Longrightarrow> \<exists>t. st (last ls) = Some t" for st p
    by (induction ls arbitrary: p) auto
  then show "library_list s ls \<Longrightarrow> ls \<noteq> [] \<Longrightarrow> \<exists>t. libraries s (last ls) = Some t"
    by (simp add: library_list_def) blast
qed

lemma library_insert_result:
  assumes "library_list s ls" "q \<notin> set ls" "q \<noteq> 0" "libraries s q = Some l" "lib_next l = 0" "(q, 4096) \<in> kmem_live s"
  obtains s' where "library_insert s q = Inr s'" "library_list s' (ls @ [q])" "km_heap s' = km_heap s" "km_ram s' = km_ram s"
    "carrays s' = carrays s" "\<And>r. map_option lib_symbols (libraries s' r) = map_option lib_symbols (libraries s r)"
proof (cases "ls = []")
  case True
  then have "library_head s = 0" using assms(1) by (simp add: library_list_def)
  then have "library_insert s q = Inr (s\<lparr>library_head := q, library_tail := q\<rparr>)" by (simp add: library_insert_def)
  then show ?thesis
    by (rule that) (use True assms in \<open>simp_all add: library_list_def kmem_live_def\<close>)
next
  case False
  obtain t where t: "libraries s (last ls) = Some t" using library_list_tail [OF assms(1) False] by blast
  have h: "library_head s \<noteq> 0" "library_tail s = last ls" "library_chain (libraries s) (library_head s) ls" "distinct ls"
    using assms(1) False by (cases ls; simp add: library_list_def)+
  let ?s = "s\<lparr>libraries := (libraries s)(last ls \<mapsto> t\<lparr>lib_next := q\<rparr>), library_tail := q\<rparr>"
  have nl: "last ls \<noteq> q" "last ls \<in> set ls" using False assms(2) by auto
  have b: "r \<noteq> last ls" if "r \<in> set (butlast ls)" for r
    using that h(4) False by (metis append_butlast_last_id distinct_append disjoint_insert(1) empty_set list.simps(15))
  have "library_chain (libraries ?s) (library_head s) (ls @ [q])"
    by (rule library_chain_snoc [OF h(3) _ False t assms(3), where l = l]) (use assms(2,4,5) h(4) nl b in auto)
  moreover have "library_insert s q = Inr ?s" using h t by (simp add: library_insert_def deref_Some)
  ultimately show ?thesis
    using assms(1,2,6) h(4) t by (intro that [of ?s]) (auto simp: library_list_def kmem_live_def)
qed

lemma new_array_takes:
  fixes s :: "'a kstate_scheme"
  assumes "kmem_ok s" "0 < kmem_room s"
  obtains p s' where "new_array s k = Inr (p, s')" "takes s [p] s'"
    "carrays s' = (carrays s)(p \<mapsto> \<lparr>arr_total = 0, e_sz = k, arr_ptr = 0\<rparr>)" "libraries s' = libraries s"
    "library_head s' = library_head s" "library_tail s' = library_tail s"
proof -
  obtain p t where p: "kzalloc s 12 = Inr (p, t)" "takes s [p] t" "kmem.more t = kmem.more s"
    by (rule takes_kzalloc [OF assms, of 12]) simp_all
  obtain h m where t: "t = s\<lparr>km_heap := h, km_ram := m\<rparr>" by (rule kmem_more_frame [OF p(3)])
  have "p \<noteq> 0" using takes_nonnull [OF p(2)] by simp
  let ?s = "t\<lparr>carrays := (carrays t)(p \<mapsto> \<lparr>arr_total = 0, e_sz = k, arr_ptr = 0\<rparr>)\<rparr>"
  have "takes s [p] ?s" using p(2) takes_heap_cong [of ?s t s "[p]"] by simp
  moreover have "new_array s k = Inr (p, ?s)" using p(1) \<open>p \<noteq> 0\<close> by (simp add: new_array_def array_create_def)
  ultimately show ?thesis by (intro that [of p ?s]) (simp_all add: t)
qed

lemma library_new_result:
  fixes s :: "'a kstate_scheme"
  assumes "library_list s ls" "kmem_ok s" "2 < kmem_room s"
    and "string_in (km_ram s) nme xs" "length xs < 256" "region nme 256 \<inter> kmem_spare s = {}"
  obtains q a b s' where "library_new s nme = Inr (q, s')" "takes s [q, a, b] s'" "library_list s' (ls @ [q])"
    "q \<noteq> 0" "library_name s' q = xs" "symbols_ok s' q" "library_symbols s' q = []"
    "\<And>r. r \<in> set ls \<Longrightarrow> library_name s' r = library_name s r"
proof -
  obtain q s1 where q: "kzalloc s 268 = Inr (q, s1)" "takes s [q] s1" "kmem.more s1 = kmem.more s"
    by (rule takes_kzalloc [OF assms(2), of 268]) (use assms(3) in simp_all)
  obtain h m where s1: "s1 = s\<lparr>km_heap := h, km_ram := m\<rparr>" by (rule kmem_more_frame [OF q(3)])
  have "0 < kmem_room s1" using takes_room [OF q(2)] assms(3) by simp
  then obtain a s2 where a: "new_array s1 268 = Inr (a, s2)" "takes s1 [a] s2"
    "carrays s2 = (carrays s1)(a \<mapsto> \<lparr>arr_total = 0, e_sz = 268, arr_ptr = 0\<rparr>)" "libraries s2 = libraries s1"
    "library_head s2 = library_head s1" "library_tail s2 = library_tail s1"
    by (rule new_array_takes [OF takes_ok [OF q(2)]])
  have "0 < kmem_room s2" using takes_room [OF q(2)] takes_room [OF a(2)] assms(3) by simp
  then obtain b s3 where b: "new_array s2 276 = Inr (b, s3)" "takes s2 [b] s3"
    "carrays s3 = (carrays s2)(b \<mapsto> \<lparr>arr_total = 0, e_sz = 276, arr_ptr = 0\<rparr>)" "libraries s3 = libraries s2"
    "library_head s3 = library_head s2" "library_tail s3 = library_tail s2"
    by (rule new_array_takes [OF takes_ok [OF a(2)]])
  have t3: "takes s [q, a, b] s3" using takes_trans [OF takes_trans [OF q(2) a(2)] b(2)] by simp
  have ne: "distinct [q, a, b]" "q \<noteq> 0" using t3 by (simp_all add: takes_def)
  let ?l = "\<lparr>lib_sections = b, lib_symbols = a, lib_next = 0\<rparr>" and ?m = "strncpy (km_ram s3) q nme 256"
  let ?s4 = "s3\<lparr>libraries := (libraries s3)(q \<mapsto> ?l), km_ram := ?m\<rparr>"
  have qsp: "region q 4096 \<subseteq> kmem_spare s" using takes_region [OF t3] by simp
  have ram: "km_ram s3 x = km_ram s x" if "x \<notin> kmem_spare s" for x by (rule takes_ram [OF t3 that])
  have "km_ram s3 (nme + of_nat i) = km_ram s (nme + of_nat i)" if "i \<le> length xs" for i
  proof (rule ram)
    have "nme + of_nat i \<in> region nme 256" using that assms(5) by (intro region_memI) simp
    then show "nme + of_nat i \<notin> kmem_spare s" using assms(6) by blast
  qed
  then have src: "string_in (km_ram s3) nme xs" by (rule string_in_frame [OF assms(4)])
  have live: "(q, 4096) \<in> kmem_live s3" using takes_live [OF t3] by simp
  have q256: "region q 256 \<subseteq> region q 4096" by (rule region_mono) simp
  then have d: "region q 256 \<inter> region nme 256 = {}" using qsp assms(6) by blast
  have wrap: "unat q + 256 \<le> 2 ^ 32" using kernel_blocks.live_no_wrap [OF takes_ok [OF t3] live] by simp
  note cp = strncpy_string [OF string_in_cstr [OF src] conjunct1 [OF string_in_nth [OF src]] assms(5) d wrap]
  have nm: "text_at ?m q 256 = xs" using text_at_string [OF _ assms(5)] cp(1) by simp
  have t4: "takes s [q, a, b] ?s4"
  proof -
    have "?m x = km_ram s3 x" if "\<forall>c \<in> set [q, a, b]. x \<notin> region c 4096" for x
      using cp(2) [of x] that q256 by auto
    from takes_store [OF t3 this] have "takes s [q, a, b] (s3\<lparr>km_ram := ?m\<rparr>)" .
    then show ?thesis using takes_heap_cong [of ?s4 "s3\<lparr>km_ram := ?m\<rparr>" s "[q, a, b]"] by simp
  qed
  have old: "(r, 4096) \<in> kmem_live s" if "r \<in> set ls" for r using assms(1) that by (simp add: library_list_def)
  have fresh: "q \<notin> set ls" using old takes_new [OF t3, of q] by auto
  have libs: "library_list ?s4 ls"
  proof -
    have "library_chain ((libraries s3)(q \<mapsto> ?l)) (library_head s3) ls = library_chain (libraries s) (library_head s) ls"
      using fresh by (subst library_chain_frame [where st = "libraries s"]) (auto simp: b(4,5) a(4,5) s1)
    then show ?thesis using assms(1) takes_live [OF t4] by (simp add: library_list_def b(6) a(6) s1)
  qed
  obtain s5 where s5: "library_insert ?s4 q = Inr s5" "library_list s5 (ls @ [q])" "km_heap s5 = km_heap ?s4"
    "km_ram s5 = km_ram ?s4" "carrays s5 = carrays ?s4"
    "\<And>r. map_option lib_symbols (libraries s5 r) = map_option lib_symbols (libraries ?s4 r)"
    by (rule library_insert_result [OF libs fresh ne(2), where l = ?l]) (use takes_live [OF t4] in simp_all)
  have t5: "takes s [q, a, b] s5" using takes_heap_cong [OF s5(3,4)] t4 by blast
  have "strlen (str_at (km_ram s) nme) = Some (length xs)" using string_in_cstr [OF assms(4)] by (simp add: strlen_eq_iff)
  then have r: "library_new s nme = Inr (q, s5)"
    using assms(5) q(1) a(1) b(1) ne(2) s5(1) by (simp add: library_new_def returns_def Let_def)
  have "map_option lib_symbols (libraries s5 q) = Some a" using s5(6) [of q] by simp
  then have "symbol_array s5 q = carrays s5 a" by (auto simp: symbol_array_def)
  moreover have "carrays s5 a = Some \<lparr>arr_total = 0, e_sz = 268, arr_ptr = 0\<rparr>"
    using ne(1) by (simp add: s5(5) b(3) a(3))
  ultimately have sy: "symbol_array s5 q = Some \<lparr>arr_total = 0, e_sz = 268, arr_ptr = 0\<rparr>" by simp
  have keep: "library_name s5 r = library_name s r" if "r \<in> set ls" for r
  proof -
    have "read_bytes (km_ram s5) r 256 = read_bytes (km_ram s) r 256"
    proof (rule read_bytes_cong)
      fix x assume "x \<in> region r 256"
      then have "x \<in> region r 4096" using region_mono [of 256 4096 r] by auto
      then show "km_ram s5 x = km_ram s x" by (rule takes_keeps_live [OF t5 old [OF that]])
    qed
    then show ?thesis by (simp add: library_name_def text_at_def)
  qed
  show ?thesis
  proof (rule that [OF r t5 s5(2) ne(2)])
    show "library_name s5 q = xs" using nm by (simp add: library_name_def s5(4))
    show "symbols_ok s5 q" using takes_ok [OF t5] sy by (simp add: symbols_ok_def array_ok_def)
    show "library_symbols s5 q = []" by (simp add: library_symbols_def sy array_symbols_def)
  qed (rule keep)
qed

section \<open>Properties\<close>

lemma find_snoc: "find P (xs @ [y]) = (case find P xs of None \<Rightarrow> if P y then Some y else None | Some x \<Rightarrow> Some x)"
  by (induction xs) auto

lemma library_chain_not_null: "library_chain st p ls \<Longrightarrow> q \<in> set ls \<Longrightarrow> q \<noteq> 0"
  by (induction ls arbitrary: p) auto

text \<open>C23: A new library is found under its name: \<open>library_new\<close> enters it at the end of the list, with
  no symbols, and \<open>library_get\<close> then gives for every name what it gave before, or the new library where it
  had found nothing and the name is the new one (the first of two libraries of a name is kept).\<close>

theorem library_new_found:
  fixes s :: "'a kstate_scheme"
  assumes "library_list s ls" "kmem_ok s" "2 < kmem_room s"
    and "string_in (km_ram s) nme xs" "length xs < 256" "region nme 256 \<inter> kmem_spare s = {}"
  shows "\<exists>q s'. library_new s nme = Inr (q, s') \<and> q \<noteq> 0 \<and> library_list s' (ls @ [q]) \<and>
    symbols_ok s' q \<and> library_symbols s' q = [] \<and>
    (\<forall>v. \<exists>r. library_get s v = Inr r \<and> library_get s' v = Inr (if r = 0 \<and> view_text v 256 = xs then q else r))"
proof -
  obtain q a b s' where q: "library_new s nme = Inr (q, s')" "takes s [q, a, b] s'" "library_list s' (ls @ [q])"
    "q \<noteq> 0" "library_name s' q = xs" "symbols_ok s' q" "library_symbols s' q = []"
    "\<And>r. r \<in> set ls \<Longrightarrow> library_name s' r = library_name s r"
    by (rule library_new_result [OF assms]) (rule that)
  have "\<exists>r. library_get s v = Inr r \<and> library_get s' v = Inr (if r = 0 \<and> view_text v 256 = xs then q else r)" for v
  proof -
    let ?f = "\<lambda>s. find (\<lambda>r. library_name s r = view_text v 256)"
    have "?f s' ls = ?f s ls" by (rule find_cong [OF refl]) (simp add: q(8))
    then have n: "?f s' (ls @ [q]) = (case ?f s ls of None \<Rightarrow> if xs = view_text v 256 then Some q else None | Some x \<Rightarrow> Some x)"
      by (simp only: find_snoc q(5))
    have z: "x \<noteq> 0" if "?f s ls = Some x" for x
    proof -
      have "x \<in> set ls" using that by (auto simp: find_Some_iff)
      then show ?thesis using assms(1) library_chain_not_null unfolding library_list_def by blast
    qed
    show ?thesis
      using z unfolding library_get_result [OF assms(1)] library_get_result [OF q(3)] n by (cases "?f s ls") auto
  qed
  with q show ?thesis by blast
qed

lemma library_new_found_witness:
  "\<exists>q s'. library_new (blank_kernel\<lparr>km_ram := (\<lambda>a. 0)(0x8000 := 108, 0x8001 := 99)\<rparr>) 0x8000 = Inr (q, s') \<and> q \<noteq> 0 \<and>
     library_get s' (lit ''lc'') = Inr q \<and> library_get s' (lit ''l'') = Inr 0"
proof -
  let ?s = "blank_kernel\<lparr>km_ram := (\<lambda>a. 0)(0x8000 := 108, 0x8001 := 99)\<rparr>"
  have l: "library_list ?s []" by (simp add: library_list_def blank_kernel_def)
  have h: "km_heap ?s = demo_heap" by (simp add: blank_kernel_def)
  note sp = demo_spare [OF h]
  have str: "string_in (km_ram ?s) 0x8000 [108, 99]" by (rule string_inI) (auto simp: less_Suc_eq)
  have "region 0x8000 256 \<inter> {a. 0x1000000 \<le> (a :: addr)} = {}" by (rule region_below) simp
  then have far: "region 0x8000 256 \<inter> kmem_spare ?s = {}" using sp(1) by blast
  obtain q s' where r: "library_new ?s 0x8000 = Inr (q, s')" "q \<noteq> 0"
    "\<forall>v. \<exists>r. library_get ?s v = Inr r \<and> library_get s' v = Inr (if r = 0 \<and> view_text v 256 = [108, 99] then q else r)"
    using library_new_found [OF l sp(3) _ str _ far] sp(2) by auto
  have "library_get ?s v = Inr 0" for v using library_get_result [OF l] by simp
  moreover have "view_text (lit ''lc'') 256 = [108, 99]" "view_text (lit ''l'') 256 = [108]" by code_simp+
  ultimately show ?thesis using r(1,2) r(3) [rule_format, of "lit ''lc''"] r(3) [rule_format, of "lit ''l''"] by auto
qed

definition symbol_found :: "'a kstate_scheme \<Rightarrow> addr \<Rightarrow> cview \<Rightarrow> (addr \<times> addr) option \<Rightarrow> bool" where
  "symbol_found s library v r \<longleftrightarrow> (\<exists>q. library_get_symbol_by_name s library v = Inr q \<and>
     r = (if q = 0 then None else Some (symbol_phys (km_ram s) q, symbol_virt (km_ram s) q)))"

lemma symbol_found_iff: "symbols_ok s library \<Longrightarrow> symbol_found s library v r \<longleftrightarrow> r = map_of (library_symbols s library) (view_text v 256)"
  using symbol_lookup_result [of s library v] by (auto simp: symbol_found_def)

text \<open>C14: A new symbol is found under its name with the addresses it was given: when the heap has room
  for the table with one element more, \<open>library_new_symbol\<close> returns 0, and a lookup then finds what it
  found before, or the new symbol where it found nothing and the name is the new one; nothing that was in
  use has changed but the array's structure and the routine's own local structure.\<close>

theorem library_new_symbol_found:
  fixes s :: "'a kstate_scheme"
  assumes "symbols_ok s library" "length (library_symbols s library) < 2 ^ 22 - 1"
    and "string_in (km_ram s) nme xs" "length xs < 256"
    and "region local 268 \<inter> region nme 256 = {}" "unat local + 268 \<le> 2 ^ 32" "region local 268 \<inter> kmem_arena s = {}"
    and "kmalloc s (268 * (int (length (library_symbols s library)) + 1)) = Inr (p, u)" "p \<noteq> 0"
  shows "\<exists>s'. library_new_symbol s library local nme phys virt = Inr (0, s') \<and> symbols_ok s' library \<and>
    (\<forall>v. \<exists>r. symbol_found s library v r \<and>
       symbol_found s' library v (if r = None \<and> view_text v 256 = xs then Some (phys, virt) else r)) \<and>
    (\<forall>a. a \<notin> region local 268 \<union> kmem_spare s \<longrightarrow> km_ram s' a = km_ram s a)"
proof -
  obtain s' where r: "library_new_symbol s library local nme phys virt = Inr (0, s')" "symbols_ok s' library"
    "library_symbols s' library = library_symbols s library @ [(xs, phys, virt)]"
    "\<And>a. a \<notin> region local 268 \<union> kmem_spare s \<Longrightarrow> km_ram s' a = km_ram s a"
    by (rule library_new_symbol_result [OF assms, of phys virt]) (rule that)
  have "map_of (library_symbols s library @ [(xs, phys, virt)]) k =
      (if map_of (library_symbols s library) k = None \<and> k = xs then Some (phys, virt) else map_of (library_symbols s library) k)" for k
    by (cases "k = xs") (auto simp: map_add_def split: option.splits)
  then show ?thesis
    using r by (intro exI [of _ s'] conjI) (simp_all add: symbol_found_iff assms(1))
qed

definition demo_library :: kstate where
  "demo_library = blank_kernel\<lparr>km_ram := (\<lambda>a. 0)(0x8000 := 108, 0x8001 := 99),
     libraries := [0x500 \<mapsto> \<lparr>lib_sections = 0x600, lib_symbols = 0x700, lib_next = 0\<rparr>],
     carrays := [0x700 \<mapsto> \<lparr>arr_total = 0, e_sz = 268, arr_ptr = 0\<rparr>]\<rparr>"

lemma library_new_symbol_found_witness:
  "\<exists>s'. library_new_symbol demo_library 0x500 0x9000 0x8000 1 2 = Inr (0, s') \<and>
     symbol_found s' 0x500 (lit ''lc'') (Some (1, 2)) \<and> symbol_found s' 0x500 (lit ''l'') None"
proof -
  let ?s = demo_library
  have h: "km_heap ?s = demo_heap" by (simp add: demo_library_def blank_kernel_def)
  note sp = demo_spare [OF h]
  have sa: "symbol_array ?s 0x500 = Some \<lparr>arr_total = 0, e_sz = 268, arr_ptr = 0\<rparr>"
    by (simp add: symbol_array_def demo_library_def)
  have ok: "symbols_ok ?s 0x500" using sp(3) sa by (simp add: symbols_ok_def array_ok_def)
  have none: "library_symbols ?s 0x500 = []" by (simp add: library_symbols_def sa array_symbols_def)
  have str: "string_in (km_ram ?s) 0x8000 [108, 99]"
    unfolding demo_library_def by (rule string_inI) (auto simp: less_Suc_eq)
  have apart: "region 0x9000 268 \<inter> region 0x8000 256 = {}"
    using region_apart [of 0 256 "0x1000" 268 "0x8000"] by (simp add: Int_commute)
  have "kmem_arena ?s = region 0x1000000 (4096 * 3)" by (simp add: kmem_arena_def heap_arena_def h demo_heap_def)
  then have far: "region 0x9000 268 \<inter> kmem_arena ?s = {}"
    using region_apart [of 0 268 "0xFF7000" "4096 * 3" "0x9000"] by simp
  have "heap_malloc demo_heap 268 = Inr (0x1000000, take_blocks demo_heap 0 1)" by code_simp
  then have k: "kmalloc ?s (268 * (int (length (library_symbols ?s 0x500)) + 1)) = Inr (0x1000000, ?s\<lparr>km_heap := take_blocks demo_heap 0 1\<rparr>)"
    by (simp add: none kmalloc_def h)
  obtain s' where r: "library_new_symbol ?s 0x500 0x9000 0x8000 1 2 = Inr (0, s')"
    "\<forall>v. \<exists>r. symbol_found ?s 0x500 v r \<and>
       symbol_found s' 0x500 v (if r = None \<and> view_text v 256 = [108, 99] then Some (1, 2) else r)"
    using library_new_symbol_found [OF ok _ str _ apart _ far k, of 1 2] none by auto
  have "symbol_found ?s 0x500 v r \<longleftrightarrow> r = None" for v r using symbol_found_iff [OF ok] none by simp
  moreover have "view_text (lit ''lc'') 256 = [108, 99]" "view_text (lit ''l'') 256 = [108]" by code_simp+
  ultimately show ?thesis using r(1) r(2) [rule_format, of "lit ''lc''"] r(2) [rule_format, of "lit ''l''"] by auto
qed

end
