(* ===== verification/Elf_Map.thy ===== *)
theory Elf_Map
  imports Task_Copy
begin

text \<open>
  The address space of a program in the ELF format: what \<open>process_map_elf\<close> of \<open>src/task/process.c\<close>
  makes of the program headers (\<open>src/loader/formats/elf\<close>) in the page directory of the process, and
  the addresses that loading the segments gives the file.
\<close>

section \<open>Loops over the headers\<close>

lemma counted_loop_all:
  assumes "\<And>i s. i < N \<Longrightarrow> I i s \<Longrightarrow> \<exists>s'. body s i = Inr (0, s') \<and> I (Suc i) s'"
    and "\<And>i s. I i s \<Longrightarrow> bound (km_ram s) = N"
    and "I i s" "i \<le> N" "N - i < k"
  shows "\<exists>s'. counted_loop bound body s i k 0 = Inr (0, s') \<and> I N s'"
  using assms(3-5)
proof (induction k arbitrary: i s)
  case (Suc k)
  show ?case
  proof (cases "i < N")
    case True
    obtain s' where s': "body s i = Inr (0, s')" "I (Suc i) s'" using assms(1) [OF True Suc.prems(1)] by blast
    have "\<exists>s''. counted_loop bound body s' (Suc i) k 0 = Inr (0, s'') \<and> I N s''"
      by (rule Suc.IH [OF s'(2)]) (use True Suc.prems(3) in simp_all)
    then show ?thesis using s'(1) True assms(2) [OF Suc.prems(1)] by simp
  next
    case False
    then have "i = N" using Suc.prems(2) by simp
    then show ?thesis using Suc.prems(1) assms(2) [OF Suc.prems(1)] by simp
  qed
qed simp

section \<open>The pages of a segment\<close>

definition segment_pages :: "ram \<Rightarrow> elf_file \<Rightarrow> addr \<Rightarrow> nat" where
  "segment_pages m f ph = (unat (elf_phdr_data_address m f ph) mod 4096 + unat (p_filesz m ph) + 4095) div 4096"

definition segment_flags :: "ram \<Rightarrow> addr \<Rightarrow> u32" where
  "segment_flags m ph = (if ph_flags m ph AND 2 \<noteq> 0 then 7 else 5)"

definition covers :: "ram \<Rightarrow> elf_file \<Rightarrow> addr \<Rightarrow> addr \<Rightarrow> bool" where
  "covers m f ph w \<longleftrightarrow> (\<exists>k < segment_pages m f ph. w = paging_align_to_lower_page (p_vaddr m ph) + of_nat (4096 * k))"

text \<open>A segment that can be mapped: it has bytes in the file, its address and the place of its bytes
  agree within a page, and neither reaches the last page of the address space.\<close>

definition segment_ok :: "ram \<Rightarrow> elf_file \<Rightarrow> addr \<Rightarrow> bool" where
  "segment_ok m f ph \<longleftrightarrow> 0 < unat (p_filesz m ph) \<and>
     unat (p_vaddr m ph) mod 4096 = unat (elf_phdr_data_address m f ph) mod 4096 \<and>
     unat (p_vaddr m ph) + unat (p_filesz m ph) < 0xFFFFF000 \<and>
     unat (elf_phdr_data_address m f ph) + unat (p_filesz m ph) < 0xFFFFF000"

lemma unat_add_small: "unat a + unat b < 2 ^ 32 \<Longrightarrow> unat (a + b :: u32) = unat a + unat b"
  by (simp add: unat_add_lem [THEN iffD1])

lemma upper_page_steps:
  fixes p z :: addr
  assumes "unat p + unat z < 0xFFFFF000" "0 < unat z"
  defines "n \<equiv> (unat p mod 4096 + unat z + 4095) div 4096"
  shows "paging_align_address (p + z) = paging_align_to_lower_page p + of_nat (4096 * n)" "0 < n"
    "unat (paging_align_to_lower_page p) + 4096 * n < 2 ^ 32"
proof -
  define q r where "q = unat p div 4096" and "r = unat p mod 4096"
  have p: "unat p = q * 4096 + r" "r < 4096" by (simp_all add: q_def r_def)
  have n: "n = (r + unat z + 4095) div 4096" by (simp add: n_def r_def)
  have u: "unat (p + z) = unat p + unat z" by (rule unat_add_small) (use assms(1) in simp)
  have e: "(unat p + unat z + 4095) div 4096 = q + n"
    using p(1) by (simp add: n add.assoc)
  have "4096 * n \<le> r + unat z + 4095" unfolding n by simp
  then have b: "q * 4096 + 4096 * n < 2 ^ 32" using assms(1) p(1) by simp
  have l: "unat (paging_align_to_lower_page p) = q * 4096" by (simp add: unat_lower_page q_def)
  then show "unat (paging_align_to_lower_page p) + 4096 * n < 2 ^ 32" using b by simp
  show "0 < n" unfolding n using assms(2) by (simp add: div_greater_zero_iff)
  have un: "unat (of_nat (4096 * n) :: u32) = 4096 * n" by (rule unat_of_nat_small) (use b in simp)
  have "unat (paging_align_to_lower_page p + of_nat (4096 * n)) = q * 4096 + 4096 * n"
    using b by (subst unat_add_small) (simp_all only: l un)
  moreover have "unat (paging_align_address (p + z)) = q * 4096 + 4096 * n"
    unfolding align_address_eq_upper by (subst unat_upper_page) (use assms(1) e in \<open>simp_all add: u\<close>)
  ultimately show "paging_align_address (p + z) = paging_align_to_lower_page p + of_nat (4096 * n)"
    by (simp only: word_unat_eq_iff)
qed

lemma lower_page_mod: "paging_align_to_lower_page v mod 4096 = 0"
  using lower_page_aligned [of v] by (simp add: paging_is_address_aligned_def)

section \<open>One header\<close>

text \<open>The entry that a page of a segment gets.\<close>

definition segment_entry :: "ram \<Rightarrow> elf_file \<Rightarrow> addr \<Rightarrow> addr \<Rightarrow> u32" where
  "segment_entry m f ph w =
     (paging_align_to_lower_page (elf_phdr_data_address m f ph) + (w - paging_align_to_lower_page (p_vaddr m ph)))
     OR segment_flags m ph"

lemma map_phdr_result:
  fixes s :: "'a kstate_scheme"
  assumes "process_at s pr = Some p" "tasks s (p_task p) = Some t" "chunks s (tk_page_directory t) = Some c"
    and "directory_entry c = d" "pagedir_ok (km_ram s) d" "segment_ok (km_ram s) f ph"
  obtains m' where "map_phdr s pr f ph = Inr (0, s\<lparr>km_ram := m'\<rparr>)" "pagedir_ok m' d"
    "table_mem m' d = table_mem (km_ram s) d" "\<And>a. a \<notin> table_mem (km_ram s) d \<Longrightarrow> m' a = km_ram s a"
    "\<And>w. w mod 4096 = 0 \<Longrightarrow> entry_of d m' w =
       (if covers (km_ram s) f ph w then segment_entry (km_ram s) f ph w else entry_of d (km_ram s) w)"
proof -
  let ?m = "km_ram s" and ?v = "paging_align_to_lower_page (p_vaddr (km_ram s) ph)"
  let ?q = "elf_phdr_data_address (km_ram s) f ph" and ?n = "segment_pages (km_ram s) f ph" and ?fl = "segment_flags (km_ram s) ph"
  have so: "0 < unat (p_filesz ?m ph)" "unat ?q + unat (p_filesz ?m ph) < 0xFFFFF000"
    using assms(6) by (simp_all add: segment_ok_def)
  note st = upper_page_steps [OF so(2,1), folded segment_pages_def]
  obtain m' where r: "paging_map_to ?m d ?v (paging_align_to_lower_page ?q)
      (paging_align_to_lower_page ?q + of_nat (4096 * ?n)) ?fl = Inr (0, m')" "pagedir_ok m' d"
    "\<forall>k<?n. paging_get m' d (?v + of_nat (4096 * k)) = Inr ((paging_align_to_lower_page ?q + of_nat (4096 * k)) OR ?fl)"
    "\<forall>w. w mod 4096 = 0 \<longrightarrow> (\<forall>k<?n. w \<noteq> ?v + of_nat (4096 * k)) \<longrightarrow> paging_get m' d w = paging_get ?m d w"
    by (rule paging_map_to_result [OF assms(5) lower_page_mod lower_page_mod st(2,3), of "p_vaddr ?m ph" ?fl])
  have dir: "task_directory s (p_task p) = Inr d" using assms(2-4) by (simp add: task_directory_def deref_Some)
  have fl: "(if ph_flags ?m ph AND 2 \<noteq> 0 then (PAGING_PAGE_PRESENT OR PAGING_ACCESS_FROM_ALL) OR PAGING_PAGE_WRITEABLE
      else PAGING_PAGE_PRESENT OR PAGING_ACCESS_FROM_ALL) = ?fl" by (simp add: segment_flags_def)
  have c: "map_phdr s pr f ph = Inr (0, s\<lparr>km_ram := m'\<rparr>)"
    unfolding map_phdr_def Let_def
    by (simp only: fl st(1) deref_Some [of "process_at s", OF assms(1)] dir bindE.simps r(1) prod.case ASSERT_True simp_thms)
  show ?thesis
  proof (rule that [OF c r(2)])
    show "table_mem m' d = table_mem ?m d" "a \<notin> table_mem ?m d \<Longrightarrow> m' a = ?m a" for a
      using paging_map_to_frame [OF assms(5) r(1)] by blast+
    fix w :: addr assume w: "w mod 4096 = 0"
    show "entry_of d m' w = (if covers ?m f ph w then segment_entry ?m f ph w else entry_of d ?m w)"
    proof (cases "covers ?m f ph w")
      case True
      then obtain k where k: "k < ?n" "w = ?v + of_nat (4096 * k)" by (auto simp: covers_def)
      then have "paging_get m' d w = Inr ((paging_align_to_lower_page ?q + of_nat (4096 * k)) OR ?fl)" using r(3) by blast
      then have "entry_of d m' w = (paging_align_to_lower_page ?q + of_nat (4096 * k)) OR ?fl"
        by (simp only: paging_get_entry_of [OF w] sum.inject)
      moreover have "w - ?v = of_nat (4096 * k)" by (simp add: k(2))
      ultimately show ?thesis using True by (simp only: segment_entry_def if_True)
    next
      case False
      then have "paging_get m' d w = paging_get ?m d w" using r(4) w by (auto simp: covers_def)
      then show ?thesis using False w by (simp add: paging_get_entry_of)
    qed
  qed
qed

section \<open>All headers\<close>

text \<open>What becomes of the entry of a page: the last header that covers it decides.\<close>

fun mapped_entry :: "ram \<Rightarrow> elf_file \<Rightarrow> addr \<Rightarrow> nat \<Rightarrow> addr \<Rightarrow> u32 \<Rightarrow> u32" where
  "mapped_entry m f phdrs 0 w e = e"
| "mapped_entry m f phdrs (Suc i) w e =
     (if covers m f (phdrs + 32 * of_nat i) w then segment_entry m f (phdrs + 32 * of_nat i) w
      else mapped_entry m f phdrs i w e)"

lemma mapped_entry_last:
  assumes "i < n" "covers m f (phdrs + 32 * of_nat i) w"
    and "\<And>j. i < j \<Longrightarrow> j < n \<Longrightarrow> \<not> covers m f (phdrs + 32 * of_nat j) w"
  shows "mapped_entry m f phdrs n w e = segment_entry m f (phdrs + 32 * of_nat i) w"
  using assms by (induction n) (auto simp: less_Suc_eq)

lemma mapped_entry_none:
  "(\<And>j. j < n \<Longrightarrow> \<not> covers m f (phdrs + 32 * of_nat j) w) \<Longrightarrow> mapped_entry m f phdrs n w e = e"
  by (induction n) auto

lemma header_same:
  assumes "\<And>a. a \<in> region ph 32 \<Longrightarrow> m' a = m a"
  shows "covers m' f ph w = covers m f ph w" "segment_entry m' f ph w = segment_entry m f ph w"
    "segment_ok m' f ph = segment_ok m f ph"
proof -
  have l: "load32 m' (ph + of_nat k) = load32 m (ph + of_nat k)" if "k + 4 \<le> 32" for k
  proof (rule load32_cong)
    fix i :: nat assume "i < 4"
    then have "ph + of_nat (k + i) \<in> region ph 32" using that by (intro region_memI) simp
    then show "m' (ph + of_nat k + of_nat i) = m (ph + of_nat k + of_nat i)"
      using assms by (simp add: add.assoc)
  qed
  have "p_offset m' ph = p_offset m ph" "p_vaddr m' ph = p_vaddr m ph" "p_filesz m' ph = p_filesz m ph"
    "ph_flags m' ph = ph_flags m ph"
    using l [of 4] l [of 8] l [of 16] l [of 24]
    by (simp_all add: p_offset_def p_vaddr_def p_filesz_def ph_flags_def)
  then show "covers m' f ph w = covers m f ph w" "segment_entry m' f ph w = segment_entry m f ph w"
    "segment_ok m' f ph = segment_ok m f ph"
    by (simp_all add: covers_def segment_pages_def segment_entry_def segment_flags_def segment_ok_def
        elf_phdr_data_address_def)
qed

lemma header_region:
  assumes "i < n"
  shows "region (phdrs + 32 * of_nat i) 32 \<subseteq> region phdrs (32 * n)"
proof -
  have "32 * i + 32 \<le> 32 * n" using assms by simp
  then show ?thesis using region_sub [of "32 * i" 32 "32 * n" phdrs] by simp
qed

definition mapped_upto :: "'a kstate_scheme \<Rightarrow> addr \<Rightarrow> elf_file \<Rightarrow> addr \<Rightarrow> nat \<Rightarrow> 'a kstate_scheme \<Rightarrow> bool" where
  "mapped_upto s d f phdrs i s' \<longleftrightarrow> (\<exists>m'. s' = s\<lparr>km_ram := m'\<rparr> \<and> pagedir_ok m' d \<and>
     table_mem m' d = table_mem (km_ram s) d \<and> (\<forall>a. a \<notin> table_mem (km_ram s) d \<longrightarrow> m' a = km_ram s a) \<and>
     (\<forall>w. w mod 4096 = 0 \<longrightarrow> entry_of d m' w = mapped_entry (km_ram s) f phdrs i w (entry_of d (km_ram s) w)))"

lemma process_map_elf_result:
  fixes s :: "'a kstate_scheme"
  assumes "process_at s pr = Some p" "p_filetype p = FILE_TYPE_ELF" "elf_files s (p_ptr p) = Some f"
    and "tasks s (p_task p) = Some t" "chunks s (tk_page_directory t) = Some c" "directory_entry c = d"
    and "pagedir_ok (km_ram s) d"
    and "phdrs = elf_pheader (km_ram s) (ef_memory f)" "n = e_phnum (km_ram s) (ef_memory f)"
    and "region (ef_memory f) 52 \<inter> table_mem (km_ram s) d = {}" "region phdrs (32 * n) \<inter> table_mem (km_ram s) d = {}"
    and "\<forall>i<n. segment_ok (km_ram s) f (phdrs + 32 * of_nat i)"
  shows "\<exists>s'. process_map_elf s pr = Inr (0, s') \<and> mapped_upto s d f phdrs n s'"
proof -
  let ?m = "km_ram s" and ?b = "\<lambda>s i. map_phdr s pr f (phdrs + 32 * of_nat i)"
  have hd: "\<And>a. a \<in> region (phdrs + 32 * of_nat i) 32 \<Longrightarrow> a \<notin> table_mem ?m d" if "i < n" for i
    using header_region [OF that, of phdrs] assms(11) by blast
  have "\<exists>s'. counted_loop (\<lambda>m. e_phnum m (ef_memory f)) ?b s 0 65536 0 = Inr (0, s') \<and> mapped_upto s d f phdrs n s'"
  proof (rule counted_loop_all [where I = "mapped_upto s d f phdrs"])
    fix i s1 assume i: "i < n" and "mapped_upto s d f phdrs i s1"
    then obtain m1 where m1: "s1 = s\<lparr>km_ram := m1\<rparr>" "pagedir_ok m1 d" "table_mem m1 d = table_mem ?m d"
      "\<And>a. a \<notin> table_mem ?m d \<Longrightarrow> m1 a = ?m a"
      "\<And>w. w mod 4096 = 0 \<Longrightarrow> entry_of d m1 w = mapped_entry ?m f phdrs i w (entry_of d ?m w)"
      unfolding mapped_upto_def by blast
    let ?ph = "phdrs + 32 * of_nat i :: addr"
    have "m1 a = ?m a" if "a \<in> region ?ph 32" for a by (rule m1(4) [OF hd [OF i that]])
    note same = header_same [OF this]
    have ok: "segment_ok (km_ram s1) f ?ph" using same(3) assms(12) i by (simp add: m1(1))
    have pre: "process_at s1 pr = Some p" "tasks s1 (p_task p) = Some t" "chunks s1 (tk_page_directory t) = Some c"
      "pagedir_ok (km_ram s1) d" using assms(1,4,5) m1(2) by (simp_all add: m1(1))
    obtain m2 where m2: "?b s1 i = Inr (0, s1\<lparr>km_ram := m2\<rparr>)" "pagedir_ok m2 d"
      "table_mem m2 d = table_mem (km_ram s1) d" "\<And>a. a \<notin> table_mem (km_ram s1) d \<Longrightarrow> m2 a = km_ram s1 a"
      "\<And>w. w mod 4096 = 0 \<Longrightarrow> entry_of d m2 w = (if covers (km_ram s1) f ?ph w
          then segment_entry (km_ram s1) f ?ph w else entry_of d (km_ram s1) w)"
      by (rule map_phdr_result [OF pre(1-3) assms(6) pre(4) ok]) (rule that)
    have e: "entry_of d m2 w = mapped_entry ?m f phdrs (Suc i) w (entry_of d ?m w)" if "w mod 4096 = 0" for w
      unfolding m2(5) [OF that] using same m1(5) [OF that] by (simp add: m1(1))
    have "mapped_upto s d f phdrs (Suc i) (s1\<lparr>km_ram := m2\<rparr>)"
      unfolding mapped_upto_def
      by (rule exI [of _ m2], intro conjI allI impI) (use m2(2-4) m1 e in auto)
    then show "\<exists>s'. ?b s1 i = Inr (0, s') \<and> mapped_upto s d f phdrs (Suc i) s'" using m2(1) by blast
  next
    fix i s1 assume "mapped_upto s d f phdrs i s1"
    then have m: "km_ram s1 a = ?m a" if "a \<notin> table_mem ?m d" for a using that by (auto simp: mapped_upto_def)
    have "km_ram s1 (ef_memory f + of_nat k) = ?m (ef_memory f + of_nat k)" if "k < 52" for k
      by (rule m) (use region_memI [OF that, of "ef_memory f"] assms(10) in blast)
    from this [of 44] this [of 45] show "e_phnum (km_ram s1) (ef_memory f) = n"
      by (simp add: assms(9) e_phnum_def load16_def add.assoc)
  next
    show "mapped_upto s d f phdrs 0 s" using assms(7) by (auto simp: mapped_upto_def intro!: exI [of _ ?m])
    have "unat (load16 ?m (ef_memory f + 44)) < 2 ^ 16" using unsigned_less [of "load16 ?m (ef_memory f + 44)"] by simp
    then show "n - 0 < 65536" by (simp add: assms(9) e_phnum_def)
  qed simp
  moreover have "process_map_elf s pr = counted_loop (\<lambda>m. e_phnum m (ef_memory f)) ?b s 0 65536 0"
    using assms(1-3,8) by (simp add: process_map_elf_def deref_Some elf_header_def Let_def)
  ultimately show ?thesis by simp
qed

lemma split_page: "v = paging_align_to_lower_page v + of_nat (unat v mod 4096)"
proof -
  have "of_nat (unat v mod 4096) = v mod 4096" by (simp flip: unat_mod_4096)
  then show ?thesis by (simp add: paging_align_to_lower_page_def)
qed

lemma later_page:
  assumes "unat (paging_align_to_lower_page p) + 4096 * j < 2 ^ 32"
  shows "(paging_align_to_lower_page p + of_nat (4096 * j)) mod 4096 = 0"
proof -
  have u: "unat (of_nat (4096 * j) :: u32) = 4096 * j" by (rule unat_of_nat_small) (use assms in simp)
  have "unat (paging_align_to_lower_page p + of_nat (4096 * j)) = unat p div 4096 * 4096 + 4096 * j"
    using assms by (subst unat_add_small) (simp_all add: unat_lower_page u del: of_nat_mult)
  then show ?thesis by (simp add: aligned_nat mod_add_right_eq del: of_nat_mult)
qed

lemma segment_byte:
  assumes "segment_ok m f ph" "k < unat (p_filesz m ph)"
  defines "v \<equiv> p_vaddr m ph + of_nat k"
  shows "covers m f ph (paging_align_to_lower_page v)"
    and "(segment_entry m f ph (paging_align_to_lower_page v) AND 0xfffff000) + (v AND 0xfff) = elf_phdr_data_address m f ph + of_nat k"
    and "segment_entry m f ph (paging_align_to_lower_page v) AND 0xfff = segment_flags m ph"
proof -
  let ?va = "p_vaddr m ph" and ?pa = "elf_phdr_data_address m f ph" and ?n = "segment_pages m f ph"
  define r where "r = unat ?pa mod 4096"
  define j and l where "j = (r + k) div 4096" and "l = (r + k) mod 4096"
  have rk: "r + k = 4096 * j + l" "l < 4096" by (simp_all add: j_def l_def)
  have so: "unat ?va mod 4096 = r" "0 < unat (p_filesz m ph)" "unat ?pa + unat (p_filesz m ph) < 0xFFFFF000"
    "unat ?va + unat (p_filesz m ph) < 0xFFFFF000"
    using assms(1) by (simp_all add: segment_ok_def r_def)
  note sp = upper_page_steps(3) [OF so(3,2), folded segment_pages_def]
  note sv = upper_page_steps(3) [OF so(4,2)]
  have nv: "(unat ?va mod 4096 + unat (p_filesz m ph) + 4095) div 4096 = ?n" by (simp add: segment_pages_def so(1) r_def)
  have jn: "j < ?n"
  proof -
    have "4096 * j < r + unat (p_filesz m ph)" using rk assms(2) by linarith
    then have "4096 * (j + 1) \<le> r + unat (p_filesz m ph) + 4095" by simp
    then have "(4096 * (j + 1)) div 4096 \<le> (r + unat (p_filesz m ph) + 4095) div 4096" by (rule div_le_mono)
    then show ?thesis by (simp add: segment_pages_def r_def)
  qed
  let ?w = "paging_align_to_lower_page ?va + of_nat (4096 * j)" and ?x = "paging_align_to_lower_page ?pa + of_nat (4096 * j)"
  have w0: "?w mod 4096 = 0" by (rule later_page) (use sv nv jn in linarith)
  have x0: "?x mod 4096 = 0" by (rule later_page) (use sp jn in linarith)
  have "v = paging_align_to_lower_page ?va + of_nat (r + k)"
    unfolding v_def by (subst split_page [of ?va]) (simp add: so(1))
  then have v: "v = ?w + of_nat l" by (simp add: rk(1))
  have pa: "?pa + of_nat k = ?x + of_nat l"
  proof -
    have "?pa + of_nat k = paging_align_to_lower_page ?pa + of_nat (r + k)"
      by (subst split_page [of ?pa]) (simp add: r_def)
    then show ?thesis by (simp add: rk(1))
  qed
  note low = lower_page_in [OF w0 rk(2)]
  have lv: "paging_align_to_lower_page v = ?w" unfolding v by (rule low(1))
  show "covers m f ph (paging_align_to_lower_page v)" unfolding lv covers_def using jn by blast
  have fl: "segment_flags m ph < 4096" by (simp add: segment_flags_def)
  have e: "segment_entry m f ph (paging_align_to_lower_page v) = ?x OR segment_flags m ph"
    unfolding lv segment_entry_def by simp
  have ux: "unat ?x mod 4096 = 0" using x0 by (simp add: aligned_nat)
  have "segment_entry m f ph (paging_align_to_lower_page v) AND 0xfffff000 = ?x"
    unfolding e by (rule table_entry_masked [OF ux fl])
  moreover have "v AND 0xfff = of_nat l" unfolding v by (rule low(2))
  ultimately show "(segment_entry m f ph (paging_align_to_lower_page v) AND 0xfffff000) + (v AND 0xfff) = ?pa + of_nat k"
    by (simp only: pa)
  have "?x AND 0xfff = 0" using x0 by (simp only: low12_eq_mod)
  moreover have "segment_flags m ph AND 0xfff = segment_flags m ph" by (simp add: segment_flags_def)
  ultimately show "segment_entry m f ph (paging_align_to_lower_page v) AND 0xfff = segment_flags m ph"
    unfolding e by (simp only: bit.conj_disj_distrib2 or.left_neutral)
qed

section \<open>Property\<close>

text \<open>C5: \<open>process_map_elf\<close> gives a program its address space: for an image whose headers can be mapped
  it returns 0, and every address of a segment then leads to the byte of the file it stands for, with
  the rights of the segment (present, open to the program, writable when the segment is), where no later
  header covers the page again; a page that no header covers keeps its entry, and no byte outside the
  page tables changes.\<close>

theorem process_map_elf_address_space:
  fixes s :: "'a kstate_scheme"
  assumes "process_at s pr = Some p" "p_filetype p = FILE_TYPE_ELF" "elf_files s (p_ptr p) = Some f"
    and "tasks s (p_task p) = Some t" "chunks s (tk_page_directory t) = Some c" "directory_entry c = d"
    and "pagedir_ok (km_ram s) d"
    and "phdrs = elf_pheader (km_ram s) (ef_memory f)" "n = e_phnum (km_ram s) (ef_memory f)"
    and "region (ef_memory f) 52 \<inter> table_mem (km_ram s) d = {}" "region phdrs (32 * n) \<inter> table_mem (km_ram s) d = {}"
    and "\<forall>i<n. segment_ok (km_ram s) f (phdrs + 32 * of_nat i)"
  shows "\<exists>m'. process_map_elf s pr = Inr (0, s\<lparr>km_ram := m'\<rparr>) \<and> pagedir_ok m' d \<and>
    (\<forall>a. a \<notin> table_mem (km_ram s) d \<longrightarrow> m' a = km_ram s a) \<and>
    (\<forall>i<n. let ph = phdrs + 32 * of_nat i in \<forall>k < unat (p_filesz (km_ram s) ph).
       let v = p_vaddr (km_ram s) ph + of_nat k in
       (\<forall>j. i < j \<and> j < n \<longrightarrow> \<not> covers (km_ram s) f (phdrs + 32 * of_nat j) (paging_align_to_lower_page v)) \<longrightarrow>
       phys_of m' d v = ef_memory f + p_offset (km_ram s) ph + of_nat k \<and>
       entry_of d m' v AND 0xfff = (if ph_flags (km_ram s) ph AND 2 \<noteq> 0 then 7 else 5)) \<and>
    (\<forall>w. w mod 4096 = 0 \<longrightarrow> (\<forall>j<n. \<not> covers (km_ram s) f (phdrs + 32 * of_nat j) w) \<longrightarrow>
       paging_get m' d w = paging_get (km_ram s) d w)"
proof -
  let ?m = "km_ram s"
  obtain m' where m': "process_map_elf s pr = Inr (0, s\<lparr>km_ram := m'\<rparr>)" "pagedir_ok m' d"
    "\<forall>a. a \<notin> table_mem ?m d \<longrightarrow> m' a = ?m a"
    "\<And>w. w mod 4096 = 0 \<Longrightarrow> entry_of d m' w = mapped_entry ?m f phdrs n w (entry_of d ?m w)"
    using process_map_elf_result [OF assms] by (auto simp: mapped_upto_def)
  have seg: "phys_of m' d v = ef_memory f + p_offset ?m ph + of_nat k \<and>
      entry_of d m' v AND 0xfff = (if ph_flags ?m ph AND 2 \<noteq> 0 then 7 else 5)"
    if i: "i < n" "ph = phdrs + 32 * of_nat i" "k < unat (p_filesz ?m ph)" "v = p_vaddr ?m ph + of_nat k"
      and no: "\<forall>j. i < j \<and> j < n \<longrightarrow> \<not> covers ?m f (phdrs + 32 * of_nat j) (paging_align_to_lower_page v)" for i ph k v
  proof -
    have ok: "segment_ok ?m f ph" using assms(12) i(1,2) by blast
    note b = segment_byte [OF ok i(3), folded i(4)]
    have "entry_of d m' v = mapped_entry ?m f phdrs n (paging_align_to_lower_page v) (entry_of d ?m (paging_align_to_lower_page v))"
      using m'(4) [OF lower_page_mod] entry_of_page [of d m' v] by simp
    also have "\<dots> = segment_entry ?m f ph (paging_align_to_lower_page v)"
      unfolding i(2) by (rule mapped_entry_last [OF i(1) b(1) [unfolded i(2)]]) (use no in blast)
    finally have e: "entry_of d m' v = segment_entry ?m f ph (paging_align_to_lower_page v)" .
    show ?thesis
      using b(2,3) by (simp only: phys_of_def e elf_phdr_data_address_def elf_memory_def segment_flags_def)
  qed
  have none: "paging_get m' d w = paging_get ?m d w"
    if "w mod 4096 = 0" "\<forall>j<n. \<not> covers ?m f (phdrs + 32 * of_nat j) w" for w
    using m'(4) [OF that(1)] mapped_entry_none [of n ?m f phdrs w] that(2)
    by (simp add: paging_get_entry_of that(1))
  show ?thesis
    unfolding Let_def using m'(1-3) seg none by (intro exI [of _ m'] conjI allI impI) blast+
qed

text \<open>The process of \<open>demo_process\<close> with an image at 0x600000 of one writable segment: ten bytes at offset
  0x1000 of the image for the address 0x400000.\<close>

definition demo_elf :: kstate where
  "demo_elf = demo_process\<lparr>km_ram := demo_pages(0x60001C := 52, 0x60002C := 1, 0x600039 := 0x10, 0x60003E := 0x40,
       0x600044 := 10, 0x60004C := 6),
     process_at := [0x500 \<mapsto> zero_process\<lparr>p_task := 16, p_filetype := FILE_TYPE_ELF, p_ptr := 0x700\<rparr>],
     elf_files := [0x700 \<mapsto> \<lparr>ef_memory = 0x600000, ef_virtual_base = 0, ef_virtual_end = 0,
       ef_physical_base = 0, ef_physical_end = 0, ef_library = 0\<rparr>]\<rparr>"

lemma demo_pages_high: "0x2000 \<le> a \<Longrightarrow> demo_pages a = 0"
proof (rule demo_pages_zero)
  assume a: "0x2000 \<le> a"
  show "a \<notin> region 0x1000 4096"
  proof
    assume "a \<in> region 0x1000 4096"
    then obtain i where i: "i < 4096" "a = 0x1000 + of_nat i" by (auto simp: mem_region)
    have "unat (of_nat i :: u32) = i" by (rule unat_of_nat_small) (use i(1) in simp)
    then have "unat a = 4096 + i" unfolding i(2) using i(1) by (subst unat_add_small) simp_all
    with a i(1) show False by (simp add: word_le_nat_alt)
  qed
qed

lemma demo_elf_header:
  "elf_pheader (km_ram demo_elf) 0x600000 = 0x600034" "e_phnum (km_ram demo_elf) 0x600000 = 1"
  "p_offset (km_ram demo_elf) 0x600034 = 0x1000" "p_vaddr (km_ram demo_elf) 0x600034 = 0x400000"
  "p_filesz (km_ram demo_elf) 0x600034 = 10" "ph_flags (km_ram demo_elf) 0x600034 = 6"
  by (simp_all add: demo_elf_def elf_pheader_def e_phoff_def e_phnum_def p_offset_def p_vaddr_def p_filesz_def
      ph_flags_def load32_def load16_def demo_pages_high word_le_nat_alt)

lemma demo_elf_tables:
  "pagedir_ok (km_ram demo_elf) 0x1000" "region 0x600000 0x60 \<inter> table_mem (km_ram demo_elf) 0x1000 = {}"
proof -
  have far: "region 0x600000 0x60 \<inter> (region 0x1000 4096 \<union> region 0x100000 (1024 * 4096)) = {}"
    using region_apart [of 0 4096 "0x5FF000" "0x60" "0x1000"] region_apart [of 0 "1024 * 4096" "0x500000" "0x60" "0x100000"]
    by (auto simp: Int_commute)
  have "km_ram demo_elf a = demo_pages a" if "a \<in> page_mem demo_pages 0x1000" for a
  proof -
    have "a \<notin> region 0x600000 0x60" using that far demo_page_mem by blast
    then have "a \<noteq> 0x600000 + of_nat i" if "i < 0x60" for i using that by (auto simp: mem_region)
    from this [of "0x1C"] this [of "0x2C"] this [of "0x39"] this [of "0x3E"] this [of "0x44"] this [of "0x4C"]
    show ?thesis by (simp add: demo_elf_def)
  qed
  note same = page_mem_same [OF demo_pages_ok this]
  show "pagedir_ok (km_ram demo_elf) 0x1000" by (rule same(1))
  have "table_mem (km_ram demo_elf) 0x1000 \<subseteq> page_mem demo_pages 0x1000" using same(2) by (auto simp: page_mem_def)
  then show "region 0x600000 0x60 \<inter> table_mem (km_ram demo_elf) 0x1000 = {}" using demo_page_mem far by blast
qed

lemma process_map_elf_address_space_witness:
  "\<exists>m'. process_map_elf demo_elf 0x500 = Inr (0, demo_elf\<lparr>km_ram := m'\<rparr>) \<and>
     phys_of m' 0x1000 0x400003 = 0x601003 \<and> entry_of 0x1000 m' 0x400003 AND 0xfff = 7"
proof -
  let ?p = "zero_process\<lparr>p_task := 16, p_filetype := FILE_TYPE_ELF, p_ptr := 0x700\<rparr>"
  let ?f = "\<lparr>ef_memory = 0x600000, ef_virtual_base = 0, ef_virtual_end = 0,
       ef_physical_base = 0, ef_physical_end = 0, ef_library = 0\<rparr>"
  let ?t = "zero_task\<lparr>tk_page_directory := 4096\<rparr>" and ?c = "\<lparr>directory_entry = 0x1000, faults = 0, last_fault = 0\<rparr>"
  have s: "process_at demo_elf 0x500 = Some ?p" "p_filetype ?p = FILE_TYPE_ELF" "elf_files demo_elf (p_ptr ?p) = Some ?f"
    "tasks demo_elf (p_task ?p) = Some ?t" "chunks demo_elf (tk_page_directory ?t) = Some ?c" "directory_entry ?c = 0x1000"
    by (simp_all add: demo_elf_def demo_process_def)
  have hd: "0x600034 = elf_pheader (km_ram demo_elf) (ef_memory ?f)" "1 = e_phnum (km_ram demo_elf) (ef_memory ?f)"
    by (simp_all add: demo_elf_header)
  have sub: "region 0x600000 52 \<subseteq> region 0x600000 0x60" "region 0x600034 (32 * 1) \<subseteq> region 0x600000 0x60"
    using region_sub [of 0 52 "0x60" "0x600000"] region_sub [of 52 32 "0x60" "0x600000"] by simp_all
  have far: "region (ef_memory ?f) 52 \<inter> table_mem (km_ram demo_elf) 0x1000 = {}"
    "region 0x600034 (32 * 1) \<inter> table_mem (km_ram demo_elf) 0x1000 = {}"
    using sub demo_elf_tables(2) by auto
  have ok: "\<forall>i<1. segment_ok (km_ram demo_elf) ?f (0x600034 + 32 * of_nat i)"
    by (simp add: segment_ok_def demo_elf_header elf_phdr_data_address_def elf_memory_def)
  obtain m' where m': "process_map_elf demo_elf 0x500 = Inr (0, demo_elf\<lparr>km_ram := m'\<rparr>)"
    "\<forall>i<1. let ph = 0x600034 + 32 * of_nat i in \<forall>k < unat (p_filesz (km_ram demo_elf) ph).
       let v = p_vaddr (km_ram demo_elf) ph + of_nat k in
       (\<forall>j. i < j \<and> j < 1 \<longrightarrow> \<not> covers (km_ram demo_elf) ?f (0x600034 + 32 * of_nat j) (paging_align_to_lower_page v)) \<longrightarrow>
       phys_of m' 0x1000 v = ef_memory ?f + p_offset (km_ram demo_elf) ph + of_nat k \<and>
       entry_of 0x1000 m' v AND 0xfff = (if ph_flags (km_ram demo_elf) ph AND 2 \<noteq> 0 then 7 else 5)"
    using process_map_elf_address_space [OF s demo_elf_tables(1) hd far ok] by blast
  have "\<forall>k<10. phys_of m' 0x1000 (0x400000 + of_nat k) = 0x601000 + of_nat k \<and> entry_of 0x1000 m' (0x400000 + of_nat k) AND 0xfff = 7"
    using m'(2) by (simp add: demo_elf_header Let_def)
  from this [rule_format, of 3] show ?thesis using m'(1) by auto
qed

end
