(* ===== verification/Task_Context.thy ===== *)
theory Task_Context
  imports Task
begin

text \<open>
  What a task finds when it runs again: the scheduler of \<open>src/task/task.c\<close> keeps the registers that were saved for
  a task, its page directory and its process through whatever happens to the other tasks meanwhile.
\<close>

section \<open>What the scheduler changes of a task\<close>

definition same_context :: "task \<Rightarrow> task \<Rightarrow> bool" where
  "same_context t t' \<longleftrightarrow> tk_registers t' = tk_registers t \<and> tk_page_directory t' = tk_page_directory t \<and> tk_process t' = tk_process t"

text \<open>\<open>keeps s s'\<close>: every task of \<open>s\<close> is one of \<open>s'\<close> with the same context, and the chunks are the same.\<close>

definition keeps :: "addr \<Rightarrow> 'a kstate_scheme \<Rightarrow> 'a kstate_scheme \<Rightarrow> bool" where
  "keeps x s s' \<longleftrightarrow> (\<forall>t. tasks s x = Some t \<longrightarrow> (\<exists>t'. tasks s' x = Some t' \<and> same_context t t')) \<and> chunks s' = chunks s"

lemma keeps_refl: "keeps x s s"
  by (simp add: keeps_def same_context_def)

lemma keeps_trans: "keeps x s s' \<Longrightarrow> keeps x s' s'' \<Longrightarrow> keeps x s s''"
  unfolding keeps_def same_context_def by (metis (no_types))

lemma upd_task_keeps:
  assumes "upd_task y f s = Inr s'" "\<And>t. x = y \<Longrightarrow> same_context t (f t)"
  shows "keeps x s s'"
proof -
  obtain t where "tasks s y = Some t" "s' = s\<lparr>tasks := (tasks s)(y \<mapsto> f t)\<rparr>"
    using assms(1) by (auto simp: upd_task_def deref_def split: option.splits)
  then show ?thesis using assms(2) by (auto simp: keeps_def same_context_def)
qed

lemma paging_switch_keeps: "paging_switch s c = Inr s' \<Longrightarrow> keeps x s s'"
  by (auto simp: paging_switch_def bindE_Inr_iff keeps_def same_context_def)

lemma task_wake_keeps: "task_wake s y = Inr s' \<Longrightarrow> keeps x s s'"
  unfolding task_wake_def by (erule upd_task_keeps) (simp add: same_context_def)

lemma task_next_keeps:
  assumes "task_next s = Inr s'" "sched_ok s ts"
  shows "keeps x s s'"
    and "\<exists>t c. tasks s' (current_task s') = Some t \<and> chunks s' (tk_page_directory t) = Some c \<and>
      current_directory s' = directory_entry c \<and> current_chunk s' = tk_page_directory t"
proof -
  have l: "task_list s ts" "tasks_paged s ts" using assms(2) by (simp_all add: sched_ok_def)
  obtain i where i: "i < length ts" "current_task s = ts ! i"
    using assms(2) unfolding sched_ok_def by (metis in_set_conv_nth)
  let ?y = "ts ! (Suc i mod length ts)"
  have m: "?y \<in> set ts" using i(1) by (intro nth_mem mod_less_divisor) auto
  obtain y s1 where y: "task_get_next s = Inr (y, s1)" "s1 = s \<or> s1 = woken s ?y"
    using task_get_next_result [OF l(1) i(2,1)] by (cases "awake_in s (hd ts)") auto
  have k: "keeps x s (woken s ?y)" by (auto simp: keeps_def woken_def same_context_def)
  then have k1: "keeps x s s1" using y(2) keeps_refl by blast
  from assms(1) y(1) obtain t c where sw: "tasks s1 y = Some t" "chunks s1 (tk_page_directory t) = Some c"
    "s' = s1\<lparr>current_task := y, current_directory := directory_entry c, current_chunk := tk_page_directory t\<rparr>"
    by (auto simp: task_next_def task_switch_def paging_switch_def bindE_Inr_iff deref_def panic_def split: option.splits if_splits)
  then have "keeps x s1 s'" by (auto simp: keeps_def same_context_def)
  with k1 show "keeps x s s'" by (rule keeps_trans)
  show "\<exists>t c. tasks s' (current_task s') = Some t \<and> chunks s' (tk_page_directory t) = Some c \<and>
      current_directory s' = directory_entry c \<and> current_chunk s' = tk_page_directory t"
    using sw by auto
qed

section \<open>Sequences of steps\<close>

text \<open>A step that saves the registers of \<open>x\<close>, which is the running task.\<close>

definition saves :: "addr \<Rightarrow> 'a kstate_scheme \<Rightarrow> 'a kstate_scheme \<Rightarrow> bool" where
  "saves x s s' \<longleftrightarrow> current_task s = x \<and> (\<exists>frame. task_current_save_state s frame = Inr s')"

text \<open>Steps of the scheduler none of which saves the registers of \<open>x\<close>.\<close>

inductive meanwhile :: "addr \<Rightarrow> 'a kstate_scheme \<Rightarrow> 'a kstate_scheme \<Rightarrow> bool" for x where
  start: "meanwhile x s s"
| step: "meanwhile x s s' \<Longrightarrow> sched_step s' s'' \<Longrightarrow> \<not> saves x s' s'' \<Longrightarrow> meanwhile x s s''"

lemma sched_step_keeps: "sched_step s s' \<Longrightarrow> sched_ok s ts \<Longrightarrow> \<not> saves x s s' \<Longrightarrow> keeps x s s'"
proof (induction rule: sched_step.induct)
  case (wake s y s')
  then show ?case by (intro task_wake_keeps)
next
  case (pause s y s')
  then show ?case unfolding task_pause_def by (elim upd_task_keeps) (simp add: same_context_def)
next
  case (usleep s y ms fl s')
  then obtain s1 where u: "upd_task y (\<lambda>t. t\<lparr>tk_awake := False, tk_awake_at := sint (word_of_int (pit_get_millis s) + ms)\<rparr>) s = Inr s1"
    and r: "s' = s1 \<or> task_next s1 = Inr s'"
    by (auto simp: task_usleep_def bindE_Inr_iff split: if_splits)
  have ok: "sched_ok s1 ts" by (rule upd_task_ok [OF u usleep(2)]) simp_all
  have k: "keeps x s s1" by (rule upd_task_keeps [OF u]) (simp add: same_context_def)
  from r show ?case
  proof
    assume "task_next s1 = Inr s'"
    then show ?thesis using keeps_trans [OF k] task_next_keeps(1) ok by blast
  qed (use k in simp)
next
  case (tick now s s')
  let ?s = "s\<lparr>ticks_since_initialized := now\<rparr>"
  have l: "task_list ?s ts" using tick(2) by (simp add: sched_ok_def task_list_def)
  have "s' = ?s\<lparr>tasks := \<lambda>y. if y \<in> set ts then map_option (rouse now) (tasks s y) else tasks s y\<rparr>"
    using tick(1) l wake_loop_chain [of ?s "task_head ?s" ts]
    by (simp add: task_process_def task_wake_tasks_def task_list_def cong: if_cong)
  moreover have "same_context t (rouse now t)" for t by (simp add: same_context_def rouse_def)
  ultimately show ?case by (auto simp: keeps_def same_context_def)
next
  case (switch s s')
  then show ?case by (intro task_next_keeps(1))
next
  case (save s frame s')
  then have ne: "x \<noteq> current_task s" by (auto simp: saves_def)
  from save(1) obtain f where "upd_task (current_task s) f s = Inr s'"
    by (fastforce simp: task_current_save_state_def task_save_state_def bindE_Inr_iff panic_def split: if_splits)
  then show ?case by (rule upd_task_keeps) (use ne in simp)
next
  case (enter s s')
  then show ?case unfolding kernel_page_def by (elim paging_switch_keeps)
next
  case (leave s s')
  then obtain c where "paging_switch s c = Inr s'"
    by (auto simp: task_page_def task_page_task_def bindE_Inr_iff)
  then show ?case by (rule paging_switch_keeps)
qed

lemma meanwhile_keeps: "meanwhile x s s' \<Longrightarrow> sched_ok s ts \<Longrightarrow> sched_ok s' ts \<and> keeps x s s'"
proof (induction rule: meanwhile.induct)
  case (step s s' s'')
  then show ?case using sched_step_ok sched_step_keeps keeps_trans by blast
qed (simp add: keeps_refl)

section \<open>Property\<close>

text \<open>The registers of an interrupt frame.\<close>

definition frame_registers :: "interrupt_frame \<Rightarrow> registers" where
  "frame_registers frame =
     \<lparr>r_edi = if_edi frame, r_esi = if_esi frame, r_ebp = if_ebp frame, r_ebx = if_ebx frame,
      r_edx = if_edx frame, r_ecx = if_ecx frame, r_eax = if_eax frame, r_ip = if_ip frame,
      r_cs = if_cs frame, r_flags = if_flags frame, r_esp = if_esp frame, r_ss = if_ss frame\<rparr>"

lemma save_result:
  assumes "assert_kernel_page ''task_current_save_state'' s = Inr ()" "current_task s = x" "x \<noteq> 0" "tasks s x = Some t"
  shows "task_current_save_state s frame = Inr (s\<lparr>tasks := (tasks s)(x \<mapsto> t\<lparr>tk_registers := frame_registers frame\<rparr>)\<rparr>)"
proof -
  have sv: "task_save_state s x frame = Inr (0, s\<lparr>tasks := (tasks s)(x \<mapsto> t\<lparr>tk_registers := frame_registers frame\<rparr>)\<rparr>)"
    unfolding task_save_state_def upd_task_def deref_Some [where store = "tasks s", OF assms(4)] bindE.simps frame_registers_def ..
  have a: "ASSERT fn (x \<noteq> 0) = Inr ()" for fn using assms(3) by simp
  show ?thesis
    unfolding task_current_save_state_def by (simp only: assms(1,2) a sv bindE.simps prod.case) simp
qed


text \<open>Task 16 is interrupted, another task runs and is interrupted too, and it is the turn of task 16 again.\<close>

definition demo_frame :: interrupt_frame where
  "demo_frame = \<lparr>if_edi = 1, if_esi = 2, if_ebp = 3, if_reserved = 0, if_ebx = 4, if_edx = 5, if_ecx = 6, if_eax = 7,
     if_ip = 8, if_cs = 9, if_flags = 10, if_esp = 11, if_ss = 12\<rparr>"

lemma save_current: "task_current_save_state s frame = Inr s' \<Longrightarrow> current_task s' = current_task s"
  by (auto simp: task_current_save_state_def task_save_state_def upd_task_def bindE_Inr_iff panic_def split: if_splits)

lemma demo_turn:
  assumes "sched_ok s [16, 32, 48]" "awake_in s 16" "\<not> awake_in s 32" "awake_in s 48"
    and "current_task s = [16, 32, 48] ! i" "i = 0 \<and> x = 48 \<or> i = 2 \<and> x = 16"
    and "tasks s x = Some t" "tk_page_directory t = 4096" "chunks s 4096 = Some \<lparr>directory_entry = 8192, faults = 0, last_fault = 0\<rparr>"
  shows "task_next s = Inr (s\<lparr>current_task := x, current_directory := 8192, current_chunk := 4096\<rparr>)"
proof -
  have l: "task_list s [16, 32, 48]" "tasks_paged s [16, 32, 48]" using assms(1) by (simp_all add: sched_ok_def)
  have n: "i < length [16, 32, 48 :: addr]" using assms(6) by auto
  have "hd (filter (awake_in s) (rotate (Suc i) [16, 32, 48])) = x"
    using assms(2-4,6) by (auto simp: numeral_2_eq_2)
  then have g: "task_get_next s = Inr (x, s)"
    using task_get_next_result [OF l(1) assms(5) n] assms(2) by (simp del: rotate_Suc)
  have x: "x \<in> set [16, 32, 48]" using assms(6) by auto
  obtain t' c where "tasks s x = Some t'" "chunks s (tk_page_directory t') = Some c"
    "task_switch s x = Inr (s\<lparr>current_task := x, current_directory := directory_entry c, current_chunk := tk_page_directory t'\<rparr>)"
    by (rule task_switch_paged [OF l(2) x])
  moreover from this assms(7-9) have "directory_entry c = 8192" "tk_page_directory t' = 4096" by auto
  ultimately show ?thesis using g by (simp add: task_next_def)
qed


end
