(* ===== verification/Timer_Interrupt.thy ===== *)
theory Timer_Interrupt
  imports IDT Task_Context
begin

text \<open>
  The timer interrupt as a whole: \<open>interrupt_handler\<close> of \<open>src/idt/idt.c\<close> with \<open>pit_interrupt\<close> of \<open>src/timer/pit.c\<close>,
  through the paging, the video and the scheduler.
\<close>

section \<open>Drawing leaves the scheduler alone\<close>

text \<open>\<open>sched_same s s'\<close>: the tasks, their list, the running task, the chunks and the clock are the same.\<close>

definition sched_same :: "'a kstate_scheme \<Rightarrow> 'a kstate_scheme \<Rightarrow> bool" where
  "sched_same s s' \<longleftrightarrow> tasks s' = tasks s \<and> task_head s' = task_head s \<and> task_tail s' = task_tail s \<and>
     current_task s' = current_task s \<and> chunks s' = chunks s \<and> kernel_paging_chunk s' = kernel_paging_chunk s \<and>
     ticks_since_initialized s' = ticks_since_initialized s"

lemma sched_same_refl [simp, intro]: "sched_same s s"
  by (simp add: sched_same_def)

lemma sched_same_trans: "sched_same s s' \<Longrightarrow> sched_same s' s'' \<Longrightarrow> sched_same s s''"
  by (simp add: sched_same_def)

lemma sched_same_updates [simp]:
  "sched_same s (s'\<lparr>km_heap := h\<rparr>) = sched_same s s'" "sched_same s (s'\<lparr>km_ram := m\<rparr>) = sched_same s s'"
  "sched_same s (s'\<lparr>rectangles := r\<rparr>) = sched_same s s'" "sched_same s (s'\<lparr>videos := v\<rparr>) = sched_same s s'"
  "sched_same s (s'\<lparr>current_directory := d\<rparr>) = sched_same s s'" "sched_same s (s'\<lparr>current_chunk := c\<rparr>) = sched_same s s'"
  "sched_same s (s'\<lparr>process_is_running := b\<rparr>) = sched_same s s'"
  by (simp_all add: sched_same_def)

lemma sched_same_more: "kmem.more s' = kmem.more s \<Longrightarrow> sched_same s s'"
  by (erule kmem_more_frame) simp

lemma set_pixel_same: "video_rectangle_set_pixel s rect x y c = Inr (r, s') \<Longrightarrow> sched_same s s'"
  by (auto simp: video_rectangle_set_pixel_def bindE_Inr_iff Let_def split: if_splits)

lemma draw_row_loop_same: "draw_row_loop s rect c absx ry i k = Inr s' \<Longrightarrow> sched_same s s'"
proof (induction k arbitrary: s i)
  case (Suc k)
  then show ?case using set_pixel_same sched_same_trans by (fastforce simp: bindE_Inr_iff split: if_splits)
qed simp

lemma draw_block_loop_same: "draw_block_loop s rect ptr absx absy pp y k = Inr s' \<Longrightarrow> sched_same s s'"
proof (induction k arbitrary: s y)
  case (Suc k)
  then show ?case using draw_row_loop_same sched_same_trans by (fastforce simp: bindE_Inr_iff)
qed simp

lemma draw_blocks_loop_same: "draw_blocks_loop s rect ptr absx absy rows pp k = Inr s' \<Longrightarrow> sched_same s s'"
proof (induction k arbitrary: s ptr absx)
  case (Suc k)
  then show ?case
    using draw_block_loop_same sched_same_trans by (fastforce simp: bindE_Inr_iff video_rectangle_draw_block_def)
qed simp

lemma fill_column_same: "fill_column s rect c x y k res = Inr (r, s') \<Longrightarrow> sched_same s s'"
proof (induction k arbitrary: s y res)
  case (Suc k)
  then obtain res1 s1 where 1: "video_rectangle_set_pixel s rect x (int y) c = Inr (res1, s1)"
    "s1 = s' \<or> fill_column s1 rect c x (Suc y) k res1 = Inr (r, s')"
    by (auto simp: bindE_Inr_iff split: if_splits)
  then show ?case using set_pixel_same [OF 1(1)] Suc.IH sched_same_trans by blast
qed simp

lemma fill_columns_same: "fill_columns s rect c height x k res = Inr (r, s') \<Longrightarrow> sched_same s s'"
proof (induction k arbitrary: s x res)
  case (Suc k)
  then obtain res1 s1 where "fill_column s rect c (int x) 0 height res = Inr (res1, s1)"
    "fill_columns s1 rect c height (Suc x) k res1 = Inr (r, s')"
    by (auto simp: bindE_Inr_iff)
  then show ?case using fill_column_same Suc.IH sched_same_trans by blast
qed simp

lemma draw_column_same: "draw_column s b rect r x y k = Inr s' \<Longrightarrow> sched_same s s'"
proof (induction k arbitrary: s y)
  case (Suc k)
  then obtain m where "draw_column (s\<lparr>km_ram := m\<rparr>) b rect r x (Suc y) k = Inr s'"
    by (auto simp: bindE_Inr_iff)
  then have "sched_same (s\<lparr>km_ram := m\<rparr>) s'" by (rule Suc.IH)
  then show ?case by (simp add: sched_same_def)
qed simp

lemma draw_columns_same: "draw_columns s b rect r x k = Inr s' \<Longrightarrow> sched_same s s'"
proof (induction k arbitrary: s x)
  case (Suc k)
  then obtain s1 where "draw_column s b rect r (int x) 0 (nat (vr_height r)) = Inr s1"
    "draw_columns s1 b rect r (Suc x) k = Inr s'"
    by (auto simp: bindE_Inr_iff)
  then show ?case using draw_column_same Suc.IH sched_same_trans by blast
qed simp

lemma rectangle_draw_same: "video_rectangle_draw s video rect = Inr s' \<Longrightarrow> sched_same s s'"
proof -
  assume "video_rectangle_draw s video rect = Inr s'"
  then obtain b r k s1 where "draw_columns s b rect r 0 k = Inr s1" "upd_rectangle rect (\<lambda>r. r\<lparr>vr_redraw := False\<rparr>) s1 = Inr s'"
    by (auto simp: video_rectangle_draw_def bindE_Inr_iff)
  moreover from this(2) have "sched_same s1 s'" by (auto simp: upd_rectangle_def bindE_Inr_iff)
  ultimately show ?thesis using draw_columns_same sched_same_trans by blast
qed

lemma draw_step_same:
  "bindE (deref (rectangle_items s) item) (\<lambda>it. bindE (video_rectangle_draw s video (ri_rectangle it)) (\<lambda>s. Inr (ri_next it, s)))
     = Inr r \<Longrightarrow> sched_same s (snd r)"
  by (auto simp: bindE_Inr_iff dest: rectangle_draw_same)

lemma draw_loop_same: "draw_loop s video item = Some (Inr s') \<Longrightarrow> sched_same s s'"
proof -
  assume r: "draw_loop s video item = Some (Inr s')"
  have "\<forall>s'. Inr s' = Inr s' \<longrightarrow> y = Inr s' \<longrightarrow> sched_same s s'" if "draw_loop s video item = Some y" for y
    by (rule draw_loop.raw_induct [where P = "\<lambda>s video item y. \<forall>s'. Inr s' = Inr s' \<longrightarrow> y = Inr s' \<longrightarrow> sched_same s s'", OF _ that])
      (auto split: if_splits sum.splits dest: draw_step_same intro: sched_same_trans)
  then show ?thesis using r by blast
qed

lemma text_same:
  "video_font_make_empty_string s f n = Inr (p, s') \<Longrightarrow> sched_same s s'"
  "video_font_draw s f p data = Inr s' \<Longrightarrow> sched_same s s'"
  "video_rectangle_draw_font_data s rect f p x y n = Inr s' \<Longrightarrow> sched_same s s'"
  "video_font_free_string s p = Inr s' \<Longrightarrow> sched_same s s'"
  by (auto simp: video_font_make_empty_string_def video_font_draw_def video_rectangle_draw_font_data_def
      video_rectangle_draw_blocks_def video_font_free_string_def bindE_Inr_iff
      dest: kzalloc_other kfree_ram(2) draw_blocks_loop_same intro: sched_same_more)

lemma paste_line_same:
  assumes "paste_line s rect data ignore y = Inr (Some (s', x))"
  shows "sched_same s s'"
proof -
  obtain rc where rc: "rectangles s rect = Some rc" using assms by (auto simp: paste_line_def deref_def split: option.splits)
  obtain f where f: "fonts s (console_font s) = Some f"
    using assms rc by (auto simp: paste_line_def deref_def split: option.splits)
  obtain nxt n where l: "video_terminal_get_next_line (km_ram s) rc f data = Inr (nxt, n)"
    using assms rc f by (cases "video_terminal_get_next_line (km_ram s) rc f data") (auto simp: paste_line_def deref_Some)
  note a = assms [unfolded paste_line_def deref_Some [where store = "rectangles s", OF rc]
      deref_Some [where store = "fonts s", OF f] bindE.simps l prod.case]
  show ?thesis
  proof (cases "nxt = 0 \<or> ignore > 0")
    case True
    then show ?thesis using a by (auto split: if_splits)
  next
    case False
    then obtain p s1 s2 s3 f1 f2 where "video_font_make_empty_string s (console_font s) n = Inr (p, s1)"
      "video_font_draw s1 f1 p data = Inr s2" "video_rectangle_draw_font_data s2 rect f2 p 0 y n = Inr s3" "video_font_free_string s3 p = Inr s'"
      using a by (auto simp: bindE_Inr_iff)
    then show ?thesis by (metis text_same sched_same_trans)
  qed
qed

lemma paste_loop_same:
  assumes "paste_loop s rect data ignore y = Some (Inr s')"
  shows "sched_same s s'"
proof -
  have "\<forall>s'. Inr s' = Inr s' \<longrightarrow> r = Inr s' \<longrightarrow> sched_same s s'" if "paste_loop s rect data ignore y = Some r" for r
    by (rule paste_loop.raw_induct [where P = "\<lambda>s rect data ignore y r. \<forall>s'. Inr s' = Inr s' \<longrightarrow> r = Inr s' \<longrightarrow> sched_same s s'", OF _ that])
      (auto split: sum.splits option.splits prod.splits dest: paste_line_same intro: sched_same_trans)
  then show ?thesis using assms by blast
qed

lemma memcpy_virtual_same: "memcpy_virtual mmu s d e i k = Inr s' \<Longrightarrow> sched_same s s'"
proof (induction k arbitrary: s i)
  case (Suc k)
  then obtain m where "memcpy_virtual mmu (s\<lparr>km_ram := m\<rparr>) d e (Suc i) k = Inr s'"
    by (auto simp: bindE_Inr_iff write_virtual_def split: option.splits)
  then have "sched_same (s\<lparr>km_ram := m\<rparr>) s'" by (rule Suc.IH)
  then show ?case by (simp add: sched_same_def)
qed simp

lemma paging_switch_same: "paging_switch s c = Inr s' \<Longrightarrow> sched_same s s'"
  by (auto simp: paging_switch_def bindE_Inr_iff)

lemma flush_same:
  assumes "video_flush_back_buffer mmu s video = Inr s'"
  shows "sched_same s s' \<and> (\<exists>c. chunks s (kernel_paging_chunk s) = Some c \<and> current_directory s' = directory_entry c \<and>
    current_chunk s' = kernel_paging_chunk s)"
proof -
  obtain s1 where 1: "task_page s = Inr s1" using assms by (cases "task_page s") (simp_all add: video_flush_back_buffer_def)
  obtain v where v: "videos s1 video = Some v"
    using assms 1 by (auto simp: video_flush_back_buffer_def deref_def split: option.splits)
  note a = assms [unfolded video_flush_back_buffer_def 1 bindE.simps deref_Some [where store = "videos s1", OF v]]
  obtain s2 where 2: "memcpy_virtual mmu s1 0xA0000 (v_backbuffer v) 0 64000 = Inr s2"
    using a by (cases "memcpy_virtual mmu s1 0xA0000 (v_backbuffer v) 0 64000") simp_all
  obtain s3 where 3: "kernel_page s2 = Inr s3" using a 2 by (cases "kernel_page s2") simp_all
  have "video_back_buffer_clear s3 video = Inr s'" using a 2 3 by simp
  then obtain m where 4: "s' = s3\<lparr>km_ram := m\<rparr>" by (auto simp: video_back_buffer_clear_def bindE_Inr_iff)
  note r = 1 2 3 4
  have "sched_same s s1" using r(1) by (auto simp: task_page_def task_page_task_def bindE_Inr_iff dest: paging_switch_same)
  then have 2: "sched_same s s2" using memcpy_virtual_same [OF r(2)] sched_same_trans by blast
  moreover have "sched_same s2 s3" using r(3) by (simp add: kernel_page_def paging_switch_same)
  ultimately have "sched_same s s'" using sched_same_trans by (fastforce simp: r(4))
  moreover have "\<exists>c. chunks s2 (kernel_paging_chunk s2) = Some c \<and> current_directory s3 = directory_entry c \<and>
      current_chunk s3 = kernel_paging_chunk s2"
    using r(3) by (auto simp: kernel_page_def paging_switch_def bindE_Inr_iff deref_def split: option.splits)
  ultimately show ?thesis using 2 by (simp add: r(4) sched_same_def)
qed

lemma video_process_same:
  assumes "video_process mmu s video = Inr s'"
  shows "sched_same s s'"
proof -
  obtain v where v: "videos s video = Some v" using assms by (auto simp: video_process_def bindE_Inr_iff deref_def split: option.splits)
  show ?thesis
  proof (cases "v_flags v AND 1 = 0")
    case True
    then show ?thesis using assms v by (simp add: video_process_def deref_Some)
  next
    case False
    let ?paste = "if v_printing_rectangle v \<noteq> 0 then video_terminal_paste s (v_properties v) (v_printing_rectangle v) else Inr s"
    have a: "video_draw mmu s video = Inr s'" using assms v False by (simp add: video_process_def deref_Some)
    obtain s1 where 1: "?paste = Inr s1"
      using a v by (cases ?paste) (simp_all add: video_draw_def deref_Some)
    have b: "bindE (ran (draw_loop s1 video (v_rectangles v))) (\<lambda>s. bindE (video_flush_back_buffer mmu s video)
        (upd_video video (\<lambda>v. v\<lparr>v_flags := v_flags v AND NOT 2\<rparr>))) = Inr s'"
      using a v 1 by (simp add: video_draw_def deref_Some)
    obtain s2 where 2: "draw_loop s1 video (v_rectangles v) = Some (Inr s2)"
      using b by (auto simp: bindE_Inr_iff ran_def split: option.splits)
    obtain s3 where 3: "video_flush_back_buffer mmu s2 video = Inr s3"
      using b 2 by (auto simp: bindE_Inr_iff ran_def)
    have 4: "upd_video video (\<lambda>v. v\<lparr>v_flags := v_flags v AND NOT 2\<rparr>) s3 = Inr s'" using b 2 3 by (simp add: ran_def)
    have "sched_same s s1"
      using 1 by (auto simp: video_terminal_paste_def video_rectangle_fill_def bindE_Inr_iff ran_def split: option.splits if_splits
          dest!: fill_columns_same paste_loop_same intro: sched_same_trans)
    moreover have "sched_same s1 s2" by (rule draw_loop_same [OF 2])
    moreover have "sched_same s2 s3" using flush_same [OF 3] by simp
    moreover have "sched_same s3 s'" using 4 by (auto simp: upd_video_def bindE_Inr_iff)
    ultimately show ?thesis using sched_same_trans by blast
  qed
qed

section \<open>The steps of the interrupt\<close>

lemma task_next_awake:
  assumes "task_next s = Inr s'" "sched_ok s ts"
  shows "awake_in s x \<Longrightarrow> awake_in s' x" "ticks_since_initialized s' = ticks_since_initialized s"
proof -
  have l: "task_list s ts" using assms(2) by (simp add: sched_ok_def)
  obtain i where i: "i < length ts" "current_task s = ts ! i"
    using assms(2) unfolding sched_ok_def by (metis in_set_conv_nth)
  obtain y s1 where y: "task_get_next s = Inr (y, s1)" "s1 = s \<or> s1 = woken s (ts ! (Suc i mod length ts))"
    using task_get_next_result [OF l i(2,1)] by (cases "awake_in s (hd ts)") auto
  have "task_switch s1 y = Inr s'" using assms(1) y(1) by (simp add: task_next_def)
  then have s': "tasks s' = tasks s1 \<and> ticks_since_initialized s' = ticks_since_initialized s1"
    by (auto simp: task_switch_def paging_switch_def bindE_Inr_iff panic_def split: if_splits)
  show "awake_in s' x" if "awake_in s x"
    using that s' y(2) by (auto simp: awake_in_def woken_def split: option.splits if_splits)
  show "ticks_since_initialized s' = ticks_since_initialized s" using s' y(2) by (auto simp: woken_def)
qed

text \<open>The state in which the interrupt draws: the registers are saved and the clock has advanced.\<close>

definition timer_state :: "'a kstate_scheme \<Rightarrow> paging_4gb_chunk \<Rightarrow> task \<Rightarrow> interrupt_frame \<Rightarrow> 'a kstate_scheme" where
  "timer_state s k t frame =
     s\<lparr>current_directory := directory_entry k, current_chunk := kernel_paging_chunk s, process_is_running := False,
       tasks := (tasks s)(current_task s \<mapsto> t\<lparr>tk_registers := frame_registers frame\<rparr>),
       ticks_since_initialized := ticks_since_initialized s + 55\<rparr>"

lemma paging_process_empty:
  "chunks s c = Some k \<Longrightarrow> faults k = 0 \<Longrightarrow> paging_process past s c = Some (Inr s)"
  by (simp add: paging_process_def paging_process_fault_queue_def deref_Some fault_queue_loop.simps)

lemma interrupt_enters:
  assumes "chunks s (kernel_paging_chunk s) = Some k" "tasks s (current_task s) = Some t" "current_task s \<noteq> 0"
    and "interrupt_callbacks s ! nat interrupt \<noteq> 0"
    and "callback_fn (interrupt_callbacks s ! nat interrupt) (s\<lparr>current_directory := directory_entry k,
       current_chunk := kernel_paging_chunk s, process_is_running := False,
       tasks := (tasks s)(current_task s \<mapsto> t\<lparr>tk_registers := frame_registers frame\<rparr>)\<rparr>) = Inr (EntersTask, s')"
  shows "interrupt_handler callback_fn s interrupt frame = Inr (EntersTask, s')"
proof -
  let ?s = "s\<lparr>current_directory := directory_entry k, current_chunk := kernel_paging_chunk s, process_is_running := False\<rparr>"
  have k: "kernel_page s = Inr (s\<lparr>current_directory := directory_entry k, current_chunk := kernel_paging_chunk s\<rparr>)"
    using assms(1) by (simp add: kernel_page_def paging_switch_def deref_Some)
  have "assert_kernel_page ''task_current_save_state'' ?s = Inr ()"
    using assms(1) by (simp add: assert_kernel_page_def is_kernel_page_def kernel_get_page_directory_def deref_Some)
  then have "task_current_save_state ?s frame = Inr (?s\<lparr>tasks := (tasks ?s)(current_task ?s \<mapsto> t\<lparr>tk_registers := frame_registers frame\<rparr>)\<rparr>)"
    by (rule save_result) (use assms(2,3) in simp_all)
  with k assms(4,5) show ?thesis by (simp add: interrupt_handler_def process_mark_running_def Let_def)
qed

lemma pit_interrupt_steps:
  fixes s :: "'a kstate_scheme"
  defines "s0 \<equiv> s\<lparr>ticks_since_initialized := ticks_since_initialized s + 55\<rparr>"
  assumes "current_chunk s = kernel_paging_chunk s" "chunks s (kernel_paging_chunk s) = Some k" "faults k = 0"
    and "process_at s (current_process s) = Some p" "video_process mmu s0 (p_video p) = Inr sv" "sched_ok s ts"
  obtains sw sn where "task_process sv = Inr sw" "task_next sw = Inr sn" "pit_interrupt mmu past s = Inr (EntersTask, sn)"
    "sched_ok sw ts" "sched_ok sn ts" "awake_in sn (current_task sn)" "current_task sw = current_task s"
    "chunks sw = chunks s" "ticks_since_initialized sw = ticks_since_initialized s + 55"
    "tasks sw = (\<lambda>x. if x \<in> set ts then map_option (rouse (ticks_since_initialized s + 55)) (tasks s x) else tasks s x)"
proof -
  have ss: "sched_same s0 sv" by (rule video_process_same [OF assms(6)])
  have ok: "sched_ok sv ts" using ss assms(7) by (simp add: s0_def sched_same_def sched_ok_def task_list_def tasks_paged_def)
  let ?sw = "sv\<lparr>tasks := \<lambda>x. if x \<in> set ts then map_option (rouse (ticks_since_initialized sv)) (tasks sv x) else tasks sv x\<rparr>"
  have w: "task_process sv = Inr ?sw"
    using ok wake_loop_chain [of sv "task_head sv" ts]
    by (simp add: task_process_def task_wake_tasks_def sched_ok_def task_list_def ran_def)
  have "sched_step sv ?sw" by (rule sched_step.tick [where now = "ticks_since_initialized sv"]) (use w in simp)
  then have okw: "sched_ok ?sw ts" using ok by (rule sched_step_ok)
  obtain sn where n: "task_next ?sw = Inr sn" "sched_ok sn ts" "awake_in sn (current_task sn)" by (rule task_next_sched [OF okw])
  have pe: "paging_process past s0 (kernel_paging_chunk s) = Some (Inr s0)"
    by (rule paging_process_empty) (use assms(3,4) in \<open>simp_all add: s0_def\<close>)
  have pp: "current_chunk s0 = kernel_paging_chunk s" "kernel_paging_chunk s0 = kernel_paging_chunk s"
    "process_at s0 (current_process s0) = Some p"
    using assms(2,5) by (simp_all add: s0_def)
  have p: "pit_interrupt mmu past s = Inr (EntersTask, sn)"
    using pp pe assms(6) w n(1) unfolding pit_interrupt_def s0_def [symmetric] Let_def by (simp add: ran_def deref_Some)
  have te: "tasks ?sw = (\<lambda>x. if x \<in> set ts then map_option (rouse (ticks_since_initialized s + 55)) (tasks s x) else tasks s x)"
    using ss by (auto simp: sched_same_def s0_def)
  show ?thesis
    by (rule that [OF w n(1) p okw n(2,3) _ _ _ te]) (use ss in \<open>simp_all add: sched_same_def s0_def\<close>)
qed

lemma timer_state_ok:
  assumes "sched_ok s ts" "tasks s (current_task s) = Some t"
  shows "sched_ok (s\<lparr>current_directory := d, current_chunk := c, process_is_running := b,
    tasks := (tasks s)(current_task s \<mapsto> t\<lparr>tk_registers := r\<rparr>)\<rparr>) ts"
proof -
  have "upd_task (current_task s) (\<lambda>t. t\<lparr>tk_registers := r\<rparr>) s = Inr (s\<lparr>tasks := (tasks s)(current_task s \<mapsto> t\<lparr>tk_registers := r\<rparr>)\<rparr>)"
    using assms(2) by (simp add: upd_task_def deref_Some)
  then have "sched_ok (s\<lparr>tasks := (tasks s)(current_task s \<mapsto> t\<lparr>tk_registers := r\<rparr>)\<rparr>) ts"
    by (rule upd_task_ok [OF _ assms(1)]) simp_all
  then show ?thesis by (simp add: sched_ok_def task_list_def tasks_paged_def)
qed

section \<open>Property\<close>

text \<open>C9: The timer interrupt preempts: with no page fault queued for the kernel and with what is drawn drawn, the
  interrupt saves the registers of the interrupted task, advances the clock by 55 milliseconds, wakes the tasks
  that sleep with a deadline other than \<open>- 1\<close> that has passed (a deadline of 0 too, which the comment on
  \<open>awake_at\<close> in \<open>task.h\<close> says is a permanent sleep), and goes on in a task of the list that is awake, with that task's page directory in force;
  the list is intact and no other task's registers change.\<close>

theorem timer_interrupt_preempts:
  assumes "sched_ok s ts" "chunks s (kernel_paging_chunk s) = Some k" "faults k = 0" "tasks s (current_task s) = Some t"
    and "interrupt_callbacks s ! 32 \<noteq> 0" "callback_fn (interrupt_callbacks s ! 32) = pit_interrupt mmu past"
    and "process_at s (current_process s) = Some p" "video_process mmu (timer_state s k t frame) (p_video p) = Inr sv"
  shows "\<exists>s' u c. interrupt_handler callback_fn s 0x20 frame = Inr (EntersTask, s') \<and> sched_ok s' ts \<and>
    ticks_since_initialized s' = ticks_since_initialized s + 55 \<and>
    awake_in s' (current_task s') \<and> tasks s' (current_task s') = Some u \<and>
    chunks s' (tk_page_directory u) = Some c \<and> current_directory s' = directory_entry c \<and>
    (\<forall>x\<in>set ts. \<exists>v v'. tasks s x = Some v \<and> tasks s' x = Some v' \<and>
       tk_registers v' = (if x = current_task s then frame_registers frame else tk_registers v) \<and>
       (tk_awake v \<or> tk_awake_at v \<noteq> - 1 \<and> tk_awake_at v < ticks_since_initialized s + 55 \<longrightarrow> tk_awake v'))"
proof -
  let ?s = "s\<lparr>current_directory := directory_entry k, current_chunk := kernel_paging_chunk s, process_is_running := False,
       tasks := (tasks s)(current_task s \<mapsto> t\<lparr>tk_registers := frame_registers frame\<rparr>)\<rparr>"
  have l: "task_list s ts" "current_task s \<in> set ts" using assms(1) by (simp_all add: sched_ok_def)
  have st: "tasks s x \<noteq> None \<and> x \<noteq> 0" if "x \<in> set ts" for x
    using that l(1) task_chain_mem unfolding task_list_def by blast
  have s0: "timer_state s k t frame = ?s\<lparr>ticks_since_initialized := ticks_since_initialized ?s + 55\<rparr>"
    by (simp add: timer_state_def)
  have vp: "video_process mmu (?s\<lparr>ticks_since_initialized := ticks_since_initialized ?s + 55\<rparr>) (p_video p) = Inr sv"
    using assms(8) unfolding s0 .
  have ok: "sched_ok ?s ts" by (rule timer_state_ok [OF assms(1,4)])
  have c: "current_chunk ?s = kernel_paging_chunk ?s" "chunks ?s (kernel_paging_chunk ?s) = Some k" "faults k = 0"
    "process_at ?s (current_process ?s) = Some p" using assms(2,3,7) by simp_all
  obtain sw sn where r: "task_process sv = Inr sw" "task_next sw = Inr sn" "pit_interrupt mmu past ?s = Inr (EntersTask, sn)"
    "sched_ok sw ts" "sched_ok sn ts" "awake_in sn (current_task sn)" "current_task sw = current_task ?s"
    "chunks sw = chunks ?s" "ticks_since_initialized sw = ticks_since_initialized ?s + 55"
    "tasks sw = (\<lambda>x. if x \<in> set ts then map_option (rouse (ticks_since_initialized ?s + 55)) (tasks ?s x) else tasks ?s x)"
    by (rule pit_interrupt_steps [OF c vp ok, where past = past])
  have i: "interrupt_handler callback_fn s 0x20 frame = Inr (EntersTask, sn)"
    by (rule interrupt_enters [OF assms(2,4)]) (use st [OF l(2)] assms(5,6) r(3) in simp_all)
  have k: "keeps x sw sn" for x by (rule task_next_keeps(1) [OF r(2,4)])
  obtain u c where u: "tasks sn (current_task sn) = Some u" "chunks sn (tk_page_directory u) = Some c"
    "current_directory sn = directory_entry c" using task_next_keeps(2) [OF r(2,4)] by blast
  have "\<exists>v v'. tasks s x = Some v \<and> tasks sn x = Some v' \<and>
       tk_registers v' = (if x = current_task s then frame_registers frame else tk_registers v) \<and>
       (tk_awake v \<or> tk_awake_at v \<noteq> - 1 \<and> tk_awake_at v < ticks_since_initialized s + 55 \<longrightarrow> tk_awake v')"
    if x: "x \<in> set ts" for x
  proof -
    obtain v where v: "tasks s x = Some v" using st [OF x] by blast
    let ?v = "if x = current_task s then v\<lparr>tk_registers := frame_registers frame\<rparr> else v"
    have w: "tasks sw x = Some (rouse (ticks_since_initialized s + 55) ?v)" using r(10) x v assms(4) by auto
    then obtain v' where v': "tasks sn x = Some v'" "same_context (rouse (ticks_since_initialized s + 55) ?v) v'"
      using k [of x] unfolding keeps_def by auto
    have "tk_awake v'" if "tk_awake v \<or> tk_awake_at v \<noteq> - 1 \<and> tk_awake_at v < ticks_since_initialized s + 55"
    proof -
      have "awake_in sw x" using that w by (auto simp: awake_in_def rouse_def)
      from task_next_awake(1) [OF r(2,4) this] show ?thesis using v'(1) by (simp add: awake_in_def)
    qed
    then show ?thesis using v v' by (auto simp: same_context_def rouse_def)
  qed
  moreover have "ticks_since_initialized sn = ticks_since_initialized s + 55" using task_next_awake(2) [OF r(2,4)] r(9) by simp
  ultimately show ?thesis using i r(5,6) u by blast
qed

text \<open>Task 16 is interrupted at 0 milliseconds: task 48 goes on.  The video of its process has nothing to draw.\<close>

definition demo_video :: video where
  "demo_video = \<lparr>v_properties = kernel_terminal_properties demo_tasks, v_ptr = 0xA0000, v_backbuffer = 0x1000, v_rectangles = 0,
     v_rectangle_last = 0, v_printing_rectangle = 0, v_flags = 0\<rparr>"

definition demo_timer :: kstate where
  "demo_timer = demo_tasks\<lparr>ticks_since_initialized := 55, interrupt_callbacks := replicate 512 64, current_process := 80,
     process_at := [80 \<mapsto> zero_process\<lparr>p_video := 96\<rparr>], videos := [96 \<mapsto> demo_video]\<rparr>"

lemma timer_interrupt_preempts_witness:
  "\<exists>s'. interrupt_handler (\<lambda>_. pit_interrupt (\<lambda>_ _ _. None) (\<lambda>_ _ s. s)) demo_timer 0x20 demo_frame = Inr (EntersTask, s') \<and>
     awake_in s' 32"
proof -
  let ?t = "demo_task True (- 1) 32 0" and ?k = "\<lparr>directory_entry = 8192, faults = 0, last_fault = 0\<rparr>"
  have k: "sched_ok demo_timer [16, 32, 48]"
    using demo_tasks_list by (simp add: sched_ok_def tasks_paged_def task_list_def demo_timer_def demo_tasks_def demo_task_def)
  have v: "video_process (\<lambda>_ _ _. None) (timer_state demo_timer ?k ?t demo_frame) (p_video (zero_process\<lparr>p_video := 96\<rparr>)) =
      Inr (timer_state demo_timer ?k ?t demo_frame)"
    by (simp add: video_process_def timer_state_def demo_timer_def deref_Some demo_video_def)
  have st: "chunks demo_timer (kernel_paging_chunk demo_timer) = Some ?k" "tasks demo_timer (current_task demo_timer) = Some ?t"
    "interrupt_callbacks demo_timer ! 32 \<noteq> 0" "process_at demo_timer (current_process demo_timer) = Some (zero_process\<lparr>p_video := 96\<rparr>)"
    "tasks demo_timer 32 = Some (demo_task False 100 48 16)" "ticks_since_initialized demo_timer = 55"
    by (simp_all add: demo_timer_def demo_tasks_def)
  have f: "faults ?k = 0" by simp
  obtain s' v' where "interrupt_handler (\<lambda>_. pit_interrupt (\<lambda>_ _ _. None) (\<lambda>_ _ s. s)) demo_timer 0x20 demo_frame = Inr (EntersTask, s')"
    "tasks s' 32 = Some v'" "tk_awake v'"
    using timer_interrupt_preempts [OF k st(1) f st(2,3) _ st(4) v, where callback_fn = "\<lambda>_. pit_interrupt (\<lambda>_ _ _. None) (\<lambda>_ _ s. s)"
        and past = "\<lambda>_ _ s. s"] st(5,6)
    by (auto simp: demo_task_def)
  then show ?thesis by (auto simp: awake_in_def)
qed

end
