(* ===== verification/File_Open.thy ===== *)
theory File_Open
  imports File
begin

text \<open>
  From a path to the bytes of a file: \<open>fopen\<close> and \<open>fread\<close> of \<open>src/fs/file.c\<close> on the FAT16 file system
  (\<open>src/fs/fat/fat16.c\<close>), over the path parser, the heap and the streams of the disk.
\<close>

section \<open>Names of directory entries\<close>

text \<open>The characters of a field of \<open>n\<close> bytes, up to a blank or a terminator.\<close>

definition entry_part :: "ram \<Rightarrow> addr \<Rightarrow> nat \<Rightarrow> byte list" where
  "entry_part m p n = takeWhile (\<lambda>b. b \<noteq> 0 \<and> b \<noteq> 0x20) (read_bytes m p n)"

definition entry_name :: "ram \<Rightarrow> addr \<Rightarrow> byte list" where
  "entry_name m item =
     (let b = entry_part m item 8; e = entry_part m (item + 8) 4 in b @ (if e = [] then [] else 0x2E # e))"

text \<open>
  The name ends inside its eight bytes, and the extension at the latest with the byte of the attributes,
  which is a blank for a plain archived file: otherwise \<open>fat16_to_proper_string\<close> reads on into the next field.
\<close>

definition entry_named :: "ram \<Rightarrow> addr \<Rightarrow> bool" where
  "entry_named m item \<longleftrightarrow> length (entry_part m item 8) < 8 \<and> length (entry_part m (item + 8) 4) < 4"

lemma read_bytes_Suc: "read_bytes m p (Suc n) = m p # read_bytes m (p + 1) n"
  by (rule nth_equalityI) (auto simp: nth_Cons' algebra_simps of_nat_diff less_Suc_eq_0_disj)

lemma entry_part_Suc:
  "entry_part m p (Suc n) = (if m p \<noteq> 0 \<and> m p \<noteq> 0x20 then m p # entry_part m (p + 1) n else [])"
  by (simp add: entry_part_def read_bytes_Suc)

lemma to_proper_string_result:
  assumes "length (entry_part m p n) < n" "length (entry_part m p n) < k"
  shows "fat16_to_proper_string m p (pre @ replicate k 0) (length pre) =
    Some (pre @ entry_part m p n @ replicate (k - length (entry_part m p n)) 0, length pre + length (entry_part m p n))"
  using assms
proof (induction n arbitrary: p pre k)
  case (Suc n)
  obtain j where k: "k = Suc j" using Suc.prems(2) by (cases k) simp_all
  show ?case
  proof (cases "m p \<noteq> 0 \<and> m p \<noteq> 0x20")
    case True
    have e: "entry_part m p (Suc n) = m p # entry_part m (p + 1) n" using True by (simp add: entry_part_Suc)
    have l: "length (entry_part m (p + 1) n) < n" "length (entry_part m (p + 1) n) < j" using Suc.prems e k by simp_all
    have "fat16_to_proper_string m p (pre @ replicate k 0) (length pre) =
        fat16_to_proper_string m (p + 1) ((pre @ [m p]) @ replicate j 0) (length (pre @ [m p]))"
      using True by (subst fat16_to_proper_string.simps) (simp add: k list_update_append)
    also have "\<dots> = Some ((pre @ [m p]) @ entry_part m (p + 1) n @ replicate (j - length (entry_part m (p + 1) n)) 0,
        length (pre @ [m p]) + length (entry_part m (p + 1) n))" by (rule Suc.IH [OF l])
    finally show ?thesis by (simp add: e k)
  next
    case False
    then have "entry_part m p (Suc n) = []" by (auto simp: entry_part_Suc)
    then show ?thesis
      using False by (subst fat16_to_proper_string.simps) (auto simp: k list_update_append)
  qed
qed simp

lemma entry_name_length: "entry_named m item \<Longrightarrow> length (entry_name m item) < 12"
  by (auto simp: entry_name_def entry_named_def Let_def)

lemma full_relative_filename:
  assumes "entry_named m item"
  shows "fat16_get_full_relative_filename m item 108 =
    Some (entry_name m item @ replicate (108 - length (entry_name m item)) 0)"
proof -
  let ?b = "entry_part m item 8" and ?e = "entry_part m (item + 8) 4"
  have l: "length ?b < 8" "length ?e < 4" using assms by (simp_all add: entry_named_def)
  have b: "fat16_to_proper_string m item (replicate 108 0) 0 = Some (?b @ replicate (108 - length ?b) 0, length ?b)"
    using to_proper_string_result [of m item 8 108 "[]"] l(1) by simp
  have ne: "?e \<noteq> [] \<longleftrightarrow> m (item + 8) \<noteq> 0 \<and> m (item + 8) \<noteq> 0x20"
    using entry_part_Suc [of m "item + 8" 3] by simp
  show ?thesis
  proof (cases "?e = []")
    case True
    then show ?thesis using b ne by (auto simp: fat16_get_full_relative_filename_def entry_name_def)
  next
    case False
    define k where "k = 107 - length ?b"
    have k: "108 - length ?b = Suc k" "length ?e < k" using l by (simp_all add: k_def)
    have dot: "(?b @ replicate (108 - length ?b) 0)[length ?b := 0x2E] = (?b @ [0x2E]) @ replicate k 0"
      by (simp add: k(1) list_update_append)
    have "fat16_to_proper_string m (item + 8) ((?b @ [0x2E]) @ replicate k 0) (length (?b @ [0x2E])) =
        Some ((?b @ [0x2E]) @ ?e @ replicate (k - length ?e) 0, length (?b @ [0x2E]) + length ?e)"
      by (rule to_proper_string_result [OF l(2) k(2)])
    then have "fat16_get_full_relative_filename m item 108 = Some ((?b @ [0x2E]) @ ?e @ replicate (k - length ?e) 0)"
      using b ne False dot by (simp add: fat16_get_full_relative_filename_def)
    then show ?thesis using False by (simp add: entry_name_def Let_def k_def)
  qed
qed

lemma entry_name_not_null: "0 \<notin> set (entry_name m item)"
  by (auto simp: entry_name_def entry_part_def Let_def dest: set_takeWhileD)

lemma view_text_padded:
  assumes "0 \<notin> set xs" "length xs < n"
  shows "view_text (\<lambda>i. (xs @ replicate (n - length xs) 0) ! i) n = xs"
  by (rule view_text_string) (use assms in \<open>auto simp: cstr_def nth_append in_set_conv_nth\<close>)

text \<open>An entry is the one looked for when the names differ at most in the case of letters.\<close>

definition entry_matches :: "ram \<Rightarrow> addr \<Rightarrow> byte list \<Rightarrow> bool" where
  "entry_matches m item w \<longleftrightarrow> map tolower (entry_name m item) = map tolower w"

lemma entry_compare:
  assumes "entry_named m item" "string_in m' nme w" "length w < 108"
  shows "\<exists>buf. fat16_get_full_relative_filename m item COS32_MAX_PATH = Some buf \<and>
    (istrncmp (\<lambda>i. buf ! i) (str_at m' nme) (int COS32_MAX_PATH) = 0 \<longleftrightarrow> entry_matches m item w)"
proof -
  let ?buf = "entry_name m item @ replicate (108 - length (entry_name m item)) 0"
  have "view_text (\<lambda>i. ?buf ! i) 108 = entry_name m item"
    using entry_name_length [OF assms(1)] by (intro view_text_padded entry_name_not_null) simp
  moreover have "view_text (str_at m' nme) 108 = w"
    using text_at_string [OF assms(2,3)] by (simp add: text_at_view)
  ultimately have "istrncmp (\<lambda>i. ?buf ! i) (str_at m' nme) 108 = 0 \<longleftrightarrow> entry_matches m item w"
    using istrncmp_text [of 108 "\<lambda>i. ?buf ! i" "str_at m' nme"] by (simp add: entry_matches_def)
  then show ?thesis using full_relative_filename [OF assms(1)] by (intro exI [of _ ?buf]) simp
qed

section \<open>Looking up an entry\<close>

text \<open>\<open>fat_only s s'\<close>: besides the heap and the memory only the file system's items and descriptors and
  the parser's stores may differ.\<close>

definition fat_only :: "'a fatmem_scheme \<Rightarrow> 'a fatmem_scheme \<Rightarrow> bool" where
  "fat_only s s' \<longleftrightarrow> s' = s\<lparr>km_heap := km_heap s', km_ram := km_ram s', path_roots := path_roots s',
     path_parts := path_parts s', fat_items := fat_items s', fat_fds := fat_fds s'\<rparr>"

lemma fat_only_more: "kmem.more s' = kmem.more s \<Longrightarrow> fat_only s s'"
  by (cases s; cases s'; simp add: fat_only_def)

lemma fat_only_path: "path_only s s' \<Longrightarrow> fat_only s s'"
  by (cases s; cases s'; simp add: fat_only_def path_only_def)

lemma fat_only_trans: "fat_only s s' \<Longrightarrow> fat_only s' s'' \<Longrightarrow> fat_only s s''"
  by (cases s; cases s'; cases s''; simp add: fat_only_def)

lemma fat_only_stores [simp]:
  "fat_only s (s'\<lparr>fat_items := f\<rparr>) = fat_only s s'" "fat_only s (s'\<lparr>fat_fds := g\<rparr>) = fat_only s s'"
  "fat_only s (s'\<lparr>km_ram := m\<rparr>) = fat_only s s'"
  by (cases s; cases s'; simp add: fat_only_def)+

lemma fat_only_mounted: "fat_only s s' \<Longrightarrow> fat_mounted s' p = fat_mounted s p"
  by (cases s; cases s'; simp add: fat_only_def fat_mounted_def)

lemma fat_only_disk: "fat_only s s' \<Longrightarrow> the_disk s' = the_disk s" "fat_only s s' \<Longrightarrow> disk_at s' = disk_at s"
  "fat_only s s' \<Longrightarrow> fs_private s' = fs_private s"
  by (cases s; cases s'; simp add: fat_only_def fs_private_def)+

lemma takes_fat_stores [simp]:
  "takes s bs (s'\<lparr>fat_items := f\<rparr>) = takes s bs s'" "takes s bs (s'\<lparr>fat_fds := g\<rparr>) = takes s bs s'"
  by (simp_all add: takes_def kmem_ok_def kmem_room_def kmem_live_def kmem_spare_def spare_in_def kmem_arena_def)

lemma more_fat_items: "kmem.more s' = kmem.more s \<Longrightarrow> fat_items s' = fat_items (s :: 'a fatmem_scheme)"
  by (cases s; cases s'; simp)

text \<open>The entries of a directory in use, whatever the heap hands out meanwhile.\<close>

lemma entry_region: "i < k \<Longrightarrow> region (dir + 32 * of_nat i) 32 \<subseteq> region dir (32 * k)"
  using region_sub [of "32 * i" 32 "32 * k" dir] by simp

lemma read_bytes_part:
  assumes "read_bytes m p N = read_bytes m' q N" "k + n \<le> N"
  shows "read_bytes m (p + of_nat k) n = read_bytes m' (q + of_nat k) n"
proof (rule nth_equalityI)
  fix i assume "i < length (read_bytes m (p + of_nat k) n)"
  then have i: "i < n" by simp
  then have "read_bytes m p N ! (k + i) = read_bytes m' q N ! (k + i)" "k + i < N" using assms by simp_all
  then show "read_bytes m (p + of_nat k) n ! i = read_bytes m' (q + of_nat k) n ! i" using i by (simp add: add.assoc)
qed simp

lemma entry_same:
  assumes "read_bytes m p 32 = read_bytes m' q 32"
  shows "entry_name m p = entry_name m' q" "entry_named m p = entry_named m' q" "entry_matches m p w = entry_matches m' q w"
    "item_attribute m p = item_attribute m' q" "fat16_get_first_cluster m p = fat16_get_first_cluster m' q"
proof -
  have e: "entry_part m p 8 = entry_part m' q 8" "entry_part m (p + 8) 4 = entry_part m' (q + 8) 4"
    using read_bytes_part [OF assms, of 0 8] read_bytes_part [OF assms, of 8 4] by (simp_all add: entry_part_def)
  then show "entry_name m p = entry_name m' q" "entry_named m p = entry_named m' q" by (simp_all add: entry_name_def entry_named_def)
  then show "entry_matches m p w = entry_matches m' q w" by (simp add: entry_matches_def)
  have b: "m (p + of_nat k) = m' (q + of_nat k)" if "k < 32" for k
    using read_bytes_part [OF assms, of k 1] that by (simp add: read_bytes_def)
  show "item_attribute m p = item_attribute m' q" using b [of 11] by (simp add: item_attribute_def)
  show "fat16_get_first_cluster m p = fat16_get_first_cluster m' q"
    using b [of 20] b [of 21] b [of 26] b [of 27]
    by (simp add: fat16_get_first_cluster_def load16_def add.assoc)
qed

lemma find_item_skip:
  assumes "\<forall>i<j. entry_named (km_ram s) (item + 32 * of_nat i) \<and> \<not> entry_matches (km_ram s) (item + 32 * of_nat i) w"
    and "string_in (km_ram s) nme w" "length w < 108"
  shows "find_item_loop drv s item nme f (j + k) = find_item_loop drv s (item + 32 * of_nat j) nme f k"
  using assms(1)
proof (induction j arbitrary: item)
  case (Suc j)
  have "entry_named (km_ram s) item" "\<not> entry_matches (km_ram s) item w" using Suc.prems [rule_format, of 0] by simp_all
  with entry_compare [OF _ assms(2,3), of "km_ram s" item]
  have "find_item_loop drv s item nme f (Suc j + k) = find_item_loop drv s (item + 32) nme f (j + k)"
    by (auto simp: returns_def)
  also have "\<dots> = find_item_loop drv s (item + 32 + 32 * of_nat j) nme f k"
    by (rule Suc.IH) (use Suc.prems in \<open>auto simp: algebra_simps dest: spec [of _ "Suc _"]\<close>)
  finally show ?case by (simp add: algebra_simps)
qed simp

lemma new_file_item:
  fixes s :: "'a fatmem_scheme"
  assumes "kmem_ok s" "2 \<le> kmem_room s" "region item 32 \<inter> kmem_spare s = {}"
    and "item_attribute (km_ram s) item AND FAT_FILE_SUBDIRECTORY = 0"
  obtains q c s' where "fat16_new_fat_item_for_directory_item drv s item = Inr (q, s')" "takes s [q, c] s'"
    "fat_items s' = (fat_items s)(q \<mapsto> \<lparr>fi_ptr = c, fi_type = FAT_ITEM_TYPE_FILE\<rparr>)" "fat_only s s'"
    "read_bytes (km_ram s') c 32 = read_bytes (km_ram s) item 32" "path_roots s' = path_roots s"
proof -
  obtain q s1 where q: "kzalloc s 8 = Inr (q, s1)" "takes s [q] s1" "kmem.more s1 = kmem.more s"
    by (rule takes_kzalloc [OF assms(1), of 8]) (use assms(2) in simp_all)
  have "0 < kmem_room s1" using takes_room [OF q(2)] assms(2) by simp
  then obtain c s2 where c: "kzalloc s1 32 = Inr (c, s2)" "takes s1 [c] s2" "kmem.more s2 = kmem.more s1"
    "km_ram s2 = memset (km_ram s1) c 0 32"
    by (rule takes_kzalloc [OF takes_ok [OF q(2)], of 32]) simp_all
  let ?m = "memcpy (km_ram s2) c item 32"
  let ?s = "s2\<lparr>km_ram := ?m, fat_items := (fat_items s2)(q \<mapsto> \<lparr>fi_ptr = c, fi_type = FAT_ITEM_TYPE_FILE\<rparr>)\<rparr>"
  have nz: "q \<noteq> 0" "c \<noteq> 0" using takes_nonnull [OF q(2)] takes_nonnull [OF c(2)] by simp_all
  have t2: "takes s [q, c] s2" using takes_trans [OF q(2) c(2)] by simp
  have c32: "region c 32 \<subseteq> region c 4096" by (rule region_mono) simp
  have csp: "region c 4096 \<subseteq> kmem_spare s" using takes_region [OF t2] by simp
  have "?m x = km_ram s2 x" if "\<forall>b \<in> set [q, c]. x \<notin> region b 4096" for x
    by (rule memcpy_out) (use that c32 in auto)
  from takes_store [OF t2 this] have t: "takes s [q, c] ?s" by simp
  have it: "km_ram s1 x = km_ram s x" "km_ram s2 x = km_ram s x" if "x \<in> region item 32" for x
    using takes_ram [OF q(2)] takes_ram [OF t2] that assms(3) by blast+
  have "m (item + of_nat 11) = km_ram s (item + of_nat 11)" if "m = km_ram s1" for m
    using it(1) [OF region_memI [of 11 32 item]] that by simp
  then have att: "item_attribute (km_ram s1) item AND FAT_FILE_SUBDIRECTORY = 0"
    using assms(4) by (simp add: item_attribute_def)
  have r: "fat16_new_fat_item_for_directory_item drv s item = Inr (q, ?s)"
    unfolding fat16_new_fat_item_for_directory_item_def fat16_clone_directory_item_def
    using q(1) c(1) nz att by simp
  have "region c (unat (32 :: u32)) \<inter> region item (unat (32 :: u32)) = {}" using c32 csp assms(3) by auto
  from read_bytes_memcpy [OF this, of 0 32 "km_ram s2"]
  have "read_bytes ?m c 32 = read_bytes (km_ram s2) item 32" by simp
  also have "\<dots> = read_bytes (km_ram s) item 32" by (rule read_bytes_cong) (rule it(2))
  finally have copy: "read_bytes (km_ram ?s) c 32 = read_bytes (km_ram s) item 32" by simp
  have "kmem.more s2 = kmem.more s" using q(3) c(3) by simp
  note m = fat_only_more [OF this] more_fat_items [OF this] path_stores_more(2) [OF this]
  show ?thesis by (rule that [OF r t _ _ copy]) (use m in simp_all)
qed

text \<open>
  \<open>entry_found m dir k j w\<close>: of the \<open>k\<close> entries of the directory at \<open>dir\<close>, all with regular names, entry \<open>j\<close>
  alone has the name \<open>w\<close>, and it is a file.
\<close>

definition entry_found :: "ram \<Rightarrow> addr \<Rightarrow> nat \<Rightarrow> nat \<Rightarrow> byte list \<Rightarrow> bool" where
  "entry_found m dir k j w \<longleftrightarrow> j < k \<and> item_attribute m (dir + 32 * of_nat j) AND FAT_FILE_SUBDIRECTORY = 0 \<and>
     (\<forall>i<k. entry_named m (dir + 32 * of_nat i) \<and> (entry_matches m (dir + 32 * of_nat i) w \<longleftrightarrow> i = j))"

lemma entry_found_same:
  assumes "\<And>a. a \<in> region dir (32 * k) \<Longrightarrow> m' a = m a"
  shows "entry_found m' dir k j w = entry_found m dir k j w"
proof -
  have "read_bytes m' (dir + 32 * of_nat i) 32 = read_bytes m (dir + 32 * of_nat i) 32" if "i < k" for i
    by (rule read_bytes_cong) (use entry_region [OF that, of dir] assms in blast)
  note e = entry_same [OF this]
  show ?thesis using e(2-4) unfolding entry_found_def by auto
qed

lemma find_item_result:
  fixes s :: "'a fatmem_scheme"
  assumes "kmem_ok s" "2 \<le> kmem_room s" "entry_found (km_ram s) dir k j w" "region dir (32 * k) \<inter> kmem_spare s = {}"
    and "path_at s nme w"
  obtains q c s' where "find_item_loop drv s dir nme 0 k = Inr (q, s')" "takes s [q, c] s'"
    "fat_items s' = (fat_items s)(q \<mapsto> \<lparr>fi_ptr = c, fi_type = FAT_ITEM_TYPE_FILE\<rparr>)" "fat_only s s'"
    "read_bytes (km_ram s') c 32 = read_bytes (km_ram s) (dir + 32 * of_nat j) 32" "path_roots s' = path_roots s"
proof -
  let ?e = "dir + 32 * of_nat j :: addr"
  have jk: "j < k" using assms(3) by (simp add: entry_found_def)
  have str: "string_in (km_ram s) nme w" "length w < 108" using assms(5) by (simp_all add: path_at_def)
  have "region ?e 32 \<inter> kmem_spare s = {}" using entry_region [OF jk, of dir] assms(4) by blast
  then obtain q c s' where n: "fat16_new_fat_item_for_directory_item drv s ?e = Inr (q, s')" "takes s [q, c] s'"
    "fat_items s' = (fat_items s)(q \<mapsto> \<lparr>fi_ptr = c, fi_type = FAT_ITEM_TYPE_FILE\<rparr>)" "fat_only s s'"
    "read_bytes (km_ram s') c 32 = read_bytes (km_ram s) ?e 32" "path_roots s' = path_roots s"
    by (rule new_file_item [OF assms(1,2)]) (use assms(3) in \<open>simp add: entry_found_def\<close>)
  obtain r where r: "k = j + Suc r" using jk by (metis add_Suc_right less_imp_Suc_add)
  have "find_item_loop drv s dir nme 0 (j + Suc r) = find_item_loop drv s ?e nme 0 (Suc r)"
    by (rule find_item_skip [OF _ str]) (use assms(3) jk in \<open>auto simp: entry_found_def\<close>)
  moreover have "entry_named (km_ram s) ?e" "entry_matches (km_ram s) ?e w" using assms(3) jk by (auto simp: entry_found_def)
  with entry_compare [OF _ str, of "km_ram s" ?e]
  have "find_item_loop drv s ?e nme 0 (Suc r) = find_item_loop drv s' (?e + 32) nme q r"
    using n(1) by (auto simp: returns_def)
  moreover have "find_item_loop drv s' (?e + 32) nme q (r + 0) = find_item_loop drv s' (?e + 32 + 32 * of_nat r) nme q 0"
  proof (rule find_item_skip [where w = w])
    show "string_in (km_ram s') nme w" "length w < 108" using path_at_takes [OF assms(5) n(2)] by (simp_all add: path_at_def)
    have "km_ram s' a = km_ram s a" if "a \<in> region dir (32 * k)" for a
      by (rule takes_ram [OF n(2)]) (use that assms(4) in blast)
    then have f: "entry_found (km_ram s') dir k j w"
      using entry_found_same [of dir k "km_ram s'" "km_ram s"] assms(3) by blast
    show "\<forall>i<r. entry_named (km_ram s') (?e + 32 + 32 * of_nat i) \<and> \<not> entry_matches (km_ram s') (?e + 32 + 32 * of_nat i) w"
    proof (intro allI impI)
      fix i assume "i < r"
      then have i: "Suc j + i < k" "Suc j + i \<noteq> j" using r by simp_all
      have "?e + 32 + 32 * of_nat i = dir + 32 * of_nat (Suc j + i)" by (simp add: algebra_simps)
      then show "entry_named (km_ram s') (?e + 32 + 32 * of_nat i) \<and> \<not> entry_matches (km_ram s') (?e + 32 + 32 * of_nat i) w"
        using f i unfolding entry_found_def by metis
    qed
  qed
  ultimately have "find_item_loop drv s dir nme 0 k = Inr (q, s')" unfolding r by simp
  from that [OF this n(2-6)] show ?thesis .
qed

section \<open>Opening a file\<close>

lemma fat16_open_result:
  fixes s :: "'a fatmem_scheme"
  assumes "kmem_ok s" "3 \<le> kmem_room s" "fs_private s = Inr p" "fd_item (root_directory p) = dir"
    "fd_total (root_directory p) = int k" "entry_found (km_ram s) dir k j w" "region dir (32 * k) \<inter> kmem_spare s = {}"
    and "path_parts s part = Some \<lparr>pp_part = nme, pp_next = 0\<rparr>" "path_at s nme w"
  obtains d q c s' where "fat16_open drv s part FILE_MODE_READ = Inr (d, s')" "takes s [d, q, c] s'" "fat_only s s'"
    "fat_fds s' d = Some \<lparr>ffd_item = q, ffd_pos = 0\<rparr>" "fat_items s' q = Some \<lparr>fi_ptr = c, fi_type = FAT_ITEM_TYPE_FILE\<rparr>"
    "read_bytes (km_ram s') c 32 = read_bytes (km_ram s) (dir + 32 * of_nat j) 32" "path_roots s' = path_roots s"
proof -
  obtain d s1 where d: "kzalloc s 8 = Inr (d, s1)" "takes s [d] s1" "kmem.more s1 = kmem.more s"
    by (rule takes_kzalloc [OF assms(1), of 8]) (use assms(2) in simp_all)
  have same: "km_ram s1 a = km_ram s a" if "a \<in> region dir (32 * k)" for a
    by (rule takes_ram [OF d(2)]) (use that assms(7) in blast)
  have f1: "entry_found (km_ram s1) dir k j w" 
    using entry_found_same [of dir k "km_ram s1" "km_ram s"] same assms(6) by blast
  have sp1: "region dir (32 * k) \<inter> kmem_spare s1 = {}" using takes_spare [OF d(2)] assms(7) by blast
  have r1: "2 \<le> kmem_room s1" using takes_room [OF d(2)] assms(2) by simp
  obtain q c s2 where q: "find_item_loop drv s1 dir nme 0 k = Inr (q, s2)" "takes s1 [q, c] s2"
    "fat_items s2 = (fat_items s1)(q \<mapsto> \<lparr>fi_ptr = c, fi_type = FAT_ITEM_TYPE_FILE\<rparr>)" "fat_only s1 s2"
    "read_bytes (km_ram s2) c 32 = read_bytes (km_ram s1) (dir + 32 * of_nat j) 32" "path_roots s2 = path_roots s1"
    by (rule find_item_result [OF takes_ok [OF d(2)] r1 f1 sp1 path_at_takes [OF assms(9) d(2)]])
  have e: "read_bytes (km_ram s1) (dir + 32 * of_nat j) 32 = read_bytes (km_ram s) (dir + 32 * of_nat j) 32"
  proof (rule read_bytes_cong)
    have "j < k" using assms(6) by (simp add: entry_found_def)
    from entry_region [OF this] show "km_ram s1 a = km_ram s a" if "a \<in> region (dir + 32 * of_nat j) 32" for a
      using same that by blast
  qed
  have o1: "fat_only s s1" by (rule fat_only_more [OF d(3)])
  have p1: "path_parts s1 part = Some \<lparr>pp_part = nme, pp_next = 0\<rparr>" "path_roots s1 = path_roots s"
    using path_stores_more [OF d(3)] assms(8) by simp_all
  let ?s = "s2\<lparr>fat_fds := (fat_fds s2)(d \<mapsto> \<lparr>ffd_item = q, ffd_pos = 0\<rparr>)\<rparr>"
  have nz: "d \<noteq> 0" "q \<noteq> 0" using takes_nonnull [OF d(2)] takes_nonnull [OF q(2)] by simp_all
  have walk: "ran (directory_walk drv s2 q 0) = Inr (q, s2)" by (subst directory_walk.simps) (simp add: ran_def)
  have ent: "fat16_get_directory_entry drv s1 part = Inr (q, s2)"
    unfolding fat16_get_directory_entry_def fat16_find_item_in_directory_def
    using fat_only_disk(3) [OF o1] assms(3-5) p1(1) q(1) nz(2) walk by (simp add: deref_Some)
  have t: "takes s [d, q, c] ?s" using takes_trans [OF d(2) q(2)] by simp
  show ?thesis
  proof (rule that [OF _ t])
    show "fat16_open drv s part FILE_MODE_READ = Inr (d, ?s)" using d(1) nz ent by (simp add: fat16_open_def)
    show "fat_only s ?s" using fat_only_trans [OF o1 q(4)] by simp
  qed (use q(3,5,6) e p1(2) in simp_all)
qed

lemma first_free_spec:
  "first_free ps n = Some i \<Longrightarrow> n \<le> i \<and> i < n + length ps \<and> ps ! (i - n) = 0 \<and> (\<forall>k<i - n. ps ! k \<noteq> 0)"
proof (induction ps arbitrary: n)
  case (Cons p ps)
  show ?case
  proof (cases "p = 0")
    case False
    then have f: "first_free ps (Suc n) = Some i" using Cons.prems by simp
    note IH = Cons.IH [OF f]
    have "Suc n \<le> i" using IH by simp
    then have e: "i - n = Suc (i - Suc n)" by simp
    show ?thesis using IH False unfolding e by (auto simp: nth_Cons' less_Suc_eq_0_disj)
  qed (use Cons.prems in simp)
qed simp

lemma takes_file_stores [simp]:
  "takes s bs (s'\<lparr>file_descriptors := f\<rparr>) = takes s bs s'" "takes s bs (s'\<lparr>fdescs := g\<rparr>) = takes s bs s'"
  by (simp_all add: takes_def kmem_ok_def kmem_room_def kmem_live_def kmem_spare_def spare_in_def kmem_arena_def)

lemma fat_only_files:
  fixes s :: "'a filemem_scheme"
  shows "fat_only s s' \<Longrightarrow> file_descriptors s' = file_descriptors s" "fat_only s s' \<Longrightarrow> fdescs s' = fdescs s"
  by (cases s; cases s'; simp add: fat_only_def)+

lemma more_fat:
  assumes "kmem.more s' = kmem.more (s :: 'a filemem_scheme)"
  shows "fat_items s' = fat_items s" "fat_fds s' = fat_fds s" "file_descriptors s' = file_descriptors s" "fdescs s' = fdescs s"
  using assms by (cases s; cases s'; simp)+

text \<open>What stands for an open file: descriptor \<open>fd\<close> leads to the item whose copy of the directory entry is at \<open>c\<close>.\<close>

definition file_open :: "'a filemem_scheme \<Rightarrow> int \<Rightarrow> addr \<Rightarrow> addr \<Rightarrow> u32 \<Rightarrow> bool" where
  "file_open s fd fs c pos \<longleftrightarrow> (\<exists>desc fdsc d q. file_get_descriptor s fd = desc \<and> desc \<noteq> 0 \<and> fdescs s desc = Some fdsc \<and>
     fdesc_filesystem fdsc = fs \<and> fdesc_private fdsc = d \<and> fat_fds s d = Some \<lparr>ffd_item = q, ffd_pos = pos\<rparr> \<and>
     fat_items s q = Some \<lparr>fi_ptr = c, fi_type = FAT_ITEM_TYPE_FILE\<rparr>)"

lemma fopen_result:
  fixes s :: "'a filemem_scheme"
  assumes "kmem_ok s" "length xs + 7 \<le> kmem_room s" "\<forall>a \<in> kmem_arena s. a < 0x80000000"
    and "path_at s path ([0x30, 0x3A, 0x2F] @ xs)" "path_words xs = [w]" "mode 0 = 0x72"
    and "fs_lookup (dk_filesystem (the_disk s)) = Some (fat16_ops drv)" "dk_filesystem (the_disk s) \<noteq> 0" "disk_at s \<noteq> 0"
    and "fs_private s = Inr p" "fd_item (root_directory p) = dir" "fd_total (root_directory p) = int k"
    and "entry_found (km_ram s) dir k j w" "region dir (32 * k) \<inter> kmem_spare s = {}"
    and "first_free (file_descriptors s) 0 = Some i" "length (file_descriptors s) = 128"
  obtains bs c s' where "fopen fs_lookup s path mode = Inr (int i + 1, s')" "takes s bs s'" "c \<in> set bs" "length bs = 7"
    "file_open s' (int i + 1) (dk_filesystem (the_disk s)) c 0" "the_disk s' = the_disk s" "fat_privates s' = fat_privates s"
    "streams s' = streams s" "disk_at s' = disk_at s"
    "read_bytes (km_ram s') c 32 = read_bytes (km_ram s) (dir + 32 * of_nat j) 32"
proof -
  let ?fs = "dk_filesystem (the_disk s)"
  have room: "length xs + 3 \<le> kmem_room s" using assms(2) by simp
  have dig: "isdigit 0x30" "tonumericdigit 0x30 = 0" by (simp_all add: isdigit_def tonumericdigit_def)
  obtain root first lost s1 where p: "pathparser_parse s path = Inr (root, s1)"
    "path_roots s1 root = Some \<lparr>pr_drive_no = 0, pr_first = first\<rparr>" "path_chain s1 first [w]"
    "takes s (root # chain_blocks s1 first [w] @ lost) s1" "path_only s s1" "lost = []"
    using pathparser_parse_result [OF assms(1) dig(1) assms(4) room] assms(5) dig(2) by auto
  obtain nme where part: "first \<noteq> 0" "path_parts s1 first = Some \<lparr>pp_part = nme, pp_next = 0\<rparr>" "string_in (km_ram s1) nme w"
    using p(3) by (cases "path_parts s1 first") (auto, metis path_part.surjective old.unit.exhaust)
  have t1: "takes s [root, nme, first] s1" using p(4,6) part(2) by simp
  have o1: "fat_only s s1" by (rule fat_only_path [OF p(5)])
  have wl: "length w < 108"
  proof -
    have "xs \<noteq> []" using assms(5) by auto
    then have "w = part_of xs" using assms(5) by (cases xs) (auto split: if_splits)
    then have "length w \<le> length xs" by (simp add: length_takeWhile_le)
    then show ?thesis using assms(4) by (simp add: path_at_def)
  qed
  have nlive: "(nme, 4096) \<in> kmem_live s1" using takes_live [OF t1] by simp
  have pa: "path_at s1 nme w"
  proof -
    have "region nme (Suc (length w)) \<subseteq> region nme 4096" by (rule region_mono) (use wl in simp)
    then show ?thesis using part(3) wl kmem_live_not_spare [OF nlive] by (auto simp: path_at_def)
  qed
  have same: "km_ram s1 a = km_ram s a" if "a \<in> region dir (32 * k)" for a
    by (rule takes_ram [OF t1]) (use that assms(14) in blast)
  have f1: "entry_found (km_ram s1) dir k j w"
    using entry_found_same [of dir k "km_ram s1" "km_ram s"] same assms(13) by blast
  have sp1: "region dir (32 * k) \<inter> kmem_spare s1 = {}" using takes_spare [OF t1] assms(14) by blast
  have r1: "3 \<le> kmem_room s1" "4 \<le> kmem_room s1" using takes_room [OF t1] assms(2) by simp_all
  have pv: "fs_private s1 = Inr p" using fat_only_disk(3) [OF o1] assms(10) by simp
  obtain d q c s2 where o: "fat16_open drv s1 first FILE_MODE_READ = Inr (d, s2)" "takes s1 [d, q, c] s2" "fat_only s1 s2"
    "fat_fds s2 d = Some \<lparr>ffd_item = q, ffd_pos = 0\<rparr>" "fat_items s2 q = Some \<lparr>fi_ptr = c, fi_type = FAT_ITEM_TYPE_FILE\<rparr>"
    "read_bytes (km_ram s2) c 32 = read_bytes (km_ram s1) (dir + 32 * of_nat j) 32"
    by (rule fat16_open_result [OF takes_ok [OF t1] r1(1) pv assms(11,12) f1 sp1 part(2) pa])
  have t2: "takes s [root, nme, first, d, q, c] s2" using takes_trans [OF t1 o(2)] by simp
  have r2: "0 < kmem_room s2" using takes_room [OF t2] assms(2) by simp
  obtain desc s3 where n: "kzalloc s2 16 = Inr (desc, s3)" "takes s2 [desc] s3" "kmem.more s3 = kmem.more s2"
    by (rule takes_kzalloc [OF takes_ok [OF t2] r2, of 16]) simp_all
  have t3: "takes s [root, nme, first, d, q, c, desc] s3" using takes_trans [OF t2 n(2)] by simp
  have nz: "root \<noteq> 0" "d \<noteq> 0" "desc \<noteq> 0" using takes_nonnull [OF t3] by simp_all
  have o2: "fat_only s s2" by (rule fat_only_trans [OF o1 o(3)])
  have o3: "fat_only s s3" by (rule fat_only_trans [OF o2 fat_only_more [OF n(3)]])
  have dpos: "\<not> ISERR (sint d)"
  proof -
    have "d \<in> region d 4096" using region_memI [of 0 4096 d] by simp
    then have "d \<in> kmem_spare s" using takes_region [OF t2, of d] by auto
    then have "d < 0x80000000" using assms(3) by (simp add: kmem_spare_def spare_in_def)
    then have "sint d = int (unat d)" by (intro sint_int_unat) (simp add: word_less_nat_alt)
    then show ?thesis by (simp add: ISERR_def)
  qed
  have fd2: "file_descriptors s2 = file_descriptors s" by (rule fat_only_files(1) [OF o2])
  let ?D = "\<lparr>fdesc_index = int i + 1, fdesc_filesystem = 0, fdesc_private = 0, fdesc_disk = 0\<rparr>"
  let ?s4 = "s3\<lparr>file_descriptors := (file_descriptors s3)[i := desc], fdescs := (fdescs s3)(desc \<mapsto> ?D)\<rparr>"
  have new: "file_new_descriptor s2 = Inr (0, desc, ?s4)"
    using assms(15) n(1) nz(3) by (simp add: file_new_descriptor_def fd2)
  let ?s5 = "?s4\<lparr>fdescs := (fdescs ?s4)(desc \<mapsto> ?D\<lparr>fdesc_filesystem := ?fs, fdesc_private := d, fdesc_disk := disk_at s\<rparr>)\<rparr>"
  have dk: "the_disk s1 = the_disk s" "disk_at s1 = disk_at s" using fat_only_disk [OF o1] by simp_all
  have dk4: "disk_at s3 = disk_at s" "the_disk s3 = the_disk s" using fat_only_disk [OF o3] by simp_all
  have md: "file_get_mode_by_string mode = FILE_MODE_READ"
    using assms(6) by (simp add: file_get_mode_by_string_def strncmp_def)
  have body: "fopen_body fs_lookup s path mode = Inr (int i + 1, ?s5)"
    unfolding fopen_body_def using p(1,2) part(1) assms(7-9) md o(1) nz dpos new dk dk4
    by (simp add: deref_Some disk_get_def fat16_ops_def Let_def)
  have il: "i < 128" using first_free_spec [OF assms(15)] assms(16) by simp
  have fd3: "file_descriptors s3 = file_descriptors s" using more_fat(3) [OF n(3)] fd2 by simp
  have get: "file_get_descriptor ?s5 (int i + 1) = desc" using il fd3 assms(16) by (simp add: file_get_descriptor_def)
  have keep: "fat_fds s3 = fat_fds s2" "fat_items s3 = fat_items s2" using more_fat [OF n(3)] by simp_all
  have op: "file_open ?s5 (int i + 1) ?fs c 0"
    unfolding file_open_def get using nz(3) o(4,5) keep by simp
  have cp: "read_bytes (km_ram s3) c 32 = read_bytes (km_ram s) (dir + 32 * of_nat j) 32"
  proof -
    have "(c, 4096) \<in> kmem_live s2" using takes_live [OF o(2)] by simp
    note kl = takes_keeps_live [OF n(2) this]
    have "region c 32 \<subseteq> region c 4096" by (rule region_mono) simp
    then have "read_bytes (km_ram s3) c 32 = read_bytes (km_ram s2) c 32" by (intro read_bytes_cong kl) blast
    also have "\<dots> = read_bytes (km_ram s1) (dir + 32 * of_nat j) 32" by (rule o(6))
    also have "\<dots> = read_bytes (km_ram s) (dir + 32 * of_nat j) 32"
      using entry_region [of j k dir] assms(13) same by (intro read_bytes_cong) (auto simp: entry_found_def)
    finally show ?thesis .
  qed
  have rest: "fat_privates s3 = fat_privates s" "streams s3 = streams s"
    using o3 by (cases s; cases s3; simp add: fat_only_def)+
  show ?thesis
  proof (rule that [where bs = "[root, nme, first, d, q, c, desc]" and c = c])
    show "fopen fs_lookup s path mode = Inr (int i + 1, ?s5)" using body by (simp add: fopen_def)
    show "takes s [root, nme, first, d, q, c, desc] ?s5" using t3 by simp
    show "read_bytes (km_ram ?s5) c 32 = read_bytes (km_ram s) (dir + 32 * of_nat j) 32" using cp by simp
  qed (use op rest dk4 in simp_all)
qed

section \<open>Reading an open file\<close>

lemma fread_result:
  fixes s :: "'a filemem_scheme"
  assumes "file_open s fd fs c 0" "fs_lookup fs = Some (fat16_ops drv)" "drive_serves drv content" "fat_mounted s p"
    and "chain_ok content p c0 K" "fat16_get_first_cluster (km_ram s) c = of_nat c0"
    and "0 < n" "n < 2 ^ 31" "n \<le> Suc K * cluster_bytes p"
  shows "\<exists>f. fread fs_lookup s out (of_nat n) 1 fd =
    Inr (1, s\<lparr>streams := f, km_ram := write_bytes (km_ram s) out (map (file_byte content p c0) [0..<n])\<rparr>)"
proof -
  obtain desc fdsc d q where o: "file_get_descriptor s fd = desc" "desc \<noteq> 0" "fdescs s desc = Some fdsc"
    "fdesc_filesystem fdsc = fs" "fdesc_private fdsc = d" "fat_fds s d = Some \<lparr>ffd_item = q, ffd_pos = 0\<rparr>"
    "fat_items s q = Some \<lparr>fi_ptr = c, fi_type = FAT_ITEM_TYPE_FILE\<rparr>"
    using assms(1) by (auto simp: file_open_def)
  have fd: "\<not> fd < 1" using o(1,2) by (auto simp: file_get_descriptor_def split: if_splits)
  have small: "sint (of_nat k :: u32) = int k" if "k < 2 ^ 31" for k
  proof -
    have "unat (of_nat k :: u32) = k" using that by (simp add: unat_of_nat take_bit_nat_eq_self)
    then show ?thesis using sint_int_unat [of "of_nat k"] that by simp
  qed
  have c0: "sint (fat16_get_first_cluster (km_ram s) c) = int c0"
    unfolding assms(6) using assms(5) by (intro small) (simp add: chain_ok_def)
  have sz: "sint (of_nat n :: u32) = int n" by (rule small [OF assms(8)])
  have nz: "(of_nat n :: u32) \<noteq> 0" using sz assms(7) by (metis nat_less_le of_nat_0_eq_iff signed_0)
  obtain f where f: "fat16_read_internal_from_stream drv s (cluster_read_stream p) (int c0) 0 (int n) out =
      Inr (0, s\<lparr>streams := f, km_ram := write_bytes (km_ram s) out (map (file_byte content p c0) [0..<n])\<rparr>)"
    using read_along_chain [OF assms(3,5,4), of 0 n out] assms(9) by auto
  have pv: "fs_private s = Inr p" using assms(4) by (simp add: fs_private_def fat_mounted_def)
  have rd: "fat16_read_internal drv s (sint (fat16_get_first_cluster (km_ram s) c)) 0 (int n) out =
      Inr (0, s\<lparr>streams := f, km_ram := write_bytes (km_ram s) out (map (file_byte content p c0) [0..<n])\<rparr>)"
    using f by (simp add: fat16_read_internal_def pv c0)
  have "fat16_read drv s d (of_nat n) 1 out =
      Inr (1, s\<lparr>streams := f, km_ram := write_bytes (km_ram s) out (map (file_byte content p c0) [0..<n])\<rparr>)"
    unfolding fat16_read_def using o(6,7) rd by (simp add: deref_Some sz ISERR_def)
  then have "fread fs_lookup s out (of_nat n) 1 fd =
      Inr (1, s\<lparr>streams := f, km_ram := write_bytes (km_ram s) out (map (file_byte content p c0) [0..<n])\<rparr>)"
    using o fd nz assms(2) by (simp add: fread_def Let_def deref_Some fat16_ops_def)
  then show ?thesis by (rule exI [of _ f])
qed

lemma fopen_fread_result:
  fixes s :: "'a filemem_scheme"
  assumes "kmem_ok s" "length xs + 7 \<le> kmem_room s" "\<forall>a \<in> kmem_arena s. a < 0x80000000"
    and "path_at s path ([0x30, 0x3A, 0x2F] @ xs)" "path_words xs = [w]" "mode 0 = 0x72"
    and "fs_lookup (dk_filesystem (the_disk s)) = Some (fat16_ops drv)" "dk_filesystem (the_disk s) \<noteq> 0" "disk_at s \<noteq> 0"
    and "fat_mounted s p" "drive_serves drv content"
    and "entry_found (km_ram s) (fd_item (root_directory p)) (nat (fd_total (root_directory p))) j w"
    and "region (fd_item (root_directory p)) (32 * nat (fd_total (root_directory p))) \<inter> kmem_spare s = {}"
    and "first_free (file_descriptors s) 0 = Some i" "length (file_descriptors s) = 128"
    and "fat16_get_first_cluster (km_ram s) (fd_item (root_directory p) + 32 * of_nat j) = of_nat c" "chain_ok content p c K"
    and "0 < n" "n < 2 ^ 31" "n \<le> Suc K * cluster_bytes p"
  shows "\<exists>s1 s2. fopen fs_lookup s path mode = Inr (int i + 1, s1) \<and>
    fread fs_lookup s1 out (of_nat n) 1 (int i + 1) = Inr (1, s2) \<and>
    read_bytes (km_ram s2) out n = map (file_byte content p c) [0..<n]"
proof -
  let ?dir = "fd_item (root_directory p)" and ?k = "nat (fd_total (root_directory p))"
  have pv: "fs_private s = Inr p" using assms(10) by (simp add: fs_private_def fat_mounted_def)
  have "j < ?k" using assms(12) by (simp add: entry_found_def)
  then have k: "fd_total (root_directory p) = int ?k" by simp
  obtain bs e s1 where o: "fopen fs_lookup s path mode = Inr (int i + 1, s1)" "takes s bs s1" "e \<in> set bs"
    "file_open s1 (int i + 1) (dk_filesystem (the_disk s)) e 0" "the_disk s1 = the_disk s" "fat_privates s1 = fat_privates s"
    "streams s1 = streams s" "disk_at s1 = disk_at s"
    "read_bytes (km_ram s1) e 32 = read_bytes (km_ram s) (?dir + 32 * of_nat j) 32"
    by (rule fopen_result [where mode = mode and ?fs_lookup = fs_lookup and dir = ?dir and k = ?k, OF assms(1-9) pv refl k assms(12-15)]) (rule that)
  have m: "fat_mounted s1 p" using assms(10) o(5-8) by (simp add: fat_mounted_def)
  have cl: "fat16_get_first_cluster (km_ram s1) e = of_nat c" using entry_same(5) [OF o(9)] assms(16) by simp
  obtain f where f: "fread fs_lookup s1 out (of_nat n) 1 (int i + 1) =
    Inr (1, s1\<lparr>streams := f, km_ram := write_bytes (km_ram s1) out (map (file_byte content p c) [0..<n])\<rparr>)"
    using fread_result [where ?fs_lookup = fs_lookup and content = content, OF o(4) assms(7,11) m assms(17) cl assms(18-20)] by blast
  have "read_bytes (write_bytes (km_ram s1) out (map (file_byte content p c) [0..<n])) out n = map (file_byte content p c) [0..<n]"
    using read_write_bytes [of "map (file_byte content p c) [0..<n]" "km_ram s1" out] assms(19) by simp
  with o(1) f show ?thesis by auto
qed

section \<open>Properties\<close>

text \<open>C3: opening \<open>0:/w\<close> for reading and then reading \<open>n\<close> bytes through the descriptor \<open>fopen\<close> returned gives the
  first \<open>n\<close> bytes of the file of that name on the disk: when entry \<open>j\<close> is the only one of the root directory
  whose name is \<open>w\<close> up to the case of letters, the bytes at \<open>out\<close> are those of the cluster chain that starts at
  the entry's first cluster; the descriptor is the index of the first free slot.\<close>

theorem fopen_fread_content:
  fixes s :: "'a filemem_scheme"
  assumes "kmem_ok s" "length xs + 7 \<le> kmem_room s" "\<forall>a \<in> kmem_arena s. a < 0x80000000"
    and "path_at s path ([0x30, 0x3A, 0x2F] @ xs)" "path_words xs = [w]" "mode 0 = 0x72"
    and "fs_lookup (dk_filesystem (the_disk s)) = Some (fat16_ops drv)" "dk_filesystem (the_disk s) \<noteq> 0" "disk_at s \<noteq> 0"
    and "fat_mounted s p" "drive_serves drv content"
    and "entry_found (km_ram s) (fd_item (root_directory p)) (nat (fd_total (root_directory p))) j w"
    and "region (fd_item (root_directory p)) (32 * nat (fd_total (root_directory p))) \<inter> kmem_spare s = {}"
    and "first_free (file_descriptors s) 0 = Some i" "length (file_descriptors s) = 128"
    and "fat16_get_first_cluster (km_ram s) (fd_item (root_directory p) + 32 * of_nat j) = of_nat c" "chain_ok content p c K"
    and "0 < n" "n < 2 ^ 31" "n \<le> Suc K * cluster_bytes p"
  shows "\<exists>s1 s2. fopen fs_lookup s path mode = Inr (int i + 1, s1) \<and>
    fread fs_lookup s1 out (of_nat n) 1 (int i + 1) = Inr (1, s2) \<and>
    read_bytes (km_ram s2) out n = map (file_byte content p c) [0..<n]"
  by (rule fopen_fread_result [where ?fs_lookup = fs_lookup and mode = mode and content = content, OF assms])

text \<open>The path \<open>0:/a\<close> at 0x500, a root directory of one entry \<open>A\<close> at 0x600, which starts at cluster 2 of the demo disk.\<close>

definition demo_volume :: fat_private where
  "demo_volume = demo_private\<lparr>root_directory := (root_directory demo_private)\<lparr>fd_item := 0x600, fd_total := 1\<rparr>\<rparr>"

definition demo_files :: filemem where
  "demo_files = \<lparr>km_heap = \<lparr>h_table = \<lparr>ht_entries = replicate 10 0, ht_total = 10\<rparr>, h_saddr = 0x1000000\<rparr>,
     km_ram = (\<lambda>a. 0x20)(0x500 := 0x30, 0x501 := 0x3A, 0x502 := 0x2F, 0x503 := 97, 0x504 := 0,
       0x600 := 65, 0x614 := 0, 0x615 := 0, 0x61A := 2, 0x61B := 0),
     current_directory = 0, current_chunk = 0, fault_handlers = replicate 16 0, chunks = \<lambda>p. None, pfaults = \<lambda>p. None,
     disk_at = 64,
     the_disk = \<lparr>dk_type = 0, dk_filesystem = 128, dk_id = 0, dk_sector_size = 512, dk_fs_private = 256\<rparr>,
     streams = [4096 \<mapsto> \<lparr>ds_pos = 0, ds_disk = 64\<rparr>, 8192 \<mapsto> \<lparr>ds_pos = 0, ds_disk = 64\<rparr>],
     path_roots = \<lambda>p. None, path_parts = \<lambda>p. None, fat16_fs_at = 128, fat_privates = [256 \<mapsto> demo_volume],
     fat_dirs = \<lambda>p. None, fat_items = \<lambda>p. None, fat_fds = \<lambda>p. None,
     filesystems = 128 # replicate 9 0, file_descriptors = replicate 128 0, fdescs = \<lambda>p. None\<rparr>"

lemma demo_files_ready:
  "kmem_ok demo_files" "kmem_room demo_files = 10" "\<forall>a \<in> kmem_arena demo_files. a < 0x80000000"
  "path_at demo_files 0x500 ([0x30, 0x3A, 0x2F] @ [97])" "region 0x600 32 \<inter> kmem_spare demo_files = {}"
proof -
  have "heap_segs (km_heap demo_files) (replicate 10 FreeBlock)"
    by (simp add: heap_segs_def demo_files_def)
  then show "kmem_ok demo_files"
    by (auto simp: kmem_ok_def heap_wf_def demo_files_def paging_is_address_aligned_def)
  have ar: "kmem_arena demo_files = region 0x1000000 40960"
    by (simp add: kmem_arena_def heap_arena_def demo_files_def)
  have "region (0x500 + of_nat 0 :: addr) 5 \<inter> region (0x500 + of_nat 0xFFFB00) 40960 = {}"
    by (rule region_apart) simp_all
  then have s: "region (0x500 :: addr) 5 \<inter> kmem_spare demo_files = {}"
    by (auto simp: kmem_spare_def spare_in_def ar)
  have "string_in (km_ram demo_files) 0x500 ([0x30, 0x3A, 0x2F] @ [97])"
    by (simp add: string_in_def read_bytes_def upt_rec demo_files_def)
  with s show "path_at demo_files 0x500 ([0x30, 0x3A, 0x2F] @ [97])"
    by (simp add: path_at_def eval_nat_numeral)
  have "region (0x600 + of_nat 0 :: addr) 32 \<inter> region (0x600 + of_nat 0xFFFA00) 40960 = {}"
    by (rule region_apart) simp_all
  then show "region 0x600 32 \<inter> kmem_spare demo_files = {}"
    by (auto simp: kmem_spare_def spare_in_def ar)
  show "kmem_room demo_files = 10" by (simp add: kmem_room_def free_count_def demo_files_def)
  show "\<forall>a \<in> kmem_arena demo_files. a < 0x80000000"
  proof
    fix a assume "a \<in> kmem_arena demo_files"
    then obtain i where "a = 0x1000000 + of_nat i" "i < 40960" by (auto simp: ar region_def)
    then show "a < 0x80000000" by (simp add: word_less_nat_alt unat_word_ariths unat_of_nat take_bit_nat_eq_self)
  qed
qed

lemma demo_volume_facts:
  "fat_mounted demo_files demo_volume" "cluster_bytes demo_volume = 512" "chain_ok demo_content demo_volume 2 1"
  "map (file_byte demo_content demo_volume 2) [0..<514] = replicate 512 10 @ [12, 12]"
proof -
  show "fat_mounted demo_files demo_volume"
    by (simp add: fat_mounted_def demo_files_def demo_volume_def demo_private_def)
  show c: "cluster_bytes demo_volume = 512"
    by (simp add: cluster_bytes_def demo_volume_def demo_private_def sectors_per_cluster_def)
  have n: "fat_next demo_content demo_volume 2 = 4"
    by (simp add: fat_next_def demo_volume_def demo_private_def reserved_sectors_def header16_def demo_content_def)
  have p: "cluster_pos demo_volume 4 = 6144" "cluster_pos demo_volume 2 = 5120"
    by (simp_all add: cluster_pos_def fat16_cluster_to_sector_def demo_volume_def demo_private_def sectors_per_cluster_def)
  then show "chain_ok demo_content demo_volume 2 1" by (auto simp: chain_ok_def c n le_Suc_eq)
  have "file_byte demo_content demo_volume 2 i = 10" if "i < 512" for i
  proof -
    have "(5120 + i) div 512 = 10" using that by simp
    then show ?thesis using that by (simp add: file_byte_def c p demo_content_def)
  qed
  then have "map (file_byte demo_content demo_volume 2) [0..<512] = replicate 512 10"
    by (intro nth_equalityI) simp_all
  moreover have "file_byte demo_content demo_volume 2 512 = 12" "file_byte demo_content demo_volume 2 513 = 12"
    by (simp_all add: file_byte_def c n p) (simp_all add: demo_content_def)
  moreover have "[0..<514] = [0..<512] @ [512, 513]"
    using upt_add_eq_append [of 0 512 2] upt_rec [of 512 514] upt_rec [of 513 514] by (simp del: upt.simps upt_rec_numeral)
  ultimately show "map (file_byte demo_content demo_volume 2) [0..<514] = replicate 512 10 @ [12, 12]" by simp
qed

lemma demo_entry:
  "entry_found (km_ram demo_files) 0x600 1 0 [97]" "fat16_get_first_cluster (km_ram demo_files) 0x600 = 2"
proof -
  have part: "entry_part (km_ram demo_files) 0x600 8 = [65]" "entry_part (km_ram demo_files) 0x608 4 = []"
    by (simp_all add: entry_part_def read_bytes_def upt_rec demo_files_def)
  have "entry_name (km_ram demo_files) 0x600 = [65]" by (simp add: entry_name_def part)
  moreover have "tolower 65 = tolower 97" by code_simp
  moreover have "item_attribute (km_ram demo_files) 0x600 AND FAT_FILE_SUBDIRECTORY = 0"
    by (simp add: item_attribute_def demo_files_def)
  ultimately show "entry_found (km_ram demo_files) 0x600 1 0 [97]"
    by (simp add: entry_found_def entry_named_def entry_matches_def part)
  show "fat16_get_first_cluster (km_ram demo_files) 0x600 = 2"
    by (simp add: fat16_get_first_cluster_def load16_def demo_files_def)
qed

lemma fopen_fread_content_witness:
  "\<exists>s1 s2. fopen [128 \<mapsto> fat16_ops (drive_of demo_content)] demo_files 0x500 (\<lambda>i. [0x72, 0] ! i) = Inr (1, s1) \<and>
     fread [128 \<mapsto> fat16_ops (drive_of demo_content)] s1 0x5000 514 1 1 = Inr (1, s2) \<and>
     read_bytes (km_ram s2) 0x5000 514 = replicate 512 10 @ [12, 12]"
proof -
  let ?fs = "[128 \<mapsto> fat16_ops (drive_of demo_content)] :: filemem fs_table"
  have d: "dk_filesystem (the_disk demo_files) = 128" "disk_at demo_files = 64" "file_descriptors demo_files = replicate 128 0"
    "fd_item (root_directory demo_volume) = 0x600" "nat (fd_total (root_directory demo_volume)) = 1"
    by (simp_all add: demo_files_def demo_volume_def)
  have ff: "first_free (replicate 128 0) 0 = Some 0" by code_simp
  have "\<exists>s1 s2. fopen ?fs demo_files 0x500 (\<lambda>i. [0x72, 0] ! i) = Inr (int 0 + 1, s1) \<and>
     fread ?fs s1 0x5000 (of_nat 514) 1 (int 0 + 1) = Inr (1, s2) \<and>
     read_bytes (km_ram s2) 0x5000 514 = map (file_byte demo_content demo_volume 2) [0..<514]"
    by (rule fopen_fread_content [OF demo_files_ready(1) _ demo_files_ready(3,4) _ _ _ _ _ demo_volume_facts(1) drive_of_serves
        _ _ _ _ _ demo_volume_facts(3), where w = "[97]" and j = 0])
      (use demo_entry demo_files_ready(2,5) in \<open>simp_all add: d ff demo_volume_facts(2)\<close>)
  then show ?thesis unfolding demo_volume_facts(4) by simp
qed

end
