(* ===== verification/Heap_Tail.thy ===== *)
theory Heap_Tail
  imports Heap_Room
begin

text \<open>
  Requests for several pages: a heap whose table ends in free blocks, as it is while the kernel starts, meets them
  one after the other.  \<open>grows\<close> says what clients keep meanwhile.
\<close>

section \<open>The blocks at the end\<close>

text \<open>A request for any number of blocks up to the number free at the end of the table is met, as it is
  while the kernel starts.\<close>

definition tail_free :: "heap \<Rightarrow> nat \<Rightarrow> bool" where
  "tail_free h r \<longleftrightarrow> r \<le> length (ht_entries (h_table h)) \<and>
     free_run (ht_entries (h_table h)) (length (ht_entries (h_table h)) - r) r"

lemma free_run_less: "free_run es j (n + r) \<Longrightarrow> free_run es j n"
  by (auto simp: free_run_def)

lemma free_run_later: "free_run es j (n + r) \<Longrightarrow> free_run es (j + n) r"
  by (auto simp: free_run_def add.assoc)

lemma heap_malloc_tail:
  assumes "heap_wf h" "tail_free h (n + r)" "fits sz" "blocks_for sz = n"
  obtains p h' where "heap_malloc h sz = Inr (p, h')" "p \<noteq> 0" "tail_free h' r"
    "heap_live h' = insert (p, 4096 * n) (heap_live h)"
proof -
  let ?es = "ht_entries (h_table h)" and ?l = "length (ht_entries (h_table h)) - (n + r)"
  have t: "n + r \<le> length ?es" "free_run ?es ?l (n + r)" using assms(2) by (simp_all add: tail_free_def)
  have n: "0 < n" using blocks_for_props(2) [OF assms(3)] assms(4) by simp
  have run: "free_run ?es ?l n" by (rule free_run_less [OF t(2)])
  then obtain j where j: "first_fit ?es n j" using first_fit_ex by blast
  have jl: "j \<le> ?l" using j run by (metis first_fit_def not_le)
  have jr: "free_run ?es j n" using j by (simp add: first_fit_def)
  have m: "heap_malloc h sz = Inr (heap_block_to_address h (int j), take_blocks h j n)"
    using heap_malloc_blocks_found [OF assms(1) n j] by (simp add: heap_malloc_eq [OF assms(3)] assms(4))
  have len: "j + n \<le> length ?es - r" using jl t(1) by linarith
  let ?es' = "ht_entries (h_table (take_blocks h j n))"
  have es': "?es' = take j ?es @ seg_entries (Taken (n - 1)) @ drop (j + n) ?es" by (simp add: take_blocks_def)
  have sl: "length (seg_entries (Taken (n - 1))) = n" using n by simp
  have le: "length ?es' = length ?es" unfolding es' using len t(1) sl by simp
  have keep: "?es' ! i = ?es ! i" if "length ?es - r \<le> i" "i < length ?es" for i
  proof -
    have "j + n \<le> i" using that(1) len by linarith
    then have "\<not> i - j < n" "\<not> i < j" by linarith+
    then show ?thesis unfolding es' using that len sl by (simp add: nth_append)
  qed
  have "?l + n = length ?es - r" using t(1) by simp
  then have "free_run ?es (length ?es - r) r" using free_run_later [OF t(2)] by simp
  then have "tail_free (take_blocks h j n) r" using keep t(1) by (simp add: tail_free_def free_run_def le)
  then show ?thesis
    using m block_address_props(1) [OF assms(1), of j] heap_live_take [OF assms(1) n jr] len by (intro that) simp_all
qed

text \<open>\<open>grows s s'\<close>: between \<open>s\<close> and \<open>s'\<close> memory changed only where no allocation of \<open>s\<close> lies, and what was in use
  is still in use.\<close>

definition grows :: "'a kmem_scheme \<Rightarrow> 'b kmem_scheme \<Rightarrow> bool" where
  "grows s s' \<longleftrightarrow> kmem_spare s' \<subseteq> kmem_spare s \<and> kmem_arena s' = kmem_arena s \<and> (\<forall>a. a \<notin> kmem_spare s \<longrightarrow> km_ram s' a = km_ram s a)"

lemma grows_refl: "grows s s"
  by (simp add: grows_def)

lemma kmem_heap_view:
  assumes "km_heap t = km_heap s"
  shows "kmem_spare t = kmem_spare s" "kmem_arena t = kmem_arena s" "kmem_ok t = kmem_ok s" "kmem_room t = kmem_room s"
    "kmem_live t = kmem_live s"
  using assms by (simp_all add: kmem_spare_def spare_in_def kmem_arena_def kmem_live_def kmem_ok_def kmem_room_def)

lemma grows_trans:
  assumes "grows s s'" "grows s' s''"
  shows "grows s s''"
proof -
  have "km_ram s'' a = km_ram s a" if "a \<notin> kmem_spare s" for a
  proof -
    have "a \<notin> kmem_spare s'" using assms(1) that by (auto simp: grows_def)
    then show ?thesis using assms that by (simp add: grows_def)
  qed
  then show ?thesis using assms by (auto simp: grows_def)
qed

lemma grows_cong:
  assumes "grows s s'" "km_heap t = km_heap s" "km_ram t = km_ram s" "km_heap t' = km_heap s'" "km_ram t' = km_ram s'"
  shows "grows t t'"
  using assms(1,3,5) by (simp add: grows_def kmem_heap_view [OF assms(2)] kmem_heap_view [OF assms(4)])

lemma grows_store:
  assumes "grows s s'" "\<And>a. a \<notin> kmem_spare s \<Longrightarrow> m a = km_ram s' a"
  shows "grows s (s'\<lparr>km_ram := m\<rparr>)"
  using assms by (simp add: grows_def kmem_heap_view [of "s'\<lparr>km_ram := m\<rparr>" s'])

lemma kmalloc_tail:
  assumes "kmem_ok s" "tail_free (km_heap s) (blocks_for (word_of_int sz) + r)" "fits (word_of_int sz)"
  obtains p h where "kmalloc s sz = Inr (p, s\<lparr>km_heap := h\<rparr>)" "p \<noteq> 0" "heap_wf h" "tail_free h r"
    "heap_live h = insert (p, 4096 * blocks_for (word_of_int sz)) (kmem_live s)"
    "(p, 4096 * blocks_for (word_of_int sz)) \<notin> kmem_live s"
    "grows s (s\<lparr>km_heap := h\<rparr>)" "region p (4096 * blocks_for (word_of_int sz)) \<subseteq> kmem_spare s"
proof -
  let ?n = "4096 * blocks_for (word_of_int sz)"
  have wf: "heap_wf (km_heap s)" using assms(1) by (simp add: kmem_ok_def)
  obtain p h where m: "heap_malloc (km_heap s) (word_of_int sz) = Inr (p, h)" "p \<noteq> 0" "tail_free h r"
    "heap_live h = insert (p, ?n) (heap_live (km_heap s))"
    by (rule heap_malloc_tail [OF wf assms(2,3) refl])
  have wf': "heap_wf h" by (rule kheap.alloc_ok [OF wf m(1)])
  have new: "(p, ?n) \<notin> heap_live (km_heap s)" by (rule kheap.live_not_fresh [OF wf m(1,2)])
  have ar: "heap_arena h = heap_arena (km_heap s)" by (rule heap_malloc_arena [OF wf m(1)])
  have sub: "region p ?n \<subseteq> kmem_spare s"
  proof -
    have "region p ?n \<subseteq> heap_arena (km_heap s)" using heap_live_arena [OF wf', of p ?n] m(4) ar by simp
    moreover have "region p ?n \<inter> region q k = {}" if "(q, k) \<in> heap_live (km_heap s)" for q k
      by (rule kheap.live_disjoint [OF wf']) (use that new m(4) in auto)
    ultimately show ?thesis by (fastforce simp: kmem_spare_def spare_in_def kmem_arena_def kmem_live_def)
  qed
  show ?thesis
  proof (rule that [of p h])
    show "kmalloc s sz = Inr (p, s\<lparr>km_heap := h\<rparr>)" using m(1) by (simp add: kmalloc_def)
    show "grows s (s\<lparr>km_heap := h\<rparr>)"
      using ar m(4) by (auto simp: grows_def kmem_spare_def spare_in_def kmem_arena_def kmem_live_def)
  qed (use m wf' new sub in \<open>simp_all add: kmem_live_def\<close>)
qed

lemma page_request: "0 < sz \<Longrightarrow> sz \<le> 4096 \<Longrightarrow> fits (word_of_int sz) \<and> blocks_for (word_of_int sz) = 1"
proof -
  assume sz: "0 < sz" "sz \<le> 4096"
  then have u: "unat (word_of_int sz :: u32) = nat sz" by (simp add: unsigned_of_int take_bit_int_eq_self)
  have "(nat sz + 4095) div 4096 = 1" by (rule div_nat_eqI) (use sz in simp_all)
  then show ?thesis using sz u by (simp add: fits_def blocks_for_def)
qed

lemma tail_room: "tail_free h r \<Longrightarrow> r \<le> free_count h"
proof -
  let ?es = "ht_entries (h_table h)" and ?P = "\<lambda>e. heap_table_entry_type e = 0"
  assume t: "tail_free h r"
  have "?P e" if e: "e \<in> set (drop (length ?es - r) ?es)" for e
  proof -
    obtain i where i: "i < length (drop (length ?es - r) ?es)" "drop (length ?es - r) ?es ! i = e"
      using e by (auto simp only: in_set_conv_nth)
    then have "i < r" "e = ?es ! (length ?es - r + i)" using t by (simp_all add: tail_free_def)
    then show ?thesis using t unfolding tail_free_def free_run_def by blast
  qed
  then have "filter ?P (drop (length ?es - r) ?es) = drop (length ?es - r) ?es" by (simp add: filter_id_conv)
  then have "length (filter ?P (drop (length ?es - r) ?es)) = r" using t by (simp add: tail_free_def)
  moreover have "length (filter ?P ?es) = length (filter ?P (take (length ?es - r) ?es)) + length (filter ?P (drop (length ?es - r) ?es))"
    by (metis append_take_drop_id filter_append length_append)
  ultimately show "r \<le> free_count h" by (simp add: free_count_def)
qed

end
