(* ===== verification/File_Mount.thy ===== *)
theory File_Mount
  imports File_Open Heap_Tail
begin

text \<open>
  Mounting a volume: \<open>disk_search_and_init\<close> of \<open>src/disk/disk.c\<close> over \<open>fs_resolve\<close> (\<open>src/fs/file.c\<close>) and
  \<open>fat16_resolve\<close> (\<open>src/fs/fat/fat16.c\<close>), from the bytes of the disk to the root directory in memory that
  \<open>File_Open\<close> starts from.
\<close>

section \<open>A new stream\<close>

text \<open>A new stream of the disk, at its beginning.\<close>

lemma diskstreamer_new_tail:
  fixes s :: "'a dmem_scheme"
  assumes "kmem_ok s" "tail_free (km_heap s) (Suc r)" "disk_at s \<noteq> 0"
  obtains q h m where "diskstreamer_new s 0 =
      Inr (q, s\<lparr>km_heap := h, km_ram := m, streams := (streams s)(q \<mapsto> \<lparr>ds_pos = 0, ds_disk = disk_at s\<rparr>)\<rparr>)"
    "q \<noteq> 0" "heap_wf h" "tail_free h r" "heap_live h = insert (q, 4096) (kmem_live s)" "(q, 4096) \<notin> kmem_live s"
    "grows s (s\<lparr>km_heap := h, km_ram := m\<rparr>)" "region q 4096 \<subseteq> kmem_spare s"
proof -
  have f: "fits (word_of_int 8)" "blocks_for (word_of_int 8) = 1" using page_request [of 8] by simp_all
  obtain q h where k: "kmalloc s 8 = Inr (q, s\<lparr>km_heap := h\<rparr>)" "q \<noteq> 0" "heap_wf h" "tail_free h r"
    "heap_live h = insert (q, 4096) (kmem_live s)" "(q, 4096) \<notin> kmem_live s"
    "grows s (s\<lparr>km_heap := h\<rparr>)" "region q 4096 \<subseteq> kmem_spare s"
    by (rule kmalloc_tail [OF assms(1) _ f(1), of r]) (use assms(2) f(2) in simp_all)
  have "region q 8 \<subseteq> region q 4096" by (rule region_mono) simp
  then have "memset (km_ram s) q 0 8 a = km_ram s a" if "a \<notin> kmem_spare s" for a
    using k(8) that by (intro memset_out) auto
  then have "grows s (s\<lparr>km_heap := h\<rparr>\<lparr>km_ram := memset (km_ram s) q 0 8\<rparr>)" by (intro grows_store [OF k(7)]) simp
  then have g: "grows s (s\<lparr>km_heap := h, km_ram := memset (km_ram s) q 0 8\<rparr>)" by simp
  show ?thesis
    by (rule that [where m = "memset (km_ram s) q 0 8", OF _ k(2-6) g k(8)])
      (simp add: diskstreamer_new_def disk_get_def assms(3) kzalloc_def k(1))
qed

section \<open>The entries of the root directory\<close>

text \<open>The entries in use among the first \<open>e\<close> from position \<open>pos\<close> on: a deleted one starts with 0xE5.\<close>

definition entries_used :: "(nat \<Rightarrow> byte) \<Rightarrow> nat \<Rightarrow> nat \<Rightarrow> nat" where
  "entries_used content pos e = length (filter (\<lambda>j. content (pos + 32 * j) \<noteq> 0xE5) [0..<e])"

lemma entries_used_Suc:
  "entries_used content pos (Suc e) = (if content pos \<noteq> 0xE5 then 1 else 0) + entries_used content (pos + 32) e"
proof -
  have "[0..<Suc e] = 0 # map Suc [0..<e]" by (simp add: map_Suc_upt upt_conv_Cons)
  then show ?thesis by (simp add: entries_used_def filter_map comp_def add.assoc)
qed

lemma count_items_content:
  assumes "drive_serves drv content" "ds_disk st = at" "ds_pos st = int pos" "pos + 32 * Suc e < 2 ^ 31"
    "content (pos + 32 * e) = 0" "\<forall>j<e. content (pos + 32 * j) \<noteq> 0"
  shows "count_items_loop drv at st i =
    Some (i + int (entries_used content pos e), st\<lparr>ds_pos := int (pos + 32 * Suc e)\<rparr>)"
  using assms(2-6)
proof (induction e arbitrary: st pos i)
  case 0
  have "stream_read drv at st 32 = (0, map (\<lambda>i. content (pos + i)) [0..<32], st\<lparr>ds_pos := int (pos + 32)\<rparr>)"
    by (rule stream_read_content [OF assms(1)]) (use 0 in simp_all)
  then show ?case using 0(4) by (subst count_items_loop.simps) (simp add: entries_used_def)
next
  case (Suc e)
  have r: "stream_read drv at st 32 = (0, map (\<lambda>i. content (pos + i)) [0..<32], st\<lparr>ds_pos := int (pos + 32)\<rparr>)"
    by (rule stream_read_content [OF assms(1)]) (use Suc.prems in simp_all)
  have nz: "content pos \<noteq> 0" using Suc.prems(5) by (metis add_0_right mult_0_right zero_less_Suc)
  have ne: "content (pos + 32 + 32 * j) \<noteq> 0" if "j < e" for j
    using Suc.prems(5) [rule_format, of "Suc j"] that by (simp add: add.assoc)
  have "count_items_loop drv at (st\<lparr>ds_pos := int (pos + 32)\<rparr>) i' =
      Some (i' + int (entries_used content (pos + 32) e), st\<lparr>ds_pos := int (pos + 32)\<rparr>\<lparr>ds_pos := int (pos + 32 + 32 * Suc e)\<rparr>)" for i'
    by (rule Suc.IH) (use Suc.prems(1,3,4) ne in \<open>simp_all add: add.assoc\<close>)
  note ih = this [simplified]
  show ?case
    by (subst count_items_loop.simps) (simp add: r nz ih entries_used_Suc add.assoc)
qed

section \<open>The root directory in memory\<close>

text \<open>The first sector of the root directory.\<close>

definition root_sector :: "fat_header \<Rightarrow> int" where
  "root_sector h = fat_copies h * sectors_per_fat h + reserved_sectors h"

lemma root_sector_bound: "0 \<le> root_sector h" "root_sector h < 2 ^ 25"
proof -
  have c: "0 \<le> fat_copies h" "fat_copies h \<le> 255"
    unfolding fat_copies_def using uint_lt2p [of "h ! 16"] by simp_all
  have f: "0 \<le> sectors_per_fat h" "sectors_per_fat h \<le> 65535" "0 \<le> reserved_sectors h" "reserved_sectors h \<le> 65535"
    using header16_bounds [of h 22] header16_bounds [of h 14] by (simp_all add: sectors_per_fat_def reserved_sectors_def)
  have "fat_copies h * sectors_per_fat h \<le> 255 * 65535" by (rule mult_mono) (use c f in simp_all)
  then show "root_sector h < 2 ^ 25" using f by (simp add: root_sector_def)
  show "0 \<le> root_sector h" using c f by (simp add: root_sector_def)
qed

text \<open>A volume whose header can be read: the FAT16 signature, a root directory whose entries in use end
  with a blank one and which lies where a stream can address it.\<close>

definition volume_ok :: "(nat \<Rightarrow> byte) \<Rightarrow> fat_header \<Rightarrow> nat \<Rightarrow> nat \<Rightarrow> nat \<Rightarrow> bool" where
  "volume_ok content h pos entries e \<longleftrightarrow> h = map content [0..<62] \<and> fat_signature h = 0x29 \<and>
     int pos = root_sector h * 512 \<and> int entries = root_dir_entries h \<and> 0 < entries \<and>
     pos + 32 * entries < 2 ^ 31 \<and> pos + 32 * Suc e < 2 ^ 31 \<and>
     content (pos + 32 * e) = 0 \<and> (\<forall>j<e. content (pos + 32 * j) \<noteq> 0)"

lemma total_items_result:
  fixes s :: "'a fatmem_scheme"
  assumes "drive_serves drv content" "volume_ok content h pos entries e" "dk_sector_size (the_disk s) = 512"
    and "fs_private s = Inr p" "streams s (directory_stream p) = Some st" "ds_disk st = disk_at s"
  shows "fat16_get_total_items_for_directory drv s (word_of_int (root_sector h)) =
    Inr (int (entries_used content pos e), s\<lparr>streams := (streams s)(directory_stream p \<mapsto> st\<lparr>ds_pos := int (pos + 32 * Suc e)\<rparr>)\<rparr>)"
proof -
  have v: "int pos = root_sector h * 512" "pos + 32 * Suc e < 2 ^ 31" "content (pos + 32 * e) = 0" "\<forall>j<e. content (pos + 32 * j) \<noteq> 0"
    using assms(2) by (simp_all add: volume_ok_def)
  have sp: "sint (word_of_int (root_sector h) * word_of_int 512 :: u32) = int pos"
  proof -
    have "(word_of_int (root_sector h) * word_of_int 512 :: u32) = word_of_int (int pos)"
      unfolding v(1) by (simp only: of_int_mult)
    then show ?thesis using v(2) by (simp only:) (rule sint_word_of_int_u32; simp)
  qed
  have "count_items_loop drv (disk_at s) (st\<lparr>ds_pos := int pos\<rparr>) 0 =
      Some (0 + int (entries_used content pos e), st\<lparr>ds_pos := int pos\<rparr>\<lparr>ds_pos := int (pos + 32 * Suc e)\<rparr>)"
    by (rule count_items_content [OF assms(1) _ _ v(2-4)]) (use assms(6) in simp_all)
  then show ?thesis
    unfolding fat16_get_total_items_for_directory_def
    using assms(3-6) sp by (simp add: diskstreamer_seek_def deref_Some returns_def)
qed

lemma root_directory_result:
  fixes s :: "'a fatmem_scheme"
  assumes "drive_serves drv content" "volume_ok content h pos entries e" "dk_sector_size (the_disk s) = 512"
    and "dk_fs_private (the_disk s) = pp" "fat_privates s pp = Some p" "fp_header p = h"
    and "streams s (directory_stream p) = Some st" "ds_disk st = disk_at s"
    and "kmem_ok s" "tail_free (km_heap s) (blocks_for (word_of_int (32 * int entries)) + r)" "fits (word_of_int (32 * int entries))"
  obtains dir hp m pos' where "fat16_get_root_directory drv s pp = Inr (0, s\<lparr>km_heap := hp, km_ram := m,
      streams := (streams s)(directory_stream p \<mapsto> st\<lparr>ds_pos := pos'\<rparr>),
      fat_privates := (fat_privates s)(pp \<mapsto> p\<lparr>root_directory :=
        \<lparr>fd_item = dir, fd_total = int (entries_used content pos e), fd_sector_pos = root_sector h,
         fd_ending_sector_pos = root_sector h + 32 * int entries div 512\<rparr>\<rparr>)\<rparr>)"
    "dir \<noteq> 0" "heap_wf hp" "tail_free hp r"
    "heap_live hp = insert (dir, 4096 * blocks_for (word_of_int (32 * int entries))) (kmem_live s)"
    "(dir, 4096 * blocks_for (word_of_int (32 * int entries))) \<notin> kmem_live s"
    "read_bytes m dir (32 * entries) = map (\<lambda>i. content (pos + i)) [0..<32 * entries]"
    "grows s (s\<lparr>km_heap := hp, km_ram := m\<rparr>)"
proof -
  let ?k = "int (entries_used content pos e)" and ?sz = "32 * int entries"
  have v: "int pos = root_sector h * 512" "pos + 32 * entries < 2 ^ 31" "int entries = root_dir_entries h"
    using assms(2) by (simp_all add: volume_ok_def)
  have pv: "fs_private s = Inr p" using assms(4,5) by (simp add: fs_private_def deref_Some)
  note t = total_items_result [OF assms(1-3) pv assms(7,8)]
  let ?s1 = "s\<lparr>streams := (streams s)(directory_stream p \<mapsto> st\<lparr>ds_pos := int (pos + 32 * Suc e)\<rparr>)\<rparr>"
  have ok1: "kmem_ok ?s1" using assms(9) by (simp add: kmem_ok_def)
  obtain dir hp where k: "kmalloc ?s1 ?sz = Inr (dir, ?s1\<lparr>km_heap := hp\<rparr>)" "dir \<noteq> 0" "heap_wf hp" "tail_free hp r"
    "heap_live hp = insert (dir, 4096 * blocks_for (word_of_int ?sz)) (kmem_live ?s1)"
    "(dir, 4096 * blocks_for (word_of_int ?sz)) \<notin> kmem_live ?s1"
    "grows ?s1 (?s1\<lparr>km_heap := hp\<rparr>)" "region dir (4096 * blocks_for (word_of_int ?sz)) \<subseteq> kmem_spare ?s1"
    by (rule kmalloc_tail [OF ok1 _ assms(11), of r]) (use assms(10) in simp_all)
  have z: "kzalloc ?s1 ?sz = Inr (dir, ?s1\<lparr>km_heap := hp, km_ram := memset (km_ram s) dir 0 ?sz\<rparr>)"
    unfolding kzalloc_def k(1) bindE.simps prod.case by simp
  let ?bs = "map (\<lambda>i. content (pos + i)) [0..<32 * entries]"
  let ?s2 = "?s1\<lparr>km_heap := hp, km_ram := memset (km_ram s) dir 0 ?sz\<rparr>"
  let ?s3 = "?s2\<lparr>streams := (streams ?s2)(directory_stream p \<mapsto> st\<lparr>ds_pos := int pos\<rparr>)\<rparr>"
  have sk: "diskstreamer_seek ?s2 (directory_stream p) (root_sector h * 512) = Inr (0, ?s3)"
    by (simp add: diskstreamer_seek_def deref_Some v(1))
  have "diskstreamer_read drv ?s3 (directory_stream p) (int (32 * entries)) = Inr (0, ?bs,
      ?s3\<lparr>streams := (streams ?s3)(directory_stream p \<mapsto> st\<lparr>ds_pos := int pos\<rparr>\<lparr>ds_pos := int (pos + 32 * entries)\<rparr>)\<rparr>)"
    by (rule diskstreamer_read_result [OF assms(1)]) (use assms(8) v(2) in simp_all)
  then have rd: "diskstreamer_read_to drv ?s3 (directory_stream p) dir ?sz = Inr (0, s\<lparr>km_heap := hp,
      km_ram := write_bytes (memset (km_ram s) dir 0 ?sz) dir ?bs,
      streams := (streams s)(directory_stream p \<mapsto> st\<lparr>ds_pos := int (pos + 32 * entries)\<rparr>)\<rparr>)"
    by (simp add: diskstreamer_read_to_def)
  have usz: "unat (word_of_int ?sz :: u32) = 32 * entries" using unat_nat_small [of "32 * entries"] v(2) by simp
  have "region dir (32 * entries) \<subseteq> region dir (4096 * blocks_for (word_of_int ?sz))"
    by (rule region_mono) (use blocks_for_props(3) [OF assms(11)] usz in simp)
  then have reg: "region dir (32 * entries) \<subseteq> kmem_spare s" using k(8) kmem_heap_view(1) [of ?s1 s] by simp
  let ?m = "write_bytes (memset (km_ram s) dir 0 ?sz) dir ?bs"
  have "?m a = km_ram s a" if "a \<notin> kmem_spare s" for a
  proof -
    have a: "a \<notin> region dir (32 * entries)" using reg that by blast
    then have "?m a = memset (km_ram s) dir 0 ?sz a" by (intro write_bytes_out) simp
    also have "\<dots> = km_ram s a" using a by (intro memset_out) (simp add: nat_mult_distrib)
    finally show ?thesis .
  qed
  moreover have "grows s (s\<lparr>km_heap := hp\<rparr>)" by (rule grows_cong [OF k(7)]) simp_all
  ultimately have "grows s (s\<lparr>km_heap := hp\<rparr>\<lparr>km_ram := ?m\<rparr>)" by (intro grows_store) simp_all
  then have gr: "grows s (s\<lparr>km_heap := hp, km_ram := ?m\<rparr>)" by simp
  have hd: "fat_copies (fp_header p) * sectors_per_fat (fp_header p) + reserved_sectors (fp_header p) = root_sector h"
    "root_dir_entries (fp_header p) * 32 = ?sz" using v(3) by (simp_all add: assms(6) root_sector_def)
  have dv: "?sz sdiv 512 = ?sz div 512" by (simp add: sdiv_nonneg)
  show ?thesis
  proof (rule that [where dir = dir and hp = hp and m = "write_bytes (memset (km_ram s) dir 0 ?sz) dir ?bs" and pos' = "int (pos + 32 * entries)"])
    show "read_bytes (write_bytes (memset (km_ram s) dir 0 ?sz) dir ?bs) dir (32 * entries) = ?bs"
      using read_write_bytes [of ?bs] v(2) by simp
    show "fat16_get_root_directory drv s pp = Inr (0, s\<lparr>km_heap := hp,
      km_ram := write_bytes (memset (km_ram s) dir 0 ?sz) dir ?bs,
      streams := (streams s)(directory_stream p \<mapsto> st\<lparr>ds_pos := int (pos + 32 * entries)\<rparr>),
      fat_privates := (fat_privates s)(pp \<mapsto> p\<lparr>root_directory :=
        \<lparr>fd_item = dir, fd_total = ?k, fd_sector_pos = root_sector h, fd_ending_sector_pos = root_sector h + ?sz div 512\<rparr>\<rparr>)\<rparr>)"
      unfolding fat16_get_root_directory_def deref_Some [where store = "fat_privates s", OF assms(5)] bindE.simps Let_def hd t prod.case z
      using k(2) sk rd assms(3) dv
      by (simp add: fat16_sector_to_absolute_def)
  qed (use k(2-6) gr in \<open>simp_all add: kmem_live_def\<close>)
qed

section \<open>Mounting the volume\<close>

lemma init_private_result:
  fixes s :: "'a fatmem_scheme"
  assumes "kmem_ok s" "tail_free (km_heap s) (3 + r)" "disk_at s \<noteq> 0" "dk_id (the_disk s) = 0"
  obtains q1 q2 q3 hp m f where "fat16_init_private s pp = Inr (s\<lparr>km_heap := hp, km_ram := m, streams := f,
      fat_privates := (fat_privates s)(pp \<mapsto> \<lparr>fp_header = replicate 62 0,
        root_directory = \<lparr>fd_item = 0, fd_total = 0, fd_sector_pos = 0, fd_ending_sector_pos = 0\<rparr>,
        cluster_read_stream = q1, fat_read_stream = q2, directory_stream = q3\<rparr>)\<rparr>)"
    "q2 \<noteq> 0" "heap_wf hp" "tail_free hp r"
    "\<forall>q \<in> {q1, q2, q3}. \<exists>st. f q = Some st \<and> ds_disk st = disk_at s" "grows s (s\<lparr>km_heap := hp, km_ram := m\<rparr>)"
proof -
  have t3: "tail_free (km_heap s) (Suc (Suc (Suc r)))" using assms(2) by (simp add: numeral_3_eq_3)
  let ?n = "\<lparr>ds_pos = 0, ds_disk = disk_at s\<rparr>"
  obtain q1 h1 m1 where 1: "diskstreamer_new s 0 = Inr (q1, s\<lparr>km_heap := h1, km_ram := m1, streams := (streams s)(q1 \<mapsto> ?n)\<rparr>)"
    "heap_wf h1" "tail_free h1 (Suc (Suc r))" "grows s (s\<lparr>km_heap := h1, km_ram := m1\<rparr>)"
    by (rule diskstreamer_new_tail [OF assms(1) t3 assms(3)]) (rule that)
  let ?s1 = "s\<lparr>km_heap := h1, km_ram := m1, streams := (streams s)(q1 \<mapsto> ?n)\<rparr>"
  have ok1: "kmem_ok ?s1" "tail_free (km_heap ?s1) (Suc (Suc r))" "disk_at ?s1 \<noteq> 0" using 1 assms(3) by (simp_all add: kmem_ok_def)
  obtain q2 h2 m2 where 2: "diskstreamer_new ?s1 0 = Inr (q2, ?s1\<lparr>km_heap := h2, km_ram := m2, streams := (streams ?s1)(q2 \<mapsto> ?n)\<rparr>)"
    "q2 \<noteq> 0" "heap_wf h2" "tail_free h2 (Suc r)" "grows ?s1 (?s1\<lparr>km_heap := h2, km_ram := m2\<rparr>)"
    by (rule diskstreamer_new_tail [OF ok1]) (use that in simp)
  let ?s2 = "?s1\<lparr>km_heap := h2, km_ram := m2, streams := (streams ?s1)(q2 \<mapsto> ?n)\<rparr>"
  have ok2: "kmem_ok ?s2" "tail_free (km_heap ?s2) (Suc r)" "disk_at ?s2 \<noteq> 0" using 2 assms(3) by (simp_all add: kmem_ok_def)
  obtain q3 h3 m3 where 3: "diskstreamer_new ?s2 0 = Inr (q3, ?s2\<lparr>km_heap := h3, km_ram := m3, streams := (streams ?s2)(q3 \<mapsto> ?n)\<rparr>)"
    "heap_wf h3" "tail_free h3 r" "grows ?s2 (?s2\<lparr>km_heap := h3, km_ram := m3\<rparr>)"
    by (rule diskstreamer_new_tail [OF ok2]) (use that in simp)
  have "grows s ?s1" by (rule grows_cong [OF 1(4)]) simp_all
  moreover have "grows ?s1 ?s2" by (rule grows_cong [OF 2(5)]) simp_all
  moreover note 3(4)
  ultimately have g: "grows s (?s2\<lparr>km_heap := h3, km_ram := m3\<rparr>)" using grows_trans by blast
  have gr: "grows s (s\<lparr>km_heap := h3, km_ram := m3\<rparr>)" by (rule grows_cong [OF g]) simp_all

  show ?thesis
  proof (rule that [where f = "(streams s)(q1 \<mapsto> ?n, q2 \<mapsto> ?n, q3 \<mapsto> ?n)" and hp = h3 and m = m3])
    show "fat16_init_private s pp = Inr (s\<lparr>km_heap := h3, km_ram := m3, streams := (streams s)(q1 \<mapsto> ?n, q2 \<mapsto> ?n, q3 \<mapsto> ?n),
        fat_privates := (fat_privates s)(pp \<mapsto> \<lparr>fp_header = replicate 62 0,
          root_directory = \<lparr>fd_item = 0, fd_total = 0, fd_sector_pos = 0, fd_ending_sector_pos = 0\<rparr>,
          cluster_read_stream = q1, fat_read_stream = q2, directory_stream = q3\<rparr>)\<rparr>)"
      using 1(1) 2(1) 3(1) assms(4) by (simp add: fat16_init_private_def)
  qed (use 2(2) 3 gr in simp_all)
qed

lemma fat16_resolve_result:
  fixes s :: "'a fatmem_scheme"
  assumes "drive_serves drv content" "volume_ok content h pos entries e" "dk_sector_size (the_disk s) = 512"
    and "kmem_ok s" "tail_free (km_heap s) (5 + (32 * entries + 4095) div 4096 + r)" "disk_at s \<noteq> 0" "dk_id (the_disk s) = 0"
  obtains pp p s' where "fat16_resolve drv s = Inr (0, s')" "fat_mounted s' p" "fp_header p = h"
    "the_disk s' = (the_disk s)\<lparr>dk_fs_private := pp, dk_filesystem := fat16_fs_at s\<rparr>"
    "fd_total (root_directory p) = int (entries_used content pos e)" "fd_sector_pos (root_directory p) = root_sector h"
    "fd_ending_sector_pos (root_directory p) = root_sector h + 32 * int entries div 512"
    "kmem_ok s'" "r < kmem_room s'"
    "read_bytes (km_ram s') (fd_item (root_directory p)) (32 * entries) = map (\<lambda>i. content (pos + i)) [0..<32 * entries]"
    "region (fd_item (root_directory p)) (32 * entries) \<inter> kmem_spare s' = {}"
    "fatmem.more s' = fatmem.more s" "disk_at s' = disk_at s" "grows s s'"
proof -
  let ?sz = "32 * int entries" and ?n = "(32 * entries + 4095) div 4096"
  have v: "h = map content [0..<62]" "fat_signature h = 0x29" "0 < entries" "pos + 32 * entries < 2 ^ 31"
    using assms(2) unfolding volume_ok_def by blast+
  have usz: "unat (word_of_int ?sz :: u32) = 32 * entries" using unat_nat_small [of "32 * entries"] v(4) by simp
  have fit: "fits (word_of_int ?sz)" "blocks_for (word_of_int ?sz) = ?n" using usz v(3,4) by (simp_all add: fits_def blocks_for_def)
  have f92: "fits (word_of_int 92)" "blocks_for (word_of_int 92) = 1" using page_request [of 92] by simp_all
  obtain pp h0 where k: "kmalloc s 92 = Inr (pp, s\<lparr>km_heap := h0\<rparr>)" "pp \<noteq> 0" "heap_wf h0" "tail_free h0 (3 + Suc (?n + r))"
    "grows s (s\<lparr>km_heap := h0\<rparr>)"
    by (rule kmalloc_tail [OF assms(4) _ f92(1), of "3 + Suc (?n + r)"]) (use assms(5) f92(2) that in \<open>simp_all add: add.assoc\<close>)
  let ?s0 = "s\<lparr>km_heap := h0\<rparr>"
  have ok0: "kmem_ok ?s0" "tail_free (km_heap ?s0) (3 + Suc (?n + r))" "disk_at ?s0 \<noteq> 0" "dk_id (the_disk ?s0) = 0"
    using k assms(6,7) by (simp_all add: kmem_ok_def)
  obtain q1 q2 q3 h1 m1 f where i: "fat16_init_private ?s0 pp = Inr (?s0\<lparr>km_heap := h1, km_ram := m1, streams := f,
      fat_privates := (fat_privates ?s0)(pp \<mapsto> \<lparr>fp_header = replicate 62 0,
        root_directory = \<lparr>fd_item = 0, fd_total = 0, fd_sector_pos = 0, fd_ending_sector_pos = 0\<rparr>,
        cluster_read_stream = q1, fat_read_stream = q2, directory_stream = q3\<rparr>)\<rparr>)"
    "q2 \<noteq> 0" "heap_wf h1" "tail_free h1 (Suc (?n + r))" "\<forall>q \<in> {q1, q2, q3}. \<exists>st. f q = Some st \<and> ds_disk st = disk_at s"
    "grows ?s0 (?s0\<lparr>km_heap := h1, km_ram := m1\<rparr>)"
    by (rule init_private_result [OF ok0, of pp]) (use that in simp)
  let ?p0 = "\<lparr>fp_header = replicate 62 0,
        root_directory = \<lparr>fd_item = 0, fd_total = 0, fd_sector_pos = 0, fd_ending_sector_pos = 0\<rparr>,
        cluster_read_stream = q1, fat_read_stream = q2, directory_stream = q3\<rparr>"
  let ?dk = "(the_disk s)\<lparr>dk_fs_private := pp, dk_filesystem := fat16_fs_at s\<rparr>"
  let ?s1 = "s\<lparr>km_heap := h1, km_ram := m1, streams := f, fat_privates := (fat_privates s)(pp \<mapsto> ?p0), the_disk := ?dk\<rparr>"
  have ok1: "kmem_ok ?s1" "tail_free (km_heap ?s1) (Suc (?n + r))" "disk_at ?s1 \<noteq> 0"
    using i(3,4) assms(6) by (simp_all add: kmem_ok_def)
  obtain q h2 m2 where n: "diskstreamer_new ?s1 0 = Inr (q, ?s1\<lparr>km_heap := h2, km_ram := m2,
      streams := (streams ?s1)(q \<mapsto> \<lparr>ds_pos = 0, ds_disk = disk_at s\<rparr>)\<rparr>)"
    "q \<noteq> 0" "heap_wf h2" "tail_free h2 (?n + r)" "heap_live h2 = insert (q, 4096) (kmem_live ?s1)"
    "grows ?s1 (?s1\<lparr>km_heap := h2, km_ram := m2\<rparr>)" "region q 4096 \<subseteq> kmem_spare ?s1"
    by (rule diskstreamer_new_tail [OF ok1]) (use that in simp)
  let ?s2 = "?s1\<lparr>km_heap := h2, km_ram := m2, streams := (streams ?s1)(q \<mapsto> \<lparr>ds_pos = 0, ds_disk = disk_at s\<rparr>)\<rparr>"
  have "diskstreamer_read drv ?s2 q (int 62) = Inr (0, map (\<lambda>i. content (0 + i)) [0..<62],
      ?s2\<lparr>streams := (streams ?s2)(q \<mapsto> \<lparr>ds_pos = 0, ds_disk = disk_at s\<rparr>\<lparr>ds_pos := int (0 + 62)\<rparr>)\<rparr>)"
    by (rule diskstreamer_read_result [OF assms(1)]) simp_all
  then have rd: "diskstreamer_read drv ?s2 q 62 = Inr (0, h, ?s2\<lparr>streams := f(q \<mapsto> \<lparr>ds_pos = 62, ds_disk = disk_at s\<rparr>)\<rparr>)"
    using v(1) by simp
  let ?g = "f(q \<mapsto> \<lparr>ds_pos = 62, ds_disk = disk_at s\<rparr>)" and ?p = "?p0\<lparr>fp_header := h\<rparr>"
  let ?s3 = "?s2\<lparr>streams := ?g, fat_privates := (fat_privates s)(pp \<mapsto> ?p)\<rparr>"
  obtain st where st: "?g q3 = Some st" "ds_disk st = disk_at s" using i(5) by (cases "q3 = q") auto
  have ok3: "kmem_ok ?s3" using n(3) by (simp add: kmem_ok_def)
  obtain dir hp m pos' where d: "fat16_get_root_directory drv ?s3 pp = Inr (0, ?s3\<lparr>km_heap := hp, km_ram := m,
      streams := (streams ?s3)(directory_stream ?p \<mapsto> st\<lparr>ds_pos := pos'\<rparr>),
      fat_privates := (fat_privates ?s3)(pp \<mapsto> ?p\<lparr>root_directory :=
        \<lparr>fd_item = dir, fd_total = int (entries_used content pos e), fd_sector_pos = root_sector h,
         fd_ending_sector_pos = root_sector h + ?sz div 512\<rparr>\<rparr>)\<rparr>)"
    "dir \<noteq> 0" "heap_wf hp" "tail_free hp r"
    "heap_live hp = insert (dir, 4096 * blocks_for (word_of_int ?sz)) (kmem_live ?s3)"
    "(dir, 4096 * blocks_for (word_of_int ?sz)) \<notin> kmem_live ?s3"
    "read_bytes m dir (32 * entries) = map (\<lambda>i. content (pos + i)) [0..<32 * entries]"
    "grows ?s3 (?s3\<lparr>km_heap := hp, km_ram := m\<rparr>)"
    by (rule root_directory_result [OF assms(1,2), of ?s3 pp ?p st r])
      (use assms(3) st ok3 n(4) fit in \<open>simp_all add: that\<close>)
  let ?q = "?p\<lparr>root_directory :=
        \<lparr>fd_item = dir, fd_total = int (entries_used content pos e), fd_sector_pos = root_sector h,
         fd_ending_sector_pos = root_sector h + ?sz div 512\<rparr>\<rparr>"
  let ?s4 = "s\<lparr>km_heap := hp, km_ram := m, streams := ?g(q3 \<mapsto> st\<lparr>ds_pos := pos'\<rparr>),
      fat_privates := (fat_privates s)(pp \<mapsto> ?q), the_disk := ?dk\<rparr>"
  have d': "fat16_get_root_directory drv ?s3 pp = Inr (0, ?s4)" using d(1) by simp
  have body: "resolve_body drv ?s2 pp q = Inr (0, ?s4)"
    unfolding resolve_body_def rd bindE.simps prod.case Let_def using v(2) d' by (simp add: deref_Some)
  have l4: "(q, 4096) \<in> kmem_live ?s4" "kmem_ok ?s4"
    using d(3,5) n(5) by (simp_all add: kmem_live_def kmem_ok_def)
  obtain s5 where f5: "kfree ?s4 q = Inr s5" "kmem_ok s5" "kmem_room s5 = Suc (kmem_room ?s4)"
    "kmem_live s5 = kmem_live ?s4 - {(q, 4096)}" "kmem_spare s5 = kmem_spare ?s4 \<union> region q 4096" "km_ram s5 = km_ram ?s4" "kmem.more s5 = kmem.more ?s4"
    by (rule kfree_block [OF l4(2,1)]) (rule that)
  have s5: "s5 = ?s4\<lparr>km_heap := km_heap s5\<rparr>" by (rule kmem_heap_frame [OF f5(7,6)])
  have res: "fat16_resolve drv s = Inr (0, s5)"
    unfolding fat16_resolve_def k(1) bindE.simps prod.case
    using k(2) i(1) n(1,2) body f5(1) assms(7) by (simp add: diskstreamer_close_def)
  have dl: "(dir, 4096 * ?n) \<in> kmem_live s5"
    using d(5,6) n(5) fit(2) unfolding f5(4) by (auto simp: kmem_live_def)
  have "region dir (32 * entries) \<subseteq> region dir (4096 * ?n)"
    by (rule region_mono) (use blocks_for_props(3) [OF fit(1)] usz fit(2) in simp)
  then have far: "region dir (32 * entries) \<inter> kmem_spare s5 = {}" using kmem_live_not_spare [OF dl] by blast
  have room: "r < kmem_room s5" using tail_room [OF d(4)] f5(3) by (simp add: kmem_room_def)
  have g1: "grows s ?s1"
    by (rule grows_cong [OF grows_trans [OF k(5) i(6)]]) simp_all
  have "grows ?s1 ?s3" by (rule grows_cong [OF n(6)]) simp_all
  then have g3: "grows s ?s3" by (rule grows_trans [OF g1])
  have "grows ?s3 ?s4" by (rule grows_cong [OF d(8)]) simp_all
  then have g4: "grows s ?s4" by (rule grows_trans [OF g3])
  have "kmem_arena s5 = kmem_arena ?s4" using kernel_blocks.release_one [OF l4(2,1) f5(1)] by simp
  moreover have "region q 4096 \<subseteq> kmem_spare s" using n(7) g1 by (auto simp: grows_def)
  ultimately have g5: "grows s s5" using g4 unfolding grows_def f5(5,6) by blast
  have mnt: "fat_mounted ?s4 ?q"
    using i(2,5) st by (auto simp: fat_mounted_def)
  show ?thesis
  proof (rule that [OF res, of ?q pp])
    show "fat_mounted s5 ?q" using mnt by (subst s5) (simp add: fat_mounted_def)
    show "read_bytes (km_ram s5) (fd_item (root_directory ?q)) (32 * entries) = map (\<lambda>i. content (pos + i)) [0..<32 * entries]"
      using d(7) by (simp add: f5(6))
    show "the_disk s5 = ?dk" "disk_at s5 = disk_at s" "fatmem.more s5 = fatmem.more s" by (subst s5, simp)+
  qed (use f5(2) room far g5 in simp_all)
qed

lemma disk_search_and_init_result:
  fixes s :: "'a filemem_scheme"
  assumes "drive_serves drv content" "volume_ok content h pos entries e"
    and "kmem_ok s" "tail_free (km_heap s) (5 + (32 * entries + 4095) div 4096 + r)" "disk_at s \<noteq> 0"
    and "filesystems s = fat16_fs_at s # rest" "fat16_fs_at s \<noteq> 0" "fs_lookup (fat16_fs_at s) = Some (fat16_ops drv)"
  obtains p s' where "disk_search_and_init fs_lookup s = Inr s'" "fat_mounted s' p" "fp_header p = h"
    "dk_filesystem (the_disk s') = fat16_fs_at s" "dk_sector_size (the_disk s') = 512"
    "fd_total (root_directory p) = int (entries_used content pos e)"
    "fd_ending_sector_pos (root_directory p) = root_sector h + 32 * int entries div 512"
    "read_bytes (km_ram s') (fd_item (root_directory p)) (32 * entries) = map (\<lambda>i. content (pos + i)) [0..<32 * entries]"
    "region (fd_item (root_directory p)) (32 * entries) \<inter> kmem_spare s' = {}"
    "kmem_ok s'" "r < kmem_room s'" "disk_at s' = disk_at s" "file_descriptors s' = file_descriptors s" "grows s s'"
proof -
  let ?d = "\<lparr>dk_type = 0, dk_filesystem = 0, dk_id = 0, dk_sector_size = 512, dk_fs_private = 0\<rparr>"
  let ?s = "s\<lparr>the_disk := ?d\<rparr>"
  have pre: "dk_sector_size (the_disk ?s) = 512" "kmem_ok ?s"
    "tail_free (km_heap ?s) (5 + (32 * entries + 4095) div 4096 + r)" "disk_at ?s \<noteq> 0" "dk_id (the_disk ?s) = 0"
    using assms(3-5) by (simp_all add: kmem_ok_def)
  obtain pp p s' where r: "fat16_resolve drv ?s = Inr (0, s')" "fat_mounted s' p" "fp_header p = h"
    "the_disk s' = (the_disk ?s)\<lparr>dk_fs_private := pp, dk_filesystem := fat16_fs_at ?s\<rparr>"
    "fd_total (root_directory p) = int (entries_used content pos e)"
    "fd_ending_sector_pos (root_directory p) = root_sector h + 32 * int entries div 512"
    "kmem_ok s'" "r < kmem_room s'"
    "read_bytes (km_ram s') (fd_item (root_directory p)) (32 * entries) = map (\<lambda>i. content (pos + i)) [0..<32 * entries]"
    "region (fd_item (root_directory p)) (32 * entries) \<inter> kmem_spare s' = {}"
    "fatmem.more s' = fatmem.more ?s" "disk_at s' = disk_at ?s" "grows ?s s'"
    by (rule fat16_resolve_result [OF assms(1,2) pre]) (rule that)
  let ?t = "s'\<lparr>the_disk := (the_disk s')\<lparr>dk_filesystem := fat16_fs_at s\<rparr>\<rparr>"
  have fd: "file_descriptors s' = file_descriptors s" using r(11) by (cases s; cases s'; simp)
  note v = kmem_heap_view [of ?t s']
  show ?thesis
  proof (rule that)
    show "disk_search_and_init fs_lookup s = Inr ?t"
      unfolding disk_search_and_init_def fs_resolve_def
      using assms(6-8) r(1) by (simp add: deref_Some fat16_ops_def)
    show "fat_mounted ?t p" using r(2) by (simp add: fat_mounted_def)
    show "grows s ?t" by (rule grows_cong [OF r(13)]) simp_all
  qed (use r(3-10,12) fd v in simp_all)
qed

section \<open>Properties\<close>

text \<open>C4: Mounting the disk reads its volume: at the start of the kernel, with free blocks at the end of the heap,
  \<open>disk_search_and_init\<close> finds the FAT16 file system; the volume's private data then hold the header of the disk and
  the place of its root directory, whose entries lie in memory byte for byte as on the disk, the data area begins
  behind it, the file system's streams stand ready, and the number of entries is that of the entries in use before
  the first blank one (deleted ones are not counted, although the search goes through the entries in
  their order with that number as its bound).\<close>

theorem disk_search_and_init_mounts:
  fixes s :: "'a filemem_scheme"
  assumes "drive_serves drv content" "volume_ok content h pos entries e"
    and "kmem_ok s" "tail_free (km_heap s) (5 + (32 * entries + 4095) div 4096 + r)" "disk_at s \<noteq> 0"
    and "filesystems s = fat16_fs_at s # rest" "fat16_fs_at s \<noteq> 0" "fs_lookup (fat16_fs_at s) = Some (fat16_ops drv)"
  shows "\<exists>p s'. disk_search_and_init fs_lookup s = Inr s' \<and> fat_mounted s' p \<and> fp_header p = h \<and>
    dk_filesystem (the_disk s') = fat16_fs_at s \<and> dk_sector_size (the_disk s') = 512 \<and>
    fd_total (root_directory p) = int (entries_used content pos e) \<and>
    fd_ending_sector_pos (root_directory p) = root_sector h + 32 * int entries div 512 \<and>
    read_bytes (km_ram s') (fd_item (root_directory p)) (32 * entries) = map (\<lambda>i. content (pos + i)) [0..<32 * entries] \<and>
    region (fd_item (root_directory p)) (32 * entries) \<inter> kmem_spare s' = {} \<and>
    kmem_ok s' \<and> r < kmem_room s' \<and> disk_at s' = disk_at s \<and> file_descriptors s' = file_descriptors s"
  by (rule disk_search_and_init_result [where ?fs_lookup = fs_lookup, OF assms]) blast

text \<open>A disk with one FAT of one sector in front of a root directory of 16 entries: a deleted one, \<open>A\<close>, a blank one.\<close>

definition demo_disk :: "nat \<Rightarrow> byte" where
  "demo_disk a = (if a = 13 \<or> a = 14 \<or> a = 16 \<or> a = 22 then 1 else if a = 17 then 16 else if a = 38 then 0x29
     else if a = 1024 then 0xE5 else if a = 1056 then 65 else 0)"

lemma demo_disk_volume: "volume_ok demo_disk (map demo_disk [0..<62]) 1024 16 2" "entries_used demo_disk 1024 2 = 1"
proof -
  have b: "map demo_disk [0..<62] ! i = demo_disk i" if "i < 62" for i using that by simp
  have w: "header16 (map demo_disk [0..<62]) 14 = 1" "header16 (map demo_disk [0..<62]) 17 = 16"
    "header16 (map demo_disk [0..<62]) 22 = 1"
    by (simp_all add: header16_def b demo_disk_def del: upt.simps)
  have used: "demo_disk (1024 + 32 * j) \<noteq> 0" if "j < 2" for j
    using that by (cases j) (simp_all add: demo_disk_def)
  have blank: "demo_disk 1088 = 0" by (simp add: demo_disk_def)
  from w have "root_sector (map demo_disk [0..<62]) = 2"
    by (simp add: root_sector_def fat_copies_def sectors_per_fat_def reserved_sectors_def b demo_disk_def del: upt.simps)
  moreover have "fat_signature (map demo_disk [0..<62]) = 0x29"
    by (simp add: fat_signature_def b demo_disk_def del: upt.simps)
  ultimately show "volume_ok demo_disk (map demo_disk [0..<62]) 1024 16 2"
    using w(2) blank by (simp add: volume_ok_def root_dir_entries_def used del: upt.simps)
  show "entries_used demo_disk 1024 2 = 1" by (simp add: entries_used_def upt_rec demo_disk_def)
qed

lemma disk_search_and_init_mounts_witness:
  "\<exists>p s'. disk_search_and_init [128 \<mapsto> fat16_ops (drive_of demo_disk)] demo_files = Inr s' \<and> fat_mounted s' p \<and>
     fd_total (root_directory p) = 1 \<and> fd_ending_sector_pos (root_directory p) = 3 \<and>
     read_bytes (km_ram s') (fd_item (root_directory p)) 512 = map (\<lambda>i. demo_disk (1024 + i)) [0..<512]"
proof -
  have t: "tail_free (km_heap demo_files) (5 + (32 * 16 + 4095) div 4096 + 4)"
    by (simp add: tail_free_def free_run_def demo_files_def heap_table_entry_type_def)
  have d: "disk_at demo_files \<noteq> 0" "filesystems demo_files = fat16_fs_at demo_files # replicate 9 0" "fat16_fs_at demo_files \<noteq> 0"
    "[128 \<mapsto> fat16_ops (drive_of demo_disk)] (fat16_fs_at demo_files) = Some (fat16_ops (drive_of demo_disk))"
    by (simp_all add: demo_files_def)
  have "root_sector (map demo_disk [0..<62]) = 2" using demo_disk_volume(1) by (simp add: volume_ok_def del: upt.simps)
  with disk_search_and_init_mounts [where ?fs_lookup = "[128 \<mapsto> fat16_ops (drive_of demo_disk)]", OF drive_of_serves demo_disk_volume(1) demo_files_ready(1) t d] demo_disk_volume(2)
  show ?thesis by (auto simp del: upt.simps)
qed

end
