(* ===== verification/File_Volume.thy ===== *)
theory File_Volume
  imports File_Mount
begin

text \<open>
  The whole way from the disk to a buffer: mounting (\<open>File_Mount\<close>), \<open>fopen\<close> and \<open>fread\<close> (\<open>File_Open\<close>) together, with
  the directory and the chain of clusters stated on the bytes of the disk.
\<close>

section \<open>A directory on the disk and in memory\<close>

lemma path_at_grows: "path_at s path xs \<Longrightarrow> grows s s' \<Longrightarrow> path_at s' path xs"
  by (erule path_at_frame) (simp_all add: grows_def)

text \<open>The first bytes of a disk, read as if they were memory.\<close>

definition disk_view :: "(nat \<Rightarrow> byte) \<Rightarrow> ram" where
  "disk_view content a = content (unat a)"

lemma read_disk_view:
  assumes "pos + n < 2 ^ 32"
  shows "read_bytes (disk_view content) (of_nat pos) n = map (\<lambda>i. content (pos + i)) [0..<n]"
proof (rule nth_equalityI)
  fix i assume "i < length (read_bytes (disk_view content) (of_nat pos) n)"
  then have i: "i < n" by simp
  have "(of_nat pos + of_nat i :: addr) = of_nat (pos + i)" by simp
  then have "unat (of_nat pos + of_nat i :: addr) = pos + i"
    using unat_nat_small [of "pos + i"] i assms by (simp only:)
  then show "read_bytes (disk_view content) (of_nat pos) n ! i = map (\<lambda>i. content (pos + i)) [0..<n] ! i"
    using i by (simp add: disk_view_def)
qed simp

text \<open>A directory is the same wherever its bytes lie.\<close>

lemma entry_moved:
  assumes "read_bytes m dir (32 * n) = read_bytes m' dir' (32 * n)" "i < n"
  shows "read_bytes m (dir + 32 * of_nat i) 32 = read_bytes m' (dir' + 32 * of_nat i) 32"
  using read_bytes_part [OF assms(1), of "32 * i" 32] assms(2) by simp

lemma entry_found_moved:
  assumes "read_bytes m dir (32 * n) = read_bytes m' dir' (32 * n)" "k \<le> n"
  shows "entry_found m dir k j w = entry_found m' dir' k j w"
proof -
  have e: "read_bytes m (dir + 32 * of_nat i) 32 = read_bytes m' (dir' + 32 * of_nat i) 32" if "i < k" for i
    by (rule entry_moved [OF assms(1)]) (use that assms(2) in simp)
  show ?thesis using entry_same(2-4) [OF e] unfolding entry_found_def by auto
qed

text \<open>What the bytes of a file depend on: the header of the volume and where its data area begins.\<close>

definition volume_private :: "fat_header \<Rightarrow> nat \<Rightarrow> fat_private" where
  "volume_private h entries = \<lparr>fp_header = h,
     root_directory = \<lparr>fd_item = 0, fd_total = 0, fd_sector_pos = root_sector h,
       fd_ending_sector_pos = root_sector h + 32 * int entries div 512\<rparr>,
     cluster_read_stream = 0, fat_read_stream = 0, directory_stream = 0\<rparr>"

lemma same_volume:
  assumes "fp_header p = fp_header p'" "fd_ending_sector_pos (root_directory p) = fd_ending_sector_pos (root_directory p')"
  shows "chain_ok content p c K = chain_ok content p' c K" "file_byte content p c i = file_byte content p' c i"
    "cluster_bytes p = cluster_bytes p'"
proof -
  have n: "fat_next content p c = fat_next content p' c" for c by (simp add: fat_next_def assms(1))
  have a: "cluster_at content p c k = cluster_at content p' c k" for c k by (induction k arbitrary: c) (simp_all add: n)
  have l: "links_ok content p c k = links_ok content p' c k" for c k by (induction k arbitrary: c) (simp_all add: n)
  show b: "cluster_bytes p = cluster_bytes p'" by (simp add: cluster_bytes_def assms(1))
  have s: "cluster_pos p c = cluster_pos p' c" for c by (simp add: cluster_pos_def fat16_cluster_to_sector_def assms)
  show "chain_ok content p c K = chain_ok content p' c K" by (simp add: chain_ok_def a l b s)
  show "file_byte content p c i = file_byte content p' c i" by (simp add: file_byte_def a b s)
qed

section \<open>Property\<close>

text \<open>C2: From the disk to a program's buffer: at the start of the kernel, mounting the disk, opening \<open>0:/w\<close> for
  reading and reading \<open>n\<close> bytes through the descriptor gives the first \<open>n\<close> bytes of the file \<open>w\<close> as they lie
  on the disk in its chain of clusters.  The directory is searched on the disk here: among the first
  entries of its root directory, as many as are in use, entry \<open>j\<close> alone has the name \<open>w\<close> and its first cluster is \<open>c\<close>.\<close>

theorem disk_file_read:
  fixes s :: "'a filemem_scheme"
  assumes "drive_serves drv content" "volume_ok content h pos entries e"
    and "kmem_ok s" "tail_free (km_heap s) (5 + (32 * entries + 4095) div 4096 + (length xs + 7))" "disk_at s \<noteq> 0"
    and "filesystems s = fat16_fs_at s # rest" "fat16_fs_at s \<noteq> 0" "fs_lookup (fat16_fs_at s) = Some (fat16_ops drv)"
    and "\<forall>a \<in> kmem_arena s. a < 0x80000000" "path_at s path ([0x30, 0x3A, 0x2F] @ xs)" "path_words xs = [w]" "mode 0 = 0x72"
    and "first_free (file_descriptors s) 0 = Some i" "length (file_descriptors s) = 128"
    and "entry_found (disk_view content) (of_nat pos) (entries_used content pos e) j w" "entries_used content pos e \<le> entries"
    and "fat16_get_first_cluster (disk_view content) (of_nat pos + 32 * of_nat j) = of_nat c"
    and "chain_ok content (volume_private h entries) c K"
    and "0 < n" "n < 2 ^ 31" "n \<le> Suc K * cluster_bytes (volume_private h entries)"
  shows "\<exists>s1 s2 s3. disk_search_and_init fs_lookup s = Inr s1 \<and> fopen fs_lookup s1 path mode = Inr (int i + 1, s2) \<and>
    fread fs_lookup s2 out (of_nat n) 1 (int i + 1) = Inr (1, s3) \<and>
    read_bytes (km_ram s3) out n = map (file_byte content (volume_private h entries) c) [0..<n]"
proof -
  let ?v = "volume_private h entries" and ?k = "entries_used content pos e"
  obtain p s1 where m: "disk_search_and_init fs_lookup s = Inr s1" "fat_mounted s1 p" "fp_header p = h"
    "dk_filesystem (the_disk s1) = fat16_fs_at s" "dk_sector_size (the_disk s1) = 512"
    "fd_total (root_directory p) = int ?k"
    "fd_ending_sector_pos (root_directory p) = root_sector h + 32 * int entries div 512"
    "read_bytes (km_ram s1) (fd_item (root_directory p)) (32 * entries) = map (\<lambda>i. content (pos + i)) [0..<32 * entries]"
    "region (fd_item (root_directory p)) (32 * entries) \<inter> kmem_spare s1 = {}"
    "kmem_ok s1" "length xs + 7 < kmem_room s1" "disk_at s1 = disk_at s" "file_descriptors s1 = file_descriptors s" "grows s s1"
    by (rule disk_search_and_init_result [where ?fs_lookup = fs_lookup, OF assms(1-8)]) (rule that)
  let ?d = "fd_item (root_directory p)"
  have sz: "pos + 32 * entries < 2 ^ 32" using assms(2) by (simp add: volume_ok_def)
  have dir: "read_bytes (km_ram s1) ?d (32 * entries) = read_bytes (disk_view content) (of_nat pos) (32 * entries)"
    using m(8) read_disk_view [OF sz, of content] by simp
  have found: "entry_found (km_ram s1) ?d ?k j w" using entry_found_moved [OF dir assms(16)] assms(15) by simp
  have "j < entries" using assms(15,16) by (simp add: entry_found_def)
  then have cl: "fat16_get_first_cluster (km_ram s1) (?d + 32 * of_nat j) = of_nat c"
    using entry_same(5) [OF entry_moved [OF dir]] assms(17) by simp
  have "region ?d (32 * ?k) \<subseteq> region ?d (32 * entries)" by (rule region_mono) (use assms(16) in simp)
  then have far: "region ?d (32 * ?k) \<inter> kmem_spare s1 = {}" using m(9) by blast
  have ar: "\<forall>a \<in> kmem_arena s1. a < 0x80000000" using assms(9) m(14) by (simp add: grows_def)
  have v: "fp_header p = fp_header ?v" "fd_ending_sector_pos (root_directory p) = fd_ending_sector_pos (root_directory ?v)"
    using m(3,7) by (simp_all add: volume_private_def)
  note sv = same_volume [OF v]
  have room: "length xs + 7 \<le> kmem_room s1" using m(11) by simp
  have dk: "fs_lookup (dk_filesystem (the_disk s1)) = Some (fat16_ops drv)" "dk_filesystem (the_disk s1) \<noteq> 0" "disk_at s1 \<noteq> 0"
    using assms(5,7,8) m(4,12) by simp_all
  have pv: "entry_found (km_ram s1) ?d (nat (fd_total (root_directory p))) j w"
    "region ?d (32 * nat (fd_total (root_directory p))) \<inter> kmem_spare s1 = {}" using found far m(6) by simp_all
  have fds: "first_free (file_descriptors s1) 0 = Some i" "length (file_descriptors s1) = 128" using assms(13,14) m(13) by simp_all
  have ch: "chain_ok content p c K" "n \<le> Suc K * cluster_bytes p" using assms(18,21) sv(1,3) by simp_all
  obtain s2 s3 where "fopen fs_lookup s1 path mode = Inr (int i + 1, s2)"
    "fread fs_lookup s2 out (of_nat n) 1 (int i + 1) = Inr (1, s3)"
    "read_bytes (km_ram s3) out n = map (file_byte content p c) [0..<n]"
    using fopen_fread_result [where ?fs_lookup = fs_lookup and mode = mode and content = content,
        OF m(10) room ar path_at_grows [OF assms(10) m(14)] assms(11,12) dk m(2) assms(1) pv fds cl ch(1) assms(19,20) ch(2)] by blast
  moreover have "map (file_byte content p c) [0..<n] = map (file_byte content ?v c) [0..<n]" by (simp add: sv(2))
  ultimately show ?thesis using m(1) by auto
qed

text \<open>A disk with the FAT in sector 1, the root directory with the file \<open>A\<close> in sector 2 and the data from sector 3 on: the
  file starts in cluster 2 and goes on in cluster 4; every byte of the data is its sector's number.  The kernel starts
  with 14 free blocks and the path \<open>0:/a\<close> at 0x500.\<close>

definition demo_floppy :: "nat \<Rightarrow> byte" where
  "demo_floppy a = (if a = 13 \<or> a = 14 \<or> a = 16 \<or> a = 22 then 1 else if a = 17 then 16 else if a = 38 then 0x29
     else if a = 516 then 4 else if a = 1024 then 65 else if 1025 \<le> a \<and> a \<le> 1035 then 0x20 else if a = 1050 then 2
     else if 1536 \<le> a then of_nat (a div 512) else 0)"

definition demo_start :: filemem where
  "demo_start = demo_files\<lparr>km_heap := \<lparr>h_table = \<lparr>ht_entries = replicate 14 0, ht_total = 14\<rparr>, h_saddr = 0x1000000\<rparr>\<rparr>"

abbreviation demo_header :: fat_header where "demo_header \<equiv> map demo_floppy [0..<62]"

lemma demo_floppy_volume:
  "volume_ok demo_floppy demo_header 1024 16 1" "root_sector demo_header = 2" "entries_used demo_floppy 1024 1 = 1"
proof -
  have b: "demo_header ! i = demo_floppy i" if "i < 62" for i using that by simp
  have w: "header16 demo_header 14 = 1" "header16 demo_header 17 = 16" "header16 demo_header 22 = 1"
    by (simp_all add: header16_def b demo_floppy_def del: upt.simps)
  then show r: "root_sector demo_header = 2"
    by (simp add: root_sector_def fat_copies_def sectors_per_fat_def reserved_sectors_def b demo_floppy_def del: upt.simps)
  moreover have "fat_signature demo_header = 0x29" by (simp add: fat_signature_def b demo_floppy_def del: upt.simps)
  moreover have "demo_floppy 1024 \<noteq> 0" "demo_floppy 1056 = 0" by (simp_all add: demo_floppy_def)
  ultimately show "volume_ok demo_floppy demo_header 1024 16 1"
    using w(2) by (simp add: volume_ok_def root_dir_entries_def del: upt.simps)
  show "entries_used demo_floppy 1024 1 = 1" by (simp add: entries_used_def demo_floppy_def)
qed

lemma demo_start_ready:
  "kmem_ok demo_start" "tail_free (km_heap demo_start) 14" "\<forall>a \<in> kmem_arena demo_start. a < 0x80000000"
  "path_at demo_start 0x500 ([0x30, 0x3A, 0x2F] @ [97])"
proof -
  have "heap_segs (km_heap demo_start) (replicate 14 FreeBlock)"
    by (simp add: heap_segs_def demo_start_def)
  then show "kmem_ok demo_start"
    by (auto simp: kmem_ok_def heap_wf_def demo_start_def paging_is_address_aligned_def)
  show "tail_free (km_heap demo_start) 14"
    by (simp add: tail_free_def free_run_def demo_start_def heap_table_entry_type_def)
  have ar: "kmem_arena demo_start = region 0x1000000 57344"
    by (simp add: kmem_arena_def heap_arena_def demo_start_def)
  have "region (0x500 + of_nat 0 :: addr) 5 \<inter> region (0x500 + of_nat 0xFFFB00) 57344 = {}"
    by (rule region_apart) simp_all
  then have s: "region (0x500 :: addr) 5 \<inter> kmem_spare demo_start = {}"
    by (auto simp: kmem_spare_def spare_in_def ar)
  have "string_in (km_ram demo_start) 0x500 ([0x30, 0x3A, 0x2F] @ [97])"
    using demo_files_ready(4) by (simp add: demo_start_def path_at_def)
  with s show "path_at demo_start 0x500 ([0x30, 0x3A, 0x2F] @ [97])"
    by (simp add: path_at_def eval_nat_numeral)
  show "\<forall>a \<in> kmem_arena demo_start. a < 0x80000000"
  proof
    fix a assume "a \<in> kmem_arena demo_start"
    then obtain i where "a = 0x1000000 + of_nat i" "i < 57344" by (auto simp: ar region_def)
    then show "a < 0x80000000" by (simp add: word_less_nat_alt unat_word_ariths unat_of_nat take_bit_nat_eq_self)
  qed
qed

lemma demo_floppy_entry:
  "entry_found (disk_view demo_floppy) 1024 1 0 [97]" "fat16_get_first_cluster (disk_view demo_floppy) 1024 = 2"
proof -
  have part: "entry_part (disk_view demo_floppy) 1024 8 = [65]" "entry_part (disk_view demo_floppy) 1032 4 = []"
    by (simp_all add: entry_part_def read_bytes_def upt_rec disk_view_def demo_floppy_def)
  have "entry_name (disk_view demo_floppy) 1024 = [65]" by (simp add: entry_name_def part)
  moreover have "tolower 65 = tolower 97" by code_simp
  moreover have "item_attribute (disk_view demo_floppy) 1024 AND FAT_FILE_SUBDIRECTORY = 0"
    by (simp add: item_attribute_def disk_view_def demo_floppy_def)
  ultimately show "entry_found (disk_view demo_floppy) 1024 1 0 [97]"
    by (simp add: entry_found_def entry_named_def entry_matches_def part)
  show "fat16_get_first_cluster (disk_view demo_floppy) 1024 = 2"
    by (simp add: fat16_get_first_cluster_def load16_def disk_view_def demo_floppy_def)
qed

lemma demo_floppy_file:
  "cluster_bytes (volume_private demo_header 16) = 512" "chain_ok demo_floppy (volume_private demo_header 16) 2 1"
  "map (file_byte demo_floppy (volume_private demo_header 16) 2) [0..<514] = replicate 512 3 @ [5, 5]"
proof -
  let ?v = "volume_private demo_header 16"
  have b: "demo_header ! i = demo_floppy i" if "i < 62" for i using that by simp
  have spc: "sectors_per_cluster demo_header = 1" "reserved_sectors demo_header = 1"
    by (simp_all add: sectors_per_cluster_def reserved_sectors_def header16_def b demo_floppy_def del: upt.simps)
  show c: "cluster_bytes ?v = 512" by (simp add: cluster_bytes_def volume_private_def spc del: upt.simps)
  have n: "fat_next demo_floppy ?v 2 = 4" by (simp add: fat_next_def volume_private_def spc del: upt.simps) (simp add: demo_floppy_def)
  have p: "cluster_pos ?v 2 = 1536" "cluster_pos ?v 4 = 2560"
    by (simp_all add: cluster_pos_def fat16_cluster_to_sector_def volume_private_def spc demo_floppy_volume(2) del: upt.simps)
  then show "chain_ok demo_floppy ?v 2 1" by (auto simp: chain_ok_def c n le_Suc_eq)
  have "file_byte demo_floppy ?v 2 i = 3" if "i < 512" for i
  proof -
    have "(1536 + i) div 512 = 3" using that by simp
    then show ?thesis using that by (simp add: file_byte_def c p demo_floppy_def)
  qed
  then have "map (file_byte demo_floppy ?v 2) [0..<512] = replicate 512 3"
    by (intro nth_equalityI) simp_all
  moreover have "file_byte demo_floppy ?v 2 512 = 5" "file_byte demo_floppy ?v 2 513 = 5"
    by (simp_all add: file_byte_def c n p) (simp_all add: demo_floppy_def)
  moreover have "[0..<514] = [0..<512] @ [512, 513]"
    using upt_add_eq_append [of 0 512 2] upt_rec [of 512 514] upt_rec [of 513 514] by (simp del: upt.simps upt_rec_numeral)
  ultimately show "map (file_byte demo_floppy ?v 2) [0..<514] = replicate 512 3 @ [5, 5]" by simp
qed

lemma disk_file_read_witness:
  "\<exists>s1 s2 s3. disk_search_and_init [128 \<mapsto> fat16_ops (drive_of demo_floppy)] demo_start = Inr s1 \<and>
     fopen [128 \<mapsto> fat16_ops (drive_of demo_floppy)] s1 0x500 (\<lambda>i. [0x72, 0] ! i) = Inr (1, s2) \<and>
     fread [128 \<mapsto> fat16_ops (drive_of demo_floppy)] s2 0x5000 514 1 1 = Inr (1, s3) \<and>
     read_bytes (km_ram s3) 0x5000 514 = replicate 512 3 @ [5, 5]"
proof -
  let ?fs = "[128 \<mapsto> fat16_ops (drive_of demo_floppy)] :: filemem fs_table"
  have d: "disk_at demo_start = 64" "file_descriptors demo_start = replicate 128 0" "filesystems demo_start = 128 # replicate 9 0"
    "fat16_fs_at demo_start = 128"
    by (simp_all add: demo_start_def demo_files_def)
  have ff: "first_free (replicate 128 0) 0 = Some 0" by code_simp
  have t: "tail_free (km_heap demo_start) (5 + (32 * 16 + 4095) div 4096 + (length [97 :: byte] + 7))"
    using demo_start_ready(2) by simp
  have "\<exists>s1 s2 s3. disk_search_and_init ?fs demo_start = Inr s1 \<and> fopen ?fs s1 0x500 (\<lambda>i. [0x72, 0] ! i) = Inr (int 0 + 1, s2) \<and>
     fread ?fs s2 0x5000 (of_nat 514) 1 (int 0 + 1) = Inr (1, s3) \<and>
     read_bytes (km_ram s3) 0x5000 514 = map (file_byte demo_floppy (volume_private demo_header 16) 2) [0..<514]"
    by (rule disk_file_read [where ?fs_lookup = ?fs and rest = "replicate 9 0" and w = "[97]" and j = 0 and K = 1, OF drive_of_serves
        demo_floppy_volume(1) demo_start_ready(1) t _ _ _ _ demo_start_ready(3,4)])
      (use demo_floppy_entry demo_floppy_file(2) in \<open>simp_all add: d ff demo_floppy_volume(3) [unfolded One_nat_def] demo_floppy_file(1) del: upt.simps\<close>)
  then show ?thesis unfolding demo_floppy_file(3) by simp
qed

end
