(* ===== verification/Spec2Isabelle.thy ===== *)
theory Spec2Isabelle
  imports Kernel_Main User_Programs Symbol_Table Elf_Map Timer_Interrupt File_Volume
begin

text \<open>
  \<^bold>\<open>A verification development of the COS32 kernel\<close>

  COS32 is a 32-bit kernel for the PC with the library and the programs that run above it.  All paths
  below are relative to the root of the sources.  This theory only joins the others; each opens with
  what it holds.

  \<^bold>\<open>The program and its model\<close>

  \<^item> Memory.  \<open>C_Memory\<close> (\<open>src/memory/memory.c\<close>) has the byte-addressed memory \<open>ram\<close>, a function from
    32-bit addresses to bytes, with regions, loads and stores.  \<open>Kernel_Heap\<close> (\<open>src/memory/heap.c\<close>)
    is the block allocator, \<open>Heap_Alloc\<close> its contract, \<open>KHeap\<close> (\<open>src/memory/kheap.c\<close>) the heap that
    every other component allocates from, \<open>Heap_Room\<close> and \<open>Heap_Tail\<close> the requests that must succeed,
    of a page and of several pages, \<open>C_Array\<close> (\<open>src/memory/array.c\<close>) the growing array.
    \<open>Page_Align\<close> and \<open>Paging\<close> (\<open>src/memory/paging/paging.c\<close>) are the page arithmetic, the page tables,
    the chunks of 4 GB and the queues of page faults; \<open>Page_Memory\<close> says what an access through the
    processor's translation reaches.
  \<^item> Strings and numbers.  \<open>C_String\<close> (\<open>src/string/string.c\<close>), \<open>Itoa\<close> (\<open>itoa\<close> of \<open>src/kernel.c\<close>).
  \<^item> Disk and files.  \<open>Disk\<close> (\<open>src/disk\<close>), \<open>Path_Parser\<close> (\<open>src/fs/pparser.c\<close>), \<open>FAT16\<close>
    (\<open>src/fs/fat/fat16.c\<close>), \<open>File\<close> (\<open>src/fs/file.c\<close>): from sectors over the chain of clusters to
    file descriptors.  \<open>File_Open\<close>, \<open>File_Mount\<close> and \<open>File_Volume\<close> follow a file through all of them.
  \<^item> State.  \<open>Kernel_State\<close> has the record \<open>kstate\<close> of the whole kernel.  The records of the lower
    components are extended step by step (\<open>kmem\<close>, \<open>pmem\<close>, \<open>dmem\<close>, the file layer, the kernel), so that
    an operation of a lower component runs on the state of every higher one.  A global variable is a
    field; objects that structures point to are kept in stores from addresses to records.
  \<^item> Video.  \<open>Rectangle\<close> (\<open>src/video/rectangle.c\<close>), \<open>Font\<close> (\<open>src/video/font\<close>), \<open>Video\<close>
    (\<open>src/video/video.c\<close>).
  \<^item> Tasks and processes.  \<open>Task\<close> (\<open>src/task/task.c\<close>) is the list of tasks, the scheduler and the copies
    between kernel and tasks, \<open>Process\<close> (\<open>src/task/process.c\<close>) the life of a process, \<open>ELF\<close> and
    \<open>Library\<close> (\<open>src/loader\<close>) the loader it uses.  \<open>Task_Copy\<close> and \<open>Process_Arguments\<close> are about the strings
    that pass between kernel and task, \<open>Task_Context\<close> about the registers of a task that waits, \<open>Timer_Interrupt\<close> about
    the interrupt that takes the processor from it,
    \<open>Elf_Map\<close> about the address space of a program and \<open>Symbol_Table\<close> about the symbols of a library.
  \<^item> Devices and interrupts.  \<open>Keyboard\<close> (\<open>src/keyboard\<close>), \<open>GDT\<close> (\<open>src/gdt/gdt.c\<close>), \<open>IDT\<close>
    (\<open>src/idt/idt.c\<close>, \<open>src/timer/pit.c\<close>), \<open>Syscalls\<close> (\<open>src/isr80h\<close>), \<open>Kernel_Main\<close> (\<open>src/kernel.c\<close>).
  \<^item> Programs.  \<open>User_Library\<close> (\<open>src/programs/stdlib\<close>, \<open>src/programs/initlib\<close>) and \<open>User_Programs\<close>
    (\<open>src/programs/shell\<close>, \<open>taskbar\<close>, \<open>crash\<close>, \<open>testlib\<close>).  \<open>User_Terminal\<close> and \<open>User_Commands\<close> hold what the
    library's line reader and command parser do on top of the kernel.

  A key press shows how they interact: the interrupt (\<open>IDT\<close>) enters \<open>Keyboard\<close>, which puts the key
  into the buffer of the current process; the program's read (\<open>User_Terminal\<close>) is interrupt 0x80,
  which \<open>IDT\<close> leads to the command of \<open>Syscalls\<close> that takes the key out of that buffer.

  \<^bold>\<open>Conventions\<close>

  A routine that may stop the machine returns an \<open>outcome\<close>: \<open>Inl\<close> with a failed assertion, a panic, a
  null or dangling pointer, a division by zero or a loop without end, or \<open>Inr\<close> with its result and
  the new state.  Words wrap at their width; a C \<open>int\<close> is an \<open>int\<close>, and conversions are written out.
  Routines that return the sense of a status code keep it: \<open>- EIO\<close> and its like are values.
  Loops bounded by the code are structural recursions.  A loop that may run for ever (a string without
  terminator, a circular list, the scheduler's search) is a partial function in the option monad: \<open>None\<close>
  is a loop that never ends, and claims that it ends are proved as such.

  \<^bold>\<open>Parameters\<close>

  What is not in the sources is an argument: the \<open>drive\<close> (what the disk's ports give), the \<open>mmu\<close>
  (the processor's translation, with \<open>mmu_translates\<close> for what the code relies on), the \<open>image\<close> (where
  the compiler and the linker put locals, literals and routines), the bytes of the keyboard's port, and
  what the addresses in tables of function pointers lead to (\<open>fs_table\<close>; \<open>key_handlers\<close>,
  which \<open>kernel_key_handlers\<close> instantiates with the kernel's listeners; \<open>command_fn\<close>, which \<open>kernel_command\<close>
  instantiates with its commands).  A program's system
  call is a \<open>kernel_call\<close>; \<open>console_call\<close> is the kernel's own answer to the commands for keys,
  characters and memory.

  \<^bold>\<open>Bounds\<close>

  \<open>elf_load\<close> and \<open>process_free\<close> nest, for needed libraries and for subprocesses; their first number
  bounds the nesting, and 0 left is the stop \<open>NoReturn\<close>.  There are at most 12 processes, so 12 is
  enough for \<open>process_free\<close> while no process is an ancestor of itself; libraries that need each other in a circle nest for ever in the code too.

  \<^bold>\<open>Interfaces\<close>

  Locales state what one component promises another, and each is interpreted on the model's own
  definitions: \<open>allocator\<close> (twice: for the block heap and, on the state of the kernel, for
  \<open>kmalloc\<close> and \<open>kfree\<close>), \<open>block_allocator\<close> for requests that must be granted, \<open>page_map\<close> for the
  tables of pages, \<open>key_queue\<close> for the key buffer, \<open>typed_keys\<close> and \<open>console\<close> for what a program
  reads and shows, \<open>program_heap\<close> for the memory it is granted.

  \<^bold>\<open>What is shown\<close>

  \<^item> The heap: an invariant of the table, first fit, and for every sequence of requests that a client,
    by its own account of what it was answered and gave back, never has two pieces of memory that
    overlap; release as the inverse of allocation, the end of the table as an error; the growing array
    keeps its elements.
  \<^item> Paging: a new chunk maps every page to itself; a mapping changes the pages of its range only.
  \<^item> Strings: \<open>strtok\<close> gives the tokens, \<open>strncpy\<close> stays in its bound, \<open>itoa\<close> and its text are inverse;
    a path that parses is the drive and the names between its slashes.
  \<^item> Files, from the disk to the buffer: a stream reads the bytes of the disk; a cluster-aligned read
    follows the chain and gives the bytes of the file; the entries of a directory give the file of a
    name; mounting a volume, opening a path and reading give exactly the file's bytes.
  \<^item> Tasks: an inductive step relation for the scheduler with its invariant and progress, the task it
    chooses, round robin, what a timer tick wakes, the list of tasks under insertion and removal (of the running task too),
    the registers with which an interrupted task goes on, whatever ran meanwhile, and the timer
    interrupt as a whole.
  \<^item> Processes: memory granted is mapped and entered, and goes back at the end; the arguments of a
    program as it finds them; the pages of an ELF program hold its segments; the library that has a
    name and the address of a symbol are found.
  \<^item> Devices: the key buffer refines a queue, from the key press to the read; descriptors and gates
    are what the processor should read; a system call runs its command.
  \<^item> Video: a terminal refines an edited line, filling a rectangle is \<open>memset\<close>.
  \<^item> Programs: reading a line gives the keys up to Enter, edited; a command becomes its words.

  Where the code does not do what it means to, the model follows the code and a theorem shows the
  case (the awake count that stops at the first sleeping task, the stale link of a removed task, the
  full key buffer, the listener that hangs).

  \<^bold>\<open>Not modelled\<close>

  Assembly other than the stubs of the system calls (the boot sector, the entry, interrupt wrappers,
  \<open>task_return\<close>, loading the control registers): what it does to the state is a field (the page
  directory in force, the current task) or the result \<open>EntersTask\<close>.  The port instructions; the task
  state segment; constants and declarations.  Interleaving inside the kernel: the gates are interrupt gates, which
  turn interrupts off.
\<close>

end
